(* ===== verification/Ztnet_Prelude.thy ===== *)
theory Ztnet_Prelude
  imports Main "HOL-Library.Word"
begin

text \<open>
  Shared prelude of the ZTNet development: the fragment of JavaScript that the server code
  under \<^verbatim>\<open>src/services/ztnet/src\<close> relies on, and the generic lemmas the components share.

  \<^item> Errors: a thrown exception is the left value of a sum, and sequencing is \<open>rbind\<close>.
  \<^item> Strings are \<open>string\<close> (code units below 256), with \<^verbatim>\<open>split\<close>, \<^verbatim>\<open>join\<close>, \<^verbatim>\<open>trim\<close>,
    \<^verbatim>\<open>toLowerCase\<close> and the truthiness test of a nullable string.
  \<^item> Numbers: integers, with \<^verbatim>\<open>NaN\<close> as \<open>None\<close>; the bitwise operators convert to signed
    32-bit integers exactly as ECMAScript's \<^verbatim>\<open>ToInt32\<close> does.
  \<^item> \<^verbatim>\<open>parseInt\<close>, \<^verbatim>\<open>Number\<close> and \<^verbatim>\<open>toString\<close> on strings of digits, with the round trip
    between them.
\<close>

named_theorems js_defs \<open>definitions of the JavaScript fragment\<close>
named_theorems model_defs \<open>definitions of the components, for evaluation\<close>

section \<open>Errors as values\<close>

type_synonym ('e, 'a) result = "'e + 'a"

definition rbind :: "'e + 'a \<Rightarrow> ('a \<Rightarrow> 'e + 'b) \<Rightarrow> 'e + 'b" where
  "rbind m f = (case m of Inl e \<Rightarrow> Inl e | Inr x \<Rightarrow> f x)"

definition ensure :: "bool \<Rightarrow> 'e \<Rightarrow> 'e + unit" where
  "ensure b e = (if b then Inr () else Inl e)"

definition of_option :: "'e \<Rightarrow> 'a option \<Rightarrow> 'e + 'a" where
  "of_option e x = (case x of None \<Rightarrow> Inl e | Some v \<Rightarrow> Inr v)"

definition is_ok :: "'e + 'a \<Rightarrow> bool" where
  "is_ok m = (case m of Inl _ \<Rightarrow> False | Inr _ \<Rightarrow> True)"

lemma rbind_simps [simp]:
  "rbind (Inl e) f = Inl e"
  "rbind (Inr x) f = f x"
  by (simp_all add: rbind_def)

lemma rbind_Inr_iff: "rbind m f = Inr y \<longleftrightarrow> (\<exists>x. m = Inr x \<and> f x = Inr y)"
  by (cases m) auto

lemma rbind_Inl_iff: "rbind m f = Inl e \<longleftrightarrow> m = Inl e \<or> (\<exists>x. m = Inr x \<and> f x = Inl e)"
  by (cases m) auto

lemma ensure_simps [simp]:
  "ensure True e = Inr ()"
  "ensure False e = Inl e"
  by (simp_all add: ensure_def)

lemma ensure_Inr_iff [simp]: "ensure b e = Inr u \<longleftrightarrow> b"
  by (simp add: ensure_def)

lemma ensure_Inl_iff [simp]: "ensure b e = Inl e' \<longleftrightarrow> \<not> b \<and> e' = e"
  by (auto simp: ensure_def)

lemma of_option_simps [simp]:
  "of_option e None = Inl e"
  "of_option e (Some v) = Inr v"
  by (simp_all add: of_option_def)

lemma of_option_Inr_iff [simp]: "of_option e x = Inr v \<longleftrightarrow> x = Some v"
  by (cases x) simp_all

lemma of_option_Inl_iff [simp]: "of_option e x = Inl e' \<longleftrightarrow> x = None \<and> e' = e"
  by (cases x) auto

lemma is_ok_simps [simp]:
  "is_ok (Inl e) = False"
  "is_ok (Inr x) = True"
  by (simp_all add: is_ok_def)

lemma is_ok_iff: "is_ok m \<longleftrightarrow> (\<exists>x. m = Inr x)"
  by (cases m) auto

lemmas result_iffs = rbind_Inr_iff rbind_Inl_iff is_ok_iff

section \<open>Lists\<close>

lemma find_Some_mem: "find P xs = Some x \<Longrightarrow> x \<in> set xs \<and> P x"
  by (induction xs) (auto split: if_splits)

lemma find_None_all: "find P xs = None \<longleftrightarrow> (\<forall>x\<in>set xs. \<not> P x)"
  by (induction xs) auto

lemma find_unique:
  assumes "distinct (map f xs)" and "x \<in> set xs"
  shows "find (\<lambda>y. f y = f x) xs = Some x"
  using assms by (induction xs) auto

lemma find_map_cong:
  assumes "\<And>x. x \<in> set xs \<Longrightarrow> P (g x) = Q x"
  shows "find P (map g xs) = map_option g (find Q xs)"
  using assms by (induction xs) auto

definition nth_opt :: "'a list \<Rightarrow> nat \<Rightarrow> 'a option" where
  "nth_opt xs i = (if i < length xs then Some (xs ! i) else None)"

lemma nth_opt_simps [simp]:
  "nth_opt [] i = None"
  "nth_opt (x # xs) 0 = Some x"
  "nth_opt (x # xs) (Suc i) = nth_opt xs i"
  by (simp_all add: nth_opt_def)

text \<open>The insertion-ordered JavaScript \<^verbatim>\<open>Set\<close> and \<^verbatim>\<open>Map\<close> built from a list keep the first
  position of each key.\<close>

function js_set :: "'a list \<Rightarrow> 'a list" where
  "js_set [] = []"
| "js_set (x # xs) = x # js_set (filter (\<lambda>y. y \<noteq> x) xs)"
  by pat_completeness auto
termination
  by (relation "measure length") (auto intro: le_imp_less_Suc)

lemma set_js_set [simp]: "set (js_set xs) = set xs"
  by (induction xs rule: js_set.induct) auto

lemma distinct_js_set [simp]: "distinct (js_set xs)"
  by (induction xs rule: js_set.induct) auto

section \<open>Transition systems\<close>

text \<open>What a component owes for each of its step relations: an invariant that every step keeps.
  The client facts are that every reachable state satisfies it, and that any fact the invariant
  implies holds along every run.\<close>

locale step_invariant =
  fixes step :: "'s \<Rightarrow> 's \<Rightarrow> bool"
    and inv :: "'s \<Rightarrow> bool"
  assumes step_keeps: "inv s \<Longrightarrow> step s t \<Longrightarrow> inv t"
begin

lemma run_keeps: "step\<^sup>*\<^sup>* s t \<Longrightarrow> inv s \<Longrightarrow> inv t"
  by (induction rule: rtranclp_induct) (auto intro: step_keeps)

lemma run_safe:
  assumes "step\<^sup>*\<^sup>* s t" and "inv s" and "\<And>u. inv u \<Longrightarrow> P u"
  shows "P t"
  using assms run_keeps by blast

end

section \<open>Effects with errors\<close>

text \<open>An operation that throws keeps what it has written: the outcome and the state are returned side by side,
  and the rest of the operation runs only after a success.\<close>

definition sbind :: "('e + 'a) \<times> 's \<Rightarrow> ('a \<Rightarrow> 's \<Rightarrow> ('e + 'b) \<times> 's) \<Rightarrow> ('e + 'b) \<times> 's" where
  "sbind m f = (case m of (Inl e, s) \<Rightarrow> (Inl e, s) | (Inr x, s) \<Rightarrow> f x s)"

lemma sbind_simps [simp]: "sbind (Inl e, s) f = (Inl e, s)" "sbind (Inr x, s) f = f x s"
  by (simp_all add: sbind_def)

lemma sbind_keeps:
  assumes "R (snd m)" "\<And>x s. m = (Inr x, s) \<Longrightarrow> R s \<Longrightarrow> R (snd (f x s))"
  shows "R (snd (sbind m f))"
  using assms by (cases m; cases "fst m") auto

lemma sbind_ok_iff: "fst (sbind m f) = Inr y \<longleftrightarrow> (\<exists>x s. m = (Inr x, s) \<and> fst (f x s) = Inr y)"
  by (cases m; cases "fst m") auto

section \<open>Scoped procedures\<close>

text \<open>What a group of guarded procedures owes: from a state with the invariant, a request keeps it and leaves
  the view of every part of the state alone that it may not touch. The client facts are about sequences of
  requests. Where no invariant is needed, \<open>scoped_requests\<close> is the contract.\<close>

locale guarded_requests =
  fixes run :: "'rq \<Rightarrow> 's \<Rightarrow> 's"
    and view :: "'n \<Rightarrow> 's \<Rightarrow> 'v"
    and may :: "'rq \<Rightarrow> 'n \<Rightarrow> bool"
    and inv :: "'s \<Rightarrow> bool"
  assumes keeps: "inv s \<Longrightarrow> inv (run rq s)"
    and respects: "inv s \<Longrightarrow> \<not> may rq n \<Longrightarrow> view n (run rq s) = view n s"
begin

lemma runs_keep: "inv s \<Longrightarrow> inv (fold run rqs s)"
  by (induction rqs arbitrary: s) (simp_all add: keeps)

lemma runs_respect: "inv s \<Longrightarrow> \<forall>rq\<in>set rqs. \<not> may rq n \<Longrightarrow> view n (fold run rqs s) = view n s"
  by (induction rqs arbitrary: s) (simp_all add: keeps respects)

lemma change_needs_permission: "inv s \<Longrightarrow> view n (fold run rqs s) \<noteq> view n s \<Longrightarrow> \<exists>rq\<in>set rqs. may rq n"
  using runs_respect by blast

end

locale scoped_requests =
  fixes run :: "'rq \<Rightarrow> 's \<Rightarrow> 's"
    and view :: "'n \<Rightarrow> 's \<Rightarrow> 'v"
    and may :: "'rq \<Rightarrow> 'n \<Rightarrow> bool"
  assumes untouched: "\<not> may rq n \<Longrightarrow> view n (run rq s) = view n s"

sublocale scoped_requests \<subseteq> guarded_requests run view may "\<lambda>_. True"
  by unfold_locales (simp_all add: untouched)

end
