(* ===== verification/JS_Values.thy ===== *)
theory JS_Values
  imports Ztnet_Prelude
begin

text \<open>
  JavaScript values the server code computes with: strings and their methods, numbers and
  the 32-bit bitwise operators, and the conversions between the two.
\<close>

section \<open>Strings\<close>

text \<open>The truthiness of a nullable string: neither \<^verbatim>\<open>null\<close>/\<^verbatim>\<open>undefined\<close> nor empty.\<close>

definition truthy :: "string option \<Rightarrow> bool" where
  "truthy s = (case s of None \<Rightarrow> False | Some t \<Rightarrow> t \<noteq> [])"

lemma truthy_simps [simp]:
  "truthy None = False"
  "truthy (Some t) = (t \<noteq> [])"
  by (simp_all add: truthy_def)

text \<open>\<^verbatim>\<open>a || b\<close> on a nullable string and a default.\<close>

definition str_or :: "string option \<Rightarrow> string \<Rightarrow> string" where
  "str_or s d = (if truthy s then the s else d)"

lemma str_or_simps [simp]:
  "str_or None d = d"
  "str_or (Some []) d = d"
  "str_or (Some (c # cs)) d = c # cs"
  by (simp_all add: str_or_def)

definition code :: "char \<Rightarrow> nat" where
  "code c = of_char c"

definition is_space :: "char \<Rightarrow> bool" where
  "is_space c = (code c \<in> {9, 10, 11, 12, 13, 32, 160})"

definition js_trim :: "string \<Rightarrow> string" where
  "js_trim s = rev (dropWhile is_space (rev (dropWhile is_space s)))"

definition is_digit :: "char \<Rightarrow> bool" where
  "is_digit c = (48 \<le> code c \<and> code c \<le> 57)"

definition is_lower :: "char \<Rightarrow> bool" where
  "is_lower c = (97 \<le> code c \<and> code c \<le> 122)"

definition is_upper :: "char \<Rightarrow> bool" where
  "is_upper c = (65 \<le> code c \<and> code c \<le> 90)"

definition is_alpha :: "char \<Rightarrow> bool" where
  "is_alpha c = (is_lower c \<or> is_upper c)"

definition is_alnum :: "char \<Rightarrow> bool" where
  "is_alnum c = (is_alpha c \<or> is_digit c)"

definition is_hex :: "char \<Rightarrow> bool" where
  "is_hex c = (is_digit c \<or> (97 \<le> code c \<and> code c \<le> 102) \<or> (65 \<le> code c \<and> code c \<le> 70))"

text \<open>ASCII letters; the code units from 192 to 222 (except 215) fold as in Latin-1.\<close>

definition lower_char :: "char \<Rightarrow> char" where
  "lower_char c = (if is_upper c \<or> (192 \<le> code c \<and> code c \<le> 222 \<and> code c \<noteq> 215)
                   then char_of (code c + 32) else c)"

definition to_lower :: "string \<Rightarrow> string" where
  "to_lower s = map lower_char s"

text \<open>\<^verbatim>\<open>s.split(sep)\<close> for a separator of one character, and \<^verbatim>\<open>xs.join(sep)\<close>.\<close>

fun js_split :: "char \<Rightarrow> string \<Rightarrow> string list" where
  "js_split d [] = [[]]"
| "js_split d (c # cs) =
     (if c = d then [] # js_split d cs
      else (case js_split d cs of [] \<Rightarrow> [[c]] | w # ws \<Rightarrow> (c # w) # ws))"

fun js_join :: "string \<Rightarrow> string list \<Rightarrow> string" where
  "js_join sep [] = []"
| "js_join sep [x] = x"
| "js_join sep (x # y # ys) = x @ sep @ js_join sep (y # ys)"

lemma js_split_nonempty [simp]: "js_split d s \<noteq> []"
  by (induction s) (auto split: list.splits)

lemma js_split_no_sep: "d \<notin> set s \<Longrightarrow> js_split d s = [s]"
  by (induction s) auto

lemma js_split_append:
  "d \<notin> set s \<Longrightarrow> js_split d (s @ d # t) = s # js_split d t"
  by (induction s) auto

lemma js_split_join:
  assumes "xs \<noteq> []" and "\<forall>x\<in>set xs. d \<notin> set x"
  shows "js_split d (js_join [d] xs) = xs"
  using assms
  by (induction "[d]" xs rule: js_join.induct) (auto simp: js_split_no_sep js_split_append)

lemma js_join_split: "js_join [d] (js_split d s) = s"
proof (induction s)
  case Nil
  then show ?case by simp
next
  case (Cons c s)
  obtain w ws where w: "js_split d s = w # ws"
    by (cases "js_split d s") auto
  show ?case
  proof (cases "c = d")
    case True
    with Cons w show ?thesis by simp
  next
    case False
    with Cons w show ?thesis by (cases ws) auto
  qed
qed

lemma js_trim_idem_ends:
  assumes "s \<noteq> []" and "\<not> is_space (hd s)" and "\<not> is_space (last s)"
  shows "js_trim s = s"
proof -
  have d: "dropWhile is_space s = s"
    using assms(1,2) by (cases s) auto
  have "dropWhile is_space (rev s) = rev s"
    using assms(1,3) by (cases "rev s") (auto simp: last_rev [symmetric] hd_rev)
  with d show ?thesis by (simp add: js_trim_def)
qed

section \<open>Numbers and the bitwise operators\<close>

text \<open>\<^verbatim>\<open>ToInt32\<close> of an integer, and the operators that apply it to their operands.\<close>

definition to_int32 :: "int \<Rightarrow> int" where
  "to_int32 x = (let m = x mod 2 ^ 32 in if m < 2 ^ 31 then m else m - 2 ^ 32)"

definition to_uint32 :: "int \<Rightarrow> int" where
  "to_uint32 x = x mod 2 ^ 32"

definition js_shl :: "int \<Rightarrow> int \<Rightarrow> int" where
  "js_shl a n = to_int32 (a * 2 ^ nat (n mod 32))"

definition js_shr :: "int \<Rightarrow> int \<Rightarrow> int" where
  "js_shr a n = to_int32 a div 2 ^ nat (n mod 32)"

definition js_ushr :: "int \<Rightarrow> int \<Rightarrow> int" where
  "js_ushr a n = to_uint32 a div 2 ^ nat (n mod 32)"

definition js_and :: "int \<Rightarrow> int \<Rightarrow> int" where
  "js_and a b = and (to_int32 a) (to_int32 b)"

definition js_or :: "int \<Rightarrow> int \<Rightarrow> int" where
  "js_or a b = or (to_int32 a) (to_int32 b)"

definition js_xor :: "int \<Rightarrow> int \<Rightarrow> int" where
  "js_xor a b = xor (to_int32 a) (to_int32 b)"

definition js_not :: "int \<Rightarrow> int" where
  "js_not a = - to_int32 a - 1"

lemmas [js_defs] = to_int32_def to_uint32_def js_shl_def js_shr_def js_ushr_def
  js_and_def js_or_def js_xor_def js_not_def

text \<open>A number that may be \<^verbatim>\<open>NaN\<close> (\<open>None\<close>): the bitwise operators read \<^verbatim>\<open>NaN\<close> as 0,
  addition propagates it, and comparisons with it are false.\<close>

type_synonym num = "int option"

definition nan0 :: "num \<Rightarrow> int" where
  "nan0 x = (case x of None \<Rightarrow> 0 | Some n \<Rightarrow> n)"

definition num_add :: "num \<Rightarrow> num \<Rightarrow> num" where
  "num_add a b = (case a of None \<Rightarrow> None | Some x \<Rightarrow> map_option (\<lambda>y. x + y) b)"

definition num_le :: "num \<Rightarrow> num \<Rightarrow> bool" where
  "num_le a b = (case a of None \<Rightarrow> False | Some x \<Rightarrow> (case b of None \<Rightarrow> False | Some y \<Rightarrow> x \<le> y))"

lemma num_simps [simp]:
  "nan0 None = 0" "nan0 (Some n) = n"
  "num_add (Some x) (Some y) = Some (x + y)"
  "num_add None b = None" "num_add a None = None"
  "num_le (Some x) (Some y) = (x \<le> y)"
  "num_le None b = False" "num_le a None = False"
  by (auto simp: nan0_def num_add_def num_le_def split: option.splits)

lemma mod_int32_neg:
  assumes "- 4294967296 \<le> (x::int)" and "x < 0"
  shows "x mod 4294967296 = x + 4294967296"
proof -
  have "x mod 4294967296 = (x + 4294967296) mod 4294967296" by simp
  also have "\<dots> = x + 4294967296" using assms by (intro mod_pos_pos_trivial) auto
  finally show ?thesis .
qed

lemma to_int32_small [simp]:
  assumes "- 2147483648 \<le> x" and "x < 2147483648"
  shows "to_int32 x = x"
  using assms by (cases "0 \<le> x") (auto simp: to_int32_def Let_def mod_int32_neg)

lemma to_uint32_small [simp]: "0 \<le> x \<Longrightarrow> x < 4294967296 \<Longrightarrow> to_uint32 x = x"
  by (simp add: to_uint32_def)

lemma to_uint32_of_int32 [simp]: "to_uint32 (to_int32 x) = to_uint32 x"
  by (simp add: to_int32_def to_uint32_def Let_def)

lemma to_uint32_range: "0 \<le> to_uint32 x" "to_uint32 x < 4294967296"
  by (simp_all add: to_uint32_def)

lemma to_int32_range: "- 2147483648 \<le> to_int32 x" "to_int32 x < 2147483648"
  by (simp_all add: to_int32_def Let_def) presburger+

section \<open>Numbers to strings and back\<close>

definition digit_val :: "char \<Rightarrow> nat" where
  "digit_val c = code c - 48"

definition hex_val :: "char \<Rightarrow> nat" where
  "hex_val c = (if is_digit c then code c - 48
                else if 97 \<le> code c then code c - 87 else code c - 55)"

definition digits_val :: "nat \<Rightarrow> string \<Rightarrow> nat" where
  "digits_val acc s = foldl (\<lambda>a c. a * 10 + digit_val c) acc s"

definition hexs_val :: "nat \<Rightarrow> string \<Rightarrow> nat" where
  "hexs_val acc s = foldl (\<lambda>a c. a * 16 + hex_val c) acc s"

fun nat_str :: "nat \<Rightarrow> string" where
  "nat_str n = (if n < 10 then [char_of (48 + n)] else nat_str (n div 10) @ [char_of (48 + n mod 10)])"

declare nat_str.simps [simp del]

definition int_str :: "int \<Rightarrow> string" where
  "int_str n = (if n < 0 then CHR ''-'' # nat_str (nat (- n)) else nat_str (nat n))"

text \<open>A sign, consumed by both \<^verbatim>\<open>parseInt\<close> and \<^verbatim>\<open>Number\<close>.\<close>

fun take_sign :: "string \<Rightarrow> int \<times> string" where
  "take_sign (CHR ''-'' # s) = (- 1, s)"
| "take_sign (CHR ''+'' # s) = (1, s)"
| "take_sign s = (1, s)"

definition parse_int10 :: "string \<Rightarrow> num" where
  "parse_int10 s =
     (let (sg, t) = take_sign (dropWhile is_space s); ds = takeWhile is_digit t
      in if ds = [] then None else Some (sg * int (digits_val 0 ds)))"

text \<open>\<^verbatim>\<open>parseInt(s)\<close> without a radix also reads a hexadecimal prefix.\<close>

fun strip_0x :: "string \<Rightarrow> string option" where
  "strip_0x (CHR ''0'' # c # s) = (if c = CHR ''x'' \<or> c = CHR ''X'' then Some s else None)"
| "strip_0x s = None"

definition parse_int :: "string \<Rightarrow> num" where
  "parse_int s =
     (let (sg, t) = take_sign (dropWhile is_space s)
      in case strip_0x t of
           Some h \<Rightarrow> (let hs = takeWhile is_hex h
                      in if hs = [] then None else Some (sg * int (hexs_val 0 hs)))
         | None \<Rightarrow> (let ds = takeWhile is_digit t
                    in if ds = [] then None else Some (sg * int (digits_val 0 ds))))"

definition parse_hex :: "string \<Rightarrow> num" where
  "parse_hex s =
     (let (sg, t) = take_sign (dropWhile is_space s);
          u = (case strip_0x t of Some h \<Rightarrow> h | None \<Rightarrow> t); hs = takeWhile is_hex u
      in if hs = [] then None else Some (sg * int (hexs_val 0 hs)))"

text \<open>\<^verbatim>\<open>Number(s)\<close>: a decimal \<open>m / 10 ^ k\<close>, an infinity, or \<^verbatim>\<open>NaN\<close>. Literals are kept exact:
  the rounding of a literal to the nearest double is not modelled.\<close>

datatype jsnum = JNaN | JInf bool | JDec int nat

definition scale10 :: "nat \<Rightarrow> nat \<Rightarrow> int \<Rightarrow> jsnum" where
  "scale10 m k e = (if int k \<le> e then JDec (int m * 10 ^ nat (e - int k)) 0
                    else JDec (int m) (nat (int k - e)))"

definition parse_exp :: "string \<Rightarrow> int option" where
  "parse_exp s =
     (case s of [] \<Rightarrow> Some 0
      | c # t \<Rightarrow> if c = CHR ''e'' \<or> c = CHR ''E''
                 then (let (sg, ds) = take_sign t
                       in if ds \<noteq> [] \<and> list_all is_digit ds then Some (sg * int (digits_val 0 ds))
                          else None)
                 else None)"

definition js_decimal :: "string \<Rightarrow> jsnum" where
  "js_decimal s =
     (let ip = takeWhile is_digit s; r = dropWhile is_digit s;
          (fp, r2) = (case r of c # t \<Rightarrow> if c = CHR ''.''
                                          then (takeWhile is_digit t, dropWhile is_digit t) else ([], r)
                      | [] \<Rightarrow> ([], r))
      in if ip = [] \<and> fp = [] then JNaN
         else (case parse_exp r2 of None \<Rightarrow> JNaN
               | Some e \<Rightarrow> scale10 (digits_val 0 (ip @ fp)) (length fp) e))"

definition js_negate :: "jsnum \<Rightarrow> jsnum" where
  "js_negate x = (case x of JNaN \<Rightarrow> JNaN | JInf b \<Rightarrow> JInf (\<not> b) | JDec m k \<Rightarrow> JDec (- m) k)"

text \<open>Octal and binary literals, after their \<^verbatim>\<open>0o\<close> and \<^verbatim>\<open>0b\<close> prefixes.\<close>

definition radix_val :: "nat \<Rightarrow> string \<Rightarrow> jsnum" where
  "radix_val b s =
     (if s \<noteq> [] \<and> list_all (\<lambda>c. is_digit c \<and> digit_val c < b) s
      then JDec (int (foldl (\<lambda>a c. a * b + digit_val c) 0 s)) 0 else JNaN)"

definition js_Number :: "string \<Rightarrow> jsnum" where
  "js_Number s =
     (let t = js_trim s in
      if t = [] then JDec 0 0
      else case strip_0x t of
        Some h \<Rightarrow> if h \<noteq> [] \<and> list_all is_hex h then JDec (int (hexs_val 0 h)) 0 else JNaN
      | None \<Rightarrow>
        (if take 2 t = ''0o'' \<or> take 2 t = ''0O'' then radix_val 8 (drop 2 t)
         else if take 2 t = ''0b'' \<or> take 2 t = ''0B'' then radix_val 2 (drop 2 t)
         else (let (sg, u) = take_sign t;
                   v = (if u = ''Infinity'' then JInf True else js_decimal u)
               in if sg < 0 then js_negate v else v)))"

definition js_is_integer :: "jsnum \<Rightarrow> bool" where
  "js_is_integer x = (case x of JDec m k \<Rightarrow> 10 ^ k dvd m | _ \<Rightarrow> False)"

text \<open>The integer part, which is what \<^verbatim>\<open>ToInt32\<close> starts from; \<^verbatim>\<open>NaN\<close> and infinities give 0.\<close>

definition js_trunc :: "jsnum \<Rightarrow> int" where
  "js_trunc x = (case x of JDec m k \<Rightarrow> sgn m * (\<bar>m\<bar> div 10 ^ k) | _ \<Rightarrow> 0)"

subsection \<open>Digits\<close>

lemma code_char_of [simp]: "n < 256 \<Longrightarrow> code (char_of n) = n"
  by (simp add: code_def)

lemma digit_char [simp]:
  "n < 10 \<Longrightarrow> is_digit (char_of (48 + n))"
  "n < 10 \<Longrightarrow> digit_val (char_of (48 + n)) = n"
  "n < 10 \<Longrightarrow> \<not> is_space (char_of (48 + n))"
  by (simp_all add: is_digit_def digit_val_def is_space_def)

lemma nat_str_digits: "list_all is_digit (nat_str n)"
proof (induction n rule: nat_str.induct)
  case (1 n)
  then show ?case by (subst nat_str.simps) auto
qed

lemma nat_str_nonempty [simp]: "nat_str n \<noteq> []"
  by (subst nat_str.simps) auto

lemma digits_val_nat_str [simp]: "digits_val 0 (nat_str n) = n"
proof (induction n rule: nat_str.induct)
  case (1 n)
  then show ?case by (subst nat_str.simps) (auto simp: digits_val_def)
qed

lemma nat_str_inject [simp]: "nat_str m = nat_str n \<longleftrightarrow> m = n"
  by (metis digits_val_nat_str)

lemma digit_not_special:
  assumes "is_digit c"
  shows "\<not> is_space c" "c \<noteq> CHR ''-''" "c \<noteq> CHR ''+''" "c \<noteq> CHR ''.''" "c \<noteq> CHR ''/''"
    "c \<noteq> CHR '',''" "c \<noteq> CHR ''x''" "c \<noteq> CHR ''X''" "c \<noteq> CHR ''-''" "c \<noteq> CHR '':''"
    "c \<noteq> CHR ''o''" "c \<noteq> CHR ''O''" "c \<noteq> CHR ''b''" "c \<noteq> CHR ''B''" "c \<noteq> CHR ''I''"
  using assms by (auto simp: is_digit_def is_space_def code_def)

lemma nat_str_no_char:
  "\<not> is_digit c \<Longrightarrow> c \<notin> set (nat_str n)"
  using nat_str_digits [of n] by (auto simp: list_all_iff)

lemma takeWhile_digits [simp]: "list_all is_digit s \<Longrightarrow> takeWhile is_digit s = s"
  by (induction s) auto

lemma dropWhile_digits [simp]: "list_all is_digit s \<Longrightarrow> dropWhile is_digit s = []"
  by (induction s) auto

lemma nat_str_Cons:
  obtains c cs where "nat_str n = c # cs" "is_digit c" "list_all is_digit cs" "digits_val 0 (c # cs) = n"
  using nat_str_digits [of n] digits_val_nat_str [of n]
  by (cases "nat_str n") auto

lemma take_sign_digit: "is_digit c \<Longrightarrow> take_sign (c # cs) = (1, c # cs)"
  by (cases "c # cs" rule: take_sign.cases) (auto dest: digit_not_special)

lemma strip_0x_digits: "list_all is_digit s \<Longrightarrow> strip_0x s = None"
  by (cases s rule: strip_0x.cases) (auto dest: digit_not_special)

lemma parse_int10_nat_str [simp]: "parse_int10 (nat_str n) = Some (int n)"
proof -
  obtain c cs where c: "nat_str n = c # cs" "is_digit c" "list_all is_digit cs" "digits_val 0 (c # cs) = n"
    by (rule nat_str_Cons)
  then show ?thesis
    by (simp add: parse_int10_def take_sign_digit digit_not_special(1))
qed

lemma parse_int_nat_str [simp]: "parse_int (nat_str n) = Some (int n)"
proof -
  obtain c cs where c: "nat_str n = c # cs" "is_digit c" "list_all is_digit cs" "digits_val 0 (c # cs) = n"
    by (rule nat_str_Cons)
  have x: "strip_0x (c # cs) = None" using c by (intro strip_0x_digits) simp
  show ?thesis
    using c x by (simp add: parse_int_def take_sign_digit digit_not_special(1))
qed

lemma js_trim_nat_str [simp]: "js_trim (nat_str n) = nat_str n"
proof (rule js_trim_idem_ends)
  have d: "\<forall>c\<in>set (nat_str n). is_digit c" using nat_str_digits by (simp add: list_all_iff)
  show "nat_str n \<noteq> []" by simp
  from d show "\<not> is_space (hd (nat_str n))" "\<not> is_space (last (nat_str n))"
    by (simp_all add: digit_not_special(1))
qed

lemma js_Number_nat_str [simp]: "js_Number (nat_str n) = JDec (int n) 0"
proof -
  obtain c cs where c: "nat_str n = c # cs" "is_digit c" "list_all is_digit cs" "digits_val 0 (c # cs) = n"
    by (rule nat_str_Cons)
  have all: "list_all is_digit (c # cs)" using c by simp
  have x: "strip_0x (c # cs) = None" using all by (rule strip_0x_digits)
  have p: "take 2 (c # cs) \<noteq> ''0o''" "take 2 (c # cs) \<noteq> ''0O''"
    "take 2 (c # cs) \<noteq> ''0b''" "take 2 (c # cs) \<noteq> ''0B''"
    using c by (cases cs; auto simp: is_digit_def code_def)+
  have i: "c # cs \<noteq> ''Infinity''" using c by (auto simp: is_digit_def code_def)
  have d: "js_decimal (c # cs) = JDec (int n) 0"
    using c by (simp add: js_decimal_def parse_exp_def scale10_def)
  show ?thesis
    using c x p i d js_trim_nat_str [of n] by (auto simp: js_Number_def Let_def take_sign_digit)
qed

end
