(* ===== verification/Ztnet_DB.thy ===== *)
theory Ztnet_DB
  imports JS_Values
begin

text \<open>
  The account side of the Prisma schema (\<^verbatim>\<open>prisma/schema.prisma\<close>): users, groups, credential
  accounts, devices, networks with their owner, organisation roles and API tokens. A table
  is the list of its rows; \<open>findUnique\<close> and \<open>findFirst\<close> are \<open>find\<close>; times are milliseconds.
\<close>

section \<open>Rows\<close>

datatype role = READ_ONLY | USER | MODERATOR | ADMIN

record user_row =
  u_id :: string
  u_name :: string
  u_email :: string
  u_role :: role
  u_hash :: "string option"
  u_firstTime :: bool
  u_twoFactorEnabled :: bool
  u_twoFactorSecret :: "string option"
  u_failedLoginAttempts :: nat
  u_lastFailedLoginAttempt :: "int option"
  u_requestChangePassword :: bool
  u_userGroupId :: "int option"
  u_expiresAt :: "int option"
  u_isActive :: bool
  u_lastLogin :: int

record group_row =
  g_id :: int
  g_name :: string
  g_maxNetworks :: int
  g_isDefault :: bool
  g_expiresAt :: "int option"

record account_row =
  a_userId :: string
  a_providerId :: string
  a_accountId :: string
  a_password :: "string option"

record device_row =
  d_deviceId :: string
  d_userId :: string
  d_ipAddress :: string
  d_userAgent :: string
  d_isActive :: bool
  d_lastActive :: int

record network_row =
  n_nwid :: string
  n_name :: "string option"
  n_authorId :: "string option"
  n_organizationId :: "string option"
  n_routeTargets :: "string list"

record org_role_row =
  or_userId :: string
  or_organizationId :: string
  or_role :: role

record api_token_row =
  t_id :: string
  t_userId :: string
  t_token :: string
  t_expiresAt :: "int option"

record db =
  users :: "user_row list"
  groups :: "group_row list"
  accounts :: "account_row list"
  devices :: "device_row list"
  networks :: "network_row list"
  org_roles :: "org_role_row list"
  api_tokens :: "api_token_row list"
  enableRegistration :: "bool option"

section \<open>Queries and updates\<close>

definition find_user :: "string \<Rightarrow> db \<Rightarrow> user_row option" where
  "find_user uid d = find (\<lambda>u. u_id u = uid) (users d)"

definition find_group :: "int option \<Rightarrow> db \<Rightarrow> group_row option" where
  "find_group gid d = (case gid of None \<Rightarrow> None | Some i \<Rightarrow> find (\<lambda>g. g_id g = i) (groups d))"

definition find_network :: "string \<Rightarrow> db \<Rightarrow> network_row option" where
  "find_network nwid d = find (\<lambda>n. n_nwid n = nwid) (networks d)"

definition update_user :: "string \<Rightarrow> (user_row \<Rightarrow> user_row) \<Rightarrow> db \<Rightarrow> db" where
  "update_user uid f d = d\<lparr>users := map (\<lambda>u. if u_id u = uid then f u else u) (users d)\<rparr>"

text \<open>The primary key of the user table, and the unique e-mail address.\<close>

definition users_wf :: "db \<Rightarrow> bool" where
  "users_wf d \<longleftrightarrow> distinct (map u_id (users d)) \<and> distinct (map u_email (users d))"

fun role_value :: "role \<Rightarrow> nat" where
  "role_value READ_ONLY = 0"
| "role_value USER = 1"
| "role_value MODERATOR = 2"
| "role_value ADMIN = 3"

instantiation role :: linorder
begin

definition less_eq_role :: "role \<Rightarrow> role \<Rightarrow> bool" where
  "less_eq_role a b \<longleftrightarrow> role_value a \<le> role_value b"

definition less_role :: "role \<Rightarrow> role \<Rightarrow> bool" where
  "less_role a b \<longleftrightarrow> role_value a < role_value b"

instance
proof
  fix a b c :: role
  show "a \<le> a" "(a < b) = (a \<le> b \<and> \<not> b \<le> a)" "a \<le> b \<or> b \<le> a" "a \<le> b \<Longrightarrow> b \<le> c \<Longrightarrow> a \<le> c"
    by (auto simp: less_eq_role_def less_role_def)
  show "a \<le> b \<Longrightarrow> b \<le> a \<Longrightarrow> a = b"
    by (cases a; cases b) (auto simp: less_eq_role_def)
qed

end

lemma le_ADMIN [simp]: "r \<le> ADMIN"
  by (cases r) (simp_all add: less_eq_role_def)

lemma find_user_Some: "find_user uid d = Some u \<Longrightarrow> u \<in> set (users d) \<and> u_id u = uid"
  by (auto simp: find_user_def dest: find_Some_mem)

lemma find_user_update:
  assumes "\<And>u. u_id (f u) = u_id u"
  shows "find_user uid (update_user vid f d) = map_option (if uid = vid then f else id) (find_user uid d)"
proof -
  have "find (\<lambda>u. u_id u = uid) (map (\<lambda>u. if u_id u = vid then f u else u) us)
      = map_option (if uid = vid then f else id) (find (\<lambda>u. u_id u = uid) us)" for us
    using assms by (induction us) auto
  then show ?thesis by (simp add: find_user_def update_user_def)
qed

lemma update_user_frame [simp]:
  "groups (update_user vid f d) = groups d" "accounts (update_user vid f d) = accounts d"
  "devices (update_user vid f d) = devices d" "networks (update_user vid f d) = networks d"
  "org_roles (update_user vid f d) = org_roles d" "api_tokens (update_user vid f d) = api_tokens d"
  "enableRegistration (update_user vid f d) = enableRegistration d"
  by (simp_all add: update_user_def)

end
