(* ===== verification/Access_Control.thy ===== *)
theory Access_Control
  imports Ztnet_DB
begin

text \<open>
  Who may do what: organisation roles (\<^verbatim>\<open>utils/role.ts\<close>), network access
  (\<^verbatim>\<open>utils/networkAccess.ts\<close>), API tokens (\<^verbatim>\<open>utils/encryption.ts\<close>), the REST wrappers
  (\<^verbatim>\<open>utils/apiRouteAuth.ts\<close>, \<^verbatim>\<open>utils/errors.tsx\<close>), the tRPC middlewares
  (\<^verbatim>\<open>server/api/trpc.ts\<close>) and the active-session check (\<^verbatim>\<open>lib/activeSession.ts\<close>).
  Decryption and JSON parsing of a token are the parameter \<open>decode\<close>.
\<close>

section \<open>Organisation roles\<close>

datatype error_code = BAD_REQUEST | UNAUTHORIZED | FORBIDDEN | NOT_FOUND | TOO_MANY_REQUESTS
  | INTERNAL_SERVER_ERROR

text \<open>The exceptions of this component: a tRPC error with its code, a tRPC client error, a plain
  \<^verbatim>\<open>Error\<close>, a validation error.\<close>

datatype exn = TRPCError error_code string | TRPCClientError string | PlainError string | ZodError

abbreviation not_member_msg :: string where
  "not_member_msg \<equiv> ''You are not a member of this organization. Contact your organization administrator to request access.''"

abbreviation no_permission_msg :: string where
  "no_permission_msg \<equiv> ''You don't have required permission to perform this action. Contact your organization administrator to request access.''"

definition find_org_role :: "string \<Rightarrow> string \<Rightarrow> db \<Rightarrow> org_role_row option" where
  "find_org_role orgId userId d = find (\<lambda>r. or_organizationId r = orgId \<and> or_userId r = userId) (org_roles d)"

definition checkUserOrganizationRole :: "db \<Rightarrow> string \<Rightarrow> string \<Rightarrow> role \<Rightarrow> exn + unit" where
  "checkUserOrganizationRole d userId organizationId minimumRequiredRole =
     (case find_org_role organizationId userId d of
        None \<Rightarrow> Inl (TRPCClientError not_member_msg)
      | Some orgUserRole \<Rightarrow>
          if or_role orgUserRole = ADMIN then Inr ()
          else if role_value (or_role orgUserRole) \<ge> role_value minimumRequiredRole then Inr ()
          else Inl (PlainError no_permission_msg))"

definition checkNetworkAccess :: "db \<Rightarrow> string \<Rightarrow> string \<Rightarrow> role \<Rightarrow> exn + unit" where
  "checkNetworkAccess d userId nwid minimumRequiredRole =
     (case find_network nwid d of
        None \<Rightarrow> Inl (TRPCError NOT_FOUND ''Network not found!'')
      | Some network \<Rightarrow>
          if truthy (n_organizationId network)
          then checkUserOrganizationRole d userId (the (n_organizationId network)) minimumRequiredRole
          else if n_authorId network \<noteq> Some userId
          then Inl (TRPCError BAD_REQUEST ''You do not have access to this network!'')
          else Inr ())"

section \<open>API tokens\<close>

datatype authorization_type = PERSONAL | ORGANIZATION

text \<open>A field of the decrypted JSON: absent or falsy, a non-empty string, or another truthy value.\<close>

datatype json_field = JFalsy | JText string | JOther

record token_payload =
  tp_userId :: json_field
  tp_tokenId :: json_field
  tp_authorizationType :: "authorization_type list option"

text \<open>What decrypting and parsing an API key gives: an exception, a JSON \<^verbatim>\<open>null\<close> (whose
  properties cannot be read), or an object.\<close>

datatype decoded = Undecodable | DecodedNull | Decoded token_payload

fun payload_of :: "decoded \<Rightarrow> exn + token_payload" where
  "payload_of Undecodable = Inl (PlainError ''Invalid token'')"
| "payload_of DecodedNull = Inl (PlainError ''TypeError'')"
| "payload_of (Decoded p) = Inr p"

definition tokens_of :: "string \<Rightarrow> string \<Rightarrow> db \<Rightarrow> api_token_row list" where
  "tokens_of userId apiKey d = filter (\<lambda>t. t_userId t = userId \<and> t_token t = apiKey) (api_tokens d)"

definition find_token :: "string \<Rightarrow> string \<Rightarrow> db \<Rightarrow> api_token_row option" where
  "find_token tokenId userId d = find (\<lambda>t. t_id t = tokenId \<and> t_userId t = userId) (api_tokens d)"

definition decryptAndVerifyToken ::
  "(string \<Rightarrow> decoded) \<Rightarrow> int \<Rightarrow> db \<Rightarrow> string option \<Rightarrow> bool \<Rightarrow> authorization_type
     \<Rightarrow> exn + string" where
  "decryptAndVerifyToken decode now d apiKey requireAdmin authType =
     rbind (ensure (truthy apiKey) (PlainError ''API key missing'')) (\<lambda>_.
     rbind (payload_of (decode (the apiKey))) (\<lambda>p.
     case tp_userId p of
       JText userId \<Rightarrow>
         rbind (ensure (tp_tokenId p \<noteq> JFalsy) (PlainError ''Invalid token'')) (\<lambda>_.
         rbind (ensure (case tp_authorizationType p of None \<Rightarrow> False | Some ts \<Rightarrow> authType \<in> set ts)
                  (PlainError ''Invalid Authorization Type'')) (\<lambda>_.
         (case tp_tokenId p of
            JText tokenId \<Rightarrow>
              rbind (of_option (PlainError ''Invalid token'') (find_token tokenId userId d)) (\<lambda>token.
              rbind (ensure (case t_expiresAt token of None \<Rightarrow> True | Some e \<Rightarrow> \<not> e < now)
                       (PlainError ''Token expired'')) (\<lambda>_.
              rbind (of_option (PlainError ''Unauthorized'') (find_user userId d)) (\<lambda>user.
              rbind (ensure (tokens_of userId (the apiKey) d \<noteq> [])
                       (PlainError ''Invalid or expired token'')) (\<lambda>_.
              rbind (ensure (\<not> (u_role user \<noteq> ADMIN \<and> requireAdmin)) (PlainError ''Unauthorized'')) (\<lambda>_.
              Inr userId)))))
          | _ \<Rightarrow> Inl (PlainError ''PrismaClientValidationError''))))
     | _ \<Rightarrow> Inl (PlainError ''Invalid token'')))"

section \<open>REST wrappers\<close>

text \<open>A header or query value: absent, one string, or (rejected by the schema) a repeated one.\<close>

datatype req_value = Absent | One string | Many "string list"

record api_request =
  h_auth :: req_value
  q_orgid :: req_value
  q_nwid :: req_value
  q_memberId :: req_value
  q_id :: req_value

fun parse_value :: "req_value \<Rightarrow> exn + string option" where
  "parse_value Absent = Inr None"
| "parse_value (One s) = Inr (Some s)"
| "parse_value (Many ss) = Inl ZodError"

record parsed_request =
  p_apiKey :: "string option"
  p_orgId :: "string option"
  p_nwid :: "string option"
  p_memberId :: "string option"
  p_id :: "string option"

definition ApiRequestSchema_parse :: "api_request \<Rightarrow> exn + parsed_request" where
  "ApiRequestSchema_parse r =
     rbind (parse_value (h_auth r)) (\<lambda>k.
     rbind (parse_value (q_orgid r)) (\<lambda>org.
     rbind (parse_value (q_nwid r)) (\<lambda>nw.
     rbind (parse_value (q_memberId r)) (\<lambda>mem.
     rbind (parse_value (q_id r)) (\<lambda>i.
     Inr \<lparr>p_apiKey = k, p_orgId = org, p_nwid = nw, p_memberId = mem, p_id = i\<rparr>)))))"

text \<open>A response sent instead of running the handler.\<close>

record response =
  status :: nat
  message :: string

fun http_status :: "error_code \<Rightarrow> nat" where
  "http_status BAD_REQUEST = 400"
| "http_status UNAUTHORIZED = 401"
| "http_status FORBIDDEN = 403"
| "http_status NOT_FOUND = 404"
| "http_status TOO_MANY_REQUESTS = 429"
| "http_status INTERNAL_SERVER_ERROR = 500"

fun handleApiErrors :: "exn \<Rightarrow> response" where
  "handleApiErrors ZodError = \<lparr>status = 400, message = ''Validation error''\<rparr>"
| "handleApiErrors (TRPCError c m) = \<lparr>status = http_status c, message = m\<rparr>"
| "handleApiErrors (PlainError m) =
     (if m = ''Invalid token'' then \<lparr>status = 401, message = ''Invalid token''\<rparr>
      else \<lparr>status = 500, message = m\<rparr>)"
| "handleApiErrors (TRPCClientError m) =
     (if m = ''Invalid token'' then \<lparr>status = 401, message = ''Invalid token''\<rparr>
      else \<lparr>status = 500, message = m\<rparr>)"

text \<open>The context the wrapper hands to the route handler. \<open>Inl\<close> is a response that was sent
  without running the handler.\<close>

record handler_context =
  hc_userId :: string
  hc_orgId :: "string option"
  hc_networkId :: "string option"
  hc_memberId :: "string option"

definition catching :: "exn + 'a \<Rightarrow> response + 'a" where
  "catching m = (case m of Inl e \<Rightarrow> Inl (handleApiErrors e) | Inr x \<Rightarrow> Inr x)"

definition SecuredOrganizationApiRoute ::
  "(string \<Rightarrow> decoded) \<Rightarrow> int \<Rightarrow> db \<Rightarrow> role \<Rightarrow> bool \<Rightarrow> bool \<Rightarrow> api_request
     \<Rightarrow> response + handler_context" where
  "SecuredOrganizationApiRoute decode now d requiredRole requireNetworkId requireOrgId req =
     rbind (catching (ApiRequestSchema_parse req)) (\<lambda>v.
     rbind (ensure (truthy (p_apiKey v)) \<lparr>status = 401, message = ''API Key is required''\<rparr>) (\<lambda>_.
     rbind (ensure (\<not> (requireOrgId \<and> \<not> truthy (p_orgId v)))
              \<lparr>status = 400, message = ''Organization ID is required''\<rparr>) (\<lambda>_.
     rbind (ensure (\<not> (requireNetworkId \<and> \<not> truthy (p_nwid v)))
              \<lparr>status = 400, message = ''Network ID is required''\<rparr>) (\<lambda>_.
     catching
       (rbind (decryptAndVerifyToken decode now d (p_apiKey v) False ORGANIZATION) (\<lambda>userId.
        rbind (if truthy (p_orgId v)
               then checkUserOrganizationRole d userId (the (p_orgId v)) requiredRole else Inr ()) (\<lambda>_.
        Inr \<lparr>hc_userId = userId, hc_orgId = p_orgId v, hc_networkId = p_nwid v,
             hc_memberId = p_memberId v\<rparr>)))))))"

definition SecuredPrivateApiRoute ::
  "(string \<Rightarrow> decoded) \<Rightarrow> int \<Rightarrow> db \<Rightarrow> bool \<Rightarrow> bool \<Rightarrow> bool \<Rightarrow> api_request
     \<Rightarrow> response + handler_context" where
  "SecuredPrivateApiRoute decode now d requireNetworkId requireMemberId requireAdmin req =
     rbind (catching (ApiRequestSchema_parse req)) (\<lambda>v.
     rbind (ensure (truthy (p_apiKey v)) \<lparr>status = 401, message = ''API Key is required''\<rparr>) (\<lambda>_.
     rbind (ensure (\<not> (requireNetworkId \<and> \<not> truthy (p_id v)))
              \<lparr>status = 400, message = ''Network ID is required''\<rparr>) (\<lambda>_.
     rbind (ensure (\<not> (requireMemberId \<and> \<not> truthy (p_memberId v)))
              \<lparr>status = 400, message = ''Member ID is required''\<rparr>) (\<lambda>_.
     rbind (catching (decryptAndVerifyToken decode now d (p_apiKey v) requireAdmin PERSONAL)) (\<lambda>userId.
     rbind (ensure (\<not> requireNetworkId \<or>
                    (\<exists>n\<in>set (networks d). p_id v = Some (n_nwid n) \<and> n_authorId n = Some userId))
              \<lparr>status = 401, message = ''Network not found or access denied.''\<rparr>) (\<lambda>_.
     Inr \<lparr>hc_userId = userId, hc_orgId = None, hc_networkId = p_id v,
          hc_memberId = p_memberId v\<rparr>))))))"

section \<open>tRPC procedures and sessions\<close>

record session_user =
  s_userId :: string
  s_role :: role

definition enforceUserIsAuthed :: "session_user option \<Rightarrow> exn + session_user" where
  "enforceUserIsAuthed session = of_option (TRPCError UNAUTHORIZED ''UNAUTHORIZED'') session"

definition enforceUserIsAdmin :: "session_user option \<Rightarrow> exn + session_user" where
  "enforceUserIsAdmin session =
     rbind (of_option (TRPCError UNAUTHORIZED ''UNAUTHORIZED'') session) (\<lambda>s.
     rbind (ensure (s_role s = ADMIN) (TRPCError FORBIDDEN ''FORBIDDEN'')) (\<lambda>_. Inr s))"

text \<open>\<^verbatim>\<open>emitNetworkChangeOnMutation\<close>: the channels on which a "changed" event is emitted after the
  procedure ran. A failing emit is swallowed.\<close>

definition networkMembersChannel :: "string \<Rightarrow> string" where
  "networkMembersChannel nwid = ''network-members:'' @ nwid"

definition emitNetworkChangeOnMutation ::
  "bool \<Rightarrow> bool \<Rightarrow> bool \<Rightarrow> string option \<Rightarrow> string option \<Rightarrow> string list" where
  "emitNetworkChangeOnMutation isMutation resultOk hasWss nwid networkId =
     (let target = (case nwid of Some n \<Rightarrow> Some n | None \<Rightarrow> networkId)
      in if isMutation \<and> resultOk \<and> hasWss \<and> truthy target
         then [networkMembersChannel (the target)] else [])"

text \<open>The expiry of the user's group, \<^verbatim>\<open>user.userGroup?.expiresAt\<close>, and the test that a date is set
  and not in the future.\<close>

definition group_expiry :: "user_row \<Rightarrow> db \<Rightarrow> int option" where
  "group_expiry user d = (case find_group (u_userGroupId user) d of None \<Rightarrow> None | Some g \<Rightarrow> g_expiresAt g)"

definition past :: "int \<Rightarrow> int option \<Rightarrow> bool" where
  "past now t = (case t of None \<Rightarrow> False | Some e \<Rightarrow> e \<le> now)"

definition getActiveSession :: "int \<Rightarrow> db \<Rightarrow> session_user option \<Rightarrow> session_user option" where
  "getActiveSession now d session =
     (case session of
        None \<Rightarrow> None
      | Some s \<Rightarrow>
        (case find_user (s_userId s) d of
           None \<Rightarrow> None
         | Some user \<Rightarrow>
           (if \<not> u_isActive user
               \<or> past now (u_expiresAt user)
               \<or> (u_role user \<noteq> ADMIN \<and> past now (group_expiry user d))
            then None
            else Some (s\<lparr>s_role := u_role user\<rparr>))))"

text \<open>The primary keys this component relies on: network ids, and one role per user and
  organisation.\<close>

definition access_wf :: "db \<Rightarrow> bool" where
  "access_wf d \<longleftrightarrow> distinct (map n_nwid (networks d))
     \<and> distinct (map (\<lambda>r. (or_organizationId r, or_userId r)) (org_roles d))"

text \<open>The access policy in terms of the rows alone.\<close>

definition org_member_at_least :: "db \<Rightarrow> string \<Rightarrow> string \<Rightarrow> role \<Rightarrow> bool" where
  "org_member_at_least d userId orgId minimum \<longleftrightarrow>
     (\<exists>r\<in>set (org_roles d). or_userId r = userId \<and> or_organizationId r = orgId \<and> minimum \<le> or_role r)"

definition may_access :: "db \<Rightarrow> string \<Rightarrow> string \<Rightarrow> role \<Rightarrow> bool" where
  "may_access d userId nwid minimum \<longleftrightarrow>
     (\<exists>n\<in>set (networks d). n_nwid n = nwid
        \<and> (case n_organizationId n of
             Some (c # cs) \<Rightarrow> org_member_at_least d userId (c # cs) minimum
           | _ \<Rightarrow> n_authorId n = Some userId))"

text \<open>What a verified token guarantees.\<close>

definition token_grants ::
  "(string \<Rightarrow> decoded) \<Rightarrow> int \<Rightarrow> db \<Rightarrow> string \<Rightarrow> authorization_type \<Rightarrow> string \<Rightarrow> bool" where
  "token_grants decode now d apiKey authType userId \<longleftrightarrow>
     (\<exists>p tokenId ts t u. decode apiKey = Decoded p
        \<and> tp_userId p = JText userId \<and> tp_tokenId p = JText tokenId
        \<and> tp_authorizationType p = Some ts \<and> authType \<in> set ts
        \<and> t \<in> set (api_tokens d) \<and> t_id t = tokenId \<and> t_userId t = userId
        \<and> (case t_expiresAt t of None \<Rightarrow> True | Some e \<Rightarrow> now \<le> e)
        \<and> u \<in> set (users d) \<and> u_id u = userId
        \<and> (\<exists>t'\<in>set (api_tokens d). t_userId t' = userId \<and> t_token t' = apiKey))"

text \<open>The account conditions of a live session.\<close>

definition account_live :: "int \<Rightarrow> db \<Rightarrow> user_row \<Rightarrow> bool" where
  "account_live now d u \<longleftrightarrow> u_isActive u \<and> \<not> past now (u_expiresAt u)
     \<and> (u_role u = ADMIN \<or> \<not> past now (group_expiry u d))"

definition text_of :: "json_field \<Rightarrow> string" where
  "text_of f = (case f of JText s \<Rightarrow> s | _ \<Rightarrow> [])"

text \<open>A small instance: one network of an organisation with a moderator, one personal network, an
  organisation token and a personal token.\<close>

definition demo_user :: "string \<Rightarrow> role \<Rightarrow> user_row" where
  "demo_user i r = \<lparr>u_id = i, u_name = i, u_email = i @ ''@x.io'', u_role = r, u_hash = None,
     u_firstTime = False, u_twoFactorEnabled = False, u_twoFactorSecret = None,
     u_failedLoginAttempts = 0, u_lastFailedLoginAttempt = None, u_requestChangePassword = False,
     u_userGroupId = None, u_expiresAt = None, u_isActive = True, u_lastLogin = 0\<rparr>"

definition demo_db :: db where
  "demo_db = \<lparr>users = [demo_user ''u1'' ADMIN, demo_user ''u2'' USER], groups = [], accounts = [], devices = [],
     networks = [\<lparr>n_nwid = ''n1'', n_name = None, n_authorId = None, n_organizationId = Some ''o1'', n_routeTargets = []\<rparr>,
                 \<lparr>n_nwid = ''n2'', n_name = None, n_authorId = Some ''u2'', n_organizationId = None, n_routeTargets = []\<rparr>],
     org_roles = [\<lparr>or_userId = ''u2'', or_organizationId = ''o1'', or_role = MODERATOR\<rparr>],
     api_tokens = [\<lparr>t_id = ''t1'', t_userId = ''u2'', t_token = ''k1'', t_expiresAt = Some 10\<rparr>],
     enableRegistration = Some True\<rparr>"

definition demo_decode :: "string \<Rightarrow> decoded" where
  "demo_decode k = (if k = ''k1''
     then Decoded \<lparr>tp_userId = JText ''u2'', tp_tokenId = JText ''t1'', tp_authorizationType = Some [PERSONAL, ORGANIZATION]\<rparr>
     else Undecodable)"

lemmas access_defs [model_defs] = find_org_role_def checkUserOrganizationRole_def checkNetworkAccess_def
  tokens_of_def find_token_def decryptAndVerifyToken_def ApiRequestSchema_parse_def catching_def
  SecuredOrganizationApiRoute_def SecuredPrivateApiRoute_def enforceUserIsAuthed_def
  enforceUserIsAdmin_def networkMembersChannel_def emitNetworkChangeOnMutation_def group_expiry_def past_def getActiveSession_def

section \<open>Who is let through\<close>

lemma find_key:
  assumes "distinct (map f xs)"
  shows "find (\<lambda>x. f x = k) xs = Some y \<longleftrightarrow> y \<in> set xs \<and> f y = k"
  using assms by (induction xs) auto

lemma find_org_role_iff:
  assumes "access_wf d"
  shows "find_org_role orgId userId d = Some r
           \<longleftrightarrow> r \<in> set (org_roles d) \<and> or_organizationId r = orgId \<and> or_userId r = userId"
  using find_key[of "\<lambda>r. (or_organizationId r, or_userId r)" "org_roles d" "(orgId, userId)" r] assms
  by (simp add: find_org_role_def access_wf_def)

lemma find_network_iff:
  assumes "access_wf d"
  shows "find_network nwid d = Some n \<longleftrightarrow> n \<in> set (networks d) \<and> n_nwid n = nwid"
  using find_key[of n_nwid "networks d" nwid n] assms by (simp add: find_network_def access_wf_def)

lemma org_role_ok:
  "checkUserOrganizationRole d userId orgId minimum = Inr ()
     \<longleftrightarrow> (\<exists>r. find_org_role orgId userId d = Some r \<and> minimum \<le> or_role r)"
  using le_ADMIN by (auto simp: checkUserOrganizationRole_def less_eq_role_def split: option.splits)

lemma org_role_iff:
  assumes "access_wf d"
  shows "checkUserOrganizationRole d userId orgId minimum = Inr ()
           \<longleftrightarrow> org_member_at_least d userId orgId minimum"
  using find_org_role_iff[OF assms] by (auto simp: org_role_ok org_member_at_least_def)

lemma org_role_member:
  "checkUserOrganizationRole d userId orgId minimum = Inr () \<Longrightarrow> org_member_at_least d userId orgId minimum"
  unfolding org_role_ok org_member_at_least_def find_org_role_def by (blast dest: find_Some_mem)

lemma find_org_role_None_member: "find_org_role orgId userId d = None \<longleftrightarrow>
  (\<forall>r\<in>set (org_roles d). \<not> (or_organizationId r = orgId \<and> or_userId r = userId))"
  by (simp add: find_org_role_def find_None_all)

lemma checkNetworkAccess_Some:
  assumes "find_network nwid d = Some n"
  shows "checkNetworkAccess d userId nwid minimum = Inr ()
     \<longleftrightarrow> (case n_organizationId n of
             Some (c # cs) \<Rightarrow> checkUserOrganizationRole d userId (c # cs) minimum = Inr ()
           | _ \<Rightarrow> n_authorId n = Some userId)"
  using assms by (auto simp: checkNetworkAccess_def truthy_def split: option.splits list.splits)

text \<open>C3. Network access: on a database that respects its primary keys, the check lets a user
  through exactly when the policy of the schema does, that is when the network exists and either
  belongs to an organisation in which the user holds at least the required role, or is a personal
  network owned by that user; the organisation is the one stored with the network.\<close>

theorem network_access_policy:
  assumes "access_wf d"
  shows "checkNetworkAccess d userId nwid minimum = Inr () \<longleftrightarrow> may_access d userId nwid minimum"
proof (cases "find_network nwid d")
  case None
  then have "\<forall>n\<in>set (networks d). n_nwid n \<noteq> nwid" by (simp add: find_network_def find_None_all)
  then show ?thesis using None by (auto simp: checkNetworkAccess_def may_access_def)
next
  case (Some n)
  have "m \<in> set (networks d) \<and> n_nwid m = nwid \<longleftrightarrow> m = n" for m
    using find_network_iff[OF assms, of nwid m] Some by auto
  then have "may_access d userId nwid minimum \<longleftrightarrow>
      (case n_organizationId n of Some (c # cs) \<Rightarrow> org_member_at_least d userId (c # cs) minimum
       | _ \<Rightarrow> n_authorId n = Some userId)"
    unfolding may_access_def Bex_def by (simp add: conj_assoc[symmetric])
  then show ?thesis
    by (simp add: checkNetworkAccess_Some[OF Some] org_role_iff[OF assms] split: option.splits list.splits)
qed

section \<open>API tokens and the REST wrappers\<close>

lemma find_token_Some: "find_token i u d = Some t \<Longrightarrow> t \<in> set (api_tokens d) \<and> t_id t = i \<and> t_userId t = u"
  unfolding find_token_def by (drule find_Some_mem) simp

lemma tokens_of_nonempty: "tokens_of u k d \<noteq> [] \<longleftrightarrow> (\<exists>t\<in>set (api_tokens d). t_userId t = u \<and> t_token t = k)"
  by (auto simp: tokens_of_def filter_empty_conv)

lemma payload_of_Inr [simp]: "payload_of x = Inr p \<longleftrightarrow> x = Decoded p"
  by (cases x) simp_all

lemma verified_token:
  assumes "decryptAndVerifyToken decode now d apiKey requireAdmin authType = Inr userId"
  shows "\<exists>k. apiKey = Some k \<and> token_grants decode now d k authType userId
           \<and> (requireAdmin \<longrightarrow> (\<exists>u. find_user userId d = Some u \<and> u_role u = ADMIN))"
proof -
  from assms obtain p where k: "truthy apiKey" and d1: "decode (the apiKey) = Decoded p"
    by (auto simp: decryptAndVerifyToken_def rbind_Inr_iff)
  from assms k d1 obtain uid where u1: "tp_userId p = JText uid"
    by (cases "tp_userId p") (simp_all add: decryptAndVerifyToken_def)
  with assms k d1 obtain tokenId where i1: "tp_tokenId p = JText tokenId"
    by (cases "tp_tokenId p") (simp_all add: decryptAndVerifyToken_def rbind_Inr_iff)
  with assms k d1 u1 obtain ts where "tp_authorizationType p = Some ts" "authType \<in> set ts"
    by (cases "tp_authorizationType p") (simp_all add: decryptAndVerifyToken_def rbind_Inr_iff)
  moreover from this assms k d1 u1 i1 have "uid = userId"
    by (auto simp: decryptAndVerifyToken_def rbind_Inr_iff)
  ultimately have p: "decode (the apiKey) = Decoded p" "tp_userId p = JText userId"
      "tp_tokenId p = JText tokenId" "tp_authorizationType p = Some ts" "authType \<in> set ts"
    using d1 u1 i1 by simp_all
  with assms k obtain t u where t: "find_token tokenId userId d = Some t"
      "case t_expiresAt t of None \<Rightarrow> True | Some e \<Rightarrow> \<not> e < now"
    and u: "find_user userId d = Some u" "tokens_of userId (the apiKey) d \<noteq> []"
      "\<not> (u_role u \<noteq> ADMIN \<and> requireAdmin)"
    by (simp add: decryptAndVerifyToken_def rbind_Inr_iff) blast
  from k obtain s where "apiKey = Some s" by (cases apiKey) (auto simp: truthy_def)
  moreover have "case t_expiresAt t of None \<Rightarrow> True | Some e \<Rightarrow> now \<le> e"
    using t(2) by (auto split: option.splits)
  ultimately show ?thesis
    using p find_token_Some[OF t(1)] u(1,3) find_user_Some[OF u(1)] u(2)
    unfolding token_grants_def tokens_of_nonempty by auto
qed

lemma catching_Inr [simp]: "catching m = Inr x \<longleftrightarrow> m = Inr x"
  by (cases m) (simp_all add: catching_def)

lemma truthy_the: "truthy x \<Longrightarrow> x = Some (the x)"
  by (cases x) (auto simp: truthy_def)

text \<open>C9. Organisation REST routes: the handler runs only for a caller whose API key decrypts to an
  organisation token of an existing user, is stored for that user and has not expired; the
  handler's user is that user, the ids the route requires are present, and whenever an
  organisation id is given (required or not) the user holds at least the required role in it.\<close>

theorem org_route_guard:
  assumes "SecuredOrganizationApiRoute decode now d requiredRole requireNetworkId requireOrgId req = Inr ctx"
  shows "(\<exists>k. h_auth req = One k \<and> token_grants decode now d k ORGANIZATION (hc_userId ctx))
    \<and> (requireOrgId \<longrightarrow> truthy (hc_orgId ctx)) \<and> (requireNetworkId \<longrightarrow> truthy (hc_networkId ctx))
    \<and> (\<forall>org. hc_orgId ctx = Some org \<and> org \<noteq> [] \<longrightarrow> org_member_at_least d (hc_userId ctx) org requiredRole)"
proof -
  from assms obtain v where v: "ApiRequestSchema_parse req = Inr v"
    "\<not> (requireOrgId \<and> \<not> truthy (p_orgId v))" "\<not> (requireNetworkId \<and> \<not> truthy (p_nwid v))"
    "decryptAndVerifyToken decode now d (p_apiKey v) False ORGANIZATION = Inr (hc_userId ctx)"
    "truthy (p_orgId v) \<Longrightarrow> checkUserOrganizationRole d (hc_userId ctx) (the (p_orgId v)) requiredRole = Inr ()"
    "hc_orgId ctx = p_orgId v" "hc_networkId ctx = p_nwid v"
    by (auto simp: SecuredOrganizationApiRoute_def rbind_Inr_iff split: if_split_asm)
  obtain k where "p_apiKey v = Some k" "token_grants decode now d k ORGANIZATION (hc_userId ctx)"
    using verified_token[OF v(4)] by blast
  moreover from this v(1) have "h_auth req = One k"
    by (cases "h_auth req") (auto simp: ApiRequestSchema_parse_def rbind_Inr_iff)
  moreover have "org_member_at_least d (hc_userId ctx) org requiredRole"
    if "hc_orgId ctx = Some org" "org \<noteq> []" for org
  proof -
    from that v(6) have "p_orgId v = Some org" by simp
    with v(5) that(2) show ?thesis by (simp add: truthy_def org_role_member)
  qed
  ultimately show ?thesis using v(2,3,6,7) by auto
qed

text \<open>Personal REST routes: the handler runs only with a live personal token; when the route
  requires a network the caller owns it, and when it requires an administrator the caller is one.\<close>

theorem private_route_guard:
  assumes "SecuredPrivateApiRoute decode now d requireNetworkId requireMemberId requireAdmin req = Inr ctx"
  shows "(\<exists>k. h_auth req = One k \<and> token_grants decode now d k PERSONAL (hc_userId ctx))
    \<and> (requireNetworkId \<longrightarrow> (\<exists>n\<in>set (networks d). hc_networkId ctx = Some (n_nwid n)
                               \<and> n_authorId n = Some (hc_userId ctx)))
    \<and> (requireMemberId \<longrightarrow> truthy (hc_memberId ctx))
    \<and> (requireAdmin \<longrightarrow> (\<exists>u. find_user (hc_userId ctx) d = Some u \<and> u_role u = ADMIN))"
proof -
  from assms obtain v where v: "ApiRequestSchema_parse req = Inr v"
    "\<not> (requireMemberId \<and> \<not> truthy (p_memberId v))"
    "decryptAndVerifyToken decode now d (p_apiKey v) requireAdmin PERSONAL = Inr (hc_userId ctx)"
    "\<not> requireNetworkId \<or> (\<exists>n\<in>set (networks d). p_id v = Some (n_nwid n) \<and> n_authorId n = Some (hc_userId ctx))"
    "hc_networkId ctx = p_id v" "hc_memberId ctx = p_memberId v"
    unfolding SecuredPrivateApiRoute_def rbind_Inr_iff catching_Inr ensure_Inr_iff by fastforce
  obtain k where k: "p_apiKey v = Some k" "token_grants decode now d k PERSONAL (hc_userId ctx)"
    "requireAdmin \<longrightarrow> (\<exists>u. find_user (hc_userId ctx) d = Some u \<and> u_role u = ADMIN)"
    using verified_token[OF v(3)] by blast
  moreover from this v(1) have "h_auth req = One k"
    by (cases "h_auth req") (auto simp: ApiRequestSchema_parse_def rbind_Inr_iff)
  ultimately show ?thesis using v(2,4-6) by auto
qed

section \<open>Sessions\<close>

lemma getActiveSession_iff:
  "getActiveSession now d session = Some s' \<longleftrightarrow>
     (\<exists>s u. session = Some s \<and> find_user (s_userId s) d = Some u \<and> account_live now d u
        \<and> s' = s\<lparr>s_role := u_role u\<rparr>)"
  by (auto simp: getActiveSession_def account_live_def split: option.splits)

text \<open>The administrator gate over a live session: a request passes exactly when its cookie belongs
  to an existing, active, unexpired account whose role stored in the database is ADMIN now; the
  role the cookie was issued with is irrelevant, so a demoted administrator is refused.\<close>

theorem admin_gate_uses_current_role:
  "is_ok (enforceUserIsAdmin (getActiveSession now d session)) \<longleftrightarrow>
     (\<exists>s u. session = Some s \<and> find_user (s_userId s) d = Some u \<and> account_live now d u \<and> u_role u = ADMIN)"
  by (cases session)
    (auto simp: getActiveSession_def account_live_def enforceUserIsAdmin_def ensure_def split: option.split)

text \<open>Token verification never looks at the account's activation or expiry.\<close>

lemma update_user_tokens:
  "find_token i u (update_user v f d) = find_token i u d"
  "tokens_of u k (update_user v f d) = tokens_of u k d"
  by (simp_all add: find_token_def tokens_of_def)

lemma token_ignores_activation:
  "decryptAndVerifyToken decode now (update_user uid (\<lambda>u. u\<lparr>u_isActive := b, u_expiresAt := e\<rparr>) d)
       apiKey requireAdmin authType
   = decryptAndVerifyToken decode now d apiKey requireAdmin authType"
proof (cases "decode (the apiKey)")
  case (Decoded p)
  then show ?thesis
    by (cases "tp_userId p"; cases "tp_tokenId p"; cases "find_user (text_of (tp_userId p)) d")
      (simp_all add: decryptAndVerifyToken_def update_user_tokens find_user_update text_of_def)
qed (simp_all add: decryptAndVerifyToken_def)

lemmas access_demo = demo_user_def demo_db_def demo_decode_def access_wf_def

theorem network_access_policy_witness:
  "access_wf demo_db \<and> may_access demo_db ''u2'' ''n1'' USER \<and> \<not> may_access demo_db ''u1'' ''n2'' READ_ONLY"
  using network_access_policy[of demo_db "''u2''" "''n1''" USER]
    network_access_policy[of demo_db "''u1''" "''n2''" READ_ONLY]
  by (simp add: access_demo model_defs find_network_def truthy_def)

theorem org_route_guard_witness:
  "org_member_at_least demo_db ''u2'' ''o1'' USER"
  using org_route_guard[of demo_decode 5 demo_db USER False True
      "\<lparr>h_auth = One ''k1'', q_orgid = One ''o1'', q_nwid = Absent, q_memberId = Absent, q_id = Absent\<rparr>"
      "\<lparr>hc_userId = ''u2'', hc_orgId = Some ''o1'', hc_networkId = None, hc_memberId = None\<rparr>"]
  by (simp add: access_demo model_defs find_user_def truthy_def)

theorem private_route_guard_witness:
  "token_grants demo_decode 5 demo_db ''k1'' PERSONAL ''u2''"
  using private_route_guard[of demo_decode 5 demo_db True False False
      "\<lparr>h_auth = One ''k1'', q_orgid = Absent, q_nwid = Absent, q_memberId = Absent, q_id = One ''n2''\<rparr>"
      "\<lparr>hc_userId = ''u2'', hc_orgId = None, hc_networkId = Some ''n2'', hc_memberId = None\<rparr>"]
  by (simp add: access_demo model_defs find_user_def truthy_def)

end
