(* ===== verification/Login_Guard.thy ===== *)
theory Login_Guard
  imports Access_Control
begin

text \<open>
  Signing in (\<^verbatim>\<open>lib/auth.ts\<close>): environment bounds, the credential pre-flight with its lockout and
  second factor, the session hook with device tracking, the user-creation hooks; with them the
  password policy (\<^verbatim>\<open>utils/passwordPolicy.ts\<close>), the credential store
  (\<^verbatim>\<open>server/api/services/credentialAccountService.ts\<close>) and \<^verbatim>\<open>utils/email.ts\<close>.
  Parameters: \<open>compare\<close> (bcrypt), \<open>decrypt\<close> (None when it throws), \<open>totp\<close> (otplib's check),
  \<open>device_cookie\<close> (the device cookie parsed out of a cookie header). A hook returns its outcome
  with the database, because the updates made before an exception stay.
\<close>

section \<open>Environment\<close>

record auth_env =
  ZTPLANET_LOGIN_ATTEMPTS :: "string option"
  ZTPLANET_LOGIN_LOCKOUT_SECONDS :: "string option"
  ZTPLANET_TRUSTED_PROXIES :: "string option"
  NEXTAUTH_URL :: "string option"
  NEXTAUTH_SECRET :: "string option"
  NEXTAUTH_SESSION_MAX_AGE :: "string option"
  OAUTH_EXCLUSIVE_LOGIN :: "string option"
  OAUTH_ALLOW_NEW_USERS :: "string option"
  OAUTH_SCOPE :: "string option"

text \<open>\<^verbatim>\<open>Number.parseInt(raw) || fallback\<close>: NaN and zero give the fallback.\<close>

definition parse_or :: "string \<Rightarrow> int \<Rightarrow> int" where
  "parse_or raw fallback = (case parse_int10 raw of None \<Rightarrow> fallback | Some n \<Rightarrow> if n = 0 then fallback else n)"

definition MAX_FAILED_ATTEMPTS :: "auth_env \<Rightarrow> int" where
  "MAX_FAILED_ATTEMPTS env = min 20 (max 1 (parse_or (str_or (ZTPLANET_LOGIN_ATTEMPTS env) ''5'') 5))"

definition COOLDOWN_PERIOD :: "auth_env \<Rightarrow> int" where
  "COOLDOWN_PERIOD env =
     min 86400 (max 60 (parse_or (str_or (ZTPLANET_LOGIN_LOCKOUT_SECONDS env) ''900'') 900)) * 1000"

text \<open>A digit string rounds to Infinity from \<open>2 ^ 1024 - 2 ^ 970\<close> on.\<close>

definition js_finite :: "int \<Rightarrow> bool" where
  "js_finite n \<longleftrightarrow> \<bar>n\<bar> < 2 ^ 1024 - 2 ^ 970"

definition boundedPositiveInt :: "string option \<Rightarrow> int \<Rightarrow> int \<Rightarrow> int" where
  "boundedPositiveInt raw fallback maximum =
     (case parse_int10 (case raw of None \<Rightarrow> [] | Some s \<Rightarrow> s) of
        None \<Rightarrow> fallback
      | Some parsed \<Rightarrow> if \<not> js_finite parsed \<or> parsed < 1 then fallback else min parsed maximum)"

definition trustedProxyRanges :: "auth_env \<Rightarrow> string list" where
  "trustedProxyRanges env =
     filter (\<lambda>e. e \<noteq> []) (map js_trim (js_split (CHR '','')
       (str_or (map_option js_trim (ZTPLANET_TRUSTED_PROXIES env)) ''172.31.255.0/24'')))"

definition strip_slash :: "string \<Rightarrow> string" where
  "strip_slash s = (if s \<noteq> [] \<and> last s = CHR ''/'' then butlast s else s)"

definition oauthCallbackURL :: "auth_env \<Rightarrow> string option" where
  "oauthCallbackURL env = (if truthy (NEXTAUTH_URL env)
     then Some (strip_slash (the (NEXTAUTH_URL env)) @ ''/api/auth/callback/oauth'') else None)"

definition isOAuthExclusiveLogin :: "auth_env \<Rightarrow> bool" where
  "isOAuthExclusiveLogin env = (map_option to_lower (OAUTH_EXCLUSIVE_LOGIN env) = Some ''true'')"

definition isOAuthAllowNewUsers :: "auth_env \<Rightarrow> bool" where
  "isOAuthAllowNewUsers env = (map_option to_lower (OAUTH_ALLOW_NEW_USERS env) \<noteq> Some ''false'')"

definition session_expiresIn :: "auth_env \<Rightarrow> int" where
  "session_expiresIn env =
     min (8 * 60 * 60) (max 900 (parse_or (case NEXTAUTH_SESSION_MAX_AGE env of None \<Rightarrow> [] | Some s \<Rightarrow> s) (8 * 60 * 60)))"

text \<open>Splitting on runs of white space and dropping the empty pieces leaves the maximal runs of
  other characters.\<close>

function words :: "string \<Rightarrow> string list" where
  "words s = (case dropWhile is_space s of [] \<Rightarrow> []
              | c # cs \<Rightarrow> (c # takeWhile (\<lambda>x. \<not> is_space x) cs) # words (dropWhile (\<lambda>x. \<not> is_space x) cs))"
  by pat_completeness auto
termination
proof (relation "measure length")
  fix s c cs assume a: "dropWhile is_space s = c # cs"
  have "length (dropWhile (\<lambda>x. \<not> is_space x) cs) \<le> length cs" by (rule length_dropWhile_le)
  also have "length cs < length (dropWhile is_space s)" by (simp add: a)
  also have "\<dots> \<le> length s" by (rule length_dropWhile_le)
  finally show "(dropWhile (\<lambda>x. \<not> is_space x) cs, s) \<in> measure length" by simp
qed simp

definition parseOAuthScopes :: "auth_env \<Rightarrow> string list" where
  "parseOAuthScopes env = words (str_or (OAUTH_SCOPE env) ''openid profile email'')"

section \<open>E-mail addresses and OAuth profiles\<close>

definition normalizeEmail :: "string \<Rightarrow> string" where
  "normalizeEmail email = to_lower (js_trim email)"

text \<open>A provider's profile: the string-valued fields (a field of another type reads as absent).\<close>

record oauth_user =
  ou_name :: string
  ou_email :: "string option"
  ou_image :: "string option"

definition or_undef :: "string option \<Rightarrow> string option \<Rightarrow> string option" where
  "or_undef a b = (if truthy a then a else b)"

definition mapOAuthProfileToUser :: "(string \<Rightarrow> string option) \<Rightarrow> oauth_user" where
  "mapOAuthProfileToUser profile =
     (let email = or_undef (map_option normalizeEmail (profile ''email'')) None;
          local = map_option (\<lambda>e. hd (js_split (CHR ''@'') e)) email
      in \<lparr>ou_name = str_or (or_undef (profile ''name'') (or_undef (profile ''login'')
                     (or_undef (profile ''username'') local))) ''OAuth User'',
          ou_email = email,
          ou_image = or_undef (profile ''picture'') (or_undef (profile ''avatar_url'') (profile ''image_url''))\<rparr>)"

section \<open>The credential pre-flight\<close>

datatype auth_error = APIError error_code string | DecryptFailed

record auth_request =
  rq_path :: string
  rq_email :: "string option"
  rq_password :: "string option"
  rq_totp :: "string option"

type_synonym 'a hook = "(auth_error + 'a) \<times> db"

definition find_email :: "string \<Rightarrow> db \<Rightarrow> user_row option" where
  "find_email email d = find (\<lambda>u. u_email u = email) (users d)"

definition count_failure :: "int \<Rightarrow> user_row \<Rightarrow> user_row" where
  "count_failure now u = u\<lparr>u_failedLoginAttempts := u_failedLoginAttempts u + 1,
                           u_lastFailedLoginAttempt := Some now\<rparr>"

definition clear_failures :: "user_row \<Rightarrow> user_row" where
  "clear_failures u = u\<lparr>u_failedLoginAttempts := 0, u_lastFailedLoginAttempt := None\<rparr>"

text \<open>The account reached its limit of failures; and it did so within the cooldown.\<close>

definition at_limit :: "auth_env \<Rightarrow> user_row \<Rightarrow> bool" where
  "at_limit env user \<longleftrightarrow> u_lastFailedLoginAttempt user \<noteq> None
     \<and> int (u_failedLoginAttempts user) \<ge> MAX_FAILED_ATTEMPTS env"

definition locked_out :: "auth_env \<Rightarrow> int \<Rightarrow> user_row \<Rightarrow> bool" where
  "locked_out env now user \<longleftrightarrow> at_limit env user
     \<and> now - the (u_lastFailedLoginAttempt user) < COOLDOWN_PERIOD env"

definition upsertCredentialAccount :: "string \<Rightarrow> string \<Rightarrow> db \<Rightarrow> db" where
  "upsertCredentialAccount userId passwordHash d =
     (let isRow = (\<lambda>a. a_providerId a = ''credential'' \<and> a_accountId a = userId)
      in if list_ex isRow (accounts d)
         then d\<lparr>accounts := map (\<lambda>a. if isRow a then a\<lparr>a_password := Some passwordHash\<rparr> else a) (accounts d)\<rparr>
         else d\<lparr>accounts := accounts d @ [\<lparr>a_userId = userId, a_providerId = ''credential'',
                  a_accountId = userId, a_password = Some passwordHash\<rparr>]\<rparr>)"

definition has_credential :: "string \<Rightarrow> db \<Rightarrow> bool" where
  "has_credential userId d = list_ex (\<lambda>a. a_userId a = userId \<and> a_providerId a = ''credential'') (accounts d)"

definition second_factor ::
  "(string \<Rightarrow> string option) \<Rightarrow> (string \<Rightarrow> string \<Rightarrow> bool) \<Rightarrow> auth_env \<Rightarrow> int \<Rightarrow> string option \<Rightarrow> user_row
     \<Rightarrow> db \<Rightarrow> unit hook" where
  "second_factor decrypt totp env now totpCode user d =
     (if \<not> u_twoFactorEnabled user then (Inr (), d)
      else if \<not> truthy totpCode then (Inl (APIError FORBIDDEN ''second-factor-required''), d)
      else if \<not> truthy (u_twoFactorSecret user)
      then (Inl (APIError INTERNAL_SERVER_ERROR ''Internal server error''), d)
      else if \<not> truthy (NEXTAUTH_SECRET env)
      then (Inl (APIError INTERNAL_SERVER_ERROR ''Internal server error''), d)
      else (case decrypt (the (u_twoFactorSecret user)) of
          None \<Rightarrow> (Inl DecryptFailed, d)
        | Some secret \<Rightarrow>
            if length secret \<noteq> 32 then (Inl (APIError INTERNAL_SERVER_ERROR ''Internal server error''), d)
            else if \<not> totp (the totpCode) secret
            then (Inl (APIError UNAUTHORIZED ''incorrect-two-factor-code''),
                  update_user (u_id user) (count_failure now) d)
            else (Inr (), d)))"

text \<open>The pre-flight of one request runs in pieces, with an \<^verbatim>\<open>await\<close> between them. The first reads the
  user row and tests the lockout: it answers the request, or goes on with the row it read. The reset
  of an elapsed lockout is a write of its own. The last piece compares the password with the hash
  read at the start and counts the failure, or backfills the credential row and runs the second
  factor on the row read at the start.\<close>

definition hook_begin :: "auth_env \<Rightarrow> int \<Rightarrow> auth_request \<Rightarrow> db \<Rightarrow> (auth_error + unit) + user_row" where
  "hook_begin env now rq d =
     (if isOAuthExclusiveLogin env \<and> (rq_path rq = ''/sign-in/email'' \<or> rq_path rq = ''/sign-up/email'')
      then Inl (Inl (APIError FORBIDDEN ''Email/password authentication is disabled. Please use OAuth.''))
      else if rq_path rq = ''/sign-up/email''
      then Inl (Inl (APIError FORBIDDEN ''Use the ZTNet registration page.''))
      else if rq_path rq \<noteq> ''/sign-in/email'' then Inl (Inr ())
      else (case rq_email rq of None \<Rightarrow> Inl (Inr ())
      | Some rawEmail \<Rightarrow>
          if normalizeEmail rawEmail = [] then Inl (Inr ())
          else (case find_email (normalizeEmail rawEmail) d of None \<Rightarrow> Inl (Inr ())
          | Some user \<Rightarrow>
              if locked_out env now user
              then Inl (Inl (APIError TOO_MANY_REQUESTS ''Too many failed attempts. Please try again later.''))
              else Inr user)))"

definition hook_reset :: "user_row \<Rightarrow> db \<Rightarrow> db" where
  "hook_reset user d = update_user (u_id user) clear_failures d"

definition hook_finish ::
  "(string \<Rightarrow> string \<Rightarrow> bool) \<Rightarrow> (string \<Rightarrow> string option) \<Rightarrow> (string \<Rightarrow> string \<Rightarrow> bool) \<Rightarrow> auth_env
     \<Rightarrow> int \<Rightarrow> auth_request \<Rightarrow> user_row \<Rightarrow> db \<Rightarrow> unit hook" where
  "hook_finish compare decrypt totp env now rq user d =
     (if rq_password rq \<noteq> None \<and> truthy (u_hash user)
         \<and> \<not> compare (the (rq_password rq)) (the (u_hash user))
      then (Inr (), update_user (u_id user) (count_failure now) d)
      else
        (let d2 = (if \<not> has_credential (u_id user) d \<and> truthy (u_hash user)
                   then upsertCredentialAccount (u_id user) (the (u_hash user)) d else d)
         in second_factor decrypt totp env now (rq_totp rq) user d2))"

text \<open>A request that nothing interrupts runs its pieces in one go.\<close>

definition runBeforeAuthHook ::
  "(string \<Rightarrow> string \<Rightarrow> bool) \<Rightarrow> (string \<Rightarrow> string option) \<Rightarrow> (string \<Rightarrow> string \<Rightarrow> bool) \<Rightarrow> auth_env
     \<Rightarrow> int \<Rightarrow> auth_request \<Rightarrow> db \<Rightarrow> unit hook" where
  "runBeforeAuthHook compare decrypt totp env now rq d =
     (case hook_begin env now rq d of
        Inl answer \<Rightarrow> (answer, d)
      | Inr user \<Rightarrow> hook_finish compare decrypt totp env now rq user
                      (if at_limit env user then hook_reset user d else d))"

text \<open>Many requests at once: each stands between its pieces with the row it has read, and the pieces
  of different requests come in any order. A reset that is due comes before the last piece.\<close>

record waiting_hook =
  wh_request :: auth_request
  wh_user :: user_row
  wh_resetDue :: bool

record hook_machine =
  hm_db :: db
  hm_waiting :: "waiting_hook list"
  hm_answers :: "(auth_error + unit) list"

datatype hook_event = Arrives int auth_request | Resets nat | Finishes int nat

fun hook_event_step ::
  "(string \<Rightarrow> string \<Rightarrow> bool) \<Rightarrow> (string \<Rightarrow> string option) \<Rightarrow> (string \<Rightarrow> string \<Rightarrow> bool) \<Rightarrow> auth_env
     \<Rightarrow> hook_event \<Rightarrow> hook_machine \<Rightarrow> hook_machine" where
  "hook_event_step compare decrypt totp env (Arrives now rq) s =
     (case hook_begin env now rq (hm_db s) of
        Inl answer \<Rightarrow> s\<lparr>hm_answers := hm_answers s @ [answer]\<rparr>
      | Inr user \<Rightarrow> s\<lparr>hm_waiting := hm_waiting s @
          [\<lparr>wh_request = rq, wh_user = user, wh_resetDue = at_limit env user\<rparr>]\<rparr>)"
| "hook_event_step compare decrypt totp env (Resets i) s =
     (if i < length (hm_waiting s) \<and> wh_resetDue (hm_waiting s ! i)
      then s\<lparr>hm_db := hook_reset (wh_user (hm_waiting s ! i)) (hm_db s),
             hm_waiting := (hm_waiting s)[i := (hm_waiting s ! i)\<lparr>wh_resetDue := False\<rparr>]\<rparr>
      else s)"
| "hook_event_step compare decrypt totp env (Finishes now i) s =
     (if i < length (hm_waiting s) \<and> \<not> wh_resetDue (hm_waiting s ! i)
      then (let w = hm_waiting s ! i;
                (answer, d') = hook_finish compare decrypt totp env now (wh_request w) (wh_user w) (hm_db s)
            in \<lparr>hm_db = d', hm_waiting = take i (hm_waiting s) @ drop (Suc i) (hm_waiting s),
                hm_answers = hm_answers s @ [answer]\<rparr>)
      else s)"

text \<open>A run of the machine, and the largest number of requests that stand between their pieces at
  any moment of it.\<close>

fun hook_run ::
  "(string \<Rightarrow> string \<Rightarrow> bool) \<Rightarrow> (string \<Rightarrow> string option) \<Rightarrow> (string \<Rightarrow> string \<Rightarrow> bool) \<Rightarrow> auth_env
     \<Rightarrow> hook_event list \<Rightarrow> hook_machine \<Rightarrow> hook_machine" where
  "hook_run compare decrypt totp env [] s = s"
| "hook_run compare decrypt totp env (e # es) s =
     hook_run compare decrypt totp env es (hook_event_step compare decrypt totp env e s)"

fun hook_peak ::
  "(string \<Rightarrow> string \<Rightarrow> bool) \<Rightarrow> (string \<Rightarrow> string option) \<Rightarrow> (string \<Rightarrow> string \<Rightarrow> bool) \<Rightarrow> auth_env
     \<Rightarrow> hook_event list \<Rightarrow> hook_machine \<Rightarrow> nat" where
  "hook_peak compare decrypt totp env [] s = length (hm_waiting s)"
| "hook_peak compare decrypt totp env (e # es) s = max (length (hm_waiting s))
     (hook_peak compare decrypt totp env es (hook_event_step compare decrypt totp env e s))"

section \<open>Sessions and devices\<close>

text \<open>Request headers as far as the session hook reads them.\<close>

record session_headers =
  hd_xUserAgent :: "string option"
  hd_userAgent :: "string option"
  hd_cookie :: "string option"
  hd_xForwardedFor :: "string option"

definition is_octet_text :: "string \<Rightarrow> bool" where
  "is_octet_text s \<longleftrightarrow> s \<noteq> [] \<and> length s \<le> 3 \<and> list_all is_digit s"

definition dotted_digits :: "string \<Rightarrow> bool" where
  "dotted_digits s \<longleftrightarrow> length (js_split (CHR ''.'') s) = 4 \<and> list_all is_octet_text (js_split (CHR ''.'') s)"

definition mapped_ipv4 :: "string \<Rightarrow> string option" where
  "mapped_ipv4 ip = (if take 7 ip = ''::ffff:'' \<and> dotted_digits (drop 7 ip) then Some (drop 7 ip) else None)"

definition getIpFromHeaders :: "session_headers option \<Rightarrow> string" where
  "getIpFromHeaders headers =
     (case headers of None \<Rightarrow> ''Unknown''
      | Some h \<Rightarrow>
          let ip = (if truthy (hd_xForwardedFor h)
                    then js_trim (hd (js_split (CHR '','') (the (hd_xForwardedFor h)))) else ''Unknown'')
          in str_or (mapped_ipv4 ip) ip)"

datatype mail_template = NewDeviceNotification | DeviceIpChangeNotification

record session_effects =
  se_cookie :: "string option"
  se_mail :: "(mail_template \<times> string) option"

definition no_effects :: session_effects where
  "no_effects = \<lparr>se_cookie = None, se_mail = None\<rparr>"

definition find_device :: "string \<Rightarrow> db \<Rightarrow> device_row option" where
  "find_device deviceId d = find (\<lambda>r. d_deviceId r = deviceId) (devices d)"

definition upsert_device :: "device_row \<Rightarrow> db \<Rightarrow> db" where
  "upsert_device info d =
     (if find_device (d_deviceId info) d = None then d\<lparr>devices := devices d @ [info]\<rparr>
      else d\<lparr>devices := map (\<lambda>r. if d_deviceId r = d_deviceId info
               then r\<lparr>d_lastActive := d_lastActive info, d_ipAddress := d_ipAddress info, d_isActive := True\<rparr>
               else r) (devices d)\<rparr>)"

definition expired_before :: "int \<Rightarrow> int option \<Rightarrow> bool" where
  "expired_before now t = (case t of None \<Rightarrow> False | Some e \<Rightarrow> e < now)"

definition track_device ::
  "(string \<Rightarrow> string option) \<Rightarrow> string \<Rightarrow> int \<Rightarrow> string \<Rightarrow> user_row \<Rightarrow> session_headers option \<Rightarrow> db
     \<Rightarrow> session_effects \<times> db" where
  "track_device device_cookie freshId now userId user headers d =
     (let userAgent = (case headers of None \<Rightarrow> []
                       | Some h \<Rightarrow> str_or (or_undef (hd_xUserAgent h) (hd_userAgent h)) [])
      in if userAgent = [] then (no_effects, d)
         else
           (let cookie = device_cookie (case headers of None \<Rightarrow> [] | Some h \<Rightarrow> str_or (hd_cookie h) []);
                deviceId = str_or cookie freshId;
                ipAddress = getIpFromHeaders headers;
                existing = find_device deviceId d;
                d' = upsert_device \<lparr>d_deviceId = deviceId, d_userId = userId, d_ipAddress = ipAddress,
                       d_userAgent = userAgent, d_isActive = True, d_lastActive = now\<rparr> d;
                key = (case existing of None \<Rightarrow> Some NewDeviceNotification
                       | Some r \<Rightarrow> if d_ipAddress r \<noteq> ipAddress then Some DeviceIpChangeNotification else None)
            in (\<lparr>se_cookie = (if truthy cookie then None else Some deviceId),
                 se_mail = (case find_user userId d' of
                    Some refreshed \<Rightarrow> if \<not> u_firstTime user then map_option (\<lambda>k. (k, u_email refreshed)) key else None
                  | None \<Rightarrow> None)\<rparr>, d')))"

definition record_login :: "int \<Rightarrow> user_row \<Rightarrow> user_row" where
  "record_login now u = u\<lparr>u_failedLoginAttempts := 0, u_lastFailedLoginAttempt := None,
                          u_lastLogin := now, u_firstTime := False\<rparr>"

definition onSessionCreated ::
  "(string \<Rightarrow> string option) \<Rightarrow> string \<Rightarrow> int \<Rightarrow> string \<Rightarrow> session_headers option \<Rightarrow> db
     \<Rightarrow> session_effects hook" where
  "onSessionCreated device_cookie freshId now userId headers d =
     (case find_user userId d of
        None \<Rightarrow> (Inl (APIError UNAUTHORIZED ''user-not-found''), d)
      | Some user \<Rightarrow>
          if \<not> u_isActive user then (Inl (APIError FORBIDDEN ''account-expired''), d)
          else if expired_before now (u_expiresAt user) then (Inl (APIError FORBIDDEN ''account-expired''), d)
          else if u_role user \<noteq> ADMIN \<and> expired_before now (group_expiry user d)
          then (Inl (APIError FORBIDDEN ''account-expired''), d)
          else (let (eff, d') = track_device device_cookie freshId now userId user headers
                                  (update_user userId (record_login now) d)
                in (Inr eff, d')))"

section \<open>Creating users\<close>

definition starts_with :: "string \<Rightarrow> string \<Rightarrow> bool" where
  "starts_with p s = (take (length p) s = p)"

definition isOAuthFlow :: "string option \<Rightarrow> bool" where
  "isOAuthFlow path = (case path of None \<Rightarrow> False
     | Some p \<Rightarrow> starts_with ''/callback/'' p \<or> starts_with ''/oauth2/callback/'' p \<or> p = ''/sign-in/oauth2'')"

definition onUserCreateBefore ::
  "auth_env \<Rightarrow> int \<Rightarrow> user_row \<Rightarrow> string option \<Rightarrow> db \<Rightarrow> auth_error + user_row" where
  "onUserCreateBefore env now user path d =
     rbind (if isOAuthFlow path
            then rbind (ensure (isOAuthAllowNewUsers env) (APIError FORBIDDEN ''registration_disabled'')) (\<lambda>_.
                 ensure (isOAuthExclusiveLogin env \<or> enableRegistration d = Some True)
                   (APIError FORBIDDEN ''registration_disabled''))
            else Inr ()) (\<lambda>_.
     Inr (user\<lparr>u_role := (if isOAuthFlow path then USER else if users d = [] then ADMIN else USER),
               u_lastLogin := now, u_firstTime := True, u_isActive := True,
               u_userGroupId := map_option g_id (find g_isDefault (groups d))\<rparr>))"

definition onUserCreateAfter :: "string option \<Rightarrow> string option \<Rightarrow> db \<Rightarrow> db" where
  "onUserCreateAfter userId path d =
     (case userId of None \<Rightarrow> d
      | Some i \<Rightarrow> if \<not> isOAuthFlow path then d
                  else if list_ex (\<lambda>u. u_role u = ADMIN) (users d) then d
                  else update_user i (\<lambda>u. u\<lparr>u_role := ADMIN\<rparr>) d)"

section \<open>Password policy\<close>

record password_policy =
  minLength :: int
  minClasses :: int

definition boundedInteger :: "string option \<Rightarrow> int \<Rightarrow> int \<Rightarrow> int \<Rightarrow> int" where
  "boundedInteger value fallback minimum maximum =
     (let raw = map_option js_trim value
      in if \<not> truthy raw \<or> \<not> list_all is_digit (the raw) then fallback
         else (let parsed = int (digits_val 0 (the raw))
               in if parsed > 9007199254740991 then fallback else min maximum (max minimum parsed)))"

definition getPasswordPolicy :: "string option \<Rightarrow> string option \<Rightarrow> password_policy" where
  "getPasswordPolicy len classes =
     \<lparr>minLength = boundedInteger len 14 8 128, minClasses = boundedInteger classes 2 1 3\<rparr>"

definition char_classes :: "string \<Rightarrow> int" where
  "char_classes s = (if list_ex is_lower s then 1 else 0) + (if list_ex is_upper s then 1 else 0)
                  + (if list_ex is_digit s then 1 else 0)"

definition passwordMeetsPolicy :: "string \<Rightarrow> password_policy \<Rightarrow> bool" where
  "passwordMeetsPolicy password policy =
     (if int (length password) < minLength policy \<or> int (length password) > 128 then False
      else char_classes password \<ge> minClasses policy)"

definition wrong_password :: "(string \<Rightarrow> string \<Rightarrow> bool) \<Rightarrow> user_row \<Rightarrow> string \<Rightarrow> bool" where
  "wrong_password compare user pw \<longleftrightarrow> truthy (u_hash user) \<and> \<not> compare pw (the (u_hash user))"

definition sign_in :: "string \<Rightarrow> string \<Rightarrow> string option \<Rightarrow> auth_request" where
  "sign_in email pw totpc = \<lparr>rq_path = ''/sign-in/email'', rq_email = Some email, rq_password = Some pw, rq_totp = totpc\<rparr>"

text \<open>A series of sign-in requests, each at its own time: the outcomes, and the final database.\<close>

fun attempts ::
  "(string \<Rightarrow> string \<Rightarrow> bool) \<Rightarrow> (string \<Rightarrow> string option) \<Rightarrow> (string \<Rightarrow> string \<Rightarrow> bool) \<Rightarrow> auth_env
     \<Rightarrow> (int \<times> auth_request) list \<Rightarrow> db \<Rightarrow> (auth_error + unit) list \<times> db" where
  "attempts compare decrypt totp env [] d = ([], d)"
| "attempts compare decrypt totp env ((now, rq) # rest) d =
     (let (r, d') = runBeforeAuthHook compare decrypt totp env now rq d;
          (rs, d'') = attempts compare decrypt totp env rest d'
      in (r # rs, d''))"

text \<open>A guess: a sign-in request for one account with a password that its hash refuses, within a
  window of time.\<close>

definition guess_event :: "(string \<Rightarrow> string \<Rightarrow> bool) \<Rightarrow> string \<Rightarrow> user_row \<Rightarrow> int \<Rightarrow> int \<Rightarrow> hook_event \<Rightarrow> bool" where
  "guess_event compare e u t0 t1 ev \<longleftrightarrow> (case ev of
      Arrives now rq \<Rightarrow> t0 \<le> now \<and> now < t1 \<and> rq_path rq = ''/sign-in/email''
        \<and> map_option normalizeEmail (rq_email rq) = Some e
        \<and> (\<exists>pw. rq_password rq = Some pw \<and> wrong_password compare u pw)
    | Resets i \<Rightarrow> True
    | Finishes now i \<Rightarrow> t0 \<le> now \<and> now < t1)"

text \<open>The requests that have passed the lockout test: those waiting and those let through.\<close>

definition admitted_guesses :: "hook_machine \<Rightarrow> nat" where
  "admitted_guesses s = length (hm_waiting s) + length (filter is_ok (hm_answers s))"

abbreviation "locked_error \<equiv> APIError TOO_MANY_REQUESTS ''Too many failed attempts. Please try again later.''"

definition demo_env :: auth_env where
  "demo_env = \<lparr>ZTPLANET_LOGIN_ATTEMPTS = Some ''2'', ZTPLANET_LOGIN_LOCKOUT_SECONDS = None,
     ZTPLANET_TRUSTED_PROXIES = None, NEXTAUTH_URL = Some ''https://x.io/'', NEXTAUTH_SECRET = Some ''s'',
     NEXTAUTH_SESSION_MAX_AGE = None, OAUTH_EXCLUSIVE_LOGIN = None, OAUTH_ALLOW_NEW_USERS = None,
     OAUTH_SCOPE = None\<rparr>"

definition login_user :: user_row where
  "login_user = (demo_user ''a'' USER)\<lparr>u_hash := Some ''h'', u_twoFactorEnabled := True, u_twoFactorSecret := Some ''e''\<rparr>"

definition login_db :: db where
  "login_db = demo_db\<lparr>users := [login_user]\<rparr>"

definition session_allowed :: "int \<Rightarrow> db \<Rightarrow> user_row \<Rightarrow> bool" where
  "session_allowed now d u \<longleftrightarrow> u_isActive u \<and> \<not> expired_before now (u_expiresAt u)
     \<and> (u_role u = ADMIN \<or> \<not> expired_before now (group_expiry u d))"

text \<open>OAuth sign-ups interleave: creating a user commits it with the role that the before-hook
  stamped, and some time later, in any order, its after-hook runs in one transaction. The state is the
  database with the ids whose after-hook is still due.\<close>

inductive oauth_step :: "auth_env \<Rightarrow> db \<times> string list \<Rightarrow> db \<times> string list \<Rightarrow> bool" for env where
  commit: "onUserCreateBefore env now user (Some path) d = Inr row \<Longrightarrow> isOAuthFlow (Some path)
    \<Longrightarrow> u_id user \<notin> u_id ` set (users d)
    \<Longrightarrow> oauth_step env (d, due) (d\<lparr>users := users d @ [row]\<rparr>, due @ [u_id user])"
| after: "i \<in> set due \<Longrightarrow> isOAuthFlow (Some path)
    \<Longrightarrow> oauth_step env (d, due) (onUserCreateAfter (Some i) (Some path) d, remove1 i due)"

definition admins :: "db \<Rightarrow> user_row list" where
  "admins d = filter (\<lambda>u. u_role u = ADMIN) (users d)"

text \<open>User ids are unique, the pending ids are users, there is at most one administrator, and there is
  one unless every user's hook is still due.\<close>

definition first_admin_inv :: "db \<times> string list \<Rightarrow> bool" where
  "first_admin_inv s = (case s of (d, due) \<Rightarrow>
     distinct (map u_id (users d)) \<and> set due \<subseteq> u_id ` set (users d) \<and> length (admins d) \<le> 1
     \<and> (admins d = [] \<longrightarrow> u_id ` set (users d) = set due \<and> distinct due))"

abbreviation "empty_db \<equiv> demo_db\<lparr>users := []\<rparr>"

lemmas login_defs [model_defs] = parse_or_def MAX_FAILED_ATTEMPTS_def COOLDOWN_PERIOD_def
  boundedPositiveInt_def trustedProxyRanges_def strip_slash_def oauthCallbackURL_def
  isOAuthExclusiveLogin_def isOAuthAllowNewUsers_def session_expiresIn_def normalizeEmail_def
  or_undef_def mapOAuthProfileToUser_def find_email_def count_failure_def clear_failures_def
  at_limit_def locked_out_def hook_begin_def hook_reset_def hook_finish_def upsertCredentialAccount_def has_credential_def second_factor_def
  runBeforeAuthHook_def is_octet_text_def dotted_digits_def mapped_ipv4_def getIpFromHeaders_def
  no_effects_def find_device_def upsert_device_def expired_before_def track_device_def
  record_login_def onSessionCreated_def starts_with_def isOAuthFlow_def onUserCreateBefore_def
  onUserCreateAfter_def boundedInteger_def getPasswordPolicy_def char_classes_def passwordMeetsPolicy_def

lemmas [simp del] = words.simps

section \<open>Lockout\<close>

text \<open>Whatever the environment holds, the lockout is never disabled: between 1 and 20 failures
  trigger it and it lasts between one minute and one day; sessions last between 15 minutes and
  8 hours.\<close>

theorem auth_bounds:
  "1 \<le> MAX_FAILED_ATTEMPTS env \<and> MAX_FAILED_ATTEMPTS env \<le> 20
   \<and> 60 * 1000 \<le> COOLDOWN_PERIOD env \<and> COOLDOWN_PERIOD env \<le> 24 * 60 * 60 * 1000
   \<and> 15 * 60 \<le> session_expiresIn env \<and> session_expiresIn env \<le> 8 * 60 * 60"
  by (auto simp: MAX_FAILED_ATTEMPTS_def COOLDOWN_PERIOD_def session_expiresIn_def)

lemma find_email_update:
  assumes "\<And>u. u_email (f u) = u_email u" "find_email e d = Some u"
  shows "find_email e (update_user (u_id u) f d) = Some (f u)"
proof -
  have "find (\<lambda>v. u_email v = e) (map (\<lambda>v. if u_id v = u_id u then f v else v) (users d))
      = map_option (\<lambda>v. if u_id v = u_id u then f v else v) (find (\<lambda>v. u_email v = e) (users d))"
    by (rule find_map_cong) (simp add: assms(1))
  then show ?thesis using assms(2) by (simp add: find_email_def update_user_def)
qed

lemma count_failure_keys [simp]:
  "u_id (count_failure now u) = u_id u" "u_email (count_failure now u) = u_email u"
  "u_hash (count_failure now u) = u_hash u" "u_id (clear_failures u) = u_id u"
  "u_email (clear_failures u) = u_email u"
  by (simp_all add: count_failure_def clear_failures_def)

text \<open>The branches of the pre-flight on a known account.\<close>

lemmas hook_pieces = runBeforeAuthHook_def hook_begin_def hook_reset_def hook_finish_def

lemma hook_locked:
  assumes "\<not> isOAuthExclusiveLogin env" "normalizeEmail e \<noteq> []" "find_email (normalizeEmail e) d = Some u"
    and "locked_out env now u"
  shows "runBeforeAuthHook compare decrypt totp env now (sign_in e pw totpc) d = (Inl locked_error, d)"
  using assms by (simp add: hook_pieces sign_in_def)

lemma hook_wrong:
  assumes "\<not> isOAuthExclusiveLogin env" "normalizeEmail e \<noteq> []" "find_email (normalizeEmail e) d = Some u"
    and "\<not> at_limit env u" and "wrong_password compare u pw"
  shows "runBeforeAuthHook compare decrypt totp env now (sign_in e pw totpc) d
           = (Inr (), update_user (u_id u) (count_failure now) d)"
  using assms by (simp add: hook_pieces sign_in_def locked_out_def wrong_password_def)

lemma wrong_password_count [simp]: "wrong_password c (count_failure now u) pw = wrong_password c u pw"
  by (simp add: wrong_password_def)

lemma locked_attempts:
  assumes "\<not> isOAuthExclusiveLogin env" "normalizeEmail e \<noteq> []" "find_email (normalizeEmail e) d = Some u"
    and "\<forall>(t, pw, totpc)\<in>set tries. locked_out env t u"
  shows "attempts compare decrypt totp env (map (\<lambda>(t, pw, totpc). (t, sign_in e pw totpc)) tries) d
           = (replicate (length tries) (Inl locked_error), d)"
  using assms(4) by (induction tries) (auto simp: hook_locked[OF assms(1-3)])

lemma attempts_append:
  "attempts c dc tp env (xs @ ys) d =
     (let (r1, d1) = attempts c dc tp env xs d; (r2, d2) = attempts c dc tp env ys d1 in (r1 @ r2, d2))"
  by (induction xs arbitrary: d) (auto split: prod.splits)

lemma failing_attempts:
  assumes "\<not> isOAuthExclusiveLogin env" "normalizeEmail e \<noteq> []"
    and "find_email (normalizeEmail e) d = Some u"
    and "\<forall>(t, pw, totpc)\<in>set tries. wrong_password compare u pw"
    and "int (u_failedLoginAttempts u) + int (length tries) \<le> MAX_FAILED_ATTEMPTS env" "tries \<noteq> []"
  shows "\<exists>d' u'. attempts compare decrypt totp env (map (\<lambda>(t, pw, totpc). (t, sign_in e pw totpc)) tries) d
             = (replicate (length tries) (Inr ()), d')
           \<and> find_email (normalizeEmail e) d' = Some u'
           \<and> u_failedLoginAttempts u' = u_failedLoginAttempts u + length tries
           \<and> u_lastFailedLoginAttempt u' = Some (fst (last tries))"
  using assms(3-6)
proof (induction tries arbitrary: d u)
  case (Cons x rest)
  obtain t pw totpc where x: "x = (t, pw, totpc)" by (cases x)
  let ?d1 = "update_user (u_id u) (count_failure t) d"
  have "\<not> at_limit env u" using Cons.prems(3) by (simp add: at_limit_def)
  then have h: "runBeforeAuthHook compare decrypt totp env t (sign_in e pw totpc) d = (Inr (), ?d1)"
    using hook_wrong[OF assms(1,2) Cons.prems(1)] Cons.prems(2) x by auto
  have f1: "find_email (normalizeEmail e) ?d1 = Some (count_failure t u)"
    by (rule find_email_update) (simp_all add: Cons.prems)
  show ?case
  proof (cases "rest = []")
    case True
    then show ?thesis using h f1 x by (simp add: count_failure_def)
  next
    case False
    have p1: "\<forall>(t', pw, totpc)\<in>set rest. wrong_password compare (count_failure t u) pw"
      using Cons.prems(2) by auto
    have n1: "int (u_failedLoginAttempts (count_failure t u)) + int (length rest) \<le> MAX_FAILED_ATTEMPTS env"
      using Cons.prems(3) by (simp add: count_failure_def)
    show ?thesis
      using Cons.IH[OF f1 p1 n1 False] h x False by (auto simp: count_failure_def)
  qed
qed simp

text \<open>Guesses one after the other: from a clear failure counter, the first \<^verbatim>\<open>MAX_FAILED_ATTEMPTS\<close> wrong
  passwords reach the authoritative check, and every later request of the series made before the
  cooldown since the last of them has passed is refused with TOO_MANY_REQUESTS, whatever password
  or totpc it carries, and changes nothing.\<close>

lemma guessing_in_turn:
  assumes "\<not> isOAuthExclusiveLogin env" "normalizeEmail e \<noteq> []"
    and "find_email (normalizeEmail e) d = Some u" "u_failedLoginAttempts u = 0"
    and "\<forall>(t, pw, totpc)\<in>set tries. wrong_password compare u pw"
    and "int (length tries) = MAX_FAILED_ATTEMPTS env"
    and "\<forall>(t, pw, totpc)\<in>set later. t < fst (last tries) + COOLDOWN_PERIOD env"
  shows "fst (attempts compare decrypt totp env
                (map (\<lambda>(t, pw, totpc). (t, sign_in e pw totpc)) (tries @ later)) d)
           = replicate (length tries) (Inr ()) @ replicate (length later) (Inl locked_error)"
proof -
  have "tries \<noteq> []" using assms(6) by (auto simp: MAX_FAILED_ATTEMPTS_def)
  then obtain d' u' where
    a: "attempts compare decrypt totp env (map (\<lambda>(t, pw, totpc). (t, sign_in e pw totpc)) tries) d
          = (replicate (length tries) (Inr ()), d')"
    and u': "find_email (normalizeEmail e) d' = Some u'" "u_failedLoginAttempts u' = length tries"
      "u_lastFailedLoginAttempt u' = Some (fst (last tries))"
    using failing_attempts[OF assms(1-3,5), of decrypt totp] assms(4,6) by auto
  have "\<forall>(t, pw, totpc)\<in>set later. locked_out env t u'"
    using assms(6,7) u' by (auto simp: locked_out_def at_limit_def)
  from locked_attempts[OF assms(1,2) u'(1) this] a show ?thesis
    by (simp add: attempts_append)
qed

section \<open>Guesses that overlap\<close>

text \<open>The invariant of a run of guesses: the counter of the account is the number of guesses let
  through, its last failure lies in the window, and every waiting request has read a row with the same
  id and hash, whose lockout was not due for a reset.\<close>

definition guess_inv ::
  "(string \<Rightarrow> string \<Rightarrow> bool) \<Rightarrow> string \<Rightarrow> user_row \<Rightarrow> int \<Rightarrow> hook_machine \<Rightarrow> bool" where
  "guess_inv compare e u t0 s \<longleftrightarrow>
     (\<exists>v. find_email e (hm_db s) = Some v \<and> u_id v = u_id u \<and> u_hash v = u_hash u
        \<and> u_failedLoginAttempts v = length (filter is_ok (hm_answers s))
        \<and> (u_failedLoginAttempts v \<noteq> 0 \<longrightarrow> (\<exists>t\<ge>t0. u_lastFailedLoginAttempt v = Some t)))
     \<and> (\<forall>w\<in>set (hm_waiting s). \<not> wh_resetDue w \<and> u_id (wh_user w) = u_id u \<and> u_hash (wh_user w) = u_hash u
        \<and> (\<exists>pw. rq_password (wh_request w) = Some pw \<and> wrong_password compare u pw))
     \<and> set (hm_answers s) \<subseteq> {Inr (), Inl locked_error}"

lemma guess_begins:
  assumes "\<not> isOAuthExclusiveLogin env" "e \<noteq> []" "find_email e d = Some v"
    and "guess_event compare e u t0 t1 (Arrives now rq)"
  shows "hook_begin env now rq d = (if locked_out env now v then Inl (Inl locked_error) else Inr v)"
  using assms by (auto simp: guess_event_def hook_begin_def)

lemma window_below_limit:
  assumes "u_failedLoginAttempts v \<noteq> 0 \<longrightarrow> (\<exists>t\<ge>t0. u_lastFailedLoginAttempt v = Some t)"
    and "now < t0 + COOLDOWN_PERIOD env" "\<not> locked_out env now v"
  shows "\<not> at_limit env v \<and> int (u_failedLoginAttempts v) \<le> MAX_FAILED_ATTEMPTS env - 1"
proof (cases "u_failedLoginAttempts v = 0")
  case True
  then show ?thesis using auth_bounds[of env] by (simp add: at_limit_def)
next
  case False
  then show ?thesis using assms by (auto simp: at_limit_def locked_out_def)
qed

lemma guess_finishes:
  assumes "guess_inv compare e u t0 s" "w \<in> set (hm_waiting s)"
  shows "hook_finish compare decrypt totp env now (wh_request w) (wh_user w) d
           = (Inr (), update_user (u_id u) (count_failure now) d)"
  using assms by (auto simp: guess_inv_def hook_finish_def wrong_password_def)

lemma guess_step:
  assumes env: "\<not> isOAuthExclusiveLogin env" "e \<noteq> []" and inv: "guess_inv compare e u t0 s"
    and ev: "guess_event compare e u t0 (t0 + COOLDOWN_PERIOD env) ev"
    and n: "int (admitted_guesses s) \<le> MAX_FAILED_ATTEMPTS env - 1 + int p"
    and p: "length (hm_waiting (hook_event_step compare decrypt totp env ev s)) \<le> p"
  shows "guess_inv compare e u t0 (hook_event_step compare decrypt totp env ev s)
    \<and> int (admitted_guesses (hook_event_step compare decrypt totp env ev s)) \<le> MAX_FAILED_ATTEMPTS env - 1 + int p"
proof -
  from inv obtain v where v: "find_email e (hm_db s) = Some v" "u_id v = u_id u" "u_hash v = u_hash u"
      "u_failedLoginAttempts v = length (filter is_ok (hm_answers s))"
      "u_failedLoginAttempts v \<noteq> 0 \<longrightarrow> (\<exists>t\<ge>t0. u_lastFailedLoginAttempt v = Some t)"
    by (auto simp: guess_inv_def)
  show ?thesis
  proof (cases ev)
    case (Arrives now rq)
    have b: "hook_begin env now rq (hm_db s) = (if locked_out env now v then Inl (Inl locked_error) else Inr v)"
      using guess_begins[OF env v(1)] ev Arrives by blast
    show ?thesis
    proof (cases "locked_out env now v")
      case True
      with b inv n Arrives show ?thesis by (simp add: guess_inv_def admitted_guesses_def)
    next
      case False
      have l: "\<not> at_limit env v" "int (u_failedLoginAttempts v) \<le> MAX_FAILED_ATTEMPTS env - 1"
        using window_below_limit[OF v(5) _ False] ev Arrives by (auto simp: guess_event_def)
      from False b Arrives have st: "hook_event_step compare decrypt totp env ev s
          = s\<lparr>hm_waiting := hm_waiting s @ [\<lparr>wh_request = rq, wh_user = v, wh_resetDue = False\<rparr>]\<rparr>"
        by (simp add: l)
      have "\<exists>pw. rq_password rq = Some pw \<and> wrong_password compare u pw"
        using ev Arrives by (auto simp: guess_event_def)
      with inv v have "guess_inv compare e u t0 (hook_event_step compare decrypt totp env ev s)"
        unfolding st by (auto simp: guess_inv_def)
      moreover have "int (admitted_guesses (hook_event_step compare decrypt totp env ev s))
          \<le> MAX_FAILED_ATTEMPTS env - 1 + int p"
        using p l(2) v(4) unfolding st by (simp add: admitted_guesses_def)
      ultimately show ?thesis by blast
    qed
  next
    case (Resets i)
    have "\<not> (i < length (hm_waiting s) \<and> wh_resetDue (hm_waiting s ! i))"
      using inv by (auto simp: guess_inv_def)
    then have "hook_event_step compare decrypt totp env ev s = s" unfolding Resets by (simp only: hook_event_step.simps if_False)
    with inv n show ?thesis by simp
  next
    case (Finishes now i)
    show ?thesis
    proof (cases "i < length (hm_waiting s)")
      case False
      with Finishes inv n show ?thesis by simp
    next
      case True
      let ?w = "hm_waiting s ! i" and ?ws = "take i (hm_waiting s) @ drop (Suc i) (hm_waiting s)"
      have w: "?w \<in> set (hm_waiting s)" using True by simp
      have due: "\<not> wh_resetDue ?w" using inv w by (simp add: guess_inv_def)
      have st: "hook_event_step compare decrypt totp env ev s =
          \<lparr>hm_db = update_user (u_id u) (count_failure now) (hm_db s), hm_waiting = ?ws,
           hm_answers = hm_answers s @ [Inr ()]\<rparr>"
        using guess_finishes[OF inv w] True due Finishes by simp
      have sub: "set ?ws \<subseteq> set (hm_waiting s)" by (auto dest: in_set_takeD in_set_dropD)
      have len: "Suc (length ?ws) = length (hm_waiting s)" using True by simp
      have f: "find_email e (update_user (u_id u) (count_failure now) (hm_db s)) = Some (count_failure now v)"
        using find_email_update[OF _ v(1), of "count_failure now"] v(2) by simp
      have t: "t0 \<le> now" using ev Finishes by (simp add: guess_event_def)
      have "guess_inv compare e u t0 (hook_event_step compare decrypt totp env ev s)"
        using inv f v t sub unfolding st guess_inv_def by (auto simp: count_failure_def)
      moreover have "admitted_guesses (hook_event_step compare decrypt totp env ev s) = admitted_guesses s"
        using len unfolding st admitted_guesses_def by simp
      ultimately show ?thesis using n by simp
    qed
  qed
qed

lemma guess_run:
  assumes env: "\<not> isOAuthExclusiveLogin env" "e \<noteq> []"
  shows "guess_inv compare e u t0 s \<Longrightarrow> \<forall>ev\<in>set evs. guess_event compare e u t0 (t0 + COOLDOWN_PERIOD env) ev
    \<Longrightarrow> int (admitted_guesses s) \<le> MAX_FAILED_ATTEMPTS env - 1 + int p
    \<Longrightarrow> hook_peak compare decrypt totp env evs s \<le> p
    \<Longrightarrow> guess_inv compare e u t0 (hook_run compare decrypt totp env evs s)
      \<and> int (admitted_guesses (hook_run compare decrypt totp env evs s)) \<le> MAX_FAILED_ATTEMPTS env - 1 + int p"
proof (induction evs arbitrary: s)
  case (Cons ev evs)
  let ?s = "hook_event_step compare decrypt totp env ev s"
  have "length (hm_waiting ?s) \<le> hook_peak compare decrypt totp env evs ?s"
    by (cases evs) simp_all
  with Cons.prems(4) have p: "length (hm_waiting ?s) \<le> p" by simp
  from guess_step[OF env Cons.prems(1) _ Cons.prems(3) p] Cons.prems(2)
  have "guess_inv compare e u t0 ?s \<and> int (admitted_guesses ?s) \<le> MAX_FAILED_ATTEMPTS env - 1 + int p"
    by simp
  with Cons.IH[of ?s] Cons.prems(2,4) show ?case by simp
qed simp

text \<open>C4. Guessing passwords in parallel: requests for one account with wrong passwords, in any
  interleaving of their pieces (the read of the row with the lockout test, the comparison with the
  count of the failure), all within a time shorter than the cooldown. From a clear failure counter and
  with at most \<open>w\<close> of them between their pieces at any moment, at most \<^verbatim>\<open>MAX_FAILED_ATTEMPTS\<close> - 1 + \<open>w\<close>
  pass the lockout test; every other one is answered with TOO_MANY_REQUESTS, and every guess let
  through has been counted. One request at a time gives exactly \<^verbatim>\<open>MAX_FAILED_ATTEMPTS\<close>; parallel requests
  overshoot it (see \<^verbatim>\<open>parallel_guesses_all_admitted\<close>).\<close>

theorem guessing_is_bounded:
  assumes "\<not> isOAuthExclusiveLogin env" "e \<noteq> []" "find_email e d = Some u" "u_failedLoginAttempts u = 0"
    and "\<forall>ev\<in>set evs. guess_event compare e u t0 (t0 + COOLDOWN_PERIOD env) ev"
  shows "let s0 = \<lparr>hm_db = d, hm_waiting = [], hm_answers = []\<rparr>;
             s = hook_run compare decrypt totp env evs s0;
             w = hook_peak compare decrypt totp env evs s0
         in int (admitted_guesses s) \<le> MAX_FAILED_ATTEMPTS env - 1 + int w
            \<and> set (hm_answers s) \<subseteq> {Inr (), Inl locked_error}
            \<and> (\<exists>v. find_email e (hm_db s) = Some v
                 \<and> u_failedLoginAttempts v = length (filter is_ok (hm_answers s)))"
proof -
  let ?s0 = "\<lparr>hm_db = d, hm_waiting = [], hm_answers = []\<rparr>"
  have i: "guess_inv compare e u t0 ?s0" using assms(3,4) by (simp add: guess_inv_def)
  have n: "int (admitted_guesses ?s0) \<le> MAX_FAILED_ATTEMPTS env - 1 + int (hook_peak compare decrypt totp env evs ?s0)"
    by (simp add: admitted_guesses_def MAX_FAILED_ATTEMPTS_def)
  show ?thesis
    using guess_run[OF assms(1,2) i assms(5) n order_refl] unfolding Let_def guess_inv_def by blast
qed

lemma login_demo_facts [simp]:
  "MAX_FAILED_ATTEMPTS demo_env = 2" "COOLDOWN_PERIOD demo_env = 900000"
  "\<not> isOAuthExclusiveLogin demo_env" "normalizeEmail ''a@x.io'' = ''a@x.io''"
  "find_email ''a@x.io'' login_db = Some login_user" "u_failedLoginAttempts login_user = 0"
  "u_hash login_user = Some ''h''" "u_twoFactorEnabled login_user" "u_twoFactorSecret login_user = Some ''e''"
  "NEXTAUTH_SECRET demo_env = Some ''s''" "\<not> has_credential ''a'' login_db" "u_id login_user = ''a''"
  by code_simp+

definition demo_guesses :: "hook_event list" where
  "demo_guesses = [Arrives 0 (sign_in ''a@x.io'' ''x'' None), Arrives 1 (sign_in ''a@x.io'' ''y'' None),
     Finishes 2 0, Arrives 3 (sign_in ''a@x.io'' ''z'' None), Finishes 4 0, Finishes 5 0,
     Arrives 6 (sign_in ''a@x.io'' ''v'' None)]"

lemma demo_guess_facts:
  "wrong_password (=) login_user ''x''" "wrong_password (=) login_user ''y''"
  "wrong_password (=) login_user ''z''" "wrong_password (=) login_user ''v''"
  by (simp_all add: wrong_password_def)

theorem guessing_is_bounded_witness:
  "let s0 = \<lparr>hm_db = login_db, hm_waiting = [], hm_answers = []\<rparr>;
       s = hook_run (=) Some (=) demo_env demo_guesses s0;
       w = hook_peak (=) Some (=) demo_env demo_guesses s0
   in int (admitted_guesses s) \<le> MAX_FAILED_ATTEMPTS demo_env - 1 + int w
      \<and> set (hm_answers s) \<subseteq> {Inr (), Inl locked_error}
      \<and> (\<exists>v. find_email ''a@x.io'' (hm_db s) = Some v
           \<and> u_failedLoginAttempts v = length (filter is_ok (hm_answers s)))"
  by (rule guessing_is_bounded[where u = login_user and ?t0.0 = 0])
    (simp_all add: demo_guesses_def guess_event_def sign_in_def demo_guess_facts)

text \<open>In that run three guesses pass although the limit is two.\<close>

lemma demo_guesses_overshoot:
  "hm_answers (hook_run (=) Some (=) demo_env demo_guesses \<lparr>hm_db = login_db, hm_waiting = [], hm_answers = []\<rparr>)
     = [Inr (), Inr (), Inr (), Inl locked_error]"
  by code_simp

text \<open>The overshoot is real: any number of guesses that arrive before the first of them is counted
  pass the lockout test, whatever the limit.\<close>

lemma parallel_guesses_all_admitted:
  assumes "\<not> isOAuthExclusiveLogin env" "e \<noteq> []" "find_email e d = Some u" "u_failedLoginAttempts u = 0"
    and "\<forall>(now, rq)\<in>set gs. guess_event compare e u t0 t1 (Arrives now rq)"
  shows "hook_run compare decrypt totp env (map (\<lambda>(now, rq). Arrives now rq) gs)
           \<lparr>hm_db = d, hm_waiting = ws, hm_answers = []\<rparr>
         = \<lparr>hm_db = d, hm_waiting = ws @ map (\<lambda>(now, rq). \<lparr>wh_request = rq, wh_user = u, wh_resetDue = False\<rparr>) gs,
            hm_answers = []\<rparr>"
proof -
  have l: "\<not> at_limit env u" using assms(4) auth_bounds[of env] by (simp add: at_limit_def)
  have b: "hook_begin env now rq d = Inr u" if "(now, rq) \<in> set gs" for now rq
    using guess_begins[OF assms(1-3), of compare u t0 t1 now rq] assms(5) that l by (auto simp: locked_out_def)
  have "\<forall>(now, rq)\<in>set gs. hook_begin env now rq d = Inr u" using b by blast
  then show ?thesis by (induction gs arbitrary: ws) (auto simp: l)
qed

section \<open>Second factor\<close>

text \<open>C12. Second factor: for an account with two-factor authentication whose password check does not
  fail, the pre-flight lets a sign-in through only if a code was sent, the stored secret decrypts
  to 32 characters and the code is valid for it; a wrong code counts as a failed attempt.\<close>

theorem second_factor_required:
  assumes "find_email (normalizeEmail e) d = Some u" "u_twoFactorEnabled u" "normalizeEmail e \<noteq> []"
    and "\<not> wrong_password compare u pw"
    and "runBeforeAuthHook compare decrypt totp env now (sign_in e pw totpc) d = (Inr (), d')"
  shows "\<exists>c enc secret. totpc = Some c \<and> c \<noteq> [] \<and> u_twoFactorSecret u = Some enc
           \<and> decrypt enc = Some secret \<and> length secret = 32 \<and> totp c secret"
proof -
  have "\<exists>d2. second_factor decrypt totp env now totpc u d2 = (Inr (), d')"
    using assms(1,3-5) unfolding hook_pieces sign_in_def wrong_password_def
    by (auto simp: Let_def split: if_split_asm)
  then show ?thesis
    using assms(2) by (cases totpc; cases "u_twoFactorSecret u")
      (auto simp: second_factor_def split: if_split_asm option.split_asm)
qed

theorem second_factor_required_witness:
  "length ''abcdefghijklmnopqrstuvwxyz012345'' = 32 \<and> (\<exists>c enc secret. Some ''7'' = Some c \<and> c \<noteq> []
     \<and> u_twoFactorSecret (login_user) = Some enc
     \<and> Some ''abcdefghijklmnopqrstuvwxyz012345'' = Some secret \<and> length secret = 32 \<and> c = ''7'')"
  using second_factor_required[of "''a@x.io''" login_db login_user "(=)" "''h''"
      "\<lambda>_. Some ''abcdefghijklmnopqrstuvwxyz012345''" "\<lambda>c s. c = ''7''" demo_env 0 "Some ''7''"
      "upsertCredentialAccount ''a'' ''h'' login_db"]
  by (simp add: wrong_password_def hook_pieces sign_in_def
      has_credential_def second_factor_def locked_out_def at_limit_def)

text \<open>The credential row that the authoritative check reads is written with the stored hash.\<close>

lemma upsert_account_spec:
  assumes "distinct (map (\<lambda>a. (a_providerId a, a_accountId a)) (accounts d))"
  shows "distinct (map (\<lambda>a. (a_providerId a, a_accountId a)) (accounts (upsertCredentialAccount i h d)))
    \<and> filter (\<lambda>a. (a_providerId a, a_accountId a) \<noteq> (''credential'', i)) (accounts (upsertCredentialAccount i h d))
       = filter (\<lambda>a. (a_providerId a, a_accountId a) \<noteq> (''credential'', i)) (accounts d)
    \<and> (\<exists>a\<in>set (accounts (upsertCredentialAccount i h d)).
          a_providerId a = ''credential'' \<and> a_accountId a = i \<and> a_password a = Some h)"
proof (cases "list_ex (\<lambda>a. a_providerId a = ''credential'' \<and> a_accountId a = i) (accounts d)")
  case True
  let ?f = "\<lambda>a. if a_providerId a = ''credential'' \<and> a_accountId a = i then a\<lparr>a_password := Some h\<rparr> else a"
  have e: "accounts (upsertCredentialAccount i h d) = map ?f (accounts d)"
    using True by (simp add: upsertCredentialAccount_def)
  have k: "(\<lambda>a. (a_providerId a, a_accountId a)) \<circ> ?f = (\<lambda>a. (a_providerId a, a_accountId a))" by auto
  have "filter (\<lambda>a. (a_providerId a, a_accountId a) \<noteq> (''credential'', i)) (map ?f as)
      = filter (\<lambda>a. (a_providerId a, a_accountId a) \<noteq> (''credential'', i)) as" for as
    by (induction as) auto
  moreover have "\<exists>a\<in>set (map ?f (accounts d)). a_providerId a = ''credential'' \<and> a_accountId a = i \<and> a_password a = Some h"
  proof -
    from True obtain b where b: "b \<in> set (accounts d)" "a_providerId b = ''credential''" "a_accountId b = i"
      by (auto simp: list_ex_iff)
    then have "?f b \<in> set (map ?f (accounts d))" by simp
    with b show ?thesis by (intro bexI[of _ "?f b"]) simp_all
  qed
  moreover have "distinct (map (\<lambda>a. (a_providerId a, a_accountId a)) (map ?f (accounts d)))"
    unfolding map_map k by (rule assms)
  ultimately show ?thesis unfolding e by blast
next
  case False
  then show ?thesis using assms
    by (auto simp: upsertCredentialAccount_def list_ex_iff)
qed

section \<open>Sessions\<close>

lemma track_device_users: "users (snd (track_device dc fresh now userId user headers d)) = users d"
  by (simp add: track_device_def upsert_device_def Let_def)

lemma session_refused:
  assumes "\<forall>u. find_user userId d = Some u \<longrightarrow> \<not> session_allowed now d u"
  shows "\<exists>e. onSessionCreated dc fresh now userId headers d = (Inl e, d)"
  using assms by (auto simp: onSessionCreated_def session_allowed_def split: option.split)

lemma session_accepted:
  assumes "find_user userId d = Some u" "session_allowed now d u"
  shows "onSessionCreated dc fresh now userId headers d =
    (let r = track_device dc fresh now userId u headers (update_user userId (record_login now) d)
     in (Inr (fst r), snd r))"
  using assms by (auto simp: onSessionCreated_def session_allowed_def Let_def case_prod_beta)

lemma record_login_id [simp]: "u_id (record_login now u) = u_id u"
  by (simp add: record_login_def)

lemma find_user_tracked:
  "find_user v (snd (track_device dc fresh now userId u headers (update_user userId (record_login now) d)))
     = map_option (if v = userId then record_login now else id) (find_user v d)"
  unfolding find_user_def track_device_users
  by (fold find_user_def, rule find_user_update) simp

text \<open>Session creation: it succeeds exactly for an existing account that is active and, at that
  moment, not past its own expiry nor (unless it is an administrator) past its group's expiry. A
  refusal leaves the database untouched; success clears the failure counters, records the login
  and leaves every other user row as it was.\<close>

theorem session_creation:
  "(is_ok (fst (onSessionCreated dc fresh now userId headers d)) \<longleftrightarrow>
      (\<exists>u. find_user userId d = Some u \<and> session_allowed now d u))
   \<and> (if is_ok (fst (onSessionCreated dc fresh now userId headers d))
      then find_user v (snd (onSessionCreated dc fresh now userId headers d))
             = map_option (if v = userId then record_login now else id) (find_user v d)
      else snd (onSessionCreated dc fresh now userId headers d) = d)"
proof (cases "\<exists>u. find_user userId d = Some u \<and> session_allowed now d u")
  case True
  then obtain u where u: "find_user userId d = Some u" "session_allowed now d u" by blast
  then show ?thesis
    using find_user_tracked[of v dc fresh now userId u headers d] by (simp add: session_accepted[OF u] Let_def)
next
  case False
  then obtain e where "onSessionCreated dc fresh now userId headers d = (Inl e, d)"
    using session_refused[of userId d now] by blast
  then show ?thesis using False by simp
qed

text \<open>A device id is looked up without its user: when the device already belongs to someone else,
  the sign-in of a second user neither adds a device of that user nor announces one.\<close>

lemma shared_device_unannounced:
  assumes "str_or (dc (str_or (hd_cookie h) [])) fresh = d_deviceId r"
    and "find_device (d_deviceId r) d = Some r" "d_ipAddress r = getIpFromHeaders (Some h)"
    and "str_or (or_undef (hd_xUserAgent h) (hd_userAgent h)) [] \<noteq> []"
  shows "se_mail (fst (track_device dc fresh now userId user (Some h) d)) = None
    \<and> map (\<lambda>x. (d_deviceId x, d_userId x)) (devices (snd (track_device dc fresh now userId user (Some h) d)))
       = map (\<lambda>x. (d_deviceId x, d_userId x)) (devices d)"
  using assms by (auto simp: track_device_def Let_def upsert_device_def split: option.split)

section \<open>The first administrator\<close>

lemma created_row:
  assumes "onUserCreateBefore env now user (Some path) d = Inr row" "isOAuthFlow (Some path)"
  shows "u_id row = u_id user \<and> u_role row = USER"
  using assms by (auto simp: onUserCreateBefore_def rbind_Inr_iff)

lemma promoted_admins:
  assumes "distinct (map u_id us)" "i \<in> u_id ` set us" "\<forall>u\<in>set us. u_role u \<noteq> ADMIN"
  shows "length (filter (\<lambda>u. u_role u = ADMIN) (map (\<lambda>u. if u_id u = i then u\<lparr>u_role := ADMIN\<rparr> else u) us)) = 1"
  using assms by (induction us) (auto simp: filter_empty_conv image_iff)

lemma after_hook_admins:
  assumes "distinct (map u_id (users d))" "i \<in> u_id ` set (users d)" "isOAuthFlow (Some path)" "length (admins d) \<le> 1"
  shows "length (admins (onUserCreateAfter (Some i) (Some path) d)) = 1"
    and "map u_id (users (onUserCreateAfter (Some i) (Some path) d)) = map u_id (users d)"
proof -
  show "map u_id (users (onUserCreateAfter (Some i) (Some path) d)) = map u_id (users d)"
    by (auto simp: onUserCreateAfter_def update_user_def)
  show "length (admins (onUserCreateAfter (Some i) (Some path) d)) = 1"
  proof (cases "admins d")
    case Nil
    then have "\<forall>u\<in>set (users d). u_role u \<noteq> ADMIN" by (simp add: admins_def filter_empty_conv)
    then show ?thesis using promoted_admins[OF assms(1,2)] assms(3)
      by (simp add: onUserCreateAfter_def admins_def update_user_def list_ex_iff)
  next
    case (Cons a as)
    then have "a \<in> set (users d) \<and> u_role a = ADMIN" 
      by (auto simp: admins_def dest!: arg_cong[of _ _ set])
    then have "list_ex (\<lambda>u. u_role u = ADMIN) (users d)" by (auto simp: list_ex_iff)
    then show ?thesis using assms(3,4) Cons by (simp add: onUserCreateAfter_def)
  qed
qed

interpretation first_admin: step_invariant "oauth_step env" first_admin_inv
proof
  fix s t assume i: "first_admin_inv s" and st: "oauth_step env s t"
  from st i show "first_admin_inv t"
  proof cases
    case (commit now user path d row due)
    then show ?thesis using i created_row[OF commit(3,4)]
      by (auto simp: first_admin_inv_def admins_def)
  next
    case (after j due path d)
    have "j \<in> u_id ` set (users d)" using i after by (auto simp: first_admin_inv_def)
    note a = after_hook_admins[OF _ this after(4), of]
    have "set (remove1 j due) \<subseteq> u_id ` set (users d)"
      using i after(1) set_remove1_subset[of j due] by (auto simp: first_admin_inv_def)
    moreover have "u_id ` set (users (onUserCreateAfter (Some j) (Some path) d)) = u_id ` set (users d)"
      using a(2) i after(1) by (metis (no_types, lifting) first_admin_inv_def list.set_map old.prod.case)
    ultimately show ?thesis using i a after(1,2) by (auto simp: first_admin_inv_def)
  qed
qed

text \<open>C19. The first administrator: however the commits and after-hooks of concurrent OAuth sign-ups
  interleave from an empty installation, there is never more than one administrator, and there is
  one as soon as the after-hook of some user has run.\<close>

theorem one_first_admin:
  assumes "(oauth_step env)\<^sup>*\<^sup>* (d0, []) (d, due)" and "users d0 = []"
  shows "length (admins d) \<le> 1 \<and> (u_id ` set (users d) \<subseteq> set due \<or> length (admins d) = 1)"
proof -
  have "first_admin_inv (d0, [])" using assms(2) by (simp add: first_admin_inv_def admins_def)
  from first_admin.run_keeps[OF assms(1) this] show ?thesis
    by (cases "admins d") (auto simp: first_admin_inv_def)
qed

theorem one_first_admin_witness:
  "\<exists>d. (oauth_step demo_env)\<^sup>*\<^sup>* (empty_db, []) (d, []) \<and> length (users d) = 1 \<and> length (admins d) = 1"
proof -
  let ?u = "demo_user ''a'' USER"
  let ?row = "?u\<lparr>u_role := USER, u_lastLogin := 7, u_firstTime := True, u_isActive := True, u_userGroupId := None\<rparr>"
  let ?d1 = "empty_db\<lparr>users := [?row]\<rparr>"
  let ?d2 = "onUserCreateAfter (Some ''a'') (Some ''/callback/oauth'') ?d1"
  have p: "isOAuthFlow (Some ''/callback/oauth'')" by code_simp
  have "onUserCreateBefore demo_env 7 ?u (Some ''/callback/oauth'') empty_db = Inr ?row"
    by code_simp
  then have s1: "oauth_step demo_env (empty_db, []) (?d1, [''a''])"
    using oauth_step.commit[of demo_env 7 ?u "''/callback/oauth''" empty_db ?row "[]"] p
    by (simp add: demo_user_def)
  moreover have "oauth_step demo_env (?d1, [''a'']) (?d2, [])"
    using oauth_step.after[of "''a''" "[''a'']" "''/callback/oauth''" demo_env ?d1] p by simp
  ultimately have r: "(oauth_step demo_env)\<^sup>*\<^sup>* (empty_db, []) (?d2, [])"
    by (meson converse_rtranclp_into_rtranclp rtranclp.rtrancl_refl)
  have u2: "length (users ?d2) = 1" by code_simp
  then have "length (admins ?d2) = 1"
    using one_first_admin[OF r] by (cases "users ?d2") simp_all
  with r u2 show ?thesis by blast
qed

section \<open>Passwords\<close>

lemma boundedInteger_range:
  assumes "lo \<le> fallback" "fallback \<le> hi"
  shows "lo \<le> boundedInteger value fallback lo hi \<and> boundedInteger value fallback lo hi \<le> hi"
  using assms by (simp add: boundedInteger_def Let_def)

text \<open>Password policy: whatever the environment says, an accepted password has 8 to 128 characters
  and contains a lower-case letter, an upper-case letter or a digit, and the policy can always be
  met by some password.\<close>

theorem password_policy_floor:
  assumes "passwordMeetsPolicy pw (getPasswordPolicy len classes)"
  shows "8 \<le> length pw \<and> length pw \<le> 128 \<and> (\<exists>c\<in>set pw. is_alnum c)
    \<and> passwordMeetsPolicy (replicate 126 (CHR ''a'') @ ''A0'') (getPasswordPolicy len classes)"
proof -
  have l: "8 \<le> boundedInteger len 14 8 128" "boundedInteger len 14 8 128 \<le> 128"
    and c: "1 \<le> boundedInteger classes 2 1 3" "boundedInteger classes 2 1 3 \<le> 3"
    using boundedInteger_range[of 8 14 128 len] boundedInteger_range[of 1 2 3 classes] by auto
  have "8 \<le> length pw" "length pw \<le> 128" "1 \<le> char_classes pw"
    using assms l c by (auto simp: passwordMeetsPolicy_def getPasswordPolicy_def split: if_split_asm)
  moreover from this(3) have "\<exists>c\<in>set pw. is_alnum c"
    by (auto simp: char_classes_def list_ex_iff is_alnum_def is_alpha_def split: if_split_asm)
  moreover have "char_classes (replicate 126 (CHR ''a'') @ ''A0'') = 3" by code_simp
  ultimately show ?thesis
    using l c by (simp add: passwordMeetsPolicy_def getPasswordPolicy_def)
qed

theorem password_policy_floor_witness:
  "8 \<le> length ''Abcdefgh12345678'' \<and> passwordMeetsPolicy (replicate 126 (CHR ''a'') @ ''A0'') (getPasswordPolicy None (Some ''0''))"
proof -
  have "passwordMeetsPolicy ''Abcdefgh12345678'' (getPasswordPolicy None (Some ''0''))" by code_simp
  from password_policy_floor[OF this] show ?thesis by simp
qed

end
