(* ===== verification/Routes_Sync.thy ===== *)
theory Routes_Sync
  imports JS_Values "HOL-Library.Multiset"
begin

text \<open>
  \<^verbatim>\<open>server/api/services/routesService.ts\<close>: mirroring the controller's managed routes into the
  \<^verbatim>\<open>Routes\<close> table. The table is a list of rows; the unique indexes of the schema are the
  predicate \<open>conflicts\<close>, enforced by \<open>createMany\<close> (which skips) and by \<open>update\<close> (which
  raises and rolls the transaction back). The identifiers that the database hands out
  (\<^verbatim>\<open>cuid()\<close>) come from the parameter \<open>gen\<close>.
\<close>

section \<open>Data\<close>

record routes_entity =
  re_id :: "string option"
  re_target :: string
  re_via :: "string option"
  re_notes :: "string option"

record route_row =
  row_id :: string
  row_target :: string
  row_via :: "string option"
  row_networkId :: string
  row_notes :: "string option"

record routes_db =
  routes_tab :: "route_row list"
  network_ids :: "string list"

definition entity_of_row :: "route_row \<Rightarrow> routes_entity" where
  "entity_of_row r = \<lparr>re_id = Some (row_id r), re_target = row_target r, re_via = row_via r,
                      re_notes = row_notes r\<rparr>"

section \<open>Helpers\<close>

definition or_null :: "string option \<Rightarrow> string option" where
  "or_null s = (if truthy s then s else None)"

definition route_key :: "string \<Rightarrow> string option \<Rightarrow> string" where
  "route_key target via = target @ ''-'' @ str_or via ''null''"

definition getRouteKey :: "routes_entity \<Rightarrow> string" where
  "getRouteKey r = route_key (re_target r) (re_via r)"

definition hasRouteChanged :: "routes_entity \<Rightarrow> routes_entity \<Rightarrow> bool" where
  "hasRouteChanged dbRoute ztRoute =
     (re_target dbRoute \<noteq> re_target ztRoute \<or> re_via dbRoute \<noteq> or_null (re_via ztRoute))"

definition has_note :: "routes_entity \<Rightarrow> bool" where
  "has_note r = (case re_notes r of None \<Rightarrow> False | Some n \<Rightarrow> js_trim n \<noteq> [])"

section \<open>The plan: what to create, update and delete\<close>

text \<open>The rows with a note come first; JavaScript's sort is stable.\<close>

definition note_first :: "routes_entity list \<Rightarrow> routes_entity list" where
  "note_first rs = sort_key (\<lambda>r. if has_note r then 0 else 1 :: nat) rs"

definition route_map :: "routes_entity list \<Rightarrow> (string \<times> routes_entity) list" where
  "route_map rs =
     map (\<lambda>key. (key, the (find (\<lambda>r. getRouteKey r = key) rs))) (js_set (map getRouteKey rs))"

text \<open>The self-healing loop: every later row with a key already seen is deleted.\<close>

fun duplicate_ids :: "string list \<Rightarrow> routes_entity list \<Rightarrow> string list" where
  "duplicate_ids seen [] = []"
| "duplicate_ids seen (r # rs) =
     (if getRouteKey r \<in> set seen
      then (if truthy (re_id r) then the (re_id r) # duplicate_ids seen rs else duplicate_ids seen rs)
      else duplicate_ids (getRouteKey r # seen) rs)"

definition plan_step ::
  "(string \<times> routes_entity) list \<Rightarrow> routes_entity list \<times> routes_entity list
     \<Rightarrow> string \<times> routes_entity \<Rightarrow> routes_entity list \<times> routes_entity list" where
  "plan_step existing st kz =
     (case st of (toCreate, toUpdate) \<Rightarrow> case kz of (key, ztRoute) \<Rightarrow>
        (case map_of existing key of
           None \<Rightarrow> if list_ex (\<lambda>r. getRouteKey r = key) toCreate then (toCreate, toUpdate)
                   else (toCreate @ [ztRoute], toUpdate)
         | Some existingRoute \<Rightarrow>
             if hasRouteChanged existingRoute ztRoute \<and> \<not> list_ex (\<lambda>r. getRouteKey r = key) toUpdate
             then (toCreate, toUpdate @ [ztRoute\<lparr>re_id := re_id existingRoute\<rparr>])
             else (toCreate, toUpdate)))"

text \<open>Existing routes whose key the controller no longer has; the database rows carry an
  identifier.\<close>

fun removed_ids :: "string list \<Rightarrow> string option list \<Rightarrow> (string \<times> routes_entity) list \<Rightarrow> string list" where
  "removed_ids newKeys seen [] = []"
| "removed_ids newKeys seen ((key, r) # rest) =
     (if key \<notin> set newKeys \<and> re_id r \<notin> set seen
      then the (re_id r) # removed_ids newKeys (re_id r # seen) rest
      else removed_ids newKeys seen rest)"

record route_plan =
  routesToCreate :: "routes_entity list"
  routesToUpdate :: "routes_entity list"
  routesToDelete :: "string list"

definition route_plan_of :: "routes_entity list \<Rightarrow> routes_entity list \<Rightarrow> route_plan" where
  "route_plan_of dbRoutesRaw ztRoutes =
     (let dbRoutes = note_first dbRoutesRaw;
          existing = route_map dbRoutes;
          new = route_map ztRoutes;
          dup = duplicate_ids [] dbRoutes;
          (toCreate, toUpdate) = foldl (plan_step existing) ([], []) new
      in \<lparr>routesToCreate = toCreate, routesToUpdate = toUpdate,
          routesToDelete = dup @ removed_ids (map fst new) [] existing\<rparr>)"

section \<open>The transaction\<close>

definition conflicts :: "string \<Rightarrow> string \<Rightarrow> string option \<Rightarrow> route_row \<Rightarrow> bool" where
  "conflicts nw target via r = (row_networkId r = nw \<and> row_target r = target \<and> row_via r = via)"

fun create_skip :: "(route_row list \<Rightarrow> string) \<Rightarrow> string \<Rightarrow> route_row list \<Rightarrow> routes_entity list \<Rightarrow> route_row list" where
  "create_skip gen nw tab [] = tab"
| "create_skip gen nw tab (r # rs) =
     (if list_ex (conflicts nw (re_target r) (or_null (re_via r))) tab
      then create_skip gen nw tab rs
      else create_skip gen nw
             (tab @ [\<lparr>row_id = gen tab, row_target = re_target r, row_via = or_null (re_via r),
                      row_networkId = nw, row_notes = None\<rparr>]) rs)"

definition create_routes ::
  "(route_row list \<Rightarrow> string) \<Rightarrow> string \<Rightarrow> routes_entity list \<Rightarrow> routes_db \<Rightarrow> routes_db option" where
  "create_routes gen nw toCreate db =
     (if toCreate = [] then Some db
      else (let currentKeys = map (\<lambda>r. route_key (row_target r) (row_via r))
                                (filter (\<lambda>r. row_networkId r = nw) (routes_tab db));
                freshRoutes = filter (\<lambda>r. getRouteKey r \<notin> set currentKeys) toCreate
            in if freshRoutes = [] then Some db
               else if nw \<notin> set (network_ids db) then None
               else Some (db\<lparr>routes_tab := create_skip gen nw (routes_tab db) freshRoutes\<rparr>)))"

text \<open>\<^verbatim>\<open>tx.routes.update\<close>: \<open>None\<close> when no row has the identifier or the new values break a unique
  index.\<close>

definition update_route :: "routes_entity \<Rightarrow> routes_db \<Rightarrow> routes_db option" where
  "update_route r db =
     (case find (\<lambda>row. Some (row_id row) = re_id r) (routes_tab db) of
        None \<Rightarrow> None
      | Some old \<Rightarrow>
        (if list_ex (\<lambda>o2. row_id o2 \<noteq> row_id old
                         \<and> conflicts (row_networkId old) (re_target r) (or_null (re_via r)) o2) (routes_tab db)
         then None
         else Some (db\<lparr>routes_tab := map (\<lambda>row. if row_id row = row_id old
                  then row\<lparr>row_target := re_target r, row_via := or_null (re_via r)\<rparr> else row) (routes_tab db)\<rparr>)))"

fun update_routes :: "routes_entity list \<Rightarrow> routes_db \<Rightarrow> routes_db option" where
  "update_routes [] db = Some db"
| "update_routes (r # rs) db = Option.bind (update_route r db) (update_routes rs)"

definition delete_routes :: "string list \<Rightarrow> routes_db \<Rightarrow> routes_db" where
  "delete_routes ids db =
     (if ids = [] then db
      else db\<lparr>routes_tab := filter (\<lambda>r. row_id r \<notin> set ids) (routes_tab db)\<rparr>)"

definition apply_plan :: "(route_row list \<Rightarrow> string) \<Rightarrow> string \<Rightarrow> route_plan \<Rightarrow> routes_db \<Rightarrow> routes_db option" where
  "apply_plan gen nw plan db =
     Option.bind (create_routes gen nw (routesToCreate plan) db) (\<lambda>db1.
     Option.bind (update_routes (routesToUpdate plan) db1) (\<lambda>db2.
     Some (delete_routes (routesToDelete plan) db2)))"

text \<open>What the call returns: the given network unchanged, the network read back (its routes, or
  \<^verbatim>\<open>null\<close> when the network row is gone), or \<^verbatim>\<open>undefined\<close> after a logged error.\<close>

datatype sync_return = Unchanged | Reread "route_row list option" | Failed

definition syncNetworkRoutes ::
  "(route_row list \<Rightarrow> string) \<Rightarrow> string \<Rightarrow> routes_entity list option \<Rightarrow> routes_entity list
     \<Rightarrow> routes_db \<Rightarrow> sync_return \<times> routes_db" where
  "syncNetworkRoutes gen networkId dbRoutesRaw ztControllerRoutes db =
     (case dbRoutesRaw of
        None \<Rightarrow> (Unchanged, db)
      | Some raw \<Rightarrow>
        (let plan = route_plan_of raw ztControllerRoutes
         in if routesToCreate plan = [] \<and> routesToUpdate plan = [] \<and> routesToDelete plan = []
            then (Unchanged, db)
            else (case apply_plan gen networkId plan db of
                    None \<Rightarrow> (Failed, db)
                  | Some db' \<Rightarrow>
                      (Reread (if networkId \<in> set (network_ids db')
                               then Some (filter (\<lambda>r. row_networkId r = networkId) (routes_tab db'))
                               else None), db'))))"

text \<open>The routes of a network as the database stores them, and their entities.\<close>

definition network_rows :: "string \<Rightarrow> routes_db \<Rightarrow> route_row list" where
  "network_rows nw db = filter (\<lambda>r. row_networkId r = nw) (routes_tab db)"

definition snapshot :: "string \<Rightarrow> routes_db \<Rightarrow> routes_entity list" where
  "snapshot nw db = map entity_of_row (network_rows nw db)"

definition row_key :: "route_row \<Rightarrow> string" where
  "row_key r = route_key (row_target r) (row_via r)"

section \<open>Invariants\<close>

text \<open>Primary key and non-empty identifiers, and the unique index on network, target and
  via.\<close>

definition routes_wf :: "routes_db \<Rightarrow> bool" where
  "routes_wf db \<longleftrightarrow> distinct (map row_id (routes_tab db)) \<and> list_all (\<lambda>r. row_id r \<noteq> []) (routes_tab db)"

definition unique_index :: "routes_db \<Rightarrow> bool" where
  "unique_index db \<longleftrightarrow> distinct (map (\<lambda>r. (row_networkId r, row_target r, row_via r)) (routes_tab db))"

text \<open>Route values for which the key is unambiguous: no dash in target or via, and the via is
  not the literal text \<^verbatim>\<open>null\<close>.\<close>

definition clean_via :: "string option \<Rightarrow> bool" where
  "clean_via v = (case v of None \<Rightarrow> True | Some s \<Rightarrow> CHR ''-'' \<notin> set s \<and> s \<noteq> ''null'')"

definition clean_route :: "string \<Rightarrow> string option \<Rightarrow> bool" where
  "clean_route t v \<longleftrightarrow> CHR ''-'' \<notin> set t \<and> clean_via v"

definition clean_rows :: "route_row list \<Rightarrow> bool" where
  "clean_rows rows = list_all (\<lambda>r. clean_route (row_target r) (row_via r) \<and> row_via r \<noteq> Some []) rows"

definition clean_entities :: "routes_entity list \<Rightarrow> bool" where
  "clean_entities rs = list_all (\<lambda>r. clean_route (re_target r) (re_via r)) rs"

text \<open>The rows that survive, as a set: an old row is kept exactly when it is the first of its key
  in the note-first order and the controller still has the key.\<close>

definition kept :: "routes_entity list \<Rightarrow> routes_entity list \<Rightarrow> route_row \<Rightarrow> bool" where
  "kept raw zt r \<longleftrightarrow> row_key r \<in> getRouteKey ` set zt
     \<and> find (\<lambda>e. getRouteKey e = row_key r) (note_first raw) = Some (entity_of_row r)"

definition sync_result :: "string \<Rightarrow> routes_entity list \<Rightarrow> routes_db \<Rightarrow> routes_db \<Rightarrow> bool" where
  "sync_result nw zt db db' \<longleftrightarrow>
     row_key ` set (network_rows nw db') = getRouteKey ` set zt
   \<and> distinct (map row_key (network_rows nw db'))
   \<and> filter (\<lambda>r. row_networkId r \<noteq> nw) (routes_tab db') = filter (\<lambda>r. row_networkId r \<noteq> nw) (routes_tab db)
   \<and> (\<forall>r\<in>set (network_rows nw db'). r \<in> set (network_rows nw db)
         \<or> (row_notes r = None \<and> row_key r \<notin> row_key ` set (network_rows nw db)))
   \<and> (\<forall>r\<in>set (network_rows nw db). has_note (entity_of_row r) \<and> row_key r \<in> getRouteKey ` set zt
         \<longrightarrow> (\<exists>r'\<in>set (network_rows nw db'). row_key r' = row_key r \<and> has_note (entity_of_row r')))"

definition fresh_id :: "route_row list \<Rightarrow> string" where
  "fresh_id t = concat (map row_id t) @ ''x''"

definition routes_demo :: routes_db where
  "routes_demo = \<lparr>routes_tab = [\<lparr>row_id = ''r1'', row_target = ''10.0.0.0/8'', row_via = None, row_networkId = ''n'', row_notes = None\<rparr>,
      \<lparr>row_id = ''r2'', row_target = ''10.0.0.0/8'', row_via = None, row_networkId = ''n'', row_notes = Some ''lab''\<rparr>],
     network_ids = [''n'']\<rparr>"

abbreviation routes_wanted :: "routes_entity list" where
  "routes_wanted \<equiv> [\<lparr>re_id = None, re_target = ''10.0.0.0/8'', re_via = None, re_notes = None\<rparr>,
     \<lparr>re_id = None, re_target = ''10.9.0.0/16'', re_via = Some ''10.0.0.1'', re_notes = None\<rparr>]"

lemmas route_defs [model_defs] = entity_of_row_def or_null_def route_key_def getRouteKey_def
  hasRouteChanged_def has_note_def note_first_def route_map_def plan_step_def route_plan_of_def
  conflicts_def create_routes_def update_route_def delete_routes_def apply_plan_def
  syncNetworkRoutes_def network_rows_def snapshot_def row_key_def

section \<open>Keys and maps\<close>

lemma map_of_route_map: "map_of (route_map rs) k = find (\<lambda>r. getRouteKey r = k) rs"
proof (cases "find (\<lambda>r. getRouteKey r = k) rs")
  case None
  then have "k \<notin> getRouteKey ` set rs" by (auto simp: find_None_all)
  with None show ?thesis by (simp add: route_map_def map_of_map_restrict restrict_map_def)
next
  case (Some r)
  then have "k \<in> getRouteKey ` set rs" by (auto dest: find_Some_mem)
  with Some show ?thesis by (auto simp: route_map_def map_of_map_restrict restrict_map_def)
qed

lemma fst_route_map: "map fst (route_map rs) = js_set (map getRouteKey rs)"
  by (simp add: route_map_def comp_def)

lemma route_map_mem: "(k, r) \<in> set (route_map rs) \<longleftrightarrow> find (\<lambda>r. getRouteKey r = k) rs = Some r"
proof -
  have "distinct (map fst (route_map rs))" by (simp add: fst_route_map)
  then show ?thesis by (metis map_of_route_map map_of_eq_Some_iff)
qed

lemma route_map_key: "(k, r) \<in> set (route_map rs) \<Longrightarrow> getRouteKey r = k \<and> r \<in> set rs"
  by (auto simp: route_map_mem dest: find_Some_mem)

lemma route_key_or_null [simp]: "route_key t (or_null v) = route_key t v"
  by (auto simp: route_key_def or_null_def str_or_def)

lemma clean_key_inject:
  assumes "clean_route t v" "clean_route t' v'" "route_key t v = route_key t' v'"
  shows "t = t' \<and> or_null v = or_null v'"
proof -
  let ?s = "str_or v ''null''" and ?s' = "str_or v' ''null''"
  have "js_split CHR ''-'' (t @ CHR ''-'' # ?s) = t # js_split CHR ''-'' ?s"
    "js_split CHR ''-'' (t' @ CHR ''-'' # ?s') = t' # js_split CHR ''-'' ?s'"
    using assms(1,2) by (auto simp: clean_route_def intro: js_split_append)
  with assms(3) have t: "t = t'" and "js_split CHR ''-'' ?s = js_split CHR ''-'' ?s'"
    by (auto simp: route_key_def)
  then have "?s = ?s'" by (metis js_join_split)
  with assms(1,2) have "or_null v = or_null v'"
    by (cases v; cases v') (auto simp: str_or_def or_null_def clean_route_def clean_via_def split: if_splits)
  with t show ?thesis by simp
qed

lemma clean_not_changed:
  assumes "clean_route (re_target e) (re_via e)" "re_via e \<noteq> Some []"
    and "clean_route (re_target z) (re_via z)" and "getRouteKey e = getRouteKey z"
  shows "\<not> hasRouteChanged e z"
proof -
  have "re_target e = re_target z \<and> or_null (re_via e) = or_null (re_via z)"
    using assms by (intro clean_key_inject) (auto simp: getRouteKey_def)
  moreover have "or_null (re_via e) = re_via e"
    using assms(2) by (cases "re_via e") (auto simp: or_null_def)
  ultimately show ?thesis by (simp add: hasRouteChanged_def)
qed

section \<open>The plan\<close>

lemma set_note_first [simp]: "set (note_first rs) = set rs"
  by (simp add: note_first_def)

lemma plan_fold:
  assumes "distinct (map fst new)" and "\<forall>(k, z)\<in>set new. getRouteKey z = k"
    and "\<forall>r\<in>set C. getRouteKey r \<notin> fst ` set new"
    and "\<forall>(k, z)\<in>set new. \<forall>e. map_of ex k = Some e \<longrightarrow> \<not> hasRouteChanged e z"
  shows "foldl (plan_step ex) (C, U) new
           = (C @ map snd (filter (\<lambda>(k, z). map_of ex k = None) new), U)"
  using assms
proof (induction new arbitrary: C)
  case (Cons kz new)
  obtain k z where kz: "kz = (k, z)" by (cases kz)
  have k: "getRouteKey z = k" and c: "\<forall>r\<in>set C. getRouteKey r \<noteq> k" using Cons.prems kz by auto
  show ?case
  proof (cases "map_of ex k")
    case None
    then have "plan_step ex (C, U) kz = (C @ [z], U)"
      using c kz by (auto simp: plan_step_def list_ex_iff)
    moreover have "foldl (plan_step ex) (C @ [z], U) new
        = ((C @ [z]) @ map snd (filter (\<lambda>(k, z). map_of ex k = None) new), U)"
      using Cons.prems kz k by (intro Cons.IH) auto
    ultimately show ?thesis using None kz by simp
  next
    case (Some e)
    then have "plan_step ex (C, U) kz = (C, U)" using Cons.prems(4) kz by (simp add: plan_step_def)
    moreover have "foldl (plan_step ex) (C, U) new = (C @ map snd (filter (\<lambda>(k, z). map_of ex k = None) new), U)"
      using Cons.prems kz by (intro Cons.IH) auto
    ultimately show ?thesis using Some kz by simp
  qed
qed simp

lemma duplicate_ids_mem:
  assumes "distinct (map re_id S)" and "\<forall>e\<in>set S. truthy (re_id e)" and "e \<in> set S"
  shows "the (re_id e) \<in> set (duplicate_ids seen S)
           \<longleftrightarrow> getRouteKey e \<in> set seen \<or> find (\<lambda>r. getRouteKey r = getRouteKey e) S \<noteq> Some e"
  using assms
proof (induction S arbitrary: seen)
  case (Cons r S)
  have sub: "i \<in> (\<lambda>e. the (re_id e)) ` set S" if "i \<in> set (duplicate_ids s S)" for i s
    using that by (induction s S rule: duplicate_ids.induct) (auto split: if_splits)
  have inj: "the (re_id r) \<notin> (\<lambda>e. the (re_id e)) ` set S"
    using Cons.prems(1,2) by (auto simp: truthy_def split: option.splits)
  show ?case
  proof (cases "e = r")
    case True
    then show ?thesis using Cons.prems(2) inj sub by auto
  next
    case False
    then have e: "e \<in> set S" using Cons.prems(3) by simp
    have ne: "the (re_id e) \<noteq> the (re_id r)" using inj e by (metis (no_types, lifting) image_eqI)
    show ?thesis
      using Cons.IH [OF _ _ e] Cons.prems ne False by auto
  qed
qed simp

lemma removed_ids_set:
  assumes "\<forall>(k, r)\<in>set ex. re_id r \<noteq> None"
  shows "set (removed_ids nk seen ex) = {i. \<exists>(k, r)\<in>set ex. k \<notin> set nk \<and> re_id r = Some i \<and> Some i \<notin> set seen}"
  using assms by (induction nk seen ex rule: removed_ids.induct) (auto, blast+)


section \<open>The transaction\<close>

lemma create_skip_spec:
  assumes "distinct (map getRouteKey rs)"
    and "\<forall>r\<in>set rs. getRouteKey r \<notin> row_key ` set (filter (\<lambda>r. row_networkId r = nw) tab)"
    and "\<And>t. gen t \<notin> row_id ` set t \<and> gen t \<noteq> []" and "distinct (map row_id tab)"
  shows "\<exists>news. create_skip gen nw tab rs = tab @ news \<and> map row_key news = map getRouteKey rs
     \<and> (\<forall>r\<in>set news. row_networkId r = nw \<and> row_notes r = None \<and> row_id r \<noteq> [])
     \<and> distinct (map row_id (tab @ news))"
  using assms(1,2,4)
proof (induction rs arbitrary: tab)
  case (Cons r rs)
  let ?row = "\<lparr>row_id = gen tab, row_target = re_target r, row_via = or_null (re_via r),
                row_networkId = nw, row_notes = None\<rparr>"
  have k: "row_key ?row = getRouteKey r" by (simp add: row_key_def getRouteKey_def)
  have "\<not> list_ex (conflicts nw (re_target r) (or_null (re_via r))) tab"
  proof
    assume "list_ex (conflicts nw (re_target r) (or_null (re_via r))) tab"
    then obtain o2 where "o2 \<in> set tab" "row_networkId o2 = nw" "row_key o2 = getRouteKey r"
      by (auto simp: list_ex_iff conflicts_def row_key_def getRouteKey_def)
    then show False using Cons.prems(2) by force
  qed
  then have c: "create_skip gen nw tab (r # rs) = create_skip gen nw (tab @ [?row]) rs" by simp
  have "\<exists>news. create_skip gen nw (tab @ [?row]) rs = (tab @ [?row]) @ news \<and> map row_key news = map getRouteKey rs
     \<and> (\<forall>r\<in>set news. row_networkId r = nw \<and> row_notes r = None \<and> row_id r \<noteq> [])
     \<and> distinct (map row_id ((tab @ [?row]) @ news))"
  proof (rule Cons.IH)
    show "distinct (map getRouteKey rs)" using Cons.prems(1) by simp
    show "\<forall>x\<in>set rs. getRouteKey x \<notin> row_key ` set (filter (\<lambda>r. row_networkId r = nw) (tab @ [?row]))"
      using Cons.prems(1,2) k by (auto simp: image_iff)
    show "distinct (map row_id (tab @ [?row]))" using Cons.prems(3) assms(3) [of tab] by simp
  qed
  then obtain news where n: "create_skip gen nw (tab @ [?row]) rs = tab @ ?row # news"
    "map row_key news = map getRouteKey rs"
    "\<forall>r\<in>set news. row_networkId r = nw \<and> row_notes r = None \<and> row_id r \<noteq> []"
    "distinct (map row_id (tab @ ?row # news))" by auto
  show ?case
    by (rule exI [of _ "?row # news"]) (use n k c assms(3) [of tab] in simp)
qed simp

lemma getRouteKey_entity [simp]: "getRouteKey (entity_of_row r) = row_key r"
  by (simp add: getRouteKey_def entity_of_row_def row_key_def)

lemma entity_id [simp]: "re_id (entity_of_row r) = Some (row_id r)"
  by (simp add: entity_of_row_def)

lemma no_updates:
  assumes "clean_rows (network_rows nw db)" and "clean_entities zt"
  defines "S \<equiv> note_first (snapshot nw db)"
  shows "foldl (plan_step (route_map S)) ([], []) (route_map zt)
      = (map snd (filter (\<lambda>(k, z). find (\<lambda>r. getRouteKey r = k) S = None) (route_map zt)), [])"
proof -
  have "foldl (plan_step (route_map S)) ([], []) (route_map zt)
      = ([] @ map snd (filter (\<lambda>(k, z). map_of (route_map S) k = None) (route_map zt)), [])"
  proof (rule plan_fold)
    show "\<forall>(k, z)\<in>set (route_map zt). \<forall>e. map_of (route_map S) k = Some e \<longrightarrow> \<not> hasRouteChanged e z"
    proof clarify
      fix k z e assume z: "(k, z) \<in> set (route_map zt)" and e: "map_of (route_map S) k = Some e"
        and h: "hasRouteChanged e z"
      have "e \<in> set S" "getRouteKey e = k" using e by (auto simp: map_of_route_map dest: find_Some_mem)
      then obtain r where r: "r \<in> set (network_rows nw db)" "e = entity_of_row r"
        by (auto simp: S_def snapshot_def)
      have "\<not> hasRouteChanged e z"
        using r \<open>getRouteKey e = k\<close> assms(1,2) route_map_key [OF z]
        by (intro clean_not_changed) (auto simp: clean_rows_def clean_entities_def list_all_iff entity_of_row_def)
      with h show False by simp
    qed
  qed (auto simp: fst_route_map dest: route_map_key)
  then show ?thesis by (simp add: map_of_route_map)
qed

lemma snapshot_ids:
  assumes "routes_wf db"
  shows "distinct (map re_id (note_first (snapshot nw db)))"
    "\<forall>e\<in>set (note_first (snapshot nw db)). truthy (re_id e)"
proof -
  have "distinct (map row_id (network_rows nw db))"
    using assms by (simp add: routes_wf_def network_rows_def distinct_map_filter)
  then have "distinct (map re_id (snapshot nw db))"
    by (simp add: snapshot_def comp_def distinct_map inj_on_def)
  moreover have "mset (map re_id (note_first (snapshot nw db))) = mset (map re_id (snapshot nw db))"
    by (simp add: note_first_def)
  ultimately show "distinct (map re_id (note_first (snapshot nw db)))" by (metis mset_eq_imp_distinct_iff)
  show "\<forall>e\<in>set (note_first (snapshot nw db)). truthy (re_id e)"
    using assms by (auto simp: routes_wf_def network_rows_def list_all_iff snapshot_def)
qed

lemma duplicate_ids_sub: "i \<in> set (duplicate_ids s S) \<Longrightarrow> i \<in> (\<lambda>e. the (re_id e)) ` set S"
  by (induction s S rule: duplicate_ids.induct) (auto split: if_splits)

lemma removed_ids_snapshot:
  assumes "routes_wf db" and r: "r \<in> set (network_rows nw db)"
  defines "S \<equiv> note_first (snapshot nw db)"
  shows "row_id r \<in> set (removed_ids (map fst (route_map zt)) [] (route_map S))
    \<longleftrightarrow> row_key r \<notin> getRouteKey ` set zt \<and> find (\<lambda>x. getRouteKey x = row_key r) S = Some (entity_of_row r)"
    (is "?L \<longleftrightarrow> ?R")
    and "set (removed_ids (map fst (route_map zt)) [] (route_map S)) \<subseteq> row_id ` set (network_rows nw db)"
proof -
  have S: "set S = entity_of_row ` set (network_rows nw db)" by (simp add: S_def snapshot_def)
  have "\<forall>(k, r)\<in>set (route_map S). re_id r \<noteq> None" using S by (auto dest!: route_map_key)
  then have rem: "set (removed_ids (map fst (route_map zt)) [] (route_map S))
      = {i. \<exists>(k, r)\<in>set (route_map S). k \<notin> getRouteKey ` set zt \<and> re_id r = Some i}"
    by (simp add: removed_ids_set fst_route_map)
  show "set (removed_ids (map fst (route_map zt)) [] (route_map S)) \<subseteq> row_id ` set (network_rows nw db)"
    unfolding rem using S by (auto dest!: route_map_key)
  have inj: "x = entity_of_row r" if "x \<in> set S" "re_id x = Some (row_id r)" for x
    using that r S snapshot_ids(1) [OF assms(1), of nw] unfolding S_def
    by (metis entity_id distinct_map imageI inj_onD)
  show "?L \<longleftrightarrow> ?R"
  proof
    assume ?L
    then obtain k x where x: "(k, x) \<in> set (route_map S)" "k \<notin> getRouteKey ` set zt" "re_id x = Some (row_id r)"
      unfolding rem by blast
    have "x = entity_of_row r" "getRouteKey x = k" using route_map_key [OF x(1)] inj x(3) by auto
    with x show ?R by (simp add: route_map_mem)
  next
    assume a: ?R
    then have "(row_key r, entity_of_row r) \<in> set (route_map S)" by (simp add: route_map_mem)
    with a show ?L unfolding rem by force
  qed
qed

lemma plan_of_snapshot:
  assumes "routes_wf db" and "clean_rows (network_rows nw db)" and "clean_entities zt"
  defines "raw \<equiv> snapshot nw db"
  shows "routesToUpdate (route_plan_of raw zt) = []"
    and "routesToCreate (route_plan_of raw zt)
      = map snd (filter (\<lambda>(k, z). find (\<lambda>r. getRouteKey r = k) (note_first raw) = None) (route_map zt))"
    and "r \<in> set (network_rows nw db) \<Longrightarrow> row_id r \<in> set (routesToDelete (route_plan_of raw zt)) \<longleftrightarrow> \<not> kept raw zt r"
    and "set (routesToDelete (route_plan_of raw zt)) \<subseteq> row_id ` set (network_rows nw db)"
proof -
  let ?S = "note_first raw"
  have p: "route_plan_of raw zt = \<lparr>routesToCreate = map snd (filter (\<lambda>(k, z). find (\<lambda>r. getRouteKey r = k) ?S = None) (route_map zt)),
      routesToUpdate = [], routesToDelete = duplicate_ids [] ?S @ removed_ids (map fst (route_map zt)) [] (route_map ?S)\<rparr>"
    using no_updates [OF assms(2,3)] by (simp add: route_plan_of_def raw_def Let_def)
  show "routesToUpdate (route_plan_of raw zt) = []"
    and "routesToCreate (route_plan_of raw zt)
      = map snd (filter (\<lambda>(k, z). find (\<lambda>r. getRouteKey r = k) ?S = None) (route_map zt))"
    by (simp_all add: p)
  have S: "set ?S = entity_of_row ` set (network_rows nw db)" by (simp add: raw_def snapshot_def)
  have "network_rows nw db = [] \<or> set (removed_ids (map fst (route_map zt)) [] (route_map ?S)) \<subseteq> row_id ` set (network_rows nw db)"
    using removed_ids_snapshot(2) [OF assms(1), of "hd (network_rows nw db)" nw zt] hd_in_set
    unfolding raw_def by blast
  moreover have "network_rows nw db = [] \<Longrightarrow> route_map ?S = []"
    by (simp add: raw_def snapshot_def note_first_def route_map_def)
  ultimately show "set (routesToDelete (route_plan_of raw zt)) \<subseteq> row_id ` set (network_rows nw db)"
    using S by (auto simp: p dest!: duplicate_ids_sub)
  show "row_id r \<in> set (routesToDelete (route_plan_of raw zt)) \<longleftrightarrow> \<not> kept raw zt r" if r: "r \<in> set (network_rows nw db)"
  proof -
    have "entity_of_row r \<in> set ?S" using r S by simp
    then have "row_id r \<in> set (duplicate_ids [] ?S) \<longleftrightarrow> find (\<lambda>x. getRouteKey x = row_key r) ?S \<noteq> Some (entity_of_row r)"
      using duplicate_ids_mem [OF snapshot_ids [OF assms(1), of nw], of "entity_of_row r" "[]"] by (simp add: raw_def)
    then show ?thesis
      using removed_ids_snapshot(1) [OF assms(1) r, of zt] unfolding p by (auto simp: kept_def raw_def)
  qed
qed

lemma find_sorted_notes:
  assumes "sorted (map (\<lambda>r. if has_note r then 0 else 1 :: nat) L)"
    and "find P L = Some e" and "x \<in> set L" and "P x" and "has_note x"
  shows "has_note e"
  using assms by (induction L) (auto split: if_splits)

lemma note_first_prefers_notes:
  assumes "find P (note_first rs) = Some e" and "x \<in> set rs" and "P x" and "has_note x"
  shows "has_note e"
  using assms by (intro find_sorted_notes [of "note_first rs" P e x]) (simp_all add: note_first_def)

lemma created_keys:
  assumes "routes_wf db" and "clean_rows (network_rows nw db)" and "clean_entities zt"
  shows "map getRouteKey (routesToCreate (route_plan_of (snapshot nw db) zt))
     = filter (\<lambda>k. k \<notin> row_key ` set (network_rows nw db)) (js_set (map getRouteKey zt))"
proof -
  let ?S = "note_first (snapshot nw db)"
  have 1: "map getRouteKey (map snd (filter Q (route_map zt))) = map fst (filter Q (route_map zt))" for Q
    by (auto dest: route_map_key)
  have 2: "map fst (filter (\<lambda>(k, z). R k) m) = filter R (map fst m)" for R and m :: "(string \<times> routes_entity) list"
    by (induction m) auto
  have "row_key ` set (network_rows nw db) = getRouteKey ` set ?S"
    by (simp add: snapshot_def image_image)
  then have 3: "(\<lambda>k. find (\<lambda>r. getRouteKey r = k) ?S = None) = (\<lambda>k. k \<notin> row_key ` set (network_rows nw db))"
    by (auto simp: find_None_all fun_eq_iff)
  have "map getRouteKey (routesToCreate (route_plan_of (snapshot nw db) zt))
      = filter (\<lambda>k. find (\<lambda>r. getRouteKey r = k) ?S = None) (js_set (map getRouteKey zt))"
    by (simp only: plan_of_snapshot(2) [OF assms] 1 2 fst_route_map)
  then show ?thesis unfolding 3 .
qed

lemma apply_plan_rows:
  assumes wf: "routes_wf db" and clean: "clean_rows (network_rows nw db)" "clean_entities zt"
    and nw: "nw \<in> set (network_ids db)" and gen: "\<And>t. gen t \<notin> row_id ` set t \<and> gen t \<noteq> []"
  defines "plan \<equiv> route_plan_of (snapshot nw db) zt"
  shows "\<exists>news. apply_plan gen nw plan db
       = Some (db\<lparr>routes_tab := filter (\<lambda>r. row_id r \<notin> set (routesToDelete plan)) (routes_tab db @ news)\<rparr>)
     \<and> map row_key news = filter (\<lambda>k. k \<notin> row_key ` set (network_rows nw db)) (js_set (map getRouteKey zt))
     \<and> (\<forall>r\<in>set news. row_networkId r = nw \<and> row_notes r = None \<and> row_id r \<noteq> [])
     \<and> distinct (map row_id (routes_tab db @ news))"
proof -
  let ?old = "network_rows nw db"
  note P = plan_of_snapshot [OF wf clean, folded plan_def]
  note K = created_keys [OF wf clean, folded plan_def]
  have fresh: "getRouteKey r \<notin> row_key ` set ?old" if "r \<in> set (routesToCreate plan)" for r
  proof -
    have "getRouteKey r \<in> set (map getRouteKey (routesToCreate plan))" using that by simp
    then show ?thesis unfolding K by simp
  qed
  obtain news where n: "create_skip gen nw (routes_tab db) (routesToCreate plan) = routes_tab db @ news"
    "map row_key news = map getRouteKey (routesToCreate plan)"
    "\<forall>r\<in>set news. row_networkId r = nw \<and> row_notes r = None \<and> row_id r \<noteq> []"
    "distinct (map row_id (routes_tab db @ news))"
    using create_skip_spec [of "routesToCreate plan" nw "routes_tab db" gen] wf gen fresh
    by (auto simp: K routes_wf_def network_rows_def)
  have "map (\<lambda>r. route_key (row_target r) (row_via r)) (filter (\<lambda>r. row_networkId r = nw) (routes_tab db)) = map row_key ?old"
    by (simp add: network_rows_def row_key_def)
  moreover have "filter (\<lambda>r. getRouteKey r \<notin> set (map row_key ?old)) (routesToCreate plan) = routesToCreate plan"
    using fresh by (auto simp: filter_id_conv)
  ultimately have "create_routes gen nw (routesToCreate plan) db = Some (db\<lparr>routes_tab := routes_tab db @ news\<rparr>)"
    using n nw by (cases "routesToCreate plan = []") (simp_all add: create_routes_def Let_def)
  then have "apply_plan gen nw plan db
       = Some (db\<lparr>routes_tab := filter (\<lambda>r. row_id r \<notin> set (routesToDelete plan)) (routes_tab db @ news)\<rparr>)"
    using P(1) by (simp add: apply_plan_def delete_routes_def)
  then show ?thesis using n K by (intro exI [of _ news]) simp
qed

lemma first_kept:
  assumes "k \<in> row_key ` set (network_rows nw db)" and "k \<in> getRouteKey ` set zt"
  shows "\<exists>r'\<in>set (network_rows nw db). kept (snapshot nw db) zt r' \<and> row_key r' = k"
proof -
  let ?S = "note_first (snapshot nw db)"
  obtain e where e: "find (\<lambda>x. getRouteKey x = k) ?S = Some e"
    using assms(1) by (cases "find (\<lambda>x. getRouteKey x = k) ?S") (auto simp: find_None_all snapshot_def)
  then obtain r' where "r' \<in> set (network_rows nw db)" "e = entity_of_row r'" "row_key r' = k"
    by (auto simp: snapshot_def dest!: find_Some_mem)
  then show ?thesis using e assms(2) by (auto simp: kept_def)
qed

lemma kept_unique:
  assumes "routes_wf db" and "kept (snapshot nw db) zt r" "kept (snapshot nw db) zt r'"
    and "r \<in> set (network_rows nw db)" "r' \<in> set (network_rows nw db)" and "row_key r = row_key r'"
  shows "r = r'"
proof -
  have "entity_of_row r = entity_of_row r'" using assms(2,3,6) by (simp add: kept_def)
  then have "row_id r = row_id r'" by (metis entity_id option.inject)
  with assms(1,4,5) show ?thesis
    by (auto simp: routes_wf_def network_rows_def distinct_map dest: inj_onD)
qed

lemma other_networks_kept:
  assumes "routes_wf db" and "D \<subseteq> row_id ` set (network_rows nw db)"
    and "\<forall>r\<in>set news. row_networkId r = nw"
  shows "filter (\<lambda>r. row_networkId r \<noteq> nw) (filter (\<lambda>r. row_id r \<notin> D) (routes_tab db @ news))
       = filter (\<lambda>r. row_networkId r \<noteq> nw) (routes_tab db)"
proof -
  have "row_id r \<notin> D" if "r \<in> set (routes_tab db)" "row_networkId r \<noteq> nw" for r
  proof
    assume "row_id r \<in> D"
    then obtain o2 where "o2 \<in> set (routes_tab db)" "row_networkId o2 = nw" "row_id o2 = row_id r"
      using assms(2) by (auto simp: network_rows_def)
    with that assms(1) show False by (metis distinct_map inj_onD routes_wf_def)
  qed
  then have "filter (\<lambda>r. row_networkId r \<noteq> nw \<and> row_id r \<notin> D) (routes_tab db) = filter (\<lambda>r. row_networkId r \<noteq> nw) (routes_tab db)"
    by (intro filter_cong) auto
  moreover have "filter (\<lambda>r. row_networkId r \<noteq> nw \<and> row_id r \<notin> D) news = []"
    using assms(3) by (auto simp: filter_empty_conv)
  ultimately show ?thesis by (simp add: conj_commute)
qed

lemma mirrored_rows:
  assumes wf: "routes_wf db"
    and rows: "set (network_rows nw db') = {r \<in> set (network_rows nw db). kept (snapshot nw db) zt r} \<union> set news"
    and keys: "map row_key news = filter (\<lambda>k. k \<notin> row_key ` set (network_rows nw db)) (js_set (map getRouteKey zt))"
  shows "row_key ` set (network_rows nw db') = getRouteKey ` set zt"
    and "inj_on row_key (set (network_rows nw db'))"
    and "r \<in> set news \<Longrightarrow> row_key r \<notin> row_key ` set (network_rows nw db)"
proof -
  let ?old = "network_rows nw db"
  have "set (map row_key news) = {k \<in> getRouteKey ` set zt. k \<notin> row_key ` set ?old}"
    unfolding keys by auto
  then have new: "row_key ` set news = {k \<in> getRouteKey ` set zt. k \<notin> row_key ` set ?old}" by simp
  have k: "kept (snapshot nw db) zt r \<Longrightarrow> row_key r \<in> getRouteKey ` set zt" for r by (simp add: kept_def)
  show "row_key ` set (network_rows nw db') = getRouteKey ` set zt"
  proof (intro equalityI subsetI)
    fix x assume "x \<in> row_key ` set (network_rows nw db')"
    then show "x \<in> getRouteKey ` set zt" unfolding rows image_Un new using k by auto
  next
    fix x assume x: "x \<in> getRouteKey ` set zt"
    show "x \<in> row_key ` set (network_rows nw db')"
    proof (cases "x \<in> row_key ` set ?old")
      case True
      from first_kept [OF True x] show ?thesis unfolding rows by auto
    next
      case False
      with x have "x \<in> row_key ` set news" unfolding new by simp
      then show ?thesis unfolding rows by auto
    qed
  qed
  have d: "inj_on row_key (set news)"
    using distinct_map [of row_key news] unfolding keys by simp
  show x: "row_key r \<notin> row_key ` set ?old" if "r \<in> set news" for r
  proof -
    have "row_key r \<in> row_key ` set news" using that by simp
    then show ?thesis unfolding new by simp
  qed
  show "inj_on row_key (set (network_rows nw db'))"
  proof (rule inj_onI)
    fix r r' assume "r \<in> set (network_rows nw db')" "r' \<in> set (network_rows nw db')" and e: "row_key r = row_key r'"
    then consider "r \<in> set ?old \<and> kept (snapshot nw db) zt r \<and> r' \<in> set ?old \<and> kept (snapshot nw db) zt r'"
      | "r \<in> set news \<and> r' \<in> set news" | "r \<in> set news \<and> r' \<in> set ?old" | "r \<in> set ?old \<and> r' \<in> set news"
      unfolding rows by blast
    then show "r = r'"
    proof cases
      case 1
      then show ?thesis using kept_unique [OF wf] e by blast
    next
      case 2
      then show ?thesis using d e by (blast dest: inj_onD)
    qed (use x e in \<open>metis imageI\<close>)+
  qed
qed

lemma apply_plan_sync:
  assumes wf: "routes_wf db" and clean: "clean_rows (network_rows nw db)" "clean_entities zt"
    and nw: "nw \<in> set (network_ids db)" and gen: "\<And>t. gen t \<notin> row_id ` set t \<and> gen t \<noteq> []"
  shows "\<exists>db'. apply_plan gen nw (route_plan_of (snapshot nw db) zt) db = Some db'
     \<and> sync_result nw zt db db' \<and> routes_wf db' \<and> network_ids db' = network_ids db"
proof -
  define plan where "plan = route_plan_of (snapshot nw db) zt"
  let ?old = "network_rows nw db" and ?D = "set (routesToDelete plan)"
  note P = plan_of_snapshot(3,4) [OF wf clean, folded plan_def]
  obtain news where n: "apply_plan gen nw plan db
       = Some (db\<lparr>routes_tab := filter (\<lambda>r. row_id r \<notin> ?D) (routes_tab db @ news)\<rparr>)"
    "map row_key news = filter (\<lambda>k. k \<notin> row_key ` set ?old) (js_set (map getRouteKey zt))"
    "\<forall>r\<in>set news. row_networkId r = nw \<and> row_notes r = None \<and> row_id r \<noteq> []"
    "distinct (map row_id (routes_tab db @ news))"
    using apply_plan_rows [OF wf clean nw gen] unfolding plan_def by blast
  define db' where "db' = db\<lparr>routes_tab := filter (\<lambda>r. row_id r \<notin> ?D) (routes_tab db @ news)\<rparr>"
  have "row_id r \<notin> ?D" if "r \<in> set news" for r
    using that P(2) n(4) by (auto simp: network_rows_def)
  then have rows: "set (network_rows nw db') = {r \<in> set ?old. kept (snapshot nw db) zt r} \<union> set news"
    using P(1) n(3) by (auto simp: network_rows_def db'_def)
  note M = mirrored_rows [OF wf rows n(2)]
  have wf': "routes_wf db'"
    using wf n(3,4) by (auto simp: routes_wf_def db'_def list_all_iff distinct_map_filter simp del: filter_append map_append)
  have "distinct (network_rows nw db')"
    using wf' by (auto simp: routes_wf_def network_rows_def distinct_map)
  then have "distinct (map row_key (network_rows nw db'))" using M(2) by (simp add: distinct_map)
  moreover have "row_key r \<notin> row_key ` set ?old" if "r \<in> set news" for r using M(3) that by blast
  moreover have "\<exists>r'\<in>set (network_rows nw db'). row_key r' = row_key r \<and> has_note (entity_of_row r')"
    if h: "r \<in> set ?old" "has_note (entity_of_row r)" "row_key r \<in> getRouteKey ` set zt" for r
  proof -
    obtain r' where r': "r' \<in> set ?old" "kept (snapshot nw db) zt r'" "row_key r' = row_key r"
      using first_kept [of "row_key r" nw db zt] h(1,3) by blast
    have f: "find (\<lambda>e. getRouteKey e = row_key r) (note_first (snapshot nw db)) = Some (entity_of_row r')"
      using r' by (simp add: kept_def)
    have "has_note (entity_of_row r')"
      by (rule note_first_prefers_notes [OF f, of "entity_of_row r"]) (use h in \<open>simp_all add: snapshot_def\<close>)
    then show ?thesis using r' rows by auto
  qed
  ultimately have "sync_result nw zt db db'"
    using M(1) n(3) rows other_networks_kept [OF wf P(2), of news] by (auto simp: sync_result_def db'_def)
  then show ?thesis using n(1) wf' by (auto simp: plan_def db'_def)
qed

lemma sync_correct:
  assumes "routes_wf db" and "clean_rows (network_rows nw db)" and "clean_entities zt"
    and "nw \<in> set (network_ids db)" and "\<And>t. gen t \<notin> row_id ` set t \<and> gen t \<noteq> []"
    and "syncNetworkRoutes gen nw (Some (snapshot nw db)) zt db = (ret, db')"
  shows "ret \<noteq> Failed \<and> sync_result nw zt db db' \<and> routes_wf db' \<and> network_ids db' = network_ids db"
proof -
  let ?plan = "route_plan_of (snapshot nw db) zt"
  obtain d where d: "apply_plan gen nw ?plan db = Some d" "sync_result nw zt db d" "routes_wf d"
    "network_ids d = network_ids db"
    using apply_plan_sync [OF assms(1-5)] by blast
  have "apply_plan gen nw ?plan db = Some db"
    if "routesToCreate ?plan = []" "routesToUpdate ?plan = []" "routesToDelete ?plan = []"
    using that by (simp add: apply_plan_def create_routes_def delete_routes_def)
  then show ?thesis
    using assms(6) d by (auto simp: syncNetworkRoutes_def Let_def split: if_splits)
qed

lemma settled_plan_empty:
  assumes "routes_wf db" and "clean_rows (network_rows nw db)" and "clean_entities zt"
    and keys: "row_key ` set (network_rows nw db) = getRouteKey ` set zt" and dist: "distinct (map row_key (network_rows nw db))"
  shows "syncNetworkRoutes gen nw (Some (snapshot nw db)) zt db = (Unchanged, db)"
proof -
  let ?plan = "route_plan_of (snapshot nw db) zt"
  note P = plan_of_snapshot [OF assms(1-3)]
  have "filter (\<lambda>k. k \<notin> row_key ` set (network_rows nw db)) (js_set (map getRouteKey zt)) = []"
    unfolding keys by (auto simp: filter_empty_conv)
  then have "routesToCreate ?plan = []" using created_keys [OF assms(1-3)] by simp
  moreover have "kept (snapshot nw db) zt r" if r: "r \<in> set (network_rows nw db)" for r
  proof -
    have k: "row_key r \<in> getRouteKey ` set zt" using r keys by blast
    obtain r' where "r' \<in> set (network_rows nw db)" "kept (snapshot nw db) zt r'" "row_key r' = row_key r"
      using first_kept [OF _ k, of nw db] r by blast
    then show ?thesis using r dist by (metis distinct_map inj_onD)
  qed
  then have "i \<notin> set (routesToDelete ?plan)" for i using P(3,4) by auto
  then have "routesToDelete ?plan = []" by (metis list.set_intros(1) neq_Nil_conv)
  ultimately show ?thesis using P(1) by (simp add: syncNetworkRoutes_def Let_def)
qed

section \<open>Properties\<close>

text \<open>C1. Route sync: against a consistent table and clean keys, for every network that exists, the sync
  does not fail and leaves the network's rows an exact mirror of the controller's routes (one row per
  route), leaves other networks' rows untouched, creates only rows for routes that were missing, never
  rewrites a kept row, and never loses a note of a route that still exists.\<close>

theorem routes_mirror_controller:
  assumes "routes_wf db" and "clean_rows (network_rows nw db)" and "clean_entities zt"
    and "nw \<in> set (network_ids db)" and "\<And>t. gen t \<notin> row_id ` set t \<and> gen t \<noteq> []"
    and "syncNetworkRoutes gen nw (Some (snapshot nw db)) zt db = (ret, db')"
  shows "ret \<noteq> Failed \<and> sync_result nw zt db db' \<and> routes_wf db'"
  using sync_correct [OF assms] by simp

lemma fresh_id_fresh: "fresh_id t \<notin> row_id ` set t \<and> fresh_id t \<noteq> []"
proof -
  have "length i \<le> length (concat (map row_id t))" if "i \<in> row_id ` set t" for i
    using that by (induction t) auto
  then have "length (fresh_id t) \<le> length (concat (map row_id t))" if "fresh_id t \<in> row_id ` set t"
    using that by blast
  then show ?thesis by (auto simp: fresh_id_def simp del: length_concat)
qed

theorem routes_mirror_controller_witness:
  "sync_result ''n'' routes_wanted routes_demo
     (snd (syncNetworkRoutes fresh_id ''n'' (Some (snapshot ''n'' routes_demo)) routes_wanted routes_demo))"
proof -
  let ?r = "syncNetworkRoutes fresh_id ''n'' (Some (snapshot ''n'' routes_demo)) routes_wanted routes_demo"
  have "routes_wf routes_demo" "clean_rows (network_rows ''n'' routes_demo)" "clean_entities routes_wanted"
    "''n'' \<in> set (network_ids routes_demo)" by code_simp+
  from routes_mirror_controller [OF this fresh_id_fresh, of "fst ?r" "snd ?r"] show ?thesis by simp
qed

lemma create_skip_clean:
  assumes "clean_rows (filter (\<lambda>r. row_networkId r = nw) tab)" "clean_entities rs"
  shows "clean_rows (filter (\<lambda>r. row_networkId r = nw) (create_skip gen nw tab rs))"
  using assms
proof (induction rs arbitrary: tab)
  case (Cons r rs)
  have "clean_route (re_target r) (or_null (re_via r)) \<and> or_null (re_via r) \<noteq> Some []"
    using Cons.prems(2) by (auto simp: clean_entities_def clean_route_def or_null_def clean_via_def truthy_def
        split: option.splits)
  then show ?case using Cons by (auto simp: clean_rows_def clean_entities_def)
qed simp

lemma clean_after_sync:
  assumes "routes_wf db" and "clean_rows (network_rows nw db)" and "clean_entities zt"
    and "apply_plan gen nw (route_plan_of (snapshot nw db) zt) db = Some db'"
  shows "clean_rows (network_rows nw db')"
proof -
  let ?plan = "route_plan_of (snapshot nw db) zt"
  note P = plan_of_snapshot [OF assms(1-3)]
  have "clean_entities (routesToCreate ?plan)"
    using assms(3) unfolding P(2) by (auto simp: clean_entities_def list_all_iff dest!: route_map_key)
  then have c: "clean_entities (filter Q (routesToCreate ?plan))" for Q
    by (auto simp: clean_entities_def list_all_iff)
  obtain d where d: "create_routes gen nw (routesToCreate ?plan) db = Some d" "db' = delete_routes (routesToDelete ?plan) d"
    using assms(4) P(1) by (auto simp: apply_plan_def split: option.splits Option.bind_splits)
  then have "clean_rows (network_rows nw d)"
    using create_skip_clean [OF _ c] assms(2)
    by (auto simp: create_routes_def network_rows_def Let_def split: if_splits)
  then show ?thesis unfolding d(2)
    by (auto simp: delete_routes_def network_rows_def clean_rows_def list_all_iff)
qed

text \<open>Idempotence: syncing again against the same controller routes reports that nothing changed and
  changes nothing.\<close>

theorem routes_sync_idempotent:
  assumes "routes_wf db" and "clean_rows (network_rows nw db)" and "clean_entities zt"
    and "nw \<in> set (network_ids db)" and "\<And>t. gen t \<notin> row_id ` set t \<and> gen t \<noteq> []"
    and "syncNetworkRoutes gen nw (Some (snapshot nw db)) zt db = (ret, db')"
  shows "syncNetworkRoutes gen' nw (Some (snapshot nw db')) zt db' = (Unchanged, db')"
proof -
  have "ret \<noteq> Failed" "sync_result nw zt db db'" "routes_wf db'" using sync_correct [OF assms(1-6)] by auto
  moreover from this(1) have "clean_rows (network_rows nw db')"
    using clean_after_sync [OF assms(1-3)] assms(2,6)
    by (auto simp: syncNetworkRoutes_def Let_def split: if_splits option.splits)
  ultimately show ?thesis using assms(3) by (intro settled_plan_empty) (auto simp: sync_result_def)
qed

theorem routes_sync_idempotent_witness:
  "let db' = snd (syncNetworkRoutes fresh_id ''n'' (Some (snapshot ''n'' routes_demo)) routes_wanted routes_demo)
   in syncNetworkRoutes fresh_id ''n'' (Some (snapshot ''n'' db')) routes_wanted db' = (Unchanged, db')"
proof -
  let ?r = "syncNetworkRoutes fresh_id ''n'' (Some (snapshot ''n'' routes_demo)) routes_wanted routes_demo"
  have "routes_wf routes_demo" "clean_rows (network_rows ''n'' routes_demo)" "clean_entities routes_wanted"
    "''n'' \<in> set (network_ids routes_demo)" by code_simp+
  then show ?thesis
    using routes_sync_idempotent [OF _ _ _ _ fresh_id_fresh, of routes_demo "''n''" routes_wanted "fst ?r" "snd ?r" fresh_id]
    by (simp add: Let_def)
qed

end
