(* ===== verification/Live_Sync.thy ===== *)
theory Live_Sync
  imports Access_Control Routes_Sync
begin

text \<open>
  Keeping the database in step with the controller: the in-flight guards of
  \<^verbatim>\<open>routesService.ts\<close> and \<^verbatim>\<open>memberService.ts\<close>, the viewer-driven loop of
  \<^verbatim>\<open>server/sync/syncManager.ts\<close> with its timers and shared state objects, and the nightly
  deactivation of expired users (\<^verbatim>\<open>cronTasks.ts\<close>).
\<close>

section \<open>In-flight guards\<close>

text \<open>The promise map of a guard and the runs that have not settled, each with its run number.\<close>

record once_state =
  inFlight :: "(string \<times> nat) list"
  running :: "(string \<times> nat) list"
  nextRun :: nat

definition once_empty :: once_state where
  "once_empty = \<lparr>inFlight = [], running = [], nextRun = 0\<rparr>"

text \<open>Entering returns the promise already in flight for the key, or starts a run and registers it;
  the run's \<^verbatim>\<open>finally\<close> deletes the key.\<close>

definition enter_once :: "string \<Rightarrow> once_state \<Rightarrow> nat \<times> once_state" where
  "enter_once k s = (case map_of (inFlight s) k of
      Some r \<Rightarrow> (r, s)
    | None \<Rightarrow> (nextRun s, s\<lparr>inFlight := (k, nextRun s) # inFlight s,
                              running := running s @ [(k, nextRun s)], nextRun := nextRun s + 1\<rparr>))"

definition settle_once :: "string \<times> nat \<Rightarrow> once_state \<Rightarrow> once_state" where
  "settle_once run s = s\<lparr>running := remove1 run (running s),
                         inFlight := filter (\<lambda>e. fst e \<noteq> fst run) (inFlight s)\<rparr>"

definition syncNetworkRoutesOnce :: "string \<times> routes_entity list \<Rightarrow> once_state \<Rightarrow> nat \<times> once_state" where
  "syncNetworkRoutesOnce params s = enter_once (fst params) s"

text \<open>The parameters of a member reconcile: the calling user, the network, \<^verbatim>\<open>options.full\<close>.\<close>

definition reconcileNetworkMembersOnce :: "string \<times> string \<times> bool \<Rightarrow> once_state \<Rightarrow> nat \<times> once_state" where
  "reconcileNetworkMembersOnce params s = enter_once (fst (snd params)) s"

definition once_wf :: "once_state \<Rightarrow> bool" where
  "once_wf s \<longleftrightarrow> distinct (map fst (inFlight s)) \<and> distinct (map fst (running s))
     \<and> set (inFlight s) = set (running s) \<and> (\<forall>e\<in>set (running s). snd e < nextRun s)"

section \<open>The sync manager\<close>

record sync_obj =
  so_refCount :: int
  so_ctx :: string
  so_timer :: "nat option"
  so_lastHash :: string

text \<open>\<open>nets\<close> maps a network to its state object in \<open>objs\<close>; a tick that is waiting for its reconcile
  holds the object it captured. \<open>timers\<close> are the callbacks that \<^verbatim>\<open>setTimeout\<close> has queued.\<close>

record sync_state =
  objs :: "nat \<Rightarrow> sync_obj option"
  nets :: "string \<Rightarrow> nat option"
  timers :: "(nat \<times> string) list"
  flights :: "(string \<times> nat) list"
  nextObj :: nat
  nextTimer :: nat
  emitted :: "string list"

definition sync_init :: sync_state where
  "sync_init = \<lparr>objs = (\<lambda>_. None), nets = (\<lambda>_. None), timers = [], flights = [],
                nextObj = 0, nextTimer = 0, emitted = []\<rparr>"

definition upd_obj :: "nat \<Rightarrow> (sync_obj \<Rightarrow> sync_obj) \<Rightarrow> sync_state \<Rightarrow> sync_state" where
  "upd_obj i f s = s\<lparr>objs := (objs s)(i := map_option f (objs s i))\<rparr>"

text \<open>\<open>tick\<close> up to its \<^verbatim>\<open>await\<close>.\<close>

definition tick_begin :: "string \<Rightarrow> sync_state \<Rightarrow> sync_state" where
  "tick_begin nwid s = (case nets s nwid of
      None \<Rightarrow> s
    | Some i \<Rightarrow> (upd_obj i (\<lambda>ob. ob\<lparr>so_timer := None\<rparr>) s)\<lparr>flights := flights s @ [(nwid, i)]\<rparr>)"

definition acquire :: "string \<Rightarrow> string \<Rightarrow> sync_state \<Rightarrow> sync_state" where
  "acquire ctx nwid s = (case nets s nwid of
      Some i \<Rightarrow> upd_obj i (\<lambda>ob. ob\<lparr>so_refCount := so_refCount ob + 1, so_ctx := ctx\<rparr>) s
    | None \<Rightarrow> tick_begin nwid
        (s\<lparr>objs := (objs s)(nextObj s \<mapsto> \<lparr>so_refCount = 1, so_ctx = ctx, so_timer = None, so_lastHash = []\<rparr>),
           nets := (nets s)(nwid \<mapsto> nextObj s), nextObj := nextObj s + 1\<rparr>))"

definition ref_of :: "sync_state \<Rightarrow> nat \<Rightarrow> int" where
  "ref_of s i = (case objs s i of None \<Rightarrow> 0 | Some ob \<Rightarrow> so_refCount ob)"

definition timer_of :: "sync_state \<Rightarrow> nat \<Rightarrow> nat option" where
  "timer_of s i = (case objs s i of None \<Rightarrow> None | Some ob \<Rightarrow> so_timer ob)"

definition release :: "string \<Rightarrow> sync_state \<Rightarrow> sync_state" where
  "release nwid s = (case nets s nwid of
      None \<Rightarrow> s
    | Some i \<Rightarrow>
        let s1 = upd_obj i (\<lambda>ob. ob\<lparr>so_refCount := so_refCount ob - 1\<rparr>) s
        in if ref_of s1 i \<le> 0
           then s1\<lparr>timers := filter (\<lambda>e. timer_of s1 i \<noteq> Some (fst e)) (timers s1), nets := (nets s1)(nwid := None)\<rparr>
           else s1)"

text \<open>\<open>tick\<close> after its \<^verbatim>\<open>await\<close>: the reconcile gave a member hash or threw.\<close>

definition tick_result :: "string \<times> nat \<Rightarrow> string option \<Rightarrow> sync_state \<Rightarrow> sync_state" where
  "tick_result fl result s = (case (result, objs s (snd fl)) of
      (Some h, Some ob) \<Rightarrow>
         if h \<noteq> so_lastHash ob
         then (upd_obj (snd fl) (\<lambda>ob. ob\<lparr>so_lastHash := h\<rparr>) s)\<lparr>emitted := emitted s @ [networkMembersChannel (fst fl)]\<rparr>
         else s
    | _ \<Rightarrow> s)"

definition tick_reschedule :: "string \<Rightarrow> sync_state \<Rightarrow> sync_state" where
  "tick_reschedule nwid s = (case nets s nwid of
      None \<Rightarrow> s
    | Some i \<Rightarrow> if ref_of s i > 0
        then (upd_obj i (\<lambda>ob. ob\<lparr>so_timer := Some (nextTimer s)\<rparr>) s)
               \<lparr>timers := timers s @ [(nextTimer s, nwid)], nextTimer := nextTimer s + 1\<rparr>
        else s)"

definition tick_finish :: "string \<times> nat \<Rightarrow> string option \<Rightarrow> sync_state \<Rightarrow> sync_state" where
  "tick_finish fl result s =
     tick_reschedule (fst fl) (tick_result fl result (s\<lparr>flights := remove1 fl (flights s)\<rparr>))"

definition isSyncing :: "string \<Rightarrow> sync_state \<Rightarrow> bool" where
  "isSyncing nwid s = (nets s nwid \<noteq> None)"

definition refCount :: "string \<Rightarrow> sync_state \<Rightarrow> int" where
  "refCount nwid s = (case nets s nwid of None \<Rightarrow> 0 | Some i \<Rightarrow> ref_of s i)"

text \<open>What can happen: a viewer comes or goes, a timer fires, a reconcile ends. An event that is not
  possible in the state changes nothing.\<close>

datatype sync_event = Acquire string string | Release string | Fire "nat \<times> string"
  | Finish "string \<times> nat" "string option"

fun sync_exec :: "sync_event \<Rightarrow> sync_state \<Rightarrow> sync_state" where
  "sync_exec (Acquire ctx nwid) s = acquire ctx nwid s"
| "sync_exec (Release nwid) s = release nwid s"
| "sync_exec (Fire t) s = (if t \<in> set (timers s) then tick_begin (snd t) (s\<lparr>timers := remove1 t (timers s)\<rparr>) else s)"
| "sync_exec (Finish fl r) s = (if fl \<in> set (flights s) then tick_finish fl r s else s)"

section \<open>Expired users\<close>

definition owned_networks :: "string \<Rightarrow> db \<Rightarrow> network_row list" where
  "owned_networks userId d = filter (\<lambda>n. n_authorId n = Some userId) (networks d)"

definition lapsed :: "int \<Rightarrow> int option \<Rightarrow> bool" where
  "lapsed now t = (case t of None \<Rightarrow> False | Some e \<Rightarrow> e < now)"

definition expUsers :: "int \<Rightarrow> db \<Rightarrow> user_row list" where
  "expUsers now d = filter (\<lambda>u. lapsed now (u_expiresAt u) \<and> u_isActive u \<and> u_role u \<noteq> ADMIN) (users d)"

definition usersInExpiredGroups :: "int \<Rightarrow> db \<Rightarrow> user_row list" where
  "usersInExpiredGroups now d =
     filter (\<lambda>u. u_isActive u \<and> u_role u \<noteq> ADMIN \<and> lapsed now (group_expiry u d)) (users d)"

text \<open>The controller calls: the member ids of a network, and setting a member's \<^verbatim>\<open>authorized\<close> to
  false. \<open>None\<close> is a thrown error, which ends the work on that network only.\<close>

fun deauthorize_members ::
  "('c \<Rightarrow> string \<Rightarrow> string \<Rightarrow> 'c option) \<Rightarrow> string \<Rightarrow> string list \<Rightarrow> 'c \<Rightarrow> 'c" where
  "deauthorize_members member_update nwid [] c = c"
| "deauthorize_members member_update nwid (m # ms) c =
     (case member_update c nwid m of None \<Rightarrow> c | Some c' \<Rightarrow> deauthorize_members member_update nwid ms c')"

definition deauthorize_network ::
  "('c \<Rightarrow> string \<Rightarrow> string list option) \<Rightarrow> ('c \<Rightarrow> string \<Rightarrow> string \<Rightarrow> 'c option) \<Rightarrow> network_row \<Rightarrow> 'c \<Rightarrow> 'c" where
  "deauthorize_network network_members member_update n c =
     (case network_members c (n_nwid n) of None \<Rightarrow> c
      | Some ms \<Rightarrow> deauthorize_members member_update (n_nwid n) ms c)"

definition deactivate ::
  "('c \<Rightarrow> string \<Rightarrow> string list option) \<Rightarrow> ('c \<Rightarrow> string \<Rightarrow> string \<Rightarrow> 'c option) \<Rightarrow> (user_row \<times> network_row list)
     \<Rightarrow> 'c \<times> db \<Rightarrow> 'c \<times> db" where
  "deactivate network_members member_update userObj s =
     (if u_role (fst userObj) = ADMIN then s
      else (fold (deauthorize_network network_members member_update) (snd userObj) (fst s),
            update_user (u_id (fst userObj)) (\<lambda>u. u\<lparr>u_isActive := False\<rparr>) (snd s)))"

definition checkAndDeactivateExpiredUsers ::
  "('c \<Rightarrow> string \<Rightarrow> string list option) \<Rightarrow> ('c \<Rightarrow> string \<Rightarrow> string \<Rightarrow> 'c option) \<Rightarrow> int \<Rightarrow> 'c \<times> db
     \<Rightarrow> nat \<times> 'c \<times> db" where
  "checkAndDeactivateExpiredUsers network_members member_update now s =
     (let d = snd s;
          allExpiredUsers = map (\<lambda>u. (u, owned_networks (u_id u) d)) (expUsers now d @ usersInExpiredGroups now d)
      in if allExpiredUsers = [] then (0, s)
         else (length allExpiredUsers, fold (deactivate network_members member_update) allExpiredUsers s))"

datatype 'p once_event = Call 'p | Settle "string \<times> nat"

fun once_exec :: "('p \<Rightarrow> 's \<Rightarrow> nat \<times> 's) \<Rightarrow> (string \<times> nat \<Rightarrow> 's \<Rightarrow> 's) \<Rightarrow> ('s \<Rightarrow> (string \<times> nat) list)
    \<Rightarrow> 'p once_event \<Rightarrow> 's \<Rightarrow> 's" where
  "once_exec enter settle runs (Call p) s = snd (enter p s)"
| "once_exec enter settle runs (Settle x) s = (if x \<in> set (runs s) then settle x s else s)"

text \<open>State objects are allocated and not shared between networks, a subscribed network has at least
  one viewer, the timer an object remembers belongs to its network, and every subscribed network has
  a tick queued or in flight.\<close>

definition sync_alloc :: "sync_state \<Rightarrow> bool" where
  "sync_alloc s \<longleftrightarrow> (\<forall>n i. nets s n = Some i \<longrightarrow> i < nextObj s \<and> (\<exists>ob. objs s i = Some ob \<and> so_refCount ob \<ge> 1))
     \<and> (\<forall>n m i. nets s n = Some i \<and> nets s m = Some i \<longrightarrow> n = m)
     \<and> (\<forall>t m. (t, m) \<in> set (timers s) \<longrightarrow> t < nextTimer s)
     \<and> (\<forall>n i t. nets s n = Some i \<and> timer_of s i = Some t \<longrightarrow>
            t < nextTimer s \<and> (\<forall>m. (t, m) \<in> set (timers s) \<longrightarrow> n = m))"

definition pending :: "string \<Rightarrow> sync_state \<Rightarrow> nat" where
  "pending n s = length (filter (\<lambda>e. snd e = n) (timers s)) + length (filter (\<lambda>e. fst e = n) (flights s))"

definition alive :: "sync_state \<Rightarrow> bool" where
  "alive s \<longleftrightarrow> (\<forall>n. nets s n \<noteq> None \<longrightarrow> n \<in> snd ` set (timers s) \<or> n \<in> fst ` set (flights s))"

text \<open>The number of viewers that a sequence of events leaves: a release without a viewer is ignored.\<close>

fun viewers :: "string \<Rightarrow> sync_event list \<Rightarrow> nat" where
  "viewers n [] = 0"
| "viewers n (Acquire ctx m # evs) = (if m = n then viewers n evs + 1 else viewers n evs)"
| "viewers n (Release m # evs) = (if m = n then viewers n evs - 1 else viewers n evs)"
| "viewers n (_ # evs) = viewers n evs"

definition must_deactivate :: "int \<Rightarrow> db \<Rightarrow> user_row \<Rightarrow> bool" where
  "must_deactivate now d u \<longleftrightarrow> u_isActive u \<and> u_role u \<noteq> ADMIN
     \<and> (lapsed now (u_expiresAt u) \<or> lapsed now (group_expiry u d))"

definition expired_list :: "int \<Rightarrow> db \<Rightarrow> (user_row \<times> network_row list) list" where
  "expired_list now d = map (\<lambda>u. (u, owned_networks (u_id u) d)) (expUsers now d @ usersInExpiredGroups now d)"

abbreviation inactive :: "user_row \<Rightarrow> user_row" where
  "inactive u \<equiv> u\<lparr>u_isActive := False\<rparr>"

definition expired_db :: db where
  "expired_db = demo_db\<lparr>users := [(demo_user ''a'' USER)\<lparr>u_expiresAt := Some 1, u_userGroupId := Some 1\<rparr>, demo_user ''b'' USER],
     groups := [\<lparr>g_id = 1, g_name = ''g'', g_maxNetworks = 1, g_isDefault = False, g_expiresAt = Some 2\<rparr>],
     networks := [\<lparr>n_nwid = ''n'', n_name = None, n_authorId = Some ''a'', n_organizationId = None, n_routeTargets = []\<rparr>]\<rparr>"

lemmas sync_defs [model_defs] = once_empty_def enter_once_def settle_once_def syncNetworkRoutesOnce_def
  reconcileNetworkMembersOnce_def sync_init_def upd_obj_def tick_begin_def acquire_def ref_of_def
  timer_of_def release_def tick_result_def tick_reschedule_def tick_finish_def isSyncing_def refCount_def
  owned_networks_def lapsed_def expUsers_def usersInExpiredGroups_def deauthorize_network_def
  deactivate_def checkAndDeactivateExpiredUsers_def

section \<open>No overlapping runs\<close>

text \<open>The contract of an in-flight guard: a caller joins the run of its key when there is one, and
  otherwise starts a new one; settling a run removes it.\<close>

locale once_guard =
  fixes enter :: "'p \<Rightarrow> 's \<Rightarrow> nat \<times> 's"
    and settle :: "string \<times> nat \<Rightarrow> 's \<Rightarrow> 's"
    and key :: "'p \<Rightarrow> string"
    and runs :: "'s \<Rightarrow> (string \<times> nat) list"
    and wf :: "'s \<Rightarrow> bool"
  assumes joins: "wf s \<Longrightarrow> (key p, r) \<in> set (runs s) \<Longrightarrow> enter p s = (r, s)"
    and starts: "wf s \<Longrightarrow> key p \<notin> fst ` set (runs s) \<Longrightarrow>
                   runs (snd (enter p s)) = runs s @ [(key p, fst (enter p s))]"
    and settles: "runs (settle x s) = remove1 x (runs s)"
    and wf_enter: "wf s \<Longrightarrow> wf (snd (enter p s))"
    and wf_settle: "wf s \<Longrightarrow> x \<in> set (runs s) \<Longrightarrow> wf (settle x s)"
    and wf_exclusive: "wf s \<Longrightarrow> distinct (map fst (runs s))"
begin

lemma entered_run: "wf s \<Longrightarrow> (key p, fst (enter p s)) \<in> set (runs (snd (enter p s)))"
proof (cases "key p \<in> fst ` set (runs s)")
  case True
  moreover assume "wf s"
  ultimately show ?thesis using joins by fastforce
next
  case False
  moreover assume "wf s"
  ultimately show ?thesis using starts by simp
qed

lemma concurrent_callers_share:
  assumes "wf s" "key p = key q"
  shows "enter q (snd (enter p s)) = (fst (enter p s), snd (enter p s))"
  using joins[OF wf_enter[OF assms(1)], of q "fst (enter p s)" p] entered_run[OF assms(1), of p] assms(2)
  by simp

lemma exec_wf: "wf s \<Longrightarrow> wf (once_exec enter settle runs ev s)"
  by (cases ev) (auto intro: wf_enter wf_settle)

lemma run_exclusive:
  assumes "wf s"
  shows "distinct (map fst (runs (fold (once_exec enter settle runs) evs s)))"
proof -
  have "wf (fold (once_exec enter settle runs) evs s)"
    using assms by (induction evs arbitrary: s) (simp_all add: exec_wf)
  then show ?thesis by (rule wf_exclusive)
qed

end

lemma once_joins: "once_wf s \<Longrightarrow> (k, r) \<in> set (running s) \<Longrightarrow> enter_once k s = (r, s)"
  by (simp add: once_wf_def enter_once_def)

lemma once_starts:
  "once_wf s \<Longrightarrow> k \<notin> fst ` set (running s) \<Longrightarrow>
     enter_once k s = (nextRun s, s\<lparr>inFlight := (k, nextRun s) # inFlight s,
                              running := running s @ [(k, nextRun s)], nextRun := nextRun s + 1\<rparr>)"
proof -
  assume "once_wf s" "k \<notin> fst ` set (running s)"
  then have "map_of (inFlight s) k = None" by (auto simp: once_wf_def map_of_eq_None_iff)
  then show ?thesis by (simp add: enter_once_def)
qed

lemma once_wf_enter: "once_wf s \<Longrightarrow> once_wf (snd (enter_once k s))"
proof (cases "k \<in> fst ` set (running s)")
  case True
  moreover assume "once_wf s"
  ultimately show ?thesis using once_joins by fastforce
next
  case False
  moreover assume "once_wf s"
  ultimately show ?thesis by (fastforce simp: once_starts once_wf_def less_Suc_eq)
qed

lemma once_wf_settle: "once_wf s \<Longrightarrow> x \<in> set (running s) \<Longrightarrow> once_wf (settle_once x s)"
  by (auto simp: once_wf_def settle_once_def distinct_map_filter distinct_remove1
      distinct_map inj_on_def dest: set_remove1_subset[THEN subsetD])

lemmas once_laws = once_joins once_starts once_wf_enter once_wf_settle

interpretation routes_once: once_guard syncNetworkRoutesOnce settle_once fst running once_wf
  by unfold_locales
    (auto simp: syncNetworkRoutesOnce_def once_laws, auto simp: settle_once_def once_wf_def)

interpretation members_once: once_guard reconcileNetworkMembersOnce settle_once "fst \<circ> snd" running once_wf
  by unfold_locales
    (auto simp: reconcileNetworkMembersOnce_def once_laws, auto simp: settle_once_def once_wf_def)

lemma once_wf_empty: "once_wf once_empty"
  by (simp add: once_wf_def once_empty_def)

text \<open>Route syncs never overlap: after any interleaving of callers and completing syncs at most one
  sync per network is running, and a caller that arrives while one is running gets that same run
  without starting another.\<close>

theorem routes_sync_exclusive:
  "let s = fold (once_exec syncNetworkRoutesOnce settle_once running) evs once_empty
   in distinct (map fst (running s))
      \<and> syncNetworkRoutesOnce (n, rs') (snd (syncNetworkRoutesOnce (n, rs) s)) = syncNetworkRoutesOnce (n, rs) s"
proof -
  let ?s = "fold (once_exec syncNetworkRoutesOnce settle_once running) evs once_empty"
  have w: "once_wf ?s"
    by (induction evs rule: rev_induct) (simp_all add: once_wf_empty routes_once.exec_wf)
  then show ?thesis
    using routes_once.wf_exclusive[OF w] routes_once.concurrent_callers_share[OF w, of "(n, rs)" "(n, rs')"]
    by (simp add: Let_def)
qed

text \<open>Member reconciles never overlap: in every reachable state of the guard at most one reconcile
  per network is running, whoever called it and with whatever options.\<close>

theorem members_reconcile_exclusive:
  assumes "s = fold (once_exec reconcileNetworkMembersOnce settle_once running) evs once_empty"
  shows "distinct (map fst (running s))
    \<and> (\<forall>r. (nwid, r) \<in> set (running s) \<longrightarrow> reconcileNetworkMembersOnce (user, nwid, full) s = (r, s))"
proof -
  have "once_wf s" unfolding assms
    by (induction evs rule: rev_induct) (simp_all add: once_wf_empty members_once.exec_wf)
  then show ?thesis
    using members_once.wf_exclusive members_once.joins[of s "(user, nwid, full)"] by auto
qed

theorem members_reconcile_exclusive_witness:
  "reconcileNetworkMembersOnce (''u2'', ''n'', True) (snd (reconcileNetworkMembersOnce (''u1'', ''n'', False) once_empty))
     = (0, snd (reconcileNetworkMembersOnce (''u1'', ''n'', False) once_empty))"
  using members_reconcile_exclusive[of _ "[Call (''u1'', ''n'', False)]" "''n''" "''u2''" True, OF refl]
  by (simp add: reconcileNetworkMembersOnce_def enter_once_def once_empty_def)

section \<open>The live loop\<close>

lemma upd_obj_fields [simp]:
  "nets (upd_obj i f s) = nets s" "timers (upd_obj i f s) = timers s" "flights (upd_obj i f s) = flights s"
  "nextObj (upd_obj i f s) = nextObj s" "nextTimer (upd_obj i f s) = nextTimer s"
  "objs (upd_obj i f s) j = (if j = i then map_option f (objs s i) else objs s j)"
  by (simp_all add: upd_obj_def)

lemma tick_begin_alloc: "sync_alloc s \<Longrightarrow> sync_alloc (tick_begin n s)"
  by (fastforce simp: tick_begin_def sync_alloc_def timer_of_def split: option.splits if_splits)

lemma acquire_alloc: "sync_alloc s \<Longrightarrow> sync_alloc (acquire ctx n s)"
proof (cases "nets s n")
  case None
  assume s: "sync_alloc s"
  have "sync_alloc (s\<lparr>objs := (objs s)(nextObj s \<mapsto> \<lparr>so_refCount = 1, so_ctx = ctx, so_timer = None, so_lastHash = []\<rparr>),
           nets := (nets s)(n \<mapsto> nextObj s), nextObj := nextObj s + 1\<rparr>)"
    using s unfolding sync_alloc_def by (fastforce simp: timer_of_def less_Suc_eq split: if_splits)
  then show ?thesis using None by (simp add: acquire_def tick_begin_alloc)
next
  case (Some i)
  assume "sync_alloc s"
  then show ?thesis using Some
    by (fastforce simp: acquire_def sync_alloc_def timer_of_def split: option.splits if_splits)
qed

lemma sync_allocI:
  assumes "\<And>n i. nets s n = Some i \<Longrightarrow> i < nextObj s \<and> (\<exists>ob. objs s i = Some ob \<and> so_refCount ob \<ge> 1)"
    and "\<And>n m i. nets s n = Some i \<Longrightarrow> nets s m = Some i \<Longrightarrow> n = m"
    and "\<And>t m. (t, m) \<in> set (timers s) \<Longrightarrow> t < nextTimer s"
    and "\<And>n i t. nets s n = Some i \<Longrightarrow> timer_of s i = Some t \<Longrightarrow>
           t < nextTimer s \<and> (\<forall>m. (t, m) \<in> set (timers s) \<longrightarrow> n = m)"
  shows "sync_alloc s"
  unfolding sync_alloc_def using assms by blast

lemma sync_allocD:
  assumes "sync_alloc s"
  shows "nets s n = Some i \<Longrightarrow> i < nextObj s"
    and "nets s n = Some i \<Longrightarrow> \<exists>ob. objs s i = Some ob \<and> so_refCount ob \<ge> 1"
    and "nets s n = Some i \<Longrightarrow> nets s m = Some i \<Longrightarrow> n = m"
    and "(t, m) \<in> set (timers s) \<Longrightarrow> t < nextTimer s"
    and "nets s n = Some i \<Longrightarrow> timer_of s i = Some t \<Longrightarrow>
           t < nextTimer s \<and> (\<forall>m. (t, m) \<in> set (timers s) \<longrightarrow> n = m)"
  using assms unfolding sync_alloc_def by blast+

lemma timer_of_upd: "(\<And>ob. so_timer (f ob) = so_timer ob) \<Longrightarrow> timer_of (upd_obj i f s) j = timer_of s j"
  by (simp add: timer_of_def split: option.split)

lemma timer_of_fields [simp]:
  "timer_of (s\<lparr>timers := ts\<rparr>) = timer_of s" "timer_of (s\<lparr>nets := ns\<rparr>) = timer_of s"
  "timer_of (s\<lparr>nextTimer := k\<rparr>) = timer_of s" "timer_of (s\<lparr>flights := fs\<rparr>) = timer_of s"
  "timer_of (s\<lparr>emitted := es\<rparr>) = timer_of s"
  by (simp_all add: timer_of_def fun_eq_iff)

lemma release_alloc: "sync_alloc s \<Longrightarrow> sync_alloc (release n s)"
  by (cases "nets s n")
    (fastforce simp: release_def sync_alloc_def timer_of_def ref_of_def Let_def split: option.splits if_splits)+

lemma tick_result_alloc: "sync_alloc s \<Longrightarrow> sync_alloc (tick_result fl r s)"
  by (fastforce simp: tick_result_def sync_alloc_def timer_of_def split: option.splits if_splits)

lemma tick_reschedule_alloc:
  assumes s: "sync_alloc s"
  shows "sync_alloc (tick_reschedule n s)"
proof (cases "nets s n")
  case (Some i)
  with s obtain ob where ob: "objs s i = Some ob" "so_refCount ob \<ge> 1" by (meson sync_allocD(2))
  have e: "tick_reschedule n s = (upd_obj i (\<lambda>ob. ob\<lparr>so_timer := Some (nextTimer s)\<rparr>) s)
               \<lparr>timers := timers s @ [(nextTimer s, n)], nextTimer := nextTimer s + 1\<rparr>"
    using Some ob by (simp add: tick_reschedule_def ref_of_def)
  show ?thesis
  proof (rule sync_allocI)
    fix m j assume "nets (tick_reschedule n s) m = Some j"
    then show "j < nextObj (tick_reschedule n s)
        \<and> (\<exists>ob. objs (tick_reschedule n s) j = Some ob \<and> so_refCount ob \<ge> 1)"
      using sync_allocD(1,2)[OF s] ob by (auto simp: e)
  next
    fix m j k assume "nets (tick_reschedule n s) m = Some j" "nets (tick_reschedule n s) k = Some j"
    then show "m = k" using sync_allocD(3)[OF s] by (auto simp: e)
  next
    fix t m assume "(t, m) \<in> set (timers (tick_reschedule n s))"
    then show "t < nextTimer (tick_reschedule n s)" using sync_allocD(4)[OF s] by (fastforce simp: e)
  next
    fix m j t assume a: "nets (tick_reschedule n s) m = Some j" "timer_of (tick_reschedule n s) j = Some t"
    show "t < nextTimer (tick_reschedule n s) \<and> (\<forall>k. (t, k) \<in> set (timers (tick_reschedule n s)) \<longrightarrow> m = k)"
    proof (cases "j = i")
      case True
      then have "t = nextTimer s" "m = n" using a ob sync_allocD(3)[OF s] Some by (auto simp: e timer_of_def)
      then show ?thesis using sync_allocD(4)[OF s] by (fastforce simp: e)
    next
      case False
      then have t: "timer_of s j = Some t" "nets s m = Some j" using a by (auto simp: e timer_of_def)
      then show ?thesis using sync_allocD(5)[OF s t(2,1)] by (auto simp: e)
    qed
  qed
qed (use s in \<open>simp add: tick_reschedule_def\<close>)

text \<open>A tick in flight or a timer for \<open>n\<close>; what each operation does to them.\<close>

lemma tick_begin_flights:
  "timers (tick_begin n s) = timers s" "nets (tick_begin n s) = nets s"
  "flights (tick_begin n s) = (case nets s n of None \<Rightarrow> flights s | Some i \<Rightarrow> flights s @ [(n, i)])"
  by (simp_all add: tick_begin_def split: option.split)

lemma tick_result_fields [simp]:
  "timers (tick_result fl r s) = timers s" "nets (tick_result fl r s) = nets s"
  "flights (tick_result fl r s) = flights s"
  by (simp_all add: tick_result_def split: option.split)

lemma sync_alloc_fields [simp]: "sync_alloc (s\<lparr>flights := fs\<rparr>) = sync_alloc s"
  by (simp add: sync_alloc_def)

lemma sync_alloc_remove:
  assumes "sync_alloc s" shows "sync_alloc (s\<lparr>timers := remove1 t (timers s)\<rparr>)"
proof -
  have sub: "x \<in> set (timers s)" if "x \<in> set (remove1 t (timers s))" for x
    using that set_remove1_subset by fastforce
  show ?thesis
    by (rule sync_allocI) (use sub sync_allocD[OF assms] in \<open>simp; blast\<close>)+
qed

lemma finish_alloc: "sync_alloc s \<Longrightarrow> sync_alloc (tick_finish fl r s)"
  unfolding tick_finish_def by (intro tick_reschedule_alloc tick_result_alloc) simp

lemma fire_alloc: "sync_alloc s \<Longrightarrow> sync_alloc (tick_begin n (s\<lparr>timers := remove1 t (timers s)\<rparr>))"
  by (intro tick_begin_alloc sync_alloc_remove)

lemma exec_alloc:
  assumes "sync_alloc s" shows "sync_alloc (sync_exec ev s)"
proof (cases ev)
  case (Fire t)
  then show ?thesis using fire_alloc[OF assms] assms by simp
next
  case (Finish fl r)
  then show ?thesis using finish_alloc[OF assms] assms by simp
qed (use assms acquire_alloc release_alloc in simp_all)

lemma reschedule_timers:
  assumes "sync_alloc s"
  shows "timers (tick_reschedule n s) = (if nets s n = None then timers s else timers s @ [(nextTimer s, n)])"
    and "nets (tick_reschedule n s) = nets s" and "flights (tick_reschedule n s) = flights s"
proof -
  show "timers (tick_reschedule n s) = (if nets s n = None then timers s else timers s @ [(nextTimer s, n)])"
    using sync_allocD(2)[OF assms, of n]
    by (cases "nets s n") (fastforce simp: tick_reschedule_def ref_of_def)+
qed (simp_all add: tick_reschedule_def split: option.split)

lemma release_parts:
  assumes "sync_alloc s"
  shows "flights (release n s) = flights s" and "nets (release n s) m \<noteq> None \<Longrightarrow> nets s m \<noteq> None"
    and "(t, m) \<in> set (timers s) \<Longrightarrow> m \<noteq> n \<or> nets (release n s) n \<noteq> None \<Longrightarrow> (t, m) \<in> set (timers (release n s))"
    and "set (timers (release n s)) \<subseteq> set (timers s)"
proof -
  show "flights (release n s) = flights s"
    by (simp add: release_def Let_def split: option.split)
  show "nets (release n s) m \<noteq> None \<Longrightarrow> nets s m \<noteq> None"
    by (simp add: release_def Let_def split: option.split_asm if_split_asm)
  show "set (timers (release n s)) \<subseteq> set (timers s)"
    by (simp add: release_def Let_def split: option.split)
  assume a: "(t, m) \<in> set (timers s)" "m \<noteq> n \<or> nets (release n s) n \<noteq> None"
  show "(t, m) \<in> set (timers (release n s))"
  proof (cases "nets s n")
    case (Some i)
    let ?s1 = "upd_obj i (\<lambda>ob. ob\<lparr>so_refCount := so_refCount ob - 1\<rparr>) s"
    have t: "timer_of ?s1 i = timer_of s i" by (simp add: timer_of_upd)
    have "m = n \<or> timer_of s i \<noteq> Some t" using sync_allocD(5)[OF assms Some] a(1) by auto
    then show ?thesis using a Some t by (auto simp: release_def Let_def split: if_split_asm)
  qed (use a in \<open>simp add: release_def\<close>)
qed

lemma release_alive:
  assumes "sync_alloc s" "alive s"
  shows "alive (release n s)"
  unfolding alive_def
proof (intro allI impI)
  fix m assume m: "nets (release n s) m \<noteq> None"
  then have "m \<in> snd ` set (timers s) \<or> m \<in> fst ` set (flights s)"
    using assms release_parts(2) by (auto simp: alive_def)
  then show "m \<in> snd ` set (timers (release n s)) \<or> m \<in> fst ` set (flights (release n s))"
  proof
    assume "m \<in> snd ` set (timers s)"
    then obtain t where "(t, m) \<in> set (timers s)" by auto
    moreover have "m \<noteq> n \<or> nets (release n s) n \<noteq> None" using m by auto
    ultimately have "(t, m) \<in> set (timers (release n s))" by (rule release_parts(3)[OF assms(1)])
    then show ?thesis by force
  qed (simp add: release_parts(1)[OF assms(1)])
qed

lemma acquire_alive: "alive s \<Longrightarrow> alive (acquire ctx n s)"
  by (cases "nets s n") (auto simp: acquire_def alive_def tick_begin_flights image_iff)

lemma remove1_other: "x \<in> set xs \<Longrightarrow> f x \<noteq> f y \<Longrightarrow> x \<in> set (remove1 y xs)"
  by (induction xs) auto

lemma aliveI:
  assumes "\<And>m. nets s m \<noteq> None \<Longrightarrow> (\<exists>t. (t, m) \<in> set (timers s)) \<or> (\<exists>i. (m, i) \<in> set (flights s))"
  shows "alive s"
  unfolding alive_def using assms by (force simp: image_iff)

lemma aliveD: "alive s \<Longrightarrow> nets s m \<noteq> None \<Longrightarrow> (\<exists>t. (t, m) \<in> set (timers s)) \<or> (\<exists>i. (m, i) \<in> set (flights s))"
  unfolding alive_def by force

lemma fire_alive:
  assumes "alive s" shows "alive (tick_begin (snd t) (s\<lparr>timers := remove1 t (timers s)\<rparr>))"
proof (rule aliveI)
  let ?s = "tick_begin (snd t) (s\<lparr>timers := remove1 t (timers s)\<rparr>)"
  fix m assume "nets ?s m \<noteq> None"
  then have m: "nets s m \<noteq> None" by (simp add: tick_begin_flights)
  show "(\<exists>k. (k, m) \<in> set (timers ?s)) \<or> (\<exists>i. (m, i) \<in> set (flights ?s))"
  proof (cases "m = snd t")
    case True
    then show ?thesis using m by (auto simp: tick_begin_flights)
  next
    case False
    from aliveD[OF assms m] show ?thesis
      using remove1_other[of _ "timers s" snd t] False
      by (fastforce simp: tick_begin_flights split: option.split)
  qed
qed

lemma finish_alive:
  assumes "sync_alloc s" "alive s" shows "alive (tick_finish fl r s)"
proof (rule aliveI)
  let ?s = "tick_result fl r (s\<lparr>flights := remove1 fl (flights s)\<rparr>)"
  have w: "sync_alloc ?s" using assms(1) by (simp add: tick_result_alloc)
  note f = reschedule_timers[OF w, of "fst fl"]
  fix m assume "nets (tick_finish fl r s) m \<noteq> None"
  then have m: "nets s m \<noteq> None" using f(2) by (simp add: tick_finish_def)
  show "(\<exists>t. (t, m) \<in> set (timers (tick_finish fl r s))) \<or> (\<exists>i. (m, i) \<in> set (flights (tick_finish fl r s)))"
  proof (cases "m = fst fl")
    case True
    then show ?thesis using m f(1) by (auto simp: tick_finish_def)
  next
    case False
    from aliveD[OF assms(2) m] show ?thesis
      using remove1_other[of _ "flights s" fst fl] False f by (fastforce simp: tick_finish_def)
  qed
qed

text \<open>Both halves as one invariant of the event loop.\<close>

interpretation live_loop: step_invariant "\<lambda>s t. \<exists>ev. t = sync_exec ev s" "\<lambda>s. sync_alloc s \<and> alive s"
proof
  fix s t assume s: "sync_alloc s \<and> alive s" and "\<exists>ev. t = sync_exec ev s"
  then obtain ev where t: "t = sync_exec ev s" by blast
  have "alive t"
  proof (cases ev)
    case (Fire u)
    then show ?thesis using fire_alive[of s u] s t by simp
  next
    case (Finish fl r)
    then show ?thesis using finish_alive[of s fl r] s t by simp
  qed (use s t acquire_alive release_alive in simp_all)
  then show "sync_alloc t \<and> alive t" using s t exec_alloc by simp
qed

lemma sync_init_inv: "sync_alloc sync_init \<and> alive sync_init"
  by (simp add: sync_alloc_def alive_def sync_init_def)

lemma sync_run: "(\<lambda>s t. \<exists>ev. t = sync_exec ev s)\<^sup>*\<^sup>* s (fold sync_exec evs s)"
proof (induction evs rule: rev_induct)
  case (snoc ev evs)
  then show ?case by (auto intro: rtranclp.rtrancl_into_rtrancl)
qed simp

lemmas sync_run_inv = live_loop.run_keeps[OF sync_run sync_init_inv]

text \<open>The live loop never dies: after any sequence of viewers coming and going, timers firing and
  reconciles ending (successfully or not), every network that is being viewed has a next tick queued
  or a tick in flight, and at least one viewer is counted for it.\<close>

theorem viewed_network_keeps_syncing:
  "let s = fold sync_exec evs sync_init
   in if isSyncing n s
      then refCount n s \<ge> 1 \<and> (n \<in> snd ` set (timers s) \<or> n \<in> fst ` set (flights s))
      else refCount n s = 0"
proof -
  let ?s = "fold sync_exec evs sync_init"
  have inv: "sync_alloc ?s" "alive ?s" using sync_run_inv[of evs] by auto
  show ?thesis
  proof (cases "nets ?s n")
    case (Some i)
    then show ?thesis using sync_allocD(2)[OF inv(1) Some] inv(2)
      by (auto simp: isSyncing_def refCount_def ref_of_def alive_def Let_def)
  qed (simp add: isSyncing_def refCount_def Let_def)
qed

lemma refCount_tick_begin [simp]: "refCount m (tick_begin n s) = refCount m s"
  by (auto simp: refCount_def tick_begin_def ref_of_def split: option.split)

lemma refCount_fields [simp]:
  "refCount m (s\<lparr>flights := fs\<rparr>) = refCount m s" "refCount m (s\<lparr>timers := ts\<rparr>) = refCount m s"
  by (simp_all add: refCount_def ref_of_def split: option.split)

lemma refCount_finish [simp]: "refCount m (tick_finish fl r s) = refCount m s"
  by (auto simp: refCount_def tick_finish_def tick_result_def tick_reschedule_def ref_of_def split: option.split)

lemma refCount_acquire:
  assumes "sync_alloc s"
  shows "refCount m (acquire ctx n s) = refCount m s + (if m = n then 1 else 0)"
proof (cases "nets s n")
  case None
  then show ?thesis using sync_allocD(1)[OF assms]
    by (fastforce simp: acquire_def refCount_def ref_of_def tick_begin_def split: option.split)
next
  case (Some i)
  then show ?thesis using sync_allocD(2,3)[OF assms]
    by (fastforce simp: acquire_def refCount_def ref_of_def split: option.split)
qed

lemma refCount_release:
  assumes "sync_alloc s"
  shows "refCount m (release n s) = (if m = n then max 0 (refCount m s - 1) else refCount m s)"
proof (cases "nets s n")
  case (Some i)
  obtain ob where "objs s i = Some ob" "so_refCount ob \<ge> 1" using sync_allocD(2)[OF assms Some] by blast
  then show ?thesis using sync_allocD(3)[OF assms] Some
    by (fastforce simp: release_def refCount_def ref_of_def Let_def split: option.split)
qed (simp add: release_def refCount_def)

text \<open>Reference counting: the count the manager keeps for a network is the number of its viewers,
  and it is zero exactly when the network is not being synced.\<close>

theorem refcount_is_viewers:
  "refCount n (fold sync_exec (rev evs) sync_init) = int (viewers n evs)"
proof (induction evs)
  case (Cons ev evs)
  have "sync_alloc (fold sync_exec (rev evs) sync_init)" using sync_run_inv by blast
  note c = refCount_acquire[OF this] refCount_release[OF this]
  show ?case using Cons by (cases ev) (auto simp: c)
qed (simp add: sync_init_def refCount_def)

text \<open>Two loops for one network: when the last viewer leaves while a reconcile is in flight and a
  viewer comes back before it ends, both the old tick and the new one schedule a successor, so the
  network runs two timer loops although one viewer is counted and one timer is remembered.\<close>

theorem reopened_network_gets_two_loops:
  "let s = fold sync_exec [Acquire c n, Release n, Acquire c n, Finish (n, 0) None, Finish (n, 1) None] sync_init
   in timers s = [(0, n), (1, n)] \<and> refCount n s = 1 \<and> timer_of s 1 = Some 1"
  by (simp add: sync_defs Let_def)

section \<open>Nightly deactivation\<close>

lemma expired_list_mem:
  "fst ` set (expired_list now d) = {u \<in> set (users d). must_deactivate now d u}"
  by (force simp: expired_list_def expUsers_def usersInExpiredGroups_def must_deactivate_def)

lemma check_expired_fold:
  "snd (checkAndDeactivateExpiredUsers nm mu now s) = fold (deactivate nm mu) (expired_list now (snd s)) s"
  by (simp add: checkAndDeactivateExpiredUsers_def expired_list_def Let_def)

lemma fold_deactivate_user:
  assumes "\<forall>x\<in>set xs. u_role (fst x) \<noteq> ADMIN"
  shows "find_user i (snd (fold (deactivate nm mu) xs s)) =
    map_option (if i \<in> u_id ` fst ` set xs then inactive else id) (find_user i (snd s))"
  using assms
proof (induction xs arbitrary: s)
  case (Cons x xs)
  then show ?case
    by (cases "find_user i (snd s)") (auto simp: deactivate_def find_user_update)
qed (simp add: option.map_id)

text \<open>C24. Nightly deactivation: whether or not the controller answers, afterwards exactly the active,
  non-administrator accounts that were past their own or their group's expiry are inactive, and
  every other account is unchanged.\<close>

theorem expired_users_deactivated:
  assumes "distinct (map u_id (users d))"
  shows "find_user i (snd (snd (checkAndDeactivateExpiredUsers network_members member_update now (c, d))))
    = map_option (\<lambda>u. if must_deactivate now d u then inactive u else u) (find_user i d)"
proof (cases "find_user i d")
  case None
  then show ?thesis
    by (auto simp: check_expired_fold fold_deactivate_user expired_list_def expUsers_def usersInExpiredGroups_def)
next
  case (Some u)
  have adm: "\<forall>x\<in>set (expired_list now d). u_role (fst x) \<noteq> ADMIN"
    by (auto simp: expired_list_def expUsers_def usersInExpiredGroups_def)
  have "u \<in> set (users d)" "u_id u = i" using find_user_Some[OF Some] by auto
  then have "i \<in> u_id ` {v \<in> set (users d). must_deactivate now d v} \<longleftrightarrow> must_deactivate now d u"
    using assms by (auto simp: distinct_map inj_on_def)
  then show ?thesis using Some
    by (simp add: check_expired_fold fold_deactivate_user[OF adm] expired_list_mem)
qed

text \<open>A user past both dates appears twice in the list of expired users, and is counted twice.\<close>

lemma expired_count:
  "fst (checkAndDeactivateExpiredUsers nm mu now (c, d)) = length (expUsers now d) + length (usersInExpiredGroups now d)"
  by (simp add: checkAndDeactivateExpiredUsers_def Let_def)

lemma expired_user_counted_twice:
  "fst (checkAndDeactivateExpiredUsers (\<lambda>c n. Some []) (\<lambda>c n m. Some c) 5 ((), expired_db)) = 2
   \<and> length (filter (must_deactivate 5 expired_db) (users expired_db)) = 1"
  by code_simp

theorem expired_users_deactivated_witness:
  "find_user ''a'' (snd (snd (checkAndDeactivateExpiredUsers (\<lambda>c n. None) (\<lambda>c n m. None) 5 ((), expired_db))))
     = map_option inactive (find_user ''a'' expired_db)"
proof -
  have d: "distinct (map u_id (users expired_db))" by code_simp
  have m: "map_option (must_deactivate 5 expired_db) (find_user ''a'' expired_db) = Some True" by code_simp
  then show ?thesis using expired_users_deactivated[OF d, of "''a''" "\<lambda>c n. None" "\<lambda>c n m. None" 5 "()"]
    by (cases "find_user ''a'' expired_db") simp_all
qed

text \<open>Deauthorisation of members: with a controller that answers, every member of every network the
  expired users own loses its authorisation.\<close>

lemma fold_deauthorize_members:
  assumes "\<And>c n m. \<exists>c'. mu c n m = Some c' \<and> (\<forall>x y. authorized c' x y \<longrightarrow> authorized c x y \<and> (x, y) \<noteq> (n, m))"
    and "authorized (deauthorize_members mu n ms c) x y"
  shows "authorized c x y \<and> \<not> (x = n \<and> y \<in> set ms)"
  using assms(2)
proof (induction ms arbitrary: c)
  case (Cons m ms)
  obtain c' where c': "mu c n m = Some c'" "\<forall>x y. authorized c' x y \<longrightarrow> authorized c x y \<and> (x, y) \<noteq> (n, m)"
    using assms(1) by blast
  then show ?case using Cons.IH[of c'] Cons.prems by auto
qed simp

lemma fold_deauthorize_networks:
  assumes "\<And>c n m. \<exists>c'. mu c n m = Some c' \<and> (\<forall>x y. authorized c' x y \<longrightarrow> authorized c x y \<and> (x, y) \<noteq> (n, m))"
    and "\<And>c n. nm c n = Some (members n)"
    and "authorized (fold (deauthorize_network nm mu) ns c) x y"
  shows "authorized c x y \<and> \<not> (x \<in> n_nwid ` set ns \<and> y \<in> set (members x))"
  using assms(3)
proof (induction ns arbitrary: c)
  case (Cons n ns)
  have d: "deauthorize_network nm mu n c = deauthorize_members mu (n_nwid n) (members (n_nwid n)) c"
    by (simp add: deauthorize_network_def assms(2))
  from Cons.prems have "authorized (fold (deauthorize_network nm mu) ns (deauthorize_network nm mu n c)) x y" by simp
  from Cons.IH[OF this] have ih: "authorized (deauthorize_network nm mu n c) x y"
    "\<not> (x \<in> n_nwid ` set ns \<and> y \<in> set (members x))" by auto
  have "authorized c x y \<and> \<not> (x = n_nwid n \<and> y \<in> set (members (n_nwid n)))"
    using fold_deauthorize_members[OF assms(1)] ih(1) unfolding d by blast
  then show ?case using ih(2) by auto
qed simp

lemma fold_deactivate_members:
  assumes "\<And>c n m. \<exists>c'. mu c n m = Some c' \<and> (\<forall>x y. authorized c' x y \<longrightarrow> authorized c x y \<and> (x, y) \<noteq> (n, m))"
    and "\<And>c n. nm c n = Some (members n)"
    and "\<forall>z\<in>set xs. u_role (fst z) \<noteq> ADMIN" "authorized (fst (fold (deactivate nm mu) xs s)) x y"
  shows "authorized (fst s) x y \<and> (\<forall>z\<in>set xs. \<not> (x \<in> n_nwid ` set (snd z) \<and> y \<in> set (members x)))"
  using assms(3,4)
proof (induction xs arbitrary: s)
  case (Cons z zs)
  have d: "fst (deactivate nm mu z s) = fold (deauthorize_network nm mu) (snd z) (fst s)"
    using Cons.prems(1) by (simp add: deactivate_def)
  have "authorized (fst (deactivate nm mu z s)) x y \<and> (\<forall>z\<in>set zs. \<not> (x \<in> n_nwid ` set (snd z) \<and> y \<in> set (members x)))"
    using Cons.IH[of "deactivate nm mu z s"] Cons.prems by simp
  then show ?case using fold_deauthorize_networks[OF assms(1,2)] unfolding d by fastforce
qed simp

text \<open>Members of expired users' networks: if the controller lists the members of a network and
  carries out each update, then after the nightly job no member of any network owned by a
  deactivated user is authorised, and no member gained authorisation.\<close>

theorem expired_members_deauthorized:
  assumes "\<And>c n m. \<exists>c'. member_update c n m = Some c' \<and>
             (\<forall>x y. authorized c' x y \<longrightarrow> authorized c x y \<and> (x, y) \<noteq> (n, m))"
    and "\<And>c n. network_members c n = Some (members n)"
    and "authorized (fst (snd (checkAndDeactivateExpiredUsers network_members member_update now (c, d)))) x y"
  shows "authorized c x y \<and> (\<forall>u\<in>set (users d). \<forall>n\<in>set (networks d).
           must_deactivate now d u \<and> n_authorId n = Some (u_id u) \<and> n_nwid n = x \<longrightarrow> y \<notin> set (members x))"
proof -
  have adm: "\<forall>x\<in>set (expired_list now d). u_role (fst x) \<noteq> ADMIN"
    by (auto simp: expired_list_def expUsers_def usersInExpiredGroups_def)
  have r: "authorized c x y \<and> (\<forall>z\<in>set (expired_list now d). \<not> (x \<in> n_nwid ` set (snd z) \<and> y \<in> set (members x)))"
    using fold_deactivate_members[where nm = network_members and mu = member_update and authorized = authorized
        and members = members and s = "(c, d)", OF assms(1,2) adm] assms(3)
    by (simp add: check_expired_fold)
  have "(u, owned_networks (u_id u) d) \<in> set (expired_list now d)" if "u \<in> set (users d)" "must_deactivate now d u" for u
    using that by (auto simp: expired_list_def expUsers_def usersInExpiredGroups_def must_deactivate_def)
  with r show ?thesis by (fastforce simp: owned_networks_def)
qed

theorem expired_members_deauthorized_witness:
  "\<not> (''n'', ''m'') \<in> fst (snd (checkAndDeactivateExpiredUsers (\<lambda>c n. Some [''m'']) (\<lambda>c n m. Some (c - {(n, m)})) 5
        ({(''n'', ''m''), (''o'', ''m'')}, expired_db)))"
proof
  let ?u = "hd (users expired_db)" and ?n = "hd (networks expired_db)"
  have a: "?u \<in> set (users expired_db)" "?n \<in> set (networks expired_db)" "must_deactivate 5 expired_db ?u"
    "n_authorId ?n = Some (u_id ?u)" "n_nwid ?n = ''n''" by code_simp+
  assume "(''n'', ''m'') \<in> fst (snd (checkAndDeactivateExpiredUsers (\<lambda>c n. Some [''m'']) (\<lambda>c n m. Some (c - {(n, m)})) 5
        ({(''n'', ''m''), (''o'', ''m'')}, expired_db)))"
  from expired_members_deauthorized[of "\<lambda>c n m. Some (c - {(n, m)})" "\<lambda>c x y. (x, y) \<in> c" "\<lambda>c n. Some [''m'']" "\<lambda>_. [''m'']", OF _ _ this]
  show False using a by fastforce
qed

end
