(* ===== verification/Live_Sockets.thy ===== *)
theory Live_Sockets
  imports Live_Sync
begin

text \<open>
  The live views (\<^verbatim>\<open>pages/api/websocket/index.ts\<close>): sockets that subscribe to networks, on top of the sync manager.

  A handler of a subscription waits for the access check; in between, other events of the same socket run, also its
  disconnect. The state holds whether the socket server exists, the sockets with their subscriptions, their waiting
  handlers and the rooms the handlers joined and did not leave, the sync manager, and the database, which others may
  change at any time.
\<close>

section \<open>Data\<close>

record socket =
  sk_user :: string
  sk_connected :: bool
  sk_subscribed :: "string list"
  sk_pending :: "string list"
  sk_rooms :: "string list"

record hub =
  hb_db :: db
  hb_io :: bool
  hb_sync :: sync_state
  hb_sockets :: "socket list"

definition upd_socket :: "nat \<Rightarrow> (socket \<Rightarrow> socket) \<Rightarrow> hub \<Rightarrow> hub" where
  "upd_socket k f h = (if k < length (hb_sockets h) then h\<lparr>hb_sockets := (hb_sockets h)[k := f (hb_sockets h ! k)]\<rparr> else h)"

section \<open>Handlers\<close>

text \<open>The HTTP handler: 401 without a live session; the first request with one starts the socket server.\<close>

definition SocketHandler :: "int \<Rightarrow> session_user option \<Rightarrow> hub \<Rightarrow> nat \<times> hub" where
  "SocketHandler now cookie h =
     (case getActiveSession now (hb_db h) cookie of
        None \<Rightarrow> (401, h)
      | Some s \<Rightarrow> (200, h\<lparr>hb_io := True\<rparr>))"

text \<open>The handshake of a socket: without a live session it is refused.\<close>

definition connect :: "int \<Rightarrow> session_user option \<Rightarrow> hub \<Rightarrow> hub" where
  "connect now cookie h =
     (case getActiveSession now (hb_db h) cookie of
        None \<Rightarrow> h
      | Some s \<Rightarrow> if \<not> hb_io h then h else h\<lparr>hb_sockets := hb_sockets h @ [\<lparr>sk_user = s_userId s, sk_connected = True, sk_subscribed = [], sk_pending = [], sk_rooms = []\<rparr>]\<rparr>)"

text \<open>A subscription up to its \<^verbatim>\<open>await\<close>, and after it.\<close>

definition subscribe_begin :: "nat \<Rightarrow> string \<Rightarrow> hub \<Rightarrow> hub" where
  "subscribe_begin k nwid h =
     (if k < length (hb_sockets h) \<and> sk_connected (hb_sockets h ! k) \<and> nwid \<noteq> [] \<and> nwid \<notin> set (sk_subscribed (hb_sockets h ! k)) \<and> sk_user (hb_sockets h ! k) \<noteq> []
      then upd_socket k (\<lambda>s. s\<lparr>sk_pending := sk_pending s @ [nwid]\<rparr>) h else h)"

definition set_add :: "'a \<Rightarrow> 'a list \<Rightarrow> 'a list" where
  "set_add x xs = (if x \<in> set xs then xs else xs @ [x])"

definition subscribe_end :: "nat \<Rightarrow> string \<Rightarrow> hub \<Rightarrow> hub" where
  "subscribe_end k nwid h =
     (if k < length (hb_sockets h) \<and> nwid \<in> set (sk_pending (hb_sockets h ! k))
      then let h1 = upd_socket k (\<lambda>s. s\<lparr>sk_pending := remove1 nwid (sk_pending s)\<rparr>) h; u = sk_user (hb_sockets h ! k)
           in (case checkNetworkAccess (hb_db h) u nwid READ_ONLY of
                 Inl _ \<Rightarrow> h1
               | Inr _ \<Rightarrow> (upd_socket k (\<lambda>s. s\<lparr>sk_subscribed := set_add nwid (sk_subscribed s), sk_rooms := set_add (networkMembersChannel nwid) (sk_rooms s)\<rparr>) h1)
                            \<lparr>hb_sync := acquire u nwid (hb_sync h)\<rparr>)
      else h)"

definition unsubscribe :: "nat \<Rightarrow> string \<Rightarrow> hub \<Rightarrow> hub" where
  "unsubscribe k nwid h =
     (if k < length (hb_sockets h) \<and> sk_connected (hb_sockets h ! k) \<and> nwid \<noteq> [] \<and> nwid \<in> set (sk_subscribed (hb_sockets h ! k))
      then (upd_socket k (\<lambda>s. s\<lparr>sk_subscribed := remove1 nwid (sk_subscribed s), sk_rooms := removeAll (networkMembersChannel nwid) (sk_rooms s)\<rparr>) h)
             \<lparr>hb_sync := release nwid (hb_sync h)\<rparr>
      else h)"

text \<open>After a disconnect no message of the socket arrives, but handlers that wait for the access check are not cancelled.\<close>

definition disconnect :: "nat \<Rightarrow> hub \<Rightarrow> hub" where
  "disconnect k h =
     (if k < length (hb_sockets h) \<and> sk_connected (hb_sockets h ! k)
      then (upd_socket k (\<lambda>s. s\<lparr>sk_connected := False, sk_subscribed := []\<rparr>) h)
             \<lparr>hb_sync := fold release (sk_subscribed (hb_sockets h ! k)) (hb_sync h)\<rparr>
      else h)"

datatype hub_event =
    Request int "session_user option"
  | Connect int "session_user option"
  | SubscribeBegin nat string
  | SubscribeEnd nat string
  | Unsubscribe nat string
  | Disconnect nat
  | TimerFires "nat \<times> string"
  | TickEnds "string \<times> nat" "string option"
  | DatabaseChanges db

fun hub_exec :: "hub_event \<Rightarrow> hub \<Rightarrow> hub" where
  "hub_exec (Request now cookie) h = snd (SocketHandler now cookie h)"
| "hub_exec (Connect now cookie) h = connect now cookie h"
| "hub_exec (SubscribeBegin k n) h = subscribe_begin k n h"
| "hub_exec (SubscribeEnd k n) h = subscribe_end k n h"
| "hub_exec (Unsubscribe k n) h = unsubscribe k n h"
| "hub_exec (Disconnect k) h = disconnect k h"
| "hub_exec (TimerFires t) h = h\<lparr>hb_sync := sync_exec (Fire t) (hb_sync h)\<rparr>"
| "hub_exec (TickEnds fl r) h = h\<lparr>hb_sync := sync_exec (Finish fl r) (hb_sync h)\<rparr>"
| "hub_exec (DatabaseChanges d) h = h\<lparr>hb_db := d\<rparr>"

definition hub_init :: "db \<Rightarrow> hub" where
  "hub_init d = \<lparr>hb_db = d, hb_io = False, hb_sync = sync_init, hb_sockets = []\<rparr>"

definition subscribers :: "string \<Rightarrow> hub \<Rightarrow> nat" where
  "subscribers n h = length (filter (\<lambda>s. n \<in> set (sk_subscribed s)) (hb_sockets h))"

definition hub_inv :: "hub \<Rightarrow> bool" where
  "hub_inv h \<longleftrightarrow> sync_alloc (hb_sync h) \<and> alive (hb_sync h) \<and> list_all (\<lambda>s. distinct (sk_subscribed s)) (hb_sockets h)
     \<and> (\<forall>n. int (subscribers n h) \<le> refCount n (hb_sync h))"

text \<open>The rooms a socket has joined and not left.\<close>

definition rooms :: "hub \<Rightarrow> nat \<Rightarrow> string set" where
  "rooms h j = (if j < length (hb_sockets h) then set (sk_rooms (hb_sockets h ! j)) else {})"

text \<open>A socket that has gone but holds a subscription: no event changes that.\<close>

definition abandoned :: "nat \<Rightarrow> string \<Rightarrow> hub \<Rightarrow> bool" where
  "abandoned k n h \<longleftrightarrow> k < length (hb_sockets h) \<and> \<not> sk_connected (hb_sockets h ! k) \<and> n \<in> set (sk_subscribed (hb_sockets h ! k))"

text \<open>A client that leaves while its subscription waits for the access check.\<close>

definition hasty_client :: "int \<Rightarrow> session_user \<Rightarrow> string \<Rightarrow> hub_event list" where
  "hasty_client now c n = [Request now (Some c), Connect now (Some c), SubscribeBegin 0 n, Disconnect 0, SubscribeEnd 0 n]"

definition live_viewer :: session_user where
  "live_viewer = \<lparr>s_userId = ''u2'', s_role = USER\<rparr>"

definition live_run :: "hub_event list" where
  "live_run = [Request 0 (Some live_viewer), Connect 0 (Some live_viewer), SubscribeBegin 0 ''n2'']"

section \<open>Subscribed networks\<close>

lemma filter_length_update:
  assumes "k < length xs"
  shows "int (length (filter P (xs[k := y]))) = int (length (filter P xs)) - (if P (xs ! k) then 1 else 0) + (if P y then 1 else 0)"
  using assms
proof (induction xs arbitrary: k)
  case (Cons x xs)
  show ?case
  proof (cases k)
    case (Suc j)
    then show ?thesis using Cons.IH[of j] Cons.prems by (simp split: if_splits)
  qed simp
qed simp

lemma sync_keeps: "sync_alloc s \<and> alive s \<Longrightarrow> sync_alloc (sync_exec ev s) \<and> alive (sync_exec ev s)"
  using live_loop.step_keeps[of s "sync_exec ev s"] by blast

lemma releases_keep: "sync_alloc s \<and> alive s \<Longrightarrow> sync_alloc (fold release xs s) \<and> alive (fold release xs s)"
proof (induction xs arbitrary: s)
  case (Cons x xs)
  then show ?case using sync_keeps[of s "Release x"] by simp
qed simp

lemma refCount_releases:
  assumes "sync_alloc s \<and> alive s" "distinct xs"
  shows "refCount n (fold release xs s) = (if n \<in> set xs then max 0 (refCount n s - 1) else refCount n s)"
  using assms
proof (induction xs arbitrary: s)
  case (Cons x xs)
  have "sync_alloc (release x s) \<and> alive (release x s)" using sync_keeps[of s "Release x"] Cons.prems(1) by simp
  with Cons show ?case by (auto simp: refCount_release)
qed simp

text \<open>One socket changes: how many sockets are subscribed to a network.\<close>

lemma upd_socket_fields [simp]: "hb_sync (upd_socket k f h) = hb_sync h" "hb_db (upd_socket k f h) = hb_db h"
  by (simp_all add: upd_socket_def)

lemma upd_socket_sync: "(upd_socket k f h)\<lparr>hb_sync := hb_sync h\<rparr> = upd_socket k f h"
  by (simp add: upd_socket_def)

lemma upd_socket_sockets: "k < length (hb_sockets h) \<Longrightarrow> hb_sockets (upd_socket k f h) = (hb_sockets h)[k := f (hb_sockets h ! k)]"
  by (simp add: upd_socket_def)

lemma subscribers_upd:
  assumes "k < length (hb_sockets h)"
  shows "int (subscribers n (upd_socket k f h)) = int (subscribers n h)
     - (if n \<in> set (sk_subscribed (hb_sockets h ! k)) then 1 else 0) + (if n \<in> set (sk_subscribed (f (hb_sockets h ! k))) then 1 else 0)"
  using filter_length_update[OF assms, of "\<lambda>s. n \<in> set (sk_subscribed s)" "f (hb_sockets h ! k)"]
  by (simp add: subscribers_def upd_socket_sockets[OF assms])

lemma subscribers_fields [simp]: "subscribers n (h\<lparr>hb_sync := s\<rparr>) = subscribers n h" "subscribers n (h\<lparr>hb_db := d\<rparr>) = subscribers n h"
  "subscribers n (h\<lparr>hb_io := b\<rparr>) = subscribers n h"
  by (simp_all add: subscribers_def)

lemma set_add_simps [simp]: "set (set_add x xs) = insert x (set xs)" "distinct (set_add x xs) = distinct xs"
  by (auto simp: set_add_def)

text \<open>An update of one socket and of the sync manager keeps the invariant when the reference counts follow the
  subscriptions.\<close>

lemma hub_inv_upd:
  assumes h: "hub_inv h" and k: "k < length (hb_sockets h)"
    and s: "sync_alloc s \<and> alive s" and d: "distinct (sk_subscribed (f (hb_sockets h ! k)))"
    and r: "\<And>n. refCount n (hb_sync h) - (if n \<in> set (sk_subscribed (hb_sockets h ! k)) then 1 else 0)
         + (if n \<in> set (sk_subscribed (f (hb_sockets h ! k))) then 1 else 0) \<le> refCount n s"
  shows "hub_inv ((upd_socket k f h)\<lparr>hb_sync := s\<rparr>)"
proof -
  have "list_all (\<lambda>s. distinct (sk_subscribed s)) ((hb_sockets h)[k := f (hb_sockets h ! k)])"
    using h d k unfolding hub_inv_def list_all_length by (metis length_list_update nth_list_update)
  moreover have "int (subscribers n (upd_socket k f h)) \<le> refCount n s" for n
  proof -
    have "int (subscribers n h) \<le> refCount n (hb_sync h)" using h by (simp add: hub_inv_def)
    then show ?thesis using r[of n] by (simp add: subscribers_upd[OF k])
  qed
  ultimately show ?thesis using s by (simp add: hub_inv_def upd_socket_sockets[OF k])
qed

lemma hub_inv_sync: "hub_inv h \<Longrightarrow> sync_alloc (hb_sync h) \<and> alive (hb_sync h)"
  by (simp add: hub_inv_def)

lemma hub_inv_subscribed:
  assumes "hub_inv h" "k < length (hb_sockets h)"
  shows "distinct (sk_subscribed (hb_sockets h ! k))" "n \<in> set (sk_subscribed (hb_sockets h ! k)) \<Longrightarrow> 1 \<le> refCount n (hb_sync h)"
proof -
  show "distinct (sk_subscribed (hb_sockets h ! k))" using assms by (simp add: hub_inv_def list_all_length)
  assume "n \<in> set (sk_subscribed (hb_sockets h ! k))"
  then have "filter (\<lambda>s. n \<in> set (sk_subscribed s)) (hb_sockets h) \<noteq> []"
    using nth_mem[OF assms(2)] by (auto simp: filter_empty_conv)
  then have "1 \<le> int (subscribers n h)" by (simp add: subscribers_def Suc_leI)
  then show "1 \<le> refCount n (hb_sync h)" using assms(1) unfolding hub_inv_def by (meson order_trans)
qed

lemma refCount_nonneg: "sync_alloc s \<Longrightarrow> 0 \<le> refCount n s"
  using sync_allocD(2)[of s n] by (force simp: refCount_def ref_of_def split: option.split)

lemma subscribe_begin_inv: "hub_inv h \<Longrightarrow> hub_inv (subscribe_begin k n h)"
  using hub_inv_upd[of h k "hb_sync h" "\<lambda>s. s\<lparr>sk_pending := sk_pending s @ [n]\<rparr>"] hub_inv_sync[of h] hub_inv_subscribed(1)[of h k]
  by (simp add: subscribe_begin_def upd_socket_def)

lemma unsubscribe_inv:
  assumes "hub_inv h" shows "hub_inv (unsubscribe k n h)"
proof (cases "k < length (hb_sockets h) \<and> sk_connected (hb_sockets h ! k) \<and> n \<noteq> [] \<and> n \<in> set (sk_subscribed (hb_sockets h ! k))")
  case True
  note s = hub_inv_sync[OF assms] and d = hub_inv_subscribed[OF assms conjunct1[OF True]]
  have "sync_alloc (release n (hb_sync h)) \<and> alive (release n (hb_sync h))" using sync_keeps[OF s, of "Release n"] by simp
  then show ?thesis using True s d(1)
    by (auto simp: unsubscribe_def refCount_release intro!: hub_inv_upd[OF assms])
qed (use assms in \<open>auto simp: unsubscribe_def\<close>)

lemma disconnect_inv:
  assumes "hub_inv h" shows "hub_inv (disconnect k h)"
proof (cases "k < length (hb_sockets h) \<and> sk_connected (hb_sockets h ! k)")
  case True
  note s = hub_inv_sync[OF assms] and d = hub_inv_subscribed(1)[OF assms conjunct1[OF True]]
  show ?thesis using True
    by (auto simp: disconnect_def refCount_releases[OF s d] releases_keep[OF s] intro!: hub_inv_upd[OF assms])
qed (use assms in \<open>auto simp: disconnect_def\<close>)

lemma subscribe_end_inv:
  assumes "hub_inv h" shows "hub_inv (subscribe_end k n h)"
proof (cases "k < length (hb_sockets h) \<and> n \<in> set (sk_pending (hb_sockets h ! k))")
  case True
  let ?u = "sk_user (hb_sockets h ! k)" and ?h = "upd_socket k (\<lambda>s. s\<lparr>sk_pending := remove1 n (sk_pending s)\<rparr>) h"
  note s = hub_inv_sync[OF assms] and d = hub_inv_subscribed(1)[OF assms conjunct1[OF True]]
  have "hub_inv (?h\<lparr>hb_sync := hb_sync h\<rparr>)" using True s d by (intro hub_inv_upd[OF assms]) auto
  then have h: "hub_inv ?h" by (simp add: upd_socket_sync)
  have k: "k < length (hb_sockets ?h)" "sk_subscribed (hb_sockets ?h ! k) = sk_subscribed (hb_sockets h ! k)"
    using True by (simp_all add: upd_socket_sockets)
  have "sync_alloc (acquire ?u n (hb_sync h)) \<and> alive (acquire ?u n (hb_sync h))" using sync_keeps[OF s, of "Acquire ?u n"] by simp
  then have "hub_inv ((upd_socket k (\<lambda>s. s\<lparr>sk_subscribed := set_add n (sk_subscribed s), sk_rooms := set_add (networkMembersChannel n) (sk_rooms s)\<rparr>) ?h)
      \<lparr>hb_sync := acquire ?u n (hb_sync h)\<rparr>)"
    using s d k by (intro hub_inv_upd[OF h]) (auto simp: refCount_acquire)
  with h show ?thesis using True by (auto simp: subscribe_end_def Let_def split: sum.split)
qed (use assms in \<open>auto simp: subscribe_end_def\<close>)

lemma connect_inv: "hub_inv h \<Longrightarrow> hub_inv (connect now cookie h)"
  by (simp add: connect_def hub_inv_def subscribers_def split: option.split)

lemma request_inv: "hub_inv h \<Longrightarrow> hub_inv (snd (SocketHandler now cookie h))"
  by (simp add: SocketHandler_def hub_inv_def split: option.split)

lemma refCount_fire [simp]: "refCount n (sync_exec (Fire t) s) = refCount n s" "refCount n (sync_exec (Finish fl r) s) = refCount n s"
  by simp_all

lemma tick_inv:
  assumes "hub_inv h" "\<And>n. refCount n (sync_exec ev (hb_sync h)) = refCount n (hb_sync h)"
  shows "hub_inv (h\<lparr>hb_sync := sync_exec ev (hb_sync h)\<rparr>)"
  using sync_keeps[OF hub_inv_sync[OF assms(1)], of ev] assms by (simp add: hub_inv_def)

interpretation live_hub: step_invariant "\<lambda>s t. \<exists>ev. t = hub_exec ev s" hub_inv
proof
  fix s t assume s: "hub_inv s" and "\<exists>ev. t = hub_exec ev s"
  then obtain ev where t: "t = hub_exec ev s" by blast
  show "hub_inv t"
  proof (cases ev)
    case (TimerFires x)
    then show ?thesis using tick_inv[OF s, of "Fire x"] t by (simp del: sync_exec.simps)
  next
    case (TickEnds fl r)
    then show ?thesis using tick_inv[OF s, of "Finish fl r"] t by (simp del: sync_exec.simps)
  next
    case (DatabaseChanges d)
    then show ?thesis using s t by (simp add: hub_inv_def)
  qed (use s t request_inv connect_inv subscribe_begin_inv subscribe_end_inv unsubscribe_inv disconnect_inv in simp_all)
qed

lemma hub_init_inv: "hub_inv (hub_init d)"
  using sync_init_inv by (simp add: hub_inv_def hub_init_def subscribers_def refCount_def sync_init_def)

lemma hub_run: "(\<lambda>s t. \<exists>ev. t = hub_exec ev s)\<^sup>*\<^sup>* s (fold hub_exec evs s)"
proof (induction evs rule: rev_induct)
  case (snoc ev evs)
  then show ?case by (auto intro: rtranclp.rtrancl_into_rtrancl)
qed simp

lemmas hub_run_inv = live_hub.run_keeps[OF hub_run hub_init_inv]

lemma counted_network_ticks:
  assumes "alive s" "1 \<le> refCount n s"
  shows "n \<in> snd ` set (timers s) \<or> n \<in> fst ` set (flights s)"
  using assms by (cases "nets s n") (auto simp: refCount_def alive_def)

text \<open>C18. Live views: whatever requests, handshakes, subscriptions (whose access checks end in any order),
  disconnects, timers, reconciles and database changes have happened, the sync manager counts at least one reference for
  every socket that is subscribed to a network, and the network has a tick queued or in flight.\<close>

theorem subscribed_networks_are_synced:
  assumes "k < length (hb_sockets (fold hub_exec evs (hub_init d)))"
    and "n \<in> set (sk_subscribed (hb_sockets (fold hub_exec evs (hub_init d)) ! k))"
  shows "let h = fold hub_exec evs (hub_init d); s = hb_sync h
         in int (subscribers n h) \<le> refCount n s \<and> 1 \<le> refCount n s \<and> (n \<in> snd ` set (timers s) \<or> n \<in> fst ` set (flights s))"
proof -
  let ?h = "fold hub_exec evs (hub_init d)"
  have inv: "hub_inv ?h" by (rule hub_run_inv)
  have r: "1 \<le> refCount n (hb_sync ?h)" using hub_inv_subscribed(2)[OF inv assms] .
  show ?thesis using r inv counted_network_ticks[OF _ r] by (simp add: hub_inv_def Let_def)
qed

section \<open>Rooms\<close>

lemma rooms_upd: "rooms (upd_socket k f h) j = (if j = k \<and> k < length (hb_sockets h) then set (sk_rooms (f (hb_sockets h ! k))) else rooms h j)"
  by (simp add: rooms_def upd_socket_def)

lemma rooms_fields [simp]: "rooms (h\<lparr>hb_sync := s\<rparr>) j = rooms h j" "rooms (h\<lparr>hb_db := d\<rparr>) j = rooms h j" "rooms (h\<lparr>hb_io := b\<rparr>) j = rooms h j"
  by (simp_all add: rooms_def)

lemma rooms_connect: "rooms (connect now cookie h) j = rooms h j"
  by (auto simp: connect_def rooms_def nth_append less_Suc_eq split: option.split)

lemma rooms_same [simp]: "(\<And>s. sk_rooms (f s) = sk_rooms s) \<Longrightarrow> rooms (upd_socket k f h) j = rooms h j"
  by (simp add: rooms_def upd_socket_def nth_list_update)

lemma rooms_other:
  "rooms (snd (SocketHandler now cookie h)) j = rooms h j" "rooms (subscribe_begin k n h) j = rooms h j" "rooms (disconnect k h) j = rooms h j"
  by (simp_all add: SocketHandler_def subscribe_begin_def disconnect_def split: option.split)

lemma rooms_unsubscribe: "rooms (unsubscribe k n h) j \<subseteq> rooms h j"
  by (auto simp: unsubscribe_def rooms_upd) (simp add: rooms_def)

lemma rooms_subscribe_end:
  assumes "r \<in> rooms (subscribe_end k n h) j"
  shows "r \<in> rooms h j \<or> j = k \<and> r = networkMembersChannel n \<and> n \<in> set (sk_pending (hb_sockets h ! k))
     \<and> checkNetworkAccess (hb_db h) (sk_user (hb_sockets h ! k)) n READ_ONLY = Inr ()"
proof (cases "k < length (hb_sockets h) \<and> n \<in> set (sk_pending (hb_sockets h ! k))")
  case True
  let ?h = "upd_socket k (\<lambda>s. s\<lparr>sk_pending := remove1 n (sk_pending s)\<rparr>) h"
  show ?thesis
  proof (cases "checkNetworkAccess (hb_db h) (sk_user (hb_sockets h ! k)) n READ_ONLY")
    case (Inl e)
    then show ?thesis using assms True by (simp add: subscribe_end_def)
  next
    case (Inr x)
    have k: "k < length (hb_sockets ?h)" "sk_rooms (hb_sockets ?h ! k) = sk_rooms (hb_sockets h ! k)"
      using True by (simp_all add: upd_socket_sockets)
    have "r \<in> (if j = k then insert (networkMembersChannel n) (set (sk_rooms (hb_sockets h ! k))) else rooms h j)"
      using assms True Inr k by (cases "j = k") (simp_all add: subscribe_end_def rooms_upd[of k _ ?h])
    then show ?thesis using True Inr by (auto simp: rooms_def split: if_splits)
  qed
qed (use assms in \<open>auto simp: subscribe_end_def\<close>)

text \<open>Rooms of live views: the only event that adds a room to a socket is the end of that socket's own
  subscription, the room is that of the network it asked for, and at that moment the user of the socket passes the access check
  of the network.\<close>

theorem rooms_need_access:
  assumes "r \<in> rooms (hub_exec ev h) j" "r \<notin> rooms h j"
  shows "\<exists>n. ev = SubscribeEnd j n \<and> r = networkMembersChannel n \<and> n \<in> set (sk_pending (hb_sockets h ! j))
     \<and> checkNetworkAccess (hb_db h) (sk_user (hb_sockets h ! j)) n READ_ONLY = Inr ()"
proof (cases ev)
  case (SubscribeEnd k n)
  then show ?thesis using rooms_subscribe_end[of r k n h j] assms by auto
next
  case (Unsubscribe k n)
  then show ?thesis using rooms_unsubscribe[of k n h j] assms by auto
qed (use assms in \<open>simp_all add: rooms_other rooms_connect del: sync_exec.simps\<close>)

section \<open>Late subscriptions\<close>

lemma abandoned_fields [simp]: "abandoned k n (h\<lparr>hb_sync := s\<rparr>) = abandoned k n h" "abandoned k n (h\<lparr>hb_db := d\<rparr>) = abandoned k n h"
  "abandoned k n (h\<lparr>hb_io := b\<rparr>) = abandoned k n h"
  by (simp_all add: abandoned_def)

lemma abandoned_upd:
  assumes "abandoned k n h" "\<And>s. sk_connected (f s) = sk_connected s" "\<And>s. set (sk_subscribed s) \<subseteq> set (sk_subscribed (f s))"
  shows "abandoned k n (upd_socket j f h)"
  using assms(1) assms(2,3)[of "hb_sockets h ! k"] by (auto simp: abandoned_def upd_socket_def nth_list_update)

lemma abandoned_other:
  assumes "abandoned k n h" "sk_connected (hb_sockets h ! j)" shows "abandoned k n (upd_socket j f h)"
  using assms by (cases "j = k") (auto simp: abandoned_def upd_socket_def)

lemma abandoned_stays:
  assumes "abandoned k n h" shows "abandoned k n (hub_exec ev h)"
proof (cases ev)
  case (Connect now c)
  then show ?thesis using assms by (auto simp: connect_def abandoned_def nth_append split: option.split)
next
  case (SubscribeBegin j m)
  then show ?thesis using assms by (auto simp: subscribe_begin_def intro: abandoned_other)
next
  case (SubscribeEnd j m)
  then show ?thesis using assms by (auto simp: subscribe_end_def Let_def intro!: abandoned_upd split: sum.split)
qed (use assms in \<open>auto simp: SocketHandler_def unsubscribe_def disconnect_def intro: abandoned_other split: option.split\<close>)

lemma abandoned_run: "abandoned k n h \<Longrightarrow> abandoned k n (fold hub_exec evs h)"
  by (induction evs arbitrary: h) (simp_all add: abandoned_stays del: hub_exec.simps)

lemma hasty_client_abandons:
  assumes "getActiveSession now d (Some c) = Some s" "s_userId s \<noteq> []" "n \<noteq> []" "checkNetworkAccess d (s_userId s) n READ_ONLY = Inr ()"
  shows "abandoned 0 n (fold hub_exec (hasty_client now c n) (hub_init d))"
  using assms by (simp add: hasty_client_def hub_init_def SocketHandler_def connect_def subscribe_begin_def disconnect_def subscribe_end_def
      upd_socket_def abandoned_def set_add_def)

text \<open>A late subscription leaks: when a client disconnects while its subscription waits for the access check,
  the handler subscribes the socket that has gone; from then on, whatever events follow, the network keeps a reference and is
  reconciled, with nobody left to release it.\<close>

theorem late_subscription_leaks:
  assumes "getActiveSession now d (Some c) = Some s" "s_userId s \<noteq> []" "n \<noteq> []"
    and "checkNetworkAccess d (s_userId s) n READ_ONLY = Inr ()"
  shows "let h = fold hub_exec (hasty_client now c n @ evs) (hub_init d)
         in \<not> sk_connected (hb_sockets h ! 0) \<and> 1 \<le> refCount n (hb_sync h)
            \<and> (n \<in> snd ` set (timers (hb_sync h)) \<or> n \<in> fst ` set (flights (hb_sync h)))"
proof -
  let ?h = "fold hub_exec (hasty_client now c n @ evs) (hub_init d)"
  have inv: "hub_inv ?h" by (rule hub_run_inv)
  have a: "abandoned 0 n ?h" using abandoned_run[OF hasty_client_abandons[OF assms], of evs] by simp
  have r: "1 \<le> refCount n (hb_sync ?h)" using hub_inv_subscribed(2)[OF inv, of 0 n] a unfolding abandoned_def by blast
  have "alive (hb_sync ?h)" using inv by (simp add: hub_inv_def)
  from counted_network_ticks[OF this r] show ?thesis using a r by (simp add: abandoned_def Let_def)
qed

text \<open>Two subscriptions of one socket that wait at the same time count twice, and the disconnect releases one.\<close>

lemma double_subscription_leaks:
  assumes "getActiveSession now d (Some c) = Some s" "s_userId s \<noteq> []" "n \<noteq> []" "checkNetworkAccess d (s_userId s) n READ_ONLY = Inr ()"
  shows "refCount n (hb_sync (fold hub_exec [Request now (Some c), Connect now (Some c), SubscribeBegin 0 n, SubscribeBegin 0 n,
      SubscribeEnd 0 n, SubscribeEnd 0 n, Disconnect 0] (hub_init d))) = 1"
  using assms by (simp add: hub_init_def SocketHandler_def connect_def subscribe_begin_def disconnect_def subscribe_end_def
      upd_socket_def set_add_def sync_defs)

lemma live_viewer_access: "getActiveSession 0 demo_db (Some live_viewer) = Some live_viewer"
  "checkNetworkAccess demo_db (s_userId live_viewer) ''n2'' READ_ONLY = Inr ()" by code_simp+

theorem late_subscription_leaks_witness:
  "1 \<le> refCount ''n2'' (hb_sync (fold hub_exec (hasty_client 0 live_viewer ''n2'' @ [Disconnect 0, Unsubscribe 0 ''n2'']) (hub_init demo_db)))"
  using late_subscription_leaks[OF live_viewer_access(1) _ _ live_viewer_access(2), of "[Disconnect 0, Unsubscribe 0 ''n2'']"]
  by (simp add: live_viewer_def Let_def)

lemma live_run_end:
  "hb_sockets (fold hub_exec (live_run @ [SubscribeEnd 0 ''n2'']) (hub_init demo_db)) =
     [\<lparr>sk_user = ''u2'', sk_connected = True, sk_subscribed = [''n2''], sk_pending = [], sk_rooms = [networkMembersChannel ''n2'']\<rparr>]"
  "hb_sockets (fold hub_exec live_run (hub_init demo_db)) =
     [\<lparr>sk_user = ''u2'', sk_connected = True, sk_subscribed = [], sk_pending = [''n2''], sk_rooms = []\<rparr>]"
  using live_viewer_access
  by (simp_all add: live_run_def hub_init_def SocketHandler_def connect_def subscribe_begin_def subscribe_end_def upd_socket_def set_add_def
      live_viewer_def)

theorem subscribed_networks_are_synced_witness:
  "1 \<le> refCount ''n2'' (hb_sync (fold hub_exec (live_run @ [SubscribeEnd 0 ''n2'']) (hub_init demo_db)))"
  using subscribed_networks_are_synced[of 0 "live_run @ [SubscribeEnd 0 ''n2'']" demo_db "''n2''"]
  unfolding live_run_end Let_def by simp

theorem rooms_need_access_witness:
  "checkNetworkAccess (hb_db (fold hub_exec live_run (hub_init demo_db))) ''u2'' ''n2'' READ_ONLY = Inr ()"
proof -
  let ?h = "fold hub_exec live_run (hub_init demo_db)"
  have "networkMembersChannel ''n2'' \<in> rooms (hub_exec (SubscribeEnd 0 ''n2'') ?h) 0"
    using live_run_end(1) by (simp add: rooms_def)
  moreover have "networkMembersChannel ''n2'' \<notin> rooms ?h 0" using live_run_end(2) by (simp add: rooms_def)
  ultimately show ?thesis using rooms_need_access[of "networkMembersChannel ''n2''" "SubscribeEnd 0 ''n2''" ?h 0]
    by (simp add: live_run_end(2))
qed

end
