(* ===== verification/Ip_Tools.thy ===== *)
theory Ip_Tools
  imports JS_Values
begin

text \<open>
  The IPv4/IPv6 helpers: \<^verbatim>\<open>server/api/utils/ipUtils.ts\<close>, \<^verbatim>\<open>utils/IPv4gen.ts\<close>, \<^verbatim>\<open>utils/IPv6.ts\<close>
  and \<^verbatim>\<open>utils/isIpInsubnet.ts\<close>. All of them compute on dotted-quad strings through
  JavaScript's signed 32-bit operators. The lemmas relate each of them to the plain
  arithmetic reading of the address.
\<close>

section \<open>Address arithmetic (ipUtils.ts)\<close>

definition octet_step :: "num \<Rightarrow> string \<Rightarrow> num" where
  "octet_step acc octet = num_add (Some (js_shl (nan0 acc) 8)) (parse_int10 octet)"

definition private_ranges :: "(int \<times> int) list" where
  "private_ranges =
     [(js_shl 10 24, js_shl 10 24 + js_shl 1 24 - 1),
      (js_shl 172 24 + js_shl 16 16, js_shl 172 24 + js_shl 31 16 + js_shl 1 16 - 1),
      (js_shl 192 24 + js_shl 168 16, js_shl 192 24 + js_shl 168 16 + js_shl 1 16 - 1)]"

definition isPrivateIP :: "string \<Rightarrow> bool" where
  "isPrivateIP ip =
     (let ipInt = foldl octet_step (Some 0) (js_split CHR ''.'' ip)
      in list_ex (\<lambda>(start, stop). num_le (Some start) ipInt \<and> num_le ipInt (Some stop)) private_ranges)"

definition part_int :: "string list \<Rightarrow> nat \<Rightarrow> num" where
  "part_int parts i = Option.bind (nth_opt parts i) parse_int"

definition ip2long :: "string \<Rightarrow> int" where
  "ip2long ip =
     (let parts = js_split CHR ''.'' ip;
          res = js_shl (nan0 (part_int parts 0)) 24;
          res = res + js_shl (nan0 (part_int parts 1)) 16;
          res = res + js_shl (nan0 (part_int parts 2)) 8
      in js_ushr (nan0 (num_add (Some res) (part_int parts 3))) 0)"

definition long2ip :: "int \<Rightarrow> string" where
  "long2ip l =
     (let part1 = int_str (js_and l 255);
          part2 = int_str (js_and (js_shr l 8) 255);
          part3 = int_str (js_and (js_shr l 16) 255);
          part4 = int_str (js_and (js_shr l 24) 255)
      in part4 @ ''.'' @ part3 @ ''.'' @ part2 @ ''.'' @ part1)"

record ip_range =
  ipRangeStart :: string
  ipRangeEnd :: string

function next_ip_from :: "int \<Rightarrow> int \<Rightarrow> string list \<Rightarrow> string option" where
  "next_ip_from ipLong stop assigned =
     (if ipLong \<le> stop
      then (let ip = long2ip ipLong
            in if ip \<notin> set assigned then Some ip else next_ip_from (ipLong + 1) stop assigned)
      else None)"
  by pat_completeness auto
termination
  by (relation "measure (\<lambda>(l, e, a). nat (e + 1 - l))") auto

declare next_ip_from.simps [simp del]

fun getNextIP :: "ip_range list \<Rightarrow> string list \<Rightarrow> string option" where
  "getNextIP [] assigned = None"
| "getNextIP (r # rs) assigned =
     (case next_ip_from (ip2long (ipRangeStart r)) (ip2long (ipRangeEnd r)) assigned of
        Some ip \<Rightarrow> Some ip
      | None \<Rightarrow> getNextIP rs assigned)"

text \<open>\<^verbatim>\<open>Address4.isValid\<close> and \<^verbatim>\<open>Address6.isValid\<close> of the \<^verbatim>\<open>ip-address\<close> package are parameters.\<close>

definition isValidCIDR :: "(string \<Rightarrow> bool) \<Rightarrow> (string \<Rightarrow> bool) \<Rightarrow> string \<Rightarrow> bool" where
  "isValidCIDR valid4 valid6 cidr =
     (let parts = js_split CHR ''/'' cidr; ip = hd parts; prefixNumber = part_int parts 1
      in if valid4 ip then num_le (Some 0) prefixNumber \<and> num_le prefixNumber (Some 32)
         else if valid6 ip then num_le (Some 0) prefixNumber \<and> num_le prefixNumber (Some 128)
         else False)"

definition isValidIP :: "(string \<Rightarrow> bool) \<Rightarrow> (string \<Rightarrow> bool) \<Rightarrow> string \<Rightarrow> bool" where
  "isValidIP valid4 valid6 ip = (valid4 ip \<or> valid6 ip)"

text \<open>The regular expression \<^verbatim>\<open>^(?!-)[a-zA-Z0-9-]+(\.[a-zA-Z0-9-]+)*\.[a-zA-Z]{2,}$\<close>: at least two
  labels separated by dots, the last one two or more letters.\<close>

definition label_char :: "char \<Rightarrow> bool" where
  "label_char c = (is_alnum c \<or> c = CHR ''-'')"

definition isValidDomain :: "string \<Rightarrow> bool" where
  "isValidDomain domain =
     (let labels = js_split CHR ''.'' domain
      in (domain = [] \<or> hd domain \<noteq> CHR ''-'') \<and> 2 \<le> length labels
         \<and> list_all (\<lambda>l. l \<noteq> [] \<and> list_all label_char l) (butlast labels)
         \<and> 2 \<le> length (last labels) \<and> list_all is_alpha (last labels))"

definition isValidDns :: "string \<Rightarrow> bool" where
  "isValidDns domain =
     (if length domain = 0 \<or> length domain > 128 then False
      else if list_ex (\<lambda>c. \<not> (is_alnum c \<or> c = CHR ''.'' \<or> c = CHR ''-'')) domain then False
      else True)"

section \<open>Subnet generation (IPv4gen.ts)\<close>

definition cidrOptions :: "string list" where
  "cidrOptions =
     [''10.121.15.0/24'', ''10.121.16.0/24'', ''10.121.17.0/24'', ''10.121.18.0/24'',
      ''10.121.19.0/24'', ''10.121.20.0/24'', ''10.121.21.0/24'', ''10.121.22.0/24'',
      ''10.121.23.0/24'', ''10.121.24.0/24'', ''172.25.25.0/24'', ''172.25.26.0/24'',
      ''172.25.27.0/24'', ''172.25.28.0/24'', ''172.25.29.0/24'', ''172.25.30.0/24'']"

text \<open>The scan for the least used option: \<open>None\<close> is the initial \<^verbatim>\<open>Infinity\<close>.\<close>

fun least_used :: "(string \<Rightarrow> nat) \<Rightarrow> string \<Rightarrow> nat option \<Rightarrow> string list \<Rightarrow> string" where
  "least_used cnt best minCount [] = best"
| "least_used cnt best minCount (cidr # rest) =
     (if minCount = None \<or> cnt cidr < the minCount
      then least_used cnt cidr (Some (cnt cidr)) rest
      else least_used cnt best minCount rest)"

text \<open>\<^verbatim>\<open>generateCidr\<close>; the argument \<open>rnd\<close> is the index drawn by \<^verbatim>\<open>Math.floor(Math.random() * 16)\<close>
  when \<^verbatim>\<open>getRandom\<close> is set.\<close>

definition generateCidr :: "string list list \<Rightarrow> nat option \<Rightarrow> string" where
  "generateCidr usedCidr rnd =
     (case rnd of
        Some i \<Rightarrow> cidrOptions ! i
      | None \<Rightarrow>
        (let flattened = concat usedCidr;
             available = filter (\<lambda>c. c \<notin> set flattened) cidrOptions
         in if available \<noteq> [] then hd available
            else least_used (count_list flattened) (hd cidrOptions) None cidrOptions))"

definition int32toIPv4String :: "int \<Rightarrow> string" where
  "int32toIPv4String n =
     int_str (js_ushr (js_and n 4278190080) 24)
       @ ''.'' @ int_str (js_ushr (js_and n 16711680) 16)
       @ ''.'' @ int_str (js_ushr (js_and n 65280) 8)
       @ ''.'' @ int_str (js_and n 255)"

record route_target =
  rt_target :: string
  rt_via :: "string option"

record ipv4_plan =
  ipAssignmentPools :: "ip_range list"
  plan_routes :: "route_target list"
  v4_zt :: bool

definition opt_text :: "string option \<Rightarrow> string" where
  "opt_text s = (case s of None \<Rightarrow> ''undefined'' | Some t \<Rightarrow> t)"

definition IPv4gen :: "string option \<Rightarrow> string list list \<Rightarrow> nat option \<Rightarrow> ipv4_plan" where
  "IPv4gen CIDR usedCidr rnd =
     (let cidr = (if truthy CIDR then the CIDR else generateCidr usedCidr rnd);
          parts = js_split CHR ''/'' cidr;
          start = hd parts; prefix = nth_opt parts 1;
          shift = (case Option.bind prefix parse_int of None \<Rightarrow> 0 | Some p \<Rightarrow> 32 - p);
          host32 = js_ushr (js_shl 1 shift - 1) 0;
          net = map parse_int (js_split CHR ''.'' start);
          at = (\<lambda>i. Option.bind (nth_opt net i) id);
          net32 = num_add (Some (js_shl (nan0 (at 0)) 24 + js_shl (nan0 (at 1)) 16
                                 + js_shl (nan0 (at 2)) 8)) (at 3);
          net32 = js_and (nan0 net32) (js_not host32);
          bcast32 = net32 + host32
      in \<lparr>ipAssignmentPools = [\<lparr>ipRangeStart = int32toIPv4String (net32 + 1),
                                ipRangeEnd = int32toIPv4String (bcast32 - 1)\<rparr>],
          plan_routes = [\<lparr>rt_target = int32toIPv4String net32 @ ''/'' @ opt_text prefix, rt_via = None\<rparr>],
          v4_zt = True\<rparr>)"

section \<open>Covering subnet of a range (getNetworkClassCIDR in IPv4gen.ts)\<close>

fun bin_digits :: "nat \<Rightarrow> string" where
  "bin_digits n = (if n < 2 then [char_of (48 + n)] else bin_digits (n div 2) @ [char_of (48 + n mod 2)])"

declare bin_digits.simps [simp del]

definition pad_start :: "nat \<Rightarrow> string \<Rightarrow> string" where
  "pad_start n s = replicate (n - length s) CHR ''0'' @ s"

definition pad_end :: "nat \<Rightarrow> string \<Rightarrow> string" where
  "pad_end n s = s @ replicate (n - length s) CHR ''0''"

definition num_bin :: "num \<Rightarrow> string" where
  "num_bin x = (case x of None \<Rightarrow> ''NaN''
                | Some n \<Rightarrow> if n < 0 then CHR ''-'' # bin_digits (nat (- n)) else bin_digits (nat n))"

definition ipToBinary :: "string \<Rightarrow> string" where
  "ipToBinary ip = concat (map (\<lambda>octet. pad_start 8 (num_bin (parse_int10 octet))) (js_split CHR ''.'' ip))"

text \<open>\<^verbatim>\<open>s.match(/.{1,n}/g)\<close> on a string without line terminators.\<close>

function chunks :: "nat \<Rightarrow> 'a list \<Rightarrow> 'a list list" where
  "chunks n xs = (if xs = [] \<or> n = 0 then [] else take n xs # chunks n (drop n xs))"
  by pat_completeness auto
termination
  by (relation "measure (\<lambda>(n, xs). length xs)") auto

declare chunks.simps [simp del]

definition bin_val :: "string \<Rightarrow> nat" where
  "bin_val s = foldl (\<lambda>a c. 2 * a + (if c = CHR ''1'' then 1 else 0)) 0 (takeWhile (\<lambda>c. c = CHR ''0'' \<or> c = CHR ''1'') s)"

definition binaryToIp :: "string \<Rightarrow> string" where
  "binaryToIp binary = js_join ''.'' (map (\<lambda>b. nat_str (bin_val b)) (chunks 8 binary))"

fun countCommonBits :: "string \<Rightarrow> string \<Rightarrow> nat" where
  "countCommonBits [] ys = 0"
| "countCommonBits (x # xs) [] = 0"
| "countCommonBits (x # xs) (y # ys) = (if x \<noteq> y then 0 else Suc (countCommonBits xs ys))"

definition ipToNumber :: "string \<Rightarrow> num" where
  "ipToNumber ip = foldl octet_step (Some 0) (js_split CHR ''.'' ip)"

definition range_cidr :: "ip_range \<Rightarrow> route_target list" where
  "range_cidr rg =
     (if num_le (ipToNumber (ipRangeEnd rg)) (ipToNumber (ipRangeStart rg)) then []
      else (let binaryStart = ipToBinary (ipRangeStart rg);
                binaryEnd = ipToBinary (ipRangeEnd rg);
                commonBits = countCommonBits binaryStart binaryEnd;
                networkBinary = pad_end 32 (take commonBits binaryStart);
                networkIp = binaryToIp networkBinary
            in [\<lparr>rt_target = networkIp @ ''/'' @ nat_str commonBits, rt_via = None\<rparr>]))"

definition getNetworkClassCIDR :: "ip_range list \<Rightarrow> route_target list" where
  "getNetworkClassCIDR ipRanges = concat (map range_cidr ipRanges)"

section \<open>Subnet membership (isIpInsubnet.ts)\<close>

definition ipToInt :: "string \<Rightarrow> int" where
  "ipToInt ip =
     (let ns = map js_Number (js_split CHR ''.'' ip);
          at = (\<lambda>i. case nth_opt ns i of None \<Rightarrow> 0 | Some x \<Rightarrow> js_trunc x)
      in js_or (js_or (js_or (js_shl (at 0) 24) (js_shl (at 1) 16)) (js_shl (at 2) 8)) (at 3))"

definition in_target :: "int \<Rightarrow> string \<Rightarrow> bool" where
  "in_target ipInt target =
     (let parts = js_split CHR ''/'' target;
          shift = (case Option.bind (nth_opt parts 1) parse_int10 of None \<Rightarrow> 0 | Some b \<Rightarrow> 32 - b);
          subnetInt = ipToInt (hd parts);
          maskInt = js_not (js_shl 1 shift - 1)
      in js_and subnetInt maskInt = js_and ipInt maskInt)"

text \<open>A route whose \<^verbatim>\<open>target\<close> key is absent is \<open>None\<close>.\<close>

definition isIPInSubnet :: "string \<Rightarrow> string option list option \<Rightarrow> bool" where
  "isIPInSubnet ip targets =
     (case targets of
        None \<Rightarrow> False
      | Some ts \<Rightarrow>
        (if list_all (\<lambda>t. t = None) ts then False
         else list_ex (\<lambda>t. truthy t \<and> in_target (ipToInt ip) (the t)) ts))"

section \<open>IPv6 addresses derived from identifiers (IPv6.ts)\<close>

fun hex_digits :: "nat \<Rightarrow> string" where
  "hex_digits n =
     (if n < 16 then [if n < 10 then char_of (48 + n) else char_of (87 + n)]
      else hex_digits (n div 16) @ [if n mod 16 < 10 then char_of (48 + n mod 16) else char_of (87 + n mod 16)])"

declare hex_digits.simps [simp del]

definition int_hex :: "int \<Rightarrow> string" where
  "int_hex n = (if n < 0 then CHR ''-'' # hex_digits (nat (- n)) else hex_digits (nat n))"

definition xor_byte :: "string list \<Rightarrow> nat \<Rightarrow> string" where
  "xor_byte bytes idx =
     (let b = int_hex (js_xor (nan0 (parse_hex (bytes ! idx)))
                              (nan0 (Option.bind (nth_opt bytes (idx + 4)) parse_hex)))
      in if length b = 2 then b else CHR ''0'' # b)"

definition sixPlane :: "string \<Rightarrow> string \<Rightarrow> string option" where
  "sixPlane networkId nodeId =
     (if networkId = [] \<or> nodeId = [] then None
      else (let bytes = chunks 2 networkId;
                networkPart = take 4 (map (xor_byte bytes) [0..<length bytes]);
                nodePart = take 5 (chunks 2 nodeId)
            in Some (js_join '':'' (chunks 4
                 (concat ([''fc''] @ networkPart @ nodePart @ [''00'', ''00'', ''00'', ''00'', ''00'', ''01'']))))))"

definition toRfc4193Ip :: "string \<Rightarrow> string \<Rightarrow> string" where
  "toRfc4193Ip networkId memberId = js_join '':'' (chunks 4 (''fd'' @ networkId @ ''9993'' @ memberId))"

section \<open>The arithmetic reading of an address\<close>

text \<open>The dotted quad of four octets, its value, the dotted quad of a value, and the first address
  of the subnet of prefix length \<open>p\<close> that holds a value.\<close>

definition quad :: "nat \<Rightarrow> nat \<Rightarrow> nat \<Rightarrow> nat \<Rightarrow> string" where
  "quad a b c d = js_join ''.'' [nat_str a, nat_str b, nat_str c, nat_str d]"

definition quad_val :: "nat \<Rightarrow> nat \<Rightarrow> nat \<Rightarrow> nat \<Rightarrow> int" where
  "quad_val a b c d = int a * 16777216 + int b * 65536 + int c * 256 + int d"

definition addr_str :: "int \<Rightarrow> string" where
  "addr_str n = quad (nat (n div 16777216 mod 256)) (nat (n div 65536 mod 256))
                     (nat (n div 256 mod 256)) (nat (n mod 256))"

definition net_of :: "nat \<Rightarrow> int \<Rightarrow> int" where
  "net_of p n = n - n mod 2 ^ (32 - p)"

abbreviation one_address_pool :: "ip_range list" where
  "one_address_pool \<equiv> [\<lparr>ipRangeStart = ''10.0.0.9'', ipRangeEnd = ''10.0.0.9''\<rparr>]"

definition cidr :: "int \<times> nat \<Rightarrow> string" where
  "cidr t = addr_str (fst t) @ ''/'' @ nat_str (snd t)"

lemmas ip_defs [model_defs] = octet_step_def private_ranges_def isPrivateIP_def part_int_def ip2long_def
  long2ip_def isValidCIDR_def isValidDns_def cidrOptions_def generateCidr_def int32toIPv4String_def
  opt_text_def IPv4gen_def pad_start_def pad_end_def num_bin_def ipToBinary_def bin_val_def
  binaryToIp_def ipToNumber_def range_cidr_def getNetworkClassCIDR_def ipToInt_def in_target_def
  isIPInSubnet_def int_hex_def xor_byte_def sixPlane_def toRfc4193Ip_def

section \<open>Dotted quads\<close>

lemma nat_str_no_dot [simp]:
  "CHR ''.'' \<notin> set (nat_str n)" "CHR ''/'' \<notin> set (nat_str n)"
  by (rule nat_str_no_char, simp add: is_digit_def code_def)+

lemma js_split_quad [simp]:
  "js_split CHR ''.'' (quad a b c d) = [nat_str a, nat_str b, nat_str c, nat_str d]"
  unfolding quad_def by (rule js_split_join) auto

lemma quad_no_slash: "CHR ''/'' \<notin> set (quad a b c d)"
  by (simp add: quad_def)

lemma quad_inject [simp]: "quad a b c d = quad a' b' c' d' \<longleftrightarrow> a = a' \<and> b = b' \<and> c = c' \<and> d = d'"
  by (metis js_split_quad list.inject nat_str_inject)

lemma js_shl_nonneg:
  assumes "0 \<le> x" "0 \<le> k" "k < 32" "x * 2 ^ nat k < 4294967296"
  shows "js_shl x k = (if x * 2 ^ nat k < 2147483648 then x * 2 ^ nat k else x * 2 ^ nat k - 4294967296)"
  using assms by (simp add: js_shl_def to_int32_def Let_def)

lemma quad_val_range:
  assumes "a < 256" "b < 256" "c < 256" "d < 256"
  shows "0 \<le> quad_val a b c d" "quad_val a b c d < 4294967296"
  using assms by (simp_all add: quad_val_def)

lemma quad_val_horner: "quad_val a b c d = ((int a * 256 + int b) * 256 + int c) * 256 + int d"
  by (simp add: quad_val_def)

lemma horner256:
  assumes "0 \<le> r" and "r < (256::int)"
  shows "(x * 256 + r) div 256 = x" "(x * 256 + r) mod 256 = r"
  using assms by simp_all

lemma quad_val_div:
  assumes "a < 256" "b < 256" "c < 256" "d < 256"
  shows "quad_val a b c d div 256 = (int a * 256 + int b) * 256 + int c"
    "quad_val a b c d div 65536 = int a * 256 + int b"
    "quad_val a b c d div 16777216 = int a"
proof -
  show 1: "quad_val a b c d div 256 = (int a * 256 + int b) * 256 + int c"
    unfolding quad_val_horner using assms by (intro horner256) auto
  have "quad_val a b c d div (256 * 256) = quad_val a b c d div 256 div 256"
    by (rule zdiv_zmult2_eq) simp
  also have "\<dots> = int a * 256 + int b" unfolding 1 using assms by (intro horner256) auto
  finally show 2: "quad_val a b c d div 65536 = int a * 256 + int b" by simp
  have "quad_val a b c d div (65536 * 256) = quad_val a b c d div 65536 div 256"
    by (rule zdiv_zmult2_eq) simp
  also have "\<dots> = int a" unfolding 2 using assms by (intro horner256) auto
  finally show "quad_val a b c d div 16777216 = int a" by simp
qed

lemma quad_val_mod:
  assumes "a < 256" "b < 256" "c < 256" "d < 256"
  shows "quad_val a b c d mod 256 = int d" "quad_val a b c d div 256 mod 256 = int c"
    "quad_val a b c d div 65536 mod 256 = int b" "quad_val a b c d div 16777216 mod 256 = int a"
proof -
  show "quad_val a b c d mod 256 = int d"
    unfolding quad_val_horner by (rule horner256) (use assms in auto)
  show "quad_val a b c d div 256 mod 256 = int c" "quad_val a b c d div 65536 mod 256 = int b"
    unfolding quad_val_div [OF assms] by (rule horner256; use assms in simp)+
  show "quad_val a b c d div 16777216 mod 256 = int a"
    unfolding quad_val_div [OF assms] using assms by simp
qed

lemma addr_str_quad_val:
  assumes "a < 256" "b < 256" "c < 256" "d < 256"
  shows "addr_str (quad_val a b c d) = quad a b c d"
  unfolding addr_str_def quad_val_mod [OF assms] by simp

lemma addr_obtain:
  assumes "0 \<le> n" "n < 4294967296"
  obtains a b c d where "a < 256" "b < 256" "c < 256" "d < 256" "n = quad_val a b c d"
proof -
  define x where "x = n div 256"
  define y where "y = x div 256"
  have n: "x * 256 + n mod 256 = n" and x: "y * 256 + x mod 256 = x"
    unfolding x_def y_def by (rule div_mult_mod_eq)+
  have "0 \<le> x" "x < 16777216" using assms by (simp_all add: x_def pos_imp_zdiv_nonneg_iff)
  then have "0 \<le> y" "y < 65536" by (simp_all add: y_def pos_imp_zdiv_nonneg_iff)
  then have a: "0 \<le> y div 256" "y div 256 < 256" by (simp_all add: pos_imp_zdiv_nonneg_iff)
  have "quad_val (nat (y div 256)) (nat (y mod 256)) (nat (x mod 256)) (nat (n mod 256))
     = ((y div 256 * 256 + y mod 256) * 256 + x mod 256) * 256 + n mod 256"
    unfolding quad_val_horner using a(1) by simp
  also have "\<dots> = n" unfolding div_mult_mod_eq x n ..
  finally have q: "n = quad_val (nat (y div 256)) (nat (y mod 256)) (nat (x mod 256)) (nat (n mod 256))"
    by (rule sym)
  show ?thesis
  proof (rule that [OF _ _ _ _ q])
    show "nat (y div 256) < 256" using a(2) by simp
  qed (simp_all add: nat_less_iff)
qed

lemma fold_octets:
  assumes "a < 256" "b < 256" "c < 256" "d < 256"
  shows "foldl octet_step (Some 0) [nat_str a, nat_str b, nat_str c, nat_str d]
         = Some (to_int32 (quad_val a b c d))"
proof -
  have s1: "js_shl (int a) 8 = int a * 256" using assms by (subst js_shl_nonneg) auto
  have s2: "js_shl (int a * 256 + int b) 8 = (int a * 256 + int b) * 256" using assms by (subst js_shl_nonneg) auto
  have s3: "js_shl x 8 + int d = to_int32 (x * 256 + int d)" if "0 \<le> x" "x < 16777216" for x
    using that assms(4) by (cases "x < 8388608") (simp_all add: js_shl_def to_int32_def Let_def)
  have "js_shl ((int a * 256 + int b) * 256 + int c) 8 + int d = to_int32 (quad_val a b c d)"
    unfolding quad_val_horner using assms by (intro s3) auto
  then show ?thesis using s1 s2 by (simp add: octet_step_def js_shl_def [of 0])
qed

lemma to_int32_quad:
  assumes "a < 256" "b < 256" "c < 256" "d < 256"
  shows "to_int32 (quad_val a b c d) = (if a < 128 then quad_val a b c d else quad_val a b c d - 4294967296)"
  using assms quad_val_range [OF assms] by (auto simp: to_int32_def Let_def quad_val_def)

lemma prefix16_band:
  assumes "a < 256" "b < 256" "c < 256" "d < 256"
  shows "lo * 65536 \<le> quad_val a b c d \<longleftrightarrow> lo \<le> int a * 256 + int b"
    "quad_val a b c d \<le> hi * 65536 + 65535 \<longleftrightarrow> int a * 256 + int b \<le> hi"
  using quad_val_div(2) [OF assms] by auto

lemma isPrivateIP_quad:
  assumes "a < 256" "b < 256" "c < 256" "d < 256"
  shows "isPrivateIP (quad a b c d) \<longleftrightarrow>
           a = 10 \<or> (a = 172 \<and> 16 \<le> b \<and> b \<le> 31) \<or> (a = 192 \<and> b = 168)"
proof -
  let ?n = "quad_val a b c d"
  have r: "private_ranges = [(167772160, 184549375), (- 1408237568, - 1407188993), (- 1062731776, - 1062666241)]"
    by (simp add: private_ranges_def js_shl_def to_int32_def)
  have "isPrivateIP (quad a b c d) \<longleftrightarrow>
     (\<exists>(s, e)\<in>set private_ranges. s \<le> to_int32 ?n \<and> to_int32 ?n \<le> e)"
    using fold_octets [OF assms] by (auto simp: isPrivateIP_def list_ex_iff split: prod.splits)
  also have "\<dots> \<longleftrightarrow> (2560 * 65536 \<le> ?n \<and> ?n \<le> 2815 * 65536 + 65535)
     \<or> (44048 * 65536 \<le> ?n \<and> ?n \<le> 44063 * 65536 + 65535)
     \<or> (49320 * 65536 \<le> ?n \<and> ?n \<le> 49320 * 65536 + 65535)"
    using assms quad_val_range [OF assms] unfolding r to_int32_quad [OF assms]
    by (auto simp: quad_val_def)
  also have "\<dots> \<longleftrightarrow> a = 10 \<or> (a = 172 \<and> 16 \<le> b \<and> b \<le> 31) \<or> (a = 192 \<and> b = 168)"
  proof -
    have "(2560 \<le> int a * 256 + int b \<and> int a * 256 + int b \<le> 2815) \<longleftrightarrow> a = 10"
      using assms(2) by (cases a "10::nat" rule: linorder_cases) auto
    moreover have "(44048 \<le> int a * 256 + int b \<and> int a * 256 + int b \<le> 44063) \<longleftrightarrow> a = 172 \<and> 16 \<le> b \<and> b \<le> 31"
      using assms(2) by (cases a "172::nat" rule: linorder_cases) auto
    moreover have "(49320 \<le> int a * 256 + int b \<and> int a * 256 + int b \<le> 49320) \<longleftrightarrow> a = 192 \<and> b = 168"
      using assms(2) by (cases a "192::nat" rule: linorder_cases) auto
    ultimately show ?thesis unfolding prefix16_band [OF assms] by blast
  qed
  finally show ?thesis .
qed

lemma to_uint32_int32_add: "to_uint32 (to_int32 x + y) = to_uint32 (x + y)"
proof -
  have "to_uint32 (x mod 4294967296 + y - 4294967296) = to_uint32 (x + y)"
    by (simp add: to_uint32_def mod_simps)
  moreover have "to_uint32 (x mod 4294967296 + y) = to_uint32 (x + y)"
    by (simp add: to_uint32_def mod_simps)
  ultimately show ?thesis
    by (simp add: to_int32_def Let_def algebra_simps)
qed

lemma ip2long_quad:
  assumes "a < 256" "b < 256" "c < 256" "d < 256"
  shows "ip2long (quad a b c d) = quad_val a b c d"
proof -
  have s: "js_shl (int b) 16 = int b * 65536" "js_shl (int c) 8 = int c * 256"
    using assms by (subst js_shl_nonneg; simp)+
  have "ip2long (quad a b c d) = to_uint32 (js_shl (int a) 24 + int b * 65536 + int c * 256 + int d)"
    using s by (simp add: ip2long_def part_int_def Let_def js_ushr_def numeral_3_eq_3 numeral_2_eq_2)
  also have "js_shl (int a) 24 = to_int32 (int a * 16777216)"
    by (simp add: js_shl_def)
  also have "to_uint32 (to_int32 (int a * 16777216) + int b * 65536 + int c * 256 + int d) = to_uint32 (quad_val a b c d)"
    unfolding quad_val_def add.assoc by (rule to_uint32_int32_add)
  finally show ?thesis using quad_val_range [OF assms] by simp
qed

lemma to_int32_mod_pow:
  assumes "k \<le> 32"
  shows "to_int32 x mod 2 ^ k = x mod 2 ^ k"
proof -
  have d: "(2::int) ^ k dvd 4294967296" using le_imp_power_dvd [OF assms, of "2::int"] by simp
  have "(x mod 4294967296 - 4294967296) mod 2 ^ k = (x mod 4294967296 mod 2 ^ k - 4294967296 mod 2 ^ k) mod 2 ^ k"
    by (simp only: mod_diff_eq)
  also have "\<dots> = x mod 2 ^ k" using d by (simp add: mod_mod_cancel)
  finally show ?thesis using d by (simp add: to_int32_def Let_def mod_mod_cancel)
qed

lemma and_mask_mod: "and (x::int) (2 ^ k - 1) = x mod 2 ^ k"
  by (simp add: take_bit_eq_mod [symmetric] take_bit_eq_mask mask_eq_exp_minus_1)

lemma js_and_255: "js_and x 255 = x mod 256"
  using and_mask_mod [of "to_int32 x" 8] to_int32_mod_pow [of 8 x] by (simp add: js_and_def)

lemma div_pow_mod: "(y::int) div 2 ^ m mod 2 ^ n = y mod 2 ^ (m + n) div 2 ^ m"
  using take_bit_drop_bit [of n m y] by (simp only: take_bit_eq_mod drop_bit_eq_div add.commute [of m n])

lemma js_shr_and_255:
  assumes "0 \<le> k" "k \<le> 24"
  shows "js_and (js_shr x k) 255 = x div 2 ^ nat k mod 256"
proof -
  have k: "k mod 32 = k" using assms by simp
  have "to_int32 x div 2 ^ nat k mod 2 ^ 8 = x div 2 ^ nat k mod 2 ^ 8"
    unfolding div_pow_mod using assms by (subst to_int32_mod_pow) auto
  then show ?thesis unfolding js_and_255 js_shr_def k by simp
qed

lemma long2ip_addr: "long2ip n = addr_str n"
proof -
  have "js_and (js_shr n 8) 255 = n div 256 mod 256" "js_and (js_shr n 16) 255 = n div 65536 mod 256"
    "js_and (js_shr n 24) 255 = n div 16777216 mod 256"
    by (subst js_shr_and_255; simp)+
  moreover have "int_str (x mod 256) = nat_str (nat (x mod 256))" for x
    by (simp add: int_str_def)
  ultimately show ?thesis
    by (simp only: long2ip_def addr_str_def quad_def Let_def js_and_255 js_join.simps)
qed

lemma next_ip_from_sound:
  "next_ip_from l e xs = Some ip \<Longrightarrow>
     \<exists>n. l \<le> n \<and> n \<le> e \<and> ip = long2ip n \<and> ip \<notin> set xs \<and> (\<forall>m. l \<le> m \<and> m < n \<longrightarrow> long2ip m \<in> set xs)"
proof (induction l e xs rule: next_ip_from.induct)
  case (1 l e xs)
  show ?case
  proof (cases "l \<le> e \<and> long2ip l \<in> set xs")
    case True
    then have "next_ip_from (l + 1) e xs = Some ip" using "1.prems" by (simp add: next_ip_from.simps [of l])
    then obtain n where "l + 1 \<le> n" "n \<le> e" "ip = long2ip n" "ip \<notin> set xs"
      "\<forall>m. l + 1 \<le> m \<and> m < n \<longrightarrow> long2ip m \<in> set xs" using "1.IH" True by auto
    moreover have "long2ip m \<in> set xs" if "l \<le> m" "m < n" for m
      using that True \<open>\<forall>m. l + 1 \<le> m \<and> m < n \<longrightarrow> long2ip m \<in> set xs\<close> by (cases "m = l") auto
    ultimately show ?thesis by (intro exI [of _ n]) auto
  next
    case False
    then show ?thesis using "1.prems"
      by (intro exI [of _ l]) (auto simp: next_ip_from.simps [of l] Let_def split: if_splits)
  qed
qed

lemma next_ip_from_None:
  "next_ip_from l e xs = None \<longleftrightarrow> (\<forall>n. l \<le> n \<and> n \<le> e \<longrightarrow> long2ip n \<in> set xs)"
proof (induction l e xs rule: next_ip_from.induct)
  case (1 l e xs)
  show ?case
  proof (cases "l \<le> e \<and> long2ip l \<in> set xs")
    case True
    then have "next_ip_from l e xs = next_ip_from (l + 1) e xs" by (simp add: next_ip_from.simps [of l])
    moreover have "(\<forall>n. l \<le> n \<and> n \<le> e \<longrightarrow> long2ip n \<in> set xs) \<longleftrightarrow> (\<forall>n. l + 1 \<le> n \<and> n \<le> e \<longrightarrow> long2ip n \<in> set xs)"
      using True by (metis add1_zle_eq order_le_less)
    ultimately show ?thesis using "1.IH" True by simp
  next
    case False
    then show ?thesis by (auto simp: next_ip_from.simps [of l] Let_def)
  qed
qed

lemma ip2long_long2ip:
  assumes "0 \<le> n" "n < 4294967296"
  shows "ip2long (long2ip n) = n"
proof -
  obtain a b c d where "a < 256" "b < 256" "c < 256" "d < 256" "n = quad_val a b c d"
    using assms by (rule addr_obtain)
  then show ?thesis by (simp add: long2ip_addr addr_str_quad_val ip2long_quad)
qed

lemma getNextIP_Some:
  "getNextIP rs xs = Some ip \<Longrightarrow>
     \<exists>r\<in>set rs. \<exists>n. ip2long (ipRangeStart r) \<le> n \<and> n \<le> ip2long (ipRangeEnd r) \<and> ip = long2ip n \<and> ip \<notin> set xs"
proof (induction rs)
  case (Cons r rs)
  then show ?case
    using next_ip_from_sound [of "ip2long (ipRangeStart r)" "ip2long (ipRangeEnd r)" xs ip]
    by (fastforce split: option.splits)
qed simp

lemma getNextIP_None:
  "getNextIP rs xs = None \<longleftrightarrow>
     (\<forall>r\<in>set rs. \<forall>n. ip2long (ipRangeStart r) \<le> n \<and> n \<le> ip2long (ipRangeEnd r) \<longrightarrow> long2ip n \<in> set xs)"
  by (induction rs)
    (auto simp: next_ip_from_None split: option.splits dest!: next_ip_from_sound)

section \<open>Subnet choice\<close>

lemma least_used_min:
  assumes "minCount = Some (cnt best)"
  shows "least_used cnt best minCount xs \<in> insert best (set xs)
     \<and> (\<forall>y\<in>insert best (set xs). cnt (least_used cnt best minCount xs) \<le> cnt y)"
  using assms
proof (induction xs arbitrary: best minCount)
  case (Cons x xs)
  then show ?case
  proof (cases "cnt x < cnt best")
    case True
    with Cons.IH [of "Some (cnt x)" x] Cons.prems show ?thesis by auto
  next
    case False
    with Cons.IH [of minCount best] Cons.prems show ?thesis by (auto intro: order_trans)
  qed
qed simp

lemma generateCidr_spec:
  "generateCidr used None \<in> set cidrOptions
   \<and> (\<forall>c\<in>set cidrOptions. count_list (concat used) (generateCidr used None) \<le> count_list (concat used) c)"
proof -
  define fl where "fl = concat used"
  have g: "generateCidr used None =
      (if filter (\<lambda>c. c \<notin> set fl) cidrOptions \<noteq> [] then hd (filter (\<lambda>c. c \<notin> set fl) cidrOptions)
       else least_used (count_list fl) (hd cidrOptions) None cidrOptions)"
    by (simp add: generateCidr_def Let_def fl_def)
  obtain x xs where o: "cidrOptions = x # xs" by (simp add: cidrOptions_def)
  show ?thesis
  proof (cases "filter (\<lambda>c. c \<notin> set fl) cidrOptions")
    case Nil
    have "generateCidr used None = least_used (count_list fl) x (Some (count_list fl x)) xs"
      unfolding g Nil by (simp add: o)
    then show ?thesis
      using least_used_min [of "Some (count_list fl x)" "count_list fl" x xs] by (simp add: o fl_def)
  next
    case (Cons y ys)
    then have "generateCidr used None = y" unfolding g by simp
    moreover have "y \<in> set (filter (\<lambda>c. c \<notin> set fl) cidrOptions)" unfolding Cons by simp
    ultimately show ?thesis by (simp add: count_list_0_iff fl_def)
  qed
qed

section \<open>Masks\<close>

lemma and_not_mask: "and (x::int) (- (2 ^ k)) = x - x mod 2 ^ k"
proof -
  have "x - take_bit k x = and x (not (take_bit k x))"
    by (rule disjunctive_diff_eq_and_not) (auto simp: bit_eq_iff bit_simps)
  also have "\<dots> = and x (- (2 ^ k))"
    unfolding minus_exp_eq_not_mask by (auto simp: bit_eq_iff bit_simps)
  finally show ?thesis by (simp add: take_bit_eq_mod)
qed

lemma js_mask:
  assumes "0 < p" "p \<le> 32"
  shows "js_not (js_shl 1 (32 - p) - 1) = - (2 ^ nat (32 - p))" 
    "js_not (js_ushr (js_shl 1 (32 - p) - 1) 0) = - (2 ^ nat (32 - p))"
    "js_ushr (js_shl 1 (32 - p) - 1) 0 = 2 ^ nat (32 - p) - 1"
proof -
  define k where "k = nat (32 - p)"
  have k: "k \<le> 31" and p: "32 - p = int k" using assms by (auto simp: k_def)
  have s: "js_shl 1 (int k) = (if k = 31 then - 2147483648 else 2 ^ k)"
  proof (cases "k = 31")
    case False
    then have "k \<le> 30" using k by simp
    then have "(2::int) ^ k \<le> 2 ^ 30" by (intro power_increasing) auto
    then have "to_int32 (2 ^ k) = 2 ^ k" by (intro to_int32_small) (auto intro: order_trans [of _ 0])
    then show ?thesis using False k by (simp add: js_shl_def)
  qed (simp add: js_shl_def to_int32_def)
  have b: "(1::int) \<le> 2 ^ k" by simp
  have b2: "k \<noteq> 31 \<Longrightarrow> (2::int) ^ k \<le> 2 ^ 30" using k by (intro power_increasing) auto
  show "js_not (js_shl 1 (32 - p) - 1) = - (2 ^ nat (32 - p))"
    "js_not (js_ushr (js_shl 1 (32 - p) - 1) 0) = - (2 ^ nat (32 - p))"
    "js_ushr (js_shl 1 (32 - p) - 1) 0 = 2 ^ nat (32 - p) - 1"
    unfolding p s using b b2 by (auto simp: js_not_def js_ushr_def to_uint32_def to_int32_def)
qed

lemma to_int32_signed: "to_int32 x = signed_take_bit 31 x"
proof -
  have "signed_take_bit 31 x = (x + 2147483648) mod 4294967296 - 2147483648"
    by (simp add: signed_take_bit_eq_take_bit_shift take_bit_eq_mod)
  also have "(x + 2147483648) mod 4294967296 = (x mod 4294967296 + 2147483648) mod 4294967296"
    by (simp add: mod_simps)
  also have "\<dots> - 2147483648 = to_int32 x"
  proof (cases "x mod 4294967296 < 2147483648")
    case False
    have "(x mod 4294967296 + 2147483648) mod 4294967296 = (x mod 4294967296 - 2147483648 + 4294967296) mod 4294967296"
      by (rule arg_cong [where f = "\<lambda>z. z mod 4294967296"]) simp
    also have "\<dots> = (x mod 4294967296 - 2147483648) mod 4294967296"
      by (rule mod_add_self2)
    also have "\<dots> = x mod 4294967296 - 2147483648"
      using False by (subst mod_pos_pos_trivial) (auto simp: algebra_simps intro: less_trans [OF pos_mod_bound])
    finally show ?thesis using False by (simp add: to_int32_def Let_def)
  qed (simp add: to_int32_def Let_def)
  finally show ?thesis by simp
qed

lemma signed31_and: "signed_take_bit 31 (and a b) = and (signed_take_bit 31 a) (signed_take_bit 31 (b::int))"
  by (auto simp: bit_eq_iff bit_simps)

lemma signed31_or: "signed_take_bit 31 (or a b) = or (signed_take_bit 31 a) (signed_take_bit 31 (b::int))"
  by (auto simp: bit_eq_iff bit_simps)

lemma to_int32_idem [simp]: "to_int32 (to_int32 x) = to_int32 x"
  by (simp add: to_int32_signed)

lemma js_and_int32: "js_and a b = to_int32 (and a b)"
  by (simp add: js_and_def to_int32_signed signed31_and)

lemma js_or_int32: "js_or a b = to_int32 (or a b)"
  by (simp add: js_or_def to_int32_signed signed31_or)

lemma js_and_mask: "js_and x (- (2 ^ k)) = to_int32 (x - x mod 2 ^ k)"
  by (simp only: js_and_int32 and_not_mask)

lemma to_int32_inject:
  assumes "0 \<le> x" "x < 4294967296" "0 \<le> y" "y < 4294967296"
  shows "to_int32 x = to_int32 y \<longleftrightarrow> x = y"
  using assms by (metis to_uint32_of_int32 to_uint32_small)

lemma masked_eq_iff:
  assumes "0 \<le> x" "x < 4294967296" "0 \<le> y" "y < 4294967296"
  shows "js_and x (- (2 ^ k)) = js_and y (- (2 ^ k)) \<longleftrightarrow> x div 2 ^ k = y div 2 ^ k"
proof -
  let ?m = "(2::int) ^ k"
  have b: "0 \<le> z - z mod ?m \<and> z - z mod ?m < 4294967296" if "0 \<le> z" "z < 4294967296" for z
    using that zmod_le_nonneg_dividend [of z ?m] by (auto intro: le_less_trans [of _ z])
  have "js_and x (- ?m) = js_and y (- ?m) \<longleftrightarrow> x - x mod ?m = y - y mod ?m"
    unfolding js_and_mask using b [OF assms(1,2)] b [OF assms(3,4)] by (intro to_int32_inject) auto
  also have "\<dots> \<longleftrightarrow> x div ?m * ?m = y div ?m * ?m"
    by (simp only: minus_mod_eq_div_mult)
  finally show ?thesis by simp
qed

lemma or_disjoint_add: "x mod 2 ^ k = 0 \<Longrightarrow> 0 \<le> y \<Longrightarrow> y < 2 ^ k \<Longrightarrow> or (x::int) y = x + y"
proof -
  assume "x mod 2 ^ k = 0" "0 \<le> y" "y < 2 ^ k"
  then have "take_bit k x = 0" "take_bit k y = y" by (simp_all add: take_bit_eq_mod)
  then have "and x y = 0"
    by (metis bit.conj_zero_left take_bit_and take_bit_eq_mask and.assoc and.commute and.left_idem)
  then show ?thesis by (simp add: disjunctive_add_eq_or)
qed

lemma ipToInt_quad:
  assumes "a < 256" "b < 256" "c < 256" "d < 256"
  shows "ipToInt (quad a b c d) = to_int32 (quad_val a b c d)"
proof -
  have t: "js_trunc (JDec (int n) 0) = int n" for n by (simp add: js_trunc_def sgn_if)
  have "ipToInt (quad a b c d) = to_int32 (or (or (or (int a * 16777216) (int b * 65536)) (int c * 256)) (int d))"
    by (simp add: ipToInt_def Let_def t js_or_def js_shl_def to_int32_signed signed31_or numeral_3_eq_3 numeral_2_eq_2)
  also have "or (or (or (int a * 16777216) (int b * 65536)) (int c * 256)) (int d) = quad_val a b c d"
  proof -
    have "or (int a * 16777216) (int b * 65536) = int a * 16777216 + int b * 65536"
      using assms by (intro or_disjoint_add [of _ 24]) auto
    moreover have "or (int a * 16777216 + int b * 65536) (int c * 256) = int a * 16777216 + int b * 65536 + int c * 256"
      using assms by (intro or_disjoint_add [of _ 16]) (auto simp: mod_add_eq [symmetric])
    moreover have "or (int a * 16777216 + int b * 65536 + int c * 256) (int d) = quad_val a b c d"
      unfolding quad_val_def using assms by (intro or_disjoint_add [of _ 8]) (auto simp: mod_add_eq [symmetric])
    ultimately show ?thesis by simp
  qed
  finally show ?thesis .
qed

lemma js_and_to_int32 [simp]: "js_and (to_int32 x) y = js_and x y" "js_and x (to_int32 y) = js_and x y"
  by (simp_all add: js_and_def to_int32_signed)

lemma js_split_cidr [simp]:
  "js_split CHR ''/'' (quad a b c d @ CHR ''/'' # nat_str p) = [quad a b c d, nat_str p]"
  using js_split_append [OF quad_no_slash [of a b c d], of "nat_str p"]
  by (simp add: js_split_no_sep)

lemma in_target_iff:
  assumes "a < 256" "b < 256" "c < 256" "d < 256" and "0 < p" "p \<le> 32" and "0 \<le> n" "n < 4294967296"
  shows "in_target (to_int32 n) (quad a b c d @ ''/'' @ nat_str p)
           \<longleftrightarrow> quad_val a b c d div 2 ^ (32 - p) = n div 2 ^ (32 - p)"
proof -
  have m: "js_not (js_shl 1 (32 - int p) - 1) = - (2 ^ (32 - p))"
    using js_mask(1) [of "int p"] assms(5,6) by (simp add: nat_diff_distrib)
  show ?thesis
    using masked_eq_iff [OF quad_val_range [OF assms(1-4)] assms(7,8), of "32 - p"]
    by (simp add: in_target_def Let_def m ipToInt_quad [OF assms(1-4)])
qed

lemma zero_prefix_mask:
  assumes "0 \<le> n" "n < 4294967296"
  shows "in_target (to_int32 n) ''0.0.0.0/0'' \<longleftrightarrow> n = 0"
proof -
  have q: "''0.0.0.0/0'' = quad 0 0 0 0 @ ''/'' @ nat_str 0"
    by code_simp
  have m: "js_not (js_shl 1 32 - 1) = - 1" by (simp add: js_not_def js_shl_def to_int32_def)
  have "in_target (to_int32 n) ''0.0.0.0/0'' \<longleftrightarrow> to_int32 0 = to_int32 n"
    unfolding q by (simp add: in_target_def Let_def m ipToInt_quad quad_val_def js_and_int32)
  then show ?thesis using to_int32_inject [of 0 n] assms by auto
qed

lemma js_octet:
  assumes "k + 8 \<le> 32"
  shows "js_ushr (js_and n (255 * 2 ^ k)) (int k) = n div 2 ^ k mod 256"
proof -
  have d: "drop_bit k (and n (255 * 2 ^ k)) = n div 2 ^ k mod 256"
  proof -
    have "drop_bit k (255 * 2 ^ k :: int) = 255" by (simp add: drop_bit_eq_div)
    then have "drop_bit k (and n (255 * 2 ^ k)) = and (drop_bit k n) (2 ^ 8 - 1)" by (simp add: drop_bit_and)
    also have "\<dots> = drop_bit k n mod 2 ^ 8" by (rule and_mask_mod)
    finally show ?thesis by (simp add: drop_bit_eq_div)
  qed
  have "(2::int) ^ k \<le> 2 ^ 24" using assms by (intro power_increasing) auto
  then have "255 * (2::int) ^ k < 4294967296" by simp
  moreover have "and n (255 * 2 ^ k) \<le> 255 * (2::int) ^ k" by (rule AND_upper2) simp
  moreover have "0 \<le> and n (255 * (2::int) ^ k)" by (simp add: and_nonnegative_int_iff)
  ultimately have "to_uint32 (and n (255 * 2 ^ k)) = and n (255 * 2 ^ k)" by (intro to_uint32_small) auto
  moreover have "int k mod 32 = int k" using assms by simp
  ultimately show ?thesis using d by (simp add: js_ushr_def js_and_int32 drop_bit_eq_div)
qed

lemma int32toIPv4String_addr: "int32toIPv4String n = addr_str n"
proof -
  have "js_ushr (js_and n 4278190080) 24 = n div 16777216 mod 256"
    "js_ushr (js_and n 16711680) 16 = n div 65536 mod 256"
    "js_ushr (js_and n 65280) 8 = n div 256 mod 256"
    using js_octet [of 24 n] js_octet [of 16 n] js_octet [of 8 n] by simp_all
  moreover have "int_str (x mod 256) = nat_str (nat (x mod 256))" for x by (simp add: int_str_def)
  ultimately show ?thesis
    by (simp only: int32toIPv4String_def addr_str_def quad_def js_and_255 js_join.simps)
qed

lemma uint32_octet:
  assumes "k \<le> 24"
  shows "to_uint32 n div 2 ^ k mod 2 ^ 8 = n div 2 ^ k mod 2 ^ 8"
proof -
  have "(2::int) ^ (k + 8) dvd 2 ^ 32" using assms by (intro le_imp_power_dvd) simp
  then have "n mod 2 ^ 32 mod 2 ^ (k + 8) = n mod 2 ^ (k + 8)" by (rule mod_mod_cancel)
  then show ?thesis unfolding div_pow_mod to_uint32_def by (rule arg_cong)
qed

lemma addr_str_uint32: "addr_str (to_uint32 n) = addr_str n"
proof -
  have e: "(2::int) ^ 0 = 1" "(2::int) ^ 8 = 256" "(2::int) ^ 16 = 65536" "(2::int) ^ 24 = 16777216"
    by simp_all
  have "to_uint32 n div 1 mod 256 = n div 1 mod 256" "to_uint32 n div 256 mod 256 = n div 256 mod 256"
    "to_uint32 n div 65536 mod 256 = n div 65536 mod 256"
    "to_uint32 n div 16777216 mod 256 = n div 16777216 mod 256"
    by (rule uint32_octet [of 0 n, unfolded e] uint32_octet [of 8 n, unfolded e]
        uint32_octet [of 16 n, unfolded e] uint32_octet [of 24 n, unfolded e], simp)+
  then show ?thesis by (simp only: addr_str_def div_by_1)
qed

lemma addr_str_int32 [simp]: "addr_str (to_int32 x + y) = addr_str (x + y)"
  by (metis addr_str_uint32 to_uint32_int32_add)

lemma addr_str_int32_0 [simp]: "addr_str (to_int32 x) = addr_str x"
  using addr_str_int32 [of x 0] by simp

lemma IPv4gen_quad:
  assumes "a < 256" "b < 256" "c < 256" "d < 256" and "0 < p" "p \<le> 32"
  defines "net \<equiv> net_of p (quad_val a b c d)"
  shows "IPv4gen (Some (quad a b c d @ ''/'' @ nat_str p)) used rnd =
     \<lparr>ipAssignmentPools = [\<lparr>ipRangeStart = addr_str (net + 1), ipRangeEnd = addr_str (net + 2 ^ (32 - p) - 2)\<rparr>],
      plan_routes = [\<lparr>rt_target = addr_str net @ ''/'' @ nat_str p, rt_via = None\<rparr>], v4_zt = True\<rparr>"
proof -
  have m: "js_ushr (js_shl 1 (32 - int p) - 1) 0 = 2 ^ (32 - p) - 1"
    "js_not (2 ^ (32 - p) - 1) = - (2 ^ (32 - p))"
    using js_mask(2,3) [of "int p"] assms(5,6) by (simp_all add: nat_diff_distrib)
  have s: "js_shl (int b) 16 = int b * 65536" "js_shl (int c) 8 = int c * 256"
    using assms by (subst js_shl_nonneg; simp)+
  have n: "js_and (js_shl (int a) 24 + int b * 65536 + int c * 256 + int d) (- (2 ^ (32 - p))) = to_int32 net"
  proof -
    have "js_and (to_int32 (int a * 16777216) + int b * 65536 + int c * 256 + int d) y
            = js_and (quad_val a b c d) y" for y
      unfolding quad_val_def add.assoc
      by (metis js_and_to_int32(1) to_uint32_int32_add to_int32_def to_uint32_def)
    then have "js_and (js_shl (int a) 24 + int b * 65536 + int c * 256 + int d) (- (2 ^ (32 - p)))
        = js_and (quad_val a b c d) (- (2 ^ (32 - p)))" by (simp add: js_shl_def)
    also have "\<dots> = to_int32 net" by (simp only: js_and_mask net_def net_of_def)
    finally show ?thesis .
  qed
  have w: "addr_str (to_int32 net + 2 ^ (32 - p) - 2) = addr_str (net + 2 ^ (32 - p) - 2)"
    using addr_str_int32 [of net "2 ^ (32 - p) - 2"] by (simp add: algebra_simps)
  show ?thesis
    by (simp add: IPv4gen_def Let_def m s n w opt_text_def int32toIPv4String_addr numeral_3_eq_3 numeral_2_eq_2)
qed

lemma net_of_range:
  assumes "0 \<le> n" "n < 4294967296" "p \<le> 32"
  shows "0 \<le> net_of p n" "net_of p n + 2 ^ (32 - p) \<le> 4294967296"
    "net_of p n \<le> m \<Longrightarrow> m < net_of p n + 2 ^ (32 - p) \<Longrightarrow> m div 2 ^ (32 - p) = n div 2 ^ (32 - p)"
proof -
  let ?k = "(2::int) ^ (32 - p)"
  have e: "net_of p n = n div ?k * ?k" by (simp add: net_of_def minus_mod_eq_div_mult)
  show "0 \<le> net_of p n" using assms(1) by (simp add: e pos_imp_zdiv_nonneg_iff)
  have "(2::int) ^ 32 = ?k * 2 ^ p" using assms(3) by (simp flip: power_add)
  then have k: "4294967296 = 2 ^ p * ?k" by (simp add: mult.commute)
  have "n div ?k < 2 ^ p"
  proof (rule ccontr)
    assume "\<not> n div ?k < 2 ^ p"
    then have "2 ^ p * ?k \<le> n div ?k * ?k" by (intro mult_right_mono) auto
    also have "\<dots> \<le> n" using e net_of_def [of p n] by (metis add_increasing2 diff_add_cancel minus_mod_eq_div_mult order_refl pos_mod_sign zero_less_numeral zero_less_power)
    finally show False using assms(2) k by simp
  qed
  then have "(n div ?k + 1) * ?k \<le> 2 ^ p * ?k" by (intro mult_right_mono) auto
  then show "net_of p n + ?k \<le> 4294967296" using k by (simp add: e algebra_simps)
  show "m div ?k = n div ?k" if "net_of p n \<le> m" "m < net_of p n + ?k"
  proof -
    have "m = n div ?k * ?k + (m - net_of p n)" by (simp add: e)
    moreover have "0 \<le> m - net_of p n" "m - net_of p n < ?k" using that by auto
    ultimately show ?thesis by (metis div_mult_self_is_m div_pos_pos_trivial div_mult_self3 add.commute add_0 zero_less_numeral zero_less_power less_irrefl)
  qed
qed

lemma ip2long_addr_str:
  assumes "0 \<le> n" "n < 4294967296"
  shows "ip2long (addr_str n) = n"
  using ip2long_long2ip [OF assms] by (simp add: long2ip_addr)

lemma addr_str_obtain:
  assumes "0 \<le> n" "n < 4294967296"
  obtains a b c d where "a < 256" "b < 256" "c < 256" "d < 256" "n = quad_val a b c d" "addr_str n = quad a b c d"
  using assms by (metis addr_obtain addr_str_quad_val)

lemma pool_inside_route:
  assumes "a < 256" "b < 256" "c < 256" "d < 256" and "0 < p" "p \<le> 30"
  assumes "getNextIP (ipAssignmentPools (IPv4gen (Some (quad a b c d @ ''/'' @ nat_str p)) used rnd)) xs = Some ip"
  shows "isIPInSubnet ip (Some (map (\<lambda>r. Some (rt_target r))
            (plan_routes (IPv4gen (Some (quad a b c d @ ''/'' @ nat_str p)) used rnd))))"
proof -
  define net where "net = net_of p (quad_val a b c d)"
  let ?m = "(2::int) ^ (32 - p)"
  have p: "p \<le> 32" using assms(6) by simp
  note r = quad_val_range [OF assms(1-4)]
  have b: "0 \<le> net" "net + ?m \<le> 4294967296" unfolding net_def using net_of_range [OF r p] by auto
  have m4: "4 \<le> ?m" using assms(6) power_increasing [of 2 "32 - p" "2::int"] by simp
  have gen: "IPv4gen (Some (quad a b c d @ ''/'' @ nat_str p)) used rnd =
     \<lparr>ipAssignmentPools = [\<lparr>ipRangeStart = addr_str (net + 1), ipRangeEnd = addr_str (net + ?m - 2)\<rparr>],
      plan_routes = [\<lparr>rt_target = addr_str net @ ''/'' @ nat_str p, rt_via = None\<rparr>], v4_zt = True\<rparr>"
    unfolding net_def using assms(5) by (intro IPv4gen_quad [OF assms(1-4) _ p]) auto
  have ends: "ip2long (addr_str (net + 1)) = net + 1" "ip2long (addr_str (net + ?m - 2)) = net + ?m - 2"
    using b m4 by (intro ip2long_addr_str; simp)+
  obtain n where n: "net + 1 \<le> n" "n \<le> net + ?m - 2" "ip = addr_str n"
    using getNextIP_Some [OF assms(7)] unfolding gen by (auto simp: ends long2ip_addr)
  obtain a' b' c' d' where q: "a' < 256" "b' < 256" "c' < 256" "d' < 256" "net = quad_val a' b' c' d'"
    "addr_str net = quad a' b' c' d'" by (rule addr_str_obtain [of net]) (use b m4 in auto)
  obtain a2 b2 c2 d2 where i: "a2 < 256" "b2 < 256" "c2 < 256" "d2 < 256" "n = quad_val a2 b2 c2 d2"
    "addr_str n = quad a2 b2 c2 d2" by (rule addr_str_obtain [of n]) (use b m4 n in auto)
  have "n div ?m = quad_val a b c d div ?m" "net div ?m = quad_val a b c d div ?m"
    using net_of_range(3) [OF r p] n b m4 unfolding net_def by auto
  then have "in_target (to_int32 n) (quad a' b' c' d' @ ''/'' @ nat_str p)"
    using in_target_iff [OF q(1-4) assms(5) p, of n] i(5) quad_val_range [OF i(1-4)] q(5) by simp
  moreover have "ipToInt ip = to_int32 n" unfolding n(3) i(6) using i(5) ipToInt_quad [OF i(1-4)] by simp
  ultimately show ?thesis unfolding gen by (simp add: isIPInSubnet_def q(6))
qed

section \<open>Properties\<close>

text \<open>Private addresses: on a dotted quad the test holds exactly for 10/8, 172.16/12 and 192.168/16,
  although the comparison works on signed 32-bit numbers.\<close>

theorem private_ip_ranges:
  assumes "a < 256" "b < 256" "c < 256" "d < 256"
  shows "isPrivateIP (quad a b c d) \<longleftrightarrow>
           a = 10 \<or> (a = 172 \<and> 16 \<le> b \<and> b \<le> 31) \<or> (a = 192 \<and> b = 168)"
  by (rule isPrivateIP_quad [OF assms])

theorem private_ip_ranges_witness: "isPrivateIP (quad 172 20 0 1) \<and> \<not> isPrivateIP (quad 172 32 0 1)"
  using private_ip_ranges [of 172 20 0 1] private_ip_ranges [of 172 32 0 1] by simp

text \<open>Address round trip: every 32-bit number is printed as a dotted quad that reads back as that
  number, and every dotted quad is printed back from the number it reads as.\<close>

theorem address_roundtrip:
  assumes "0 \<le> n" "n < 2 ^ 32"
  shows "ip2long (long2ip n) = n
    \<and> (\<exists>a b c d. a < 256 \<and> b < 256 \<and> c < 256 \<and> d < 256 \<and> long2ip n = quad a b c d
         \<and> long2ip (ip2long (quad a b c d)) = quad a b c d)"
proof -
  have n: "0 \<le> n" "n < 4294967296" using assms by simp_all
  obtain a b c d where q: "a < 256" "b < 256" "c < 256" "d < 256" "n = quad_val a b c d"
    using n by (rule addr_obtain)
  then have "long2ip n = quad a b c d" by (simp add: long2ip_addr addr_str_quad_val)
  then show ?thesis using ip2long_long2ip [OF n] q by (metis ip2long_quad)
qed

theorem address_roundtrip_witness: "ip2long (long2ip 3232235777) = 3232235777"
  using address_roundtrip [of 3232235777] by simp

text \<open>Next free address: the address handed out lies in one of the pools and is not in use, and
  when none is handed out every address of every pool is in use.\<close>

theorem next_ip_is_free:
  "case getNextIP pools used of
     Some ip \<Rightarrow> ip \<notin> set used \<and> (\<exists>r\<in>set pools. \<exists>n. ip2long (ipRangeStart r) \<le> n \<and> n \<le> ip2long (ipRangeEnd r)
                  \<and> ip = long2ip n)
   | None \<Rightarrow> \<forall>r\<in>set pools. \<forall>n. ip2long (ipRangeStart r) \<le> n \<and> n \<le> ip2long (ipRangeEnd r) \<longrightarrow> long2ip n \<in> set used"
proof (cases "getNextIP pools used")
  case None
  show ?thesis unfolding None option.case using None unfolding getNextIP_None .
next
  case (Some ip)
  then show ?thesis using getNextIP_Some by fastforce
qed

theorem next_ip_is_free_witness:
  "getNextIP one_address_pool [''10.0.0.9''] = None \<and> long2ip 167772169 \<in> set [''10.0.0.9'']"
proof -
  have "getNextIP one_address_pool [''10.0.0.9''] = None" "ip2long ''10.0.0.9'' = 167772169" by code_simp+
  then show ?thesis using next_ip_is_free [of one_address_pool "[''10.0.0.9'']"] by simp
qed

lemma ipToInt_addr_str:
  assumes "0 \<le> n" "n < 4294967296"
  shows "ipToInt (addr_str n) = to_int32 n"
proof -
  obtain a b c d where "a < 256" "b < 256" "c < 256" "d < 256" "n = quad_val a b c d"
    using assms by (rule addr_obtain)
  then show ?thesis by (simp add: addr_str_quad_val ipToInt_quad)
qed

lemma in_target_cidr:
  assumes "0 \<le> n" "n < 4294967296" "0 \<le> m" "m < 4294967296" "0 < p" "p \<le> 32"
  shows "in_target (to_int32 n) (cidr (m, p)) \<longleftrightarrow> m div 2 ^ (32 - p) = n div 2 ^ (32 - p)"
proof -
  obtain a b c d where q: "a < 256" "b < 256" "c < 256" "d < 256" "m = quad_val a b c d"
    using assms(3,4) by (rule addr_obtain)
  then show ?thesis
    using in_target_iff [OF q(1-4) assms(5,6,1,2)] by (simp add: cidr_def addr_str_quad_val)
qed

text \<open>Subnet test: for prefix lengths 1 to 32 an address is reported inside exactly when it agrees
  with some target on the target's prefix.\<close>

theorem subnet_test_is_prefix_match:
  assumes "0 \<le> n" "n < 2 ^ 32" "\<forall>t\<in>set targets. 0 \<le> fst t \<and> fst t < 2 ^ 32 \<and> 0 < snd t \<and> snd t \<le> 32"
  shows "isIPInSubnet (addr_str n) (Some (map (\<lambda>t. Some (cidr t)) targets)) \<longleftrightarrow>
           (\<exists>t\<in>set targets. fst t div 2 ^ (32 - snd t) = n div 2 ^ (32 - snd t))"
proof -
  have n: "0 \<le> n" "n < 4294967296" using assms by simp_all
  have "in_target (to_int32 n) (cidr t) \<longleftrightarrow> fst t div 2 ^ (32 - snd t) = n div 2 ^ (32 - snd t)"
    if "t \<in> set targets" for t
    using in_target_cidr [OF n, of "fst t" "snd t"] assms(3) that by simp
  moreover have "cidr t \<noteq> []" for t by (simp add: cidr_def)
  ultimately show ?thesis
    by (auto simp: isIPInSubnet_def list_all_iff list_ex_iff ipToInt_addr_str [OF n])
qed

theorem subnet_test_is_prefix_match_witness:
  "isIPInSubnet (addr_str 167837955) (Some (map (\<lambda>t. Some (cidr t)) [(167837696, 16)]))"
  using subnet_test_is_prefix_match [of 167837955 "[(167837696, 16)]"] by simp

text \<open>A default route covers nothing: the mask of a zero prefix is computed with a shift by 32,
  which JavaScript takes modulo 32, so 0.0.0.0/0 matches the address 0.0.0.0 alone.\<close>

theorem default_route_matches_only_zero:
  assumes "0 \<le> n" "n < 2 ^ 32"
  shows "isIPInSubnet (addr_str n) (Some [Some ''0.0.0.0/0'']) \<longleftrightarrow> n = 0"
proof -
  have n: "0 \<le> n" "n < 4294967296" using assms by simp_all
  show ?thesis using zero_prefix_mask [OF n] by (simp add: isIPInSubnet_def ipToInt_addr_str [OF n])
qed

theorem default_route_matches_only_zero_witness:
  "\<not> isIPInSubnet (addr_str 134744072) (Some [Some ''0.0.0.0/0''])"
  using default_route_matches_only_zero [of 134744072] by simp

text \<open>The subnet offered to a new network is one of the configured options and no option is used
  by fewer of the existing networks.\<close>

theorem offered_subnet_is_least_used:
  "generateCidr used None \<in> set cidrOptions
   \<and> Min ((\<lambda>c. count_list (concat used) c) ` set cidrOptions) = count_list (concat used) (generateCidr used None)"
  using generateCidr_spec [of used] by (auto intro!: Min_eqI)

text \<open>Pool inside route: every address that is handed out from the pool generated for a subnet lies
  in the route generated with it.\<close>

theorem generated_pool_inside_route:
  assumes "a < 256" "b < 256" "c < 256" "d < 256" and "0 < p" "p \<le> 30"
  assumes "getNextIP (ipAssignmentPools (IPv4gen (Some (quad a b c d @ ''/'' @ nat_str p)) used rnd)) xs = Some ip"
  shows "isIPInSubnet ip (Some (map (\<lambda>r. Some (rt_target r))
            (plan_routes (IPv4gen (Some (quad a b c d @ ''/'' @ nat_str p)) used rnd))))"
  by (rule pool_inside_route [OF assms])

theorem generated_pool_inside_route_witness:
  "isIPInSubnet ''10.1.2.1'' (Some (map (\<lambda>r. Some (rt_target r))
            (plan_routes (IPv4gen (Some (quad 10 1 2 0 @ ''/'' @ nat_str 24)) [] None))))"
proof -
  have "getNextIP (ipAssignmentPools (IPv4gen (Some (quad 10 1 2 0 @ ''/'' @ nat_str 24)) [] None)) [] = Some ''10.1.2.1''"
    by code_simp
  from generated_pool_inside_route [OF _ _ _ _ _ _ this] show ?thesis by simp
qed

text \<open>The pool-to-network conversion compares signed 32-bit numbers: a pool that starts below
  128.0.0.0 and ends above it is taken for an inverted one and dropped.\<close>

lemma straddling_pool_is_dropped:
  "getNetworkClassCIDR [\<lparr>ipRangeStart = ''100.0.0.1'', ipRangeEnd = ''200.0.0.254''\<rparr>] = []
   \<and> getNetworkClassCIDR [\<lparr>ipRangeStart = ''10.0.0.1'', ipRangeEnd = ''10.0.0.254''\<rparr>] = [\<lparr>rt_target = ''10.0.0.0/24'', rt_via = None\<rparr>]"
  by code_simp

end
