(* ===== verification/Outbound_Guard.thy ===== *)
theory Outbound_Guard
  imports Ip_Tools
begin

text \<open>
  Outbound requests to addresses an organisation administrator typed in: the guard against requests to
  internal targets (\<^verbatim>\<open>utils/ssrfGuard.ts\<close>) and the delivery of webhooks (\<^verbatim>\<open>utils/webhook.ts\<close>).

  Parameters (\<open>net_lib\<close>): the URL parser, \<^verbatim>\<open>isIP\<close> (4, 6 or 0), the tests of the ip-address package on
  texts (\<open>in4\<close> and \<open>in6\<close>: membership in a CIDR range, \<open>is4\<close> and \<open>to4\<close>: an IPv4 address written in IPv6
  form) and the DNS lookup (\<open>None\<close> when it fails). What the properties rely on is stated as \<open>lib_ok\<close>.
\<close>

section \<open>Blocked addresses\<close>

definition BLOCKED_IPV4_CIDRS :: "string list" where
  "BLOCKED_IPV4_CIDRS = [''0.0.0.0/8'', ''10.0.0.0/8'', ''100.64.0.0/10'', ''127.0.0.0/8'', ''169.254.0.0/16'',
     ''172.16.0.0/12'', ''192.0.0.0/24'', ''192.0.2.0/24'', ''192.88.99.0/24'', ''192.168.0.0/16'', ''198.18.0.0/15'',
     ''198.51.100.0/24'', ''203.0.113.0/24'', ''224.0.0.0/4'', ''240.0.0.0/4'']"

definition BLOCKED_IPV6_CIDRS :: "string list" where
  "BLOCKED_IPV6_CIDRS = [''::/128'', ''::1/128'', ''64:ff9b::/96'', ''100::/64'', ''2001:db8::/32'', ''2002::/16'',
     ''fc00::/7'', ''fe80::/10'', ''ff00::/8'']"

definition LOCAL_HOSTNAMES :: "string list" where
  "LOCAL_HOSTNAMES = [''localhost'', ''localhost.localdomain'', ''ip6-localhost'']"

record url =
  url_protocol :: string
  url_hostname :: string
  url_host :: string
  url_port :: string
  url_path :: string

record net_lib =
  parse_url :: "string \<Rightarrow> url option"
  is_ip :: "string \<Rightarrow> nat"
  in4 :: "string \<Rightarrow> string \<Rightarrow> bool"
  in6 :: "string \<Rightarrow> string \<Rightarrow> bool"
  is4 :: "string \<Rightarrow> bool"
  to4 :: "string \<Rightarrow> string"
  lookup_all :: "string \<Rightarrow> (string \<times> nat) list option"

datatype blocked_url = NotAUrl | NotHttps | NoHostname | LocalName | PrivateAddress | ResolvesPrivate | LookupFailed

text \<open>The recursion on an IPv4 address in IPv6 form is bounded by fuel; \<open>blocked_check_ends\<close> shows that two
  levels are enough when \<open>to4\<close> gives an IPv4 address.\<close>

fun blocked_ip :: "net_lib \<Rightarrow> nat \<Rightarrow> string \<Rightarrow> bool" where
  "blocked_ip lib 0 ip = True"
| "blocked_ip lib (Suc n) ip =
     (if is_ip lib ip = 4 then list_ex (in4 lib ip) BLOCKED_IPV4_CIDRS
      else if is_ip lib ip = 6
      then if is4 lib ip then blocked_ip lib n (to4 lib ip) else list_ex (in6 lib ip) BLOCKED_IPV6_CIDRS
      else True)"

definition isBlockedIpAddress :: "net_lib \<Rightarrow> string \<Rightarrow> bool" where
  "isBlockedIpAddress lib ip = blocked_ip lib 2 ip"

section \<open>URLs and targets\<close>

definition stripBrackets :: "string \<Rightarrow> string" where
  "stripBrackets s =
     (let t = (if s \<noteq> [] \<and> hd s = CHR ''['' then tl s else s)
      in if t \<noteq> [] \<and> last t = CHR '']'' then butlast t else t)"

definition ends_with :: "string \<Rightarrow> string \<Rightarrow> bool" where
  "ends_with suf s \<longleftrightarrow> length suf \<le> length s \<and> drop (length s - length suf) s = suf"

definition local_name :: "string \<Rightarrow> bool" where
  "local_name hostname \<longleftrightarrow> to_lower hostname \<in> set LOCAL_HOSTNAMES \<or> ends_with ''.localhost'' (to_lower hostname)"

definition assertPublicHttpsUrl :: "net_lib \<Rightarrow> string \<Rightarrow> blocked_url + url" where
  "assertPublicHttpsUrl lib rawUrl =
     rbind (of_option NotAUrl (parse_url lib rawUrl)) (\<lambda>u.
     rbind (ensure (url_protocol u = ''https:'') NotHttps) (\<lambda>_.
     let hostname = stripBrackets (url_hostname u)
     in rbind (ensure (hostname \<noteq> []) NoHostname) (\<lambda>_.
        rbind (ensure (\<not> local_name hostname) LocalName) (\<lambda>_.
        rbind (ensure (\<not> (is_ip lib hostname \<noteq> 0 \<and> isBlockedIpAddress lib hostname)) PrivateAddress) (\<lambda>_.
        Inr u)))))"

record pinned_target =
  pt_url :: url
  pt_hostname :: string
  pt_address :: string
  pt_family :: nat

definition resolvePublicTarget :: "net_lib \<Rightarrow> string \<Rightarrow> blocked_url + pinned_target" where
  "resolvePublicTarget lib rawUrl =
     rbind (assertPublicHttpsUrl lib rawUrl) (\<lambda>u.
     let hostname = stripBrackets (url_hostname u)
     in if is_ip lib hostname \<noteq> 0
        then Inr \<lparr>pt_url = u, pt_hostname = hostname, pt_address = hostname, pt_family = is_ip lib hostname\<rparr>
        else rbind (of_option LookupFailed (lookup_all lib hostname)) (\<lambda>resolved.
             rbind (of_option ResolvesPrivate (find (\<lambda>e. \<not> isBlockedIpAddress lib (fst e)) resolved)) (\<lambda>entry.
             Inr \<lparr>pt_url = u, pt_hostname = hostname, pt_address = fst entry, pt_family = snd entry\<rparr>)))"

section \<open>Delivery\<close>

record https_request =
  rq_host :: string
  rq_family :: nat
  rq_port :: string
  rq_path :: string
  rq_servername :: "string option"
  rq_hostHeader :: string

definition deliver :: "pinned_target \<Rightarrow> https_request" where
  "deliver t =
     \<lparr>rq_host = pt_address t, rq_family = pt_family t,
      rq_port = (if url_port (pt_url t) = [] then ''443'' else url_port (pt_url t)),
      rq_path = url_path (pt_url t),
      rq_servername = (if pt_address t = pt_hostname t then None else Some (pt_hostname t)),
      rq_hostHeader = url_host (pt_url t)\<rparr>"

record webhook_row =
  wh_organizationId :: string
  wh_url :: string
  wh_eventTypes :: "string list"

text \<open>The requests a hook causes, one per webhook of the organisation that subscribed to the event and
  whose target is allowed; every error is logged and swallowed.\<close>

definition sendWebhook :: "net_lib \<Rightarrow> webhook_row list \<Rightarrow> string \<Rightarrow> string \<Rightarrow> https_request list" where
  "sendWebhook lib webhooks organizationId hookType =
     (if organizationId = [] then []
      else List.map_filter (\<lambda>w. case resolvePublicTarget lib (wh_url w) of Inl _ \<Rightarrow> None | Inr t \<Rightarrow> Some (deliver t))
             (filter (\<lambda>w. wh_organizationId w = organizationId \<and> hookType \<in> set (wh_eventTypes w)) webhooks))"

section \<open>What the packages promise\<close>

definition lib_ok :: "net_lib \<Rightarrow> bool" where
  "lib_ok lib \<longleftrightarrow>
     (\<forall>n. 0 \<le> n \<and> n < 2 ^ 32 \<longrightarrow> is_ip lib (addr_str n) = 4)
     \<and> (\<forall>n net len. 0 \<le> n \<and> n < 2 ^ 32 \<and> 0 \<le> net \<and> net < 2 ^ 32 \<and> 0 < len \<and> len \<le> 32 \<longrightarrow>
          in4 lib (addr_str n) (cidr (net, len)) = (net div 2 ^ (32 - len) = n div 2 ^ (32 - len)))
     \<and> (\<forall>s. is_ip lib s = 6 \<and> is4 lib s \<longrightarrow> is_ip lib (to4 lib s) = 4)"

text \<open>The ranges of the table as pairs of a network and a prefix length.\<close>

definition blocked_nets :: "(int \<times> nat) list" where
  "blocked_nets = [(quad_val 0 0 0 0, 8), (quad_val 10 0 0 0, 8), (quad_val 100 64 0 0, 10), (quad_val 127 0 0 0, 8),
     (quad_val 169 254 0 0, 16), (quad_val 172 16 0 0, 12), (quad_val 192 0 0 0, 24), (quad_val 192 0 2 0, 24),
     (quad_val 192 88 99 0, 24), (quad_val 192 168 0 0, 16), (quad_val 198 18 0 0, 15), (quad_val 198 51 100 0, 24),
     (quad_val 203 0 113 0, 24), (quad_val 224 0 0 0, 4), (quad_val 240 0 0 0, 4)]"

definition blocked_quad :: "nat \<Rightarrow> nat \<Rightarrow> nat \<Rightarrow> bool" where
  "blocked_quad a b c \<longleftrightarrow> a \<in> {0, 10, 127} \<or> (a = 100 \<and> 64 \<le> b \<and> b < 128) \<or> (a = 169 \<and> b = 254)
     \<or> (a = 172 \<and> 16 \<le> b \<and> b < 32) \<or> (a = 192 \<and> b = 0 \<and> c \<in> {0, 2}) \<or> (a = 192 \<and> b = 88 \<and> c = 99)
     \<or> (a = 192 \<and> b = 168) \<or> (a = 198 \<and> b \<in> {18, 19}) \<or> (a = 198 \<and> b = 51 \<and> c = 100)
     \<or> (a = 203 \<and> b = 0 \<and> c = 113) \<or> 224 \<le> a"

definition demo_net :: net_lib where
  "demo_net = \<lparr>parse_url = (\<lambda>s. Some \<lparr>url_protocol = ''https:'', url_hostname = s, url_host = s, url_port = [], url_path = ''/''\<rparr>),
     is_ip = (\<lambda>s. if s = addr_str (ip2long s) then 4 else 0),
     in4 = (\<lambda>ip c. isIPInSubnet ip (Some [Some c])), in6 = (\<lambda>_ _. False), is4 = (\<lambda>_. False), to4 = id,
     lookup_all = (\<lambda>h. if h = ''hooks.example'' then Some [(''10.0.0.7'', 4), (''93.184.216.34'', 4)] else None)\<rparr>"

section \<open>Blocked ranges\<close>

lemma blocked_nets_cidr: "BLOCKED_IPV4_CIDRS = map cidr blocked_nets"
  by code_simp

text \<open>The leading bits of a dotted quad.\<close>

lemma quad_prefix:
  assumes "a < 256" "b < 256" "c < 256" "d < 256"
  shows "quad_val a b c d div 268435456 = int a div 16"
    "quad_val a b c d div 16777216 = int a"
    "quad_val a b c d div 4194304 = int a * 4 + int b div 64"
    "quad_val a b c d div 1048576 = int a * 16 + int b div 16"
    "quad_val a b c d div 131072 = int a * 128 + int b div 2"
    "quad_val a b c d div 65536 = int a * 256 + int b"
    "quad_val a b c d div 256 = (int a * 256 + int b) * 256 + int c"
  using assms by (simp_all add: quad_val_horner)

text \<open>Each range of the table, in terms of the octets.\<close>

lemma base_unique:
  assumes "0 \<le> r" "r < k" "0 \<le> r'" "r' < (k::int)"
  shows "q' * k + r' = q * k + r \<longleftrightarrow> q = q' \<and> r = r'"
proof
  assume e: "q' * k + r' = q * k + r"
  have "(q' * k + r') div k = q'" "(q * k + r) div k = q" using assms by simp_all
  with e have "q = q'" by simp
  with e show "q = q' \<and> r = r'" by simp
qed simp

lemma octets2: "b < 256 \<Longrightarrow> b' < 256 \<Longrightarrow> int a' * 256 + int b' = int a * 256 + int b \<longleftrightarrow> a = a' \<and> b = b'"
  by (subst base_unique) auto

lemma octets3:
  "b < 256 \<Longrightarrow> b' < 256 \<Longrightarrow> c < 256 \<Longrightarrow> c' < 256 \<Longrightarrow>
   (int a' * 256 + int b') * 256 + int c' = (int a * 256 + int b) * 256 + int c \<longleftrightarrow> a = a' \<and> b = b' \<and> c = c'"
  by (subst base_unique) (auto simp: octets2)

lemma range_octets:
  assumes "b < 256"
  shows "14 = int a div 16 \<longleftrightarrow> 224 \<le> a \<and> a < 240" "15 = int a div 16 \<longleftrightarrow> 240 \<le> a \<and> a < 256"
    "401 = int a * 4 + int b div 64 \<longleftrightarrow> a = 100 \<and> 64 \<le> b \<and> b < 128"
    "2753 = int a * 16 + int b div 16 \<longleftrightarrow> a = 172 \<and> 16 \<le> b \<and> b < 32"
    "25353 = int a * 128 + int b div 2 \<longleftrightarrow> a = 198 \<and> (b = 18 \<or> b = 19)"
proof -
  show "14 = int a div 16 \<longleftrightarrow> 224 \<le> a \<and> a < 240" "15 = int a div 16 \<longleftrightarrow> 240 \<le> a \<and> a < 256" by linarith+
  have "int b div 64 < 4" "int b div 16 < 16" "int b div 2 < 128" using assms by linarith+
  moreover have "int b div 64 = 1 \<longleftrightarrow> 64 \<le> b \<and> b < 128" "int b div 16 = 1 \<longleftrightarrow> 16 \<le> b \<and> b < 32"
    "int b div 2 = 9 \<longleftrightarrow> b = 18 \<or> b = 19" by linarith+
  ultimately show "401 = int a * 4 + int b div 64 \<longleftrightarrow> a = 100 \<and> 64 \<le> b \<and> b < 128"
    "2753 = int a * 16 + int b div 16 \<longleftrightarrow> a = 172 \<and> 16 \<le> b \<and> b < 32"
    "25353 = int a * 128 + int b div 2 \<longleftrightarrow> a = 198 \<and> (b = 18 \<or> b = 19)"
    using base_unique[of "int b div 64" 4 1 100 "int a"] base_unique[of "int b div 16" 16 1 172 "int a"]
      base_unique[of "int b div 2" 128 9 198 "int a"] by simp_all
qed

lemmas range_octets2 = octets2[where a' = 169 and b' = 254, simplified] octets2[where a' = 192 and b' = 168, simplified]

lemmas range_octets3 = octets3[where a' = 192 and b' = 0 and c' = 0, simplified] octets3[where a' = 192 and b' = 0 and c' = 2, simplified]
  octets3[where a' = 192 and b' = 88 and c' = 99, simplified] octets3[where a' = 198 and b' = 51 and c' = 100, simplified]
  octets3[where a' = 203 and b' = 0 and c' = 113, simplified]

lemma blocked_nets_wf: "\<forall>t\<in>set blocked_nets. 0 \<le> fst t \<and> fst t < 2 ^ 32 \<and> 0 < snd t \<and> snd t \<le> 32"
  by code_simp

lemma blocked_prefixes:
  assumes "a < 256" "b < 256" "c < 256" "d < 256"
  shows "list_ex (\<lambda>t. fst t div 2 ^ (32 - snd t) = quad_val a b c d div 2 ^ (32 - snd t)) blocked_nets \<longleftrightarrow> blocked_quad a b c"
proof -
  have "quad_val 0 0 0 0 = 0" by (simp add: quad_val_horner)
  moreover have "224 \<le> a \<and> a < 240 \<or> 240 \<le> a \<longleftrightarrow> 224 \<le> a" by linarith
  ultimately show ?thesis
    using assms by (simp add: blocked_nets_def quad_prefix range_octets range_octets2 range_octets3 blocked_quad_def conj_disj_distribL) argo
qed

lemma blocked_quad_iff:
  assumes "lib_ok lib" "a < 256" "b < 256" "c < 256" "d < 256"
  shows "isBlockedIpAddress lib (quad a b c d) \<longleftrightarrow> blocked_quad a b c"
proof -
  let ?n = "quad_val a b c d"
  have n: "0 \<le> ?n" "?n < 2 ^ 32" using quad_val_range[OF assms(2-5)] by simp_all
  have q: "quad a b c d = addr_str ?n" using assms by (simp add: addr_str_quad_val)
  have "in4 lib (addr_str ?n) (cidr t) = (fst t div 2 ^ (32 - snd t) = ?n div 2 ^ (32 - snd t))" if "t \<in> set blocked_nets" for t
    using assms(1) n blocked_nets_wf that unfolding lib_ok_def by (metis prod.collapse)
  then have "list_ex (in4 lib (addr_str ?n)) BLOCKED_IPV4_CIDRS \<longleftrightarrow> blocked_quad a b c"
    unfolding blocked_nets_cidr blocked_prefixes[OF assms(2-5), symmetric] by (simp add: list_ex_iff)
  moreover have "is_ip lib (addr_str ?n) = 4" using assms(1) n by (simp add: lib_ok_def)
  ultimately show ?thesis by (simp add: isBlockedIpAddress_def q numeral_2_eq_2)
qed

text \<open>What is blocked: on a dotted quad the guard refuses exactly the ranges that are not publicly routable
  (loopback, private, link local with the metadata address, carrier grade NAT, documentation, benchmarking,
  multicast and reserved).\<close>

theorem blocked_v4_ranges:
  assumes "lib_ok lib" "a < 256" "b < 256" "c < 256" "d < 256"
  shows "isBlockedIpAddress lib (quad a b c d) \<longleftrightarrow> blocked_quad a b c"
  using assms by (rule blocked_quad_iff)

lemma demo_net_ok: "lib_ok demo_net"
proof -
  have "is_ip demo_net (addr_str n) = 4" if "0 \<le> n" "n < 2 ^ 32" for n
    using that ip2long_addr_str[of n] by (simp add: demo_net_def)
  moreover have "in4 demo_net (addr_str n) (cidr (net, len)) = (net div 2 ^ (32 - len) = n div 2 ^ (32 - len))"
    if "0 \<le> n" "n < 2 ^ 32" "0 \<le> net" "net < 2 ^ 32" "0 < len" "len \<le> 32" for n net len
    using that in_target_cidr[of n net len] by (simp add: demo_net_def isIPInSubnet_def ipToInt_addr_str cidr_def)
  ultimately show ?thesis by (simp add: lib_ok_def demo_net_def)
qed

theorem blocked_v4_ranges_witness:
  "isBlockedIpAddress demo_net (quad 169 254 169 254) \<and> \<not> isBlockedIpAddress demo_net (quad 93 184 216 34)"
  using blocked_v4_ranges[OF demo_net_ok, of 169 254 169 254] blocked_v4_ranges[OF demo_net_ok, of 93 184 216 34]
  by (simp add: blocked_quad_def)

text \<open>The address check ends: the recursion for an IPv4 address in IPv6 form is at most one level deep, so two
  levels of fuel already give the result that any larger amount gives.\<close>

theorem blocked_check_ends:
  assumes "lib_ok lib" "2 \<le> fuel"
  shows "blocked_ip lib fuel ip = isBlockedIpAddress lib ip"
proof -
  obtain n where "fuel = Suc (Suc n)" using assms(2) by (metis add_2_eq_Suc le_Suc_ex)
  then show ?thesis using assms(1) by (simp add: isBlockedIpAddress_def lib_ok_def numeral_2_eq_2)
qed

theorem blocked_check_ends_witness: "blocked_ip demo_net 7 ''::1'' = isBlockedIpAddress demo_net ''::1''"
  using blocked_check_ends[OF demo_net_ok, of 7 "''::1''"] by simp

section \<open>Where a webhook connects\<close>

lemma resolve_target:
  assumes "resolvePublicTarget lib raw = Inr t"
  shows "parse_url lib raw = Some (pt_url t) \<and> url_protocol (pt_url t) = ''https:''
    \<and> pt_hostname t = stripBrackets (url_hostname (pt_url t)) \<and> \<not> local_name (pt_hostname t)
    \<and> \<not> isBlockedIpAddress lib (pt_address t)
    \<and> (if is_ip lib (pt_hostname t) \<noteq> 0 then pt_address t = pt_hostname t
       else \<exists>res. lookup_all lib (pt_hostname t) = Some res \<and> (pt_address t, pt_family t) \<in> set res)"
  using assms
  by (auto simp: resolvePublicTarget_def assertPublicHttpsUrl_def Let_def rbind_Inr_iff dest!: find_Some_mem split: if_split_asm)

text \<open>C7. Webhooks reach only public addresses: every request a hook causes belongs to a subscribed webhook of that
  organisation with an https URL and a non-local host, connects to the very address that was checked (the
  literal, or an answer of the one DNS lookup), and that address is not blocked; in particular it is no dotted
  quad of a private or reserved range.\<close>

theorem webhooks_stay_public:
  assumes "lib_ok lib" "rq \<in> set (sendWebhook lib webhooks org hook)"
  shows "\<exists>w u. w \<in> set webhooks \<and> wh_organizationId w = org \<and> hook \<in> set (wh_eventTypes w)
    \<and> parse_url lib (wh_url w) = Some u \<and> url_protocol u = ''https:'' \<and> \<not> local_name (stripBrackets (url_hostname u))
    \<and> \<not> isBlockedIpAddress lib (rq_host rq)
    \<and> (\<forall>a<256. \<forall>b<256. \<forall>c<256. \<forall>d<256. rq_host rq = quad a b c d \<longrightarrow> \<not> blocked_quad a b c)
    \<and> (rq_host rq = stripBrackets (url_hostname u)
       \<or> (\<exists>res. lookup_all lib (stripBrackets (url_hostname u)) = Some res \<and> rq_host rq \<in> fst ` set res))"
proof -
  obtain w where w: "w \<in> set webhooks" "wh_organizationId w = org" "hook \<in> set (wh_eventTypes w)"
    and "(case resolvePublicTarget lib (wh_url w) of Inl _ \<Rightarrow> None | Inr t \<Rightarrow> Some (deliver t)) = Some rq"
    using assms(2) by (auto simp: sendWebhook_def List.map_filter_def split: if_split_asm)
  then obtain t where t: "resolvePublicTarget lib (wh_url w) = Inr t" "rq = deliver t"
    by (auto split: sum.split_asm)
  have "rq_host rq = pt_address t" using t(2) by (simp add: deliver_def)
  moreover have "\<not> blocked_quad a b c" if "a < 256" "b < 256" "c < 256" "d < 256" "pt_address t = quad a b c d" for a b c d
    using blocked_quad_iff[OF assms(1) that(1-4)] resolve_target[OF t(1)] that(5) by simp
  ultimately show ?thesis
    using w resolve_target[OF t(1)] by (intro exI[of _ w] exI[of _ "pt_url t"]) (force split: if_split_asm)
qed

theorem webhooks_stay_public_witness:
  "\<exists>rq. rq \<in> set (sendWebhook demo_net [\<lparr>wh_organizationId = ''o1'', wh_url = ''hooks.example'', wh_eventTypes = [''NETWORK_JOIN'']\<rparr>] ''o1'' ''NETWORK_JOIN'')
     \<and> \<not> isBlockedIpAddress demo_net (rq_host rq)"
proof -
  have e: "(''10.0.0.7'' :: string) = quad 10 0 0 7" "(''93.184.216.34'' :: string) = quad 93 184 216 34" by code_simp+
  have b: "isBlockedIpAddress demo_net ''10.0.0.7''" "\<not> isBlockedIpAddress demo_net ''93.184.216.34''"
    unfolding e by (simp_all add: blocked_quad_iff[OF demo_net_ok] blocked_quad_def)
  have h: "stripBrackets ''hooks.example'' = ''hooks.example''" "\<not> local_name ''hooks.example''" "is_ip demo_net ''hooks.example'' = 0"
    by code_simp+
  have u: "parse_url demo_net s = Some \<lparr>url_protocol = ''https:'', url_hostname = s, url_host = s, url_port = [], url_path = ''/''\<rparr>"
    "lookup_all demo_net ''hooks.example'' = Some [(''10.0.0.7'', 4), (''93.184.216.34'', 4)]" for s
    by (simp_all add: demo_net_def)
  have "resolvePublicTarget demo_net ''hooks.example'' = Inr \<lparr>pt_url = \<lparr>url_protocol = ''https:'', url_hostname = ''hooks.example'',
      url_host = ''hooks.example'', url_port = [], url_path = ''/''\<rparr>, pt_hostname = ''hooks.example'', pt_address = ''93.184.216.34'', pt_family = 4\<rparr>"
    using b h u by (simp add: resolvePublicTarget_def assertPublicHttpsUrl_def Let_def)
  then have "deliver \<lparr>pt_url = \<lparr>url_protocol = ''https:'', url_hostname = ''hooks.example'',
      url_host = ''hooks.example'', url_port = [], url_path = ''/''\<rparr>, pt_hostname = ''hooks.example'', pt_address = ''93.184.216.34'', pt_family = 4\<rparr>
    \<in> set (sendWebhook demo_net [\<lparr>wh_organizationId = ''o1'', wh_url = ''hooks.example'', wh_eventTypes = [''NETWORK_JOIN'']\<rparr>] ''o1'' ''NETWORK_JOIN'')"
    by (simp add: sendWebhook_def List.map_filter_simps)
  with webhooks_stay_public[OF demo_net_ok this] show ?thesis by blast
qed

end
