(* ===== verification/Edge_Config.thy ===== *)
theory Edge_Config
  imports JS_Values
begin

text \<open>
  The edge of the server: the request limiter (\<^verbatim>\<open>utils/rateLimit.ts\<close>), the origins trusted for sign-in
  (\<^verbatim>\<open>lib/managementOrigin.ts\<close>) and the listener ports of the ZeroTier service (\<^verbatim>\<open>utils/planet.ts\<close>).
  Parameters: \<open>isIP\<close>, the URL parser, the JSON parser (its outcome is \<open>conf_read\<close>) and the lru-cache
  package, which may drop an entry at any time (\<open>evicted\<close>) and drops it when its time to live is over.
\<close>

section \<open>The source of a request\<close>

datatype header = One string | Many "string list"

text \<open>\<^verbatim>\<open>s || undefined\<close>.\<close>

definition nonempty :: "string \<Rightarrow> string option" where
  "nonempty s = (if s = [] then None else Some s)"

definition firstHeader :: "(string \<Rightarrow> header option) option \<Rightarrow> string \<Rightarrow> string option" where
  "firstHeader headers name =
     (case headers of None \<Rightarrow> None
      | Some h \<Rightarrow>
          (case (case h name of None \<Rightarrow> h (to_lower name) | Some v \<Rightarrow> Some v) of
             None \<Rightarrow> None
           | Some (Many vs) \<Rightarrow> (case vs of [] \<Rightarrow> None | v # _ \<Rightarrow> nonempty (js_trim v))
           | Some (One v) \<Rightarrow> nonempty (js_trim v)))"

text \<open>An address in brackets with an optional port.\<close>

definition unbracket :: "string \<Rightarrow> string" where
  "unbracket s =
     (case s of [] \<Rightarrow> s
      | c # r \<Rightarrow>
          let inner = takeWhile (\<lambda>x. x \<noteq> CHR '']'') r; rest = dropWhile (\<lambda>x. x \<noteq> CHR '']'') r
          in if c = CHR ''['' \<and> inner \<noteq> []
                \<and> (case rest of [] \<Rightarrow> False
                   | _ # t \<Rightarrow> t = [] \<or> (hd t = CHR '':'' \<and> tl t \<noteq> [] \<and> list_all is_digit (tl t)))
             then inner else s)"

definition mapped_quad :: "string \<Rightarrow> string option" where
  "mapped_quad s =
     (let rest = drop 7 s; parts = js_split (CHR ''.'') rest
      in if to_lower (take 7 s) = ''::ffff:'' \<and> length parts = 4
            \<and> list_all (\<lambda>p. 1 \<le> length p \<and> length p \<le> 3 \<and> list_all is_digit p) parts
         then Some rest else None)"

definition normalizeAddress :: "(string \<Rightarrow> bool) \<Rightarrow> string option \<Rightarrow> string option" where
  "normalizeAddress isIP v =
     (if \<not> truthy v then None
      else let candidate = unbracket (js_trim (the v));
               address = str_or (mapped_quad candidate) candidate
           in if isIP address then Some address else None)"

fun first_address :: "(string \<Rightarrow> bool) \<Rightarrow> string list \<Rightarrow> string option" where
  "first_address isIP [] = None"
| "first_address isIP (v # vs) = (case normalizeAddress isIP (Some (js_trim v)) of
     Some a \<Rightarrow> if a = [] then first_address isIP vs else Some a | None \<Rightarrow> first_address isIP vs)"

definition forwarded_address :: "(string \<Rightarrow> bool) \<Rightarrow> string option \<Rightarrow> string option" where
  "forwarded_address isIP forwarded =
     (case forwarded of None \<Rightarrow> None | Some f \<Rightarrow> first_address isIP (rev (js_split (CHR '','') f)))"

record request_like =
  rl_headers :: "(string \<Rightarrow> header option) option"
  rl_remoteAddress :: "string option"

definition getClientRateLimitIdentifier :: "(string \<Rightarrow> bool) \<Rightarrow> string option \<Rightarrow> request_like option \<Rightarrow> string" where
  "getClientRateLimitIdentifier isIP trust_proxy_env req =
     (let trustProxy = (case trust_proxy_env of None \<Rightarrow> False | Some t \<Rightarrow> to_lower t = ''true'');
          headers = (case req of None \<Rightarrow> None | Some r \<Rightarrow> rl_headers r);
          remote = (case req of None \<Rightarrow> None | Some r \<Rightarrow> rl_remoteAddress r);
          direct = str_or (normalizeAddress isIP remote) ''unknown''
      in if trustProxy
         then (case forwarded_address isIP (firstHeader headers ''x-forwarded-for'') of Some a \<Rightarrow> a | None \<Rightarrow> direct)
         else direct)"

section \<open>The limiter\<close>

definition getApiWindowMs :: "string option \<Rightarrow> int" where
  "getApiWindowMs env =
     (let minutes = (case parse_int10 (str_or env ''1'') of None \<Rightarrow> 1 | Some m \<Rightarrow> min (24 * 60) (max 1 m))
      in minutes * 60 * 1000)"

definition getApiMaxRequests :: "string option \<Rightarrow> int" where
  "getApiMaxRequests env =
     (case parse_int10 (str_or env ''50'') of None \<Rightarrow> 50 | Some m \<Rightarrow> min 100000 (max 1 m))"

text \<open>The cache maps a key to its counter and the time it was stored; the counter is incremented in
  place, so the time is that of the first request of a window.\<close>

type_synonym token_cache = "string \<rightharpoonup> nat \<times> int"

definition cache_get :: "int \<Rightarrow> bool \<Rightarrow> int \<Rightarrow> string \<Rightarrow> token_cache \<Rightarrow> (nat \<times> int) option" where
  "cache_get ttl evicted now key cache =
     (if evicted then None
      else case cache key of None \<Rightarrow> None | Some (n, t) \<Rightarrow> if now - t > ttl then None else Some (n, t))"

record check_result =
  cr_allowed :: bool
  cr_limit :: nat
  cr_remaining :: nat

definition check_rate :: "int \<Rightarrow> bool \<Rightarrow> int \<Rightarrow> nat \<Rightarrow> string \<Rightarrow> string \<Rightarrow> token_cache \<Rightarrow> check_result \<times> token_cache" where
  "check_rate ttl evicted now limit token identifier cache =
     (let key = token @ '':'' @ identifier;
          (n, t) = (case cache_get ttl evicted now key cache of None \<Rightarrow> (0, now) | Some e \<Rightarrow> e);
          usage = n + 1; limited = usage > limit
      in (\<lparr>cr_allowed = \<not> limited, cr_limit = limit, cr_remaining = (if limited then 0 else limit - usage)\<rparr>,
          cache(key \<mapsto> (usage, t))))"

text \<open>A sequence of requests for one token and source, with their times.\<close>

fun check_all :: "int \<Rightarrow> nat \<Rightarrow> string \<Rightarrow> string \<Rightarrow> int list \<Rightarrow> token_cache \<Rightarrow> bool list \<times> token_cache" where
  "check_all ttl limit token identifier [] cache = ([], cache)"
| "check_all ttl limit token identifier (now # ts) cache =
     (let (r, cache1) = check_rate ttl False now limit token identifier cache;
          (rs, cache2) = check_all ttl limit token identifier ts cache1
      in (cr_allowed r # rs, cache2))"

section \<open>Trusted origins\<close>

record origin_url =
  ou_protocol :: string
  ou_host :: string
  ou_hostname :: string
  ou_pathname :: string
  ou_credentials :: bool
  ou_origin :: string

record origin_request =
  or_header :: "string \<Rightarrow> string option"
  or_url :: string

definition host_char :: "char \<Rightarrow> bool" where
  "host_char c \<longleftrightarrow> is_alnum c \<or> c \<in> {CHR ''.'', CHR ''-'', CHR ''['', CHR '']'', CHR '':''}"

text \<open>\<open>None\<close> is an exception: an unparsable request URL or \<^verbatim>\<open>NEXTAUTH_URL\<close> is not caught.\<close>

definition request_host :: "(string \<Rightarrow> origin_url option) \<Rightarrow> bool \<Rightarrow> origin_request \<Rightarrow> string option" where
  "request_host parse trustProxy req =
     (if truthy (or_header req ''host'') then or_header req ''host''
      else if trustProxy \<and> truthy (or_header req ''x-forwarded-host'') then or_header req ''x-forwarded-host''
      else map_option ou_host (parse (or_url req)))"

definition managementTrustedOrigins ::
  "(string \<Rightarrow> origin_url option) \<Rightarrow> string option \<Rightarrow> string option \<Rightarrow> string \<Rightarrow> origin_request option \<Rightarrow> string list option" where
  "managementTrustedOrigins parse management_host trust_proxy nextauth_url request =
     (let hostSetting = map_option js_trim management_host;
          dynamic = (hostSetting = Some [] \<or> hostSetting = Some ''0.0.0.0'')
      in case request of
           None \<Rightarrow> Some []
         | Some req \<Rightarrow>
             if \<not> dynamic then Some []
             else case request_host parse (trust_proxy = Some ''true'') req of None \<Rightarrow> None
             | Some host \<Rightarrow>
                 (case parse nextauth_url of None \<Rightarrow> None
                  | Some self \<Rightarrow>
                      if host = [] \<or> \<not> list_all host_char host then Some []
                      else case parse (ou_protocol self @ ''//'' @ host) of None \<Rightarrow> Some []
                      | Some origin \<Rightarrow>
                          if ou_credentials origin \<or> ou_pathname origin \<noteq> ''/'' \<or> ou_hostname origin = ''0.0.0.0''
                          then Some [] else Some [ou_origin origin]))"

section \<open>Listener ports\<close>

datatype port_error = BadPorts | NoEndpoint | InvalidEndpoint string | TooManyPorts | NoUniquePort
  | ConfParseError | ConfReadError | SettingsNotObject

definition port_number :: "jsnum \<Rightarrow> bool" where
  "port_number p \<longleftrightarrow> js_is_integer p \<and> 1 \<le> js_trunc p \<and> js_trunc p \<le> 65535"

text \<open>The argument is \<open>None\<close> when it is not an array.\<close>

definition validatePorts :: "jsnum list option \<Rightarrow> port_error + int list" where
  "validatePorts portNumbers =
     (case portNumbers of None \<Rightarrow> Inl BadPorts
      | Some ps \<Rightarrow> rbind (ensure (ps \<noteq> [] \<and> length ps \<le> 2 \<and> list_all port_number ps) BadPorts) (\<lambda>_.
          Inr (js_set (map js_trunc ps))))"

text \<open>The text before and after the last slash; \<open>None\<close> when there is none.\<close>

definition last_slash :: "string \<Rightarrow> (string \<times> string) option" where
  "last_slash s =
     (if CHR ''/'' \<in> set s
      then Some (rev (tl (dropWhile (\<lambda>c. c \<noteq> CHR ''/'') (rev s))), rev (takeWhile (\<lambda>c. c \<noteq> CHR ''/'') (rev s)))
      else None)"

definition endpoint_port :: "string \<Rightarrow> port_error + int" where
  "endpoint_port raw =
     (let endpoint = js_trim raw
      in case last_slash endpoint of None \<Rightarrow> Inl (InvalidEndpoint endpoint)
         | Some (before, after) \<Rightarrow>
             rbind (ensure (before \<noteq> [] \<and> after \<noteq> []) (InvalidEndpoint endpoint)) (\<lambda>_.
             let port = js_Number (js_trim after)
             in rbind (ensure (js_trim before \<noteq> [] \<and> port_number port) (InvalidEndpoint endpoint)) (\<lambda>_.
                Inr (js_trunc port))))"

fun collect_ports :: "string list \<Rightarrow> int list \<Rightarrow> port_error + int list" where
  "collect_ports [] ports = Inr ports"
| "collect_ports (e # es) ports =
     rbind (endpoint_port e) (\<lambda>p. collect_ports es (if p \<in> set ports then ports else ports @ [p]))"

definition extractEndpointPorts :: "string list \<Rightarrow> port_error + int list" where
  "extractEndpointPorts endpoints =
     rbind (ensure (endpoints \<noteq> []) NoEndpoint) (\<lambda>_.
     rbind (collect_ports (concat (map (js_split (CHR '','')) endpoints)) []) (\<lambda>ports.
     rbind (ensure (ports \<noteq> [] \<and> length ports \<le> 2) TooManyPorts) (\<lambda>_. Inr ports)))"

record conf_settings =
  cs_primaryPort :: "int option"
  cs_secondaryPort :: "int option"
  cs_allowSecondaryPort :: "bool option"
  cs_rest :: "(string \<times> string) list"

datatype settings_value = Absent | NotRecord | Settings conf_settings

record local_conf =
  lc_settings :: settings_value
  lc_rest :: "(string \<times> string) list"

text \<open>The outcome of reading and parsing \<^verbatim>\<open>local.conf\<close>; an empty file is an empty object.\<close>

datatype conf_read = NoFile | Unreadable | BadJson | NotAnObject | Conf local_conf

definition read_conf :: "conf_read \<Rightarrow> port_error + local_conf" where
  "read_conf f = (case f of NoFile \<Rightarrow> Inr \<lparr>lc_settings = Absent, lc_rest = []\<rparr>
     | Unreadable \<Rightarrow> Inl ConfReadError | NotAnObject \<Rightarrow> Inl ConfReadError | BadJson \<Rightarrow> Inl ConfParseError
     | Conf c \<Rightarrow> Inr c)"

definition with_ports :: "int list \<Rightarrow> conf_settings \<Rightarrow> conf_settings" where
  "with_ports ports st =
     (case ports of
        p # q # _ \<Rightarrow> st\<lparr>cs_primaryPort := Some p, cs_secondaryPort := Some q, cs_allowSecondaryPort := Some True\<rparr>
      | [p] \<Rightarrow> st\<lparr>cs_primaryPort := Some p, cs_secondaryPort := None, cs_allowSecondaryPort := None\<rparr>
      | [] \<Rightarrow> st)"

text \<open>The new contents of the file.\<close>

definition updateLocalConf :: "conf_read \<Rightarrow> jsnum list option \<Rightarrow> port_error + local_conf" where
  "updateLocalConf f portNumbers =
     rbind (validatePorts portNumbers) (\<lambda>ports.
     rbind (ensure (ports \<noteq> []) NoUniquePort) (\<lambda>_.
     rbind (read_conf f) (\<lambda>c.
     case lc_settings c of
       NotRecord \<Rightarrow> Inl SettingsNotObject
     | Absent \<Rightarrow> Inr (c\<lparr>lc_settings := Settings (with_ports ports
         \<lparr>cs_primaryPort = None, cs_secondaryPort = None, cs_allowSecondaryPort = None, cs_rest = []\<rparr>)\<rparr>)
     | Settings st \<Rightarrow> Inr (c\<lparr>lc_settings := Settings (with_ports ports st)\<rparr>))))"

text \<open>\<^verbatim>\<open>writeJsonAtomically\<close> on the file system: the temporary file is written (possibly only in part when
  the process dies), renamed over the target, and unlinked if it is still there.\<close>

type_synonym files = "string \<rightharpoonup> string"

inductive write_json :: "string \<Rightarrow> string \<Rightarrow> string \<Rightarrow> nat \<times> files \<Rightarrow> nat \<times> files \<Rightarrow> bool" for path tmp json where
  partial_write: "write_json path tmp json (0, fs) (0, fs(tmp \<mapsto> take k json))"
| full_write: "write_json path tmp json (0, fs) (1, fs(tmp \<mapsto> json))"
| rename: "fs tmp = Some content \<Longrightarrow> write_json path tmp json (1, fs) (2, (fs(path \<mapsto> content))(tmp := None))"
| unlink: "write_json path tmp json (n, fs) (3, fs(tmp := None))"

definition written_inv :: "string \<Rightarrow> string \<Rightarrow> string option \<Rightarrow> string \<Rightarrow> nat \<times> files \<Rightarrow> bool" where
  "written_inv path tmp old json s \<longleftrightarrow>
     (fst s = 1 \<longrightarrow> snd s tmp = Some json) \<and> (fst s \<in> {0, 1} \<longrightarrow> snd s path = old)
     \<and> (snd s path = old \<or> snd s path = Some json) \<and> (fst s = 2 \<longrightarrow> snd s path = Some json)"

section \<open>The limiter\<close>

lemma upt_Suc0: "[0..<Suc n] = 0 # map Suc [0..<n]"
  by (simp only: map_Suc_upt upt_conv_Cons[of 0 "Suc n"] zero_less_Suc)

lemma check_rate_hit:
  assumes "cache (token @ '':'' @ i) = Some (n, t)" "now - t \<le> ttl"
  shows "check_rate ttl False now limit token i cache =
    (\<lparr>cr_allowed = n < limit, cr_limit = limit, cr_remaining = limit - (n + 1)\<rparr>, cache(token @ '':'' @ i \<mapsto> (n + 1, t)))"
  using assms by (auto simp: check_rate_def cache_get_def Let_def)

lemma check_all_open:
  assumes "cache (token @ '':'' @ i) = Some (n, t0)" "\<forall>t\<in>set ts. t - t0 \<le> ttl"
  shows "fst (check_all ttl limit token i ts cache) = map (\<lambda>k. n + k < limit) [0..<length ts]"
  using assms
proof (induction ts arbitrary: n cache)
  case (Cons t ts)
  let ?c = "cache(token @ '':'' @ i \<mapsto> (n + 1, t0))"
  have "fst (check_all ttl limit token i ts ?c) = map (\<lambda>k. n + 1 + k < limit) [0..<length ts]"
    by (rule Cons.IH) (use Cons.prems in auto)
  moreover have "check_rate ttl False t limit token i cache =
      (\<lparr>cr_allowed = n < limit, cr_limit = limit, cr_remaining = limit - (n + 1)\<rparr>, ?c)"
    using Cons.prems by (intro check_rate_hit) auto
  moreover have "[0..<length (t # ts)] = 0 # map Suc [0..<length ts]" by (simp only: list.size(4) add_0_right add_Suc_right upt_Suc0)
  ultimately show ?case by (simp add: case_prod_beta comp_def)
qed simp

text \<open>C36. The request limit: in the window that a first request opens, exactly the first \<open>limit\<close> requests of a source
  are let through, however they are spaced, as long as the cache keeps the counter.\<close>

theorem limit_per_window:
  assumes "cache (token @ '':'' @ i) = None" "\<forall>t\<in>set ts. t - hd ts \<le> ttl" "0 \<le> ttl"
  shows "fst (check_all ttl limit token i ts cache) = map (\<lambda>k. k < limit) [0..<length ts]"
proof (cases ts)
  case (Cons t0 ts')
  let ?c = "cache(token @ '':'' @ i \<mapsto> (1, t0))"
  have "check_rate ttl False t0 limit token i cache = (\<lparr>cr_allowed = 0 < limit, cr_limit = limit, cr_remaining = limit - 1\<rparr>, ?c)"
    using assms(1) by (auto simp: check_rate_def cache_get_def Let_def)
  moreover have "fst (check_all ttl limit token i ts' ?c) = map (\<lambda>k. 1 + k < limit) [0..<length ts']"
    using assms(2) Cons by (intro check_all_open) auto
  moreover have "[0..<length ts] = 0 # map Suc [0..<length ts']" by (simp only: Cons list.size(4) add_0_right add_Suc_right upt_Suc0)
  ultimately show ?thesis by (simp add: Cons case_prod_beta comp_def)
qed simp

theorem limit_per_window_witness:
  "fst (check_all 60000 2 ''login'' ''192.0.2.1'' [5, 10, 400, 60005] Map.empty) = [True, True, False, False]"
  using limit_per_window[of Map.empty "''login''" "''192.0.2.1''" "[5, 10, 400, 60005]" 60000 2]
  by (simp add: upt_conv_Cons)

text \<open>The limits themselves: whatever the environment holds, the window is between one minute and one day and
  the budget between 1 and 100000 requests.\<close>

theorem limiter_bounds:
  "60000 \<le> getApiWindowMs w \<and> getApiWindowMs w \<le> 86400000 \<and> 1 \<le> getApiMaxRequests m \<and> getApiMaxRequests m \<le> 100000"
  by (simp add: getApiWindowMs_def getApiMaxRequests_def Let_def split: option.split)

section \<open>The source identifier\<close>

lemma js_split_snoc: "d \<notin> set a \<Longrightarrow> js_split d (p @ d # a) = js_split d p @ [a]"
proof (induction p)
  case (Cons c p)
  obtain w ws where "js_split d p = w # ws" by (cases "js_split d p") auto
  with Cons show ?case by simp
qed (simp add: js_split_no_sep)

lemma js_trim_tail:
  assumes "a \<noteq> []" "\<not> is_space (last a)" "\<not> is_space c"
  shows "js_trim (p @ c # a) = dropWhile is_space p @ c # a"
proof -
  have "dropWhile is_space (p @ c # a) = dropWhile is_space p @ c # a"
    using assms(3) by (induction p) auto
  moreover have "dropWhile is_space (rev (q @ c # a)) = rev (q @ c # a)" for q
    using assms(1,2) by (cases a rule: rev_cases) auto
  ultimately show ?thesis by (simp add: js_trim_def)
qed

text \<open>A client cannot choose its bucket: without a trusted proxy the headers are not read at all; behind one the
  identifier is the address the proxy appended last, whatever the client put before it.\<close>

theorem client_cannot_choose_bucket:
  assumes "normalizeAddress isIP (Some (js_trim a)) = Some b" "b \<noteq> []"
    and "CHR '','' \<notin> set a" "a \<noteq> []" "\<not> is_space (last a)"
    and "h ''x-forwarded-for'' = Some (One (spoofed @ '','' @ a))"
  shows "getClientRateLimitIdentifier isIP (Some ''true'') (Some \<lparr>rl_headers = Some h, rl_remoteAddress = r\<rparr>) = b
    \<and> getClientRateLimitIdentifier isIP None (Some \<lparr>rl_headers = Some h, rl_remoteAddress = r\<rparr>)
      = getClientRateLimitIdentifier isIP None (Some \<lparr>rl_headers = None, rl_remoteAddress = r\<rparr>)"
proof -
  have "\<not> is_space (CHR '','')" by code_simp
  then have "js_trim (spoofed @ '','' @ a) = dropWhile is_space spoofed @ CHR '','' # a"
    using js_trim_tail[OF assms(4,5), of "CHR '',''" spoofed] by simp
  then have "firstHeader (Some h) ''x-forwarded-for'' = Some (dropWhile is_space spoofed @ CHR '','' # a)"
    using assms(6) by (simp add: firstHeader_def nonempty_def)
  moreover have "forwarded_address isIP (Some (q @ CHR '','' # a)) = Some b" for q
    using assms(1,2) by (simp add: forwarded_address_def js_split_snoc[OF assms(3)])
  moreover have "to_lower ''true'' = ''true''" by code_simp
  ultimately show ?thesis by (simp add: getClientRateLimitIdentifier_def Let_def)
qed

theorem client_cannot_choose_bucket_witness:
  "getClientRateLimitIdentifier (\<lambda>s. s = ''192.0.2.9'') (Some ''true'')
     (Some \<lparr>rl_headers = Some (\<lambda>n. if n = ''x-forwarded-for'' then Some (One (''203.0.113.5'' @ '','' @ '' 192.0.2.9'')) else None),
            rl_remoteAddress = None\<rparr>) = ''192.0.2.9''"
proof -
  have "normalizeAddress (\<lambda>s. s = ''192.0.2.9'') (Some (js_trim '' 192.0.2.9'')) = Some ''192.0.2.9''" by code_simp
  moreover have "\<not> is_space (last '' 192.0.2.9'')" by code_simp
  ultimately show ?thesis
    using client_cannot_choose_bucket[of "\<lambda>s. s = ''192.0.2.9''" "'' 192.0.2.9''" "''192.0.2.9''"
        "\<lambda>n. if n = ''x-forwarded-for'' then Some (One (''203.0.113.5'' @ '','' @ '' 192.0.2.9'')) else None" "''203.0.113.5''" None]
    by simp
qed

section \<open>Trusted origins\<close>

text \<open>Only the request's own authority is trusted: with a Host header the trusted origins do not depend on any
  other header (Origin and X-Forwarded-Host included), and an origin is trusted only for a wildcard management
  host, as the origin of the configured protocol and that authority.\<close>

theorem origins_from_authority:
  assumes "or_header req ''host'' = Some host" "host \<noteq> []"
  shows "managementTrustedOrigins parse mh tp url (Some req)
      = managementTrustedOrigins parse mh tp url (Some (req\<lparr>or_header := (\<lambda>n. if n = ''host'' then Some host else other n)\<rparr>))
    \<and> (case managementTrustedOrigins parse mh tp url (Some req) of None \<Rightarrow> True | Some os \<Rightarrow> \<forall>ori\<in>set os.
         (\<exists>t. mh = Some t \<and> js_trim t \<in> {[], ''0.0.0.0''})
         \<and> (\<exists>self u. parse url = Some self \<and> parse (ou_protocol self @ ''//'' @ host) = Some u \<and> ori = ou_origin u \<and> \<not> ou_credentials u))"
proof -
  have "request_host parse b req = Some host"
    "request_host parse b (req\<lparr>or_header := (\<lambda>n. if n = ''host'' then Some host else other n)\<rparr>) = Some host" for b
    using assms by (simp_all add: request_host_def)
  then show ?thesis
    by (auto simp: managementTrustedOrigins_def Let_def split: option.splits if_split_asm)
qed

theorem origins_from_authority_witness:
  "managementTrustedOrigins (\<lambda>s. Some \<lparr>ou_protocol = ''https:'', ou_host = ''h'', ou_hostname = ''h'', ou_pathname = ''/'', ou_credentials = False, ou_origin = ''https://h''\<rparr>)
     (Some ''0.0.0.0'') None ''https://x'' (Some \<lparr>or_header = (\<lambda>n. if n = ''host'' then Some ''h'' else Some ''evil''), or_url = ''u''\<rparr>)
   = managementTrustedOrigins (\<lambda>s. Some \<lparr>ou_protocol = ''https:'', ou_host = ''h'', ou_hostname = ''h'', ou_pathname = ''/'', ou_credentials = False, ou_origin = ''https://h''\<rparr>)
     (Some ''0.0.0.0'') None ''https://x'' (Some \<lparr>or_header = (\<lambda>n. if n = ''host'' then Some ''h'' else None), or_url = ''u''\<rparr>)"
  using origins_from_authority[of "\<lparr>or_header = (\<lambda>n. if n = ''host'' then Some ''h'' else Some ''evil''), or_url = ''u''\<rparr>" "''h''"
      _ _ _ _ "\<lambda>_. None"] by simp


section \<open>Listener ports\<close>

lemma collect_ports_ok:
  assumes "collect_ports es ps = Inr qs" "distinct ps" "\<forall>p\<in>set ps. 1 \<le> p \<and> p \<le> 65535"
  shows "distinct qs \<and> (\<forall>p\<in>set qs. 1 \<le> p \<and> p \<le> 65535)"
  using assms
proof (induction es arbitrary: ps)
  case (Cons e es)
  obtain q where q: "endpoint_port e = Inr q" "collect_ports es (if q \<in> set ps then ps else ps @ [q]) = Inr qs"
    using Cons.prems(1) by (auto simp: rbind_Inr_iff)
  have "1 \<le> q \<and> q \<le> 65535"
    using q(1) by (auto simp: endpoint_port_def Let_def rbind_Inr_iff port_number_def split: option.split_asm)
  then show ?case using Cons.prems(2,3) by (intro Cons.IH[OF q(2)]) simp_all
qed simp

lemma js_set_distinct: "distinct xs \<Longrightarrow> js_set xs = xs"
  by (induction xs rule: js_set.induct) (auto simp: filter_id_conv)

lemma validate_ports_ok:
  assumes "distinct ps" "ps \<noteq> []" "length ps \<le> 2" "\<forall>p\<in>set ps. 1 \<le> p \<and> p \<le> 65535"
  shows "validatePorts (Some (map (\<lambda>p. JDec p 0) ps)) = Inr ps"
proof -
  have t: "js_trunc (JDec p 0) = p" for p by (simp add: js_trunc_def sgn_mult_abs)
  have "list_all port_number (map (\<lambda>p. JDec p 0) ps)"
    using assms(4) by (simp add: list_all_iff port_number_def js_is_integer_def t)
  moreover have "map js_trunc (map (\<lambda>p. JDec p 0) ps) = ps" by (simp add: t map_idI)
  ultimately show ?thesis using assms by (simp add: validatePorts_def js_set_distinct)
qed

text \<open>From endpoints to the listener configuration: accepted root endpoints give one or two distinct ports in
  range; the configuration update accepts exactly those, and a readable \<^verbatim>\<open>local.conf\<close> then has the first as
  primary port, the second (if any) as enabled secondary port, and every other entry as it was.\<close>

theorem endpoints_reach_local_conf:
  assumes "extractEndpointPorts endpoints = Inr ports" "lc_settings c = Settings st"
  shows "distinct ports \<and> length ports \<in> {1, 2} \<and> (\<forall>p\<in>set ports. 1 \<le> p \<and> p \<le> 65535)
    \<and> (\<exists>st'. updateLocalConf (Conf c) (Some (map (\<lambda>p. JDec p 0) ports)) = Inr (c\<lparr>lc_settings := Settings st'\<rparr>)
         \<and> cs_primaryPort st' = Some (hd ports) \<and> cs_rest st' = cs_rest st
         \<and> cs_secondaryPort st' = nth_opt ports 1 \<and> (cs_allowSecondaryPort st' = Some True \<longleftrightarrow> length ports = 2))"
proof -
  have c: "collect_ports (concat (map (js_split (CHR '','')) endpoints)) [] = Inr ports" "ports \<noteq> []" "length ports \<le> 2"
    using assms(1) by (auto simp: extractEndpointPorts_def rbind_Inr_iff)
  have d: "distinct ports" "\<forall>p\<in>set ports. 1 \<le> p \<and> p \<le> 65535" using collect_ports_ok[OF c(1)] by auto
  have "updateLocalConf (Conf c) (Some (map (\<lambda>p. JDec p 0) ports)) = Inr (c\<lparr>lc_settings := Settings (with_ports ports st)\<rparr>)"
    using validate_ports_ok[OF d(1) c(2,3) d(2)] c(2) assms(2) by (simp add: updateLocalConf_def read_conf_def)
  moreover obtain p q where "ports = [p] \<or> ports = [p, q]"
    using c(2,3) by (cases ports; cases "tl ports") auto
  ultimately show ?thesis using d by (auto simp: with_ports_def)
qed

theorem endpoints_reach_local_conf_witness:
  "extractEndpointPorts [''203.0.113.7/53,2001:db8::7/80''] = Inr [53, 80]
   \<and> (\<exists>st'. updateLocalConf (Conf \<lparr>lc_settings = Settings \<lparr>cs_primaryPort = None, cs_secondaryPort = None, cs_allowSecondaryPort = None,
         cs_rest = [(''portMappingEnabled'', ''true'')]\<rparr>, lc_rest = []\<rparr>) (Some (map (\<lambda>p. JDec p 0) [53, 80]))
       = Inr \<lparr>lc_settings = Settings st', lc_rest = []\<rparr> \<and> cs_primaryPort st' = Some 53 \<and> cs_rest st' = [(''portMappingEnabled'', ''true'')])"
proof -
  have e: "extractEndpointPorts [''203.0.113.7/53,2001:db8::7/80''] = Inr [53, 80]" by code_simp
  from endpoints_reach_local_conf[OF e, of "\<lparr>lc_settings = Settings \<lparr>cs_primaryPort = None, cs_secondaryPort = None,
      cs_allowSecondaryPort = None, cs_rest = [(''portMappingEnabled'', ''true'')]\<rparr>, lc_rest = []\<rparr>"]
  show ?thesis using e by auto
qed

section \<open>The atomic write\<close>

lemma write_json_keeps:
  assumes "path \<noteq> tmp" "written_inv path tmp old json s" "write_json path tmp json s t"
  shows "written_inv path tmp old json t"
  using assms(3,1,2) by (cases rule: write_json.cases) (auto simp: written_inv_def)

text \<open>The temporary name differs from the target: it has a suffix.\<close>

interpretation json_write: step_invariant "write_json path (path @ ''.tmp-'' @ suffix) json" "written_inv path (path @ ''.tmp-'' @ suffix) old json"
  by unfold_locales (rule write_json_keeps; simp)

text \<open>The configuration file is replaced atomically: wherever the write stops (a partial temporary file, before or
  after the rename, after the clean-up), the file holds its old contents or the complete new contents, and after
  the rename the new ones.\<close>

theorem local_conf_write_is_atomic:
  assumes "(write_json path (path @ ''.tmp-'' @ suffix) json)\<^sup>*\<^sup>* (0, fs) (n, fs')"
  shows "(fs' path = fs path \<or> fs' path = Some json) \<and> (n = 2 \<longrightarrow> fs' path = Some json)"
  using json_write.run_keeps[OF assms, of "fs path"] by (auto simp: written_inv_def)

theorem local_conf_write_is_atomic_witness:
  "\<exists>fs'. (write_json ''local.conf'' (''local.conf'' @ ''.tmp-'' @ ''1'') ''{}'')\<^sup>*\<^sup>* (0, [''local.conf'' \<mapsto> ''old'']) (2, fs')
     \<and> fs' ''local.conf'' = Some ''{}''"
proof -
  let ?t = "''local.conf'' @ ''.tmp-'' @ ''1''" and ?fs = "[''local.conf'' \<mapsto> ''old'']"
  have "write_json ''local.conf'' ?t ''{}'' (0, ?fs) (1, ?fs(?t \<mapsto> ''{}''))" by (rule full_write)
  moreover have "write_json ''local.conf'' ?t ''{}'' (1, ?fs(?t \<mapsto> ''{}''))
      (2, ((?fs(?t \<mapsto> ''{}''))(''local.conf'' \<mapsto> ''{}''))(?t := None))" by (rule rename) simp
  ultimately have r: "(write_json ''local.conf'' ?t ''{}'')\<^sup>*\<^sup>* (0, ?fs) (2, ((?fs(?t \<mapsto> ''{}''))(''local.conf'' \<mapsto> ''{}''))(?t := None))"
    by (meson converse_rtranclp_into_rtranclp rtranclp.rtrancl_refl)
  from local_conf_write_is_atomic[OF r] r show ?thesis by blast
qed

end
