(* ===== verification/Organizations.thy ===== *)
theory Organizations
  imports Login_Guard Ip_Tools
begin

text \<open>
  Organisations: the procedures that change membership, roles, invitations and networks
  (\<^verbatim>\<open>server/api/routers/organizationRouter.ts\<close>), and the creation of personal networks
  (\<^verbatim>\<open>server/api/services/networkService.ts\<close>). The interpretation \<open>organisations\<close> shows that every
  procedure keeps roles, members and owners consistent.

  An operation returns its outcome and the state: what was committed before an exception stays.
  Parameters: \<open>decode\<close> and \<open>encode\<close> (the encrypted invitation payload), the mailer
  (\<open>mail_ok\<close>), random ids, the name generator and the controller's answer when a network is created. Webhooks and administrator mails are sent after the
  changes and their failures are swallowed; they are not part of the state here.
\<close>

section \<open>Tables\<close>

record org_row =
  og_id :: string
  og_name :: string
  og_description :: "string option"
  og_ownerId :: string

record invitation_row =
  iv_id :: int
  iv_token :: string
  iv_used :: bool
  iv_email :: "string option"
  iv_secret :: "string option"
  iv_groupId :: "string option"
  iv_userGroupId :: "int option"
  iv_url :: string
  iv_expiresAt :: int
  iv_mailSentAt :: "int option"
  iv_timesCanUse :: nat
  iv_timesUsed :: nat
  iv_invitedById :: string
  iv_role :: role

record org_invite_row =
  oi_id :: string
  oi_invitationId :: int
  oi_organizationId :: string

record log_row =
  lg_action :: string
  lg_by :: string
  lg_org :: "string option"

record org_state =
  os_db :: db
  os_orgs :: "org_row list"
  os_members :: "(string \<times> string) list"
  os_invitations :: "invitation_row list"
  os_orgInvites :: "org_invite_row list"
  os_log :: "log_row list"
  os_nextInvite :: int

record caller =
  ca_id :: string
  ca_name :: string

type_synonym 'a outcome = "(exn + 'a) \<times> org_state"

definition find_org :: "string \<Rightarrow> org_state \<Rightarrow> org_row option" where
  "find_org i s = find (\<lambda>g. og_id g = i) (os_orgs s)"

definition add_log :: "string \<Rightarrow> string \<Rightarrow> string \<Rightarrow> org_state \<Rightarrow> org_state" where
  "add_log action performer org s =
     s\<lparr>os_log := os_log s @ [\<lparr>lg_action = action, lg_by = performer, lg_org = (if org = [] then None else Some org)\<rparr>]\<rparr>"

definition role_key :: "org_role_row \<Rightarrow> string \<times> string" where
  "role_key r = (or_userId r, or_organizationId r)"

text \<open>The write behind \<^verbatim>\<open>organization.update\<close> with a nested role and a connected user: the organisation and
  the user must exist, and the role's key must be free.\<close>

definition record_missing :: exn where
  "record_missing = PlainError ''An operation failed because it depends on one or more records that were required but not found.''"

definition unique_violation :: exn where
  "unique_violation = PlainError ''Unique constraint failed''"

definition join_org :: "string \<Rightarrow> string \<Rightarrow> role \<Rightarrow> org_state \<Rightarrow> exn + org_state" where
  "join_org userId orgId r s =
     rbind (ensure (find_org orgId s \<noteq> None \<and> find_user userId (os_db s) \<noteq> None) record_missing) (\<lambda>_.
     rbind (ensure (find_org_role orgId userId (os_db s) = None) unique_violation) (\<lambda>_.
     Inr (s\<lparr>os_db := (os_db s)\<lparr>org_roles := org_roles (os_db s)
                @ [\<lparr>or_userId = userId, or_organizationId = orgId, or_role = r\<rparr>]\<rparr>,
            os_members := (if (userId, orgId) \<in> set (os_members s) then os_members s else os_members s @ [(userId, orgId)])\<rparr>)))"

definition with_role :: "caller \<Rightarrow> string \<Rightarrow> role \<Rightarrow> (org_state \<Rightarrow> 'a outcome) \<Rightarrow> org_state \<Rightarrow> 'a outcome" where
  "with_role c orgId r f s =
     (case checkUserOrganizationRole (os_db s) (ca_id c) orgId r of Inl e \<Rightarrow> (Inl e, s) | Inr _ \<Rightarrow> f s)"

definition commit :: "org_state \<Rightarrow> exn + org_state \<Rightarrow> (org_state \<Rightarrow> 'a outcome) \<Rightarrow> 'a outcome" where
  "commit s m f = (case m of Inl e \<Rightarrow> (Inl e, s) | Inr s' \<Rightarrow> f s')"

section \<open>Members and roles\<close>

definition createOrg :: "string \<Rightarrow> caller \<Rightarrow> string \<Rightarrow> string option \<Rightarrow> org_state \<Rightarrow> unit outcome" where
  "createOrg newId c orgName description s =
     commit s (rbind (ensure (find_user (ca_id c) (os_db s) \<noteq> None) record_missing) (\<lambda>_.
               rbind (ensure (find_org newId s = None) unique_violation) (\<lambda>_.
               join_org (ca_id c) newId ADMIN
                 (s\<lparr>os_orgs := os_orgs s @ [\<lparr>og_id = newId, og_name = orgName, og_description = description,
                                             og_ownerId = ca_id c\<rparr>]\<rparr>))))
       (\<lambda>s'. (Inr (), s'))"

definition updateMeta :: "caller \<Rightarrow> string \<Rightarrow> string option \<Rightarrow> string option \<Rightarrow> org_state \<Rightarrow> unit outcome" where
  "updateMeta c orgId orgName description s =
     (if (case orgName of None \<Rightarrow> False | Some n \<Rightarrow> length n < 3 \<or> 40 < length n) then (Inl ZodError, s)
      else with_role c orgId ADMIN (\<lambda>s.
        let s1 = add_log (''Updated organization Name: '' @ opt_text orgName) (ca_id c) orgId s
        in if find_org orgId s1 = None then (Inl record_missing, s1)
           else (Inr (), s1\<lparr>os_orgs := map (\<lambda>g. if og_id g = orgId
                    then g\<lparr>og_name := (case orgName of None \<Rightarrow> og_name g | Some n \<Rightarrow> n),
                           og_description := (case description of None \<Rightarrow> og_description g | Some t \<Rightarrow> Some t)\<rparr>
                    else g) (os_orgs s1)\<rparr>)) s)"

text \<open>\<^verbatim>\<open>input.role as Role\<close>: Prisma rejects a text that is no role.\<close>

fun role_text :: "role \<Rightarrow> string" where
  "role_text READ_ONLY = ''READ_ONLY''"
| "role_text USER = ''USER''"
| "role_text MODERATOR = ''MODERATOR''"
| "role_text ADMIN = ''ADMIN''"

definition role_of_text :: "string \<Rightarrow> role option" where
  "role_of_text t = find (\<lambda>r. role_text r = t) [READ_ONLY, USER, MODERATOR, ADMIN]"

definition set_org_role :: "string \<Rightarrow> string \<Rightarrow> role \<Rightarrow> org_state \<Rightarrow> org_state" where
  "set_org_role orgId userId r s =
     s\<lparr>os_db := (os_db s)\<lparr>org_roles := map (\<lambda>x. if or_organizationId x = orgId \<and> or_userId x = userId
          then x\<lparr>or_role := r\<rparr> else x) (org_roles (os_db s))\<rparr>\<rparr>"

definition changeUserRole :: "caller \<Rightarrow> string \<Rightarrow> string \<Rightarrow> string \<Rightarrow> org_state \<Rightarrow> unit outcome" where
  "changeUserRole c orgId userId roleText s =
     (if userId = ca_id c then (Inl (PlainError ''You cannot change your own role.''), s)
      else case (if orgId = [] then Inr () else checkUserOrganizationRole (os_db s) (ca_id c) orgId ADMIN) of
        Inl e \<Rightarrow> (Inl e, s)
      | Inr _ \<Rightarrow>
          (case find_user userId (os_db s) of
             None \<Rightarrow> (Inl (PlainError ''Cannot read properties of null''), s)
           | Some u \<Rightarrow>
               let s1 = add_log (''Changed user '' @ u_name u @ '' role to '' @ roleText @ '' in organization.'') (ca_id c) orgId s
               in (case role_of_text roleText of
                     None \<Rightarrow> (Inl (PlainError ''Invalid value for argument role''), s1)
                   | Some r \<Rightarrow> if find_org_role orgId userId (os_db s1) = None then (Inl record_missing, s1)
                               else (Inr (), set_org_role orgId userId r s1))))"

definition addUser :: "caller \<Rightarrow> string \<Rightarrow> string \<Rightarrow> string \<Rightarrow> role \<Rightarrow> org_state \<Rightarrow> unit outcome" where
  "addUser c orgId userId userName r s =
     (if r = MODERATOR then (Inl ZodError, s)
      else with_role c orgId ADMIN (\<lambda>s.
        if find_org_role orgId userId (os_db s) \<noteq> None
        then (Inl (PlainError ''User is already a member of the organization.''), s)
        else let s1 = add_log (''Added user '' @ userName @ '' to organization.'') (ca_id c) orgId s
             in commit s1 (join_org userId orgId r s1) (\<lambda>s2. (Inr (), s2))) s)"

definition leave :: "caller \<Rightarrow> string \<Rightarrow> string \<Rightarrow> org_state \<Rightarrow> unit outcome" where
  "leave c orgId userId s =
     with_role c orgId (if ca_id c = userId then READ_ONLY else ADMIN) (\<lambda>s.
       case find_org orgId s of
         None \<Rightarrow> (Inl (PlainError ''Cannot read properties of null''), s)
       | Some g \<Rightarrow>
           if og_ownerId g = userId then (Inl (PlainError ''You cannot kick the organization owner.''), s)
           else if (userId, orgId) \<notin> set (os_members s) then (Inl (PlainError ''User not found in organization.''), s)
           else let s1 = s\<lparr>os_members := filter (\<lambda>p. p \<noteq> (userId, orgId)) (os_members s),
                           os_db := (os_db s)\<lparr>org_roles := filter (\<lambda>x. role_key x \<noteq> (userId, orgId)) (org_roles (os_db s))\<rparr>\<rparr>
                in (Inr (), add_log (''User '' @ (case find_user userId (os_db s) of None \<Rightarrow> [] | Some u \<Rightarrow> u_email u)
                                     @ '' left organization.'') (ca_id c) orgId s1)) s"

section \<open>Organisation invitations\<close>

text \<open>The decrypted and parsed payload; a property of another type is \<open>None\<close>.\<close>

record invite_payload =
  ip_email :: "string option"
  ip_organizationId :: string
  ip_role :: role
  ip_invitedById :: string
  ip_expiresAt :: int

definition bad_invite :: exn where
  "bad_invite = PlainError ''An error occurred while processing the invitation link.''"

definition find_by_email :: "string \<Rightarrow> org_state \<Rightarrow> user_row option" where
  "find_by_email email s = find (\<lambda>u. u_email u = email) (users (os_db s))"

text \<open>Deleting invitations cascades to the rows that link them to organisations.\<close>

definition delete_invitations :: "(invitation_row \<Rightarrow> bool) \<Rightarrow> org_state \<Rightarrow> org_state" where
  "delete_invitations P s =
     (let gone = iv_id ` set (filter P (os_invitations s))
      in s\<lparr>os_invitations := filter (\<lambda>i. \<not> P i) (os_invitations s),
           os_orgInvites := filter (\<lambda>l. oi_invitationId l \<notin> gone) (os_orgInvites s)\<rparr>)"

definition linked :: "string \<Rightarrow> invitation_row \<Rightarrow> org_state \<Rightarrow> bool" where
  "linked orgId i s = list_ex (\<lambda>l. oi_invitationId l = iv_id i \<and> oi_organizationId l = orgId) (os_orgInvites s)"

definition preValidateUserInvite ::
  "(string \<Rightarrow> invite_payload option) \<Rightarrow> bool \<Rightarrow> int \<Rightarrow> string \<Rightarrow> org_state \<Rightarrow> string option outcome" where
  "preValidateUserInvite decode rate_ok now token s =
     (if token = [] then (Inl bad_invite, s)
      else if \<not> rate_ok then (Inl (TRPCError TOO_MANY_REQUESTS ''Rate limit exceeded, try again later.''), s)
      else case decode token of None \<Rightarrow> (Inl bad_invite, s)
      | Some p \<Rightarrow>
          (case ip_email p of None \<Rightarrow> (Inl bad_invite, s)
           | Some email \<Rightarrow>
               (case find (\<lambda>i. iv_token i = token) (os_invitations s) of None \<Rightarrow> (Inl bad_invite, s)
                | Some invite \<Rightarrow>
                    if iv_expiresAt invite < now then (Inl bad_invite, s)
                    else (case find_by_email (normalizeEmail email) s of
                       None \<Rightarrow> (Inr None, s)
                     | Some u \<Rightarrow>
                         if find_org_role (ip_organizationId p) (u_id u) (os_db s) \<noteq> None
                         then (Inl (PlainError ''You are already a member of the organization.''), s)
                         else commit s (join_org (u_id u) (ip_organizationId p) (ip_role p) s) (\<lambda>s1.
                           let s2 = delete_invitations (\<lambda>i. iv_email i = Some email \<and> linked (ip_organizationId p) i s1) s1
                           in (Inr (Some (u_id u)),
                               add_log (''User '' @ u_name u @ '' joined organization '' @ ip_organizationId p)
                                 (ip_invitedById p) (ip_organizationId p) s2))))))"

text \<open>\<^verbatim>\<open>invitation.create\<close> with its link to an organisation: the token is unique and the column \<^verbatim>\<open>url\<close> is
  not nullable.\<close>

definition create_invitation :: "string \<Rightarrow> string option \<Rightarrow> string \<Rightarrow> (string \<Rightarrow> int \<Rightarrow> invitation_row) \<Rightarrow> org_state \<Rightarrow> exn + org_state" where
  "create_invitation linkId url orgId row s =
     (case url of None \<Rightarrow> Inl (PlainError ''Argument url must not be null.'')
      | Some u \<Rightarrow>
          let r = row u (os_nextInvite s)
          in rbind (ensure (\<not> list_ex (\<lambda>i. iv_token i = iv_token r) (os_invitations s)) unique_violation) (\<lambda>_.
             Inr (s\<lparr>os_invitations := os_invitations s @ [r], os_nextInvite := os_nextInvite s + 1,
                    os_orgInvites := os_orgInvites s @ [\<lparr>oi_id = linkId, oi_invitationId = os_nextInvite s, oi_organizationId = orgId\<rparr>]\<rparr>)))"

definition invite_row :: "string \<Rightarrow> string \<Rightarrow> role \<Rightarrow> string \<Rightarrow> int \<Rightarrow> int option \<Rightarrow> string \<Rightarrow> int \<Rightarrow> invitation_row" where
  "invite_row token email r inviter expires sent u i =
     \<lparr>iv_id = i, iv_token = token, iv_used = False, iv_email = Some email, iv_secret = None, iv_groupId = None,
      iv_userGroupId = None, iv_url = u, iv_expiresAt = expires, iv_mailSentAt = sent, iv_timesCanUse = 1,
      iv_timesUsed = 0, iv_invitedById = inviter, iv_role = r\<rparr>"

definition generateInviteLink ::
  "(invite_payload \<Rightarrow> string) \<Rightarrow> string \<Rightarrow> int \<Rightarrow> caller \<Rightarrow> string \<Rightarrow> role \<Rightarrow> string \<Rightarrow> org_state \<Rightarrow> string outcome" where
  "generateInviteLink encode linkId now c orgId r email s =
     with_role c orgId ADMIN (\<lambda>s.
       let token = encode \<lparr>ip_email = Some email, ip_organizationId = orgId, ip_role = r, ip_invitedById = ca_id c,
                          ip_expiresAt = now + 3600000\<rparr>
       in commit s (create_invitation linkId None orgId (invite_row token email r (ca_id c) (now + 3600000) None) s)
            (\<lambda>s1. (Inr token, s1))) s"

definition inviteUserByMail ::
  "(invite_payload \<Rightarrow> string) \<Rightarrow> bool \<Rightarrow> string \<Rightarrow> string \<Rightarrow> int \<Rightarrow> caller \<Rightarrow> string \<Rightarrow> role \<Rightarrow> string \<Rightarrow> org_state \<Rightarrow> string outcome" where
  "inviteUserByMail encode mail_ok baseUrl linkId now c orgId r email s =
     (if email = [] then (Inl (PlainError ''Email cannot be empty.''), s)
      else if orgId = [] then (Inl (PlainError ''Organization ID cannot be empty.''), s)
      else with_role c orgId ADMIN (\<lambda>s.
        if (case find_by_email email s of None \<Rightarrow> False | Some u \<Rightarrow> find_org_role orgId (u_id u) (os_db s) \<noteq> None)
        then (Inl (PlainError ''User is already a member of the organization.''), s)
        else if list_ex (\<lambda>i. iv_email i = Some email \<and> linked orgId i s) (os_invitations s)
        then (Inl (PlainError ''User already has a pending invitation.''), s)
        else case find_org orgId s of
          None \<Rightarrow> (Inl (TRPCError BAD_REQUEST ''Organization not found.''), s)
        | Some g \<Rightarrow>
            let token = encode \<lparr>ip_email = Some email, ip_organizationId = orgId, ip_role = r, ip_invitedById = ca_id c,
                               ip_expiresAt = now + 86400000\<rparr>;
                base = (if baseUrl \<noteq> [] \<and> last baseUrl = CHR ''/'' then butlast baseUrl else baseUrl);
                link = base @ ''/locale-redirect?organizationInvite='' @ token;
                s1 = add_log (''Sent an invitation to '' @ email @ '' to join organization '' @ og_name g) (ca_id c) orgId s
            in if \<not> mail_ok then (Inl (TRPCError BAD_REQUEST ''Failed to send email''), s1)
               else commit s1 (create_invitation linkId (Some link) orgId
                      (invite_row token email r (ca_id c) (now + 86400000) (Some now)) s1)
                      (\<lambda>s2. (Inr link, s2))) s)"

definition resendInvite :: "bool \<Rightarrow> int \<Rightarrow> caller \<Rightarrow> string \<Rightarrow> string \<Rightarrow> org_state \<Rightarrow> unit outcome" where
  "resendInvite mail_ok now c orgId linkId s =
     (case find (\<lambda>l. oi_id l = linkId \<and> oi_organizationId l = orgId) (os_orgInvites s) of
        None \<Rightarrow> (Inl (PlainError ''Invitation not found.''), s)
      | Some l \<Rightarrow>
          (case find (\<lambda>i. iv_id i = oi_invitationId l) (os_invitations s) of
             None \<Rightarrow> (Inl (PlainError ''Cannot read properties of null''), s)
           | Some invite \<Rightarrow>
               if (case iv_mailSentAt invite of None \<Rightarrow> False | Some t \<Rightarrow> t > now - 60000)
               then (Inl (PlainError ''You can only resend an invitation after 1 minute.''), s)
               else with_role c orgId ADMIN (\<lambda>s.
                 if find_org orgId s = None then (Inl (TRPCError BAD_REQUEST ''Organization not found.''), s)
                 else if \<not> mail_ok then (Inl (TRPCError BAD_REQUEST ''Failed to send email''), s)
                 else (Inr (), s\<lparr>os_invitations := map (\<lambda>i. if iv_id i = oi_invitationId l
                         then i\<lparr>iv_mailSentAt := Some now\<rparr> else i) (os_invitations s)\<rparr>)) s))"

definition deleteInvite :: "caller \<Rightarrow> string \<Rightarrow> string \<Rightarrow> org_state \<Rightarrow> unit outcome" where
  "deleteInvite c orgId linkId s =
     with_role c orgId ADMIN (\<lambda>s.
       (Inr (), s\<lparr>os_orgInvites := filter (\<lambda>l. \<not> (oi_organizationId l = orgId \<and> oi_id l = linkId)) (os_orgInvites s)\<rparr>)) s"

record invite_view =
  vw_invite :: org_invite_row
  vw_hasExpired :: bool
  vw_resendable :: bool

definition getInvites :: "int \<Rightarrow> caller \<Rightarrow> string \<Rightarrow> org_state \<Rightarrow> invite_view list outcome" where
  "getInvites now c orgId s =
     with_role c orgId ADMIN (\<lambda>s.
       (Inr (List.map_filter (\<lambda>l. if oi_organizationId l \<noteq> orgId then None
          else map_option (\<lambda>i. \<lparr>vw_invite = l, vw_hasExpired = iv_expiresAt i < now,
                 vw_resendable = (case iv_mailSentAt i of None \<Rightarrow> True | Some t \<Rightarrow> t < now - 60000)\<rparr>)
               (find (\<lambda>i. iv_id i = oi_invitationId l) (os_invitations s))) (os_orgInvites s)), s)) s"

section \<open>Networks\<close>

definition transferNetworkOwnership :: "caller \<Rightarrow> string \<Rightarrow> string \<Rightarrow> org_state \<Rightarrow> unit outcome" where
  "transferNetworkOwnership c orgId nwid s =
     with_role c orgId USER (\<lambda>s.
       if \<not> list_ex (\<lambda>n. n_nwid n = nwid \<and> n_authorId n = Some (ca_id c)) (networks (os_db s)) then (Inl record_missing, s)
       else (Inr (), add_log (''Transferred private network '' @ nwid @ '' to organization '' @ orgId) (ca_id c) orgId
              (s\<lparr>os_db := (os_db s)\<lparr>networks := map (\<lambda>n. if n_nwid n = nwid \<and> n_authorId n = Some (ca_id c)
                   then n\<lparr>n_organizationId := Some orgId, n_authorId := None\<rparr> else n) (networks (os_db s))\<rparr>\<rparr>))) s"

definition add_network :: "network_row \<Rightarrow> org_state \<Rightarrow> exn + org_state" where
  "add_network n s =
     rbind (ensure (find_network (n_nwid n) (os_db s) = None) unique_violation) (\<lambda>_.
     Inr (s\<lparr>os_db := (os_db s)\<lparr>networks := networks (os_db s) @ [n]\<rparr>\<rparr>))"

text \<open>The controller's answer to \<^verbatim>\<open>network_create\<close> is the new network's id and name.\<close>

definition createOrgNetwork ::
  "string \<Rightarrow> (string \<Rightarrow> ipv4_plan \<Rightarrow> (string \<times> string) option) \<Rightarrow> caller \<Rightarrow> string \<Rightarrow> string option \<Rightarrow> org_state \<Rightarrow> string outcome" where
  "createOrgNetwork random_name network_create c orgId networkName s =
     (case (if orgId = [] then Inr () else checkUserOrganizationRole (os_db s) (ca_id c) orgId USER) of
        Inl e \<Rightarrow> (Inl e, s)
      | Inr _ \<Rightarrow>
          let s1 = add_log (''Created a new network: '' @ opt_text networkName) (ca_id c) orgId s;
              used = map n_routeTargets (filter (\<lambda>n. n_organizationId n = Some orgId) (networks (os_db s)));
              plan = IPv4gen None used None;
              name = str_or networkName random_name
          in (case network_create name plan of
                None \<Rightarrow> (Inl (PlainError ''controller''), s1)
              | Some (nwid, _) \<Rightarrow>
                  if find_org orgId s1 = None then (Inl record_missing, s1)
                  else commit s1 (add_network \<lparr>n_nwid = nwid, n_name = Some name, n_authorId = None, n_organizationId = Some orgId,
                              n_routeTargets = map rt_target (plan_routes plan)\<rparr> s1)
                         (\<lambda>s2. (Inr nwid, add_log (''Created a new network: '' @ nwid) (ca_id c) orgId s2))))"

definition network_limit_error :: exn where
  "network_limit_error = TRPCError BAD_REQUEST ''You have reached the maximum number of networks allowed for your user group.''"

definition own_networks :: "string \<Rightarrow> db \<Rightarrow> network_row list" where
  "own_networks userId d = filter (\<lambda>n. n_authorId n = Some userId) (networks d)"

text \<open>Errors other than the limit are reported with one message.\<close>

definition could_not_create :: exn where
  "could_not_create = TRPCError BAD_REQUEST ''Could not create network! Please try again''"

definition networkProvisioningFactory ::
  "string \<Rightarrow> nat option \<Rightarrow> (string \<Rightarrow> ipv4_plan \<Rightarrow> (string \<times> string) option) \<Rightarrow> caller \<Rightarrow> string option \<Rightarrow> bool \<Rightarrow> org_state
     \<Rightarrow> string outcome" where
  "networkProvisioningFactory random_name rnd network_create c name central s =
     (let d = os_db s; mine = own_networks (ca_id c) d;
          grp = (case find_user (ca_id c) d of None \<Rightarrow> None | Some u \<Rightarrow> find_group (u_userGroupId u) d)
      in if (case grp of None \<Rightarrow> False | Some g \<Rightarrow> int (length mine) \<ge> g_maxNetworks g) then (Inl network_limit_error, s)
         else let plan = IPv4gen None (map n_routeTargets mine) (if central then rnd else None)
              in (case network_create (str_or name random_name) plan of
                    None \<Rightarrow> (Inl could_not_create, s)
                  | Some (nwid, nm) \<Rightarrow>
                      if central then (Inr nwid, s)
                      else if find_user (ca_id c) d = None then (Inl could_not_create, s)
                      else (case add_network \<lparr>n_nwid = nwid, n_name = Some nm, n_authorId = Some (ca_id c), n_organizationId = None,
                                 n_routeTargets = map rt_target (plan_routes plan)\<rparr> s of
                              Inl _ \<Rightarrow> (Inl could_not_create, s) | Inr s1 \<Rightarrow> (Inr nwid, s1))))"

text \<open>The role rows have unique keys, the member relation is exactly their keys, every role belongs to an
  organisation, and the owner of an organisation is one of its members.\<close>

definition org_inv :: "org_state \<Rightarrow> bool" where
  "org_inv s \<longleftrightarrow> distinct (map role_key (org_roles (os_db s))) \<and> distinct (map og_id (os_orgs s))
     \<and> set (os_members s) = role_key ` set (org_roles (os_db s))
     \<and> (\<forall>k\<in>role_key ` set (org_roles (os_db s)). snd k \<in> og_id ` set (os_orgs s))
     \<and> (\<forall>g\<in>set (os_orgs s). (og_ownerId g, og_id g) \<in> role_key ` set (org_roles (os_db s)))"

text \<open>The organisation procedures, by any callers in any order.\<close>

inductive org_step :: "org_state \<Rightarrow> org_state \<Rightarrow> bool" where
  "createOrg newId c n t s = (x1, s') \<Longrightarrow> org_step s s'"
| "updateMeta c i n t s = (x2, s') \<Longrightarrow> org_step s s'"
| "changeUserRole c i u r s = (x3, s') \<Longrightarrow> org_step s s'"
| "addUser c i u n r s = (x4, s') \<Longrightarrow> org_step s s'"
| "leave c i u s = (x5, s') \<Longrightarrow> org_step s s'"
| "preValidateUserInvite decode ok now tok s = (x6, s') \<Longrightarrow> org_step s s'"
| "generateInviteLink encode l now c i r e s = (x7, s') \<Longrightarrow> org_step s s'"
| "inviteUserByMail encode ok b l now c i r e s = (x8, s') \<Longrightarrow> org_step s s'"
| "resendInvite ok now c i l s = (x9, s') \<Longrightarrow> org_step s s'"
| "deleteInvite c i l s = (x10, s') \<Longrightarrow> org_step s s'"
| "transferNetworkOwnership c i nw s = (x11, s') \<Longrightarrow> org_step s s'"
| "createOrgNetwork rn nc c i nn s = (x12, s') \<Longrightarrow> org_step s s'"

abbreviation "demo_caller \<equiv> \<lparr>ca_id = ''u1'', ca_name = ''one''\<rparr>"

definition demo_orgs :: org_state where
  "demo_orgs = \<lparr>os_db = demo_db\<lparr>org_roles := [\<lparr>or_userId = ''u1'', or_organizationId = ''o1'', or_role = ADMIN\<rparr>]\<rparr>,
     os_orgs = [\<lparr>og_id = ''o1'', og_name = ''org'', og_description = None, og_ownerId = ''u1''\<rparr>], os_members = [(''u1'', ''o1'')],
     os_invitations = [], os_orgInvites = [], os_log = [], os_nextInvite = 1\<rparr>"

definition org_admin :: "string \<Rightarrow> string \<Rightarrow> org_state \<Rightarrow> bool" where
  "org_admin i u s = (case find_org_role i u (os_db s) of None \<Rightarrow> False | Some r \<Rightarrow> or_role r = ADMIN)"

definition invited_orgs :: org_state where
  "invited_orgs = demo_orgs\<lparr>os_invitations := [invite_row ''tok'' ''u2@x.io'' USER ''u1'' 100 None ''url'' 1],
     os_orgInvites := [\<lparr>oi_id = ''l1'', oi_invitationId = 1, oi_organizationId = ''o1''\<rparr>]\<rparr>"

definition demo_payload :: "string \<Rightarrow> invite_payload option" where
  "demo_payload t = (if t = ''tok'' then Some \<lparr>ip_email = Some ''u2@x.io'', ip_organizationId = ''o1'', ip_role = USER,
     ip_invitedById = ''u1'', ip_expiresAt = 100\<rparr> else None)"

section \<open>Members and roles agree\<close>

lemma org_inv_frame:
  assumes "map role_key (org_roles (os_db s')) = map role_key (org_roles (os_db s))" "os_members s' = os_members s"
    "map (\<lambda>g. (og_ownerId g, og_id g)) (os_orgs s') = map (\<lambda>g. (og_ownerId g, og_id g)) (os_orgs s)"
  shows "org_inv s' = org_inv s"
proof -
  have "map og_id (os_orgs s') = map og_id (os_orgs s)"
    using arg_cong[OF assms(3), of "map snd"] by (simp add: comp_def)
  moreover from this have "og_id ` set (os_orgs s') = og_id ` set (os_orgs s)" by (metis list.set_map)
  moreover have "(\<lambda>g. (og_ownerId g, og_id g)) ` set (os_orgs s') = (\<lambda>g. (og_ownerId g, og_id g)) ` set (os_orgs s)"
    using assms(3) by (metis list.set_map)
  then have "(\<forall>g\<in>set (os_orgs s'). (og_ownerId g, og_id g) \<in> X) = (\<forall>g\<in>set (os_orgs s). (og_ownerId g, og_id g) \<in> X)" for X
    by (metis (no_types, lifting) image_iff)
  moreover have "role_key ` set (org_roles (os_db s')) = role_key ` set (org_roles (os_db s))"
    using assms(1) by (metis list.set_map)
  ultimately show ?thesis by (simp add: org_inv_def assms(1,2))
qed

lemma org_inv_simps [simp]:
  "org_inv (add_log a b c s) = org_inv s" "org_inv (delete_invitations P s) = org_inv s"
  "org_inv (s\<lparr>os_invitations := x\<rparr>) = org_inv s" "org_inv (s\<lparr>os_orgInvites := y\<rparr>) = org_inv s"
  by (rule org_inv_frame; simp add: add_log_def delete_invitations_def Let_def)+

lemma find_org_role_None: "find_org_role o' u d = None \<longleftrightarrow> (u, o') \<notin> role_key ` set (org_roles d)"
  by (auto simp: find_org_role_def find_None_all role_key_def image_iff)

lemma find_org_mem: "find_org i s \<noteq> None \<longleftrightarrow> i \<in> og_id ` set (os_orgs s)"
  by (auto simp: find_org_def find_None_all image_iff)

text \<open>What joining an organisation writes.\<close>

lemma join_org_keys:
  assumes "join_org u i r s = Inr s'"
  shows "map role_key (org_roles (os_db s')) = map role_key (org_roles (os_db s)) @ [(u, i)]"
    "set (os_members s') = insert (u, i) (set (os_members s))" "os_orgs s' = os_orgs s"
    "(u, i) \<notin> role_key ` set (org_roles (os_db s))" "i \<in> og_id ` set (os_orgs s)"
  using assms find_org_mem[of i s]
  by (auto simp: join_org_def rbind_Inr_iff find_org_role_None role_key_def split: if_split_asm)

lemma join_org_inv:
  assumes "org_inv s" "join_org u i r s = Inr s'"
  shows "org_inv s'"
proof -
  note k = join_org_keys[OF assms(2)]
  have "role_key ` set (org_roles (os_db s')) = insert (u, i) (role_key ` set (org_roles (os_db s)))"
    using arg_cong[OF k(1), of set] by simp
  then show ?thesis using assms(1) k unfolding org_inv_def by simp
qed

lemma createOrg_inv:
  assumes "org_inv s" "createOrg newId c n t s = (x, s')"
  shows "org_inv s'"
proof (cases "s' = s")
  case False
  let ?g = "\<lparr>og_id = newId, og_name = n, og_description = t, og_ownerId = ca_id c\<rparr>"
  have j: "join_org (ca_id c) newId ADMIN (s\<lparr>os_orgs := os_orgs s @ [?g]\<rparr>) = Inr s'" and new: "find_org newId s = None"
    using assms(2) False by (auto simp: createOrg_def commit_def rbind_Inr_iff split: sum.split_asm)
  note k = join_org_keys[OF j]
  have "role_key ` set (org_roles (os_db s')) = insert (ca_id c, newId) (role_key ` set (org_roles (os_db s)))"
    using arg_cong[OF k(1), of set] by simp
  moreover have "newId \<notin> og_id ` set (os_orgs s)" using new find_org_mem by blast
  ultimately show ?thesis using assms(1) k unfolding org_inv_def by auto
qed (use assms in simp)

lemma set_org_role_inv [simp]: "org_inv (set_org_role i u r s) = org_inv s"
  by (rule org_inv_frame) (simp_all add: set_org_role_def role_key_def comp_def)

lemma in_networks_inv [simp]: "org_inv (s\<lparr>os_db := (os_db s)\<lparr>networks := ns\<rparr>\<rparr>) = org_inv s"
  by (rule org_inv_frame) simp_all

text \<open>Guards and committed writes pass an invariant on.\<close>

lemma with_role_inv:
  assumes "with_role c i r f s = (x, s')" "org_inv s" "\<And>y t. f s = (y, t) \<Longrightarrow> org_inv t"
  shows "org_inv s'"
  using assms by (auto simp: with_role_def split: sum.split_asm)

lemma commit_inv:
  assumes "commit s m f = (x, s')" "org_inv s" "\<And>t y t'. m = Inr t \<Longrightarrow> f t = (y, t') \<Longrightarrow> org_inv t'"
  shows "org_inv s'"
  using assms by (auto simp: commit_def split: sum.split_asm)

lemma changeUserRole_inv: "org_inv s \<Longrightarrow> changeUserRole c i u t s = (x, s') \<Longrightarrow> org_inv s'"
  by (auto simp: changeUserRole_def Let_def split: sum.split_asm option.split_asm if_split_asm)

lemma addUser_inv: "org_inv s \<Longrightarrow> addUser c i u n r s = (x, s') \<Longrightarrow> org_inv s'"
  by (auto simp: addUser_def Let_def elim!: with_role_inv commit_inv split: if_split_asm dest!: join_org_inv[rotated])

lemma leave_inv:
  assumes "org_inv s" "leave c i u s = (x, s')"
  shows "org_inv s'"
  using assms(2) unfolding leave_def
proof (rule with_role_inv[OF _ assms(1)])
  fix y t
  let ?s1 = "s\<lparr>os_members := filter (\<lambda>p. p \<noteq> (u, i)) (os_members s),
    os_db := (os_db s)\<lparr>org_roles := filter (\<lambda>x. role_key x \<noteq> (u, i)) (org_roles (os_db s))\<rparr>\<rparr>"
  assume o: "(case find_org i s of
         None \<Rightarrow> (Inl (PlainError ''Cannot read properties of null''), s)
       | Some g \<Rightarrow>
           if og_ownerId g = u then (Inl (PlainError ''You cannot kick the organization owner.''), s)
           else if (u, i) \<notin> set (os_members s) then (Inl (PlainError ''User not found in organization.''), s)
           else let s1 = ?s1
                in (Inr (), add_log (''User '' @ (case find_user u (os_db s) of None \<Rightarrow> [] | Some u \<Rightarrow> u_email u)
                                     @ '' left organization.'') (ca_id c) i s1)) = (y, t)"
  have "org_inv ?s1" if "find_org i s = Some g" "og_ownerId g \<noteq> u" for g
  proof -
    have g: "g \<in> set (os_orgs s)" "og_id g = i" using that(1) find_Some_mem unfolding find_org_def by fast+
    have "og_ownerId h \<noteq> u" if "h \<in> set (os_orgs s)" "og_id h = i" for h
      using assms(1) g that \<open>og_ownerId g \<noteq> u\<close> unfolding org_inv_def by (metis find_unique option.inject)
    then show ?thesis
      using assms(1) unfolding org_inv_def by (auto simp: distinct_map_filter image_iff) (metis prod.inject)
  qed
  with o assms(1) show "org_inv t" by (auto simp: Let_def split: option.split_asm if_split_asm)
qed

lemma preValidate_inv: "org_inv s \<Longrightarrow> preValidateUserInvite decode ok now tok s = (x, s') \<Longrightarrow> org_inv s'"
  by (auto simp: preValidateUserInvite_def Let_def elim!: commit_inv split: if_split_asm option.split_asm dest: join_org_inv)


lemma create_invitation_inv: "org_inv s \<Longrightarrow> create_invitation l u i row s = Inr s' \<Longrightarrow> org_inv s'"
  by (rule org_inv_frame[THEN iffD2]) (auto simp: create_invitation_def Let_def rbind_Inr_iff split: option.split_asm)

lemma generateInviteLink_inv: "org_inv s \<Longrightarrow> generateInviteLink encode l now c i r e s = (x, s') \<Longrightarrow> org_inv s'"
  by (auto simp: generateInviteLink_def Let_def elim!: with_role_inv commit_inv dest!: create_invitation_inv[rotated])

lemma inviteUserByMail_inv: "org_inv s \<Longrightarrow> inviteUserByMail encode ok b l now c i r e s = (x, s') \<Longrightarrow> org_inv s'"
  by (auto simp: inviteUserByMail_def Let_def elim!: with_role_inv commit_inv split: if_split_asm option.split_asm
      dest!: create_invitation_inv[rotated])

lemma resendInvite_inv: "org_inv s \<Longrightarrow> resendInvite ok now c i l s = (x, s') \<Longrightarrow> org_inv s'"
  by (auto simp: resendInvite_def Let_def elim!: with_role_inv split: if_split_asm option.split_asm)

lemma deleteInvite_inv: "org_inv s \<Longrightarrow> deleteInvite c i l s = (x, s') \<Longrightarrow> org_inv s'"
  by (auto simp: deleteInvite_def elim!: with_role_inv)

lemma updateMeta_inv:
  assumes "org_inv s" "updateMeta c i n t s = (x, s')"
  shows "org_inv s'"
proof -
  have m: "org_inv (s\<lparr>os_orgs := map (\<lambda>g. if og_id g = i then g\<lparr>og_name := f g, og_description := h g\<rparr> else g) (os_orgs s)\<rparr>) = org_inv s" for s f h
    by (rule org_inv_frame) auto
  show ?thesis using assms by (auto simp: updateMeta_def Let_def m elim!: with_role_inv split: if_split_asm)
qed

lemma add_network_inv: "org_inv s \<Longrightarrow> add_network n s = Inr s' \<Longrightarrow> org_inv s'"
  by (auto simp: add_network_def rbind_Inr_iff)

lemma transferNetworkOwnership_inv: "org_inv s \<Longrightarrow> transferNetworkOwnership c i n s = (x, s') \<Longrightarrow> org_inv s'"
  by (auto simp: transferNetworkOwnership_def elim!: with_role_inv split: if_split_asm)

lemma createOrgNetwork_inv: "org_inv s \<Longrightarrow> createOrgNetwork rn nc c i n s = (x, s') \<Longrightarrow> org_inv s'"
  by (auto simp: createOrgNetwork_def Let_def elim!: commit_inv split: if_split_asm option.split_asm sum.split_asm prod.split_asm
      dest!: add_network_inv[rotated])

interpretation organisations: step_invariant org_step org_inv
proof
  fix s t assume "org_inv s" and "org_step s t"
  then show "org_inv t"
    by (cases rule: org_step.cases[OF \<open>org_step s t\<close>])
      (blast intro: createOrg_inv updateMeta_inv changeUserRole_inv addUser_inv leave_inv preValidate_inv generateInviteLink_inv
        inviteUserByMail_inv resendInvite_inv deleteInvite_inv transferNetworkOwnership_inv createOrgNetwork_inv)+
qed

text \<open>C15. Membership is consistent: after any sequence of organisation procedures by any callers, a user has at most one
  role in an organisation, has one exactly when listed as its member, only in an organisation that exists, and
  the owner is always a member (nobody, the owner included, can remove the owner).\<close>

theorem membership_is_consistent:
  assumes "org_step\<^sup>*\<^sup>* s t" "org_inv s"
  shows "distinct (map role_key (org_roles (os_db t)))
    \<and> (\<forall>u i. (u, i) \<in> set (os_members t) \<longleftrightarrow> find_org_role i u (os_db t) \<noteq> None)
    \<and> (\<forall>g\<in>set (os_orgs t). find_org_role (og_id g) (og_ownerId g) (os_db t) \<noteq> None)"
  using organisations.run_keeps[OF assms] unfolding org_inv_def find_org_role_None by simp

lemma demo_orgs_inv: "org_inv demo_orgs"
  by (simp add: org_inv_def demo_orgs_def role_key_def)

theorem membership_is_consistent_witness:
  "find_org_role ''o1'' ''u1'' (os_db (snd (leave demo_caller ''o1'' ''u1'' demo_orgs))) \<noteq> None"
proof -
  obtain x t where t: "leave demo_caller ''o1'' ''u1'' demo_orgs = (x, t)" by (meson surj_pair)
  then have "org_step\<^sup>*\<^sup>* demo_orgs t" by (blast intro: org_step.intros)
  moreover have "\<lparr>og_id = ''o1'', og_name = ''org'', og_description = None, og_ownerId = ''u1''\<rparr> \<in> set (os_orgs t)"
    using t by (auto simp: leave_def with_role_def add_log_def demo_orgs_def Let_def split: sum.split_asm option.split_asm if_split_asm)
  ultimately show ?thesis using membership_is_consistent[OF _ demo_orgs_inv] t by fastforce
qed


section \<open>Authority\<close>

lemma role_value_admin: "3 \<le> role_value r \<Longrightarrow> r = ADMIN"
  by (cases r) simp_all

lemma role_check_admin: "checkUserOrganizationRole (os_db s) u i ADMIN = Inr x \<Longrightarrow> org_admin i u s"
  by (auto simp: checkUserOrganizationRole_def org_admin_def split: option.split_asm if_split_asm dest: role_value_admin)

lemma find_org_role_log [simp]: "os_db (add_log a b c s) = os_db s"
  by (simp add: add_log_def)

lemma find_role_append: "find_org_role i u (d\<lparr>org_roles := org_roles d @ [x]\<rparr>)
    = (case find_org_role i u d of Some r \<Rightarrow> Some r | None \<Rightarrow> if or_organizationId x = i \<and> or_userId x = u then Some x else None)"
proof -
  have "find P (xs @ [x]) = (case find P xs of Some r \<Rightarrow> Some r | None \<Rightarrow> if P x then Some x else None)" for P xs
    by (induction xs) auto
  then show ?thesis by (simp add: find_org_role_def)
qed

lemma join_org_role:
  assumes "join_org u i r s = Inr s'"
  shows "find_org_role j v (os_db s') = (if j = i \<and> v = u then Some \<lparr>or_userId = u, or_organizationId = i, or_role = r\<rparr> else find_org_role j v (os_db s))"
    "find_org_role i u (os_db s) = None"
  using assms by (auto simp: join_org_def rbind_Inr_iff find_role_append split: option.split)

lemma find_org_role_set:
  "find_org_role j v (os_db (set_org_role i u r s)) = map_option (\<lambda>x. if j = i \<and> v = u then x\<lparr>or_role := r\<rparr> else x) (find_org_role j v (os_db s))"
proof -
  have "find (\<lambda>r. or_organizationId r = j \<and> or_userId r = v) (map (\<lambda>x. if or_organizationId x = i \<and> or_userId x = u then x\<lparr>or_role := r\<rparr> else x) rs)
      = map_option (\<lambda>x. if j = i \<and> v = u then x\<lparr>or_role := r\<rparr> else x) (find (\<lambda>r. or_organizationId r = j \<and> or_userId r = v) rs)" for rs
    by (induction rs) auto
  then show ?thesis by (simp add: find_org_role_def set_org_role_def)
qed

lemma find_org_role_remove:
  "find_org_role j v (d\<lparr>org_roles := filter (\<lambda>x. role_key x \<noteq> (u, i)) (org_roles d)\<rparr>) = (if j = i \<and> v = u then None else find_org_role j v d)"
proof -
  have "find (\<lambda>r. or_organizationId r = j \<and> or_userId r = v) (filter (\<lambda>x. role_key x \<noteq> (u, i)) rs)
      = (if j = i \<and> v = u then None else find (\<lambda>r. or_organizationId r = j \<and> or_userId r = v) rs)" for rs
    by (induction rs) (auto simp: role_key_def)
  then show ?thesis by (simp add: find_org_role_def)
qed

lemma set_org_role_local:
  "find_org_role j v (os_db (set_org_role i u r s')) \<noteq> find_org_role j v (os_db s) \<Longrightarrow> os_db s' = os_db s \<Longrightarrow> j = i \<and> v = u"
  by (cases "find_org_role j v (os_db s)") (auto simp: find_org_role_set split: if_split_asm)

text \<open>C16. Only administrators manage members: a role row that differs after a call belongs to the organisation and the
  user the call names; changing a role or adding a user takes an administrator of that organisation, nobody
  changes their own role, removing takes an administrator or the user itself, and a failing call changes no role.\<close>

theorem only_admins_manage_members:
  assumes "find_org_role j v (os_db s') \<noteq> find_org_role j v (os_db s)" "i \<noteq> []"
    and "changeUserRole c i u t s = (x, s') \<or> addUser c i u n r s = (x, s') \<or> leave c i u s = (x, s')"
  shows "j = i \<and> v = u \<and> x = Inr () \<and> (org_admin i (ca_id c) s \<or> leave c i u s = (x, s') \<and> ca_id c = u)
    \<and> (changeUserRole c i u t s = (x, s') \<longrightarrow> ca_id c \<noteq> u)"
  using assms(3)
proof (elim disjE)
  assume a: "changeUserRole c i u t s = (x, s')"
  then show ?thesis using assms(1,2) role_check_admin[of s "ca_id c" i]
    by (auto simp: changeUserRole_def Let_def split: sum.split_asm option.split_asm if_split_asm dest: set_org_role_local)
next
  assume a: "addUser c i u n r s = (x, s')"
  then have "j = i \<and> v = u \<and> x = Inr () \<and> org_admin i (ca_id c) s"
    using assms(1) role_check_admin[of s "ca_id c" i]
    by (auto simp: addUser_def with_role_def commit_def Let_def join_org_role split: sum.split_asm option.split_asm if_split_asm)
  moreover have "\<not> changeUserRole c i u t s = (x, s')" if "ca_id c = u"
    using that assms(1) by (auto simp: changeUserRole_def)
  ultimately show ?thesis by blast
next
  assume a: "leave c i u s = (x, s')"
  then have "j = i \<and> v = u \<and> x = Inr () \<and> (org_admin i (ca_id c) s \<or> ca_id c = u)"
    using assms(1) role_check_admin[of s "ca_id c" i]
    by (auto simp: leave_def with_role_def Let_def find_org_role_remove split: sum.split_asm option.split_asm if_split_asm)
  moreover have "\<not> changeUserRole c i u t s = (x, s')" if "ca_id c = u"
    using that assms(1) by (auto simp: changeUserRole_def)
  ultimately show ?thesis using a by blast
qed

theorem only_admins_manage_members_witness:
  "org_admin ''o1'' ''u1'' demo_orgs \<and> find_org_role ''o1'' ''u2'' (os_db (snd (addUser demo_caller ''o1'' ''u2'' ''two'' USER demo_orgs))) \<noteq> None"
proof -
  let ?a = "addUser demo_caller ''o1'' ''u2'' ''two'' USER demo_orgs"
  have f: "find_org_role ''o1'' ''u2'' (os_db (snd ?a)) \<noteq> None" "find_org_role ''o1'' ''u2'' (os_db demo_orgs) = None" by code_simp+
  from f only_admins_manage_members[of "''o1''" "''u2''" "snd ?a" demo_orgs "''o1''" demo_caller "''u2''" "[]" "fst ?a" "''two''" USER]
  have "org_admin ''o1'' ''u1'' demo_orgs \<or> leave demo_caller ''o1'' ''u2'' demo_orgs = (fst ?a, snd ?a) \<and> ''u1'' = ''u2''" by simp
  with f(1) show ?thesis by simp
qed

section \<open>Invitations\<close>

text \<open>Revoking an invitation does not revoke it: deleting an invitation removes only its link to the organisation;
  while the invitation row is unexpired its link still admits the invited existing user with the invited role.\<close>

theorem revoked_invite_still_admits:
  assumes "deleteInvite c i l s = (Inr (), s1)"
    and "tok \<noteq> []" "decode tok = Some p" "ip_email p = Some e"
    and "find (\<lambda>v. iv_token v = tok) (os_invitations s) = Some v" "now \<le> iv_expiresAt v"
    and "find_by_email (normalizeEmail e) s = Some u" "find_user (u_id u) (os_db s) \<noteq> None"
    and "find_org (ip_organizationId p) s \<noteq> None" "find_org_role (ip_organizationId p) (u_id u) (os_db s) = None"
  shows "\<exists>s2. preValidateUserInvite decode True now tok s1 = (Inr (Some (u_id u)), s2)
    \<and> find_org_role (ip_organizationId p) (u_id u) (os_db s2)
        = Some \<lparr>or_userId = u_id u, or_organizationId = ip_organizationId p, or_role = ip_role p\<rparr>"
proof -
  have s1: "os_db s1 = os_db s" "os_invitations s1 = os_invitations s" "os_orgs s1 = os_orgs s"
    using assms(1) by (auto simp: deleteInvite_def with_role_def split: sum.split_asm)
  then have f: "find_by_email (normalizeEmail e) s1 = Some u" "find_org (ip_organizationId p) s1 \<noteq> None"
    using assms by (simp_all add: find_by_email_def find_org_def)
  then obtain s2 where s2: "join_org (u_id u) (ip_organizationId p) (ip_role p) s1 = Inr s2"
    using assms(8,10) s1 by (simp add: join_org_def)
  then show ?thesis
    using assms f s1 join_org_role(1)[OF s2]
    by (auto simp: preValidateUserInvite_def commit_def Let_def delete_invitations_def)
qed

theorem revoked_invite_still_admits_witness:
  "\<exists>s2. preValidateUserInvite demo_payload True 50 ''tok'' (snd (deleteInvite demo_caller ''o1'' ''l1'' invited_orgs)) = (Inr (Some ''u2''), s2)"
proof -
  let ?d = "deleteInvite demo_caller ''o1'' ''l1'' invited_orgs"
  have d: "?d = (Inr (), snd ?d)" by code_simp
  have u: "find_by_email (normalizeEmail ''u2@x.io'') invited_orgs = Some (demo_user ''u2'' USER)"
    "find_user (u_id (demo_user ''u2'' USER)) (os_db invited_orgs) \<noteq> None" "u_id (demo_user ''u2'' USER) = ''u2''"
    "find_org ''o1'' invited_orgs \<noteq> None" "find_org_role ''o1'' ''u2'' (os_db invited_orgs) = None"
    "find (\<lambda>v. iv_token v = ''tok'') (os_invitations invited_orgs) = Some (invite_row ''tok'' ''u2@x.io'' USER ''u1'' 100 None ''url'' 1)"
    by code_simp+
  from revoked_invite_still_admits[OF d, of "''tok''" demo_payload _ "''u2@x.io''" _ 50 "demo_user ''u2'' USER"] u
  show ?thesis by (force simp: demo_payload_def invite_row_def)
qed

text \<open>The organisation's own invite links are never created: the row is written without the required URL.\<close>

lemma generateInviteLink_never_succeeds: "\<not> is_ok (fst (generateInviteLink encode l now c i r e s))"
  by (simp add: generateInviteLink_def with_role_def create_invitation_def commit_def Let_def split: sum.split)

section \<open>Personal networks\<close>

text \<open>The network limit: a successful creation adds one network, owned by the caller, with the routes of the generated
  plan, only while the caller's group allows another one; a refused or failed creation changes nothing.\<close>

theorem network_limit_enforced:
  assumes "networkProvisioningFactory rn rnd nc c name False s = (x, s')"
  shows "case x of
      Inl _ \<Rightarrow> s' = s
    | Inr nwid \<Rightarrow> (\<exists>nm. own_networks (ca_id c) (os_db s') = own_networks (ca_id c) (os_db s) @
          [\<lparr>n_nwid = nwid, n_name = nm, n_authorId = Some (ca_id c), n_organizationId = None,
            n_routeTargets = map rt_target (plan_routes (IPv4gen None (map n_routeTargets (own_networks (ca_id c) (os_db s))) None))\<rparr>])
        \<and> (\<forall>u g. find_user (ca_id c) (os_db s) = Some u \<and> find_group (u_userGroupId u) (os_db s) = Some g
             \<longrightarrow> int (length (own_networks (ca_id c) (os_db s'))) \<le> g_maxNetworks g)"
  using assms
  by (auto simp: networkProvisioningFactory_def Let_def add_network_def rbind_Inr_iff own_networks_def
      split: sum.split_asm option.split_asm if_split_asm)

theorem network_limit_enforced_witness:
  "\<exists>s'. networkProvisioningFactory ''nice-name'' None (\<lambda>n p. Some (''nw1'', n)) demo_caller None False demo_orgs = (Inr ''nw1'', s')
     \<and> length (own_networks ''u1'' (os_db s')) = length (own_networks ''u1'' (os_db demo_orgs)) + 1"
proof -
  let ?r = "networkProvisioningFactory ''nice-name'' None (\<lambda>n p. Some (''nw1'', n)) demo_caller None False demo_orgs"
  have "fst ?r = Inr ''nw1''"
    by (simp add: networkProvisioningFactory_def Let_def demo_orgs_def demo_db_def demo_user_def find_user_def find_group_def
        add_network_def find_network_def own_networks_def)
  then have e: "?r = (Inr ''nw1'', snd ?r)" by (metis prod.collapse)
  from network_limit_enforced[OF e] e show ?thesis by (intro exI[of _ "snd ?r"]) auto
qed

end
