(* ===== verification/Member_Observation.thy ===== *)
theory Member_Observation
  imports Access_Control
begin

text \<open>
  Observing the nodes of a network: the connection status of a member
  (\<^verbatim>\<open>utils/memberConnection.ts\<close>) and the observation that is derived from a controller snapshot
  (\<^verbatim>\<open>server/api/utils/memberObservation.ts\<close>). The address tests of the ip-address package are the
  parameters of \<open>addr_lib\<close>. A partial row is a record of optional fields: \<open>None\<close> is an absent
  property.
\<close>

section \<open>Connection status\<close>

datatype con_status = Offline | Relayed | DirectLAN | DirectWAN | Controller | Unknown

record peer_path =
  pp_active :: bool
  pp_preferred :: bool
  pp_expired :: bool
  pp_address :: string

record peers =
  pr_address :: string
  pr_paths :: "peer_path list option"
  pr_versionMajor :: "int option"
  pr_versionMinor :: "int option"
  pr_versionRev :: "int option"

definition no_peers :: peers where
  "no_peers = \<lparr>pr_address = [], pr_paths = None, pr_versionMajor = None, pr_versionMinor = None, pr_versionRev = None\<rparr>"

definition activePreferredPath :: "peers option \<Rightarrow> peer_path option" where
  "activePreferredPath ps = (case ps of None \<Rightarrow> None | Some p \<Rightarrow>
     (case pr_paths p of None \<Rightarrow> None
      | Some paths \<Rightarrow> find (\<lambda>q. pp_active q \<and> pp_preferred q \<and> \<not> pp_expired q) paths))"

text \<open>The ip-address package: validity of an IPv4 and of an IPv6 address, and membership of an IPv6
  address in \<^verbatim>\<open>fc00::/7\<close> or \<^verbatim>\<open>fe80::/10\<close>.\<close>

record addr_lib =
  v4_valid :: "string \<Rightarrow> bool"
  v6_valid :: "string \<Rightarrow> bool"
  v6_local :: "string \<Rightarrow> bool"

definition strip_brackets :: "string \<Rightarrow> string" where
  "strip_brackets s =
     (let t = (if s \<noteq> [] \<and> hd s = CHR ''['' then tl s else s)
      in if t \<noteq> [] \<and> last t = CHR '']'' then butlast t else t)"

definition octet_no :: "string list \<Rightarrow> nat \<Rightarrow> int option" where
  "octet_no parts i = (case nth_opt parts i of None \<Rightarrow> None
     | Some s \<Rightarrow> (case js_Number s of JDec m k \<Rightarrow> if k = 0 then Some m else None | _ \<Rightarrow> None))"

definition privateAddress :: "addr_lib \<Rightarrow> string \<Rightarrow> bool" where
  "privateAddress lib address =
     (let ip = strip_brackets (hd (js_split (CHR ''/'') address))
      in if v4_valid lib ip
         then (let parts = js_split (CHR ''.'') ip
               in (case octet_no parts 0 of None \<Rightarrow> False
                   | Some a \<Rightarrow> a = 10
                       \<or> (a = 172 \<and> (case octet_no parts 1 of None \<Rightarrow> False | Some b \<Rightarrow> b \<ge> 16 \<and> b \<le> 31))
                       \<or> (a = 192 \<and> octet_no parts 1 = Some 168)
                       \<or> a = 127
                       \<or> (a = 169 \<and> octet_no parts 1 = Some 254)))
         else if v6_valid lib ip then v6_local lib ip \<or> ip = ''::1''
         else False)"

definition is_node_id :: "string \<Rightarrow> bool" where
  "is_node_id s \<longleftrightarrow> length s = 10 \<and> list_all is_hex s"

text \<open>The optional argument \<^verbatim>\<open>online\<close> is \<open>None\<close> when undefined.\<close>

definition determineConnectionStatus ::
  "addr_lib \<Rightarrow> string \<Rightarrow> string \<Rightarrow> peers option \<Rightarrow> bool option \<Rightarrow> bool \<Rightarrow> con_status" where
  "determineConnectionStatus lib mid nwid ps online peersAvailable =
     (if \<not> peersAvailable then Unknown
      else if online = Some False then Offline
      else if is_node_id mid \<and> to_lower (take 10 nwid) = to_lower mid then Controller
      else (case activePreferredPath ps of
          Some path \<Rightarrow> if privateAddress lib (pp_address path) then DirectLAN else DirectWAN
        | None \<Rightarrow> if online = Some True then Relayed else Unknown))"

record assign_modes =
  v6_rfc4193 :: bool
  v6_6plane :: bool
  v6_zt :: bool
  v4_zt_mode :: bool

datatype ip_state = waitingAuthorization | assigned | manualAssignment | notAssigned
  | waitingAssignment | autoAssignmentDisabled

definition memberIpState :: "bool \<Rightarrow> string list \<Rightarrow> bool \<Rightarrow> assign_modes option \<Rightarrow> ip_state" where
  "memberIpState authorized ipAssignments noAutoAssignIps network =
     (if \<not> authorized then waitingAuthorization
      else if ipAssignments \<noteq> [] \<or> (case network of None \<Rightarrow> False | Some n \<Rightarrow> v6_rfc4193 n \<or> v6_6plane n)
      then assigned
      else if noAutoAssignIps then manualAssignment
      else (case network of None \<Rightarrow> notAssigned
            | Some n \<Rightarrow> if v4_zt_mode n \<or> v6_zt n then waitingAssignment else autoAssignmentDisabled))"

section \<open>Controller snapshots\<close>

record status_entry =
  st_observed :: bool
  st_online :: bool
  st_lastSeen :: int
  st_lastOnline :: int

record status_snapshot =
  sn_clock :: int
  sn_controllerStartedAt :: int
  sn_onlineWindowMs :: int
  sn_members :: "(string \<times> status_entry) list"

definition time_ok :: "int \<Rightarrow> bool" where
  "time_ok t \<longleftrightarrow> 0 \<le> t \<and> t \<le> 8640000000000000"

definition entry_ok :: "int \<Rightarrow> string \<times> status_entry \<Rightarrow> bool" where
  "entry_ok clock e \<longleftrightarrow> is_node_id (fst e) \<and> time_ok (st_lastSeen (snd e)) \<and> time_ok (st_lastOnline (snd e))
     \<and> (st_observed (snd e) \<longrightarrow> st_lastSeen (snd e) > 0 \<and> st_lastOnline (snd e) > 0
          \<and> st_lastOnline (snd e) \<le> st_lastSeen (snd e) \<and> st_lastSeen (snd e) \<le> clock)"

definition parseMemberStatus :: "status_snapshot \<Rightarrow> exn + status_snapshot" where
  "parseMemberStatus s =
     rbind (ensure (time_ok (sn_clock s) \<and> time_ok (sn_controllerStartedAt s)
              \<and> 0 < sn_onlineWindowMs s \<and> sn_onlineWindowMs s \<le> 3600000
              \<and> sn_controllerStartedAt s \<le> sn_clock s
              \<and> list_all (entry_ok (sn_clock s)) (sn_members s)) ZodError) (\<lambda>_. Inr s)"

record live_observation =
  lo_snapshot :: "status_snapshot option"
  lo_peers :: "(string \<times> peers) list"
  lo_peersAvailable :: bool
  lo_statusAvailable :: bool

text \<open>A controller call is \<open>None\<close> when it was rejected; the status call may answer \<^verbatim>\<open>null\<close>. A later
  peer with the same address replaces an earlier one in the map.\<close>

definition readLiveObservation :: "peers list option \<Rightarrow> status_snapshot option option \<Rightarrow> live_observation" where
  "readLiveObservation ps answer =
     \<lparr>lo_snapshot = (case answer of None \<Rightarrow> None | Some s \<Rightarrow> s),
      lo_peers = (case ps of None \<Rightarrow> [] | Some l \<Rightarrow> rev (map (\<lambda>p. (pr_address p, p)) l)),
      lo_peersAvailable = (ps \<noteq> None),
      lo_statusAvailable = (answer \<noteq> None)\<rparr>"

section \<open>Member rows and patches\<close>

record member_row =
  m_nodeid :: nat
  m_id :: string
  m_nwid :: string
  m_lastSeen :: "int option"
  m_lastOnlineAt :: "int option"
  m_lastOfflineAt :: "int option"
  m_statusObservedAt :: "int option"
  m_observationControllerStartedAt :: "int option"
  m_sourceLastOnlineAt :: "int option"
  m_notifyOnFirstOnline :: bool
  m_connectionStatus :: "con_status option"
  m_connectionPendingStatus :: "con_status option"
  m_connectionPendingSince :: "int option"
  m_authorized :: "bool option"
  m_physicalAddress :: "string option"
  m_online :: "bool option"
  m_deleted :: "bool option"
  m_permanentlyDeleted :: "bool option"
  m_name :: "string option"
  m_description :: "string option"
  m_address :: "string option"
  m_creationTime :: int
  m_ipAssignments :: "string list"
  m_noAutoAssignIps :: bool
  m_activeBridge :: bool
  m_revision :: "int option"
  m_vMajor :: "int option"
  m_vMinor :: "int option"
  m_vRev :: "int option"
  m_vProto :: "int option"
  m_controllerName :: "string option option"

text \<open>\<open>m_controllerName\<close> stands for the cached controller object: \<open>None\<close> is a NULL column, \<open>Some n\<close> an
  object whose \<^verbatim>\<open>name\<close> is \<open>n\<close>.\<close>

record member_patch =
  d_online :: "bool option"
  d_notifyOnFirstOnline :: "bool option"
  d_statusObservedAt :: "int option"
  d_observationControllerStartedAt :: "int option"
  d_lastSeen :: "int option"
  d_sourceLastOnlineAt :: "int option"
  d_connectionStatus :: "con_status option"
  d_connectionPendingStatus :: "con_status option option"
  d_connectionPendingSince :: "int option option"
  d_lastOnlineAt :: "int option"
  d_lastOfflineAt :: "int option"
  d_physicalAddress :: "string option option"
  d_vMajor :: "int option"
  d_vMinor :: "int option option"
  d_vRev :: "int option option"

definition empty_patch :: member_patch where
  "empty_patch = \<lparr>d_online = None, d_notifyOnFirstOnline = None, d_statusObservedAt = None,
     d_observationControllerStartedAt = None, d_lastSeen = None, d_sourceLastOnlineAt = None,
     d_connectionStatus = None, d_connectionPendingStatus = None, d_connectionPendingSince = None,
     d_lastOnlineAt = None, d_lastOfflineAt = None, d_physicalAddress = None, d_vMajor = None,
     d_vMinor = None, d_vRev = None\<rparr>"

text \<open>Writing a property into a nullable column, into a required one, and a nullable property into a
  nullable column.\<close>

definition put :: "'a option \<Rightarrow> 'a option \<Rightarrow> 'a option" where
  "put p old = (case p of None \<Rightarrow> old | Some v \<Rightarrow> Some v)"

definition put_req :: "'a option \<Rightarrow> 'a \<Rightarrow> 'a" where
  "put_req p old = (case p of None \<Rightarrow> old | Some v \<Rightarrow> v)"

definition apply_patch :: "member_patch \<Rightarrow> member_row \<Rightarrow> member_row" where
  "apply_patch d m = m\<lparr>
     m_online := put (d_online d) (m_online m),
     m_notifyOnFirstOnline := put_req (d_notifyOnFirstOnline d) (m_notifyOnFirstOnline m),
     m_statusObservedAt := put (d_statusObservedAt d) (m_statusObservedAt m),
     m_observationControllerStartedAt := put (d_observationControllerStartedAt d) (m_observationControllerStartedAt m),
     m_lastSeen := put (d_lastSeen d) (m_lastSeen m),
     m_sourceLastOnlineAt := put (d_sourceLastOnlineAt d) (m_sourceLastOnlineAt m),
     m_connectionStatus := put (d_connectionStatus d) (m_connectionStatus m),
     m_connectionPendingStatus := put_req (d_connectionPendingStatus d) (m_connectionPendingStatus m),
     m_connectionPendingSince := put_req (d_connectionPendingSince d) (m_connectionPendingSince m),
     m_lastOnlineAt := put (d_lastOnlineAt d) (m_lastOnlineAt m),
     m_lastOfflineAt := put (d_lastOfflineAt d) (m_lastOfflineAt m),
     m_physicalAddress := put_req (d_physicalAddress d) (m_physicalAddress m),
     m_vMajor := put (d_vMajor d) (m_vMajor m),
     m_vMinor := put_req (d_vMinor d) (m_vMinor m),
     m_vRev := put_req (d_vRev d) (m_vRev m)\<rparr>"

text \<open>The final loop deletes every property whose value equals the stored one.\<close>

definition drop_same :: "'a option \<Rightarrow> 'a option \<Rightarrow> 'a option" where
  "drop_same p old = (if p = old then None else p)"

definition drop_same_req :: "'a option \<Rightarrow> 'a \<Rightarrow> 'a option" where
  "drop_same_req p old = (if p = Some old then None else p)"

definition trim_patch :: "member_row \<Rightarrow> member_patch \<Rightarrow> member_patch" where
  "trim_patch m d = d\<lparr>
     d_online := drop_same (d_online d) (m_online m),
     d_notifyOnFirstOnline := drop_same_req (d_notifyOnFirstOnline d) (m_notifyOnFirstOnline m),
     d_statusObservedAt := drop_same (d_statusObservedAt d) (m_statusObservedAt m),
     d_observationControllerStartedAt := drop_same (d_observationControllerStartedAt d) (m_observationControllerStartedAt m),
     d_lastSeen := drop_same (d_lastSeen d) (m_lastSeen m),
     d_sourceLastOnlineAt := drop_same (d_sourceLastOnlineAt d) (m_sourceLastOnlineAt m),
     d_connectionStatus := drop_same (d_connectionStatus d) (m_connectionStatus m),
     d_connectionPendingStatus := drop_same_req (d_connectionPendingStatus d) (m_connectionPendingStatus m),
     d_connectionPendingSince := drop_same_req (d_connectionPendingSince d) (m_connectionPendingSince m),
     d_lastOnlineAt := drop_same (d_lastOnlineAt d) (m_lastOnlineAt m),
     d_lastOfflineAt := drop_same (d_lastOfflineAt d) (m_lastOfflineAt m)\<rparr>"

section \<open>Observation\<close>

datatype status_source = unavailable | controller | legacy

record observation =
  ob_statusSource :: status_source
  ob_conStatus :: con_status
  ob_online :: "bool option"
  ob_patch :: member_patch

definition source_of :: "member_row \<Rightarrow> live_observation \<Rightarrow> (status_snapshot \<times> status_entry) option" where
  "source_of db live = (case lo_snapshot live of None \<Rightarrow> None
     | Some s \<Rightarrow> (case map_of (sn_members s) (m_id db) of None \<Rightarrow> None | Some e \<Rightarrow> Some (s, e)))"

definition observedFullWindow :: "member_row \<Rightarrow> status_snapshot \<Rightarrow> bool" where
  "observedFullWindow db s \<longleftrightarrow>
     sn_clock s - max (sn_controllerStartedAt s) (m_creationTime db) \<ge> sn_onlineWindowMs s"

text \<open>The snapshot and entry when the status is known.\<close>

definition known_source :: "member_row \<Rightarrow> live_observation \<Rightarrow> (status_snapshot \<times> status_entry) option" where
  "known_source db live = (case source_of db live of None \<Rightarrow> None
     | Some (s, e) \<Rightarrow> if lo_statusAvailable live \<and> (st_observed e \<or> observedFullWindow db s) then Some (s, e) else None)"

definition clear_pending :: "member_patch \<Rightarrow> member_patch" where
  "clear_pending d = d\<lparr>d_connectionPendingStatus := Some None, d_connectionPendingSince := Some None\<rparr>"

text \<open>The debounced connection status of a member that stays online.\<close>

definition continuous :: "member_row \<Rightarrow> int \<Rightarrow> bool" where
  "continuous db clock = (case m_statusObservedAt db of None \<Rightarrow> False | Some t \<Rightarrow> clock - t \<le> 45000)"

definition pending_long :: "member_row \<Rightarrow> int \<Rightarrow> bool" where
  "pending_long db clock = (case m_connectionPendingSince db of None \<Rightarrow> False | Some t \<Rightarrow> clock - t \<ge> 30000)"

definition observe_connection :: "member_row \<Rightarrow> int \<Rightarrow> bool \<Rightarrow> con_status \<Rightarrow> member_patch \<Rightarrow> member_patch" where
  "observe_connection db clock srcOnline st d =
     (if m_online db = Some True \<and> srcOnline \<and> m_connectionStatus db \<noteq> None \<and> m_connectionStatus db \<noteq> Some st
      then if continuous db clock \<and> m_connectionPendingStatus db = Some st \<and> pending_long db clock
           then clear_pending (d\<lparr>d_connectionStatus := Some st\<rparr>)
           else if \<not> continuous db clock \<or> m_connectionPendingStatus db \<noteq> Some st
           then d\<lparr>d_connectionPendingStatus := Some (Some st), d_connectionPendingSince := Some (Some clock)\<rparr>
           else d
      else clear_pending (d\<lparr>d_connectionStatus := Some st\<rparr>))"

definition preserveOnlineSince :: "member_row \<Rightarrow> status_snapshot \<Rightarrow> status_entry \<Rightarrow> bool" where
  "preserveOnlineSince db s e \<longleftrightarrow> m_statusObservedAt db \<noteq> None \<and> m_online db = Some True \<and> m_lastOnlineAt db \<noteq> None
     \<and> (m_observationControllerStartedAt db \<noteq> Some (sn_controllerStartedAt s)
        \<or> m_sourceLastOnlineAt db = Some (st_lastOnline e))"

definition observe_times :: "member_row \<Rightarrow> status_snapshot \<Rightarrow> status_entry \<Rightarrow> member_patch \<Rightarrow> member_patch" where
  "observe_times db s e d =
     (if st_online e
      then d\<lparr>d_lastOnlineAt := (if preserveOnlineSince db s e then m_lastOnlineAt db else Some (st_lastOnline e))\<rparr>
      else if m_statusObservedAt db \<noteq> None \<and> m_online db = Some True
      then d\<lparr>d_lastOfflineAt := Some (min (sn_clock s)
               ((if st_observed e then st_lastSeen e else sn_controllerStartedAt s) + sn_onlineWindowMs s))\<rparr>
      else d)"

definition observe_basic :: "member_row \<Rightarrow> status_snapshot \<Rightarrow> status_entry \<Rightarrow> member_patch \<Rightarrow> member_patch" where
  "observe_basic db s e d =
     (let d1 = d\<lparr>d_online := Some (st_online e),
                 d_notifyOnFirstOnline := (if m_notifyOnFirstOnline db then Some False else d_notifyOnFirstOnline d),
                 d_statusObservedAt := Some (sn_clock s),
                 d_observationControllerStartedAt := Some (sn_controllerStartedAt s)\<rparr>
      in if st_observed e
         then d1\<lparr>d_lastSeen := Some (st_lastSeen e), d_sourceLastOnlineAt := Some (st_lastOnline e)\<rparr> else d1)"

text \<open>The connection status that \<^verbatim>\<open>observeMember\<close> writes into the member.\<close>

definition observed_status :: "addr_lib \<Rightarrow> member_row \<Rightarrow> peers option \<Rightarrow> live_observation \<Rightarrow> con_status" where
  "observed_status lib db ps live =
     (case known_source db live of
        Some (s, e) \<Rightarrow> determineConnectionStatus lib (m_id db) (m_nwid db) ps (Some (st_online e)) (lo_peersAvailable live)
      | None \<Rightarrow> if lo_statusAvailable live \<and> lo_snapshot live = None
                then determineConnectionStatus lib (m_id db) (m_nwid db) ps None (lo_peersAvailable live)
                else Unknown)"

definition observeMember :: "addr_lib \<Rightarrow> member_row \<Rightarrow> peers option \<Rightarrow> live_observation \<Rightarrow> observation" where
  "observeMember lib db ps live =
     (let st = observed_status lib db ps live;
          d0 = (if st = Unknown \<and> m_connectionPendingStatus db \<noteq> None then clear_pending empty_patch else empty_patch)
      in \<lparr>ob_statusSource = (if \<not> lo_statusAvailable live then unavailable
                             else if lo_snapshot live \<noteq> None then controller else legacy),
          ob_conStatus = st,
          ob_online = map_option (\<lambda>(s, e). st_online e) (known_source db live),
          ob_patch = (case known_source db live of
              None \<Rightarrow> d0
            | Some (s, e) \<Rightarrow>
                let d1 = observe_basic db s e d0;
                    d2 = (if st \<noteq> Unknown then observe_connection db (sn_clock s) (st_online e) st d1 else d1)
                in trim_patch db (observe_times db s e d2))\<rparr>)"

text \<open>The untrimmed patch of a known observation.\<close>

definition full_patch :: "member_row \<Rightarrow> status_snapshot \<Rightarrow> status_entry \<Rightarrow> con_status \<Rightarrow> member_patch" where
  "full_patch db s e st =
     (let d0 = (if st = Unknown \<and> m_connectionPendingStatus db \<noteq> None then clear_pending empty_patch else empty_patch);
          d1 = observe_basic db s e d0
      in observe_times db s e
           (if st \<noteq> Unknown then observe_connection db (sn_clock s) (st_online e) st d1 else d1))"

text \<open>The connection fields, by the three cases of the debounce.\<close>

definition flapping :: "member_row \<Rightarrow> status_entry \<Rightarrow> con_status \<Rightarrow> bool" where
  "flapping db e st \<longleftrightarrow> m_online db = Some True \<and> st_online e \<and> m_connectionStatus db \<noteq> None \<and> m_connectionStatus db \<noteq> Some st"

definition settled :: "member_row \<Rightarrow> int \<Rightarrow> con_status \<Rightarrow> bool" where
  "settled db clock st \<longleftrightarrow> continuous db clock \<and> m_connectionPendingStatus db = Some st \<and> pending_long db clock"

definition demo_member :: member_row where
  "demo_member = \<lparr>m_nodeid = 1, m_id = ''1234567890'', m_nwid = ''abcdef0123000001'', m_lastSeen = Some 900000,
     m_lastOnlineAt = Some 5000, m_lastOfflineAt = None, m_statusObservedAt = Some 990000,
     m_observationControllerStartedAt = Some 100, m_sourceLastOnlineAt = Some 5000, m_notifyOnFirstOnline = False,
     m_connectionStatus = Some DirectWAN, m_connectionPendingStatus = Some Relayed, m_connectionPendingSince = Some 960000,
     m_authorized = Some True, m_physicalAddress = None, m_online = Some True, m_deleted = Some False,
     m_permanentlyDeleted = Some False, m_name = Some ''nas'', m_description = None, m_address = Some ''1234567890'',
     m_creationTime = 1, m_ipAssignments = [], m_noAutoAssignIps = False, m_activeBridge = False, m_revision = Some 4,
     m_vMajor = Some 1, m_vMinor = Some 14, m_vRev = Some 0, m_vProto = Some 12, m_controllerName = Some None\<rparr>"

definition demo_lib :: addr_lib where
  "demo_lib = \<lparr>v4_valid = (\<lambda>_. True), v6_valid = (\<lambda>_. False), v6_local = (\<lambda>_. False)\<rparr>"

definition demo_entry :: status_entry where
  "demo_entry = \<lparr>st_observed = True, st_online = True, st_lastSeen = 995000, st_lastOnline = 5000\<rparr>"

definition demo_snapshot :: status_snapshot where
  "demo_snapshot = \<lparr>sn_clock = 1000000, sn_controllerStartedAt = 100, sn_onlineWindowMs = 60000,
     sn_members = [(''1234567890'', demo_entry)]\<rparr>"

definition demo_live :: live_observation where
  "demo_live = readLiveObservation (Some []) (Some (Some demo_snapshot))"

lemmas observation_defs [model_defs] = no_peers_def activePreferredPath_def strip_brackets_def octet_no_def
  privateAddress_def is_node_id_def determineConnectionStatus_def memberIpState_def time_ok_def entry_ok_def
  parseMemberStatus_def readLiveObservation_def empty_patch_def put_def put_req_def apply_patch_def
  drop_same_def drop_same_req_def trim_patch_def source_of_def observedFullWindow_def known_source_def
  clear_pending_def continuous_def pending_long_def observe_connection_def preserveOnlineSince_def
  observe_times_def observe_basic_def observed_status_def observeMember_def

section \<open>What an observation may change\<close>

lemma put_drop [simp]: "put (drop_same p old) old = put p old" "put_req (drop_same_req q r) r = put_req q r"
  by (auto simp: put_def put_req_def drop_same_def drop_same_req_def split: option.split)

lemma put_simps [simp]: "put None x = x" "put (Some v) x = Some v" "put_req None y = y" "put_req (Some w) y = w"
  by (simp_all add: put_def put_req_def)

lemma drop_simps [simp]: "drop_same None x = None" "drop_same x x = None" "drop_same_req None y = None" "drop_same_req (Some y) y = None"
  by (simp_all add: drop_same_def drop_same_req_def)

lemma apply_trim: "apply_patch (trim_patch m d) m = apply_patch d m"
  by (simp add: apply_patch_def trim_patch_def)

lemma apply_empty [simp]: "apply_patch empty_patch m = m"
  by (simp add: apply_patch_def empty_patch_def)

lemma observe_known:
  assumes "known_source db live = Some (s, e)"
  shows "ob_patch (observeMember lib db ps live) = trim_patch db (full_patch db s e (observed_status lib db ps live))"
  using assms by (simp add: observeMember_def full_patch_def Let_def)

lemma observe_unknown:
  assumes "known_source db live = None"
  shows "ob_patch (observeMember lib db ps live) =
    (if observed_status lib db ps live = Unknown \<and> m_connectionPendingStatus db \<noteq> None
     then clear_pending empty_patch else empty_patch)"
  using assms by (simp add: observeMember_def Let_def)

lemma observe_connection_frame:
  "d_online (observe_connection db c b st d) = d_online d"
  "d_notifyOnFirstOnline (observe_connection db c b st d) = d_notifyOnFirstOnline d"
  "d_statusObservedAt (observe_connection db c b st d) = d_statusObservedAt d"
  "d_observationControllerStartedAt (observe_connection db c b st d) = d_observationControllerStartedAt d"
  "d_lastSeen (observe_connection db c b st d) = d_lastSeen d"
  "d_sourceLastOnlineAt (observe_connection db c b st d) = d_sourceLastOnlineAt d"
  "d_lastOnlineAt (observe_connection db c b st d) = d_lastOnlineAt d"
  "d_lastOfflineAt (observe_connection db c b st d) = d_lastOfflineAt d"
  "d_physicalAddress (observe_connection db c b st d) = d_physicalAddress d"
  "d_vMajor (observe_connection db c b st d) = d_vMajor d"
  "d_vMinor (observe_connection db c b st d) = d_vMinor d"
  "d_vRev (observe_connection db c b st d) = d_vRev d"
  by (simp_all add: observe_connection_def clear_pending_def)

lemmas full_patch_unfold = full_patch_def observe_basic_def observe_times_def observe_connection_frame
  clear_pending_def empty_patch_def Let_def

lemma full_patch_fields:
  "d_online (full_patch db s e st) = Some (st_online e)"
  "d_notifyOnFirstOnline (full_patch db s e st) = (if m_notifyOnFirstOnline db then Some False else None)"
  "d_statusObservedAt (full_patch db s e st) = Some (sn_clock s)"
  "d_observationControllerStartedAt (full_patch db s e st) = Some (sn_controllerStartedAt s)"
  "d_lastSeen (full_patch db s e st) = (if st_observed e then Some (st_lastSeen e) else None)"
  "d_sourceLastOnlineAt (full_patch db s e st) = (if st_observed e then Some (st_lastOnline e) else None)"
  "d_lastOnlineAt (full_patch db s e st) = (if st_online e then
     (if preserveOnlineSince db s e then m_lastOnlineAt db else Some (st_lastOnline e)) else None)"
  "d_lastOfflineAt (full_patch db s e st) =
     (if \<not> st_online e \<and> m_statusObservedAt db \<noteq> None \<and> m_online db = Some True
      then Some (min (sn_clock s) ((if st_observed e then st_lastSeen e else sn_controllerStartedAt s) + sn_onlineWindowMs s))
      else None)"
  "d_physicalAddress (full_patch db s e st) = None" "d_vMajor (full_patch db s e st) = None"
  "d_vMinor (full_patch db s e st) = None" "d_vRev (full_patch db s e st) = None"
  by (simp_all add: full_patch_unfold)

lemma full_patch_connection:
  assumes "st \<noteq> Unknown"
  shows "d_connectionStatus (full_patch db s e st) =
       (if flapping db e st \<and> \<not> settled db (sn_clock s) st then None else Some st)"
    and "d_connectionPendingStatus (full_patch db s e st) =
       (if flapping db e st \<and> \<not> settled db (sn_clock s) st
        then if continuous db (sn_clock s) \<and> m_connectionPendingStatus db = Some st then None else Some (Some st)
        else Some None)"
    and "d_connectionPendingSince (full_patch db s e st) =
       (if flapping db e st \<and> \<not> settled db (sn_clock s) st
        then if continuous db (sn_clock s) \<and> m_connectionPendingStatus db = Some st then None else Some (Some (sn_clock s))
        else Some None)"
  using assms
  by (auto simp: full_patch_def observe_basic_def observe_times_def observe_connection_def clear_pending_def
      empty_patch_def Let_def flapping_def settled_def)

lemma full_patch_connection_unknown:
  "d_connectionStatus (full_patch db s e Unknown) = None"
  "d_connectionPendingStatus (full_patch db s e Unknown) = (if m_connectionPendingStatus db \<noteq> None then Some None else None)"
  "d_connectionPendingSince (full_patch db s e Unknown) = (if m_connectionPendingStatus db \<noteq> None then Some None else None)"
  by (simp_all add: full_patch_unfold)

text \<open>A silent controller changes nothing: when the status of a member is not known (the call failed,
  the controller has no observations, or has not watched the member for a full window), whether it is
  online, when it was last seen, came online or went offline, and its recorded connection all stay as
  they are; only a pending connection change can be dropped.\<close>

theorem unknown_status_changes_nothing:
  assumes "known_source db live = None"
  shows "\<exists>p q. apply_patch (ob_patch (observeMember lib db ps live)) db
           = db\<lparr>m_connectionPendingStatus := p, m_connectionPendingSince := q\<rparr>
         \<and> ob_online (observeMember lib db ps live) = None"
proof -
  have "ob_online (observeMember lib db ps live) = None" using assms by (simp add: observeMember_def Let_def)
  moreover have "apply_patch (clear_pending empty_patch) db
      = db\<lparr>m_connectionPendingStatus := None, m_connectionPendingSince := None\<rparr>"
    by (simp add: apply_patch_def clear_pending_def empty_patch_def)
  moreover have "apply_patch empty_patch db
      = db\<lparr>m_connectionPendingStatus := m_connectionPendingStatus db, m_connectionPendingSince := m_connectionPendingSince db\<rparr>"
    by simp
  ultimately show ?thesis
    unfolding observe_unknown[OF assms] by (simp only: split: if_split) blast
qed

text \<open>Debounce: the recorded connection of a member that is and stays online is replaced by a
  different one only after the new one has been pending for 30 seconds without a gap of more than 45
  seconds between observations.\<close>

theorem connection_change_is_debounced:
  assumes "known_source db live = Some (s, e)" "m_online db = Some True" "st_online e"
    and "m_connectionStatus db = Some old"
    and "m_connectionStatus (apply_patch (ob_patch (observeMember lib db ps live)) db) = Some new" "new \<noteq> old"
  shows "\<exists>t0 t1. m_connectionPendingStatus db = Some new \<and> m_connectionPendingSince db = Some t0
           \<and> m_statusObservedAt db = Some t1 \<and> sn_clock s - t0 \<ge> 30000 \<and> sn_clock s - t1 \<le> 45000"
proof -
  let ?st = "observed_status lib db ps live"
  have new: "put (d_connectionStatus (full_patch db s e ?st)) (Some old) = Some new"
    using assms(4,5) by (simp add: observe_known[OF assms(1)] apply_trim) (simp add: apply_patch_def)
  then have st: "?st \<noteq> Unknown" using assms(6) by (auto simp: full_patch_connection_unknown)
  then have "flapping db e ?st \<longrightarrow> settled db (sn_clock s) ?st" "?st = new"
    using new assms(6) by (auto simp: full_patch_connection split: if_split_asm)
  then have "settled db (sn_clock s) new" using assms(2-4,6) by (auto simp: flapping_def)
  then show ?thesis by (auto simp: settled_def continuous_def pending_long_def split: option.split_asm)
qed

lemma known_source_cong:
  "m_id db' = m_id db \<Longrightarrow> m_creationTime db' = m_creationTime db \<Longrightarrow> known_source db' live = known_source db live"
  by (simp add: known_source_def source_of_def observedFullWindow_def cong: option.case_cong)

lemma observed_status_cong:
  assumes "m_id db' = m_id db" "m_nwid db' = m_nwid db" "m_creationTime db' = m_creationTime db"
  shows "observed_status lib db' ps live = observed_status lib db ps live"
  unfolding observed_status_def known_source_cong[OF assms(1,3)] by (simp only: assms)

lemma apply_patch_keys [simp]:
  "m_id (apply_patch d m) = m_id m" "m_nwid (apply_patch d m) = m_nwid m" "m_creationTime (apply_patch d m) = m_creationTime m"
  by (simp_all add: apply_patch_def)

lemma trim_emptyI:
  assumes "drop_same (d_online d) (m_online m) = None"
    "drop_same_req (d_notifyOnFirstOnline d) (m_notifyOnFirstOnline m) = None"
    "drop_same (d_statusObservedAt d) (m_statusObservedAt m) = None"
    "drop_same (d_observationControllerStartedAt d) (m_observationControllerStartedAt m) = None"
    "drop_same (d_lastSeen d) (m_lastSeen m) = None"
    "drop_same (d_sourceLastOnlineAt d) (m_sourceLastOnlineAt m) = None"
    "drop_same (d_connectionStatus d) (m_connectionStatus m) = None"
    "drop_same_req (d_connectionPendingStatus d) (m_connectionPendingStatus m) = None"
    "drop_same_req (d_connectionPendingSince d) (m_connectionPendingSince m) = None"
    "drop_same (d_lastOnlineAt d) (m_lastOnlineAt m) = None"
    "drop_same (d_lastOfflineAt d) (m_lastOfflineAt m) = None"
    "d_physicalAddress d = None" "d_vMajor d = None" "d_vMinor d = None" "d_vRev d = None"
  shows "trim_patch m d = empty_patch"
  using assms by (simp add: trim_patch_def empty_patch_def)

lemma connection_stable:
  fixes db s e st
  defines "db' \<equiv> apply_patch (full_patch db s e st) db" and "d \<equiv> full_patch (apply_patch (full_patch db s e st) db) s e st"
  shows "drop_same (d_connectionStatus d) (m_connectionStatus db') = None"
    and "drop_same_req (d_connectionPendingStatus d) (m_connectionPendingStatus db') = None"
    and "drop_same_req (d_connectionPendingSince d) (m_connectionPendingSince db') = None"
proof -
  let ?c = "sn_clock s" and ?d = "full_patch db s e st"
  have f: "m_connectionStatus db' = put (d_connectionStatus ?d) (m_connectionStatus db)"
    "m_connectionPendingStatus db' = put_req (d_connectionPendingStatus ?d) (m_connectionPendingStatus db)"
    "m_connectionPendingSince db' = put_req (d_connectionPendingSince ?d) (m_connectionPendingSince db)"
    "m_online db' = Some (st_online e)" "m_statusObservedAt db' = Some ?c"
    by (simp_all add: db'_def apply_patch_def full_patch_fields)
  have c: "continuous db' ?c" by (simp add: continuous_def f)
  have "drop_same (d_connectionStatus d) (m_connectionStatus db') = None
     \<and> drop_same_req (d_connectionPendingStatus d) (m_connectionPendingStatus db') = None
     \<and> drop_same_req (d_connectionPendingSince d) (m_connectionPendingSince db') = None"
  proof (cases "st = Unknown")
    case True
    then show ?thesis using f(2) unfolding d_def db'_def[symmetric]
      by (simp add: full_patch_connection_unknown)
  next
    case False
    note p = full_patch_connection[OF False, of db s e] and p' = full_patch_connection[OF False, of db' s e]
    show ?thesis
    proof (cases "flapping db e st \<and> \<not> settled db ?c st")
      case True
      then have "flapping db' e st" "m_connectionPendingStatus db' = Some st" "\<not> pending_long db' ?c"
        using f p by (auto simp: flapping_def settled_def pending_long_def)
      then show ?thesis using c unfolding d_def db'_def[symmetric] p' by (simp add: settled_def)
    next
      case cs: False
      then have "m_connectionStatus db' = Some st" "m_connectionPendingStatus db' = None" "m_connectionPendingSince db' = None"
        using f(1-3) p by auto
      then show ?thesis unfolding d_def db'_def[symmetric] p' by (simp add: flapping_def)
    qed
  qed
  then show "drop_same (d_connectionStatus d) (m_connectionStatus db') = None"
    and "drop_same_req (d_connectionPendingStatus d) (m_connectionPendingStatus db') = None"
    and "drop_same_req (d_connectionPendingSince d) (m_connectionPendingSince db') = None" by auto
qed

lemma full_patch_stable:
  assumes "st_online e \<Longrightarrow> st_observed e"
  shows "trim_patch (apply_patch (full_patch db s e st) db) (full_patch (apply_patch (full_patch db s e st) db) s e st) = empty_patch"
proof -
  let ?db = "apply_patch (full_patch db s e st) db"
  have f: "m_online ?db = Some (st_online e)" "m_notifyOnFirstOnline ?db = False" "m_statusObservedAt ?db = Some (sn_clock s)"
    "m_observationControllerStartedAt ?db = Some (sn_controllerStartedAt s)"
    "st_observed e \<Longrightarrow> m_lastSeen ?db = Some (st_lastSeen e)"
    "st_observed e \<Longrightarrow> m_sourceLastOnlineAt ?db = Some (st_lastOnline e)"
    by (simp_all add: apply_patch_def full_patch_fields)
  have "st_online e \<Longrightarrow> m_lastOnlineAt ?db \<noteq> None"
    by (auto simp: apply_patch_def full_patch_fields preserveOnlineSince_def)
  then have pres: "st_online e \<Longrightarrow> preserveOnlineSince ?db s e"
    using f assms by (simp add: preserveOnlineSince_def)
  show ?thesis
    by (rule trim_emptyI) (use f pres connection_stable in \<open>simp_all add: full_patch_fields\<close>)
qed

text \<open>Observing twice: observing the same controller answer again, on the row that the first
  observation left, produces no update, so an unchanged member is not written back. (The controller
  reports a member online only if it has observed it.)\<close>

theorem observation_is_idempotent:
  assumes "\<And>s e. known_source db live = Some (s, e) \<Longrightarrow> st_online e \<Longrightarrow> st_observed e"
  shows "ob_patch (observeMember lib (apply_patch (ob_patch (observeMember lib db ps live)) db) ps live) = empty_patch"
proof -
  let ?st = "observed_status lib db ps live"
  have k: "known_source (apply_patch d db) live = known_source db live"
    "observed_status lib (apply_patch d db) ps live = ?st" for d
    by (rule known_source_cong observed_status_cong; simp)+
  show ?thesis
  proof (cases "known_source db live")
    case None
    have "m_connectionPendingStatus (apply_patch (clear_pending empty_patch) db) = None"
      by (simp add: apply_patch_def clear_pending_def)
    then show ?thesis using None by (auto simp: observe_unknown k)
  next
    case (Some p)
    then obtain s e where se: "known_source db live = Some (s, e)" by (cases p) simp
    show ?thesis
      unfolding observe_known[OF se] apply_trim
      by (subst observe_known[where s = s and e = e]) (use se full_patch_stable[of e db s ?st] assms in \<open>simp_all add: k\<close>)
  qed
qed

text \<open>Honest times: after an observation of a valid snapshot, the time a member was last seen, came
  online or went offline is either the stored one or one the controller reported (a departure: at most
  the online window after the last sign of life), never later than the controller's clock; and a
  controller restart does not move the time since when an online member has been online.\<close>

theorem observed_times_are_honest:
  assumes "known_source db live = Some (s, e)" and "is_ok (parseMemberStatus s)" and "st_online e \<Longrightarrow> st_observed e"
    and "m' = apply_patch (ob_patch (observeMember lib db ps live)) db"
  shows "(m_lastSeen m' = m_lastSeen db \<or> (m_lastSeen m' = Some (st_lastSeen e) \<and> st_lastSeen e \<le> sn_clock s))
    \<and> (m_lastOnlineAt m' = m_lastOnlineAt db \<or> (m_lastOnlineAt m' = Some (st_lastOnline e) \<and> st_lastOnline e \<le> sn_clock s))
    \<and> (m_lastOfflineAt m' = m_lastOfflineAt db \<or> (\<exists>t. m_lastOfflineAt m' = Some t \<and> t \<le> sn_clock s))
    \<and> (if st_online e \<and> m_online db = Some True \<and> m_statusObservedAt db \<noteq> None \<and> m_lastOnlineAt db \<noteq> None
           \<and> m_observationControllerStartedAt db \<noteq> Some (sn_controllerStartedAt s)
        then m_lastOnlineAt m' = m_lastOnlineAt db else True)"
proof -
  let ?d = "full_patch db s e (observed_status lib db ps live)"
  have m': "m' = apply_patch ?d db" unfolding assms(4) observe_known[OF assms(1)] by (rule apply_trim)
  have "map_of (sn_members s) (m_id db) = Some e"
    using assms(1) by (auto simp: known_source_def source_of_def split: option.split_asm if_split_asm)
  then have "(m_id db, e) \<in> set (sn_members s)" by (rule map_of_SomeD)
  then have "entry_ok (sn_clock s) (m_id db, e)"
    using assms(2) by (auto simp: is_ok_iff parseMemberStatus_def rbind_Inr_iff list_all_iff)
  then have o: "st_observed e \<Longrightarrow> st_lastSeen e \<le> sn_clock s \<and> st_lastOnline e \<le> sn_clock s"
    by (auto simp: entry_ok_def)
  have f: "m_lastSeen m' = put (d_lastSeen ?d) (m_lastSeen db)"
    "m_lastOnlineAt m' = put (d_lastOnlineAt ?d) (m_lastOnlineAt db)"
    "m_lastOfflineAt m' = put (d_lastOfflineAt ?d) (m_lastOfflineAt db)"
    by (simp_all add: m' apply_patch_def)
  have "m_lastSeen m' = m_lastSeen db \<or> (m_lastSeen m' = Some (st_lastSeen e) \<and> st_lastSeen e \<le> sn_clock s)"
    using o f(1) by (simp add: full_patch_fields)
  moreover have "m_lastOnlineAt m' = m_lastOnlineAt db \<or> (m_lastOnlineAt m' = Some (st_lastOnline e) \<and> st_lastOnline e \<le> sn_clock s)"
    using o assms(3) f(2) by (auto simp: full_patch_fields preserveOnlineSince_def)
  moreover have "m_lastOfflineAt m' = m_lastOfflineAt db \<or> (\<exists>t. m_lastOfflineAt m' = Some t \<and> t \<le> sn_clock s)"
    using f(3) by (simp add: full_patch_fields)
  moreover have "preserveOnlineSince db s e \<Longrightarrow> m_lastOnlineAt m' = m_lastOnlineAt db"
    using f(2) by (auto simp: full_patch_fields preserveOnlineSince_def)
  ultimately show ?thesis by (simp add: preserveOnlineSince_def)
qed

section \<open>Instances\<close>

lemma demo_known: "known_source demo_member demo_live = Some (demo_snapshot, demo_entry)"
  by code_simp

theorem unknown_status_changes_nothing_witness:
  "\<exists>p q. apply_patch (ob_patch (observeMember demo_lib demo_member None (readLiveObservation None None))) demo_member
     = demo_member\<lparr>m_connectionPendingStatus := p, m_connectionPendingSince := q\<rparr>"
proof -
  have "known_source demo_member (readLiveObservation None None) = None" by code_simp
  from unknown_status_changes_nothing[OF this] show ?thesis by blast
qed

theorem connection_change_is_debounced_witness:
  "\<exists>t0. m_connectionPendingSince demo_member = Some t0 \<and> 1000000 - t0 \<ge> (30000::int)"
proof -
  have a: "m_online demo_member = Some True" "st_online demo_entry" "m_connectionStatus demo_member = Some DirectWAN"
    "m_connectionStatus (apply_patch (ob_patch (observeMember demo_lib demo_member None demo_live)) demo_member) = Some Relayed"
    "Relayed \<noteq> DirectWAN" "sn_clock demo_snapshot = 1000000" by code_simp+
  show ?thesis using connection_change_is_debounced[OF demo_known a(1-5)] a(6) by auto
qed

theorem observation_is_idempotent_witness:
  "ob_patch (observeMember demo_lib
     (apply_patch (ob_patch (observeMember demo_lib demo_member None demo_live)) demo_member) None demo_live) = empty_patch"
  by (rule observation_is_idempotent) (auto simp: demo_known demo_entry_def)

theorem observed_times_are_honest_witness:
  "m_lastOnlineAt (apply_patch (ob_patch (observeMember demo_lib demo_member None demo_live)) demo_member) = Some 5000
   \<and> st_lastOnline demo_entry \<le> sn_clock demo_snapshot"
proof -
  have p: "is_ok (parseMemberStatus demo_snapshot)" "st_observed demo_entry" "st_lastOnline demo_entry = 5000"
    "m_lastOnlineAt demo_member = Some 5000" "sn_clock demo_snapshot = 1000000" by code_simp+
  show ?thesis using observed_times_are_honest[OF demo_known p(1) _ refl, of demo_lib None] p(2-5) by auto
qed

end
