(* ===== verification/Notifications.thy ===== *)
theory Notifications
  imports Member_Observation
begin

text \<open>
  Notifications: the template language (\<^verbatim>\<open>utils/notificationTemplates.ts\<close>), the events and the
  outbox of \<^verbatim>\<open>server/notifications/service.ts\<close>, and the administrator's operations on them
  (\<^verbatim>\<open>server/api/routers/notificationRouter.ts\<close>). Texts are lists of UTF-16 code units, because
  the code slices and measures them and most literals are Chinese; \<open>asc\<close> embeds an ASCII literal.
  Parameters: \<open>fp\<close> (the SHA-256 fingerprint of the destination), \<open>uuid\<close> (the random id),
  \<open>gateway\<close> (whether the push gateway confirmed a delivery) and the clock.
\<close>

section \<open>Texts\<close>

type_synonym jstext = "int list"

definition asc :: "string \<Rightarrow> jstext" where
  "asc s = map of_char s"

text \<open>\<^verbatim>\<open>\s\<close> of a JavaScript regular expression.\<close>

definition is_ws :: "int \<Rightarrow> bool" where
  "is_ws c \<longleftrightarrow> c \<in> {9, 10, 11, 12, 13, 32, 160, 5760, 8232, 8233, 8239, 8287, 12288, 65279} \<or> (8192 \<le> c \<and> c \<le> 8202)"

definition is_letter :: "int \<Rightarrow> bool" where
  "is_letter c \<longleftrightarrow> (65 \<le> c \<and> c \<le> 90) \<or> (97 \<le> c \<and> c \<le> 122)"

definition key_char :: "int \<Rightarrow> bool" where
  "key_char c \<longleftrightarrow> is_letter c \<or> (48 \<le> c \<and> c \<le> 57) \<or> c = 46"

fun contains2 :: "int \<Rightarrow> int \<Rightarrow> jstext \<Rightarrow> bool" where
  "contains2 a b (x # y # r) = ((x = a \<and> y = b) \<or> contains2 a b (y # r))"
| "contains2 a b _ = False"

text \<open>\<^verbatim>\<open>Date.prototype.toISOString\<close> for times from 1970 on: the civil date of a day number (days are
  counted from 1 March of year 0, in eras of 400 years).\<close>

definition pad0 :: "nat \<Rightarrow> nat \<Rightarrow> string" where
  "pad0 k n = replicate (k - length (nat_str n)) (CHR ''0'') @ nat_str n"

definition civil :: "nat \<Rightarrow> nat \<times> nat \<times> nat" where
  "civil day =
     (let z = day + 719468; era = z div 146097; doe = z mod 146097;
          yoe = (doe - doe div 1460 + doe div 36524 - doe div 146096) div 365;
          doy = doe - (365 * yoe + yoe div 4 - yoe div 100);
          mp = (5 * doy + 2) div 153;
          d = doy - (153 * mp + 2) div 5 + 1;
          m = (if mp < 10 then mp + 3 else mp - 9);
          y = yoe + era * 400 + (if m \<le> 2 then 1 else 0)
      in (y, m, d))"

definition iso_date :: "int \<Rightarrow> string" where
  "iso_date t =
     (let ms = nat t; (y, m, d) = civil (ms div 86400000); r = ms mod 86400000
      in (if y \<le> 9999 then pad0 4 y else CHR ''+'' # pad0 6 y) @ ''-'' @ pad0 2 m @ ''-'' @ pad0 2 d @ ''T''
         @ pad0 2 (r div 3600000) @ '':'' @ pad0 2 (r div 60000 mod 60) @ '':'' @ pad0 2 (r div 1000 mod 60)
         @ ''.'' @ pad0 3 (r mod 1000) @ ''Z'')"

section \<open>Events and variables\<close>

datatype event_type = NodeAdded | NodeOnline | NodeOffline | NodeConnectionChanged
  | NodeAuthorized | NodeDeauthorized | NodeConfigChanged | NodeRemoved
  | UserLoginSucceeded | UserPasswordChanged | UserPasswordResetCompleted

fun event_name :: "event_type \<Rightarrow> string" where
  "event_name NodeAdded = ''node.added''"
| "event_name NodeOnline = ''node.online''"
| "event_name NodeOffline = ''node.offline''"
| "event_name NodeConnectionChanged = ''node.connection.changed''"
| "event_name NodeAuthorized = ''node.authorized''"
| "event_name NodeDeauthorized = ''node.deauthorized''"
| "event_name NodeConfigChanged = ''node.config.changed''"
| "event_name NodeRemoved = ''node.removed''"
| "event_name UserLoginSucceeded = ''user.login.succeeded''"
| "event_name UserPasswordChanged = ''user.password.changed''"
| "event_name UserPasswordResetCompleted = ''user.password.reset_completed''"

fun eventLabels :: "event_type \<Rightarrow> jstext" where
  "eventLabels NodeAdded = [33410, 28857, 26032, 22686]"
| "eventLabels NodeOnline = [33410, 28857, 19978, 32447]"
| "eventLabels NodeOffline = [33410, 28857, 31163, 32447]"
| "eventLabels NodeConnectionChanged = [36830, 25509, 29366, 24577, 25913, 21464]"
| "eventLabels NodeAuthorized = [33410, 28857, 24050, 25480, 26435]"
| "eventLabels NodeDeauthorized = [33410, 28857, 21462, 28040, 25480, 26435]"
| "eventLabels NodeConfigChanged = [33410, 28857, 37197, 32622, 25913, 21464]"
| "eventLabels NodeRemoved = [33410, 28857, 31227, 38500]"
| "eventLabels UserLoginSucceeded = [29992, 25143, 30331, 24405]"
| "eventLabels UserPasswordChanged = [29992, 25143, 20462, 25913, 23494, 30721]"
| "eventLabels UserPasswordResetCompleted = [23494, 30721, 37325, 32622, 23436, 25104]"

definition eventTypes :: "event_type list" where
  "eventTypes = [NodeAdded, NodeOnline, NodeOffline, NodeConnectionChanged,
     NodeAuthorized, NodeDeauthorized, NodeConfigChanged, NodeRemoved,
     UserLoginSucceeded, UserPasswordChanged, UserPasswordResetCompleted]"

definition notificationVariables :: "string list" where
  "notificationVariables = [''event.id'', ''event.type'', ''event.time'', ''network.id'', ''network.name'', ''node.id'',
    ''node.name'', ''node.ips'', ''node.physicalAddress'', ''node.version'', ''node.authorized'',
    ''node.lastOnline'', ''node.lastSeen'', ''node.duration'', ''change.before'', ''change.after'',
    ''user.name'', ''user.email'', ''user.ip'', ''user.device'', ''actor.name'',
    ''action.suggestion'', ''action.url'']"

text \<open>A context binds variable names to texts; a later binding replaces an earlier one, so the
  list has the newest first.\<close>

type_synonym ctx = "(jstext \<times> jstext) list"

definition bind_ctx :: "(string \<times> jstext) list \<Rightarrow> ctx" where
  "bind_ctx bs = map (\<lambda>b. (asc (fst b), snd b)) bs"

section \<open>Templates\<close>

text \<open>A placeholder at the head of a text: its key and what follows it.\<close>

fun match_var :: "jstext \<Rightarrow> (jstext \<times> jstext) option" where
  "match_var (a # b # r) =
     (if a = 123 \<and> b = 123 then
        let r1 = dropWhile is_ws r; key = takeWhile key_char r1; r3 = dropWhile is_ws (dropWhile key_char r1)
        in if key \<noteq> [] \<and> is_letter (hd key) \<and> take 2 r3 = [125, 125] then Some (key, drop 2 r3) else None
      else None)"
| "match_var _ = None"

datatype piece = Lit int | Var jstext

lemma match_var_shorter: "match_var t = Some (k, r) \<Longrightarrow> length r < length t"
proof (induction t rule: match_var.induct)
  case (1 a b u)
  let ?r3 = "dropWhile is_ws (dropWhile key_char (dropWhile is_ws u))"
  have "length ?r3 \<le> length u"
    by (meson le_trans length_dropWhile_le)
  moreover have "r = drop 2 ?r3" using "1.prems" by (simp add: Let_def split: if_split_asm)
  ultimately show ?case by simp
qed simp_all

text \<open>The non-overlapping matches from left to right, with the characters between them.\<close>

function pieces :: "jstext \<Rightarrow> piece list" where
  "pieces [] = []"
| "pieces (c # t) = (case match_var (c # t) of Some (k, r) \<Rightarrow> Var k # pieces r | None \<Rightarrow> Lit c # pieces t)"
  by pat_completeness auto
termination
  by (relation "measure length") (use match_var_shorter in fastforce)+

definition literals :: "piece list \<Rightarrow> jstext" where
  "literals ps = concat (map (\<lambda>p. case p of Lit c \<Rightarrow> [c] | Var _ \<Rightarrow> []) ps)"

definition keys_of :: "piece list \<Rightarrow> jstext list" where
  "keys_of ps = concat (map (\<lambda>p. case p of Lit _ \<Rightarrow> [] | Var k \<Rightarrow> [k]) ps)"

datatype template_error = ExecutableCode | UnknownVariable jstext | MalformedVariable

definition allowed :: "jstext \<Rightarrow> bool" where
  "allowed k = list_ex (\<lambda>v. asc v = k) notificationVariables"

definition validateNotificationText :: "jstext \<Rightarrow> template_error + unit" where
  "validateNotificationText value =
     rbind (ensure (\<not> (contains2 60 37 value \<or> contains2 37 62 value)) ExecutableCode) (\<lambda>_.
     rbind (case find (\<lambda>k. \<not> allowed k) (keys_of (pieces value)) of
              Some k \<Rightarrow> Inl (UnknownVariable k) | None \<Rightarrow> Inr ()) (\<lambda>_.
     (let remainder = literals (pieces value)
      in ensure (\<not> (contains2 123 123 remainder \<or> contains2 125 125 remainder)) MalformedVariable)))"

definition is_control :: "int \<Rightarrow> bool" where
  "is_control c \<longleftrightarrow> c \<le> 31 \<or> c = 127"

definition not_collected :: jstext where
  "not_collected = [26410, 30693] @ asc '' / '' @ [26410, 37319, 38598]"

definition text_or :: "jstext option \<Rightarrow> jstext \<Rightarrow> jstext" where
  "text_or v d = (case v of None \<Rightarrow> d | Some t \<Rightarrow> if t = [] then d else t)"

definition render_key :: "ctx \<Rightarrow> jstext \<Rightarrow> jstext" where
  "render_key context key =
     take 512 (filter (\<lambda>c. \<not> is_control c) (text_or (map_of context key) not_collected))"

definition renderNotificationText :: "jstext \<Rightarrow> ctx \<Rightarrow> template_error + jstext" where
  "renderNotificationText template context =
     rbind (validateNotificationText template) (\<lambda>_.
     Inr (concat (map (\<lambda>p. case p of Lit c \<Rightarrow> [c] | Var k \<Rightarrow> render_key context k) (pieces template))))"

record template =
  tm_eventType :: event_type
  tm_enabled :: bool
  tm_version :: nat
  tm_title :: jstext
  tm_body :: jstext

fun is_node_event :: "event_type \<Rightarrow> bool" where
  "is_node_event UserLoginSucceeded = False"
| "is_node_event UserPasswordChanged = False"
| "is_node_event UserPasswordResetCompleted = False"
| "is_node_event _ = True"

definition node_body :: jstext where
  "node_body = [32593, 32476, 65306] @ asc ''{{network.name}} / {{network.id}}'' @ [10, 33410, 28857, 65306] @
       asc ''{{node.name}} / {{node.id}}'' @ [10, 20998, 37197] @ asc '' IP'' @ [65306] @
       asc ''{{node.ips}}'' @ [10, 29289, 29702, 22320, 22336, 65306] @ asc ''{{node.physicalAddress}}'' @
       [10, 23458, 25143, 31471, 29256, 26412, 65306] @ asc ''{{node.version}}'' @
       [10, 25480, 26435, 29366, 24577, 65306] @ asc ''{{node.authorized}}'' @ [10, 21464, 21270, 65306] @
       asc ''{{change.before}} '' @ [8594] @ asc '' {{change.after}}'' @
       [10, 26368, 36817, 19978, 32447, 65306] @ asc ''{{node.lastOnline}}'' @
       [10, 26368, 21518, 36890, 20449, 65306] @ asc ''{{node.lastSeen}}'' @
       [10, 19978, 19968, 29366, 24577, 25345, 32493, 65306] @ asc ''{{node.duration}}'' @
       [10, 25805, 20316] @ asc '' / '' @ [26469, 28304, 65306] @ asc ''{{actor.name}}'' @
       [10, 24314, 35758, 65306] @ asc ''{{action.suggestion}}'' @ [10, 26102, 38388, 65306] @
       asc ''{{event.time}}'' @ [10, 35814, 24773, 65306] @ asc ''{{action.url}}'' @
       [10, 20107, 20214, 32534, 21495, 65306] @ asc ''{{event.id}}''"

definition user_body :: jstext where
  "user_body = [36134, 21495, 65306] @ asc ''{{user.name}}'' @ [65288] @ asc ''{{user.email}}'' @
       [65289, 10, 25805, 20316, 65306] @ asc ''{{event.type}}'' @ [10, 26469, 28304] @ asc '' IP'' @
       [65306] @ asc ''{{user.ip}}'' @ [10, 35774, 22791] @ asc '' / '' @ [27983, 35272, 22120, 65306] @
       asc ''{{user.device}}'' @ [10, 25805, 20316, 20154, 65306] @ asc ''{{actor.name}}'' @
       [10, 32467, 26524, 65306] @ asc ''{{change.after}}'' @ [10, 24314, 35758, 65306] @
       asc ''{{action.suggestion}}'' @ [10, 26102, 38388, 65306] @ asc ''{{event.time}}'' @
       [10, 36134, 21495, 31649, 29702, 65306] @ asc ''{{action.url}}'' @
       [10, 20107, 20214, 32534, 21495, 65306] @ asc ''{{event.id}}''"

definition defaultNotificationTemplate :: "event_type \<Rightarrow> template" where
  "defaultNotificationTemplate ev =
     \<lparr>tm_eventType = ev, tm_enabled = True, tm_version = 1,
      tm_title = [12304] @ eventLabels ev @ [12305]
        @ (if is_node_event ev then asc ''{{node.name}}'' @ [65372] @ asc ''{{network.name}}'' else asc ''{{user.name}}''),
      tm_body = (if is_node_event ev then node_body else user_body)\<rparr>"

definition previewContext :: ctx where
  "previewContext = bind_ctx [
     (''event.id'', asc ''preview-only''),
     (''event.type'', [27169, 26495, 39044, 35272]),
     (''event.time'', asc ''2026-09-12 20:00:00 Asia/Shanghai''),
     (''network.id'', asc ''a1b2c3d4e5000001''),
     (''network.name'', [28436, 31034, 32593, 32476]),
     (''node.id'', asc ''1234567890''),
     (''node.name'', [23478, 24237] @ asc '' NAS''),
     (''node.ips'', asc ''10.20.0.5''),
     (''node.physicalAddress'', asc ''203.0.113.20/9993''),
     (''node.version'', asc ''1.16.2''),
     (''node.authorized'', [24050, 25480, 26435]),
     (''node.lastOnline'', asc ''2026-09-12 18:00:00 Asia/Shanghai''),
     (''node.lastSeen'', asc ''2026-09-12 19:59:00 Asia/Shanghai''),
     (''node.duration'', asc ''2 '' @ [23567, 26102]),
     (''change.before'', [30452, 32852, 65288, 20844, 32593, 65289]),
     (''change.after'', [20013, 36716]),
     (''user.name'', [28436, 31034, 29992, 25143]),
     (''user.email'', asc ''demo@example.test''),
     (''user.ip'', asc ''192.0.2.10''),
     (''user.device'', [28436, 31034, 27983, 35272, 22120]),
     (''actor.name'', [21518, 21488, 35266, 27979]),
     (''action.suggestion'', [26816, 26597, 23458, 25143, 31471] @ asc '' UDP'' @ [12289, 38450, 28779, 22681, 21450] @
       asc '' NAT '' @ [29366, 24577, 12290]),
     (''action.url'', asc ''https://example.test/network/demo'')]"

definition notificationTemplateSchema :: "template \<Rightarrow> bool" where
  "notificationTemplateSchema t \<longleftrightarrow>
     1 \<le> length (tm_title t) \<and> length (tm_title t) \<le> 200 \<and> is_ok (validateNotificationText (tm_title t))
     \<and> 1 \<le> length (tm_body t) \<and> length (tm_body t) \<le> 8000 \<and> is_ok (validateNotificationText (tm_body t))"

text \<open>The template a message is made from: the stored one, or the default.\<close>

definition template_for :: "template list \<Rightarrow> event_type \<Rightarrow> template" where
  "template_for stored ev = (case find (\<lambda>t. tm_eventType t = ev) stored of
     Some t \<Rightarrow> t | None \<Rightarrow> defaultNotificationTemplate ev)"

definition list_templates :: "template list \<Rightarrow> template list" where
  "list_templates stored = map (template_for stored) eventTypes"

definition saveTemplate :: "template \<Rightarrow> template list \<Rightarrow> exn + template list" where
  "saveTemplate input stored =
     rbind (ensure (notificationTemplateSchema input) ZodError) (\<lambda>_.
     Inr (if list_ex (\<lambda>t. tm_eventType t = tm_eventType input) stored
          then map (\<lambda>t. if tm_eventType t = tm_eventType input
                        then t\<lparr>tm_title := tm_title input, tm_body := tm_body input, tm_enabled := tm_enabled input,
                               tm_version := tm_version t + 1\<rparr> else t) stored
          else stored @ [input\<lparr>tm_version := 1\<rparr>]))"

section \<open>The outbox\<close>

datatype delivery_status = Pending | Sending | Sent | UnknownResult | Failed | Cancelled

record delivery =
  dl_id :: string
  dl_eventKey :: jstext
  dl_eventType :: event_type
  dl_title :: jstext
  dl_body :: jstext
  dl_templateVersion :: nat
  dl_fingerprint :: string
  dl_status :: delivery_status
  dl_attempts :: nat
  dl_lastError :: "jstext option"
  dl_createdAt :: int
  dl_updatedAt :: int
  dl_deliveredAt :: "int option"

record push_options =
  po_enabled :: bool
  po_url :: "string option"
  po_username :: "string option"
  po_channel :: "string option"

definition no_record :: jstext where
  "no_record = [23578, 26080, 21487, 38752, 35760, 24405]"

definition dateText :: "int option \<Rightarrow> jstext" where
  "dateText v = (case v of None \<Rightarrow> no_record | Some t \<Rightarrow> asc (iso_date t))"

text \<open>\<^verbatim>\<open>createMany\<close> with \<^verbatim>\<open>skipDuplicates\<close>: the id and the event key are unique.\<close>

definition insert_delivery :: "delivery \<Rightarrow> delivery list \<Rightarrow> delivery list" where
  "insert_delivery row rows =
     (if list_ex (\<lambda>r. dl_id r = dl_id row \<or> dl_eventKey r = dl_eventKey row) rows then rows else rows @ [row])"

definition enqueueNotification ::
  "(push_options \<Rightarrow> string) \<Rightarrow> push_options option \<Rightarrow> template list \<Rightarrow> string \<Rightarrow> int
     \<Rightarrow> event_type \<Rightarrow> jstext \<Rightarrow> ctx \<Rightarrow> delivery list \<Rightarrow> template_error + delivery list" where
  "enqueueNotification fp options stored uuid now ev eventKey context rows =
     (case options of None \<Rightarrow> Inr rows
      | Some opts \<Rightarrow>
          if \<not> po_enabled opts then Inr rows
          else let template = template_for stored ev
          in if \<not> tm_enabled template then Inr rows
          else let safe = bind_ctx [(''event.id'', asc uuid), (''event.type'', eventLabels ev),
                            (''event.time'', dateText (Some now))] @ context
          in rbind (renderNotificationText (tm_title template) safe) (\<lambda>title.
             rbind (renderNotificationText (tm_body template) safe) (\<lambda>body.
             Inr (insert_delivery
               \<lparr>dl_id = uuid, dl_eventKey = eventKey, dl_eventType = ev, dl_title = take 512 title,
                dl_body = take 32768 body, dl_templateVersion = tm_version template, dl_fingerprint = fp opts,
                dl_status = Pending, dl_attempts = 0, dl_lastError = None, dl_createdAt = now,
                dl_updatedAt = now, dl_deliveredAt = None\<rparr> rows))))"

text \<open>The updates of the worker. Every update touches \<^verbatim>\<open>updatedAt\<close>.\<close>

definition expired_error :: jstext where
  "expired_error = [20107, 20214, 24050, 36229, 36807] @ asc '' 24 '' @
       [23567, 26102, 65292, 20572, 27490, 21457, 36865, 36807, 26399, 25552, 37266, 12290]"

definition interrupted_error :: jstext where
  "interrupted_error = 
       [21457, 36865, 36827, 31243, 20013, 26029, 65292, 25237, 36882, 32467, 26524, 26410, 30693, 65307, 35831, 20808, 26816, 26597, 30446, 26631, 28192, 36947, 12290]"

definition moved_error :: jstext where
  "moved_error = 
       [25512, 36865, 30446, 30340, 22320, 24050, 25913, 21464, 65292, 35831, 37325, 26032, 29983, 25104, 20107, 20214, 12290]"

definition unconfirmed_error :: jstext where
  "unconfirmed_error = 
       [32593, 20851, 26410, 30830, 35748, 25237, 36882, 25104, 21151, 12290, 35831, 26816, 26597, 30446, 26631, 28192, 36947, 21644, 32593, 20851, 65292, 20877, 20915, 23450, 26159, 21542, 37325, 35797, 12290]"

definition upd_where :: "(delivery \<Rightarrow> bool) \<Rightarrow> (delivery \<Rightarrow> delivery) \<Rightarrow> delivery list \<Rightarrow> delivery list" where
  "upd_where P f rows = map (\<lambda>r. if P r then f r else r) rows"

definition expire_pending :: "int \<Rightarrow> delivery list \<Rightarrow> delivery list" where
  "expire_pending now = upd_where (\<lambda>r. dl_status r = Pending \<and> dl_createdAt r < now - 86400000)
     (\<lambda>r. r\<lparr>dl_status := Cancelled, dl_lastError := Some expired_error, dl_updatedAt := now\<rparr>)"

definition mark_interrupted :: "int \<Rightarrow> delivery list \<Rightarrow> delivery list" where
  "mark_interrupted now = upd_where (\<lambda>r. dl_status r = Sending \<and> dl_updatedAt r < now - 120000)
     (\<lambda>r. r\<lparr>dl_status := UnknownResult, dl_lastError := Some interrupted_error, dl_updatedAt := now\<rparr>)"

definition claimable :: "string \<Rightarrow> delivery list \<Rightarrow> bool" where
  "claimable i rows = list_ex (\<lambda>r. dl_id r = i \<and> dl_status r = Pending) rows"

definition claim :: "int \<Rightarrow> string \<Rightarrow> delivery list \<Rightarrow> delivery list" where
  "claim now i = upd_where (\<lambda>r. dl_id r = i \<and> dl_status r = Pending)
     (\<lambda>r. r\<lparr>dl_status := Sending, dl_attempts := dl_attempts r + 1, dl_updatedAt := now\<rparr>)"

definition finish_delivery :: "int \<Rightarrow> string \<Rightarrow> bool \<Rightarrow> delivery list \<Rightarrow> delivery list" where
  "finish_delivery now i confirmed = upd_where (\<lambda>r. dl_id r = i)
     (\<lambda>r. if confirmed then r\<lparr>dl_status := Sent, dl_deliveredAt := Some now, dl_lastError := None, dl_updatedAt := now\<rparr>
          else r\<lparr>dl_status := UnknownResult, dl_lastError := Some unconfirmed_error, dl_updatedAt := now\<rparr>)"

definition cancel_moved :: "int \<Rightarrow> string \<Rightarrow> delivery list \<Rightarrow> delivery list" where
  "cancel_moved now i = upd_where (\<lambda>r. dl_id r = i)
     (\<lambda>r. r\<lparr>dl_status := Cancelled, dl_lastError := Some moved_error, dl_updatedAt := now\<rparr>)"

definition purge :: "int \<Rightarrow> delivery list \<Rightarrow> delivery list" where
  "purge now rows = filter (\<lambda>r. \<not> (dl_createdAt r < now - 30 * 86400000 \<and> dl_status r \<notin> {Pending, Sending})) rows"

text \<open>One job of the loop: claim it, refuse a changed destination, otherwise call the gateway once.
  The list collects the ids handed to the gateway.\<close>

definition deliver_job ::
  "(push_options \<Rightarrow> string) \<Rightarrow> (delivery \<Rightarrow> bool) \<Rightarrow> push_options \<Rightarrow> int \<Rightarrow> delivery
     \<Rightarrow> string list \<times> delivery list \<Rightarrow> string list \<times> delivery list" where
  "deliver_job fp gateway opts now job s =
     (if \<not> claimable (dl_id job) (snd s) then s
      else let rows = claim now (dl_id job) (snd s)
      in if dl_fingerprint job \<noteq> fp opts then (fst s, cancel_moved now (dl_id job) rows)
         else (fst s @ [dl_id job], finish_delivery now (dl_id job) (gateway job) rows))"

definition deliver_pending ::
  "(push_options \<Rightarrow> string) \<Rightarrow> (delivery \<Rightarrow> bool) \<Rightarrow> push_options option \<Rightarrow> int \<Rightarrow> delivery list
     \<Rightarrow> string list \<times> delivery list" where
  "deliver_pending fp gateway options now rows =
     (let rows1 = mark_interrupted now (expire_pending now rows)
      in case options of None \<Rightarrow> ([], rows1)
         | Some opts \<Rightarrow>
             if \<not> po_enabled opts then ([], rows1)
             else let jobs = take 10 (sort_key dl_createdAt (filter (\<lambda>r. dl_status r = Pending) rows1));
                      s = fold (deliver_job fp gateway opts now) jobs ([], rows1)
                  in (fst s, purge now (snd s)))"

text \<open>Both refusals of a retry are BAD_REQUEST errors, with different messages.\<close>

datatype retry_error = ChannelDisabled | NotRetryable

definition retry :: "(push_options \<Rightarrow> string) \<Rightarrow> push_options option \<Rightarrow> int \<Rightarrow> string \<Rightarrow> delivery list
     \<Rightarrow> retry_error + delivery list" where
  "retry fp options now i rows =
     (case options of None \<Rightarrow> Inl ChannelDisabled
      | Some opts \<Rightarrow>
          let hit = (\<lambda>r. dl_id r = i \<and> dl_status r \<in> {UnknownResult, Failed} \<and> dl_fingerprint r = fp opts)
          in rbind (ensure (po_enabled opts) ChannelDisabled) (\<lambda>_.
             rbind (ensure (list_ex hit rows) NotRetryable) (\<lambda>_.
             Inr (upd_where hit (\<lambda>r. r\<lparr>dl_status := Pending, dl_lastError := None, dl_updatedAt := now\<rparr>) rows))))"

section \<open>Node and account events\<close>

text \<open>A numeric property that may be undefined or null: \<^verbatim>\<open>null >= 0\<close> holds in JavaScript.\<close>

datatype js_num = Undef | Null | Val int

fun js_num_text :: "js_num \<Rightarrow> string" where
  "js_num_text Undef = ''undefined''"
| "js_num_text Null = ''null''"
| "js_num_text (Val n) = int_str n"

fun js_nonneg :: "js_num \<Rightarrow> bool" where
  "js_nonneg Undef = False"
| "js_nonneg Null = True"
| "js_nonneg (Val n) = (n \<ge> 0)"

text \<open>The member as the events read it.\<close>

record member_view =
  v_id :: string
  v_nwid :: string
  v_name :: "string option"
  v_description :: "string option"
  v_authorized :: bool
  v_ipAssignments :: "string list"
  v_noAutoAssignIps :: bool
  v_activeBridge :: bool
  v_physicalAddress :: "string option"
  v_vMajor :: js_num
  v_vMinor :: js_num
  v_vRev :: js_num
  v_online :: "bool option"
  v_conStatus :: "con_status option"
  v_lastSeen :: "int option"
  v_lastOnlineAt :: "int option"
  v_lastOfflineAt :: "int option"

fun states :: "con_status \<Rightarrow> jstext" where
  "states Offline = [31163, 32447]"
| "states Relayed = [20013, 36716]"
| "states DirectLAN = [30452, 32852, 65288, 20869, 32593, 65289]"
| "states DirectWAN = [30452, 32852, 65288, 20844, 32593, 65289]"
| "states Controller = [25511, 21046, 22120]"
| "states Unknown = [26410, 30693]"

definition bool_text :: "bool \<Rightarrow> jstext" where
  "bool_text b = asc (if b then ''true'' else ''false'')"

definition name_or :: "string option \<Rightarrow> string \<Rightarrow> jstext" where
  "name_or v d = asc (str_or v d)"

definition not_assigned :: jstext where
  "not_assigned = [26410, 20998, 37197]"

definition unknown_text :: jstext where
  "unknown_text = [26410, 30693]"

definition uncollected :: jstext where
  "uncollected = [26410, 37319, 38598]"

definition ips_text :: "string list \<Rightarrow> jstext" where
  "ips_text ips = (let t = asc (js_join '', '' ips) in if t = [] then not_assigned else t)"

definition memberConfigSummary :: "member_view \<Rightarrow> jstext" where
  "memberConfigSummary v =
     [21517, 31216] @ asc ''='' @ name_or (v_name v) (v_id v) @ [65292, 25551, 36848] @ asc ''=''
     @ (if truthy (v_description v) then asc (the (v_description v)) else [31354])
     @ [65292, 25480, 26435] @ asc ''='' @ bool_text (v_authorized v) @ [65292] @ asc ''IP='' @ ips_text (v_ipAssignments v)
     @ [65292, 33258, 21160, 20998, 37197] @ asc ''='' @ bool_text (\<not> v_noAutoAssignIps v) @ [65292, 32593, 26725] @ asc ''='' @ bool_text (v_activeBridge v)"

definition duration_text :: "int \<Rightarrow> member_view \<Rightarrow> jstext" where
  "duration_text now v =
     (case (if v_online v = Some True then v_lastOfflineAt v else v_lastOnlineAt v) of
        None \<Rightarrow> no_record
      | Some t \<Rightarrow> asc (int_str (max 0 (now - t) div 1000)) @ asc '' '' @ [31186, 65288, 25353, 35266, 27979, 26102, 38388, 65289])"

definition suggestion :: "member_view \<Rightarrow> jstext" where
  "suggestion v =
     (if \<not> v_authorized v then [30830, 35748, 35774, 22791, 24402, 23646, 21518, 25480, 26435, 12290]
      else if v_conStatus v = Some Offline then [26816, 26597, 35774, 22791, 20379, 30005, 12289] @ asc ''ZeroTier '' @
       [26381, 21153, 21644, 22806, 32593, 36830, 25509, 12290]
      else if v_conStatus v = Some Relayed then [26816, 26597] @ asc '' UDP'' @ [12289, 38450, 28779, 22681, 21644] @ asc '' NAT'' @
       [65307, 20013, 36716, 21487, 33021, 22686, 21152, 24310, 36831, 12290]
      else 
       [22914, 19981, 31526, 21512, 39044, 26399, 65292, 35831, 26680, 23545, 33410, 28857, 37197, 32622, 12290])"

definition nodeEventContext ::
  "string option \<Rightarrow> int \<Rightarrow> member_view \<Rightarrow> string option \<Rightarrow> jstext option \<Rightarrow> jstext option \<Rightarrow> ctx" where
  "nodeEventContext nextauth_url now v networkName before after =
     bind_ctx [
      (''network.id'', asc (v_nwid v)),
      (''network.name'', name_or networkName (v_nwid v)),
      (''node.id'', asc (v_id v)),
      (''node.name'', name_or (v_name v) (v_id v)),
      (''node.ips'', ips_text (v_ipAssignments v)),
      (''node.authorized'', if v_authorized v then [24050, 25480, 26435] else [31561, 24453, 25480, 26435]),
      (''node.physicalAddress'', if truthy (v_physicalAddress v) then asc (the (v_physicalAddress v)) else uncollected),
      (''node.version'', if js_nonneg (v_vMajor v)
          then asc (js_num_text (v_vMajor v) @ ''.'' @ js_num_text (v_vMinor v) @ ''.'' @ js_num_text (v_vRev v)) else unknown_text),
      (''node.lastOnline'', dateText (v_lastOnlineAt v)),
      (''node.lastSeen'', dateText (v_lastSeen v)),
      (''node.duration'', duration_text now v),
      (''change.before'', text_or before unknown_text),
      (''change.after'', text_or after (case v_conStatus v of None \<Rightarrow> unknown_text | Some st \<Rightarrow> states st)),
      (''actor.name'', [21518, 21488, 35266, 27979, 65288] @ asc ''Controller '' @ [8594] @ asc '' '' @
       [33410, 28857, 65289]),
      (''action.suggestion'', suggestion v),
      (''action.url'', asc (str_or nextauth_url [] @ ''/network/'' @ v_nwid v))]"

text \<open>The event of an observation: the member's row before, whether it is online now, and the update.\<close>

definition statusEventTypes :: "member_row \<Rightarrow> bool option \<Rightarrow> member_patch \<Rightarrow> event_type list" where
  "statusEventTypes db online data =
     (case online of None \<Rightarrow> []
      | Some on \<Rightarrow>
          if m_statusObservedAt db = None
          then if m_notifyOnFirstOnline db \<and> on then [NodeOnline] else []
          else if m_online db \<noteq> Some on then [if on then NodeOnline else NodeOffline]
          else if on \<and> d_connectionStatus data \<noteq> None \<and> m_connectionStatus db \<noteq> None
                  \<and> d_connectionStatus data \<noteq> m_connectionStatus db \<and> d_connectionStatus data \<noteq> Some Unknown
          then [NodeConnectionChanged]
          else [])"

text \<open>What the notification code reads besides the rows it changes.\<close>

record notify_env =
  ne_fp :: "push_options \<Rightarrow> string"
  ne_options :: "push_options option"
  ne_templates :: "template list"
  ne_url :: "string option"
  ne_networkName :: "string \<Rightarrow> string option"

fun enqueue_all :: "notify_env \<Rightarrow> (nat \<Rightarrow> string) \<Rightarrow> int \<Rightarrow> (event_type \<times> jstext \<times> ctx) list \<Rightarrow> delivery list
     \<Rightarrow> template_error + delivery list" where
  "enqueue_all env uuid now [] rows = Inr rows"
| "enqueue_all env uuid now ((ev, key, context) # rest) rows =
     rbind (enqueueNotification (ne_fp env) (ne_options env) (ne_templates env) (uuid (length rest)) now ev key context rows)
       (enqueue_all env uuid now rest)"

definition same_member :: "member_row \<Rightarrow> member_row \<Rightarrow> bool" where
  "same_member db m \<longleftrightarrow> m_nwid m = m_nwid db \<and> m_id m = m_id db"

definition persistObservedMember ::
  "notify_env \<Rightarrow> (nat \<Rightarrow> string) \<Rightarrow> int \<Rightarrow> member_row \<Rightarrow> member_view \<Rightarrow> member_patch
     \<Rightarrow> member_row list \<times> delivery list \<Rightarrow> template_error + (member_row list \<times> delivery list)" where
  "persistObservedMember env uuid now db view data s =
     (let events = statusEventTypes db (v_online view) data
      in if events = [] then Inr (map (\<lambda>m. if same_member db m then apply_patch data m else m) (fst s), snd s)
         else let hit = (\<lambda>m. same_member db m \<and> m_statusObservedAt m = m_statusObservedAt db)
         in if \<not> list_ex hit (fst s) then Inr s
            else rbind (enqueue_all env uuid now
                   (map (\<lambda>ev. (ev, asc (event_name ev @ '':'' @ m_nwid db @ '':'' @ m_id db @ '':'') @ dateText (d_statusObservedAt data),
                               nodeEventContext (ne_url env) now view (ne_networkName env (m_nwid db))
                                 (Some (case m_connectionStatus db of None \<Rightarrow> unknown_text | Some st \<Rightarrow> states st)) None))
                      events) (snd s)) (\<lambda>rows.
                 Inr (map (\<lambda>m. if hit m then apply_patch data m else m) (fst s), rows)))"

text \<open>Sign-in events: the session rows whose notification is not recorded yet.\<close>

record session_row =
  ss_id :: string
  ss_userId :: string
  ss_userName :: "string option"
  ss_userEmail :: "string option"
  ss_ipAddress :: "string option"
  ss_userAgent :: "string option"
  ss_createdAt :: int
  ss_recordedAt :: "int option"

record account_details =
  ad_key :: string
  ad_ip :: "string option"
  ad_device :: "string option"
  ad_actor :: "string option"
  ad_result :: "jstext option"

definition accountNotification ::
  "notify_env \<Rightarrow> string \<Rightarrow> int \<Rightarrow> event_type \<Rightarrow> string \<Rightarrow> string option \<Rightarrow> string option \<Rightarrow> account_details
     \<Rightarrow> delivery list \<Rightarrow> template_error + delivery list" where
  "accountNotification env uuid now ev userId userName userEmail det rows =
     enqueueNotification (ne_fp env) (ne_options env) (ne_templates env) uuid now ev (asc (event_name ev @ '':'' @ ad_key det))
       (bind_ctx [
         (''user.name'', name_or userName userId),
         (''user.email'', if truthy userEmail then asc (the userEmail) else [26410, 35774, 32622]),
         (''user.ip'', if truthy (ad_ip det) then asc (the (ad_ip det)) else uncollected),
         (''user.device'', if truthy (ad_device det) then asc (the (ad_device det)) else uncollected),
         (''actor.name'', if truthy (ad_actor det) then asc (the (ad_actor det)) else name_or userName userId),
         (''change.after'', text_or (ad_result det) ([25805, 20316, 25104, 21151])),
         (''action.suggestion'', if ev = UserLoginSucceeded
            then 
       [33509, 38750, 26412, 20154, 30331, 24405, 65292, 35831, 20462, 25913, 23494, 30721, 24182, 26816, 26597, 30331, 24405, 35774, 22791, 12290]
            else 
       [33509, 38750, 26412, 20154, 25805, 20316, 65292, 35831, 31435, 21363, 26816, 26597, 36134, 21495, 21644, 30331, 24405, 20250, 35805, 12290]),
         (''action.url'', asc (str_or (ne_url env) [] @ ''/user-settings/?tab=account''))]) rows"

definition recordLoginSession ::
  "notify_env \<Rightarrow> string \<Rightarrow> int \<Rightarrow> string \<Rightarrow> session_row list \<times> delivery list
     \<Rightarrow> template_error + (session_row list \<times> delivery list)" where
  "recordLoginSession env uuid now i s =
     (case find (\<lambda>r. ss_id r = i \<and> ss_recordedAt r = None) (fst s) of
        None \<Rightarrow> Inr s
      | Some session \<Rightarrow>
          rbind (accountNotification env uuid now UserLoginSucceeded (ss_userId session) (ss_userName session)
                   (ss_userEmail session)
                   \<lparr>ad_key = ss_id session, ad_ip = ss_ipAddress session, ad_device = ss_userAgent session,
                    ad_actor = None, ad_result = None\<rparr> (snd s)) (\<lambda>rows.
          Inr (map (\<lambda>r. if ss_id r = i \<and> ss_recordedAt r = None then r\<lparr>ss_recordedAt := Some now\<rparr> else r) (fst s), rows)))"

fun record_sessions :: "notify_env \<Rightarrow> (string \<Rightarrow> string) \<Rightarrow> int \<Rightarrow> string list \<Rightarrow> session_row list \<times> delivery list
     \<Rightarrow> template_error + (session_row list \<times> delivery list)" where
  "record_sessions env uuid now [] s = Inr s"
| "record_sessions env uuid now (i # is) s =
     rbind (recordLoginSession env (uuid i) now i s) (record_sessions env uuid now is)"

definition drainNotifications ::
  "notify_env \<Rightarrow> (string \<Rightarrow> string) \<Rightarrow> (delivery \<Rightarrow> bool) \<Rightarrow> int \<Rightarrow> session_row list \<times> delivery list
     \<Rightarrow> template_error + (string list \<times> session_row list \<times> delivery list)" where
  "drainNotifications env uuid gateway now s =
     (let due = map ss_id (take 100 (sort_key ss_createdAt (filter (\<lambda>r. ss_recordedAt r = None) (fst s))))
      in rbind (record_sessions env uuid now due s) (\<lambda>s1.
         let r = deliver_pending (ne_fp env) gateway (ne_options env) now (snd s1)
         in Inr (fst r, fst s1, snd r)))"

definition recordMemberAction ::
  "notify_env \<Rightarrow> string \<Rightarrow> int \<Rightarrow> event_type \<Rightarrow> member_view \<Rightarrow> jstext \<Rightarrow> string \<Rightarrow> jstext \<Rightarrow> jstext
     \<Rightarrow> delivery list \<Rightarrow> template_error + delivery list" where
  "recordMemberAction env uuid now ev v eventKey actor before after rows =
     enqueueNotification (ne_fp env) (ne_options env) (ne_templates env) uuid now ev eventKey
       (bind_ctx [(''actor.name'', asc actor)]
        @ nodeEventContext (ne_url env) now v (ne_networkName env (v_nwid v)) (Some before) (Some after)) rows"

text \<open>Workers of several processes interleave: each reads jobs, claims one, and then cancels it, calls
  the gateway, or dies; the result is recorded some time after the call. Besides the rows the state has
  the claims not yet acted on, the gateway calls made, the administrator's retries and the ids used.\<close>

record outbox =
  box_rows :: "delivery list"
  box_claimed :: "delivery list"
  box_calls :: "string list"
  box_retries :: "string list"
  box_used :: "string list"

inductive outbox_step :: "(push_options \<Rightarrow> string) \<Rightarrow> outbox \<Rightarrow> outbox \<Rightarrow> bool" for fp where
  enqueue: "dl_id row \<notin> set (box_used s) \<Longrightarrow>
    outbox_step fp s (s\<lparr>box_rows := insert_delivery row (box_rows s), box_used := dl_id row # box_used s\<rparr>)"
| expire: "outbox_step fp s (s\<lparr>box_rows := expire_pending now (box_rows s)\<rparr>)"
| interrupted: "outbox_step fp s (s\<lparr>box_rows := mark_interrupted now (box_rows s)\<rparr>)"
| purge: "outbox_step fp s (s\<lparr>box_rows := purge now (box_rows s)\<rparr>)"
| claim: "claimable (dl_id job) (box_rows s) \<Longrightarrow>
    outbox_step fp s (s\<lparr>box_rows := claim now (dl_id job) (box_rows s), box_claimed := job # box_claimed s\<rparr>)"
| moved: "job \<in> set (box_claimed s) \<Longrightarrow>
    outbox_step fp s (s\<lparr>box_rows := cancel_moved now (dl_id job) (box_rows s), box_claimed := remove1 job (box_claimed s)\<rparr>)"
| call: "job \<in> set (box_claimed s) \<Longrightarrow>
    outbox_step fp s (s\<lparr>box_calls := dl_id job # box_calls s, box_claimed := remove1 job (box_claimed s)\<rparr>)"
| result: "i \<in> set (box_calls s) \<Longrightarrow>
    outbox_step fp s (s\<lparr>box_rows := finish_delivery now i confirmed (box_rows s)\<rparr>)"
| crash: "outbox_step fp s (s\<lparr>box_claimed := remove1 job (box_claimed s)\<rparr>)"
| retry: "retry fp options now i (box_rows s) = Inr rows \<Longrightarrow>
    outbox_step fp s (s\<lparr>box_rows := rows, box_retries := i # box_retries s\<rparr>)"

definition waiting :: "string \<Rightarrow> delivery list \<Rightarrow> nat" where
  "waiting i rows = length (filter (\<lambda>r. dl_id r = i \<and> dl_status r = Pending) rows)"

definition claims :: "string \<Rightarrow> delivery list \<Rightarrow> nat" where
  "claims i js = length (filter (\<lambda>r. dl_id r = i) js)"

definition outbox_inv :: "outbox \<Rightarrow> bool" where
  "outbox_inv s \<longleftrightarrow> distinct (map dl_id (box_rows s)) \<and> dl_id ` set (box_rows s) \<subseteq> set (box_used s)
     \<and> dl_id ` set (box_claimed s) \<subseteq> set (box_used s) \<and> set (box_calls s) \<subseteq> set (box_used s)
     \<and> (\<forall>i. count_list (box_calls s) i + claims i (box_claimed s) + waiting i (box_rows s)
              \<le> 1 + count_list (box_retries s) i)"

definition demo_delivery :: delivery where
  "demo_delivery = \<lparr>dl_id = ''d1'', dl_eventKey = asc ''k'', dl_eventType = NodeOnline, dl_title = asc ''t'', dl_body = asc ''b'',
     dl_templateVersion = 1, dl_fingerprint = ''f'', dl_status = Pending, dl_attempts = 0, dl_lastError = None,
     dl_createdAt = 0, dl_updatedAt = 0, dl_deliveredAt = None\<rparr>"

definition sendable :: "(push_options \<Rightarrow> string) \<Rightarrow> push_options \<Rightarrow> int \<Rightarrow> delivery \<Rightarrow> bool" where
  "sendable fp opts now r \<longleftrightarrow> dl_status r = Pending \<and> now - 86400000 \<le> dl_createdAt r \<and> dl_fingerprint r = fp opts"

definition template_ok :: "template \<Rightarrow> bool" where
  "template_ok t \<longleftrightarrow> is_ok (validateNotificationText (tm_title t)) \<and> is_ok (validateNotificationText (tm_body t))"

definition demo_template :: template where
  "demo_template = \<lparr>tm_eventType = NodeOnline, tm_enabled = True, tm_version = 0,
     tm_title = asc ''{{ node.name }} up'', tm_body = asc ''{{network.name}}''\<rparr>"

abbreviation "quiet_env \<equiv> \<lparr>ne_fp = (\<lambda>_. ''f''), ne_options = None, ne_templates = [], ne_url = None, ne_networkName = (\<lambda>_. None)\<rparr>"

definition demo_view :: member_view where
  "demo_view = \<lparr>v_id = ''1234567890'', v_nwid = ''abcdef0123000001'', v_name = None, v_description = None, v_authorized = True,
     v_ipAssignments = [], v_noAutoAssignIps = False, v_activeBridge = False, v_physicalAddress = None,
     v_vMajor = Val 1, v_vMinor = Val 14, v_vRev = Val 0, v_online = Some False, v_conStatus = Some Offline,
     v_lastSeen = None, v_lastOnlineAt = None, v_lastOfflineAt = None\<rparr>"

abbreviation "offline_patch \<equiv> empty_patch\<lparr>d_online := Some False, d_statusObservedAt := Some 1000000\<rparr>"

lemmas notification_defs [model_defs] = asc_def is_ws_def is_letter_def key_char_def bind_ctx_def literals_def
  keys_of_def allowed_def validateNotificationText_def is_control_def text_or_def render_key_def
  renderNotificationText_def notificationTemplateSchema_def template_for_def saveTemplate_def
  insert_delivery_def enqueueNotification_def upd_where_def expire_pending_def mark_interrupted_def
  claimable_def claim_def finish_delivery_def cancel_moved_def purge_def deliver_job_def deliver_pending_def
  retry_def statusEventTypes_def same_member_def persistObservedMember_def accountNotification_def
  recordLoginSession_def drainNotifications_def recordMemberAction_def

section \<open>One gateway call per delivery\<close>

lemma upd_where_ids:
  "(\<And>r. dl_id (f r) = dl_id r) \<Longrightarrow> map dl_id (upd_where P f rows) = map dl_id rows"
  by (simp add: upd_where_def)

lemma waiting_upd:
  assumes "\<And>r. dl_id (f r) = dl_id r" "\<And>r. dl_status (f r) \<noteq> Pending"
  shows "waiting i (upd_where P f rows) \<le> waiting i rows"
  using assms by (induction rows) (auto simp: waiting_def upd_where_def)

lemma waiting_simps [simp]:
  "waiting i [] = 0" "waiting i (r # rows) = (if dl_id r = i \<and> dl_status r = Pending then 1 else 0) + waiting i rows"
  by (simp_all add: waiting_def)

lemma waiting_claim: "waiting i (claim now j rows) = (if i = j then 0 else waiting i rows)"
  by (induction rows) (simp_all add: claim_def upd_where_def)

lemma claimable_waiting: "claimable i rows \<Longrightarrow> 0 < waiting i rows"
  by (auto simp: claimable_def waiting_def list_ex_iff filter_empty_conv)

lemma waiting_0: "i \<notin> dl_id ` set rows \<Longrightarrow> waiting i rows = 0"
  by (induction rows) auto

lemma waiting_le_1: "distinct (map dl_id rows) \<Longrightarrow> waiting i rows \<le> 1"
proof (induction rows)
  case (Cons r rows)
  have "waiting i rows = 0" if "dl_id r = i"
    using Cons.prems that waiting_0[of i rows] by simp
  then show ?case using Cons by simp
qed simp

lemma waiting_filter: "waiting i (filter P rows) \<le> waiting i rows"
  by (induction rows) (auto simp: waiting_def)

lemma claims_remove1: "claims i (remove1 j js) \<le> claims i js"
  by (simp add: claims_def filter_remove1 length_remove1)

lemma claims_remove1_mem:
  assumes "j \<in> set js" shows "claims (dl_id j) (remove1 j js) + 1 = claims (dl_id j) js"
proof -
  have "j \<in> set (filter (\<lambda>r. dl_id r = dl_id j) js)" using assms by simp
  then show ?thesis
    using length_pos_if_in_set[of j "filter (\<lambda>r. dl_id r = dl_id j) js"]
    by (simp add: claims_def filter_remove1 length_remove1)
qed

lemma claims_0: "i \<notin> dl_id ` set js \<Longrightarrow> claims i js = 0"
  by (auto simp: claims_def filter_empty_conv)

lemma retry_rows:
  assumes "retry fp options now i rows = Inr rows'" "distinct (map dl_id rows)"
  shows "map dl_id rows' = map dl_id rows" and "waiting j rows' \<le> waiting j rows + (if j = i then 1 else 0)"
proof -
  obtain opts where rows': "rows' = upd_where (\<lambda>r. dl_id r = i \<and> dl_status r \<in> {UnknownResult, Failed} \<and> dl_fingerprint r = fp opts)
      (\<lambda>r. r\<lparr>dl_status := Pending, dl_lastError := None, dl_updatedAt := now\<rparr>) rows"
    using assms(1) by (auto simp: retry_def rbind_Inr_iff Let_def split: option.split_asm)
  then show ids: "map dl_id rows' = map dl_id rows" by (simp add: upd_where_ids)
  show "waiting j rows' \<le> waiting j rows + (if j = i then 1 else 0)"
  proof (cases "j = i")
    case True
    have "waiting j rows' \<le> 1" using assms(2) ids by (metis waiting_le_1)
    then show ?thesis using True by simp
  next
    case False
    then have "waiting j rows' = waiting j rows"
      unfolding rows' by (induction rows) (auto simp: waiting_def upd_where_def)
    then show ?thesis by simp
  qed
qed

lemma insert_delivery_cases: "insert_delivery row rows = rows \<or>
    (insert_delivery row rows = rows @ [row] \<and> dl_id row \<notin> dl_id ` set rows)"
  by (auto simp: insert_delivery_def list_ex_iff)

text \<open>A step that replaces the rows without adding waiting deliveries or ids keeps the invariant.\<close>

lemma outbox_inv_rows:
  assumes "outbox_inv s" "map dl_id rows = map dl_id (box_rows s)" "\<And>i. waiting i rows \<le> waiting i (box_rows s)"
  shows "outbox_inv (s\<lparr>box_rows := rows\<rparr>)"
proof -
  have "dl_id ` set rows = dl_id ` set (box_rows s)" using assms(2) by (metis set_map)
  moreover have "count_list (box_calls s) i + claims i (box_claimed s) + waiting i rows \<le> 1 + count_list (box_retries s) i" for i
    using assms(1) assms(3)[of i] unfolding outbox_inv_def by (meson add_left_mono le_trans)
  ultimately show ?thesis using assms(1,2) by (simp add: outbox_inv_def)
qed

lemma outbox_inv_drop_claim:
  assumes "outbox_inv s" shows "outbox_inv (s\<lparr>box_claimed := remove1 job (box_claimed s)\<rparr>)"
proof -
  have "count_list (box_calls s) i + claims i (remove1 job (box_claimed s)) + waiting i (box_rows s)
      \<le> 1 + count_list (box_retries s) i" for i
    using assms claims_remove1[of i job "box_claimed s"] unfolding outbox_inv_def
    by (meson add_le_mono add_left_mono le_refl le_trans)
  moreover have "dl_id ` set (remove1 job (box_claimed s)) \<subseteq> set (box_used s)"
    using assms set_remove1_subset[of job "box_claimed s"] unfolding outbox_inv_def by blast
  ultimately show ?thesis using assms by (simp add: outbox_inv_def)
qed

lemma outbox_enqueue:
  assumes "outbox_inv s" "dl_id row \<notin> set (box_used s)"
  shows "outbox_inv (s\<lparr>box_rows := insert_delivery row (box_rows s), box_used := dl_id row # box_used s\<rparr>)"
proof -
  have z: "count_list (box_calls s) (dl_id row) = 0" "claims (dl_id row) (box_claimed s) = 0" "waiting (dl_id row) (box_rows s) = 0"
    using assms by (auto simp: outbox_inv_def intro!: count_notin claims_0 waiting_0)
  have c: "count_list (box_calls s) i + claims i (box_claimed s) + waiting i (box_rows s @ [row])
      \<le> 1 + count_list (box_retries s) i" for i
  proof (cases "i = dl_id row")
    case True
    have "waiting (dl_id row) (box_rows s @ [row]) \<le> 1" using z(3) by (simp add: waiting_def)
    then show ?thesis using True z(1,2) by simp
  next
    case False
    then have "waiting i (box_rows s @ [row]) = waiting i (box_rows s)" by (simp add: waiting_def)
    then show ?thesis using assms(1) by (simp add: outbox_inv_def)
  qed
  from insert_delivery_cases[of row "box_rows s"] show ?thesis
  proof
    assume "insert_delivery row (box_rows s) = box_rows s"
    then show ?thesis using assms(1) unfolding outbox_inv_def by auto
  next
    assume "insert_delivery row (box_rows s) = box_rows s @ [row] \<and> dl_id row \<notin> dl_id ` set (box_rows s)"
    then show ?thesis using assms(1) c unfolding outbox_inv_def by auto
  qed
qed

lemma outbox_claim:
  assumes "outbox_inv s" "claimable (dl_id job) (box_rows s)"
  shows "outbox_inv (s\<lparr>box_rows := claim now (dl_id job) (box_rows s), box_claimed := job # box_claimed s\<rparr>)"
proof -
  have ids: "map dl_id (claim now (dl_id job) (box_rows s)) = map dl_id (box_rows s)"
    by (simp add: claim_def upd_where_ids)
  have w: "0 < waiting (dl_id job) (box_rows s)" using assms(2) by (rule claimable_waiting)
  have "count_list (box_calls s) i + claims i (job # box_claimed s) + waiting i (claim now (dl_id job) (box_rows s))
      \<le> count_list (box_calls s) i + claims i (box_claimed s) + waiting i (box_rows s)" for i
    using w by (simp add: waiting_claim claims_def)
  then have "count_list (box_calls s) i + claims i (job # box_claimed s) + waiting i (claim now (dl_id job) (box_rows s))
      \<le> 1 + count_list (box_retries s) i" for i
    using assms(1) unfolding outbox_inv_def by (meson le_trans)
  moreover have "dl_id job \<in> set (box_used s)" using w waiting_0[of "dl_id job" "box_rows s"] assms(1)
    by (auto simp: outbox_inv_def)
  moreover have "dl_id ` set (claim now (dl_id job) (box_rows s)) = dl_id ` set (box_rows s)" using ids by (metis set_map)
  ultimately show ?thesis using assms(1) ids by (simp add: outbox_inv_def)
qed

lemma outbox_call:
  assumes "outbox_inv s" "job \<in> set (box_claimed s)"
  shows "outbox_inv (s\<lparr>box_calls := dl_id job # box_calls s, box_claimed := remove1 job (box_claimed s)\<rparr>)"
proof -
  have "count_list (dl_id job # box_calls s) i + claims i (remove1 job (box_claimed s)) + waiting i (box_rows s)
      \<le> count_list (box_calls s) i + claims i (box_claimed s) + waiting i (box_rows s)" for i
    using claims_remove1_mem[OF assms(2)] claims_remove1[of i job "box_claimed s"] by auto
  then have "count_list (dl_id job # box_calls s) i + claims i (remove1 job (box_claimed s)) + waiting i (box_rows s)
      \<le> 1 + count_list (box_retries s) i" for i
    using assms(1) unfolding outbox_inv_def by (meson le_trans)
  moreover have "dl_id job \<in> set (box_used s)" "dl_id ` set (remove1 job (box_claimed s)) \<subseteq> set (box_used s)"
    using assms set_remove1_subset[of job "box_claimed s"] unfolding outbox_inv_def by blast+
  ultimately show ?thesis using assms(1) by (simp add: outbox_inv_def)
qed

lemma outbox_inv_upd:
  assumes "outbox_inv s" "\<And>r. dl_id (f r) = dl_id r" "\<And>r. dl_status (f r) \<noteq> Pending"
  shows "outbox_inv (s\<lparr>box_rows := upd_where P f (box_rows s)\<rparr>)"
  using assms by (intro outbox_inv_rows) (simp_all add: upd_where_ids waiting_upd)

lemma outbox_purge:
  assumes "outbox_inv s" shows "outbox_inv (s\<lparr>box_rows := purge now (box_rows s)\<rparr>)"
proof -
  have "count_list (box_calls s) i + claims i (box_claimed s) + waiting i (purge now (box_rows s))
      \<le> 1 + count_list (box_retries s) i" for i
    using assms waiting_filter unfolding outbox_inv_def purge_def by (meson add_left_mono le_trans)
  moreover have "set (purge now (box_rows s)) \<subseteq> set (box_rows s)" by (auto simp: purge_def)
  moreover have "distinct (map dl_id (purge now (box_rows s)))"
    using assms by (simp add: outbox_inv_def purge_def distinct_map_filter)
  ultimately show ?thesis using assms unfolding outbox_inv_def by auto
qed

lemma outbox_retry:
  assumes "outbox_inv s" "retry fp options now i (box_rows s) = Inr rows"
  shows "outbox_inv (s\<lparr>box_rows := rows, box_retries := i # box_retries s\<rparr>)"
proof -
  have d: "distinct (map dl_id (box_rows s))" using assms(1) by (simp add: outbox_inv_def)
  note r = retry_rows[OF assms(2) d]
  have "count_list (box_calls s) j + claims j (box_claimed s) + waiting j rows \<le> 1 + count_list (i # box_retries s) j" for j
  proof -
    have "count_list (box_calls s) j + claims j (box_claimed s) + waiting j (box_rows s) \<le> 1 + count_list (box_retries s) j"
      using assms(1) by (simp add: outbox_inv_def)
    then show ?thesis using r(2)[of j] by (simp split: if_split_asm)
  qed
  moreover have "dl_id ` set rows = dl_id ` set (box_rows s)" using r(1) by (metis set_map)
  ultimately show ?thesis using assms(1) r(1) by (simp add: outbox_inv_def)
qed

interpretation outbox: step_invariant "outbox_step fp" outbox_inv
proof
  fix s t assume i: "outbox_inv s" and st: "outbox_step fp s t"
  from st show "outbox_inv t"
  proof cases
    case (moved job now)
    have "outbox_inv (s\<lparr>box_rows := cancel_moved now (dl_id job) (box_rows s)\<rparr>)"
      unfolding cancel_moved_def by (rule outbox_inv_upd[OF i]) simp_all
    from outbox_inv_drop_claim[OF this, of job] show ?thesis using moved by simp
  qed (use i in \<open>auto simp: expire_pending_def mark_interrupted_def finish_delivery_def
        intro!: outbox_inv_upd outbox_enqueue outbox_claim outbox_call outbox_purge outbox_retry outbox_inv_drop_claim split: if_split_asm\<close>)
qed

text \<open>C5. At most one delivery attempt: however many workers and processes interleave, crash or overlap
  with the interruption sweep, the gateway is called for a delivery at most once more often than an
  administrator explicitly asked to retry it.\<close>

theorem one_gateway_call:
  assumes "(outbox_step fp)\<^sup>*\<^sup>* \<lparr>box_rows = [], box_claimed = [], box_calls = [], box_retries = [], box_used = []\<rparr> s"
  shows "count_list (box_calls s) i \<le> 1 + count_list (box_retries s) i"
proof -
  have "outbox_inv \<lparr>box_rows = [], box_claimed = [], box_calls = [], box_retries = [], box_used = []\<rparr>"
    by (simp add: outbox_inv_def claims_def)
  from outbox.run_keeps[OF assms this] show ?thesis unfolding outbox_inv_def by (meson add_leD1)
qed

theorem one_gateway_call_witness:
  "\<exists>s. (outbox_step (\<lambda>_. ''f''))\<^sup>*\<^sup>* \<lparr>box_rows = [], box_claimed = [], box_calls = [], box_retries = [], box_used = []\<rparr> s
       \<and> box_calls s = [''d1''] \<and> count_list (box_calls s) ''d1'' \<le> 1 + count_list (box_retries s) ''d1''"
proof -
  let ?fp = "\<lambda>_. ''f''" and ?i = "dl_id demo_delivery"
  let ?s0 = "\<lparr>box_rows = [], box_claimed = [], box_calls = [], box_retries = [], box_used = []\<rparr>"
  let ?s1 = "?s0\<lparr>box_rows := [demo_delivery], box_used := [?i]\<rparr>"
  let ?s2 = "?s1\<lparr>box_rows := claim 1 ?i [demo_delivery], box_claimed := [demo_delivery]\<rparr>"
  let ?s3 = "?s2\<lparr>box_calls := [?i], box_claimed := []\<rparr>"
  have "outbox_step ?fp ?s0 ?s1" using outbox_step.enqueue[of demo_delivery ?s0 ?fp] by (simp add: insert_delivery_def)
  moreover have "claimable ?i [demo_delivery]" by (simp add: claimable_def demo_delivery_def)
  then have "outbox_step ?fp ?s1 ?s2" using outbox_step.claim[of demo_delivery ?s1 ?fp 1] by simp
  moreover have "outbox_step ?fp ?s2 ?s3" using outbox_step.call[of demo_delivery ?s2 ?fp] by simp
  ultimately have r: "(outbox_step ?fp)\<^sup>*\<^sup>* ?s0 ?s3" by (meson converse_rtranclp_into_rtranclp rtranclp.rtrancl_refl)
  have "?i = ''d1''" by (simp add: demo_delivery_def)
  then show ?thesis using one_gateway_call[OF r, of "''d1''"] r by (intro exI[of _ ?s3]) simp
qed

section \<open>What the worker sends\<close>

lemma deliver_fold:
  assumes "i \<in> set (fst (fold (deliver_job fp gateway opts now) jobs s))"
  shows "i \<in> set (fst s) \<or> (\<exists>j\<in>set jobs. dl_id j = i \<and> dl_fingerprint j = fp opts)"
  using assms
proof (induction jobs arbitrary: s)
  case (Cons j jobs)
  from Cons.prems Cons.IH[of "deliver_job fp gateway opts now j s"]
  have "i \<in> set (fst (deliver_job fp gateway opts now j s)) \<or> (\<exists>j\<in>set jobs. dl_id j = i \<and> dl_fingerprint j = fp opts)" by simp
  then show ?case by (auto simp: deliver_job_def Let_def split: if_split_asm)
qed simp

lemma still_pending:
  assumes "r \<in> set (mark_interrupted now (expire_pending now rows))" "dl_status r = Pending"
  shows "r \<in> set rows \<and> now - 86400000 \<le> dl_createdAt r"
  using assms by (auto simp: mark_interrupted_def expire_pending_def upd_where_def split: if_split_asm)

lemma deliver_calls_length: "length (fst (fold (deliver_job fp gateway opts now) jobs s)) \<le> length (fst s) + length jobs"
proof (induction jobs arbitrary: s)
  case (Cons j jobs)
  have "length (fst (deliver_job fp gateway opts now j s)) \<le> length (fst s) + 1"
    by (simp add: deliver_job_def Let_def)
  then show ?case using Cons[of "deliver_job fp gateway opts now j s"] by simp
qed simp

text \<open>What is sent: a drain hands at most ten deliveries to the gateway, and only ones that were
  pending, are at most 24 hours old, and were queued for the destination that is configured now; with
  the channel disabled it sends nothing.\<close>

theorem sends_only_current:
  "length (fst (deliver_pending fp gateway options now rows)) \<le> 10
   \<and> set (fst (deliver_pending fp gateway options now rows))
       \<subseteq> (case options of None \<Rightarrow> {} | Some opts \<Rightarrow>
            if po_enabled opts then dl_id ` {r \<in> set rows. sendable fp opts now r} else {})"
proof (cases "options = None \<or> \<not> po_enabled (the options)")
  case True
  then show ?thesis by (auto simp: deliver_pending_def Let_def split: option.split)
next
  case False
  then obtain opts where o: "options = Some opts" "po_enabled opts" by auto
  let ?rows = "mark_interrupted now (expire_pending now rows)"
  let ?jobs = "take 10 (sort_key dl_createdAt (filter (\<lambda>r. dl_status r = Pending) ?rows))"
  have f: "fst (deliver_pending fp gateway options now rows) = fst (fold (deliver_job fp gateway opts now) ?jobs ([], ?rows))"
    using o by (simp add: deliver_pending_def Let_def)
  have "length (fst (deliver_pending fp gateway options now rows)) \<le> 10"
    using deliver_calls_length[of fp gateway opts now ?jobs "([], ?rows)"] unfolding f by simp
  moreover have "i \<in> dl_id ` {r \<in> set rows. sendable fp opts now r}"
    if mem: "i \<in> set (fst (deliver_pending fp gateway options now rows))" for i
  proof -
    obtain j where "j \<in> set ?jobs" "dl_id j = i" "dl_fingerprint j = fp opts"
      using deliver_fold[OF mem[unfolded f]] by auto
    moreover from this(1) have "j \<in> set ?rows" "dl_status j = Pending" by (auto dest: in_set_takeD)
    moreover from this have "j \<in> set rows" "now - 86400000 \<le> dl_createdAt j" using still_pending by blast+
    ultimately show ?thesis by (intro image_eqI[of _ _ j]) (simp_all add: sendable_def)
  qed
  ultimately show ?thesis using o by auto
qed

section \<open>Templates\<close>

lemma node_body_ok: "is_ok (validateNotificationText node_body)" by code_simp

lemma user_body_ok: "is_ok (validateNotificationText user_body)" by code_simp

lemma default_template_ok: "template_ok (defaultNotificationTemplate ev)"
proof -
  have "list_all (\<lambda>ev. is_ok (validateNotificationText (tm_title (defaultNotificationTemplate ev)))) eventTypes"
    by code_simp
  moreover have "ev \<in> set eventTypes" by (cases ev) (simp_all add: eventTypes_def)
  ultimately have "is_ok (validateNotificationText (tm_title (defaultNotificationTemplate ev)))"
    by (simp add: list_all_iff)
  then show ?thesis by (simp add: template_ok_def defaultNotificationTemplate_def node_body_ok user_body_ok)
qed

lemma render_ok: "is_ok (renderNotificationText t context) = is_ok (validateNotificationText t)"
  by (cases "validateNotificationText t") (simp_all add: renderNotificationText_def)

lemma template_for_ok: "list_all template_ok stored \<Longrightarrow> template_ok (template_for stored ev)"
  by (auto simp: template_for_def default_template_ok list_all_iff split: option.split dest: find_Some_mem)

lemma enqueue_ok:
  assumes "list_all template_ok stored"
  shows "is_ok (enqueueNotification fp options stored uuid now ev key context rows)"
proof -
  have "template_ok (template_for stored ev)" using assms by (rule template_for_ok)
  then have "\<exists>x. renderNotificationText (tm_title (template_for stored ev)) c = Inr x"
    "\<exists>x. renderNotificationText (tm_body (template_for stored ev)) c = Inr x" for c
    using render_ok by (auto simp: template_ok_def is_ok_iff)
  then show ?thesis
    by (fastforce simp: enqueueNotification_def Let_def is_ok_iff rbind_Inr_iff split: option.split)
qed

text \<open>Accepted templates always render: whatever an administrator manages to save, and for every
  event without a stored template, queueing a notification never throws; so the transactions that
  queue one (member changes, sign-ins) are never rolled back because of a template.\<close>

theorem saved_templates_render:
  assumes "list_all template_ok stored" and "saveTemplate input stored = Inr stored'"
  shows "list_all template_ok stored'
    \<and> is_ok (enqueueNotification fp options stored' uuid now ev key context rows)"
proof -
  have "notificationTemplateSchema input" and
    s': "stored' = (if list_ex (\<lambda>t. tm_eventType t = tm_eventType input) stored
          then map (\<lambda>t. if tm_eventType t = tm_eventType input
                        then t\<lparr>tm_title := tm_title input, tm_body := tm_body input, tm_enabled := tm_enabled input,
                               tm_version := tm_version t + 1\<rparr> else t) stored
          else stored @ [input\<lparr>tm_version := 1\<rparr>])"
    using assms(2) by (auto simp: saveTemplate_def rbind_Inr_iff)
  then have "list_all template_ok stored'"
    using assms(1) by (auto simp: notificationTemplateSchema_def template_ok_def list_all_iff)
  then show ?thesis by (simp add: enqueue_ok)
qed

theorem saved_templates_render_witness:
  "is_ok (enqueueNotification (\<lambda>_. ''f'') None [demo_template\<lparr>tm_version := 1\<rparr>] ''u'' 0 NodeOnline [] [] [])"
proof -
  have "saveTemplate demo_template [] = Inr [demo_template\<lparr>tm_version := 1\<rparr>]" by code_simp
  from saved_templates_render[OF _ this] show ?thesis by simp
qed

lemma match_var_suffix: "match_var t = Some (k, r) \<Longrightarrow> set r \<subseteq> set t"
proof (induction t rule: match_var.induct)
  case (1 a b u)
  let ?r3 = "dropWhile is_ws (dropWhile key_char (dropWhile is_ws u))"
  have "r = drop 2 ?r3" using "1.prems" by (simp add: Let_def split: if_split_asm)
  then show ?case using set_drop_subset[of 2 ?r3] set_dropWhileD[of _ is_ws "dropWhile key_char (dropWhile is_ws u)"]
      set_dropWhileD[of _ key_char "dropWhile is_ws u"] set_dropWhileD[of _ is_ws u] by fastforce
qed simp_all

lemma pieces_lits: "Lit c \<in> set (pieces t) \<Longrightarrow> c \<in> set t"
proof (induction t rule: pieces.induct)
  case (2 a t)
  then show ?case using match_var_suffix[of "a # t"] by (fastforce split: option.split_asm)
qed simp

lemma render_key_bounds: "length (render_key context k) \<le> 512" "\<forall>c\<in>set (render_key context k). \<not> is_control c"
  by (auto simp: render_key_def dest!: in_set_takeD)

lemma pieces_length: "length (pieces t) \<le> length t"
proof (induction t rule: pieces.induct)
  case (2 a t)
  then show ?case using match_var_shorter[of "a # t"] by (fastforce split: option.split)
qed simp

text \<open>Substituted values cannot inject: rendering keeps the template's own text, replaces each
  placeholder by at most 512 code units, and every control character of the result was already in
  the template.\<close>

theorem rendered_text_is_safe:
  assumes "renderNotificationText t context = Inr out"
  shows "(\<forall>c\<in>set out. is_control c \<longrightarrow> c \<in> set t) \<and> length out \<le> 512 * length t
    \<and> \<not> contains2 60 37 t \<and> (\<forall>k\<in>set (keys_of (pieces t)). allowed k)"
proof -
  let ?f = "\<lambda>p. case p of Lit c \<Rightarrow> [c] | Var k \<Rightarrow> render_key context k"
  have out: "out = concat (map ?f (pieces t))" and v: "is_ok (validateNotificationText t)"
    using assms by (auto simp: renderNotificationText_def rbind_Inr_iff)
  have "length (concat (map ?f ps)) \<le> 512 * length ps" for ps
    by (induction ps) (use render_key_bounds(1) in \<open>auto split: piece.split intro: add_mono\<close>)
  then have "length out \<le> 512 * length t" using pieces_length[of t] unfolding out by (meson le_trans mult_le_mono2)
  moreover have "\<forall>c\<in>set out. is_control c \<longrightarrow> c \<in> set t"
  proof (intro ballI impI)
    fix c assume "c \<in> set out" and ctl: "is_control c"
    then obtain p where p: "p \<in> set (pieces t)" "c \<in> set (?f p)" unfolding out by auto
    then show "c \<in> set t" using render_key_bounds(2) ctl pieces_lits by (cases p rule: piece.exhaust) auto
  qed
  moreover have "\<not> contains2 60 37 t \<and> (\<forall>k\<in>set (keys_of (pieces t)). allowed k)"
    using v by (auto simp: validateNotificationText_def is_ok_iff rbind_Inr_iff find_None_all split: option.split_asm)
  ultimately show ?thesis by blast
qed

theorem rendered_text_is_safe_witness:
  "\<exists>out. renderNotificationText (asc ''{{ node.name }} up'') [(asc ''node.name'', [7, 65])] = Inr out \<and> length out \<le> 512 * 18"
proof -
  have r: "renderNotificationText (asc ''{{ node.name }} up'') [(asc ''node.name'', [7, 65])] = Inr (asc ''A up'')" by code_simp
  have "length (asc ''A up'') \<le> 512 * length (asc ''{{ node.name }} up'')"
    using rendered_text_is_safe[OF r] by blast
  moreover have "length (asc ''{{ node.name }} up'') = 18" by (simp add: asc_def)
  ultimately show ?thesis using r by metis
qed

section \<open>Events\<close>

text \<open>Queueing inserts at most one row, and none when the event key is taken.\<close>

lemma enqueue_rows:
  assumes "enqueueNotification fp options stored uuid now ev key context rows = Inr rows'"
  shows "rows' = rows \<or> (\<exists>row. rows' = rows @ [row] \<and> dl_eventKey row = key \<and> dl_id row = uuid
           \<and> key \<notin> dl_eventKey ` set rows \<and> uuid \<notin> dl_id ` set rows)"
  using assms
  by (auto simp: enqueueNotification_def Let_def rbind_Inr_iff insert_delivery_def list_ex_iff
      split: option.split_asm if_split_asm)

text \<open>No duplicate events: queueing keeps event keys and ids unique, and queueing the same event key
  again, with any content, leaves the outbox as it is.\<close>

theorem event_queued_once:
  assumes "distinct (map dl_eventKey rows)" "distinct (map dl_id rows)"
    and "enqueueNotification fp options stored uuid now ev key context rows = Inr rows'"
  shows "distinct (map dl_eventKey rows') \<and> distinct (map dl_id rows')
    \<and> (if key \<in> dl_eventKey ` set rows then rows' = rows else length rows' \<le> length rows + 1)"
  using enqueue_rows[OF assms(3)] assms(1,2) by auto

theorem event_queued_once_witness:
  "\<exists>rows'. enqueueNotification (\<lambda>_. ''f'') None [] ''u'' 0 NodeOnline (asc ''k'') [] [demo_delivery] = Inr rows'
     \<and> rows' = [demo_delivery]"
  using event_queued_once[of "[demo_delivery]" "\<lambda>_. ''f''" None "[]" "''u''" 0 NodeOnline "asc ''k''" "[]" "[demo_delivery]"]
  by (simp add: enqueueNotification_def)

text \<open>One notification per transition: two pollers that read the same member row cannot both
  announce its transition; once one of them has stored a newer observation time with its event, the
  other one's write and event are dropped.\<close>

theorem transition_announced_once:
  assumes "persistObservedMember env uuid now db view data s = Inr s1"
    and "statusEventTypes db (v_online view) data \<noteq> []" "d_statusObservedAt data = Some t" "m_statusObservedAt db \<noteq> Some t"
    and "list_ex (\<lambda>m. same_member db m \<and> m_statusObservedAt m = m_statusObservedAt db) (fst s)"
    and "statusEventTypes db (v_online view') data' \<noteq> []"
  shows "persistObservedMember env uuid' now' db view' data' s1 = Inr s1"
proof -
  let ?hit = "\<lambda>m. same_member db m \<and> m_statusObservedAt m = m_statusObservedAt db"
  have eq: "fst s1 = map (\<lambda>m. if ?hit m then apply_patch data m else m) (fst s)"
    using assms(1,2,5) by (auto simp: persistObservedMember_def Let_def rbind_Inr_iff)
  have miss: "\<not> ?hit (if ?hit m then apply_patch data m else m)" for m
    using assms(3,4) by (auto simp: apply_patch_def same_member_def)
  have "\<not> list_ex ?hit (fst s1)"
    unfolding eq list_ex_iff set_map using miss by blast
  then show ?thesis using assms(6) by (simp add: persistObservedMember_def Let_def)
qed

theorem transition_announced_once_witness:
  "persistObservedMember quiet_env (\<lambda>_. ''v'') 2 demo_member demo_view offline_patch
     ([apply_patch offline_patch demo_member], []) = Inr ([apply_patch offline_patch demo_member], [])"
proof -
  have e: "statusEventTypes demo_member (v_online demo_view) offline_patch = [NodeOffline]" by code_simp
  have "list_ex (\<lambda>m. same_member demo_member m \<and> m_statusObservedAt m = m_statusObservedAt demo_member) (fst ([demo_member], []))"
    by (simp add: same_member_def)
  moreover have "persistObservedMember quiet_env (\<lambda>_. ''u'') 1 demo_member demo_view offline_patch ([demo_member], [])
      = Inr ([apply_patch offline_patch demo_member], [])"
    using e by (simp add: persistObservedMember_def Let_def same_member_def enqueueNotification_def)
  moreover have "m_statusObservedAt demo_member \<noteq> Some 1000000" by (simp add: demo_member_def)
  ultimately show ?thesis
    using transition_announced_once[of quiet_env "\<lambda>_. ''u''" 1 demo_member demo_view offline_patch "([demo_member], [])"
        _ 1000000 demo_view offline_patch] e by simp
qed

end
