(* ===== verification/Accounts.thy ===== *)
theory Accounts
  imports Organizations Notifications "HOL-Library.Sublist"
begin

text \<open>
  Accounts: registration with its invitations (\<^verbatim>\<open>authRouter.register\<close> and
  \<^verbatim>\<open>server/api/services/organizationAuthService.ts\<close>), the password reset and the profile update
  (\<^verbatim>\<open>server/api/routers/authRouter.ts\<close>), and the administrator's operations on users, groups and
  invitation links (\<^verbatim>\<open>server/api/routers/adminRoute.ts\<close>).

  Registration first checks its inputs against the database and then writes in one transaction under an
  advisory lock; in between other requests run, so the two phases are separate definitions and what the
  first has read is a value the second is given. Parameters: \<open>hash\<close> (bcrypt), \<open>compare\<close>, \<open>sha\<close>
  (SHA-256), \<open>jwt\<close> (a verified token), \<open>decode\<close> (an organisation token), the date functions and new ids.
\<close>

section \<open>Organisation tokens\<close>

definition invalid_token :: exn where
  "invalid_token = TRPCError BAD_REQUEST ''Invalid token data!''"

definition find_org_invite :: "invite_payload \<Rightarrow> string \<Rightarrow> string \<Rightarrow> org_state \<Rightarrow> (org_invite_row \<times> invitation_row) option" where
  "find_org_invite p token email s =
     (case find (\<lambda>l. list_ex (\<lambda>i. iv_id i = oi_invitationId l \<and> iv_role i = ip_role p \<and> iv_token i = token \<and> iv_email i = Some email)
                  (os_invitations s)) (os_orgInvites s) of
        None \<Rightarrow> None
      | Some l \<Rightarrow> map_option (Pair l) (find (\<lambda>i. iv_id i = oi_invitationId l) (os_invitations s)))"

text \<open>Every failure is reported as the same error.\<close>

definition validateOrganizationToken ::
  "(string \<Rightarrow> invite_payload option) \<Rightarrow> int \<Rightarrow> string option \<Rightarrow> string \<Rightarrow> org_state
     \<Rightarrow> exn + (org_invite_row \<times> invitation_row) option" where
  "validateOrganizationToken decode now organizationToken inputEmail s =
     (case organizationToken of None \<Rightarrow> Inr None
      | Some raw \<Rightarrow>
          let token = js_trim raw
          in if token = [] then Inr None
             else rbind (of_option invalid_token (decode token)) (\<lambda>p.
                  rbind (of_option invalid_token (ip_email p)) (\<lambda>email.
                  rbind (ensure (\<not> ip_expiresAt p < now) invalid_token) (\<lambda>_.
                  rbind (of_option invalid_token (find_org_invite p token email s)) (\<lambda>found.
                  rbind (ensure (normalizeEmail inputEmail = normalizeEmail email) invalid_token) (\<lambda>_.
                  Inr (Some found)))))))"

section \<open>Registration\<close>

record register_input =
  ri_email :: string
  ri_password :: string
  ri_name :: string
  ri_expiresAt :: "string option"
  ri_code :: "string option"
  ri_orgToken :: "string option"
  ri_token :: "string option"

record registration =
  rg_expiresAt :: "int option"
  rg_invitation :: "invitation_row option"
  rg_orgInvite :: "(org_invite_row \<times> invitation_row) option"

text \<open>\<^verbatim>\<open>s?.trim()\<close>, empty counted as absent.\<close>

definition trimmed :: "string option \<Rightarrow> string option" where
  "trimmed s = (case s of None \<Rightarrow> None | Some t \<Rightarrow> if js_trim t = [] then None else Some (js_trim t))"

definition bad_request :: "string \<Rightarrow> exn" where
  "bad_request m = TRPCError BAD_REQUEST m"

definition registration_disabled :: exn where
  "registration_disabled = bad_request ''Registration is disabled! Please contact the administrator.''"

definition invitation_invalid :: exn where
  "invitation_invalid = bad_request ''Invitation has expired or is invalid''"

definition usable :: "int \<Rightarrow> string \<Rightarrow> invitation_row \<Rightarrow> bool" where
  "usable now email i \<longleftrightarrow> now < iv_expiresAt i \<and> \<not> (truthy (iv_email i) \<and> normalizeEmail (the (iv_email i)) \<noteq> email)
     \<and> \<not> iv_used i \<and> iv_timesUsed i < iv_timesCanUse i"

definition check_code ::
  "(string \<Rightarrow> bool) \<Rightarrow> int \<Rightarrow> string \<Rightarrow> string option \<Rightarrow> string option \<Rightarrow> org_state \<Rightarrow> exn + invitation_row option" where
  "check_code jwt_ok now email codeText tokenText s =
     (case (trimmed codeText, trimmed tokenText) of
        (None, None) \<Rightarrow> Inr None
      | (Some code', Some token) \<Rightarrow>
          (case find (\<lambda>i. iv_token i = token \<and> iv_secret i = Some code') (os_invitations s) of
             None \<Rightarrow> Inl invitation_invalid
           | Some i \<Rightarrow>
               if \<not> usable now email i then Inl (bad_request ''Code has already been used'')
               else if \<not> jwt_ok token then Inl invitation_invalid
               else Inr (Some i))
      | _ \<Rightarrow> Inl (bad_request ''No invitation code provided''))"

definition parse_expiry :: "(string \<Rightarrow> int option) \<Rightarrow> string option \<Rightarrow> exn + int option" where
  "parse_expiry parse_date v = (case trimmed v of None \<Rightarrow> Inr None
     | Some t \<Rightarrow> (case parse_date t of None \<Rightarrow> Inl (bad_request ''Invalid expiration date'') | Some d \<Rightarrow> Inr (Some d)))"

definition register_check ::
  "bool \<Rightarrow> (string \<Rightarrow> int option) \<Rightarrow> (string \<Rightarrow> invite_payload option) \<Rightarrow> (string \<Rightarrow> bool) \<Rightarrow> password_policy \<Rightarrow> int
     \<Rightarrow> register_input \<Rightarrow> org_state \<Rightarrow> exn + registration" where
  "register_check rate_ok parse_date decode jwt_ok policy now inp s =
     rbind (ensure (3 \<le> length (ri_name inp) \<and> length (ri_name inp) \<le> 40 \<and> ri_email inp \<noteq> []
              \<and> passwordMeetsPolicy (ri_password inp) policy) ZodError) (\<lambda>_.
     rbind (ensure rate_ok (TRPCError TOO_MANY_REQUESTS ''Rate limit exceeded'')) (\<lambda>_.
     rbind (parse_expiry parse_date (ri_expiresAt inp)) (\<lambda>expiresAt.
     rbind (validateOrganizationToken decode now (ri_orgToken inp) (ri_email inp) s) (\<lambda>orgInvite.
     rbind (check_code jwt_ok now (ri_email inp) (ri_code inp) (ri_token inp) s) (\<lambda>invitation.
     rbind (ensure (enableRegistration (os_db s) = Some True \<or> invitation \<noteq> None \<or> orgInvite \<noteq> None) registration_disabled) (\<lambda>_.
     rbind (ensure (find_by_email (ri_email inp) s = None)
              (TRPCError NOT_FOUND (''email \"'' @ ri_email inp @ ''\" already taken''))) (\<lambda>_.
     Inr \<lparr>rg_expiresAt = expiresAt, rg_invitation = invitation, rg_orgInvite = orgInvite\<rparr>)))))))"

text \<open>The transaction: the captured invitation is consumed only if its row is still the one that was read.\<close>

definition same_use :: "int \<Rightarrow> invitation_row \<Rightarrow> invitation_row \<Rightarrow> bool" where
  "same_use now i r \<longleftrightarrow> iv_id r = iv_id i \<and> \<not> iv_used r \<and> iv_timesUsed r = iv_timesUsed i \<and> now < iv_expiresAt r"

definition consume_invitation :: "int \<Rightarrow> invitation_row option \<Rightarrow> org_state \<Rightarrow> exn + org_state" where
  "consume_invitation now captured s =
     (case captured of None \<Rightarrow> Inr s
      | Some i \<Rightarrow>
          rbind (ensure (length (filter (same_use now i) (os_invitations s)) = 1) invitation_invalid) (\<lambda>_.
          Inr (s\<lparr>os_invitations := map (\<lambda>r. if same_use now i r
                   then r\<lparr>iv_used := (iv_timesUsed i + 1 \<ge> iv_timesCanUse i), iv_timesUsed := iv_timesUsed r + 1\<rparr> else r)
                   (os_invitations s)\<rparr>)))"

definition consume_org_token :: "string option \<Rightarrow> (org_invite_row \<times> invitation_row) option \<Rightarrow> org_state \<Rightarrow> exn + org_state" where
  "consume_org_token tokenText captured s =
     (case captured of None \<Rightarrow> Inr s
      | Some (l, i) \<Rightarrow>
          (case tokenText of None \<Rightarrow> Inl invalid_token
           | Some raw \<Rightarrow>
               let P = (\<lambda>r. iv_id r = iv_id i \<and> iv_token r = js_trim raw)
               in rbind (ensure (length (filter P (os_invitations s)) = 1) invitation_invalid) (\<lambda>_. Inr (delete_invitations P s))))"

definition group_for :: "invitation_row option \<Rightarrow> db \<Rightarrow> int option" where
  "group_for invitation d =
     (case (case invitation of None \<Rightarrow> None | Some i \<Rightarrow> if iv_userGroupId i = Some 0 then None else iv_userGroupId i) of
        Some g \<Rightarrow> Some g | None \<Rightarrow> map_option g_id (find g_isDefault (groups d)))"

definition new_user :: "string \<Rightarrow> string \<Rightarrow> string \<Rightarrow> role \<Rightarrow> string \<Rightarrow> bool \<Rightarrow> int option \<Rightarrow> int option \<Rightarrow> int \<Rightarrow> user_row" where
  "new_user i name email r h change grp expires now =
     \<lparr>u_id = i, u_name = name, u_email = email, u_role = r, u_hash = Some h, u_firstTime = True, u_twoFactorEnabled = False,
      u_twoFactorSecret = None, u_failedLoginAttempts = 0, u_lastFailedLoginAttempt = None, u_requestChangePassword = change,
      u_userGroupId = grp, u_expiresAt = expires, u_isActive = True, u_lastLogin = now\<rparr>"

text \<open>\<^verbatim>\<open>user.create\<close>: the id is new, the address unique, and a group must exist.\<close>

definition insert_user :: "user_row \<Rightarrow> org_state \<Rightarrow> exn + org_state" where
  "insert_user u s =
     rbind (ensure (find_user (u_id u) (os_db s) = None \<and> find_by_email (u_email u) s = None) unique_violation) (\<lambda>_.
     rbind (ensure (u_userGroupId u = None \<or> find_group (u_userGroupId u) (os_db s) \<noteq> None) record_missing) (\<lambda>_.
     Inr (s\<lparr>os_db := (os_db s)\<lparr>users := users (os_db s) @ [u]\<rparr>\<rparr>)))"

definition in_db :: "(db \<Rightarrow> db) \<Rightarrow> org_state \<Rightarrow> org_state" where
  "in_db f s = s\<lparr>os_db := f (os_db s)\<rparr>"

definition register_write :: "(string \<Rightarrow> string) \<Rightarrow> string \<Rightarrow> int \<Rightarrow> register_input \<Rightarrow> registration \<Rightarrow> org_state \<Rightarrow> exn + org_state" where
  "register_write hash newId now inp reg s =
     (let first = (users (os_db s) = []);
          r = (if first then ADMIN else case rg_invitation reg of None \<Rightarrow> USER | Some i \<Rightarrow> iv_role i);
          h = hash (ri_password inp);
          u = new_user newId (ri_name inp) (ri_email inp) r h False (group_for (rg_invitation reg) (os_db s)) (rg_expiresAt reg) now
      in rbind (insert_user u s) (\<lambda>s1.
         rbind (case rg_orgInvite reg of None \<Rightarrow> Inr s1
                | Some (l, i) \<Rightarrow> join_org newId (oi_organizationId l) (iv_role i) s1) (\<lambda>s2.
         let s3 = in_db (upsertCredentialAccount newId h) s2
         in if \<not> first then Inr s3
            else if enableRegistration (os_db s3) = None then Inl record_missing
            else Inr (in_db (\<lambda>d. d\<lparr>enableRegistration := Some False\<rparr>) s3))))"

definition register_commit :: "(string \<Rightarrow> string) \<Rightarrow> string \<Rightarrow> int \<Rightarrow> register_input \<Rightarrow> registration \<Rightarrow> org_state \<Rightarrow> exn + org_state" where
  "register_commit hash newId now inp reg s =
     rbind (ensure (enableRegistration (os_db s) = Some True \<or> rg_invitation reg \<noteq> None \<or> rg_orgInvite reg \<noteq> None)
              registration_disabled) (\<lambda>_.
     rbind (consume_invitation now (rg_invitation reg) s) (\<lambda>s1.
     rbind (consume_org_token (ri_orgToken inp) (rg_orgInvite reg) s1) (\<lambda>s2.
     register_write hash newId now inp reg s2)))"

text \<open>Both phases without anything in between, and the log entry of an invited member, written after the
  transaction.\<close>

definition register_log :: "register_input \<Rightarrow> registration \<Rightarrow> org_state \<Rightarrow> org_state" where
  "register_log inp reg s =
     (case rg_orgInvite reg of None \<Rightarrow> s
      | Some (l, i) \<Rightarrow> add_log (''User '' @ ri_name inp @ '' has registered with email '' @ ri_email inp
            @ '' and has been added to the organization '' @ oi_organizationId l @ '' with the role '' @ role_text (iv_role i) @ ''!'')
          (iv_invitedById i) (oi_organizationId l) s)"

definition register ::
  "bool \<Rightarrow> (string \<Rightarrow> int option) \<Rightarrow> (string \<Rightarrow> invite_payload option) \<Rightarrow> (string \<Rightarrow> bool) \<Rightarrow> password_policy \<Rightarrow> (string \<Rightarrow> string)
     \<Rightarrow> string \<Rightarrow> int \<Rightarrow> register_input \<Rightarrow> org_state \<Rightarrow> exn + org_state" where
  "register rate_ok parse_date decode jwt_ok policy hash newId now inp s =
     rbind (register_check rate_ok parse_date decode jwt_ok policy now inp s) (\<lambda>reg.
     rbind (register_commit hash newId now inp reg s) (\<lambda>s'. Inr (register_log inp reg s')))"

section \<open>Administration\<close>

definition forbid_self :: "caller \<Rightarrow> string \<Rightarrow> string \<Rightarrow> exn + unit" where
  "forbid_self c userId m = ensure (ca_id c \<noteq> userId) (bad_request m)"

definition admin_updateUser :: "caller \<Rightarrow> string \<Rightarrow> bool option \<Rightarrow> int option option \<Rightarrow> org_state \<Rightarrow> exn + org_state" where
  "admin_updateUser c userId isActive expiresAt s =
     rbind (forbid_self c userId ''You can't change your own status'') (\<lambda>_.
     rbind (of_option (TRPCError NOT_FOUND ''User not found'') (find_user userId (os_db s))) (\<lambda>u.
     rbind (ensure (u_role u \<noteq> ADMIN) (bad_request ''You can't change the status of admin users'')) (\<lambda>_.
     Inr (in_db (update_user userId (\<lambda>u. u\<lparr>u_isActive := (case isActive of None \<Rightarrow> u_isActive u | Some b \<Rightarrow> b),
            u_expiresAt := (case expiresAt of None \<Rightarrow> u_expiresAt u | Some e \<Rightarrow> e)\<rparr>)) s))))"

definition admin_changeRole :: "caller \<Rightarrow> string \<Rightarrow> string \<Rightarrow> org_state \<Rightarrow> exn + org_state" where
  "admin_changeRole c userId roleText s =
     rbind (of_option ZodError (role_of_text roleText)) (\<lambda>r.
     rbind (forbid_self c userId ''You can't change your own role'') (\<lambda>_.
     rbind (ensure (find_user userId (os_db s) \<noteq> None) record_missing) (\<lambda>_.
     Inr (in_db (update_user userId (\<lambda>u. if r = ADMIN
            then u\<lparr>u_role := ADMIN, u_userGroupId := None, u_expiresAt := None, u_isActive := True\<rparr>
            else u\<lparr>u_role := r\<rparr>)) s))))"

record create_user_input =
  cu_name :: string
  cu_email :: string
  cu_password :: string
  cu_role :: role
  cu_userGroupId :: "int option"
  cu_expiresAfterDays :: "int option"
  cu_requestChangePassword :: bool
  cu_organizationId :: "string option"
  cu_organizationRole :: role

definition admin_createUser ::
  "password_policy \<Rightarrow> (string \<Rightarrow> string) \<Rightarrow> (int \<Rightarrow> int \<Rightarrow> int) \<Rightarrow> string \<Rightarrow> int \<Rightarrow> caller \<Rightarrow> create_user_input \<Rightarrow> org_state \<Rightarrow> exn + org_state" where
  "admin_createUser policy hash after_days newId now c inp s =
     rbind (ensure (cu_name inp \<noteq> [] \<and> passwordMeetsPolicy (cu_password inp) policy) ZodError) (\<lambda>_.
     rbind (ensure (find_by_email (cu_email inp) s = None) (bad_request ''User with this email already exists'')) (\<lambda>_.
     let h = hash (cu_password inp);
         expires = (case cu_expiresAfterDays inp of None \<Rightarrow> None | Some n \<Rightarrow> if n > 0 then Some (after_days now n) else None);
         grp = (case cu_userGroupId inp of Some g \<Rightarrow> if g = 0 then map_option g_id (find g_isDefault (groups (os_db s))) else Some g
                | None \<Rightarrow> map_option g_id (find g_isDefault (groups (os_db s))));
         org = (if truthy (cu_organizationId inp) then cu_organizationId inp else None)
     in rbind (ensure (case org of None \<Rightarrow> True | Some i \<Rightarrow> list_ex (\<lambda>g. og_id g = i \<and> og_ownerId g = ca_id c) (os_orgs s))
                 (bad_request ''Organization not found or access denied'')) (\<lambda>_.
        rbind (insert_user (new_user newId (cu_name inp) (cu_email inp) (cu_role inp) h (cu_requestChangePassword inp) grp expires now) s) (\<lambda>s1.
        let s2 = in_db (upsertCredentialAccount newId h) s1
        in case org of None \<Rightarrow> Inr s2 | Some i \<Rightarrow> join_org newId i (cu_organizationRole inp) s2))))"

definition digits_only :: "string \<Rightarrow> bool" where
  "digits_only t \<longleftrightarrow> t \<noteq> [] \<and> list_all is_digit t"

definition parse_times :: "string option \<Rightarrow> exn + nat" where
  "parse_times v =
     (let x = (case trimmed v of None \<Rightarrow> JDec 1 0 | Some t \<Rightarrow> js_Number t)
      in rbind (ensure (js_is_integer x \<and> 1 \<le> js_trunc x \<and> js_trunc x \<le> 100000)
             (bad_request ''Usage count must be an integer between 1 and 100000'')) (\<lambda>_. Inr (nat (js_trunc x))))"

definition admin_generateInviteLink ::
  "(string \<Rightarrow> int \<Rightarrow> string) \<Rightarrow> string \<Rightarrow> int \<Rightarrow> caller \<Rightarrow> string \<Rightarrow> string \<Rightarrow> string option \<Rightarrow> string option \<Rightarrow> org_state \<Rightarrow> exn + (string \<times> org_state)" where
  "admin_generateInviteLink sign baseUrl now c secretText expireText timesCanUse groupId s =
     (let secret = js_trim secretText; expireTime = js_trim expireText; minutes = int (digits_val 0 expireTime)
      in rbind (ensure (1 \<le> length secret \<and> length secret \<le> 256 \<and> 1 \<le> length expireTime) ZodError) (\<lambda>_.
         rbind (ensure (digits_only expireTime \<and> 1 \<le> minutes \<and> minutes \<le> 525600)
                  (bad_request ''Expiration must be an integer between 1 and 525600 minutes'')) (\<lambda>_.
         rbind (parse_times timesCanUse) (\<lambda>times.
         let token = sign secret minutes
         in rbind (ensure (\<not> list_ex (\<lambda>i. iv_token i = token) (os_invitations s)) unique_violation) (\<lambda>_.
            Inr (token, s\<lparr>os_invitations := os_invitations s @ [\<lparr>iv_id = os_nextInvite s, iv_token = token, iv_used = False, iv_email = None,
                   iv_secret = Some secret, iv_groupId = groupId, iv_userGroupId = None,
                   iv_url = baseUrl @ ''/locale-redirect?invite='' @ token, iv_expiresAt = now + minutes * 60 * 1000,
                   iv_mailSentAt = None, iv_timesCanUse = times, iv_timesUsed = 0, iv_invitedById = ca_id c, iv_role = READ_ONLY\<rparr>],
                 os_nextInvite := os_nextInvite s + 1\<rparr>))))))"

text \<open>User groups. The dates are parameters: \<open>parse_date\<close>, the start of today and the end of a day.\<close>

record group_input =
  gi_id :: "int option"
  gi_name :: string
  gi_maxNetworks :: string
  gi_isDefault :: bool
  gi_expiresAt :: "string option"

text \<open>The transformed \<^verbatim>\<open>expiresAt\<close>: absent or empty is \<open>None\<close>; inside, a text that is no date.\<close>

definition parsed_group_expiry :: "(string \<Rightarrow> int option) \<Rightarrow> group_input \<Rightarrow> int option option" where
  "parsed_group_expiry parse_date inp = (if truthy (gi_expiresAt inp) then Some (parse_date (the (gi_expiresAt inp))) else None)"

definition group_input_ok :: "(string \<Rightarrow> int option) \<Rightarrow> int \<Rightarrow> group_input \<Rightarrow> bool" where
  "group_input_ok parse_date today inp \<longleftrightarrow> js_trim (gi_name inp) \<noteq> [] \<and> js_trim (gi_maxNetworks inp) \<noteq> []
     \<and> (case parsed_group_expiry parse_date inp of None \<Rightarrow> True | Some None \<Rightarrow> False | Some (Some t) \<Rightarrow> \<not> t < today)"

definition clear_default :: "db \<Rightarrow> db" where
  "clear_default d = d\<lparr>groups := map (\<lambda>g. if g_isDefault g then g\<lparr>g_isDefault := False\<rparr> else g) (groups d)\<rparr>"

definition upsert_group :: "int \<Rightarrow> int \<Rightarrow> (group_row \<Rightarrow> group_row) \<Rightarrow> db \<Rightarrow> db" where
  "upsert_group newId key f d =
     (if list_ex (\<lambda>g. g_id g = key) (groups d)
      then d\<lparr>groups := map (\<lambda>g. if g_id g = key then f g else g) (groups d)\<rparr>
      else d\<lparr>groups := groups d @ [f \<lparr>g_id = newId, g_name = [], g_maxNetworks = 0, g_isDefault = False, g_expiresAt = None\<rparr>]\<rparr>)"

text \<open>The column \<^verbatim>\<open>maxNetworks\<close> takes 32-bit integers; the default flag of the other groups is cleared first, and
  stays cleared when the write fails.\<close>

definition addUserGroup ::
  "(string \<Rightarrow> int option) \<Rightarrow> int \<Rightarrow> (int \<Rightarrow> int) \<Rightarrow> int \<Rightarrow> group_input \<Rightarrow> db \<Rightarrow> (exn + unit) \<times> db" where
  "addUserGroup parse_date today end_of_day newId inp d =
     (if \<not> group_input_ok parse_date today inp then (Inl ZodError, d)
      else let d1 = (if gi_isDefault inp then clear_default d else d);
               failed = Inl (bad_request ''Could not process user group operation! Please try again'')
      in (case parse_int (gi_maxNetworks inp) of
            None \<Rightarrow> (failed, d1)
          | Some n \<Rightarrow>
              if n < - 2147483648 \<or> 2147483647 < n then (failed, d1)
              else (Inr (), upsert_group newId (case gi_id inp of None \<Rightarrow> - 1 | Some i \<Rightarrow> if i = 0 then - 1 else i)
                     (\<lambda>g. g\<lparr>g_name := gi_name inp, g_maxNetworks := n, g_isDefault := gi_isDefault inp,
                            g_expiresAt := map_option end_of_day (Option.bind (parsed_group_expiry parse_date inp) id)\<rparr>) d1)))"

definition group_in_use :: "int \<Rightarrow> db \<Rightarrow> string" where
  "group_in_use i d =
     (let us = filter (\<lambda>u. u_userGroupId u = Some i) (users d)
      in ''Cannot delete user group \"'' @ (case find_group (Some i) d of None \<Rightarrow> [] | Some g \<Rightarrow> g_name g) @ ''\". ''
         @ nat_str (length us) @ '' user(s) are still assigned to this group: ''
         @ js_join '', '' (map (\<lambda>u. if u_name u = [] then u_email u else u_name u) us)
         @ ''. Please manually remove these users from the group first by editing each user individually, then try deleting the group again.'')"

definition deleteUserGroup :: "int \<Rightarrow> bool \<Rightarrow> db \<Rightarrow> (exn + unit) \<times> db" where
  "deleteUserGroup i removeUsers d =
     (if i \<le> 0 then (Inl ZodError, d)
      else if find_group (Some i) d = None then (Inl (bad_request ''Could not delete user group: User group not found!''), d)
      else if list_ex (\<lambda>u. u_userGroupId u = Some i) (users d) \<and> \<not> removeUsers
      then (Inl (bad_request (''Could not delete user group: '' @ group_in_use i d)), d)
      else (Inr (), d\<lparr>users := map (\<lambda>u. if u_userGroupId u = Some i then u\<lparr>u_userGroupId := None, u_expiresAt := None\<rparr> else u) (users d),
                      groups := filter (\<lambda>g. g_id g \<noteq> i) (groups d)\<rparr>))"

definition assignUserGroup :: "caller \<Rightarrow> string \<Rightarrow> string option \<Rightarrow> db \<Rightarrow> exn + db" where
  "assignUserGroup c userId groupText d =
     rbind (forbid_self c userId ''You can't change your own Group'') (\<lambda>_.
     rbind (of_option (TRPCError NOT_FOUND ''User not found'') (find_user userId d)) (\<lambda>u.
     rbind (ensure (\<not> (u_role u = ADMIN \<and> groupText \<noteq> Some ''none'')) (bad_request ''You can't add groups to admin users'')) (\<lambda>_.
     if groupText = Some ''none'' then Inr (update_user userId (\<lambda>u. u\<lparr>u_userGroupId := None, u_expiresAt := None\<rparr>) d)
     else case find_group (Option.bind groupText parse_int) d of
       None \<Rightarrow> Inl (bad_request ''Error assigning user to group: User or UserGroup not found'')
     | Some g \<Rightarrow> Inr (update_user userId (\<lambda>u. u\<lparr>u_userGroupId := Some (g_id g), u_expiresAt := g_expiresAt g\<rparr>) d))))"

section \<open>Passwords\<close>

record verification_row =
  vf_identifier :: string
  vf_value :: string
  vf_expiresAt :: int

record acct_state =
  as_db :: db
  as_verifs :: "verification_row list"
  as_sessions :: "(string \<times> string) list"
  as_out :: "delivery list"

definition resetTokenRecord :: "(string \<Rightarrow> string) \<Rightarrow> int \<Rightarrow> string \<Rightarrow> string \<Rightarrow> verification_row \<Rightarrow> bool" where
  "resetTokenRecord sha now token userId v \<longleftrightarrow>
     vf_identifier v = ''ztplanet-password-reset:'' @ userId \<and> vf_value v = sha token \<and> now < vf_expiresAt v"

text \<open>\<open>sign\<close> makes the token from the user's id and address with a fresh id in it; whether the mail was
  sent comes after the row was stored.\<close>

definition passwordResetLink ::
  "(string \<Rightarrow> string) \<Rightarrow> (string \<Rightarrow> string \<Rightarrow> string) \<Rightarrow> bool \<Rightarrow> bool \<Rightarrow> int \<Rightarrow> string \<Rightarrow> acct_state \<Rightarrow> (exn + unit) \<times> acct_state" where
  "passwordResetLink sha sign rate_ok mail_ok now email s =
     (if \<not> rate_ok then (Inl (TRPCError TOO_MANY_REQUESTS ''Rate limit exceeded, please try again later''), s)
      else case find (\<lambda>u. u_email u = email) (users (as_db s)) of
        None \<Rightarrow> (Inr (), s)
      | Some u \<Rightarrow>
          let s1 = s\<lparr>as_verifs := as_verifs s @ [\<lparr>vf_identifier = ''ztplanet-password-reset:'' @ u_id u,
                       vf_value = sha (sign (u_id u) (u_email u)), vf_expiresAt = now + 15 * 60 * 1000\<rparr>]\<rparr>
          in (if mail_ok then Inr () else Inl (TRPCError INTERNAL_SERVER_ERROR ''Failed to send reset email. Please try again later.''), s1))"

definition validateResetPasswordToken ::
  "(string \<Rightarrow> string) \<Rightarrow> (string \<Rightarrow> (string \<times> string) option) \<Rightarrow> bool \<Rightarrow> int \<Rightarrow> string \<Rightarrow> acct_state \<Rightarrow> string option" where
  "validateResetPasswordToken sha jwt rate_ok now token s =
     (if token = [] \<or> \<not> rate_ok then None
      else case jwt token of None \<Rightarrow> None
      | Some (i, email) \<Rightarrow>
          (case find_user i (as_db s) of None \<Rightarrow> None
           | Some u \<Rightarrow> if normalizeEmail (u_email u) = normalizeEmail email \<and> list_ex (resetTokenRecord sha now token (u_id u)) (as_verifs s)
                       then Some (u_email u) else None))"

definition passwordPolicyMessage :: "password_policy \<Rightarrow> string" where
  "passwordPolicyMessage policy =
     (let classText = (if minClasses policy = 1 then ''one of lowercase letters, uppercase letters, or digits''
                       else ''at least '' @ int_str (minClasses policy) @ '' of lowercase letters, uppercase letters, and digits'')
      in ''Password must be '' @ int_str (minLength policy) @ ''-128 characters and contain '' @ classText @ ''.'')"

definition token_not_valid :: exn where
  "token_not_valid = bad_request ''token is not valid, please try again!''"

definition reset_text :: jstext where
  "reset_text = [23494, 30721, 37325, 32622, 23436, 25104, 65292, 24050, 25764, 38144, 35813, 36134, 21495, 30340, 20840, 37096, 30331, 24405, 20250, 35805, 12290]"

definition changed_text :: jstext where
  "changed_text = [23494, 30721, 24050, 20462, 25913, 65307, 20854, 20182, 30331, 24405, 20250, 35805, 20445, 25345, 21407, 26377, 29366, 24577, 12290]"

text \<open>The request's address and device, as the event shows them, and the random part of its key.\<close>

record request_info =
  rf_ip :: string
  rf_device :: "string option"
  rf_uuid :: string
  rf_key :: string

definition account_event :: "notify_env \<Rightarrow> request_info \<Rightarrow> int \<Rightarrow> event_type \<Rightarrow> user_row \<Rightarrow> jstext \<Rightarrow> delivery list \<Rightarrow> exn + delivery list" where
  "account_event env rf now ev u result out =
     (case accountNotification env (rf_uuid rf) now ev (u_id u) (Some (u_name u)) (Some (u_email u))
             \<lparr>ad_key = rf_key rf, ad_ip = Some (rf_ip rf), ad_device = rf_device rf, ad_actor = None, ad_result = Some result\<rparr> out of
        Inl _ \<Rightarrow> Inl (PlainError ''template'') | Inr out' \<Rightarrow> Inr out')"

definition set_password :: "string \<Rightarrow> string \<Rightarrow> db \<Rightarrow> db" where
  "set_password i h d = upsertCredentialAccount i h
     (update_user i (\<lambda>u. u\<lparr>u_hash := Some h, u_requestChangePassword := False, u_failedLoginAttempts := 0,
        u_lastFailedLoginAttempt := None\<rparr>) d)"

definition changePasswordFromJwt ::
  "(string \<Rightarrow> string) \<Rightarrow> (string \<Rightarrow> (string \<times> string) option) \<Rightarrow> (string \<Rightarrow> string) \<Rightarrow> notify_env \<Rightarrow> password_policy \<Rightarrow> bool \<Rightarrow> request_info
     \<Rightarrow> int \<Rightarrow> string \<Rightarrow> string \<Rightarrow> string \<Rightarrow> acct_state \<Rightarrow> exn + acct_state" where
  "changePasswordFromJwt sha jwt hash env policy rate_ok rf now token password newPassword s =
     rbind (ensure (passwordMeetsPolicy password policy \<and> passwordMeetsPolicy newPassword policy) ZodError) (\<lambda>_.
     rbind (ensure rate_ok (TRPCError TOO_MANY_REQUESTS ''Rate limit exceeded, please try again later'')) (\<lambda>_.
     rbind (ensure (token \<noteq> []) (bad_request ''token is required!'')) (\<lambda>_.
     rbind (ensure (password = newPassword) (bad_request ''Passwords does not match!'')) (\<lambda>_.
     rbind (of_option token_not_valid (jwt token)) (\<lambda>(i, email).
     rbind (of_option token_not_valid (find_user i (as_db s))) (\<lambda>u.
     rbind (ensure (normalizeEmail (u_email u) = normalizeEmail email) token_not_valid) (\<lambda>_.
     rbind (ensure (length (filter (resetTokenRecord sha now token i) (as_verifs s)) = 1) token_not_valid) (\<lambda>_.
     rbind (case account_event env rf now UserPasswordResetCompleted u reset_text (as_out s) of
              Inl _ \<Rightarrow> Inl token_not_valid | Inr out \<Rightarrow> Inr out) (\<lambda>out.
     Inr (s\<lparr>as_db := set_password i (hash password) (as_db s),
            as_verifs := filter (\<lambda>v. \<not> resetTokenRecord sha now token i v) (as_verifs s),
            as_sessions := filter (\<lambda>x. snd x \<noteq> i) (as_sessions s),
            as_out := out\<rparr>))))))))))"

record update_input =
  up_email :: "string option"
  up_password :: "string option"
  up_newPassword :: "string option"
  up_repeat :: "string option"
  up_name :: "string option"

definition check_new_password :: "(string \<Rightarrow> string \<Rightarrow> bool) \<Rightarrow> password_policy \<Rightarrow> update_input \<Rightarrow> user_row \<Rightarrow> exn + unit" where
  "check_new_password compare policy inp u =
     (if \<not> (truthy (up_newPassword inp) \<or> truthy (up_repeat inp) \<or> truthy (up_password inp)) then Inr ()
      else let oauth = \<not> truthy (u_hash u)
      in rbind (ensure (truthy (up_newPassword inp) \<and> truthy (up_repeat inp) \<and> (truthy (up_password inp) \<or> oauth))
             (bad_request ''Please fill all required fields!'')) (\<lambda>_.
         rbind (ensure (passwordMeetsPolicy (the (up_newPassword inp)) policy) (bad_request (passwordPolicyMessage policy))) (\<lambda>_.
         rbind (ensure (oauth \<or> compare (the (up_password inp)) (the (u_hash u))) (bad_request ''Old password is incorrect!'')) (\<lambda>_.
         ensure (up_newPassword inp = up_repeat inp) (bad_request ''Passwords do not match!'')))))"

text \<open>The handler reads the row and checks the input; then, in a transaction of its own, it writes the row
  back: the columns that the input does not replace, the hash included, get the values read at the start.
  Only the user row and the credential row are written; sessions stay. The address must stay unique.\<close>

definition auth_update_begin ::
  "(string \<Rightarrow> string \<Rightarrow> bool) \<Rightarrow> password_policy \<Rightarrow> string \<Rightarrow> update_input \<Rightarrow> db \<Rightarrow> exn + user_row" where
  "auth_update_begin compare policy i inp d =
     rbind (of_option (TRPCError NOT_FOUND ''User not found!'') (find_user i d)) (\<lambda>u.
     rbind (check_new_password compare policy inp u) (\<lambda>_. Inr u))"

definition updated_row :: "(string \<Rightarrow> string) \<Rightarrow> update_input \<Rightarrow> user_row \<Rightarrow> user_row \<Rightarrow> user_row" where
  "updated_row hash inp u v =
     v\<lparr>u_email := str_or (up_email inp) (u_email u), u_name := str_or (up_name inp) (u_name u),
       u_hash := (if truthy (up_newPassword inp) then Some (hash (the (up_newPassword inp))) else u_hash u),
       u_requestChangePassword := (if truthy (up_newPassword inp) then False else u_requestChangePassword u)\<rparr>"

definition auth_update_commit ::
  "(string \<Rightarrow> string) \<Rightarrow> notify_env \<Rightarrow> request_info \<Rightarrow> int \<Rightarrow> update_input \<Rightarrow> user_row \<Rightarrow> acct_state \<Rightarrow> exn + acct_state" where
  "auth_update_commit hash env rf now inp u s =
     rbind (ensure (find_user (u_id u) (as_db s) \<noteq> None) record_missing) (\<lambda>_.
     rbind (ensure (\<not> list_ex (\<lambda>v. u_id v \<noteq> u_id u \<and> u_email v = str_or (up_email inp) (u_email u)) (users (as_db s)))
              unique_violation) (\<lambda>_.
     let d1 = update_user (u_id u) (updated_row hash inp u) (as_db s)
     in if \<not> truthy (up_newPassword inp) then Inr (s\<lparr>as_db := d1\<rparr>)
        else rbind (account_event env rf now UserPasswordChanged u changed_text (as_out s)) (\<lambda>out.
             Inr (s\<lparr>as_db := upsertCredentialAccount (u_id u) (hash (the (up_newPassword inp))) d1, as_out := out\<rparr>))))"

definition auth_update ::
  "(string \<Rightarrow> string \<Rightarrow> bool) \<Rightarrow> (string \<Rightarrow> string) \<Rightarrow> notify_env \<Rightarrow> password_policy \<Rightarrow> request_info \<Rightarrow> int \<Rightarrow> string \<Rightarrow> update_input
     \<Rightarrow> acct_state \<Rightarrow> exn + acct_state" where
  "auth_update compare hash env policy rf now i inp s =
     rbind (auth_update_begin compare policy i inp (as_db s)) (\<lambda>u. auth_update_commit hash env rf now inp u s)"

text \<open>Requests run their check and their transaction at different times: a state is the tables, the checked
  requests that wait for their transaction, and the invitations that have admitted somebody, by code and by
  organisation token.\<close>

type_synonym reg_state = "org_state \<times> (register_input \<times> registration) list \<times> int list \<times> int list"

definition admit :: "registration \<Rightarrow> int list \<Rightarrow> int list" where
  "admit reg ad = (case rg_invitation reg of None \<Rightarrow> ad | Some i \<Rightarrow> iv_id i # ad)"

definition admit_org :: "registration \<Rightarrow> int list \<Rightarrow> int list" where
  "admit_org reg ad = (case rg_orgInvite reg of None \<Rightarrow> ad | Some (l, i) \<Rightarrow> iv_id i # ad)"

inductive reg_step :: "reg_state \<Rightarrow> reg_state \<Rightarrow> bool" where
  reg_check: "register_check ok parse_date decode jwt_ok policy now inp s = Inr reg \<Longrightarrow> reg_step (s, ps, ad, od) (s, (inp, reg) # ps, ad, od)"
| reg_commit: "(inp, reg) \<in> set ps \<Longrightarrow> register_commit hash newId now inp reg s = Inr s'
    \<Longrightarrow> reg_step (s, ps, ad, od) (register_log inp reg s', remove1 (inp, reg) ps, admit reg ad, admit_org reg od)"
| reg_refuse: "(inp, reg) \<in> set ps \<Longrightarrow> register_commit hash newId now inp reg s = Inl e
    \<Longrightarrow> reg_step (s, ps, ad, od) (s, remove1 (inp, reg) ps, ad, od)"
| reg_invite: "admin_generateInviteLink sign baseUrl now c secret expire uses grp s = Inr (tok, s') \<Longrightarrow> reg_step (s, ps, ad, od) (s', ps, ad, od)"
| reg_org: "org_step s s' \<Longrightarrow> reg_step (s, ps, ad, od) (s', ps, ad, od)"

definition ikey :: "invitation_row \<Rightarrow> int \<times> bool \<times> nat \<times> nat" where
  "ikey r = (iv_id r, iv_used r, iv_timesUsed r, iv_timesCanUse r)"

definition row_ok :: "int list \<Rightarrow> int list \<Rightarrow> int \<Rightarrow> int \<times> bool \<times> nat \<times> nat \<Rightarrow> bool" where
  "row_ok ad od n k = (case k of (i, used, t, m) \<Rightarrow>
     i < n \<and> i \<notin> set od \<and> count_list ad i = t \<and> t \<le> m \<and> (used \<longleftrightarrow> m \<le> t))"

definition captured_ok :: "int \<Rightarrow> (int \<times> bool \<times> nat \<times> nat) list \<Rightarrow> registration \<Rightarrow> bool" where
  "captured_ok n ks reg = (case rg_invitation reg of None \<Rightarrow> True
     | Some i \<Rightarrow> iv_id i < n \<and> (\<forall>k\<in>set ks. fst k = iv_id i \<longrightarrow> snd (snd (snd k)) = iv_timesCanUse i))"

definition keys :: "org_state \<Rightarrow> (int \<times> bool \<times> nat \<times> nat) list" where
  "keys s = map ikey (os_invitations s)"

definition reg_inv :: "reg_state \<Rightarrow> bool" where
  "reg_inv x = (case x of (s, ps, ad, od) \<Rightarrow>
     distinct (map fst (keys s)) \<and> (\<forall>k\<in>set (keys s). row_ok ad od (os_nextInvite s) k)
     \<and> (\<forall>i\<in>set ad \<union> set od. i < os_nextInvite s) \<and> distinct od
     \<and> (\<forall>p\<in>set ps. captured_ok (os_nextInvite s) (keys s) (snd p)))"

text \<open>What the other procedures do to the invitations: rows disappear or an unused one with a new id appears.\<close>

definition evolves :: "org_state \<Rightarrow> org_state \<Rightarrow> bool" where
  "evolves s s' \<longleftrightarrow> subseq (keys s') (keys s) \<and> os_nextInvite s' = os_nextInvite s
     \<or> (\<exists>m\<ge>1. keys s' = keys s @ [(os_nextInvite s, False, 0, m)]) \<and> os_nextInvite s' = os_nextInvite s + 1"

text \<open>They change no user, and an invitation with a code has the weakest role; none has a numeric group.\<close>

definition weak_code :: "invitation_row \<Rightarrow> bool" where
  "weak_code r \<longleftrightarrow> (iv_secret r = None \<or> iv_role r = READ_ONLY) \<and> iv_userGroupId r = None"

definition weak_reg :: "registration \<Rightarrow> bool" where
  "weak_reg reg = (case rg_invitation reg of None \<Rightarrow> True | Some i \<Rightarrow> iv_role i = READ_ONLY \<and> iv_userGroupId i = None)"

definition tame :: "org_state \<Rightarrow> org_state \<Rightarrow> bool" where
  "tame s s' \<longleftrightarrow> users (os_db s') = users (os_db s) \<and> enableRegistration (os_db s') = enableRegistration (os_db s)
     \<and> accounts (os_db s') = accounts (os_db s)  \<and> accounts (os_db s') = accounts (os_db s) \<and> (list_all weak_code (os_invitations s) \<longrightarrow> list_all weak_code (os_invitations s'))"

definition demo_input :: register_input where
  "demo_input = \<lparr>ri_email = ''n@x.io'', ri_password = ''pw1'', ri_name = ''new'', ri_expiresAt = None, ri_code = Some ''sec'',
     ri_orgToken = None, ri_token = Some ''tk''\<rparr>"

definition demo_invite :: org_state where
  "demo_invite = (case admin_generateInviteLink (\<lambda>_ _. ''tk'') ''http://h'' 0 demo_caller ''sec'' ''2'' None None demo_orgs of Inr (_, s) \<Rightarrow> s | Inl _ \<Rightarrow> demo_orgs)"

abbreviation "demo_policy \<equiv> \<lparr>minLength = 3, minClasses = 1\<rparr>"

definition demo_reg :: registration where
  "demo_reg = (case register_check True (\<lambda>_. None) (\<lambda>_. None) (\<lambda>_. True) demo_policy 0 demo_input demo_invite of Inr r \<Rightarrow> r
     | Inl _ \<Rightarrow> \<lparr>rg_expiresAt = None, rg_invitation = None, rg_orgInvite = None\<rparr>)"

definition demo_registered :: org_state where
  "demo_registered = (case register_commit (\<lambda>p. p) ''u9'' 0 demo_input demo_reg demo_invite of Inr s \<Rightarrow> s | Inl _ \<Rightarrow> demo_orgs)"

definition boot_inv :: "reg_state \<Rightarrow> bool" where
  "boot_inv x = (case x of (s, ps, ad, od) \<Rightarrow>
     list_all weak_code (os_invitations s)
     \<and> (\<forall>p\<in>set ps. weak_reg (snd p))
     \<and> (case users (os_db s) of [] \<Rightarrow> True
        | u # us \<Rightarrow> u_role u = ADMIN \<and> (\<forall>v\<in>set us. u_role v \<noteq> ADMIN) \<and> enableRegistration (os_db s) = Some False
            \<and> length us \<le> length ad + length od))"

definition fresh_install :: org_state where
  "fresh_install = \<lparr>os_db = demo_db\<lparr>users := [], org_roles := []\<rparr>, os_orgs = [], os_members = [], os_invitations = [],
     os_orgInvites = [], os_log = [], os_nextInvite = 1\<rparr>"

definition first_input :: register_input where
  "first_input = demo_input\<lparr>ri_code := None, ri_token := None\<rparr>"

abbreviation "plain_registration \<equiv> \<lparr>rg_expiresAt = None, rg_invitation = None, rg_orgInvite = None\<rparr>"

definition first_registered :: org_state where
  "first_registered = (case register_commit (\<lambda>p. p) ''u1'' 0 first_input plain_registration fresh_install of Inr s \<Rightarrow> s | Inl _ \<Rightarrow> fresh_install)"

section \<open>Interleaved registrations\<close>

lemma evolves_same: "os_invitations s' = os_invitations s \<Longrightarrow> os_nextInvite s' = os_nextInvite s \<Longrightarrow> evolves s s'"
  by (simp add: evolves_def keys_def)

lemma add_log_invites [simp]: "os_invitations (add_log a b c s) = os_invitations s" "os_nextInvite (add_log a b c s) = os_nextInvite s"
  "keys (add_log a b c s) = keys s"
  by (simp_all add: add_log_def keys_def)

lemma join_org_invites: "join_org u i r s = Inr s' \<Longrightarrow> os_invitations s' = os_invitations s \<and> os_nextInvite s' = os_nextInvite s"
  by (auto simp: join_org_def rbind_Inr_iff)

lemma add_network_invites: "add_network n s = Inr s' \<Longrightarrow> os_invitations s' = os_invitations s \<and> os_nextInvite s' = os_nextInvite s"
  by (auto simp: add_network_def rbind_Inr_iff)

lemma delete_evolves: "subseq (keys (delete_invitations P s)) (keys s)" "os_nextInvite (delete_invitations P s) = os_nextInvite s"
  by (simp_all add: delete_invitations_def keys_def Let_def subseq_map)

lemma create_evolves:
  assumes "create_invitation l u i (invite_row tok e r inviter ex sent) s = Inr s'"
  shows "evolves s s'"
  using assms by (auto simp: create_invitation_def invite_row_def rbind_Inr_iff Let_def evolves_def keys_def ikey_def split: option.split_asm)

lemma evolves_log: "evolves (add_log a b c s) s' = evolves s s'"
  by (simp add: evolves_def)

lemma with_role_evolves: "with_role c i r f s = (x, s') \<Longrightarrow> (\<And>x s'. f s = (x, s') \<Longrightarrow> evolves s s') \<Longrightarrow> evolves s s'"
  by (auto simp: with_role_def evolves_same split: sum.split_asm)

lemma commit_evolves: "commit s m f = (x, s') \<Longrightarrow> (\<And>s1 x s'. m = Inr s1 \<Longrightarrow> f s1 = (x, s') \<Longrightarrow> evolves s s') \<Longrightarrow> evolves s s'"
  by (auto simp: commit_def evolves_same split: sum.split_asm)


lemma mail_sent_evolves:
  "evolves s (s\<lparr>os_invitations := map (\<lambda>i. if iv_id i = k then i\<lparr>iv_mailSentAt := m\<rparr> else i) (os_invitations s)\<rparr>)"
proof -
  have "map ikey (map (\<lambda>i. if iv_id i = k then i\<lparr>iv_mailSentAt := m\<rparr> else i) is) = map ikey is" for "is"
    by (simp add: ikey_def)
  then show ?thesis by (simp add: evolves_def keys_def del: map_map)
qed

lemmas evolve_frames = evolves_same set_org_role_def evolves_log

lemma org_step_evolves: "org_step s s' \<Longrightarrow> evolves s s'"
proof (induction rule: org_step.induct)
  case (1 newId c n t s x1 s')
  then show ?case
    by (auto simp: createOrg_def rbind_Inr_iff evolves_same elim!: commit_evolves dest!: join_org_invites)
next
  case (2 c i n t s x2 s')
  then show ?case
    by (auto simp: updateMeta_def Let_def evolves_same split: if_split_asm elim!: with_role_evolves)
next
  case (3 c i u r s x3 s')
  then show ?case
    by (auto simp: changeUserRole_def Let_def evolve_frames split: if_split_asm sum.split_asm option.split_asm)
next
  case (4 c i u n r s x4 s')
  then show ?case
    by (auto simp: addUser_def Let_def evolves_same split: if_split_asm elim!: with_role_evolves
        dest!: join_org_invites simp: commit_def split: sum.split_asm)
next
  case (5 c i u s x5 s')
  then show ?case
    by (auto simp: leave_def Let_def evolves_same split: if_split_asm option.split_asm elim!: with_role_evolves)
next
  case (6 decode ok now tok s x6 s')
  have "evolves s (add_log a b c (delete_invitations P s1))" if "join_org u i r s = Inr s1" for a b c P u i r s1
    using join_org_invites[OF that] delete_evolves[of P s1] by (simp add: evolves_def keys_def)
  with 6 show ?case
    by (auto simp: preValidateUserInvite_def Let_def evolves_same split: if_split_asm option.split_asm elim!: commit_evolves)
next
  case (7 encode l now c i r e s x7 s')
  then show ?case
    by (auto simp: generateInviteLink_def Let_def elim!: with_role_evolves commit_evolves dest: create_evolves)
next
  case (8 encode ok b l now c i r e s x8 s')
  then show ?case
    by (auto simp: inviteUserByMail_def Let_def evolves_same evolves_log commit_def split: if_split_asm option.split_asm sum.split_asm
        elim!: with_role_evolves dest!: create_evolves)
next
  case (9 ok now c i l s x9 s')
  then show ?case
    by (auto simp: resendInvite_def evolves_same mail_sent_evolves split: if_split_asm option.split_asm elim!: with_role_evolves)
next
  case (10 c i l s x10 s')
  then show ?case
    by (auto simp: deleteInvite_def evolves_same elim!: with_role_evolves)
next
  case (11 c i nw s x11 s')
  then show ?case
    by (auto simp: transferNetworkOwnership_def evolves_same split: if_split_asm elim!: with_role_evolves)
next
  case (12 rn nc c i nn s x12 s')
  then show ?case
    by (auto simp: createOrgNetwork_def Let_def evolves_same commit_def dest!: add_network_invites
        split: if_split_asm option.split_asm sum.split_asm prod.split_asm)
qed


lemma consumed_invitation:
  assumes "consume_invitation now (Some i) s = Inr s'" "distinct (map iv_id (os_invitations s))"
  obtains r where "r \<in> set (os_invitations s)" "iv_id r = iv_id i" "\<not> iv_used r" "iv_timesUsed r = iv_timesUsed i"
    and "keys s' = map (\<lambda>k. if fst k = iv_id i then (iv_id i, iv_timesCanUse i \<le> Suc (iv_timesUsed i), Suc (iv_timesUsed i), iv_timesCanUse r) else k) (keys s)"
    and "os_nextInvite s' = os_nextInvite s"
proof -
  have one: "length (filter (same_use now i) (os_invitations s)) = 1"
    and s': "s' = s\<lparr>os_invitations := map (\<lambda>r. if same_use now i r
       then r\<lparr>iv_used := (iv_timesUsed i + 1 \<ge> iv_timesCanUse i), iv_timesUsed := iv_timesUsed r + 1\<rparr> else r) (os_invitations s)\<rparr>"
    using assms(1) by (auto simp: consume_invitation_def rbind_Inr_iff)
  then obtain r where "filter (same_use now i) (os_invitations s) = [r]"
    by (auto simp: length_Suc_conv)
  then have r: "r \<in> set (os_invitations s)" "same_use now i r"
    using filter_set[of "same_use now i" "os_invitations s"] by auto
  have only: "same_use now i x \<longleftrightarrow> iv_id x = iv_id i" "iv_id x = iv_id i \<Longrightarrow> x = r" if "x \<in> set (os_invitations s)" for x
    using that r assms(2) by (auto simp: same_use_def distinct_map inj_on_def)
  have "keys s' = map (\<lambda>k. if fst k = iv_id i then (iv_id i, iv_timesCanUse i \<le> Suc (iv_timesUsed i), Suc (iv_timesUsed i), iv_timesCanUse r) else k) (keys s)"
    using only r(2) by (auto simp: s' keys_def ikey_def same_use_def)
  with r s' show thesis by (intro that[of r]) (auto simp: same_use_def)
qed

lemma map_fst_keys: "map fst (keys s) = map iv_id (os_invitations s)"
  by (simp add: keys_def ikey_def comp_def)

lemma subseq_sub:
  assumes "subseq xs ys"
  shows "set xs \<subseteq> set ys" "distinct ys \<Longrightarrow> distinct xs"
  using assms by (auto simp: subseq_conv_nths dest: in_set_nthsD intro: distinct_nthsI)

lemma captured_ok_mono: "set ks' \<subseteq> set ks \<Longrightarrow> captured_ok n ks reg \<Longrightarrow> captured_ok n ks' reg"
  by (cases "rg_invitation reg") (auto simp: captured_ok_def)

lemma row_ok_other: "fst k \<noteq> i \<Longrightarrow> row_ok (i # ad) od n k = row_ok ad od n k"
  "fst k \<noteq> i \<Longrightarrow> row_ok ad (i # od) n k = row_ok ad od n k"
  by (cases k, simp add: row_ok_def)+

lemma evolves_keeps:
  assumes "evolves s s'" "reg_inv (s, ps, ad, od)"
  shows "reg_inv (s', ps, ad, od)"
  using assms(1) unfolding evolves_def
proof (elim disjE conjE exE)
  assume sub: "subseq (keys s') (keys s)" "os_nextInvite s' = os_nextInvite s"
  then have "set (keys s') \<subseteq> set (keys s)" "distinct (map fst (keys s)) \<Longrightarrow> distinct (map fst (keys s'))"
    using subseq_sub[OF sub(1)] subseq_sub[OF subseq_map[OF sub(1), of fst]] by auto
  then show ?thesis using assms(2) sub(2) by (auto simp: reg_inv_def intro: captured_ok_mono)
next
  fix m assume m: "(1::nat) \<le> m" "keys s' = keys s @ [(os_nextInvite s, False, 0, m)]" "os_nextInvite s' = os_nextInvite s + 1"
  note inv = assms(2)[unfolded reg_inv_def prod.case]
  then have new: "os_nextInvite s \<notin> set ad \<union> set od" by blast
  have old: "fst k < os_nextInvite s \<and> row_ok ad od (os_nextInvite s + 1) k" if "k \<in> set (keys s)" for k
    using inv that by (cases k) (force simp: row_ok_def)
  have "row_ok ad od (os_nextInvite s') (os_nextInvite s, False, 0, m)"
    using new m by (simp add: row_ok_def count_list_0_iff)
  moreover have "distinct (map fst (keys s'))" using inv old m(2) by force
  moreover have "captured_ok (os_nextInvite s') (keys s') q" if "captured_ok (os_nextInvite s) (keys s) q" for q
    using that m(2,3) by (cases "rg_invitation q") (auto simp: captured_ok_def)
  moreover have "\<forall>i\<in>set ad \<union> set od. i < os_nextInvite s'"
    using inv m(3) by (metis less_add_one order_less_trans)
  ultimately show ?thesis using inv old m(2,3) by (simp add: reg_inv_def)
qed


lemma invitation_keeps:
  assumes "reg_inv (s, ps, ad, od)" "(inp, reg) \<in> set ps" "consume_invitation now (rg_invitation reg) s = Inr s'"
  shows "reg_inv (s', ps, admit reg ad, od)"
proof (cases "rg_invitation reg")
  case None
  with assms show ?thesis by (simp add: consume_invitation_def admit_def)
next
  case (Some i)
  have d: "distinct (map iv_id (os_invitations s))" using assms(1) by (simp add: reg_inv_def map_fst_keys)
  obtain r where r: "r \<in> set (os_invitations s)" "iv_id r = iv_id i" "\<not> iv_used r" "iv_timesUsed r = iv_timesUsed i"
    and k: "keys s' = map (\<lambda>k. if fst k = iv_id i then (iv_id i, iv_timesCanUse i \<le> Suc (iv_timesUsed i), Suc (iv_timesUsed i), iv_timesCanUse r) else k) (keys s)"
    and n: "os_nextInvite s' = os_nextInvite s"
    using consumed_invitation[OF assms(3)[unfolded Some] d] by blast
  have "ikey r \<in> set (keys s)" using r(1) by (simp add: keys_def)
  then have "row_ok ad od (os_nextInvite s) (ikey r)" "captured_ok (os_nextInvite s) (keys s) reg"
    using assms(1,2) by (auto simp: reg_inv_def)
  with r Some \<open>ikey r \<in> set (keys s)\<close> have f: "count_list ad (iv_id i) = iv_timesUsed i" "Suc (iv_timesUsed i) \<le> iv_timesCanUse r"
    "iv_timesCanUse i = iv_timesCanUse r" "iv_id i < os_nextInvite s" "iv_id i \<notin> set od"
    by (auto simp: row_ok_def ikey_def captured_ok_def)
  have fst_eq: "map fst (keys s') = map fst (keys s)" by (simp add: k)
  have rows: "\<forall>x\<in>set (keys s'). row_ok (iv_id i # ad) od (os_nextInvite s) x"
  proof
    fix x assume "x \<in> set (keys s')"
    then consider "x = (iv_id i, iv_timesCanUse i \<le> Suc (iv_timesUsed i), Suc (iv_timesUsed i), iv_timesCanUse r)"
      | "x \<in> set (keys s)" "fst x \<noteq> iv_id i" by (auto simp: k)
    then show "row_ok (iv_id i # ad) od (os_nextInvite s) x"
    proof cases
      case 1 then show ?thesis using f by (simp add: row_ok_def)
    next
      case 2 then show ?thesis using assms(1) by (simp add: row_ok_other reg_inv_def)
    qed
  qed
  have "captured_ok (os_nextInvite s) (keys s') q" if q: "captured_ok (os_nextInvite s) (keys s) q" for q
  proof (cases "rg_invitation q")
    case (Some j)
    have "iv_timesCanUse r = iv_timesCanUse j" if "iv_id j = iv_id i"
      using q \<open>ikey r \<in> set (keys s)\<close> that r(2) by (auto simp: captured_ok_def Some ikey_def)
    then show ?thesis using q by (auto simp: captured_ok_def Some k)
  qed (simp add: captured_ok_def)
  then show ?thesis using assms(1) fst_eq rows f(4) by (auto simp: reg_inv_def n admit_def Some)
qed

lemma delete_keys:
  "keys (delete_invitations P s) = map ikey (filter (\<lambda>r. \<not> P r) (os_invitations s))"
  by (simp add: delete_invitations_def keys_def Let_def)

lemma org_token_keeps:
  assumes "reg_inv (s, ps, ad, od)" "consume_org_token tok (rg_orgInvite reg) s = Inr s'"
  shows "reg_inv (s', ps, ad, admit_org reg od)"
proof (cases "rg_orgInvite reg")
  case None
  with assms show ?thesis by (simp add: consume_org_token_def admit_org_def)
next
  case (Some li)
  then obtain l i where li: "rg_orgInvite reg = Some (l, i)" by (cases li) auto
  then obtain raw where one: "length (filter (\<lambda>r. iv_id r = iv_id i \<and> iv_token r = js_trim raw) (os_invitations s)) = 1"
    and s': "s' = delete_invitations (\<lambda>r. iv_id r = iv_id i \<and> iv_token r = js_trim raw) s"
    using assms(2) by (auto simp: consume_org_token_def rbind_Inr_iff Let_def split: option.split_asm)
  from one obtain r where r: "r \<in> set (os_invitations s)" "iv_id r = iv_id i" "iv_token r = js_trim raw"
    by (metis (mono_tags, lifting) filter_False length_0_conv zero_neq_one)
  have d: "distinct (map iv_id (os_invitations s))" using assms(1) by (simp add: reg_inv_def map_fst_keys)
  then have gone: "iv_id x \<noteq> iv_id i" if "x \<in> set (os_invitations s)" "iv_id x \<noteq> iv_id i \<or> iv_token x \<noteq> js_trim raw" for x
    using that r by (metis distinct_map inj_onD)
  have "ikey r \<in> set (keys s)" using r by (simp add: keys_def)
  then have "iv_id i \<notin> set od" "iv_id i < os_nextInvite s"
    using assms(1) r(2) by (auto simp: reg_inv_def row_ok_def ikey_def)
  moreover have "reg_inv (s', ps, ad, od)"
    using evolves_keeps[OF _ assms(1)] delete_evolves unfolding s' evolves_def by blast
  moreover have "\<forall>k\<in>set (keys s'). fst k \<noteq> iv_id i" using gone by (auto simp: s' delete_keys ikey_def)
  ultimately show ?thesis using delete_evolves(2)[of _ s] unfolding s'
    by (auto simp: reg_inv_def row_ok_other admit_org_def li)
qed

lemma insert_user_invites: "insert_user u s = Inr s' \<Longrightarrow> os_invitations s' = os_invitations s \<and> os_nextInvite s' = os_nextInvite s"
  by (auto simp: insert_user_def rbind_Inr_iff)

lemma register_commit_parts:
  assumes "register_commit hash newId now inp reg s = Inr s'"
  obtains s1 s2 where "consume_invitation now (rg_invitation reg) s = Inr s1"
    and "consume_org_token (ri_orgToken inp) (rg_orgInvite reg) s1 = Inr s2"
    and "os_invitations s' = os_invitations s2" "os_nextInvite s' = os_nextInvite s2"
  using assms
  by (auto simp: register_commit_def register_write_def rbind_Inr_iff Let_def in_db_def dest!: insert_user_invites join_org_invites
      split: option.split_asm if_split_asm prod.split_asm)


lemma register_log_invites [simp]: "keys (register_log inp reg s) = keys s" "os_nextInvite (register_log inp reg s) = os_nextInvite s"
  by (simp_all add: register_log_def split: option.split prod.split)

lemma reg_inv_cong: "keys s' = keys s \<Longrightarrow> os_nextInvite s' = os_nextInvite s \<Longrightarrow> reg_inv (s', ps, ad, od) = reg_inv (s, ps, ad, od)"
  by (simp add: reg_inv_def)

lemma fewer_pending: "reg_inv (s, ps, ad, od) \<Longrightarrow> reg_inv (s, remove1 x ps, ad, od)"
  using set_remove1_subset[of x ps] by (auto simp: reg_inv_def)

lemma check_code_captured:
  assumes "register_check ok pd dec jo pol now inp s = Inr reg" "rg_invitation reg = Some i"
  shows "i \<in> set (os_invitations s)"
  using assms by (auto simp: register_check_def rbind_Inr_iff check_code_def split: option.split_asm if_split_asm dest: find_Some_mem)

lemma captured_now:
  assumes "reg_inv (s, ps, ad, od)" "i \<in> set (os_invitations s)" "rg_invitation reg = Some i"
  shows "captured_ok (os_nextInvite s) (keys s) reg"
proof -
  have "ikey i \<in> set (keys s)" using assms(2) by (simp add: keys_def)
  moreover have "k = ikey i" if "k \<in> set (keys s)" "fst k = iv_id i" for k
  proof -
    have "inj_on fst (set (keys s))" using assms(1) by (simp add: reg_inv_def distinct_map)
    then show ?thesis using that calculation by (intro inj_onD[of fst]) (simp_all add: ikey_def)
  qed
  moreover have "row_ok ad od (os_nextInvite s) (ikey i)" using assms(1) calculation(1) by (simp add: reg_inv_def)
  then have "iv_id i < os_nextInvite s" by (simp add: row_ok_def ikey_def)
  ultimately show ?thesis using assms(3) by (auto simp: captured_ok_def ikey_def)
qed

lemma parse_times_pos: "parse_times v = Inr n \<Longrightarrow> 1 \<le> n"
  by (auto simp: parse_times_def Let_def rbind_Inr_iff)

interpretation registrations: step_invariant reg_step reg_inv
proof
  fix x y assume "reg_inv x" "reg_step x y"
  from this(2,1) show "reg_inv y"
  proof (induction rule: reg_step.induct)
    case (reg_check ok pd dec jo pol now inp s reg ps ad od)
    have "captured_ok (os_nextInvite s) (keys s) reg"
    proof (cases "rg_invitation reg")
      case (Some i)
      then show ?thesis using captured_now reg_check check_code_captured by blast
    qed (simp add: captured_ok_def)
    with reg_check show ?case by (simp add: reg_inv_def)
  next
    case (reg_commit inp reg ps hash newId now s s' ad od)
    obtain s1 s2 where p: "consume_invitation now (rg_invitation reg) s = Inr s1" "consume_org_token (ri_orgToken inp) (rg_orgInvite reg) s1 = Inr s2"
      "os_invitations s' = os_invitations s2" "os_nextInvite s' = os_nextInvite s2"
      using register_commit_parts[OF reg_commit(2)] by blast
    have "reg_inv (s2, ps, admit reg ad, admit_org reg od)"
      using org_token_keeps[OF invitation_keeps[OF reg_commit(3,1) p(1)] p(2)] .
    moreover have "keys (register_log inp reg s') = keys s2" "os_nextInvite (register_log inp reg s') = os_nextInvite s2"
      using p(3,4) unfolding register_log_invites by (simp_all only: keys_def)
    ultimately have "reg_inv (register_log inp reg s', ps, admit reg ad, admit_org reg od)"
      using reg_inv_cong by blast
    then show ?case by (rule fewer_pending)
  next
    case (reg_refuse inp reg ps hash newId now s e ad od)
    then show ?case by (simp add: fewer_pending)
  next
    case (reg_invite sign b now c secret expire uses grp s tok s' ps ad od)
    then have "evolves s s'"
      by (auto simp: admin_generateInviteLink_def Let_def rbind_Inr_iff evolves_def keys_def ikey_def dest!: parse_times_pos)
    then show ?case using reg_invite by (blast intro: evolves_keeps)
  next
    case (reg_org s s' ps ad od)
    then show ?case by (blast intro: evolves_keeps org_step_evolves)
  qed
qed

text \<open>C6. However requests interleave, an invitation never admits more registrations than it allows: with the checks and
  the transactions of any number of registrations, new invitation links and all organisation procedures in any
  order, the use counter of an invitation is exactly the number of accounts it has created and never exceeds
  its limit, and an organisation token admits at most once.\<close>

theorem invitation_use_bounded:
  assumes "reg_step\<^sup>*\<^sup>* (s, [], [], []) (t, ps, ad, od)" "os_invitations s = []"
  shows "distinct od \<and> (\<forall>r\<in>set (os_invitations t). count_list ad (iv_id r) = iv_timesUsed r \<and> iv_timesUsed r \<le> iv_timesCanUse r
    \<and> iv_id r \<notin> set od)"
proof -
  have "reg_inv (s, [], [], [])" using assms(2) by (simp add: reg_inv_def keys_def)
  from registrations.run_keeps[OF assms(1) this] show ?thesis
    by (auto simp: reg_inv_def row_ok_def keys_def ikey_def)
qed


lemma demo_registration:
  "admin_generateInviteLink (\<lambda>_ _. ''tk'') ''http://h'' 0 demo_caller ''sec'' ''2'' None None demo_orgs = Inr (''tk'', demo_invite)"
  "register_check True (\<lambda>_. None) (\<lambda>_. None) (\<lambda>_. True) demo_policy 0 demo_input demo_invite = Inr demo_reg"
  "register_commit (\<lambda>p. p) ''u9'' 0 demo_input demo_reg demo_invite = Inr demo_registered"
  by code_simp+

theorem invitation_use_bounded_witness:
  "map iv_timesUsed (os_invitations demo_registered) = [1]
    \<and> count_list [1] (iv_id (hd (os_invitations demo_registered))) = 1"
proof -
  have "reg_step (demo_orgs, [], [], []) (demo_invite, [], [], [])" by (rule reg_invite) (rule demo_registration)
  moreover have "reg_step (demo_invite, [], [], []) (demo_invite, [(demo_input, demo_reg)], [], [])" by (rule reg_check) (rule demo_registration)
  moreover have "reg_step (demo_invite, [(demo_input, demo_reg)], [], [])
      (register_log demo_input demo_reg demo_registered, remove1 (demo_input, demo_reg) [(demo_input, demo_reg)], admit demo_reg [], admit_org demo_reg [])"
    by (rule reg_commit) (simp, rule demo_registration)
  moreover have "register_log demo_input demo_reg demo_registered = demo_registered" "admit demo_reg [] = [1]" "admit_org demo_reg [] = []"
    by code_simp+
  ultimately have run: "reg_step\<^sup>*\<^sup>* (demo_orgs, [], [], []) (demo_registered, [], [1], [])"
    by (simp add: converse_rtranclp_into_rtranclp r_into_rtranclp)
  have "os_invitations demo_orgs = []" "map iv_timesUsed (os_invitations demo_registered) = [1]" by code_simp+
  moreover from this obtain r where "os_invitations demo_registered = [r]" by (auto simp: map_eq_Cons_conv)
  ultimately show ?thesis using invitation_use_bounded[OF run] by simp
qed


section \<open>The first account\<close>

lemma tame_same: "users (os_db s') = users (os_db s) \<Longrightarrow> enableRegistration (os_db s') = enableRegistration (os_db s)
    \<Longrightarrow> accounts (os_db s') = accounts (os_db s) \<Longrightarrow> os_invitations s' = os_invitations s \<Longrightarrow> tame s s'"
  by (simp add: tame_def)

lemma tame_log: "tame (add_log a b c s) s' = tame s s'" "tame s (add_log a b c s') = tame s s'"
  by (simp_all add: tame_def)

lemma with_role_tame: "with_role c i r f s = (x, s') \<Longrightarrow> (\<And>x s'. f s = (x, s') \<Longrightarrow> tame s s') \<Longrightarrow> tame s s'"
  by (auto simp: with_role_def tame_same split: sum.split_asm)

lemma commit_tame: "commit s m f = (x, s') \<Longrightarrow> (\<And>s1 x s'. m = Inr s1 \<Longrightarrow> f s1 = (x, s') \<Longrightarrow> tame s s') \<Longrightarrow> tame s s'"
  by (auto simp: commit_def tame_same split: sum.split_asm)

lemma join_org_users: "join_org u i r s = Inr s' \<Longrightarrow> users (os_db s') = users (os_db s) \<and> enableRegistration (os_db s') = enableRegistration (os_db s)
     \<and> accounts (os_db s') = accounts (os_db s) \<and> os_invitations s' = os_invitations s"
  by (auto simp: join_org_def rbind_Inr_iff)

lemma add_network_users: "add_network n s = Inr s' \<Longrightarrow> users (os_db s') = users (os_db s) \<and> enableRegistration (os_db s') = enableRegistration (os_db s)
     \<and> accounts (os_db s') = accounts (os_db s) \<and> os_invitations s' = os_invitations s"
  by (auto simp: add_network_def rbind_Inr_iff)

lemma delete_tame: "tame s (delete_invitations P s)"
  by (simp add: tame_def delete_invitations_def Let_def list_all_iff)

lemma create_tame:
  assumes "create_invitation l u i (invite_row tok e r inviter ex sent) s = Inr s'"
  shows "tame s s'"
  using assms by (auto simp: create_invitation_def invite_row_def rbind_Inr_iff Let_def tame_def weak_code_def split: option.split_asm)

lemma mail_sent_tame:
  "tame s (s\<lparr>os_invitations := map (\<lambda>i. if iv_id i = k then i\<lparr>iv_mailSentAt := m\<rparr> else i) (os_invitations s)\<rparr>)"
  by (auto simp: tame_def weak_code_def list_all_iff)

lemma tame_trans: "tame s s1 \<Longrightarrow> tame s1 s2 \<Longrightarrow> tame s s2"
  by (simp add: tame_def)

lemma org_step_tame: "org_step s s' \<Longrightarrow> tame s s'"
proof (induction rule: org_step.induct)
  case (1 newId c n t s x1 s')
  then show ?case by (auto simp: createOrg_def rbind_Inr_iff tame_same elim!: commit_tame dest!: join_org_users)
next
  case (2 c i n t s x2 s')
  then show ?case by (auto simp: updateMeta_def Let_def tame_same split: if_split_asm elim!: with_role_tame)
next
  case (3 c i u r s x3 s')
  then show ?case by (auto simp: changeUserRole_def Let_def tame_same set_org_role_def split: if_split_asm sum.split_asm option.split_asm)
next
  case (4 c i u n r s x4 s')
  then show ?case
    by (auto simp: addUser_def Let_def tame_same commit_def split: if_split_asm sum.split_asm elim!: with_role_tame dest!: join_org_users)
next
  case (5 c i u s x5 s')
  then show ?case by (auto simp: leave_def Let_def tame_same split: if_split_asm option.split_asm elim!: with_role_tame)
next
  case (6 decode ok now tok s x6 s')
  have "tame s (delete_invitations P s1)" if "join_org u i r s = Inr s1" for P u i r s1
    using join_org_users[OF that] delete_tame[of s1 P] by (simp add: tame_def)
  with 6 show ?case
    by (auto simp: preValidateUserInvite_def Let_def tame_same tame_log split: if_split_asm option.split_asm elim!: commit_tame)
next
  case (7 encode l now c i r e s x7 s')
  then show ?case by (auto simp: generateInviteLink_def Let_def elim!: with_role_tame commit_tame dest: create_tame)
next
  case (8 encode ok b l now c i r e s x8 s')
  then show ?case
    by (auto simp: inviteUserByMail_def Let_def tame_same tame_log commit_def split: if_split_asm option.split_asm sum.split_asm
        elim!: with_role_tame dest!: create_tame)
next
  case (9 ok now c i l s x9 s')
  then show ?case
    by (auto simp: resendInvite_def tame_same mail_sent_tame split: if_split_asm option.split_asm elim!: with_role_tame)
next
  case (10 c i l s x10 s')
  then show ?case by (auto simp: deleteInvite_def tame_same elim!: with_role_tame)
next
  case (11 c i nw s x11 s')
  then show ?case by (auto simp: transferNetworkOwnership_def tame_same split: if_split_asm elim!: with_role_tame)
next
  case (12 rn nc c i nn s x12 s')
  then show ?case
    by (auto simp: createOrgNetwork_def Let_def tame_same commit_def dest!: add_network_users
        split: if_split_asm option.split_asm sum.split_asm prod.split_asm)
qed

lemma upsert_users [simp]: "users (upsertCredentialAccount i h d) = users d" "enableRegistration (upsertCredentialAccount i h d) = enableRegistration d"
  by (simp_all add: upsertCredentialAccount_def Let_def)

lemma consume_tame: "consume_invitation now x s = Inr s' \<Longrightarrow> tame s s'" "consume_org_token tok y s = Inr s' \<Longrightarrow> tame s s'"
  by (auto simp: consume_invitation_def consume_org_token_def rbind_Inr_iff Let_def delete_tame split: option.split_asm)
    (auto simp: tame_def weak_code_def list_all_iff)

lemma register_write_user:
  assumes "register_write hash newId now inp reg s = Inr s'"
  obtains u where "users (os_db s') = users (os_db s) @ [u]" "u_id u = newId" "u_hash u = Some (hash (ri_password inp))"
    and "u_role u = (if users (os_db s) = [] then ADMIN else case rg_invitation reg of None \<Rightarrow> USER | Some i \<Rightarrow> iv_role i)"
    and "find_user newId (os_db s) = None" "os_invitations s' = os_invitations s"
    and "enableRegistration (os_db s') = (if users (os_db s) = [] then Some False else enableRegistration (os_db s))"
    and "accounts (os_db s') = accounts (upsertCredentialAccount newId (hash (ri_password inp)) (os_db s))"
proof -
  let ?u = "new_user newId (ri_name inp) (ri_email inp) (if users (os_db s) = [] then ADMIN else case rg_invitation reg of None \<Rightarrow> USER | Some i \<Rightarrow> iv_role i)
    (hash (ri_password inp)) False (group_for (rg_invitation reg) (os_db s)) (rg_expiresAt reg) now"
  obtain s1 s2 where s1: "insert_user ?u s = Inr s1"
    and s2: "(case rg_orgInvite reg of None \<Rightarrow> Inr s1 | Some (l, i) \<Rightarrow> join_org newId (oi_organizationId l) (iv_role i) s1) = Inr s2"
    and s': "s' = in_db (\<lambda>d. let d' = upsertCredentialAccount newId (hash (ri_password inp)) d in
      if users (os_db s) = [] then d'\<lparr>enableRegistration := Some False\<rparr> else d') s2"
    using assms by (auto simp: register_write_def Let_def rbind_Inr_iff in_db_def split: if_split_asm)
  have f1: "users (os_db s1) = users (os_db s) @ [?u]" "find_user newId (os_db s) = None" "os_invitations s1 = os_invitations s"
    "accounts (os_db s1) = accounts (os_db s)" "enableRegistration (os_db s1) = enableRegistration (os_db s)"
    using s1 by (auto simp: insert_user_def rbind_Inr_iff new_user_def)
  have f2: "users (os_db s2) = users (os_db s1)" "os_invitations s2 = os_invitations s1" "accounts (os_db s2) = accounts (os_db s1)"
    "enableRegistration (os_db s2) = enableRegistration (os_db s1)"
    using s2 by (auto split: option.split_asm prod.split_asm dest: join_org_users)
  show thesis
    by (rule that[of ?u]) (simp_all add: s' in_db_def Let_def f1 f2, simp_all add: new_user_def upsertCredentialAccount_def Let_def f1 f2)
qed

lemma register_commit_user:
  assumes "register_commit hash newId now inp reg s = Inr s'"
  obtains s2 where "tame s s2" "enableRegistration (os_db s2) = enableRegistration (os_db s)" "accounts (os_db s2) = accounts (os_db s)"
    and "register_write hash newId now inp reg s2 = Inr s'"
    and "enableRegistration (os_db s) = Some True \<or> rg_invitation reg \<noteq> None \<or> rg_orgInvite reg \<noteq> None"
proof -
  obtain s1 s2 where c: "consume_invitation now (rg_invitation reg) s = Inr s1" "consume_org_token (ri_orgToken inp) (rg_orgInvite reg) s1 = Inr s2"
    and r: "enableRegistration (os_db s) = Some True \<or> rg_invitation reg \<noteq> None \<or> rg_orgInvite reg \<noteq> None"
    and w: "register_write hash newId now inp reg s2 = Inr s'"
    using assms unfolding register_commit_def by (auto simp: rbind_Inr_iff)
  have "os_db s1 = os_db s" "os_db s2 = os_db s1"
    using c by (auto simp: consume_invitation_def consume_org_token_def rbind_Inr_iff Let_def delete_invitations_def split: option.split_asm)
  with tame_trans[OF consume_tame(1)[OF c(1)] consume_tame(2)[OF c(2)]] w r show thesis by (intro that) simp_all
qed


lemma tame_boot: "tame s s' \<Longrightarrow> boot_inv (s, ps, ad, od) \<Longrightarrow> boot_inv (s', ps, ad, od)"
  by (cases "users (os_db s)") (auto simp: tame_def boot_inv_def)

lemma boot_fewer: "boot_inv (s, ps, ad, od) \<Longrightarrow> boot_inv (s, remove1 x ps, ad, od)"
  using set_remove1_subset[of x ps] by (auto simp: boot_inv_def)

lemma register_log_tame: "tame s (register_log inp reg s)"
  by (simp add: register_log_def tame_def split: option.split prod.split)

lemma check_code_weak:
  assumes "register_check ok pd dec jo pol now inp s = Inr reg" "rg_invitation reg = Some i" "list_all weak_code (os_invitations s)"
  shows "iv_role i = READ_ONLY \<and> iv_userGroupId i = None"
proof -
  from assms(1,2) obtain c where "iv_secret i = Some c"
    by (auto simp: register_check_def rbind_Inr_iff check_code_def split: option.split_asm if_split_asm dest: find_Some_mem)
  with check_code_captured[OF assms(1,2)] assms(3) show ?thesis by (auto simp: list_all_iff weak_code_def)
qed

lemma boot_write:
  assumes "boot_inv (s, ps, ad, od)" "(inp, reg) \<in> set ps" "register_write hash newId now inp reg s = Inr s'"
    and "enableRegistration (os_db s) = Some True \<or> rg_invitation reg \<noteq> None \<or> rg_orgInvite reg \<noteq> None"
  shows "boot_inv (s', ps, admit reg ad, admit_org reg od)"
proof -
  obtain u where u: "users (os_db s') = users (os_db s) @ [u]" "os_invitations s' = os_invitations s"
    "u_role u = (if users (os_db s) = [] then ADMIN else case rg_invitation reg of None \<Rightarrow> USER | Some i \<Rightarrow> iv_role i)"
    "enableRegistration (os_db s') = (if users (os_db s) = [] then Some False else enableRegistration (os_db s))"
    using register_write_user[OF assms(3)] by metis
  have weak: "weak_reg reg" using assms(1,2) by (force simp: boot_inv_def)
  show ?thesis
  proof (cases "users (os_db s)")
    case Nil
    then show ?thesis using assms(1) u by (simp add: boot_inv_def)
  next
    case (Cons w us)
    then have "enableRegistration (os_db s) = Some False" using assms(1) by (simp add: boot_inv_def)
    with assms(4) have "Suc (length ad + length od) \<le> length (admit reg ad) + length (admit_org reg od)"
      by (auto simp: admit_def admit_org_def split: option.split)
    moreover have "u_role u \<noteq> ADMIN" using u(3) weak Cons by (auto simp: weak_reg_def split: option.split_asm)
    ultimately show ?thesis using assms(1) u Cons by (auto simp: boot_inv_def)
  qed
qed

interpretation bootstrap: step_invariant reg_step boot_inv
proof
  fix x y assume "boot_inv x" "reg_step x y"
  from this(2,1) show "boot_inv y"
  proof (induction rule: reg_step.induct)
    case (reg_check ok pd dec jo pol now inp s reg ps ad od)
    then have "weak_reg reg"
      by (auto split: option.split dest: check_code_weak simp: boot_inv_def weak_reg_def)
    with reg_check show ?case by (simp add: boot_inv_def)
  next
    case (reg_commit inp reg ps hash newId now s s' ad od)
    obtain s2 where s2: "tame s s2" "enableRegistration (os_db s2) = enableRegistration (os_db s)" "register_write hash newId now inp reg s2 = Inr s'"
      "enableRegistration (os_db s) = Some True \<or> rg_invitation reg \<noteq> None \<or> rg_orgInvite reg \<noteq> None"
      using register_commit_user[OF reg_commit(2)] by metis
    have "boot_inv (s', ps, admit reg ad, admit_org reg od)"
      using boot_write[OF tame_boot[OF s2(1) reg_commit(3)] reg_commit(1) s2(3)] s2(2,4) by simp
    then show ?case using boot_fewer tame_boot[OF register_log_tame] by blast
  next
    case (reg_refuse inp reg ps hash newId now s e ad od)
    then show ?case by (simp add: boot_fewer)
  next
    case (reg_invite sign b now c secret expire uses grp s tok s' ps ad od)
    then have "tame s s'"
      by (auto simp: admin_generateInviteLink_def Let_def rbind_Inr_iff tame_def weak_code_def)
    then show ?case using reg_invite by (blast intro: tame_boot)
  next
    case (reg_org s s' ps ad od)
    then show ?case by (blast intro: tame_boot org_step_tame)
  qed
qed


lemma demo_bootstrap:
  "register_check True (\<lambda>_. None) (\<lambda>_. None) (\<lambda>_. True) demo_policy 0 first_input fresh_install = Inr plain_registration"
  "register_commit (\<lambda>p. p) ''u1'' 0 first_input plain_registration fresh_install = Inr first_registered"
  by code_simp+


text \<open>The sign-in hook reads the user row, the session library the credential row. Outside a set of accounts
  the two hold the same hash.\<close>

definition creds_ok :: "string set \<Rightarrow> db \<Rightarrow> bool" where
  "creds_ok X d \<longleftrightarrow> distinct (map u_id (users d))
     \<and> (\<forall>a\<in>set (accounts d). \<forall>u\<in>set (users d). u_id u \<notin> X \<and> a_providerId a = ''credential'' \<and> a_accountId a = u_id u
          \<longrightarrow> a_password a = u_hash u)"

inductive pw_step :: "db \<Rightarrow> db \<Rightarrow> bool" where
  "register_commit hash newId now inp reg s = Inr s' \<Longrightarrow> pw_step (os_db s) (os_db s')"
| "admin_createUser policy hash after newId now c cu s = Inr s' \<Longrightarrow> pw_step (os_db s) (os_db s')"
| "admin_updateUser c i act ex s = Inr s' \<Longrightarrow> pw_step (os_db s) (os_db s')"
| "admin_changeRole c i r s = Inr s' \<Longrightarrow> pw_step (os_db s) (os_db s')"
| "changePasswordFromJwt sha jwt hash env policy ok rf now token pw npw a = Inr a' \<Longrightarrow> pw_step (as_db a) (as_db a')"
| "org_step s s' \<Longrightarrow> pw_step (os_db s) (os_db s')"

text \<open>Profile updates and sign-ins read a row and write later: the state is the database, the updates and the
  sign-ins that have read their row and have not finished, and the accounts that were overtaken: their stored hash
  has changed while a request that had read it was still to write.\<close>

type_synonym store_state = "db \<times> (update_input \<times> user_row) list \<times> (auth_request \<times> user_row) list \<times> string set"

definition stored_hash :: "db \<Rightarrow> string \<Rightarrow> string option option" where
  "stored_hash d i = map_option u_hash (find_user i d)"

definition overtaken :: "db \<Rightarrow> db \<Rightarrow> (update_input \<times> user_row) list \<Rightarrow> (auth_request \<times> user_row) list \<Rightarrow> string set" where
  "overtaken d d' us hs = {i \<in> (u_id \<circ> snd) ` set us \<union> (u_id \<circ> snd) ` set hs. stored_hash d' i \<noteq> stored_hash d i}"

inductive store_step :: "store_state \<Rightarrow> store_state \<Rightarrow> bool" where
  store_other: "pw_step d d' \<Longrightarrow> store_step (d, us, hs, X) (d', us, hs, X \<union> overtaken d d' us hs)"
| profile_read: "auth_update_begin compare policy i inp d = Inr u \<Longrightarrow> store_step (d, us, hs, X) (d, (inp, u) # us, hs, X)"
| profile_write: "(inp, u) \<in> set us \<Longrightarrow> auth_update_commit hash env rf now inp u a = Inr a'
    \<Longrightarrow> store_step (as_db a, us, hs, X)
          (as_db a', remove1 (inp, u) us, hs, X \<union> overtaken (as_db a) (as_db a') (remove1 (inp, u) us) hs)"
| profile_fail: "(inp, u) \<in> set us \<Longrightarrow> auth_update_commit hash env rf now inp u a = Inl e
    \<Longrightarrow> store_step (as_db a, us, hs, X) (as_db a, remove1 (inp, u) us, hs, X)"
| hook_read: "hook_begin aenv now rq d = Inr u \<Longrightarrow> store_step (d, us, hs, X) (d, us, (rq, u) # hs, X)"
| hook_clear: "(rq, u) \<in> set hs \<Longrightarrow> at_limit aenv u
    \<Longrightarrow> store_step (d, us, hs, X) (hook_reset u d, us, hs, X \<union> overtaken d (hook_reset u d) us hs)"
| hook_write: "(rq, u) \<in> set hs \<Longrightarrow> hook_finish compare decrypt totp aenv now rq u d = (x, d')
    \<Longrightarrow> store_step (d, us, hs, X) (d', us, remove1 (rq, u) hs, X \<union> overtaken d d' us (remove1 (rq, u) hs))"

text \<open>Every waiting request whose account was not overtaken still holds the stored hash.\<close>

definition captures_ok :: "store_state \<Rightarrow> bool" where
  "captures_ok z = (case z of (d, us, hs, X) \<Rightarrow>
     \<forall>u \<in> snd ` set us \<union> snd ` set hs. u_id u \<notin> X \<longrightarrow> stored_hash d (u_id u) = Some (u_hash u))"

definition store_inv :: "store_state \<Rightarrow> bool" where
  "store_inv z \<longleftrightarrow> captures_ok z \<and> (case z of (d, us, hs, X) \<Rightarrow> creds_ok X d)"

definition demo_acct :: acct_state where
  "demo_acct = \<lparr>as_db = demo_db, as_verifs = [\<lparr>vf_identifier = ''ztplanet-password-reset:u1'', vf_value = ''jt'', vf_expiresAt = 9\<rparr>],
     as_sessions = [(''s1'', ''u1''), (''s2'', ''u2'')], as_out = []\<rparr>"

abbreviation "demo_request \<equiv> \<lparr>rf_ip = ''1.1.1.1'', rf_device = None, rf_uuid = ''id'', rf_key = ''k''\<rparr>"

definition demo_reset :: "int \<Rightarrow> acct_state \<Rightarrow> exn + acct_state" where
  "demo_reset now s = changePasswordFromJwt (\<lambda>t. t) (\<lambda>t. Some (''u1'', ''u1@x.io'')) (\<lambda>p. p) quiet_env demo_policy True demo_request now ''jt'' ''pw1'' ''pw1'' s"

inductive group_step :: "db \<Rightarrow> db \<Rightarrow> bool" where
  "newId \<notin> g_id ` set (groups d) \<Longrightarrow> addUserGroup parse_date today end_of_day newId inp d = (x, d') \<Longrightarrow> group_step d d'"
| "deleteUserGroup i rm d = (x, d') \<Longrightarrow> group_step d d'"
| "assignUserGroup c u grp d = Inr d' \<Longrightarrow> group_step d d'"

definition groups_ok :: "db \<Rightarrow> bool" where
  "groups_ok d \<longleftrightarrow> distinct (map g_id (groups d)) \<and> length (filter g_isDefault (groups d)) \<le> 1
     \<and> (\<forall>u\<in>set (users d). \<forall>i. u_userGroupId u = Some i \<longrightarrow> i \<in> g_id ` set (groups d))"

definition demo_groups :: db where
  "demo_groups = demo_db\<lparr>groups := [\<lparr>g_id = 1, g_name = ''a'', g_maxNetworks = 2, g_isDefault = True, g_expiresAt = None\<rparr>]\<rparr>"

abbreviation "demo_group \<equiv> \<lparr>gi_id = None, gi_name = ''b'', gi_maxNetworks = ''5'', gi_isDefault = True, gi_expiresAt = None\<rparr>"

section \<open>Password reset\<close>

lemma recode_Inr [simp]: "(case x of Inl _ \<Rightarrow> Inl e | Inr y \<Rightarrow> Inr y) = Inr z \<longleftrightarrow> x = Inr z"
  by (cases x) simp_all

lemma change_from_jwt_parts:
  assumes "changePasswordFromJwt sha jwt hash env policy ok rf now token pw npw s = Inr s'"
  obtains i email u out where "jwt token = Some (i, email)" "find_user i (as_db s) = Some u"
    and "list_ex (resetTokenRecord sha now token i) (as_verifs s)"
    and "s' = s\<lparr>as_db := set_password i (hash pw) (as_db s), as_verifs := filter (\<lambda>v. \<not> resetTokenRecord sha now token i v) (as_verifs s),
      as_sessions := filter (\<lambda>x. snd x \<noteq> i) (as_sessions s), as_out := out\<rparr>"
proof -
  have ex: "list_ex P xs" if "length (filter P xs) = 1" for P and xs :: "verification_row list"
    using that by (metis (mono_tags, lifting) filter_False length_0_conv list_ex_iff zero_neq_one)
  from assms obtain i email u out where "jwt token = Some (i, email)" "find_user i (as_db s) = Some u"
    "length (filter (resetTokenRecord sha now token i) (as_verifs s)) = 1"
    "s' = s\<lparr>as_db := set_password i (hash pw) (as_db s), as_verifs := filter (\<lambda>v. \<not> resetTokenRecord sha now token i v) (as_verifs s),
      as_sessions := filter (\<lambda>x. snd x \<noteq> i) (as_sessions s), as_out := out\<rparr>"
    by (auto simp: changePasswordFromJwt_def rbind_Inr_iff)
  with ex[OF this(3)] show thesis by (intro that) simp_all
qed

lemma set_password_users:
  "find_user j (set_password i h d) = map_option (if j = i then (\<lambda>u. u\<lparr>u_hash := Some h, u_requestChangePassword := False,
     u_failedLoginAttempts := 0, u_lastFailedLoginAttempt := None\<rparr>) else id) (find_user j d)"
proof -
  have "find_user j (upsertCredentialAccount i h d) = find_user j d" for d by (simp add: find_user_def)
  then show ?thesis unfolding set_password_def by (simp add: find_user_update)
qed

text \<open>C23. A reset link works once: after a successful reset the user has the new password and no session, other users and
  their sessions are unchanged, and the same token is refused from then on, also after any later reset
  request, whose token is another one.\<close>

theorem reset_token_single_use:
  assumes "changePasswordFromJwt sha jwt hash env policy ok rf now token pw npw s = Inr s'"
    and "\<forall>v\<in>set (as_verifs t). v \<in> set (as_verifs s') \<or> vf_value v \<noteq> sha token" "now \<le> now'"
  shows "\<exists>i e. jwt token = Some (i, e) \<and> map_option u_hash (find_user i (as_db s')) = Some (Some (hash pw))
      \<and> as_sessions s' = filter (\<lambda>x. snd x \<noteq> i) (as_sessions s)
      \<and> (\<forall>j. j \<noteq> i \<longrightarrow> find_user j (as_db s') = find_user j (as_db s))
      \<and> \<not> is_ok (changePasswordFromJwt sha jwt hash env' policy' ok' rf' now' token pw' npw' t)
      \<and> validateResetPasswordToken sha jwt ok' now' token t = None"
proof -
  obtain i e u out where p: "jwt token = Some (i, e)" "find_user i (as_db s) = Some u"
    and s': "s' = s\<lparr>as_db := set_password i (hash pw) (as_db s), as_verifs := filter (\<lambda>v. \<not> resetTokenRecord sha now token i v) (as_verifs s),
      as_sessions := filter (\<lambda>x. snd x \<noteq> i) (as_sessions s), as_out := out\<rparr>"
    using change_from_jwt_parts[OF assms(1)] by metis
  have none: "\<not> resetTokenRecord sha now' token i v" if "v \<in> set (as_verifs t)" for v
    using that assms(2,3) by (auto simp: s' resetTokenRecord_def)
  then have "\<not> list_ex (resetTokenRecord sha now' token i) (as_verifs t)" by (auto simp: list_ex_iff)
  then have "\<not> is_ok (changePasswordFromJwt sha jwt hash env' policy' ok' rf' now' token pw' npw' t)"
    unfolding is_ok_iff using change_from_jwt_parts p(1) by (metis Pair_inject option.inject)
  moreover have "validateResetPasswordToken sha jwt ok' now' token t = None"
    using none p(1) by (auto simp: validateResetPasswordToken_def list_ex_iff find_user_def split: option.split dest: find_Some_mem)
  ultimately show ?thesis using p s' by (auto simp: set_password_users option.map_id0)
qed

section \<open>The two stores of a password\<close>

lemma creds_frame: "users d' = users d \<Longrightarrow> accounts d' = accounts d \<Longrightarrow> creds_ok X d' = creds_ok X d"
  by (simp add: creds_ok_def)

lemma upsert_rows:
  "a \<in> set (accounts (upsertCredentialAccount i h d)) \<Longrightarrow> a_providerId a = ''credential'' \<Longrightarrow>
     (if a_accountId a = i then a_password a = Some h else a \<in> set (accounts d))"
  by (auto simp: upsertCredentialAccount_def Let_def list_ex_iff split: if_split_asm)

lemma upsert_creds:
  assumes "distinct (map u_id (users d'))" "\<And>u. u \<in> set (users d') \<Longrightarrow> u_id u = i \<Longrightarrow> u_hash u = Some h"
    and "accounts d' = accounts d" "creds_ok X d" "\<And>u. u \<in> set (users d') \<Longrightarrow> u_id u \<noteq> i \<Longrightarrow> u \<in> set (users d)"
  shows "creds_ok X (upsertCredentialAccount i h d')"
  unfolding creds_ok_def
proof (intro conjI ballI impI)
  fix a u assume a: "a \<in> set (accounts (upsertCredentialAccount i h d'))" "u_id u \<notin> X \<and> a_providerId a = ''credential'' \<and> a_accountId a = u_id u"
    and u: "u \<in> set (users (upsertCredentialAccount i h d'))"
  show "a_password a = u_hash u"
  proof (cases "u_id u = i")
    case True
    then show ?thesis using upsert_rows[OF a(1)] a(2) assms(2) u by simp
  next
    case False
    then have "a \<in> set (accounts d)" "u \<in> set (users d)" using upsert_rows[OF a(1)] a(2) assms(3,5) u by simp_all
    then show ?thesis using assms(4) a(2) unfolding creds_ok_def by blast
  qed
qed (simp add: assms(1))

lemma update_ids: "(\<And>u. u_id (f u) = u_id u) \<Longrightarrow> map u_id (users (update_user i f d)) = map u_id (users d)"
  by (simp add: update_user_def)

lemma update_creds_own:
  assumes "creds_ok X d" "\<And>u. u_id (f u) = u_id u" "\<And>u. u \<in> set (users d) \<Longrightarrow> u_id u = i \<Longrightarrow> i \<in> X \<or> u_hash (f u) = u_hash u"
  shows "creds_ok X (update_user i f d)"
  unfolding creds_ok_def
proof (intro conjI ballI impI)
  show "distinct (map u_id (users (update_user i f d)))"
    using assms(1,2) by (simp add: update_ids creds_ok_def)
  fix a u assume a: "a \<in> set (accounts (update_user i f d))" and u: "u \<in> set (users (update_user i f d))"
    and k: "u_id u \<notin> X \<and> a_providerId a = ''credential'' \<and> a_accountId a = u_id u"
  obtain v where v: "v \<in> set (users d)" "u = (if u_id v = i then f v else v)" using u by (auto simp: update_user_def)
  have "u_id u = u_id v" using v(2) assms(2) by simp
  moreover have "u_hash u = u_hash v" using v k calculation assms(3)[OF v(1)] by auto
  ultimately show "a_password a = u_hash u" using assms(1) a k v(1) unfolding creds_ok_def by simp
qed

lemma update_creds:
  "creds_ok X d \<Longrightarrow> (\<And>u. u_id (f u) = u_id u) \<Longrightarrow> (\<And>u. u_hash (f u) = u_hash u) \<Longrightarrow> creds_ok X (update_user i f d)"
  by (rule update_creds_own) simp_all

lemma adopt_creds:
  assumes "creds_ok X d" "i \<in> X \<or> (\<forall>u\<in>set (users d). u_id u = i \<longrightarrow> u_hash u = Some h)"
  shows "creds_ok X (upsertCredentialAccount i h d)"
  unfolding creds_ok_def
proof (intro conjI ballI impI)
  show "distinct (map u_id (users (upsertCredentialAccount i h d)))" using assms(1) by (simp add: creds_ok_def)
  fix a u assume a: "a \<in> set (accounts (upsertCredentialAccount i h d))" and u: "u \<in> set (users (upsertCredentialAccount i h d))"
    and k: "u_id u \<notin> X \<and> a_providerId a = ''credential'' \<and> a_accountId a = u_id u"
  have r: "if a_accountId a = i then a_password a = Some h else a \<in> set (accounts d)" using upsert_rows[OF a] k by blast
  show "a_password a = u_hash u"
  proof (cases "u_id u = i")
    case True
    then show ?thesis using r k u assms(2) by auto
  next
    case False
    then show ?thesis using r k u assms(1) unfolding creds_ok_def by auto
  qed
qed

lemma password_creds:
  assumes "creds_ok X d" "\<And>u. u_id (f u) = u_id u" "\<And>u. u_hash (f u) = Some h"
  shows "creds_ok X (upsertCredentialAccount i h (update_user i f d))"
proof (rule upsert_creds[OF _ _ _ assms(1)])
  show "distinct (map u_id (users (update_user i f d)))"
    using assms(1,2) by (simp add: update_ids creds_ok_def)
qed (use assms(2,3) in \<open>auto simp: update_user_def\<close>)

lemma new_user_creds:
  assumes "creds_ok X d" "find_user (u_id u) d = None" "u_hash u = Some h" "users d' = users d @ [u]" "accounts d' = accounts d"
  shows "creds_ok X (upsertCredentialAccount (u_id u) h d')"
proof (rule upsert_creds[OF _ _ assms(5,1)])
  have new: "\<forall>v\<in>set (users d). u_id v \<noteq> u_id u" using assms(2) by (auto simp: find_user_def find_None_iff)
  then show "distinct (map u_id (users d'))" using assms(1,4) by (auto simp: creds_ok_def)
  show "u_hash v = Some h" if "v \<in> set (users d')" "u_id v = u_id u" for v
    using that new assms(3,4) by auto
qed (use assms(4) in auto)

lemma insert_user_frame:
  assumes "insert_user u s = Inr s'"
  shows "users (os_db s') = users (os_db s) @ [u]" "accounts (os_db s') = accounts (os_db s)" "find_user (u_id u) (os_db s) = None"
  using assms by (auto simp: insert_user_def rbind_Inr_iff)

lemma find_email_user: "find_email e d = Some u \<Longrightarrow> u \<in> set (users d)"
  by (auto simp: find_email_def dest: find_Some_mem)

lemma second_factor_creds: "creds_ok X d \<Longrightarrow> second_factor decrypt totp env now c u d = (x, d') \<Longrightarrow> creds_ok X d'"
  by (auto simp: second_factor_def count_failure_def intro!: update_creds split: if_split_asm option.split_asm)

lemma stored_hash_row:
  assumes "distinct (map u_id (users d))" "u \<in> set (users d)"
  shows "stored_hash d (u_id u) = Some (u_hash u)"
proof -
  have "find (\<lambda>v. u_id v = u_id u) us = Some u" if "distinct (map u_id us)" "u \<in> set us" for us
    using that by (induction us) (auto simp: image_iff)
  with assms show ?thesis by (simp add: stored_hash_def find_user_def)
qed

lemma hook_finish_creds:
  assumes "creds_ok X d" "u_id u \<notin> X \<longrightarrow> stored_hash d (u_id u) = Some (u_hash u)"
    and "hook_finish compare decrypt totp env now rq u d = (x, d')"
  shows "creds_ok X d'"
proof -
  have upd: "creds_ok X (update_user i (count_failure now) d)" for i
    by (intro update_creds[OF assms(1)]) (simp_all add: count_failure_def)
  define e where "e = (if \<not> has_credential (u_id u) d \<and> truthy (u_hash u)
      then upsertCredentialAccount (u_id u) (the (u_hash u)) d else d)"
  have "u_hash v = u_hash u" if "v \<in> set (users d)" "u_id v = u_id u" "u_id u \<notin> X" for v
    using that assms(1,2) stored_hash_row[of d v] by (simp add: creds_ok_def)
  then have rows: "u_id u \<in> X \<or> (\<forall>v\<in>set (users d). u_id v = u_id u \<longrightarrow> u_hash v = u_hash u)" by blast
  have e: "creds_ok X e"
  proof (cases "\<not> has_credential (u_id u) d \<and> truthy (u_hash u)")
    case True
    then have "u_hash u = Some (the (u_hash u))" by (cases "u_hash u") simp_all
    with rows have "creds_ok X (upsertCredentialAccount (u_id u) (the (u_hash u)) d)"
      by (intro adopt_creds[OF assms(1)]) simp
    with True show ?thesis unfolding e_def by (simp only: if_True simp_thms)
  qed (simp only: e_def if_False assms(1))
  show ?thesis
    using assms(3) unfolding hook_finish_def Let_def e_def[symmetric]
    by (auto simp only: prod.inject split: if_split_asm intro: upd second_factor_creds[OF e])
qed

lemma register_creds:
  assumes "creds_ok X (os_db s)" "register_commit hash newId now inp reg s = Inr s'"
  shows "creds_ok X (os_db s')"
proof -
  obtain s2 where t: "tame s s2" and w: "register_write hash newId now inp reg s2 = Inr s'"
    using register_commit_user[OF assms(2)] by metis
  obtain u where u: "users (os_db s') = users (os_db s2) @ [u]" "u_id u = newId" "u_hash u = Some (hash (ri_password inp))"
    "find_user newId (os_db s2) = None" "accounts (os_db s') = accounts (upsertCredentialAccount newId (hash (ri_password inp)) (os_db s2))"
    using register_write_user[OF w] by metis
  have "creds_ok X (os_db s2)" using assms(1) t creds_frame by (metis tame_def)
  then have "creds_ok X (upsertCredentialAccount newId (hash (ri_password inp)) ((os_db s2)\<lparr>users := users (os_db s2) @ [u]\<rparr>))"
    using new_user_creds[where d = "os_db s2" and u = u] u(2-4) by simp
  moreover have "accounts (upsertCredentialAccount newId h (d\<lparr>users := v\<rparr>)) = accounts (upsertCredentialAccount newId h d)" for h d v
    by (simp add: upsertCredentialAccount_def Let_def)
  ultimately show ?thesis using creds_frame u(1,5) by (metis (no_types) db.select_convs(1) db.surjective db.update_convs(1) upsert_users(1))
qed

lemma join_creds: "join_org u i r s = Inr s' \<Longrightarrow> creds_ok X (os_db s) \<Longrightarrow> creds_ok X (os_db s')"
  using creds_frame join_org_users by metis

lemma admin_tail:
  assumes "(case org of None \<Rightarrow> Inr x | Some i \<Rightarrow> join_org newId i r x) = Inr s'"
  obtains "s' = x" | g r where "join_org newId g r x = Inr s'"
  using assms by (cases org) auto

lemma admin_create_creds:
  assumes "creds_ok X (os_db s)" "admin_createUser policy hash after newId now c cu s = Inr s'"
  shows "creds_ok X (os_db s')"
proof -
  obtain s1 grp ex where i: "insert_user (new_user newId (cu_name cu) (cu_email cu) (cu_role cu) (hash (cu_password cu)) (cu_requestChangePassword cu) grp ex now) s = Inr s1"
    and s': "s' = in_db (upsertCredentialAccount newId (hash (cu_password cu))) s1
      \<or> (\<exists>g r. join_org newId g r (in_db (upsertCredentialAccount newId (hash (cu_password cu))) s1) = Inr s')"
    using assms(2) unfolding admin_createUser_def Let_def rbind_Inr_iff
    by (elim exE conjE) (blast elim: admin_tail)
  have "creds_ok X (os_db (in_db (upsertCredentialAccount newId (hash (cu_password cu))) s1))"
    using new_user_creds[OF assms(1) insert_user_frame(3)[OF i] _ insert_user_frame(1,2)[OF i]] by (simp add: in_db_def new_user_def)
  with s' join_creds show ?thesis by blast
qed

lemma auth_update_creds:
  assumes "creds_ok X (as_db s)" "u_id u \<notin> X \<longrightarrow> stored_hash (as_db s) (u_id u) = Some (u_hash u)"
    and "auth_update_commit hash env rf now inp u s = Inr s'"
  shows "creds_ok X (as_db s')"
proof (cases "truthy (up_newPassword inp)")
  case True
  then obtain out where s': "s' = s\<lparr>as_db := upsertCredentialAccount (u_id u) (hash (the (up_newPassword inp)))
      (update_user (u_id u) (updated_row hash inp u) (as_db s)), as_out := out\<rparr>"
    using assms(3) by (auto simp: auth_update_commit_def rbind_Inr_iff Let_def)
  show ?thesis unfolding s' using True by (simp add: password_creds[OF assms(1)] updated_row_def)
next
  case False
  then have s': "s' = s\<lparr>as_db := update_user (u_id u) (updated_row hash inp u) (as_db s)\<rparr>"
    using assms(3) by (auto simp: auth_update_commit_def rbind_Inr_iff Let_def)
  have "creds_ok X (update_user (u_id u) (updated_row hash inp u) (as_db s))"
  proof (rule update_creds_own[OF assms(1)])
    fix v assume v: "v \<in> set (users (as_db s))" "u_id v = u_id u"
    have "stored_hash (as_db s) (u_id u) = Some (u_hash v)"
      using stored_hash_row[of "as_db s" v] v assms(1) by (simp add: creds_ok_def)
    then show "u_id u \<in> X \<or> u_hash (updated_row hash inp u v) = u_hash v"
      using assms(2) False by (auto simp: updated_row_def)
  qed (simp add: updated_row_def)
  then show ?thesis by (simp add: s')
qed

interpretation passwords: step_invariant pw_step "creds_ok X" for X
proof
  fix d e assume "creds_ok X d" "pw_step d e"
  from this(2,1) show "creds_ok X e"
  proof (induction rule: pw_step.induct)
    case (3 c i act ex s s')
    then show ?case by (auto simp: admin_updateUser_def rbind_Inr_iff in_db_def intro!: update_creds)
  next
    case (4 c i r s s')
    then show ?case by (auto simp: admin_changeRole_def rbind_Inr_iff in_db_def intro!: update_creds)
  next
    case (5 sha jwt hash env policy ok rf now token pw npw a a')
    obtain j h where "as_db a' = set_password j h (as_db a)"
      by (rule change_from_jwt_parts[OF 5(1)]) simp
    then show ?case using 5(2) by (auto simp: set_password_def intro!: password_creds)
  next
    case (6 s s')
    then show ?case using org_step_tame creds_frame by (metis tame_def)
  qed (blast intro: register_creds admin_create_creds)+
qed

lemma creds_mono: "creds_ok X d \<Longrightarrow> creds_ok (X \<union> Y) d"
  unfolding creds_ok_def by blast

lemma captures_step:
  assumes "captures_ok (d, us, hs, X)" "set us' \<subseteq> set us" "set hs' \<subseteq> set hs"
  shows "captures_ok (d', us', hs', X \<union> overtaken d d' us' hs')"
  unfolding captures_ok_def prod.case
proof (intro ballI impI)
  fix u assume u: "u \<in> snd ` set us' \<union> snd ` set hs'" and n: "u_id u \<notin> X \<union> overtaken d d' us' hs'"
  have "u_id u \<in> (u_id \<circ> snd) ` set us' \<union> (u_id \<circ> snd) ` set hs'" using u by (force simp: image_iff)
  then have same: "stored_hash d' (u_id u) = stored_hash d (u_id u)" using n unfolding overtaken_def by blast
  have "u \<in> snd ` set us \<union> snd ` set hs" using u assms(2,3) by blast
  then show "stored_hash d' (u_id u) = Some (u_hash u)" using assms(1) n same unfolding captures_ok_def prod.case by simp
qed

lemma store_inv_step:
  assumes "store_inv (d, us, hs, X)" "creds_ok X d'" "set us' \<subseteq> set us" "set hs' \<subseteq> set hs"
  shows "store_inv (d', us', hs', X \<union> overtaken d d' us' hs')"
  using assms captures_step[OF _ assms(3,4)] by (auto simp: store_inv_def intro: creds_mono)

lemma captured_hash:
  "store_inv (d, us, hs, X) \<Longrightarrow> (inp, u) \<in> set us \<Longrightarrow> u_id u \<notin> X \<longrightarrow> stored_hash d (u_id u) = Some (u_hash u)"
  "store_inv (d, us, hs, X) \<Longrightarrow> (rq, u) \<in> set hs \<Longrightarrow> u_id u \<notin> X \<longrightarrow> stored_hash d (u_id u) = Some (u_hash u)"
  by (force simp: store_inv_def captures_ok_def)+

lemma store_reads:
  assumes "store_inv (d, us, hs, X)" "stored_hash d (u_id u) = Some (u_hash u)"
  shows "store_inv (d, (inp, u) # us, hs, X)" and "store_inv (d, us, (rq, u) # hs, X)"
  using assms by (auto simp: store_inv_def captures_ok_def)

lemma hook_begin_row: "hook_begin env now rq d = Inr u \<Longrightarrow> u \<in> set (users d)"
  by (auto simp: hook_begin_def split: if_split_asm option.split_asm dest: find_email_user)

interpretation password_stores: step_invariant store_step store_inv
proof
  fix y z assume "store_inv y" "store_step y z"
  from this(2,1) show "store_inv z"
  proof (induction rule: store_step.induct)
    case (store_other d d' us hs X)
    have "creds_ok X d'" using store_other by (auto simp: store_inv_def intro: passwords.step_keeps)
    with store_other(2) show ?case by (rule store_inv_step) simp_all
  next
    case (profile_read compare policy i inp d u us hs X)
    then have "stored_hash d (u_id u) = Some (u_hash u)"
      by (auto simp: auth_update_begin_def rbind_Inr_iff stored_hash_def dest: find_user_Some)
    with profile_read(2) show ?case by (rule store_reads)
  next
    case (profile_write inp u us hash env rf now a a' hs X)
    have "creds_ok X (as_db a')"
      using auth_update_creds[OF _ captured_hash(1)[OF profile_write(3,1)] profile_write(2)] profile_write(3)
      by (simp add: store_inv_def)
    with profile_write(3) show ?case by (rule store_inv_step) (auto dest: notin_set_remove1 set_remove1_subset[THEN subsetD])
  next
    case (profile_fail inp u us hash env rf now a e hs X)
    then show ?case by (auto simp: store_inv_def captures_ok_def dest!: set_remove1_subset[THEN subsetD])
  next
    case (hook_read aenv now rq d u us hs X)
    then have "stored_hash d (u_id u) = Some (u_hash u)"
      using stored_hash_row hook_begin_row by (auto simp: store_inv_def creds_ok_def)
    with hook_read(2) show ?case by (rule store_reads)
  next
    case (hook_clear rq u hs aenv d us X)
    have "creds_ok X (hook_reset u d)" using hook_clear(3)
      by (auto simp: hook_reset_def store_inv_def clear_failures_def intro!: update_creds)
    with hook_clear(3) show ?case by (rule store_inv_step) simp_all
  next
    case (hook_write rq u hs compare decrypt totp aenv now d x d' us X)
    have "creds_ok X d'"
      using hook_finish_creds[OF _ captured_hash(2)[OF hook_write(3,1)] hook_write(2)] hook_write(3)
      by (simp add: store_inv_def)
    with hook_write(3) show ?case by (rule store_inv_step) (auto dest: set_remove1_subset[THEN subsetD])
  qed
qed

text \<open>C21. One password: registration, administration, password reset and organisation procedures, with profile
  updates and sign-in hooks that read their row and write later, in any interleaving. For every account whose stored
  hash did not change while a request that had read it was still to write, the hash in the user row and in the
  credential row of the session library are equal, so the lockout check and the authoritative check judge the same
  password. For an overtaken account they may differ (see \<^verbatim>\<open>profile_update_restores_old_hash\<close>).\<close>

theorem password_stores_agree:
  assumes "store_step\<^sup>*\<^sup>* (d, [], [], {}) (e, us, hs, X)" "creds_ok {} d" "a \<in> set (accounts e)" "u \<in> set (users e)"
    and "a_providerId a = ''credential''" "a_accountId a = u_id u" "u_id u \<notin> X"
  shows "a_password a = u_hash u"
proof -
  have "store_inv (d, [], [], {})" using assms(2) by (simp add: store_inv_def captures_ok_def)
  from password_stores.run_keeps[OF assms(1) this] assms(3-7) show ?thesis
    unfolding store_inv_def creds_ok_def prod.case by blast
qed

lemma upsert_has_row:
  "\<exists>r\<in>set (accounts (upsertCredentialAccount i h d)). a_providerId r = ''credential'' \<and> a_accountId r = i \<and> a_password r = Some h"
proof (cases "\<exists>a\<in>set (accounts d). a_providerId a = ''credential'' \<and> a_accountId a = i")
  case True
  then obtain a where a: "a \<in> set (accounts d)" "a_providerId a = ''credential''" "a_accountId a = i" by blast
  then have "a\<lparr>a_password := Some h\<rparr> \<in> set (accounts (upsertCredentialAccount i h d))"
    by (auto simp: upsertCredentialAccount_def list_ex_iff)
  with a show ?thesis by (intro bexI[of _ "a\<lparr>a_password := Some h\<rparr>"]) simp_all
next
  case False
  then show ?thesis by (auto simp: upsertCredentialAccount_def list_ex_iff)
qed

text \<open>A profile update that has read the row before a password reset and writes after it puts the old hash back
  into the user row, while the credential row keeps the new one.\<close>

lemma profile_update_restores_old_hash:
  assumes "auth_update_begin compare policy i inp d = Inr u" "\<not> truthy (up_newPassword inp)"
    and "auth_update_commit hash env rf now inp u a = Inr a'" "as_db a = set_password i h d"
  shows "stored_hash (as_db a') i = Some (u_hash u)
    \<and> (\<exists>r\<in>set (accounts (as_db a')). a_providerId r = ''credential'' \<and> a_accountId r = i \<and> a_password r = Some h)"
proof -
  have i: "find_user i d = Some u" "u_id u = i"
    using assms(1) by (auto simp: auth_update_begin_def rbind_Inr_iff dest: find_user_Some)
  have a': "as_db a' = update_user i (updated_row hash inp u) (set_password i h d)"
    using assms(2,3,4) i(2) by (auto simp: auth_update_commit_def rbind_Inr_iff Let_def)
  have "stored_hash (as_db a') i = Some (u_hash u)"
    using i assms(2) unfolding a' stored_hash_def
    by (simp add: find_user_update set_password_users updated_row_def)
  moreover have "\<exists>r\<in>set (accounts (set_password i h d)). a_providerId r = ''credential'' \<and> a_accountId r = i \<and> a_password r = Some h"
    unfolding set_password_def by (rule upsert_has_row)
  ultimately show ?thesis unfolding a' by simp
qed

theorem reset_token_single_use_witness:
  "\<exists>s'. demo_reset 5 demo_acct = Inr s' \<and> as_sessions s' = [(''s2'', ''u2'')] \<and> \<not> is_ok (demo_reset 6 s')"
proof -
  have ok: "is_ok (demo_reset 5 demo_acct)" by code_simp
  then obtain s' where s': "demo_reset 5 demo_acct = Inr s'" by (auto simp: is_ok_iff)
  have "\<forall>v\<in>set (as_verifs s'). v \<in> set (as_verifs s') \<or> vf_value v \<noteq> (\<lambda>t. t) ''jt''" by simp
  from reset_token_single_use[OF s'[unfolded demo_reset_def] this, of 6 quiet_env demo_policy True demo_request "''pw1''" "''pw1''"]
  have "as_sessions s' = [(''s2'', ''u2'')] \<and> \<not> is_ok (demo_reset 6 s')" by (simp add: demo_reset_def demo_acct_def)
  with s' show ?thesis by blast
qed

definition rename_input :: update_input where
  "rename_input = \<lparr>up_email = None, up_password = None, up_newPassword = None, up_repeat = None, up_name = Some ''neo''\<rparr>"

theorem password_stores_agree_witness:
  "a_password (hd (accounts (os_db first_registered))) = u_hash (hd (users (os_db first_registered)))
    \<and> u_hash (hd (users (os_db first_registered))) = Some ''pw1''"
proof -
  let ?d = "os_db first_registered"
  obtain u where u: "auth_update_begin (=) demo_policy ''u1'' rename_input ?d = Inr u" "u_id u \<notin> {}"
  proof -
    have "is_ok (auth_update_begin (=) demo_policy ''u1'' rename_input ?d)" by code_simp
    with that show thesis by (auto simp: is_ok_iff)
  qed
  have "store_step (os_db fresh_install, [], [], {}) (?d, [], [], {} \<union> overtaken (os_db fresh_install) ?d [] [])"
    by (rule store_other, rule pw_step.intros(1), rule demo_bootstrap)
  moreover have "store_step (?d, [], [], {}) (?d, [(rename_input, u)], [], {})" by (rule profile_read[OF u(1)])
  ultimately have "store_step\<^sup>*\<^sup>* (os_db fresh_install, [], [], {}) (?d, [(rename_input, u)], [], {})"
    by (simp add: overtaken_def)
  moreover have "creds_ok {} (os_db fresh_install)" by (simp add: creds_ok_def fresh_install_def demo_db_def)
  moreover have "hd (accounts ?d) \<in> set (accounts ?d)" "hd (users ?d) \<in> set (users ?d)"
    "a_providerId (hd (accounts ?d)) = ''credential''"
    "a_accountId (hd (accounts ?d)) = u_id (hd (users ?d))"
    "u_hash (hd (users ?d)) = Some ''pw1''" by code_simp+
  ultimately show ?thesis using password_stores_agree[where X = "{}"] by blast
qed

section \<open>Groups\<close>

text \<open>The group of an invitation link is ignored: whatever group the administrator chose for a link, every registration
  that uses it is put into the default group, because the link stores the group in another column than the
  one registration reads.\<close>

theorem invited_group_is_ignored:
  assumes "reg_step\<^sup>*\<^sup>* (s, [], [], []) (t, ps, ad, od)" "os_invitations s = []" "users (os_db s) = []" "(inp, reg) \<in> set ps"
  shows "group_for (rg_invitation reg) d = map_option g_id (find g_isDefault (groups d))"
proof -
  have "boot_inv (s, [], [], [])" using assms(2,3) by (simp add: boot_inv_def)
  from bootstrap.run_keeps[OF assms(1) this] assms(4) have "weak_reg reg" by (force simp: boot_inv_def)
  then show ?thesis by (auto simp: weak_reg_def group_for_def split: option.split)
qed

theorem invited_group_is_ignored_witness:
  "\<exists>s1 s2 reg. admin_generateInviteLink (\<lambda>_ _. ''tk'') ''http://h'' 0 demo_caller ''sec'' ''2'' None (Some ''7'') fresh_install = Inr (s1, s2)
    \<and> register_check True (\<lambda>_. None) (\<lambda>_. None) (\<lambda>_. True) demo_policy 0 demo_input s2 = Inr reg
    \<and> map_option iv_groupId (rg_invitation reg) = Some (Some ''7'') \<and> group_for (rg_invitation reg) demo_db = None"
proof -
  let ?a = "admin_generateInviteLink (\<lambda>_ _. ''tk'') ''http://h'' 0 demo_caller ''sec'' ''2'' None (Some ''7'') fresh_install"
  let ?c = "\<lambda>s. register_check True (\<lambda>_. None) (\<lambda>_. None) (\<lambda>_. True) demo_policy 0 demo_input s"
  have "case ?a of Inl _ \<Rightarrow> False | Inr (_, s) \<Rightarrow> (case ?c s of Inl _ \<Rightarrow> False | Inr reg \<Rightarrow> map_option iv_groupId (rg_invitation reg) = Some (Some ''7''))"
    by code_simp
  then obtain tok s where a: "?a = Inr (tok, s)" and "case ?c s of Inl _ \<Rightarrow> False | Inr reg \<Rightarrow> map_option iv_groupId (rg_invitation reg) = Some (Some ''7'')"
    by (cases ?a) auto
  then obtain reg where c: "?c s = Inr reg" and g: "map_option iv_groupId (rg_invitation reg) = Some (Some ''7'')"
    by (cases "?c s") auto
  have run: "reg_step\<^sup>*\<^sup>* (fresh_install, [], [], []) (s, [(demo_input, reg)], [], [])"
    using reg_invite[OF a] reg_check[OF c] by (blast intro: converse_rtranclp_into_rtranclp)
  have "group_for (rg_invitation reg) demo_db = map_option g_id (find g_isDefault (groups demo_db))"
    by (rule invited_group_is_ignored[OF run]) (simp_all add: fresh_install_def)
  then show ?thesis using a c g by (simp add: demo_db_def)
qed

lemma one_default_map:
  assumes "distinct (map g_id gs)" "\<And>g. g \<in> set gs \<Longrightarrow> \<not> g_isDefault g" "\<And>g. g_id (f g) = g_id g"
  shows "length (filter g_isDefault (map (\<lambda>g. if g_id g = k then f g else g) gs)) \<le> 1"
  using assms(1,2)
proof (induction gs)
  case (Cons g gs)
  have "filter g_isDefault (map (\<lambda>g. if g_id g = k then f g else g) gs) = []" if "g_id g = k"
  proof -
    have "map (\<lambda>g. if g_id g = k then f g else g) gs = gs"
      using Cons.prems(1) that by (intro map_idI) (metis distinct.simps(2) image_eqI list.set_map list.simps(9))
    then show ?thesis using Cons.prems(2) by (simp add: filter_empty_conv)
  qed
  then show ?case using Cons by (cases "g_id g = k") auto
qed simp


lemma clear_default_ok: "groups_ok d \<Longrightarrow> groups_ok (clear_default d)"
proof -
  assume ok: "groups_ok d"
  have "filter g_isDefault (groups (clear_default d)) = []" by (auto simp: clear_default_def filter_empty_conv)
  moreover have "map g_id (groups (clear_default d)) = map g_id (groups d)" by (simp add: clear_default_def)
  moreover from this have "g_id ` set (groups (clear_default d)) = g_id ` set (groups d)" by (metis list.set_map)
  moreover have "users (clear_default d) = users d" by (simp add: clear_default_def)
  ultimately show ?thesis using ok by (simp add: groups_ok_def)
qed

lemma upsert_group_ok:
  assumes "groups_ok d" "newId \<notin> g_id ` set (groups d)" "\<And>g. g_id (f g) = g_id g" "\<And>g. g_isDefault (f g) = b"
    and "b \<Longrightarrow> \<forall>g\<in>set (groups d). \<not> g_isDefault g"
  shows "groups_ok (upsert_group newId k f d)"
proof (cases "list_ex (\<lambda>g. g_id g = k) (groups d)")
  case True
  let ?m = "map (\<lambda>g. if g_id g = k then f g else g)"
  have "length (filter g_isDefault (?m gs)) \<le> length (filter g_isDefault gs)" if "\<not> b" for gs
    using assms(4) that by (induction gs) auto
  then have "length (filter g_isDefault (?m (groups d))) \<le> 1"
    using one_default_map[of "groups d" f k] assms(1,3,5) unfolding groups_ok_def by (cases b) (blast, meson order_trans)
  moreover have "map g_id (?m (groups d)) = map g_id (groups d)" using assms(3) by simp
  moreover from this have "g_id ` set (?m (groups d)) = g_id ` set (groups d)" by (metis list.set_map)
  ultimately show ?thesis using True assms(1) unfolding groups_ok_def upsert_group_def by (simp del: map_map filter_map set_map)
next
  case False
  have "length (filter g_isDefault (groups d @ [f x])) \<le> 1" for x
    using assms(1,4,5) by (cases b) (auto simp: groups_ok_def filter_empty_conv)
  then show ?thesis using False assms(1-3) unfolding groups_ok_def upsert_group_def by auto
qed

lemma add_group_ok:
  assumes "groups_ok d" "newId \<notin> g_id ` set (groups d)" "addUserGroup pd today eod newId inp d = (x, d')"
  shows "groups_ok d'"
proof -
  define d1 where "d1 = (if gi_isDefault inp then clear_default d else d)"
  have ok: "groups_ok d1" using assms(1) clear_default_ok by (simp add: d1_def)
  have "map g_id (groups d1) = map g_id (groups d)" by (simp add: d1_def clear_default_def)
  then have "g_id ` set (groups d1) = g_id ` set (groups d)" by (metis list.set_map)
  then have "groups_ok (upsert_group newId k (\<lambda>g. g\<lparr>g_name := a, g_maxNetworks := n, g_isDefault := gi_isDefault inp, g_expiresAt := e\<rparr>) d1)" for k a n e
    using assms(2) by (intro upsert_group_ok[OF ok, where b = "gi_isDefault inp"]) (auto simp: d1_def clear_default_def)
  then show ?thesis using assms(1,3) ok unfolding addUserGroup_def Let_def d1_def[symmetric]
    by (auto simp only: prod.inject split: if_split_asm option.split_asm)
qed

lemma delete_group_ok:
  assumes "groups_ok d" "deleteUserGroup i rm d = (x, d')"
  shows "groups_ok d'"
proof -
  have "length (filter g_isDefault (filter (\<lambda>g. g_id g \<noteq> i) gs)) \<le> length (filter g_isDefault gs)" for gs
    by (induction gs) auto
  moreover have "distinct (map g_id (filter (\<lambda>g. g_id g \<noteq> i) gs))" if "distinct (map g_id gs)" for gs
    using that by (simp add: distinct_map_filter)
  ultimately have "groups_ok (d\<lparr>users := map (\<lambda>u. if u_userGroupId u = Some i then u\<lparr>u_userGroupId := None, u_expiresAt := None\<rparr> else u) (users d),
      groups := filter (\<lambda>g. g_id g \<noteq> i) (groups d)\<rparr>)"
    using assms(1) by (fastforce simp: groups_ok_def intro: order_trans)
  then show ?thesis using assms by (auto simp: deleteUserGroup_def split: if_split_asm)
qed

lemma assign_group_ok:
  assumes "groups_ok d" "assignUserGroup c u grp d = Inr d'"
  shows "groups_ok d'"
  using assms by (auto simp: assignUserGroup_def rbind_Inr_iff groups_ok_def update_user_def find_group_def
      split: if_split_asm option.split_asm dest!: find_Some_mem)

interpretation user_groups: step_invariant group_step groups_ok
proof
  fix d e assume "groups_ok d" "group_step d e"
  from this(2,1) show "groups_ok e"
    by (induction rule: group_step.induct) (blast intro: add_group_ok delete_group_ok assign_group_ok)+
qed

text \<open>User groups stay consistent: after any sequence of group operations, failing ones included, at most one group is
  the default, and every user's group exists.\<close>

theorem groups_stay_consistent:
  assumes "group_step\<^sup>*\<^sup>* d e" "groups_ok d"
  shows "length (filter g_isDefault (groups e)) \<le> 1
    \<and> (\<forall>u\<in>set (users e). \<forall>i. u_userGroupId u = Some i \<longrightarrow> find_group (Some i) e \<noteq> None)"
  using user_groups.run_keeps[OF assms] by (auto simp: groups_ok_def find_group_def find_None_iff)

text \<open>A failing change of a group may have cleared the default group already.\<close>

lemma failed_group_clears_default:
  assumes "addUserGroup pd today eod newId inp d = (Inl (bad_request m), d')" "gi_isDefault inp"
  shows "find g_isDefault (groups d') = None"
  using assms by (auto simp: addUserGroup_def Let_def bad_request_def find_None_iff clear_default_def split: if_split_asm option.split_asm)


theorem groups_stay_consistent_witness:
  "map g_isDefault (groups (snd (addUserGroup (\<lambda>_. None) 0 id 2 demo_group demo_groups))) = [False, True]
    \<and> length (filter g_isDefault (groups (snd (addUserGroup (\<lambda>_. None) 0 id 2 demo_group demo_groups)))) \<le> 1"
proof -
  let ?r = "addUserGroup (\<lambda>_. None) 0 id 2 demo_group demo_groups"
  have f: "groups_ok demo_groups" by (simp add: groups_ok_def demo_groups_def demo_db_def demo_user_def)
  have "group_step demo_groups (snd ?r)"
    by (rule group_step.intros(1)[of 2 _ "\<lambda>_. None" 0 id demo_group "fst ?r"]) (simp_all add: demo_groups_def)
  moreover have "map g_isDefault (groups (snd ?r)) = [False, True]" by code_simp
  ultimately show ?thesis using groups_stay_consistent[OF r_into_rtranclp f] by blast
qed

end
