(* ===== verification/Members.thy ===== *)
theory Members
  imports Notifications
begin

text \<open>
  The member service (\<^verbatim>\<open>server/api/services/memberService.ts\<close>): the member rows of a network are a
  cache of the controller's members. A reconcile reads the controller's revision map, fetches the
  members that changed, creates and updates rows, removes rows the controller no longer has, and
  writes back the observed status.

  The controller and everything else that is read but not changed is the record \<open>sync_env\<close>: a
  rejected controller call is \<open>None\<close>. The state is the member table with its autoincrement counter,
  the notification outbox and the log of join announcements (webhook and administrator mail, whose
  failures the code swallows). A failing operation keeps the state it committed before: operations
  return the state and the error side by side.
\<close>

section \<open>Data\<close>

text \<open>A member object of the controller, with the properties the service reads; \<open>None\<close> is a missing
  property. The booleans are always present.\<close>

record member_detail =
  md_id :: string
  md_nwid :: string
  md_address :: "string option"
  md_name :: "string option"
  md_authorized :: bool
  md_ipAssignments :: "string list option"
  md_noAutoAssignIps :: bool
  md_activeBridge :: bool
  md_vMajor :: "int option"
  md_vMinor :: "int option"
  md_vRev :: "int option"
  md_vProto :: "int option"

record user_options =
  uo_addMemberIdAsName :: bool
  uo_renameNodeGlobally :: bool

record sync_env =
  se_db :: db
  se_userId :: string
  se_options :: "user_options option"
  se_orgRename :: "string \<Rightarrow> bool"
  se_notify :: notify_env
  se_lib :: addr_lib
  se_networks :: "string list option"
  se_members :: "string \<Rightarrow> (string \<times> int) list option"
  se_details :: "string \<Rightarrow> string \<Rightarrow> member_detail option"
  se_peers :: "peers list option"
  se_status :: "string \<Rightarrow> status_snapshot option option"
  se_uuid :: "string \<Rightarrow> string \<Rightarrow> string"
  se_now :: int

record member_state =
  ms_rows :: "member_row list"
  ms_nextId :: nat
  ms_out :: "delivery list"
  ms_joins :: "(string \<times> string \<times> string) list"

datatype sync_error = ControllerFailed | TemplateFailed template_error | NoUser | NoNetwork

definition row_key :: "member_row \<Rightarrow> string \<times> string" where
  "row_key m = (m_nwid m, m_id m)"

definition row_at :: "string \<Rightarrow> string \<Rightarrow> member_row list \<Rightarrow> member_row option" where
  "row_at nwid i rows = find (\<lambda>m. m_nwid m = nwid \<and> m_id m = i) rows"

definition update_rows :: "string \<Rightarrow> string \<Rightarrow> (member_row \<Rightarrow> member_row) \<Rightarrow> member_row list \<Rightarrow> member_row list" where
  "update_rows nwid i f rows = map (\<lambda>m. if m_nwid m = nwid \<and> m_id m = i then f m else m) rows"

definition notify :: "sync_env \<Rightarrow> event_type \<Rightarrow> string \<Rightarrow> jstext \<Rightarrow> ctx \<Rightarrow> delivery list \<Rightarrow> sync_error + delivery list" where
  "notify env ev i key context out =
     (case enqueueNotification (ne_fp (se_notify env)) (ne_options (se_notify env)) (ne_templates (se_notify env))
             (se_uuid env (event_name ev) i) (se_now env) ev key context out of
        Inl e \<Rightarrow> Inl (TemplateFailed e) | Inr out' \<Rightarrow> Inr out')"

definition event_context :: "sync_env \<Rightarrow> member_view \<Rightarrow> string \<Rightarrow> jstext \<Rightarrow> jstext \<Rightarrow> ctx" where
  "event_context env v nwid before after =
     nodeEventContext (ne_url (se_notify env)) (se_now env) v (ne_networkName (se_notify env) nwid) (Some before) (Some after)"

section \<open>Names\<close>

text \<open>\<^verbatim>\<open>name?.trim()\<close> as a condition.\<close>

definition named :: "string option \<Rightarrow> bool" where
  "named n = (case n of None \<Rightarrow> False | Some t \<Rightarrow> js_trim t \<noteq> [])"

definition preferredMemberName :: "string option \<Rightarrow> string option \<Rightarrow> string option" where
  "preferredMemberName dbName controllerName =
     (if named dbName then dbName else if named controllerName then controllerName else None)"

text \<open>The networks a name may be taken from: those of the organisation, or the user's personal ones.\<close>

definition name_scope :: "sync_env \<Rightarrow> string option \<Rightarrow> network_row \<Rightarrow> bool" where
  "name_scope env org n =
     (case org of Some o' \<Rightarrow> n_organizationId n = Some o'
      | None \<Rightarrow> n_authorId n = Some (se_userId env) \<and> n_organizationId n = None)"

definition stored_name :: "sync_env \<Rightarrow> member_row list \<Rightarrow> string \<Rightarrow> string \<Rightarrow> string option \<Rightarrow> string option" where
  "stored_name env rows memberId currentNwid org =
     (case sort_key (\<lambda>m. - m_creationTime m)
             (filter (\<lambda>m. m_id m = memberId \<and> m_name m \<noteq> None \<and> m_deleted m = Some False \<and> m_nwid m \<noteq> currentNwid
                \<and> list_ex (\<lambda>n. n_nwid n = m_nwid m \<and> name_scope env org n) (networks (se_db env))) rows) of
        [] \<Rightarrow> None | m # _ \<Rightarrow> m_name m)"

fun first_name :: "member_detail option list \<Rightarrow> string option" where
  "first_name [] = None"
| "first_name (None # ds) = first_name ds"
| "first_name (Some d # ds) = (if truthy (md_name d) then md_name d else first_name ds)"

definition findExistingMemberName :: "sync_env \<Rightarrow> member_row list \<Rightarrow> string \<Rightarrow> string \<Rightarrow> string option \<Rightarrow> string option" where
  "findExistingMemberName env rows memberId currentNwid org =
     (if truthy (stored_name env rows memberId currentNwid org) then stored_name env rows memberId currentNwid org
      else case se_networks env of None \<Rightarrow> None
      | Some ns \<Rightarrow>
          first_name (map (\<lambda>n. se_details env (n_nwid n) memberId)
            (filter (\<lambda>n. n_nwid n \<in> set ns \<and> n_nwid n \<noteq> currentNwid \<and> name_scope env org n) (networks (se_db env)))))"

text \<open>The name of a new row; \<open>org\<close> is the network's organisation when there is one. Reading the options
  of a user that does not exist throws.\<close>

definition new_member_name :: "sync_env \<Rightarrow> member_row list \<Rightarrow> string \<Rightarrow> string \<Rightarrow> string option \<Rightarrow> sync_error + string option" where
  "new_member_name env rows memberId nwid org =
     (case org of
        Some o' \<Rightarrow> Inr (if se_orgRename env o' then findExistingMemberName env rows memberId nwid (Some o') else None)
      | None \<Rightarrow>
          if find_user (se_userId env) (se_db env) = None then Inl NoUser
          else let addId = (case se_options env of None \<Rightarrow> False | Some op \<Rightarrow> uo_addMemberIdAsName op);
                   rename = (case se_options env of None \<Rightarrow> False | Some op \<Rightarrow> uo_renameNodeGlobally op);
                   name = (if addId then Some memberId else None);
                   found = findExistingMemberName env rows memberId nwid None
               in Inr (if rename \<and> truthy found then found else name))"

section \<open>Adding a member\<close>

text \<open>The column defaults of \<^verbatim>\<open>network_members\<close> in the schema.\<close>

definition new_row :: "nat \<Rightarrow> int \<Rightarrow> string \<Rightarrow> string \<Rightarrow> string option \<Rightarrow> member_row" where
  "new_row nodeid now nwid i name =
     \<lparr>m_nodeid = nodeid, m_id = i, m_nwid = nwid, m_lastSeen = None, m_lastOnlineAt = None, m_lastOfflineAt = None,
      m_statusObservedAt = None, m_observationControllerStartedAt = None, m_sourceLastOnlineAt = None,
      m_notifyOnFirstOnline = True, m_connectionStatus = None, m_connectionPendingStatus = None,
      m_connectionPendingSince = None, m_authorized = Some False, m_physicalAddress = None, m_online = Some False,
      m_deleted = Some False, m_permanentlyDeleted = Some False, m_name = name, m_description = None,
      m_address = Some [], m_creationTime = now, m_ipAssignments = [], m_noAutoAssignIps = False,
      m_activeBridge = False, m_revision = None, m_vMajor = None, m_vMinor = None, m_vRev = None, m_vProto = None,
      m_controllerName = None\<rparr>"

definition not_joined :: jstext where
  "not_joined = [26410, 21152, 20837]"

definition joined_list :: jstext where
  "joined_list = [24050, 21152, 20837, 25104, 21592, 21015, 34920]"

definition member_org :: "sync_env \<Rightarrow> string \<Rightarrow> string option" where
  "member_org env nwid = (case find_network nwid (se_db env) of None \<Rightarrow> None
     | Some n \<Rightarrow> if truthy (n_organizationId n) then n_organizationId n else None)"

definition addNetworkMember :: "sync_env \<Rightarrow> member_view \<Rightarrow> member_state \<Rightarrow> sync_error + member_state" where
  "addNetworkMember env v s =
     (let org = member_org env (v_nwid v)
      in rbind (new_member_name env (ms_rows s) (v_id v) (v_nwid v) org) (\<lambda>name.
         if row_at (v_nwid v) (v_id v) (ms_rows s) \<noteq> None then Inr s
         else rbind (ensure (find_network (v_nwid v) (se_db env) \<noteq> None) NoNetwork) (\<lambda>_.
              let row = new_row (ms_nextId s) (se_now env) (v_nwid v) (v_id v) name;
                  v' = v\<lparr>v_name := (if truthy name then name else v_name v)\<rparr>
              in rbind (notify env NodeAdded (v_id v)
                     (asc (''node.added:'' @ v_nwid v @ '':'' @ v_id v @ '':'' @ nat_str (ms_nextId s)))
                     (event_context env v' (v_nwid v) not_joined joined_list) (ms_out s)) (\<lambda>out.
                 Inr (s\<lparr>ms_rows := ms_rows s @ [row], ms_nextId := ms_nextId s + 1, ms_out := out,
                        ms_joins := ms_joins s @ (case org of None \<Rightarrow> [] | Some o' \<Rightarrow> [(o', v_id v, v_nwid v)])\<rparr>)))))"

section \<open>Caching a controller member\<close>

definition controllerCacheFields :: "member_detail \<Rightarrow> member_row \<Rightarrow> member_row" where
  "controllerCacheFields d m = m\<lparr>
     m_vMajor := Some (case md_vMajor d of None \<Rightarrow> - 1 | Some v \<Rightarrow> v),
     m_vMinor := Some (case md_vMinor d of None \<Rightarrow> - 1 | Some v \<Rightarrow> v),
     m_vRev := Some (case md_vRev d of None \<Rightarrow> - 1 | Some v \<Rightarrow> v),
     m_vProto := Some (case md_vProto d of None \<Rightarrow> - 1 | Some v \<Rightarrow> v),
     m_controllerName := Some (md_name d)\<rparr>"

definition cacheControllerMember :: "string \<Rightarrow> member_detail \<Rightarrow> member_row list \<Rightarrow> member_row list" where
  "cacheControllerMember nwid d rows =
     (if md_id d = [] then rows else update_rows nwid (md_id d) (controllerCacheFields d) rows)"

definition detail_ips :: "member_detail \<Rightarrow> string list" where
  "detail_ips d = (case md_ipAssignments d of None \<Rightarrow> [] | Some ips \<Rightarrow> ips)"

text \<open>The update of a fetched member; \<open>db\<close> is the row read at the start of the reconcile.\<close>

definition cache_detail :: "(string \<times> int) list \<Rightarrow> member_row option \<Rightarrow> member_detail \<Rightarrow> member_row \<Rightarrow> member_row" where
  "cache_detail revs db d m =
     (controllerCacheFields d m)\<lparr>
       m_authorized := Some (md_authorized d),
       m_ipAssignments := detail_ips d,
       m_noAutoAssignIps := md_noAutoAssignIps d,
       m_activeBridge := md_activeBridge d,
       m_address := Some (case md_address d of None \<Rightarrow> md_id d | Some a \<Rightarrow> a),
       m_revision := map_of revs (md_id d),
       m_name := (if \<not> named (case db of None \<Rightarrow> None | Some r \<Rightarrow> m_name r) \<and> named (md_name d)
                  then md_name d else m_name m)\<rparr>"

definition detail_event :: "member_row \<Rightarrow> member_detail \<Rightarrow> event_type option" where
  "detail_event db d =
     (if m_controllerName db = None then None
      else if (m_authorized db = Some True) \<noteq> md_authorized d
      then Some (if md_authorized d then NodeAuthorized else NodeDeauthorized)
      else if m_ipAssignments db \<noteq> detail_ips d \<or> m_noAutoAssignIps db \<noteq> md_noAutoAssignIps d
              \<or> m_activeBridge db \<noteq> md_activeBridge d
      then Some NodeConfigChanged else None)"

definition js_of :: "int option \<Rightarrow> js_num" where
  "js_of v = (case v of None \<Rightarrow> Undef | Some n \<Rightarrow> Val n)"

definition js_col :: "int option \<Rightarrow> js_num" where
  "js_col v = (case v of None \<Rightarrow> Null | Some n \<Rightarrow> Val n)"

text \<open>A controller object and a member row, as the event texts read them.\<close>

definition view_of_detail :: "member_detail \<Rightarrow> member_view" where
  "view_of_detail d =
     \<lparr>v_id = md_id d, v_nwid = md_nwid d, v_name = md_name d, v_description = None, v_authorized = md_authorized d,
      v_ipAssignments = detail_ips d, v_noAutoAssignIps = md_noAutoAssignIps d, v_activeBridge = md_activeBridge d,
      v_physicalAddress = None, v_vMajor = js_of (md_vMajor d), v_vMinor = js_of (md_vMinor d), v_vRev = js_of (md_vRev d),
      v_online = None, v_conStatus = None, v_lastSeen = None, v_lastOnlineAt = None, v_lastOfflineAt = None\<rparr>"

definition view_of_row :: "member_row \<Rightarrow> member_view" where
  "view_of_row m =
     \<lparr>v_id = m_id m, v_nwid = m_nwid m, v_name = m_name m, v_description = m_description m,
      v_authorized = (m_authorized m = Some True), v_ipAssignments = m_ipAssignments m,
      v_noAutoAssignIps = m_noAutoAssignIps m, v_activeBridge = m_activeBridge m,
      v_physicalAddress = m_physicalAddress m, v_vMajor = js_col (m_vMajor m), v_vMinor = js_col (m_vMinor m),
      v_vRev = js_col (m_vRev m), v_online = m_online m, v_conStatus = None, v_lastSeen = m_lastSeen m,
      v_lastOnlineAt = m_lastOnlineAt m, v_lastOfflineAt = m_lastOfflineAt m\<rparr>"

definition revision_text :: "(string \<times> int) list \<Rightarrow> string \<Rightarrow> string" where
  "revision_text revs i = js_num_text (js_of (map_of revs i))"

text \<open>One step of the loop over the fetched members: a new row first (failures are logged and ignored),
  then one transaction with the update and its event.\<close>

definition apply_detail ::
  "sync_env \<Rightarrow> string \<Rightarrow> (string \<times> int) list \<Rightarrow> member_row list \<Rightarrow> member_detail \<Rightarrow> member_state
     \<Rightarrow> member_state \<times> sync_error option" where
  "apply_detail env nwid revs dbRows d s =
     (let db = row_at nwid (md_id d) dbRows;
          s1 = (if db \<noteq> None then s else case addNetworkMember env (view_of_detail d) s of Inl _ \<Rightarrow> s | Inr s' \<Rightarrow> s');
          rows = update_rows nwid (md_id d) (cache_detail revs db d) (ms_rows s1)
      in case (case db of None \<Rightarrow> None | Some r \<Rightarrow> map_option (Pair r) (detail_event r d)) of
           None \<Rightarrow> (s1\<lparr>ms_rows := rows\<rparr>, None)
         | Some (r, ev) \<Rightarrow>
             (case notify env ev (md_id d)
                 (asc (event_name ev @ '':'' @ nwid @ '':'' @ md_id d @ '':'' @ revision_text revs (md_id d)))
                 (event_context env ((view_of_detail d)\<lparr>v_name := (if truthy (m_name r) then m_name r else md_name d)\<rparr>) nwid
                    (memberConfigSummary (view_of_row r)) (memberConfigSummary (view_of_detail d))) (ms_out s1) of
                Inl e \<Rightarrow> (s1, Some e)
              | Inr out \<Rightarrow> (s1\<lparr>ms_rows := rows, ms_out := out\<rparr>, None)))"

fun apply_details ::
  "sync_env \<Rightarrow> string \<Rightarrow> (string \<times> int) list \<Rightarrow> member_row list \<Rightarrow> member_detail list \<Rightarrow> member_state
     \<Rightarrow> member_state \<times> sync_error option" where
  "apply_details env nwid revs dbRows [] s = (s, None)"
| "apply_details env nwid revs dbRows (d # ds) s =
     (case apply_detail env nwid revs dbRows d s of
        (s1, Some e) \<Rightarrow> (s1, Some e)
      | (s1, None) \<Rightarrow> apply_details env nwid revs dbRows ds s1)"

section \<open>Fetching members\<close>

definition MEMBER_DETAIL_BATCH_SIZE :: nat where
  "MEMBER_DETAIL_BATCH_SIZE = 5"

function fetch_from :: "(string \<Rightarrow> member_detail option) \<Rightarrow> string list \<Rightarrow> nat \<Rightarrow> member_detail list \<Rightarrow> member_detail list" where
  "fetch_from details ids i results =
     (if i < length ids
      then let batch = take MEMBER_DETAIL_BATCH_SIZE (drop i ids)
           in fetch_from details ids (i + MEMBER_DETAIL_BATCH_SIZE) (results @ List.map_filter details batch)
      else results)"
  by pat_completeness auto
termination
  by (relation "measure (\<lambda>(_, ids, i, _). length ids - i)") (auto simp: MEMBER_DETAIL_BATCH_SIZE_def)

declare fetch_from.simps [simp del]

definition fetchMemberDetailsBatched :: "sync_env \<Rightarrow> string \<Rightarrow> string list \<Rightarrow> member_detail list" where
  "fetchMemberDetailsBatched env nwid ids = fetch_from (se_details env nwid) ids 0 []"

definition hidden :: "member_row \<Rightarrow> bool" where
  "hidden m \<longleftrightarrow> m_deleted m = Some True \<or> m_permanentlyDeleted m = Some True"

definition needs_fetch :: "bool \<Rightarrow> (string \<times> int) list \<Rightarrow> member_row list \<Rightarrow> string \<Rightarrow> bool" where
  "needs_fetch full revs rows i =
     (case find (\<lambda>m. m_id m = i) rows of
        None \<Rightarrow> True
      | Some db \<Rightarrow> \<not> hidden db \<and>
          (full \<or> m_vMajor db = None \<or> m_controllerName db = None
           \<or> m_revision db = None \<or> m_revision db \<noteq> map_of revs i))"

section \<open>Removing rows\<close>

definition network_member_text :: jstext where
  "network_member_text = [32593, 32476, 25104, 21592]"

definition removed_text :: jstext where
  "removed_text = [24050, 20174] @ asc '' Controller '' @ [31227, 38500]"

definition orphans :: "(string \<times> int) list \<Rightarrow> member_row list \<Rightarrow> member_row list" where
  "orphans revs rows = filter (\<lambda>m. m_id m \<notin> fst ` set revs \<and> \<not> hidden m) rows"

fun announce_removed :: "sync_env \<Rightarrow> string \<Rightarrow> member_row list \<Rightarrow> delivery list \<Rightarrow> sync_error + delivery list" where
  "announce_removed env nwid [] out = Inr out"
| "announce_removed env nwid (db # dbs) out =
     rbind (notify env NodeRemoved (m_id db)
              (asc (''node.removed:'' @ nwid @ '':'' @ m_id db @ '':'' @ nat_str (m_nodeid db)))
              (event_context env (view_of_row db) nwid network_member_text removed_text) out)
       (announce_removed env nwid dbs)"

definition remove_orphans :: "sync_env \<Rightarrow> string \<Rightarrow> member_row list \<Rightarrow> member_state \<Rightarrow> member_state \<times> sync_error option" where
  "remove_orphans env nwid gone s =
     (if gone = [] then (s, None)
      else case announce_removed env nwid gone (ms_out s) of
          Inl e \<Rightarrow> (s, Some e)
        | Inr out \<Rightarrow> (s\<lparr>ms_rows := filter (\<lambda>m. \<not> (m_nwid m = nwid \<and> m_id m \<in> m_id ` set gone)) (ms_rows s),
                        ms_out := out\<rparr>, None))"

section \<open>The served member\<close>

text \<open>The view after \<^verbatim>\<open>applyMemberVersion\<close>: a NULL version is -1, a live peer version replaces it.\<close>

definition applyMemberVersion :: "member_row \<Rightarrow> peers \<Rightarrow> member_view \<Rightarrow> member_view" where
  "applyMemberVersion m ps v =
     (let dflt = (\<lambda>c. Val (case c of None \<Rightarrow> - 1 | Some n \<Rightarrow> n))
      in if pr_versionMajor ps \<noteq> None \<and> pr_versionMajor ps \<noteq> Some (- 1)
         then v\<lparr>v_vMajor := js_of (pr_versionMajor ps), v_vMinor := js_of (pr_versionMinor ps), v_vRev := js_of (pr_versionRev ps)\<rparr>
         else v\<lparr>v_vMajor := dflt (m_vMajor m), v_vMinor := dflt (m_vMinor m), v_vRev := dflt (m_vRev m)\<rparr>)"

definition buildServedMember :: "addr_lib \<Rightarrow> member_row \<Rightarrow> peers \<Rightarrow> live_observation \<Rightarrow> member_view" where
  "buildServedMember lib db ps live =
     (let ob = observeMember lib db (Some ps) live; d = ob_patch ob
      in applyMemberVersion db ps ((view_of_row db)\<lparr>
           v_name := preferredMemberName (m_name db) (case m_controllerName db of None \<Rightarrow> None | Some n \<Rightarrow> n),
           v_physicalAddress := (case activePreferredPath (Some ps) of Some path \<Rightarrow> Some (pp_address path)
                                 | None \<Rightarrow> m_physicalAddress db),
           v_online := ob_online ob,
           v_conStatus := Some (ob_conStatus ob),
           v_lastSeen := put (d_lastSeen d) (if m_statusObservedAt db \<noteq> None then m_lastSeen db else None),
           v_lastOnlineAt := put (d_lastOnlineAt d) (m_lastOnlineAt db),
           v_lastOfflineAt := put (d_lastOfflineAt d) (m_lastOfflineAt db)\<rparr>))"

definition peers_of :: "member_row \<Rightarrow> live_observation \<Rightarrow> peers" where
  "peers_of db live = (case map_of (lo_peers live) (str_or (m_address db) (m_id db)) of None \<Rightarrow> no_peers | Some p \<Rightarrow> p)"

definition live_of :: "sync_env \<Rightarrow> string \<Rightarrow> live_observation" where
  "live_of env nwid = readLiveObservation (se_peers env) (se_status env nwid)"

definition attachLiveStatus :: "sync_env \<Rightarrow> member_row list \<Rightarrow> member_view list" where
  "attachLiveStatus env members =
     map (\<lambda>db. let live = live_of env (m_nwid db) in buildServedMember (se_lib env) db (peers_of db live) live) members"

section \<open>Writing the status back\<close>

text \<open>The version of a live peer; a property set to \<^verbatim>\<open>undefined\<close> is not written.\<close>

definition version_patch :: "member_row \<Rightarrow> peers \<Rightarrow> member_patch \<Rightarrow> member_patch" where
  "version_patch db ps d =
     d\<lparr>d_vMajor := (if m_vMajor db \<noteq> pr_versionMajor ps then pr_versionMajor ps else d_vMajor d),
       d_vMinor := (if m_vMinor db \<noteq> pr_versionMinor ps \<and> pr_versionMinor ps \<noteq> None then Some (pr_versionMinor ps) else d_vMinor d),
       d_vRev := (if m_vRev db \<noteq> pr_versionRev ps \<and> pr_versionRev ps \<noteq> None then Some (pr_versionRev ps) else d_vRev d)\<rparr>"

definition status_patch :: "addr_lib \<Rightarrow> member_row \<Rightarrow> live_observation \<Rightarrow> member_patch" where
  "status_patch lib db live =
     (let ps = peers_of db live; v = buildServedMember lib db ps live;
          d = ob_patch (observeMember lib db (Some ps) live);
          d1 = (if v_online v = Some True \<and> v_physicalAddress v \<noteq> m_physicalAddress db
                then d\<lparr>d_physicalAddress := Some (v_physicalAddress v)\<rparr> else d)
      in if v_online v = Some True \<and> (case pr_versionMajor ps of None \<Rightarrow> False | Some n \<Rightarrow> n \<ge> 0)
         then version_patch db ps d1 else d1)"

text \<open>The writes are independent transactions: a failing one leaves its rows alone and the others run.\<close>

definition write_status :: "sync_env \<Rightarrow> live_observation \<Rightarrow> member_row \<Rightarrow> member_state \<times> sync_error option
     \<Rightarrow> member_state \<times> sync_error option" where
  "write_status env live db r =
     (let ps = peers_of db live; d = status_patch (se_lib env) db live; s = fst r
      in if d = empty_patch then r
         else case persistObservedMember (se_notify env) (\<lambda>_. se_uuid env ''status'' (m_id db)) (se_now env) db
                     (buildServedMember (se_lib env) db ps live) d (ms_rows s, ms_out s) of
              Inl e \<Rightarrow> (s, case snd r of None \<Rightarrow> Some (TemplateFailed e) | Some e' \<Rightarrow> Some e')
            | Inr (rows, out) \<Rightarrow> (s\<lparr>ms_rows := rows, ms_out := out\<rparr>, snd r))"

section \<open>Reconciling\<close>

definition member_rows_of :: "string \<Rightarrow> member_row list \<Rightarrow> member_row list" where
  "member_rows_of nwid rows = filter (\<lambda>m. m_nwid m = nwid) rows"

definition active_rows :: "string \<Rightarrow> string list \<Rightarrow> member_row list \<Rightarrow> member_row list" where
  "active_rows nwid ids rows = filter (\<lambda>m. m_nwid m = nwid \<and> m_id m \<in> set ids \<and> m_deleted m = Some False) rows"

definition reconcile_config :: "sync_env \<Rightarrow> string \<Rightarrow> bool \<Rightarrow> (string \<times> int) list \<Rightarrow> member_state \<Rightarrow> member_state \<times> sync_error option" where
  "reconcile_config env nwid full revs s =
     (let dbRows = member_rows_of nwid (ms_rows s);
          details = fetchMemberDetailsBatched env nwid (filter (needs_fetch full revs dbRows) (map fst revs))
      in case apply_details env nwid revs dbRows details s of
           (s1, Some e) \<Rightarrow> (s1, Some e)
         | (s1, None) \<Rightarrow> remove_orphans env nwid (orphans revs dbRows) s1)"

definition reconcileNetworkMembers ::
  "sync_env \<Rightarrow> string \<Rightarrow> bool \<Rightarrow> member_state \<Rightarrow> member_state \<times> (sync_error + member_view list)" where
  "reconcileNetworkMembers env nwid full s =
     (case se_members env nwid of
        None \<Rightarrow> (s, Inl ControllerFailed)
      | Some revs \<Rightarrow>
          (case reconcile_config env nwid full revs s of
             (s1, Some e) \<Rightarrow> (s1, Inl e)
           | (s1, None) \<Rightarrow>
               (let live = live_of env nwid; active = active_rows nwid (map fst revs) (ms_rows s1);
                    (s2, err) = fold (write_status env live) active (s1, None)
                in (s2, case err of Some e \<Rightarrow> Inl e
                     | None \<Rightarrow> Inr (map (\<lambda>db. buildServedMember (se_lib env) db (peers_of db live) live) active)))))"

text \<open>The stripped row has no cached controller object.\<close>

definition serializeMemberRow :: "member_row \<Rightarrow> member_row" where
  "serializeMemberRow m = m\<lparr>m_controllerName := None\<rparr>"

definition fetchZombieMembers :: "string \<Rightarrow> string list \<Rightarrow> member_row list \<Rightarrow> member_row list" where
  "fetchZombieMembers nwid ids rows =
     map serializeMemberRow
       (List.map_filter (\<lambda>i. find (\<lambda>m. m_nwid m = nwid \<and> m_id m = i \<and> m_deleted m = Some True) rows) ids)"

section \<open>The direct synchronisation\<close>

text \<open>\<^verbatim>\<open>syncMemberPeersAndStatus\<close> writes every given member. The name is the stored one, else the
  controller's; an absent controller name keeps the merged value.\<close>

definition resolved_name :: "string option \<Rightarrow> string option \<Rightarrow> string option" where
  "resolved_name dbName ztName =
     (let merged = (case ztName of None \<Rightarrow> dbName | Some _ \<Rightarrow> ztName)
      in if named dbName then dbName
         else if \<not> truthy dbName \<and> named ztName then ztName
         else if truthy dbName \<and> \<not> truthy merged then dbName else merged)"

definition overlay :: "int option \<Rightarrow> js_num \<Rightarrow> js_num" where
  "overlay v old = (case v of None \<Rightarrow> old | Some n \<Rightarrow> Val n)"

text \<open>The database row overlaid with the controller's object.\<close>

definition merged_view :: "member_row option \<Rightarrow> member_detail \<Rightarrow> string option \<Rightarrow> member_view" where
  "merged_view db d pa =
     (case db of
        None \<Rightarrow> (view_of_detail d)\<lparr>v_physicalAddress := pa\<rparr>
      | Some r \<Rightarrow> (view_of_row r)\<lparr>v_nwid := md_nwid d, v_name := resolved_name (m_name r) (md_name d),
           v_authorized := md_authorized d,
           v_ipAssignments := (case md_ipAssignments d of None \<Rightarrow> m_ipAssignments r | Some ips \<Rightarrow> ips),
           v_noAutoAssignIps := md_noAutoAssignIps d, v_activeBridge := md_activeBridge d,
           v_physicalAddress := pa, v_vMajor := overlay (md_vMajor d) (js_col (m_vMajor r)),
           v_vMinor := overlay (md_vMinor d) (js_col (m_vMinor r)), v_vRev := overlay (md_vRev d) (js_col (m_vRev r))\<rparr>)"

definition sync_row :: "member_row option \<Rightarrow> member_detail \<Rightarrow> string option \<Rightarrow> bool option \<Rightarrow> member_patch \<Rightarrow> member_row \<Rightarrow> member_row" where
  "sync_row db d pa online patch m =
     (let dbName = (case db of None \<Rightarrow> None | Some r \<Rightarrow> m_name r); name = resolved_name dbName (md_name d);
          m1 = apply_patch patch (m\<lparr>m_address := put (md_address d) (m_address m), m_authorized := Some (md_authorized d)\<rparr>)
      in m1\<lparr>m_physicalAddress := (if online = Some True \<and> truthy pa then pa else m_physicalAddress m1),
            m_name := (if name \<noteq> dbName then name else m_name m1)\<rparr>)"

definition sync_member ::
  "sync_env \<Rightarrow> live_observation \<Rightarrow> member_row option \<Rightarrow> member_detail \<Rightarrow> member_state \<Rightarrow> member_view option \<times> member_state" where
  "sync_member env live db d s =
     (let ps = (case md_address d of None \<Rightarrow> None | Some a \<Rightarrow> map_of (lo_peers live) a);
          pa = (case activePreferredPath ps of Some path \<Rightarrow> Some (pp_address path)
                | None \<Rightarrow> (case db of None \<Rightarrow> None | Some r \<Rightarrow> m_physicalAddress r));
          ob = map_option (\<lambda>r. observeMember (se_lib env) r ps live) db;
          patch = (case ob of None \<Rightarrow> empty_patch | Some o' \<Rightarrow> ob_patch o');
          online = (case ob of None \<Rightarrow> None | Some o' \<Rightarrow> ob_online o');
          v = merged_view db d pa;
          s1 = (if row_at (md_nwid d) (md_id d) (ms_rows s) \<noteq> None
                then s\<lparr>ms_rows := update_rows (md_nwid d) (md_id d) (sync_row db d pa online patch) (ms_rows s)\<rparr>
                else case addNetworkMember env v s of Inl _ \<Rightarrow> s | Inr s' \<Rightarrow> s')
      in (map_option (\<lambda>o'. v\<lparr>v_online := online, v_conStatus := Some (ob_conStatus o'),
             v_lastSeen := put (d_lastSeen patch) (v_lastSeen v), v_lastOnlineAt := put (d_lastOnlineAt patch) (v_lastOnlineAt v),
             v_lastOfflineAt := put (d_lastOfflineAt patch) (v_lastOfflineAt v)\<rparr>) ob, s1))"

fun sync_members ::
  "sync_env \<Rightarrow> live_observation \<Rightarrow> member_row list \<Rightarrow> member_detail list \<Rightarrow> member_state \<Rightarrow> member_view list \<times> member_state" where
  "sync_members env live dbRows [] s = ([], s)"
| "sync_members env live dbRows (d # ds) s =
     (let (v, s1) = sync_member env live (find (\<lambda>m. m_id m = md_id d) dbRows) d s;
          (vs, s2) = sync_members env live dbRows ds s1
      in ((case v of None \<Rightarrow> vs | Some x \<Rightarrow> x # vs), s2))"

definition syncMemberPeersAndStatus ::
  "sync_env \<Rightarrow> string \<Rightarrow> member_detail list \<Rightarrow> member_state \<Rightarrow> member_view list \<times> member_state" where
  "syncMemberPeersAndStatus env nwid ds s =
     (if ds = [] then ([], s)
      else sync_members env (live_of env nwid) (active_rows nwid (map md_id ds) (ms_rows s)) ds s)"

definition rows_wf :: "member_row list \<Rightarrow> bool" where
  "rows_wf rows \<longleftrightarrow> distinct (map row_key rows)"

definition keeps_key :: "(member_row \<Rightarrow> member_row) \<Rightarrow> bool" where
  "keeps_key f \<longleftrightarrow> (\<forall>m. row_key (f m) = row_key m)"

definition env_ok :: "sync_env \<Rightarrow> bool" where
  "env_ok env \<longleftrightarrow> list_all template_ok (ne_templates (se_notify env))"

definition env_ready :: "sync_env \<Rightarrow> string \<Rightarrow> bool" where
  "env_ready env nwid \<longleftrightarrow> env_ok env \<and> find_network nwid (se_db env) \<noteq> None \<and> find_user (se_userId env) (se_db env) \<noteq> None"

text \<open>What a fetched member becomes: its stored row, or a new one, with the controller's configuration.\<close>

definition fetched_row :: "sync_env \<Rightarrow> string \<Rightarrow> (string \<times> int) list \<Rightarrow> member_row list \<Rightarrow> member_detail \<Rightarrow> member_row \<Rightarrow> bool" where
  "fetched_row env nwid revs dbRows d m = (case row_at nwid (md_id d) dbRows of
     Some r \<Rightarrow> m = cache_detail revs (Some r) d r
   | None \<Rightarrow> \<exists>nid name. m = cache_detail revs None d (new_row nid (se_now env) nwid (md_id d) name))"

text \<open>The documented behaviour of the controller's member endpoints: a member object carries the id and
  the network it was asked for, and the revision map has each member once.\<close>

definition controller_ok :: "sync_env \<Rightarrow> string \<Rightarrow> (string \<times> int) list \<Rightarrow> bool" where
  "controller_ok env nwid revs \<longleftrightarrow> distinct (map fst revs)
     \<and> (\<forall>i d. se_details env nwid i = Some d \<longrightarrow> md_id d = i \<and> md_nwid d = nwid)"

text \<open>The specification, per member id: the row after the configuration step, and after the status.\<close>

definition configured :: "sync_env \<Rightarrow> string \<Rightarrow> bool \<Rightarrow> (string \<times> int) list \<Rightarrow> member_row list \<Rightarrow> string \<Rightarrow> member_row option \<Rightarrow> bool" where
  "configured env nwid full revs rows j c \<longleftrightarrow>
     (case row_at nwid j rows of
        Some r \<Rightarrow>
          if j \<notin> fst ` set revs then c = (if hidden r then Some r else None)
          else if needs_fetch full revs (member_rows_of nwid rows) j
          then (case se_details env nwid j of Some d \<Rightarrow> c = Some (cache_detail revs (Some r) d r) | None \<Rightarrow> c = Some r)
          else c = Some r
      | None \<Rightarrow>
          if j \<notin> fst ` set revs then c = None
          else (case se_details env nwid j of None \<Rightarrow> c = None
                | Some d \<Rightarrow> \<exists>nid name. c = Some (cache_detail revs None d (new_row nid (se_now env) nwid j name))))"

definition settle :: "sync_env \<Rightarrow> string \<Rightarrow> (string \<times> int) list \<Rightarrow> member_row \<Rightarrow> member_row" where
  "settle env nwid revs m =
     (if m_id m \<in> fst ` set revs \<and> m_deleted m = Some False
      then apply_patch (status_patch (se_lib env) m (live_of env nwid)) m else m)"

definition demo_detail :: member_detail where
  "demo_detail = \<lparr>md_id = ''1234567890'', md_nwid = ''abcdef0123000001'', md_address = Some ''1234567890'', md_name = Some ''ctl'',
     md_authorized = True, md_ipAssignments = Some [''10.0.0.2''], md_noAutoAssignIps = False, md_activeBridge = False,
     md_vMajor = Some 1, md_vMinor = Some 14, md_vRev = Some 0, md_vProto = Some 12\<rparr>"

definition sync_db :: db where
  "sync_db = \<lparr>users = [\<lparr>u_id = ''u1'', u_name = ''n'', u_email = ''e'', u_role = USER, u_hash = None, u_firstTime = False,
       u_twoFactorEnabled = False, u_twoFactorSecret = None, u_failedLoginAttempts = 0, u_lastFailedLoginAttempt = None,
       u_requestChangePassword = False, u_userGroupId = None, u_expiresAt = None, u_isActive = True, u_lastLogin = 0\<rparr>],
     groups = [], accounts = [], devices = [],
     networks = [\<lparr>n_nwid = ''abcdef0123000001'', n_name = None, n_authorId = Some ''u1'', n_organizationId = None, n_routeTargets = []\<rparr>],
     org_roles = [], api_tokens = [], enableRegistration = None\<rparr>"

definition demo_sync :: sync_env where
  "demo_sync = \<lparr>se_db = sync_db, se_userId = ''u1'', se_options = None, se_orgRename = (\<lambda>_. False), se_notify = quiet_env,
     se_lib = demo_lib, se_networks = None, se_members = (\<lambda>_. Some [(''1234567890'', 5)]),
     se_details = (\<lambda>n i. if n = ''abcdef0123000001'' \<and> i = ''1234567890'' then Some demo_detail else None),
     se_peers = None, se_status = (\<lambda>_. None), se_uuid = (\<lambda>_ _. ''u''), se_now = 1000000\<rparr>"

abbreviation "demo_state \<equiv> \<lparr>ms_rows = [demo_member], ms_nextId = 2, ms_out = [], ms_joins = []\<rparr>"

text \<open>A cached row is up to date when writing the controller's current object into it changes nothing; this
  is what caching an object leaves behind.\<close>

definition cache_current :: "sync_env \<Rightarrow> string \<Rightarrow> (string \<times> int) list \<Rightarrow> member_row \<Rightarrow> bool" where
  "cache_current env nwid revs r = (case se_details env nwid (m_id r) of None \<Rightarrow> True
     | Some d \<Rightarrow> cache_detail revs (Some r) d r = r)"

text \<open>A fetched object that is already cached does nothing.\<close>

definition idle :: "string \<Rightarrow> (string \<times> int) list \<Rightarrow> member_row list \<Rightarrow> member_state \<Rightarrow> member_detail \<Rightarrow> bool" where
  "idle nwid revs dbRows s d \<longleftrightarrow> (\<exists>r. row_at nwid (md_id d) dbRows = Some r \<and> detail_event r d = None
     \<and> (\<forall>m\<in>set (ms_rows s). m_nwid m = nwid \<and> m_id m = md_id d \<longrightarrow> cache_detail revs (Some r) d m = m))"

section \<open>The batched fetch\<close>

lemma map_filter_append: "List.map_filter f (xs @ ys) = List.map_filter f xs @ List.map_filter f ys"
  by (simp add: List.map_filter_def)

lemma fetch_from_all: "fetch_from details ids i results = results @ List.map_filter details (drop i ids)"
proof (induction details ids i results rule: fetch_from.induct)
  case (1 details ids i results)
  have "drop i ids = take MEMBER_DETAIL_BATCH_SIZE (drop i ids) @ drop (i + MEMBER_DETAIL_BATCH_SIZE) ids"
    by (metis append_take_drop_id drop_drop add.commute)
  then have "List.map_filter details (drop i ids) = List.map_filter details (take MEMBER_DETAIL_BATCH_SIZE (drop i ids))
      @ List.map_filter details (drop (i + MEMBER_DETAIL_BATCH_SIZE) ids)"
    by (metis map_filter_append)
  then show ?case
    using 1 by (subst fetch_from.simps) (auto simp: Let_def List.map_filter_def)
qed

text \<open>The batched fetch of member details ends for every list of ids, and its result is that of asking the controller for
  each id in order: no member is skipped or repeated at a batch border.\<close>

theorem batched_fetch_is_plain_fetch:
  "fetchMemberDetailsBatched env nwid ids = List.map_filter (se_details env nwid) ids"
  by (simp add: fetchMemberDetailsBatched_def fetch_from_all)

lemmas fetched = fetch_from_all [where i = 0 and results = "[]", simplified]

section \<open>Lookups\<close>

lemma keeps_keyD: "keeps_key f \<Longrightarrow> m_nwid (f m) = m_nwid m" "keeps_key f \<Longrightarrow> m_id (f m) = m_id m"
  by (auto simp: keeps_key_def row_key_def)

lemma row_at_Some: "row_at nwid i rows = Some m \<Longrightarrow> m \<in> set rows \<and> m_nwid m = nwid \<and> m_id m = i"
  by (auto simp: row_at_def dest: find_Some_mem)

lemma row_at_None: "row_at nwid i rows = None \<longleftrightarrow> (nwid, i) \<notin> row_key ` set rows"
  by (auto simp: row_at_def find_None_all row_key_def image_iff)

lemma row_at_mem:
  assumes "rows_wf rows" "m \<in> set rows"
  shows "row_at (m_nwid m) (m_id m) rows = Some m"
  using assms find_unique[of row_key rows m] by (simp add: rows_wf_def row_at_def row_key_def)

lemma row_at_update:
  assumes "keeps_key f"
  shows "row_at n j (update_rows nwid i f rows) = map_option (if n = nwid \<and> j = i then f else id) (row_at n j rows)"
  unfolding row_at_def update_rows_def
  by (induction rows) (auto simp: keeps_keyD[OF assms])

lemma keys_update: "keeps_key f \<Longrightarrow> map row_key (update_rows nwid i f rows) = map row_key rows"
  by (simp add: update_rows_def keeps_key_def)

lemma row_at_append: "row_at n j (rows @ [m]) = (case row_at n j rows of Some r \<Rightarrow> Some r
    | None \<Rightarrow> if m_nwid m = n \<and> m_id m = j then Some m else None)"
  unfolding row_at_def by (induction rows) auto

lemma row_at_filter:
  assumes "\<And>m. m_nwid m = n \<Longrightarrow> m_id m = j \<Longrightarrow> P m = b"
  shows "row_at n j (filter P rows) = (if b then row_at n j rows else None)"
  unfolding row_at_def using assms by (induction rows) auto

lemma cache_keeps_key: "keeps_key (cache_detail revs db d)"
  by (simp add: keeps_key_def row_key_def cache_detail_def controllerCacheFields_def)

lemma patch_keeps_key: "keeps_key (apply_patch d)"
  by (simp add: keeps_key_def row_key_def apply_patch_def)

section \<open>No failures with valid templates\<close>

lemma notify_ok:
  assumes "env_ok env"
  obtains out' where "notify env ev i key context out = Inr out'"
  using assms enqueue_ok unfolding env_ok_def notify_def by (metis is_ok_iff sum.case(2))

lemma announce_removed_ok:
  assumes "env_ok env"
  shows "\<exists>out'. announce_removed env nwid gone out = Inr out'"
proof (induction gone arbitrary: out)
  case (Cons db gone)
  obtain out1 where "notify env NodeRemoved (m_id db)
      (asc (''node.removed:'' @ nwid @ '':'' @ m_id db @ '':'' @ nat_str (m_nodeid db)))
      (event_context env (view_of_row db) nwid network_member_text removed_text) out = Inr out1"
    using notify_ok[OF assms] by metis
  then show ?case using Cons.IH by simp
qed simp


section \<open>Adding and caching\<close>

lemma add_ready:
  assumes "env_ready env (v_nwid v)"
  obtains s' where "addNetworkMember env v s = Inr s'"
proof -
  have "\<exists>name. new_member_name env (ms_rows s) (v_id v) (v_nwid v) (member_org env (v_nwid v)) = Inr name"
    using assms unfolding env_ready_def new_member_name_def Let_def by (cases "member_org env (v_nwid v)") simp_all
  then obtain name where "new_member_name env (ms_rows s) (v_id v) (v_nwid v) (member_org env (v_nwid v)) = Inr name" ..
  moreover have "\<exists>out. notify env ev i key c (ms_out s) = Inr out" for ev i key c
    using assms notify_ok unfolding env_ready_def by metis
  ultimately have "\<exists>s'. addNetworkMember env v s = Inr s'"
    using assms by (auto simp: addNetworkMember_def Let_def env_ready_def rbind_Inr_iff)
  then show thesis using that by blast
qed

lemma add_rows:
  assumes "addNetworkMember env v s = Inr s'"
  shows "if row_at (v_nwid v) (v_id v) (ms_rows s) = None
    then \<exists>name. ms_rows s' = ms_rows s @ [new_row (ms_nextId s) (se_now env) (v_nwid v) (v_id v) name]
    else s' = s"
  using assms by (auto simp: addNetworkMember_def Let_def rbind_Inr_iff intro!: exI)

lemma new_row_key [simp]: "m_nwid (new_row k t n i nm) = n" "m_id (new_row k t n i nm) = i"
  "row_key (new_row k t n i nm) = (n, i)"
  by (simp_all add: new_row_def row_key_def)

text \<open>The rows one fetched member leaves behind.\<close>

lemma apply_detail_rows:
  assumes "env_ready env nwid" "md_nwid d = nwid" "row_at nwid (md_id d) dbRows = row_at nwid (md_id d) (ms_rows s)"
  obtains s' where "apply_detail env nwid revs dbRows d s = (s', None)"
    "ms_rows s' = update_rows nwid (md_id d) (cache_detail revs (row_at nwid (md_id d) dbRows) d) (ms_rows s)
     \<or> row_at nwid (md_id d) (ms_rows s) = None \<and> (\<exists>nid name. ms_rows s' =
         update_rows nwid (md_id d) (cache_detail revs None d) (ms_rows s @ [new_row nid (se_now env) nwid (md_id d) name]))"
    "row_at nwid (md_id d) (ms_rows s') \<noteq> None"
proof -
  have v: "v_nwid (view_of_detail d) = nwid" "v_id (view_of_detail d) = md_id d"
    using assms(2) by (simp_all add: view_of_detail_def)
  have n: "\<exists>out. notify env ev i key c o' = Inr out" for ev i key c o'
    using assms(1) notify_ok unfolding env_ready_def by metis
  show thesis
  proof (cases "row_at nwid (md_id d) dbRows")
    case None
    obtain s1 where s1: "addNetworkMember env (view_of_detail d) s = Inr s1"
      using add_ready assms(1) v(1) by metis
    obtain name where "ms_rows s1 = ms_rows s @ [new_row (ms_nextId s) (se_now env) nwid (md_id d) name]"
      using add_rows[OF s1] None assms(3) v by auto
    moreover have "apply_detail env nwid revs dbRows d s =
        (s1\<lparr>ms_rows := update_rows nwid (md_id d) (cache_detail revs None d) (ms_rows s1)\<rparr>, None)"
      using None s1 by (simp add: apply_detail_def)
    ultimately show thesis
      using None assms(3) that by (simp add: row_at_update[OF cache_keeps_key] row_at_append) blast
  next
    case (Some r)
    then show thesis
    proof (cases "detail_event r d")
      case None
      with Some assms(3) show thesis
        by (intro that) (auto simp: apply_detail_def Let_def row_at_update[OF cache_keeps_key])
    next
      case ev: (Some ev)
      obtain out where "notify env ev (md_id d)
           (asc (event_name ev @ '':'' @ nwid @ '':'' @ md_id d @ '':'' @ revision_text revs (md_id d)))
           (event_context env ((view_of_detail d)\<lparr>v_name := (if truthy (m_name r) then m_name r else md_name d)\<rparr>) nwid
              (memberConfigSummary (view_of_row r)) (memberConfigSummary (view_of_detail d))) (ms_out s) = Inr out"
        using n by blast
      with ev Some assms(3) show thesis
        by (intro that[of "s\<lparr>ms_rows := update_rows nwid (md_id d) (cache_detail revs (Some r) d) (ms_rows s), ms_out := out\<rparr>"])
          (simp_all add: apply_detail_def row_at_update[OF cache_keeps_key])
    qed
  qed
qed

lemma update_rows_wf: "keeps_key f \<Longrightarrow> rows_wf (update_rows nwid i f rows) = rows_wf rows"
  by (simp add: rows_wf_def keys_update)

lemma apply_detail_lookup:
  assumes "env_ready env nwid" "md_nwid d = nwid" "row_at nwid (md_id d) dbRows = row_at nwid (md_id d) (ms_rows s)"
    and "rows_wf (ms_rows s)"
  obtains s' m where "apply_detail env nwid revs dbRows d s = (s', None)" "rows_wf (ms_rows s')"
    "row_at nwid (md_id d) (ms_rows s') = Some m" "fetched_row env nwid revs dbRows d m"
    "\<And>n j. (n, j) \<noteq> (nwid, md_id d) \<Longrightarrow> row_at n j (ms_rows s') = row_at n j (ms_rows s)"
proof -
  obtain s' where s': "apply_detail env nwid revs dbRows d s = (s', None)" "row_at nwid (md_id d) (ms_rows s') \<noteq> None"
    and r: "ms_rows s' = update_rows nwid (md_id d) (cache_detail revs (row_at nwid (md_id d) dbRows) d) (ms_rows s)
     \<or> row_at nwid (md_id d) (ms_rows s) = None \<and> (\<exists>nid name. ms_rows s' =
         update_rows nwid (md_id d) (cache_detail revs None d) (ms_rows s @ [new_row nid (se_now env) nwid (md_id d) name]))"
    using apply_detail_rows[OF assms(1-3)] by metis
  obtain m where m: "row_at nwid (md_id d) (ms_rows s') = Some m" using s'(2) by blast
  note simps = row_at_update[OF cache_keeps_key] row_at_append update_rows_wf[OF cache_keeps_key]
  have "rows_wf (ms_rows s')"
    using r assms(4) by (auto simp: simps) (auto simp: rows_wf_def row_at_None)
  moreover have "fetched_row env nwid revs dbRows d m"
    using r m assms(3) by (auto simp: simps fetched_row_def split: option.splits intro!: exI)
  moreover have "row_at n j (ms_rows s') = row_at n j (ms_rows s)" if "(n, j) \<noteq> (nwid, md_id d)" for n j
    using r that by (auto simp: simps option.map_id split: option.split)
  ultimately show thesis using that s'(1) m by blast
qed

lemma apply_details_lookup:
  assumes "env_ready env nwid" "\<forall>d\<in>set ds. md_nwid d = nwid" "distinct (map md_id ds)" "rows_wf (ms_rows s)"
    and "\<forall>d\<in>set ds. row_at nwid (md_id d) dbRows = row_at nwid (md_id d) (ms_rows s)"
  shows "\<exists>s'. apply_details env nwid revs dbRows ds s = (s', None) \<and> rows_wf (ms_rows s')
    \<and> (\<forall>d\<in>set ds. \<exists>m. row_at nwid (md_id d) (ms_rows s') = Some m \<and> fetched_row env nwid revs dbRows d m)
    \<and> (\<forall>n j. n \<noteq> nwid \<or> j \<notin> md_id ` set ds \<longrightarrow> row_at n j (ms_rows s') = row_at n j (ms_rows s))"
  using assms(2-)
proof (induction ds arbitrary: s)
  case (Cons d ds)
  obtain s1 m where s1: "apply_detail env nwid revs dbRows d s = (s1, None)" "rows_wf (ms_rows s1)"
    "row_at nwid (md_id d) (ms_rows s1) = Some m" "fetched_row env nwid revs dbRows d m"
    "\<And>n j. (n, j) \<noteq> (nwid, md_id d) \<Longrightarrow> row_at n j (ms_rows s1) = row_at n j (ms_rows s)"
    using apply_detail_lookup[OF assms(1), of d dbRows s revs] Cons.prems by (metis list.set_intros(1))
  have "\<forall>d'\<in>set ds. row_at nwid (md_id d') dbRows = row_at nwid (md_id d') (ms_rows s1)"
  proof
    fix d' assume d': "d' \<in> set ds"
    then have "md_id d' \<noteq> md_id d" using Cons.prems(2) image_eqI[of "md_id d" md_id d'] by fastforce
    then show "row_at nwid (md_id d') dbRows = row_at nwid (md_id d') (ms_rows s1)"
      using Cons.prems(4) s1(5)[of nwid "md_id d'"] d' by simp
  qed
  moreover have "\<forall>d\<in>set ds. md_nwid d = nwid" "distinct (map md_id ds)" using Cons.prems by simp_all
  ultimately obtain s' where s': "apply_details env nwid revs dbRows ds s1 = (s', None)"
    "rows_wf (ms_rows s')"
    "\<forall>d\<in>set ds. \<exists>m. row_at nwid (md_id d) (ms_rows s') = Some m \<and> fetched_row env nwid revs dbRows d m"
    "\<forall>n j. n \<noteq> nwid \<or> j \<notin> md_id ` set ds \<longrightarrow> row_at n j (ms_rows s') = row_at n j (ms_rows s1)"
    using Cons.IH[of s1] s1(2) by blast
  have "row_at nwid (md_id d) (ms_rows s') = Some m" using s'(4) s1(3) Cons.prems(2) by simp
  moreover have "row_at n j (ms_rows s') = row_at n j (ms_rows s)" if "n \<noteq> nwid \<or> j \<notin> md_id ` set (d # ds)" for n j
    using s'(4) s1(5)[of n j] that by auto
  moreover have "apply_details env nwid revs dbRows (d # ds) s = (s', None)" using s'(1) s1(1) by simp
  ultimately show ?case using s'(2,3) s1(4) by (intro exI[of _ s']) simp
qed simp


section \<open>Writing the status\<close>

lemma enqueue_all_ok:
  assumes "list_all template_ok (ne_templates env)"
  shows "\<exists>out'. enqueue_all env uuid now evs out = Inr out'"
proof (induction evs arbitrary: out)
  case (Cons e evs)
  obtain ev key ct where e: "e = (ev, key, ct)" by (cases e)
  obtain out1 where "enqueueNotification (ne_fp env) (ne_options env) (ne_templates env) (uuid (length evs)) now ev key ct out = Inr out1"
    using enqueue_ok[OF assms] is_ok_iff by metis
  then show ?case using Cons.IH e by simp
qed simp

lemma wf_same_key:
  assumes "rows_wf rows" "m \<in> set rows" "m' \<in> set rows" "m_nwid m = m_nwid m'" "m_id m = m_id m'"
  shows "m = m'"
  using assms row_at_mem by (metis option.inject)

lemma persist_rows:
  assumes "list_all template_ok (ne_templates env)" "rows_wf rows" "db \<in> set rows"
  obtains out' where "persistObservedMember env uuid now db view d (rows, out)
    = Inr (update_rows (m_nwid db) (m_id db) (apply_patch d) rows, out')"
proof -
  have hit: "(same_member db m \<and> m_statusObservedAt m = m_statusObservedAt db) = (m_nwid m = m_nwid db \<and> m_id m = m_id db)"
    if "m \<in> set rows" for m
    using wf_same_key[OF assms(2) that assms(3)] by (auto simp: same_member_def)
  then have ex: "list_ex (\<lambda>m. same_member db m \<and> m_statusObservedAt m = m_statusObservedAt db) rows"
    using assms(3) by (auto simp: list_ex_iff)
  have "map (\<lambda>m. if same_member db m \<and> m_statusObservedAt m = m_statusObservedAt db then apply_patch d m else m) rows
      = update_rows (m_nwid db) (m_id db) (apply_patch d) rows"
    unfolding update_rows_def by (rule map_cong) (simp_all add: hit)
  moreover have "map (\<lambda>m. if same_member db m then apply_patch d m else m) rows
      = update_rows (m_nwid db) (m_id db) (apply_patch d) rows"
    by (simp add: update_rows_def same_member_def)
  moreover obtain out' where "enqueue_all env uuid now
      (map (\<lambda>ev. (ev, asc (event_name ev @ '':'' @ m_nwid db @ '':'' @ m_id db @ '':'') @ dateText (d_statusObservedAt d),
         nodeEventContext (ne_url env) now view (ne_networkName env (m_nwid db))
           (Some (case m_connectionStatus db of None \<Rightarrow> unknown_text | Some st \<Rightarrow> states st)) None))
        (statusEventTypes db (v_online view) d)) out = Inr out'"
    using enqueue_all_ok[OF assms(1)] by blast
  ultimately have "persistObservedMember env uuid now db view d (rows, out)
    = Inr (update_rows (m_nwid db) (m_id db) (apply_patch d) rows, if statusEventTypes db (v_online view) d = [] then out else out')"
    using ex by (simp add: persistObservedMember_def Let_def)
  then show thesis using that by blast
qed

lemma update_rows_id:
  assumes "rows_wf rows" "db \<in> set rows" "f db = db"
  shows "update_rows (m_nwid db) (m_id db) f rows = rows"
  unfolding update_rows_def using wf_same_key[OF assms(1) _ assms(2)] assms(3) by (intro map_idI) auto

lemma write_status_rows:
  assumes "env_ok env" "rows_wf (ms_rows s)" "db \<in> set (ms_rows s)"
  obtains s' where "write_status env live db (s, None) = (s', None)"
    "ms_rows s' = update_rows (m_nwid db) (m_id db) (apply_patch (status_patch (se_lib env) db live)) (ms_rows s)"
proof (cases "status_patch (se_lib env) db live = empty_patch")
  case True
  then show thesis using assms update_rows_id
    by (intro that[of s]) (simp_all add: write_status_def Let_def)
next
  case False
  obtain out' where "persistObservedMember (se_notify env) (\<lambda>_. se_uuid env ''status'' (m_id db)) (se_now env) db
      (buildServedMember (se_lib env) db (peers_of db live) live) (status_patch (se_lib env) db live) (ms_rows s, ms_out s)
    = Inr (update_rows (m_nwid db) (m_id db) (apply_patch (status_patch (se_lib env) db live)) (ms_rows s), out')"
    using persist_rows assms unfolding env_ok_def by metis
  with False show thesis
    by (intro that[of "s\<lparr>ms_rows := update_rows (m_nwid db) (m_id db) (apply_patch (status_patch (se_lib env) db live)) (ms_rows s),
        ms_out := out'\<rparr>"]) (simp_all add: write_status_def Let_def)
qed

lemma write_all_status:
  assumes "env_ok env" "rows_wf (ms_rows s)" "set dbs \<subseteq> set (ms_rows s)" "distinct (map row_key dbs)"
  shows "\<exists>s'. fold (write_status env live) dbs (s, None) = (s', None) \<and> rows_wf (ms_rows s')
    \<and> (\<forall>n j. row_at n j (ms_rows s') = map_option (\<lambda>m. if (n, j) \<in> row_key ` set dbs
          then apply_patch (status_patch (se_lib env) m live) m else m) (row_at n j (ms_rows s)))"
  using assms(2-)
proof (induction dbs arbitrary: s)
  case Nil
  then show ?case by (simp add: option.map_id[unfolded id_def])
next
  case (Cons db dbs)
  let ?f = "apply_patch (status_patch (se_lib env) db live)"
  obtain s1 where s1: "write_status env live db (s, None) = (s1, None)"
    "ms_rows s1 = update_rows (m_nwid db) (m_id db) ?f (ms_rows s)"
    using write_status_rows[OF assms(1) Cons.prems(1), of db live] Cons.prems(2) by auto
  have "rows_wf (ms_rows s1)" using Cons.prems(1) s1(2) by (simp add: update_rows_wf[OF patch_keeps_key])
  moreover have "set dbs \<subseteq> set (ms_rows s1)"
  proof
    fix m assume m: "m \<in> set dbs"
    then have "row_key m \<noteq> row_key db" using Cons.prems(3) by (auto simp: image_iff)
    with m Cons.prems(2) show "m \<in> set (ms_rows s1)"
      unfolding s1(2) update_rows_def row_key_def by (auto simp: image_iff)
  qed
  moreover have "distinct (map row_key dbs)" using Cons.prems(3) by simp
  ultimately obtain s' where s': "fold (write_status env live) dbs (s1, None) = (s', None)" "rows_wf (ms_rows s')"
    "\<forall>n j. row_at n j (ms_rows s') = map_option (\<lambda>m. if (n, j) \<in> row_key ` set dbs
          then apply_patch (status_patch (se_lib env) m live) m else m) (row_at n j (ms_rows s1))"
    using Cons.IH[of s1] by blast
  have db: "row_at (m_nwid db) (m_id db) (ms_rows s) = Some db"
    using Cons.prems(1,2) by (intro row_at_mem) auto
  have new: "row_key db \<notin> row_key ` set dbs" using Cons.prems(3) by simp
  have "row_at n j (ms_rows s') = map_option (\<lambda>m. if (n, j) \<in> row_key ` set (db # dbs)
          then apply_patch (status_patch (se_lib env) m live) m else m) (row_at n j (ms_rows s))" for n j
  proof (cases "(n, j) = row_key db")
    case True
    then have "n = m_nwid db" "j = m_id db" "(n, j) \<notin> row_key ` set dbs" using new by (simp_all add: row_key_def)
    then show ?thesis using s'(3) s1(2) db True by (simp add: row_at_update[OF patch_keeps_key])
  next
    case False
    then have "\<not> (n = m_nwid db \<and> j = m_id db)" by (simp add: row_key_def)
    then have "row_at n j (ms_rows s1) = row_at n j (ms_rows s)"
      using s1(2) by (auto simp: row_at_update[OF patch_keeps_key] option.map_id)
    then show ?thesis using s'(3) False by simp
  qed
  then show ?case using s' s1(1) by simp
qed


section \<open>What a reconcile does to every row\<close>

lemma find_network_rows: "find (\<lambda>m. m_id m = j) (member_rows_of nwid rows) = row_at nwid j rows"
  unfolding member_rows_of_def row_at_def by (induction rows) auto

lemma row_at_network_rows [simp]: "row_at nwid j (member_rows_of nwid rows) = row_at nwid j rows"
  unfolding member_rows_of_def row_at_def by (induction rows) auto

lemma needs_fetch_new: "row_at nwid j rows = None \<Longrightarrow> needs_fetch full revs (member_rows_of nwid rows) j"
  by (simp add: needs_fetch_def find_network_rows)

lemma mem_orphans:
  assumes "rows_wf rows"
  shows "j \<in> m_id ` set (orphans revs (member_rows_of nwid rows)) \<longleftrightarrow>
    (\<exists>r. row_at nwid j rows = Some r \<and> j \<notin> fst ` set revs \<and> \<not> hidden r)"
proof
  assume "j \<in> m_id ` set (orphans revs (member_rows_of nwid rows))"
  then obtain r where r: "r \<in> set rows" "m_nwid r = nwid" "m_id r = j" "j \<notin> fst ` set revs" "\<not> hidden r"
    unfolding orphans_def member_rows_of_def by auto
  with row_at_mem[OF assms r(1)] show "\<exists>r. row_at nwid j rows = Some r \<and> j \<notin> fst ` set revs \<and> \<not> hidden r" by auto
next
  assume "\<exists>r. row_at nwid j rows = Some r \<and> j \<notin> fst ` set revs \<and> \<not> hidden r"
  then show "j \<in> m_id ` set (orphans revs (member_rows_of nwid rows))"
    unfolding orphans_def member_rows_of_def using row_at_Some by fastforce
qed

lemma remove_orphans_rows:
  assumes "env_ok env"
  obtains s' where "remove_orphans env nwid gone s = (s', None)"
    "ms_rows s' = filter (\<lambda>m. \<not> (m_nwid m = nwid \<and> m_id m \<in> m_id ` set gone)) (ms_rows s)"
proof (cases "gone = []")
  case True
  then show thesis by (intro that[of s]) (simp_all add: remove_orphans_def)
next
  case False
  obtain out where "announce_removed env nwid gone (ms_out s) = Inr out" using announce_removed_ok[OF assms] by blast
  with False show thesis
    by (intro that[of "s\<lparr>ms_rows := filter (\<lambda>m. \<not> (m_nwid m = nwid \<and> m_id m \<in> m_id ` set gone)) (ms_rows s), ms_out := out\<rparr>"])
      (simp_all add: remove_orphans_def)
qed

lemma fetched_details:
  assumes "controller_ok env nwid revs"
    and "ds = fetchMemberDetailsBatched env nwid (filter P (map fst revs))"
  shows "distinct (map md_id ds)" "\<forall>d\<in>set ds. md_nwid d = nwid"
    "md_id ` set ds = {j \<in> fst ` set revs. P j \<and> se_details env nwid j \<noteq> None}"
    "\<forall>d\<in>set ds. se_details env nwid (md_id d) = Some d"
proof -
  have sane: "se_details env nwid i = Some d \<Longrightarrow> md_id d = i \<and> md_nwid d = nwid" for i d
    using assms(1) by (simp add: controller_ok_def)
  have ds: "ds = map (the \<circ> se_details env nwid) (filter (\<lambda>j. se_details env nwid j \<noteq> None) (filter P (map fst revs)))"
    unfolding assms(2) fetchMemberDetailsBatched_def fetched by (simp add: List.map_filter_def comp_def)
  have "map md_id ds = filter (\<lambda>j. se_details env nwid j \<noteq> None) (filter P (map fst revs))"
    unfolding ds by (rule trans[OF map_map map_idI]) (use sane in auto)
  then show "distinct (map md_id ds)" using assms(1) by (metis controller_ok_def distinct_filter)
  show "md_id ` set ds = {j \<in> fst ` set revs. P j \<and> se_details env nwid j \<noteq> None}"
    unfolding \<open>map md_id ds = _\<close>[THEN arg_cong[where f = set], simplified] by auto
  show "\<forall>d\<in>set ds. md_nwid d = nwid" "\<forall>d\<in>set ds. se_details env nwid (md_id d) = Some d"
    unfolding ds using sane by auto
qed


lemma reconcile_config_lookup:
  assumes "env_ready env nwid" "controller_ok env nwid revs" "rows_wf (ms_rows s)"
  obtains s' where "reconcile_config env nwid full revs s = (s', None)" "rows_wf (ms_rows s')"
    "\<And>j. configured env nwid full revs (ms_rows s) j (row_at nwid j (ms_rows s'))"
    "\<And>n j. n \<noteq> nwid \<Longrightarrow> row_at n j (ms_rows s') = row_at n j (ms_rows s)"
proof -
  let ?rows = "member_rows_of nwid (ms_rows s)"
  let ?gone = "m_id ` set (orphans revs ?rows)"
  define ds where "ds = fetchMemberDetailsBatched env nwid (filter (needs_fetch full revs ?rows) (map fst revs))"
  note ds = fetched_details[OF assms(2) ds_def]
  have "\<forall>d\<in>set ds. row_at nwid (md_id d) ?rows = row_at nwid (md_id d) (ms_rows s)" by simp
  then obtain s1 where s1: "apply_details env nwid revs ?rows ds s = (s1, None)" "rows_wf (ms_rows s1)"
    "\<forall>d\<in>set ds. \<exists>m. row_at nwid (md_id d) (ms_rows s1) = Some m \<and> fetched_row env nwid revs ?rows d m"
    "\<forall>n j. n \<noteq> nwid \<or> j \<notin> md_id ` set ds \<longrightarrow> row_at n j (ms_rows s1) = row_at n j (ms_rows s)"
    using apply_details_lookup[OF assms(1) ds(2,1) assms(3), of ?rows revs] by blast
  have ok: "env_ok env" using assms(1) by (simp add: env_ready_def)
  obtain s2 where s2: "remove_orphans env nwid (orphans revs ?rows) s1 = (s2, None)"
    "ms_rows s2 = filter (\<lambda>m. \<not> (m_nwid m = nwid \<and> m_id m \<in> ?gone)) (ms_rows s1)"
    using remove_orphans_rows[OF ok] by blast
  have at: "row_at n j (ms_rows s2) = (if \<not> (n = nwid \<and> j \<in> ?gone) then row_at n j (ms_rows s1) else None)" for n j
    unfolding s2(2) by (rule row_at_filter) simp
  have "configured env nwid full revs (ms_rows s) j (row_at nwid j (ms_rows s2))" for j
  proof (cases "j \<in> md_id ` set ds")
    case True
    then obtain d where d: "d \<in> set ds" "j = md_id d" by blast
    obtain m where m: "row_at nwid j (ms_rows s1) = Some m" "fetched_row env nwid revs ?rows d m" using s1(3) d by blast
    have j: "j \<in> fst ` set revs" "needs_fetch full revs ?rows j" "se_details env nwid j = Some d"
      using True ds(3,4) d by auto
    then have "row_at nwid j (ms_rows s2) = Some m" using at m(1) mem_orphans[OF assms(3)] by simp
    then show ?thesis using m(2) j d(2) unfolding configured_def fetched_row_def by (auto split: option.split)
  next
    case False
    then have "row_at nwid j (ms_rows s2) = (if j \<in> ?gone then None else row_at nwid j (ms_rows s))" using at s1(4) by simp
    moreover have "j \<in> fst ` set revs \<Longrightarrow> needs_fetch full revs ?rows j \<Longrightarrow> se_details env nwid j = None"
      using False ds(3) by auto
    ultimately show ?thesis
      unfolding configured_def mem_orphans[OF assms(3)] by (auto simp: needs_fetch_new split: option.split)
  qed
  moreover have "rows_wf (ms_rows s2)" using s1(2) unfolding s2(2) rows_wf_def by (simp add: distinct_map_filter)
  moreover have "row_at n j (ms_rows s2) = row_at n j (ms_rows s)" if "n \<noteq> nwid" for n j
    using at s1(4) that by simp
  moreover have "reconcile_config env nwid full revs s = (s2, None)"
    using s1(1) s2(1) unfolding reconcile_config_def ds_def by simp
  ultimately show thesis using that by blast
qed

lemma active_keys: "set (active_rows nwid ids rows) \<subseteq> set rows"
  "rows_wf rows \<Longrightarrow> distinct (map row_key (active_rows nwid ids rows))"
  by (auto simp: active_rows_def rows_wf_def distinct_map_filter)

lemma mem_active:
  assumes "rows_wf rows" "row_at n j rows = Some m"
  shows "(n, j) \<in> row_key ` set (active_rows nwid ids rows) \<longleftrightarrow> n = nwid \<and> j \<in> set ids \<and> m_deleted m = Some False"
proof -
  have m: "m \<in> set rows" "m_nwid m = n" "m_id m = j" using row_at_Some[OF assms(2)] by auto
  have "m' = m" if "m' \<in> set rows" "row_key m' = (n, j)" for m'
    using wf_same_key[OF assms(1) that(1) m(1)] that(2) m by (simp add: row_key_def)
  then show ?thesis using m unfolding active_rows_def by (force simp: row_key_def)
qed

lemma reconcile_lookup:
  assumes "se_members env nwid = Some revs" "env_ready env nwid" "controller_ok env nwid revs" "rows_wf (ms_rows s)"
    and "reconcileNetworkMembers env nwid full s = (s', res)"
  shows "is_ok res \<and> rows_wf (ms_rows s')
    \<and> (\<forall>j. \<exists>c. configured env nwid full revs (ms_rows s) j c
          \<and> row_at nwid j (ms_rows s') = map_option (settle env nwid revs) c)
    \<and> (\<forall>n j. n \<noteq> nwid \<longrightarrow> row_at n j (ms_rows s') = row_at n j (ms_rows s))"
proof -
  obtain s1 where s1: "reconcile_config env nwid full revs s = (s1, None)" "rows_wf (ms_rows s1)"
    "\<And>j. configured env nwid full revs (ms_rows s) j (row_at nwid j (ms_rows s1))"
    "\<And>n j. n \<noteq> nwid \<Longrightarrow> row_at n j (ms_rows s1) = row_at n j (ms_rows s)"
    using reconcile_config_lookup[OF assms(2-4)] by blast
  let ?active = "active_rows nwid (map fst revs) (ms_rows s1)"
  have ok: "env_ok env" using assms(2) by (simp add: env_ready_def)
  obtain s2 where s2: "fold (write_status env (live_of env nwid)) ?active (s1, None) = (s2, None)" "rows_wf (ms_rows s2)"
    "\<forall>n j. row_at n j (ms_rows s2) = map_option (\<lambda>m. if (n, j) \<in> row_key ` set ?active
       then apply_patch (status_patch (se_lib env) m (live_of env nwid)) m else m) (row_at n j (ms_rows s1))"
    using write_all_status[OF ok s1(2) active_keys(1) active_keys(2)[OF s1(2)]] by blast
  have s': "s' = s2" "is_ok res"
    using assms(5) s1(1) s2(1) by (auto simp: reconcileNetworkMembers_def assms(1) Let_def)
  have "row_at nwid j (ms_rows s2) = map_option (settle env nwid revs) (row_at nwid j (ms_rows s1))" for j
    using s2(3) mem_active[OF s1(2)] row_at_Some by (cases "row_at nwid j (ms_rows s1)") (auto simp: settle_def)
  moreover have "row_at n j (ms_rows s2) = row_at n j (ms_rows s)" if "n \<noteq> nwid" for n j
  proof -
    have "(n, j) \<notin> row_key ` set ?active" using that by (auto simp: active_rows_def row_key_def)
    then show ?thesis using s2(3) s1(4)[OF that, of j] by (simp add: option.map_ident)
  qed
  ultimately show ?thesis using s' s2(2) s1(3) by blast
qed


text \<open>C2. A reconcile implements its specification: with valid templates and a controller that answers the
  member list, it succeeds; every row of the network is then the configured row with its status written
  (fetched members carry the controller's configuration, rows the controller no longer has are gone, stashed
  rows are kept), rows of other networks are as before, and (network, id) stays a key.\<close>

theorem reconcile_meets_spec:
  assumes "se_members env nwid = Some revs" "env_ready env nwid" "controller_ok env nwid revs" "rows_wf (ms_rows s)"
  shows "case reconcileNetworkMembers env nwid full s of (s', res) \<Rightarrow>
      is_ok res \<and> rows_wf (ms_rows s')
    \<and> (\<forall>j. \<exists>c. configured env nwid full revs (ms_rows s) j c
          \<and> row_at nwid j (ms_rows s') = map_option (settle env nwid revs) c)
    \<and> (\<forall>n j. n \<noteq> nwid \<longrightarrow> row_at n j (ms_rows s') = row_at n j (ms_rows s))"
  using reconcile_lookup[OF assms] by (auto split: prod.split)

lemma demo_sync_ok:
  "se_members demo_sync n = Some [(''1234567890'', 5)]"
  "env_ready demo_sync ''abcdef0123000001''"
  "controller_ok demo_sync ''abcdef0123000001'' [(''1234567890'', 5)]"
  "rows_wf (ms_rows demo_state)"
  by (auto simp: demo_sync_def env_ready_def env_ok_def sync_db_def find_network_def find_user_def controller_ok_def
      demo_detail_def rows_wf_def)

theorem reconcile_meets_spec_witness:
  "case reconcileNetworkMembers demo_sync ''abcdef0123000001'' False demo_state of (s', res) \<Rightarrow> is_ok res \<and> rows_wf (ms_rows s')"
  using reconcile_meets_spec[OF demo_sync_ok(1-3), of demo_state False] demo_sync_ok(4) by (auto split: prod.split)

lemma status_keeps: "m_name (settle env nwid revs m) = m_name m" "m_deleted (settle env nwid revs m) = m_deleted m"
  by (simp_all add: settle_def apply_patch_def)

lemma stashed_settle: "m_deleted m = Some True \<Longrightarrow> settle env nwid revs m = m"
  by (simp add: settle_def)

lemma stashed_row_kept:
  assumes "se_members env nwid = Some revs" "env_ready env nwid" "controller_ok env nwid revs" "rows_wf (ms_rows s)"
    and "reconcileNetworkMembers env nwid full s = (s', res)" "row_at nwid j (ms_rows s) = Some r" "m_deleted r = Some True"
  shows "row_at nwid j (ms_rows s') = Some r"
proof -
  obtain c where c: "configured env nwid full revs (ms_rows s) j c"
    "row_at nwid j (ms_rows s') = map_option (settle env nwid revs) c"
    using reconcile_lookup[OF assms(1-5)] by blast
  have "hidden r" "\<not> needs_fetch full revs (member_rows_of nwid (ms_rows s)) j"
    using assms(6,7) by (simp_all add: needs_fetch_def find_network_rows hidden_def)
  then have "c = Some r" using c(1) assms(6) by (auto simp: configured_def split: if_split_asm)
  then show ?thesis using c(2) assms(7) by (simp add: stashed_settle)
qed

text \<open>What the administrator decided is not undone: a reconcile, full or incremental, leaves a stashed row
  exactly as it is, and a member with a name keeps it, whatever name the controller has, as long as the
  row is kept.\<close>

theorem reconcile_respects_users:
  assumes "se_members env nwid = Some revs" "env_ready env nwid" "controller_ok env nwid revs" "rows_wf (ms_rows s)"
    and "reconcileNetworkMembers env nwid full s = (s', res)" and "row_at nwid j (ms_rows s) = Some r"
  shows "(m_deleted r = Some True \<longrightarrow> row_at nwid j (ms_rows s') = Some r)
    \<and> (named (m_name r) \<longrightarrow> (case row_at nwid j (ms_rows s') of
          Some m \<Rightarrow> m_name m = m_name r | None \<Rightarrow> j \<notin> fst ` set revs \<and> \<not> hidden r))"
proof -
  obtain c where c: "configured env nwid full revs (ms_rows s) j c"
    "row_at nwid j (ms_rows s') = map_option (settle env nwid revs) c"
    using reconcile_lookup[OF assms(1-5)] by blast
  have "case c of Some m \<Rightarrow> m_name m = m_name r | None \<Rightarrow> j \<notin> fst ` set revs \<and> \<not> hidden r" if "named (m_name r)"
    using c(1) that assms(6)
    by (auto simp: configured_def cache_detail_def controllerCacheFields_def split: if_split_asm option.splits)
  then show ?thesis
    using c(2) stashed_row_kept[OF assms] by (cases c) (auto simp: status_keeps)
qed

theorem reconcile_respects_users_witness:
  "\<exists>s' res. reconcileNetworkMembers demo_sync ''abcdef0123000001'' True demo_state = (s', res)
     \<and> (case row_at ''abcdef0123000001'' ''1234567890'' (ms_rows s') of Some m \<Rightarrow> m_name m = Some ''nas'' | None \<Rightarrow> False)"
proof -
  obtain s' res where r: "reconcileNetworkMembers demo_sync ''abcdef0123000001'' True demo_state = (s', res)" by (meson surj_pair)
  have a: "row_at ''abcdef0123000001'' ''1234567890'' (ms_rows demo_state) = Some demo_member"
    by (simp add: row_at_def demo_member_def)
  have n: "named (m_name demo_member)" "m_name demo_member = Some ''nas''" by (code_simp, simp add: demo_member_def)
  show ?thesis
    using reconcile_respects_users[OF demo_sync_ok(1-4) r a] n r by (auto split: option.splits)
qed

section \<open>Incremental and full\<close>

lemma cache_detail_idem: "cache_detail revs (Some (cache_detail revs (Some r) d r)) d (cache_detail revs (Some r) d r) = cache_detail revs (Some r) d r"
  by (simp add: cache_detail_def controllerCacheFields_def)

lemma current_no_event: "cache_detail revs (Some r) d r = r \<Longrightarrow> detail_event r d = None"
proof -
  assume e: "cache_detail revs (Some r) d r = r"
  have "m_authorized r = Some (md_authorized d)" "m_ipAssignments r = detail_ips d"
    "m_noAutoAssignIps r = md_noAutoAssignIps d" "m_activeBridge r = md_activeBridge d"
    by (subst e[symmetric], simp add: cache_detail_def)+
  then show ?thesis by (simp add: detail_event_def)
qed


lemma idle_step: "idle nwid revs dbRows s d \<Longrightarrow> apply_detail env nwid revs dbRows d s = (s, None)"
proof -
  assume "idle nwid revs dbRows s d"
  then obtain r where r: "row_at nwid (md_id d) dbRows = Some r" "detail_event r d = None"
    "\<forall>m\<in>set (ms_rows s). m_nwid m = nwid \<and> m_id m = md_id d \<longrightarrow> cache_detail revs (Some r) d m = m"
    unfolding idle_def by blast
  have "update_rows nwid (md_id d) (cache_detail revs (Some r) d) (ms_rows s) = ms_rows s"
    unfolding update_rows_def using r(3) by (intro map_idI) auto
  then show ?thesis using r(1,2) by (simp add: apply_detail_def)
qed

lemma add_rows_of_state:
  assumes "addNetworkMember env v s = Inr s'" "m \<in> set (ms_rows s')"
  shows "m \<in> set (ms_rows s) \<or> m_id m = v_id v"
  using add_rows[OF assms(1)] assms(2) by (auto split: if_split_asm)

lemma apply_detail_other_rows:
  assumes "m \<in> set (ms_rows (fst (apply_detail env nwid revs dbRows d s)))" "m_id m \<noteq> md_id d"
  shows "m \<in> set (ms_rows s)"
proof -
  define s1 where "s1 = (if row_at nwid (md_id d) dbRows \<noteq> None then s
    else case addNetworkMember env (view_of_detail d) s of Inl _ \<Rightarrow> s | Inr s' \<Rightarrow> s')"
  have "m_id (cache_detail revs db d x) = m_id x" for db x
    using keeps_keyD(2)[OF cache_keeps_key] by blast
  then have "m \<in> set (ms_rows s1)"
    using assms unfolding apply_detail_def s1_def[symmetric] Let_def
    by (auto simp: update_rows_def split: option.split_asm sum.split_asm if_split_asm)
  then show ?thesis
    using assms(2) add_rows_of_state[of env "view_of_detail d" s] unfolding s1_def
    by (auto simp: view_of_detail_def split: if_split_asm sum.split_asm)
qed

lemma idle_kept:
  assumes "idle nwid revs dbRows s d" "md_id d \<noteq> md_id d'"
  shows "idle nwid revs dbRows (fst (apply_detail env nwid revs dbRows d' s)) d"
  using assms apply_detail_other_rows[of _ env nwid revs dbRows d' s] unfolding idle_def by (metis (no_types, lifting))

lemma skip_idle:
  assumes "distinct (map md_id ds)" "\<forall>d\<in>set ds. \<not> Q d \<longrightarrow> idle nwid revs dbRows s d"
  shows "apply_details env nwid revs dbRows (filter Q ds) s = apply_details env nwid revs dbRows ds s"
  using assms
proof (induction ds arbitrary: s)
  case (Cons d ds)
  have ne: "md_id d' \<noteq> md_id d" if "d' \<in> set ds" for d'
    using Cons.prems(1) that image_eqI[of "md_id d" md_id d'] by fastforce
  show ?case
  proof (cases "Q d")
    case True
    obtain s1 e where s1: "apply_detail env nwid revs dbRows d s = (s1, e)" by (meson surj_pair)
    have "\<forall>d'\<in>set ds. \<not> Q d' \<longrightarrow> idle nwid revs dbRows s1 d'"
      using idle_kept[of nwid revs dbRows s _ d env] ne Cons.prems(2) s1 by (metis fst_conv list.set_intros(2))
    then have "apply_details env nwid revs dbRows (filter Q ds) s1 = apply_details env nwid revs dbRows ds s1"
      using Cons.IH Cons.prems(1) by simp
    then show ?thesis using True s1 by (simp split: option.split)
  next
    case False
    then have "apply_detail env nwid revs dbRows d s = (s, None)" using Cons.prems(2) idle_step by (metis list.set_intros(1))
    then show ?thesis using False Cons by simp
  qed
qed simp

lemma filter_fetched:
  assumes "\<And>i d. f i = Some d \<Longrightarrow> md_id d = i" "\<And>i. N i \<Longrightarrow> T i"
  shows "List.map_filter f (filter N ids) = filter (\<lambda>d. N (md_id d)) (List.map_filter f (filter T ids))"
  using assms by (induction ids) (auto simp: List.map_filter_simps split: option.splits)

text \<open>A row that the controller has not changed since it was cached: shown, with a version and a controller
  object, and with the revision that the controller reports now.\<close>

definition unmoved :: "(string \<times> int) list \<Rightarrow> member_row \<Rightarrow> bool" where
  "unmoved revs r \<longleftrightarrow> \<not> hidden r \<and> m_vMajor r \<noteq> None \<and> m_controllerName r \<noteq> None
     \<and> m_revision r \<noteq> None \<and> m_revision r = map_of revs (m_id r)"

lemma unfetched_unmoved:
  assumes "rows_wf (ms_rows s)" "r \<in> set (member_rows_of nwid (ms_rows s))"
    and "needs_fetch True revs (member_rows_of nwid (ms_rows s)) (m_id r)"
    and "\<not> needs_fetch False revs (member_rows_of nwid (ms_rows s)) (m_id r)"
  shows "unmoved revs r"
proof -
  obtain db where db: "find (\<lambda>m. m_id m = m_id r) (member_rows_of nwid (ms_rows s)) = Some db"
    using assms(2) by (cases "find (\<lambda>m. m_id m = m_id r) (member_rows_of nwid (ms_rows s))") (auto simp: find_None_iff)
  then have d: "db \<in> set (member_rows_of nwid (ms_rows s))" "m_id db = m_id r" by (auto dest: find_Some_mem)
  then have "db = r" using assms(1,2) by (intro wf_same_key[OF assms(1)]) (auto simp: member_rows_of_def)
  with db assms(3,4) have "\<not> hidden r \<and> m_vMajor r \<noteq> None \<and> m_controllerName r \<noteq> None
      \<and> m_revision r \<noteq> None \<and> \<not> m_revision r \<noteq> map_of revs (m_id r)"
    by (simp add: needs_fetch_def del: not_None_eq) metis
  then show ?thesis unfolding unmoved_def by blast
qed

text \<open>C17. The incremental reconcile is the full one: when every shown row that has a version, a controller object
  and the revision that the controller reports now holds what the controller would answer, fetching only new
  and changed members ends in the same state, with the same notifications and the same served list, as fetching
  every member.\<close>

theorem incremental_equals_full:
  assumes "se_members env nwid = Some revs" "controller_ok env nwid revs" "rows_wf (ms_rows s)"
    and "\<forall>r\<in>set (member_rows_of nwid (ms_rows s)). unmoved revs r \<longrightarrow> cache_current env nwid revs r"
  shows "reconcileNetworkMembers env nwid False s = reconcileNetworkMembers env nwid True s"
proof -
  let ?rows = "member_rows_of nwid (ms_rows s)"
  let ?need = "needs_fetch False revs ?rows"
  define ds where "ds = fetchMemberDetailsBatched env nwid (filter (needs_fetch True revs ?rows) (map fst revs))"
  note ds = fetched_details[OF assms(2) ds_def]
  have ds_needed: "needs_fetch True revs ?rows (md_id d)" if "d \<in> set ds" for d
    using that assms(2) unfolding ds_def fetchMemberDetailsBatched_def fetched
    by (auto simp: List.map_filter_def controller_ok_def)
  have sub: "?need j \<Longrightarrow> needs_fetch True revs ?rows j" for j
    by (auto simp: needs_fetch_def split: option.split)
  have "fetchMemberDetailsBatched env nwid (filter ?need (map fst revs)) = filter (\<lambda>d. ?need (md_id d)) ds"
    unfolding ds_def fetchMemberDetailsBatched_def fetched
    using filter_fetched[of "se_details env nwid" ?need "needs_fetch True revs ?rows"] assms(2) sub
    by (simp add: controller_ok_def)
  moreover have "idle nwid revs ?rows s d" if d: "d \<in> set ds" "\<not> ?need (md_id d)" for d
  proof -
    obtain m where m: "row_at nwid (md_id d) (ms_rows s) = Some m"
      using needs_fetch_new d(2) by (cases "row_at nwid (md_id d) (ms_rows s)") auto
    then have mem: "m \<in> set (ms_rows s)" "m_nwid m = nwid" "m_id m = md_id d" using row_at_Some by auto
    then have row: "m \<in> set (member_rows_of nwid (ms_rows s))" by (simp add: member_rows_of_def)
    have "needs_fetch True revs ?rows (md_id d)" using ds_needed d(1) by blast
    then have "unmoved revs m" using unfetched_unmoved[OF assms(3) row] d(2) mem(3) by simp
    then have "cache_current env nwid revs m" using assms(4) row by blast
    then have c: "cache_detail revs (Some m) d m = m" using ds(4) d(1) mem(3) by (simp add: cache_current_def)
    moreover have "m' = m" if "m' \<in> set (ms_rows s)" "m_nwid m' = nwid" "m_id m' = md_id d" for m'
      using wf_same_key[OF assms(3) that(1) mem(1)] that mem by simp
    ultimately show ?thesis using m current_no_event[OF c] by (auto simp: idle_def)
  qed
  ultimately have "reconcile_config env nwid False revs s = reconcile_config env nwid True revs s"
    unfolding reconcile_config_def Let_def ds_def[symmetric]
    using skip_idle[OF ds(1), of "\<lambda>d. ?need (md_id d)" nwid revs ?rows s env] by simp
  then show ?thesis by (simp add: reconcileNetworkMembers_def assms(1))
qed


theorem incremental_equals_full_witness:
  "reconcileNetworkMembers demo_sync ''abcdef0123000001'' False
       (demo_state\<lparr>ms_rows := [cache_detail [(''1234567890'', 5)] (Some demo_member) demo_detail demo_member]\<rparr>)
   = reconcileNetworkMembers demo_sync ''abcdef0123000001'' True
       (demo_state\<lparr>ms_rows := [cache_detail [(''1234567890'', 5)] (Some demo_member) demo_detail demo_member]\<rparr>)"
proof (rule incremental_equals_full[OF demo_sync_ok(1,3)])
  let ?r = "cache_detail [(''1234567890'', 5)] (Some demo_member) demo_detail demo_member"
  have k: "m_id ?r = ''1234567890''" "m_nwid ?r = ''abcdef0123000001''" using keeps_keyD[OF cache_keeps_key] by (simp_all add: demo_member_def)
  show "rows_wf (ms_rows (demo_state\<lparr>ms_rows := [?r]\<rparr>))" by (simp add: rows_wf_def)
  have "cache_current demo_sync ''abcdef0123000001'' [(''1234567890'', 5)] ?r"
    using k cache_detail_idem by (simp add: cache_current_def demo_sync_def)
  then show "\<forall>r\<in>set (member_rows_of ''abcdef0123000001'' (ms_rows (demo_state\<lparr>ms_rows := [?r]\<rparr>))).
    unmoved [(''1234567890'', 5)] r
      \<longrightarrow> cache_current demo_sync ''abcdef0123000001'' [(''1234567890'', 5)] r"
    by (simp add: member_rows_of_def)
qed

text \<open>A new member's name: the controller's name replaces the one the naming policy has just chosen.\<close>

lemma policy_name_replaced:
  assumes "named (md_name d)"
  shows "m_name (cache_detail revs None d (new_row nid now nwid i (Some policyName))) = md_name d"
  using assms by (simp add: cache_detail_def named_def)

text \<open>(network, id) is a key, the autoincrement id is a key and below the counter.\<close>

definition table_wf :: "member_state \<Rightarrow> bool" where
  "table_wf s \<longleftrightarrow> rows_wf (ms_rows s) \<and> distinct (map m_nodeid (ms_rows s)) \<and> (\<forall>m\<in>set (ms_rows s). m_nodeid m < ms_nextId s)"

text \<open>Updates that leave both keys alone.\<close>

definition keeps_keys :: "(member_row \<Rightarrow> member_row) \<Rightarrow> bool" where
  "keeps_keys f \<longleftrightarrow> (\<forall>m. row_key (f m) = row_key m \<and> m_nodeid (f m) = m_nodeid m)"

section \<open>The member table stays well formed\<close>

lemma keeps_keysD [simp]:
  assumes "keeps_keys f"
  shows "row_key (f m) = row_key m" "m_nodeid (f m) = m_nodeid m"
  using assms by (simp_all add: keeps_keys_def)

lemma map_wf:
  assumes "table_wf s" "\<And>m. row_key (g m) = row_key m" "\<And>m. m_nodeid (g m) = m_nodeid m"
  shows "table_wf (s\<lparr>ms_rows := map g (ms_rows s)\<rparr>)"
  using assms by (simp add: table_wf_def rows_wf_def comp_def)

lemma table_wf_out [simp]: "table_wf (s\<lparr>ms_out := x\<rparr>) = table_wf s" "table_wf (s\<lparr>ms_rows := r, ms_out := x\<rparr>) = table_wf (s\<lparr>ms_rows := r\<rparr>)"
  by (simp_all add: table_wf_def)

lemma update_wf: "table_wf s \<Longrightarrow> keeps_keys f \<Longrightarrow> table_wf (s\<lparr>ms_rows := update_rows nwid i f (ms_rows s)\<rparr>)"
  unfolding update_rows_def by (rule map_wf) auto

lemma filter_wf: "table_wf s \<Longrightarrow> table_wf (s\<lparr>ms_rows := filter P (ms_rows s)\<rparr>)"
  by (auto simp: table_wf_def rows_wf_def distinct_map_filter)

lemma writers_keep_keys: "keeps_keys (cache_detail revs db d)" "keeps_keys (controllerCacheFields d)"
  "keeps_keys (apply_patch p)" "keeps_keys (sync_row r d pa online patch)"
  by (simp_all add: keeps_keys_def row_key_def cache_detail_def controllerCacheFields_def apply_patch_def sync_row_def Let_def)

lemma append_wf:
  assumes "table_wf s" "row_at nwid i (ms_rows s) = None"
  shows "table_wf (s\<lparr>ms_rows := ms_rows s @ [new_row (ms_nextId s) now nwid i name], ms_nextId := ms_nextId s + 1, ms_out := out, ms_joins := js\<rparr>)"
proof -
  have "m_nodeid (new_row (ms_nextId s) now nwid i name) = ms_nextId s" by (simp add: new_row_def)
  moreover have "\<forall>m\<in>set (ms_rows s). m_nodeid m \<noteq> ms_nextId s" using assms(1) by (auto simp: table_wf_def)
  ultimately show ?thesis using assms by (auto simp: table_wf_def rows_wf_def row_at_None image_iff less_Suc_eq)
qed

lemma add_wf: "table_wf s \<Longrightarrow> addNetworkMember env v s = Inr s' \<Longrightarrow> table_wf s'"
  using append_wf unfolding addNetworkMember_def Let_def rbind_Inr_iff
  by (elim exE conjE) (auto simp: rbind_Inr_iff split: if_split_asm)

lemma apply_detail_wf: "table_wf s \<Longrightarrow> table_wf (fst (apply_detail env nwid revs dbRows d s))"
  by (auto simp: apply_detail_def Let_def update_wf writers_keep_keys split: option.split sum.split dest: add_wf)

lemma apply_details_wf: "table_wf s \<Longrightarrow> table_wf (fst (apply_details env nwid revs dbRows ds s))"
proof (induction ds arbitrary: s)
  case (Cons d ds)
  obtain s1 e where s1: "apply_detail env nwid revs dbRows d s = (s1, e)" by (meson surj_pair)
  then have "table_wf s1" using apply_detail_wf[OF Cons.prems] by (metis fst_conv)
  then show ?case using Cons.IH s1 by (cases e) simp_all
qed simp

lemma remove_orphans_wf: "table_wf s \<Longrightarrow> table_wf (fst (remove_orphans env nwid gone s))"
  by (auto simp: remove_orphans_def filter_wf split: sum.split)

lemma persist_map:
  assumes "persistObservedMember env uuid now db view d (rows, out) = Inr (rows', out')"
  shows "rows' = rows \<or> (\<exists>hit. rows' = map (\<lambda>m. if hit m then apply_patch d m else m) rows)"
  using assms by (auto simp: persistObservedMember_def Let_def rbind_Inr_iff split: if_split_asm)

lemma write_status_wf:
  assumes "table_wf (fst r)"
  shows "table_wf (fst (write_status env live db r))"
proof -
  have "table_wf ((fst r)\<lparr>ms_rows := rows\<rparr>)"
    if "persistObservedMember nenv uuid now db view d (ms_rows (fst r), ms_out (fst r)) = Inr (rows, out)" for nenv uuid now view d rows out
    using persist_map[OF that] assms map_wf[OF assms] writers_keep_keys(3)[of d] by (elim disjE exE) simp_all
  then show ?thesis using assms by (auto simp: write_status_def Let_def split: sum.split prod.split)
qed

lemma write_all_wf: "table_wf (fst r) \<Longrightarrow> table_wf (fst (fold (write_status env live) dbs r))"
proof (induction dbs arbitrary: r)
  case (Cons db dbs)
  then show ?case using write_status_wf[OF Cons.prems] by simp
qed simp

lemma reconcile_config_wf: "table_wf s \<Longrightarrow> table_wf (fst (reconcile_config env nwid full revs s))"
proof -
  assume s: "table_wf s"
  let ?rows = "member_rows_of nwid (ms_rows s)"
  obtain s1 e where s1: "apply_details env nwid revs ?rows
      (fetchMemberDetailsBatched env nwid (filter (needs_fetch full revs ?rows) (map fst revs))) s = (s1, e)" by (meson surj_pair)
  then have "table_wf s1" using apply_details_wf[OF s] by (metis fst_conv)
  then show ?thesis using s1 by (cases e) (simp_all add: reconcile_config_def remove_orphans_wf)
qed

lemma sync_member_wf: "table_wf s \<Longrightarrow> table_wf (snd (sync_member env live db d s))"
  by (auto simp: sync_member_def Let_def update_wf writers_keep_keys split: sum.split dest: add_wf)

lemma sync_members_wf: "table_wf s \<Longrightarrow> table_wf (snd (sync_members env live dbRows ds s))"
proof (induction ds arbitrary: s)
  case (Cons d ds)
  then show ?case using sync_member_wf[OF Cons.prems] by (simp add: case_prod_beta Let_def)
qed simp

text \<open>Every operation of the member service keeps the table well formed, whatever the controller answers and
  whether or not it fails half way: adding a member, the reconcile, the direct synchronisation and the
  write-through of a controller object keep (network, id) and the row id unique.\<close>

theorem member_table_stays_wf:
  assumes "table_wf s"
  shows "table_wf (fst (reconcileNetworkMembers env nwid full s))
    \<and> table_wf (snd (syncMemberPeersAndStatus env nwid ds s))
    \<and> table_wf (s\<lparr>ms_rows := cacheControllerMember nwid d (ms_rows s)\<rparr>)
    \<and> (case addNetworkMember env v s of Inl _ \<Rightarrow> True | Inr s' \<Rightarrow> table_wf s')"
proof -
  have "table_wf (fst (reconcileNetworkMembers env nwid full s))"
  proof (cases "se_members env nwid")
    case (Some revs)
    obtain s1 e where s1: "reconcile_config env nwid full revs s = (s1, e)" by (meson surj_pair)
    then have "table_wf s1" using reconcile_config_wf[OF assms] by (metis fst_conv)
    then have "table_wf (fst (fold (write_status env live) dbs (s1, None)))" for live dbs by (simp add: write_all_wf)
    then show ?thesis using s1 Some \<open>table_wf s1\<close>
      by (auto simp: reconcileNetworkMembers_def Let_def case_prod_beta split: option.split)
  qed (simp add: reconcileNetworkMembers_def assms)
  moreover have "table_wf (s\<lparr>ms_rows := cacheControllerMember nwid d (ms_rows s)\<rparr>)"
    using assms update_wf[OF assms writers_keep_keys(2)] by (simp add: cacheControllerMember_def)
  ultimately show ?thesis
    using assms sync_members_wf add_wf[OF assms] by (auto simp: syncMemberPeersAndStatus_def split: sum.split)
qed

theorem member_table_stays_wf_witness: "table_wf demo_state \<and> table_wf (fst (reconcileNetworkMembers demo_sync ''abcdef0123000001'' True demo_state))"
proof -
  have "table_wf demo_state" by (simp add: table_wf_def rows_wf_def demo_member_def)
  from member_table_stays_wf[OF this] this show ?thesis by blast
qed

end
