(* ===== verification/Member_Procedures.thy ===== *)
theory Member_Procedures
  imports Members Organizations
begin

text \<open>
  The procedures people call on the members of a network (\<^verbatim>\<open>server/api/routers/memberRouter.ts\<close>): adding,
  changing, tagging, stashing and deleting members.

  The state is the member table with the outbox (\<open>member_state\<close>), the requests sent to the controller in
  their order, the activity log, the labels of members and the organisations that have a settings row. The environment extends the one of the member
  service: the controller's answers (\<open>None\<close>: the request was rejected), the JSON text of an input in the log,
  the organisations that exist, and the address tests. Webhooks and administrator mails come after the
  changes and their failures are swallowed; they are not part of the state.
\<close>

section \<open>Data\<close>

record update_params =
  pm_name :: "string option"
  pm_description :: "string option"
  pm_activeBridge :: "bool option"
  pm_noAutoAssignIps :: "bool option"
  pm_ipAssignments :: "string list option"
  pm_authorized :: "bool option"
  pm_capabilities :: "int list option"
  pm_tags :: "(int \<times> int) list option"

datatype ctl_call = MemberUpdate bool string string update_params | MemberUnhide bool string string | MemberDelete bool string string

fun call_network :: "ctl_call \<Rightarrow> string" where
  "call_network (MemberUpdate central nwid i p) = nwid"
| "call_network (MemberUnhide central nwid i) = nwid"
| "call_network (MemberDelete central nwid i) = nwid"

type_synonym ctl_answer = "(member_detail \<times> js_num) option"

record proc_env =
  pe_sync :: sync_env
  pe_actor :: string
  pe_orgs :: "string list"
  pe_json :: "update_params \<Rightarrow> string"
  pe_valid4 :: "string \<Rightarrow> bool"
  pe_valid6 :: "string \<Rightarrow> bool"
  pe_update :: "bool \<Rightarrow> string \<Rightarrow> string \<Rightarrow> update_params \<Rightarrow> ctl_answer"
  pe_unhide :: "bool \<Rightarrow> string \<Rightarrow> string \<Rightarrow> ctl_answer"
  pe_delete :: "bool \<Rightarrow> string \<Rightarrow> string \<Rightarrow> bool"

record proc_state =
  pr_members :: member_state
  pr_calls :: "ctl_call list"
  pr_log :: "log_row list"
  pr_notations :: "(int \<times> string) list"
  pr_marks :: "(int \<times> nat) list"
  pr_orgSettings :: "string list"

type_synonym 'a reply = "(exn + 'a) \<times> proc_state"

definition pr_rows :: "proc_state \<Rightarrow> member_row list" where
  "pr_rows s = ms_rows (pr_members s)"

definition put_rows :: "member_row list \<Rightarrow> proc_state \<Rightarrow> proc_state" where
  "put_rows rows s = s\<lparr>pr_members := (pr_members s)\<lparr>ms_rows := rows\<rparr>\<rparr>"

definition send :: "ctl_call \<Rightarrow> proc_state \<Rightarrow> proc_state" where
  "send c s = s\<lparr>pr_calls := pr_calls s @ [c]\<rparr>"

definition permitted :: "proc_env \<Rightarrow> string \<Rightarrow> role \<Rightarrow> (proc_state \<Rightarrow> 'a reply) \<Rightarrow> proc_state \<Rightarrow> 'a reply" where
  "permitted env nwid r f s =
     (case checkNetworkAccess (se_db (pe_sync env)) (se_userId (pe_sync env)) nwid r of Inl e \<Rightarrow> (Inl e, s) | Inr _ \<Rightarrow> f s)"

text \<open>The log refers to the organisation that the request names: a name of none fails.\<close>

definition log_action :: "proc_env \<Rightarrow> string option \<Rightarrow> string \<Rightarrow> (proc_state \<Rightarrow> 'a reply) \<Rightarrow> proc_state \<Rightarrow> 'a reply" where
  "log_action env org action f s =
     (if truthy org \<and> the org \<notin> set (pe_orgs env) then (Inl record_missing, s)
      else f (s\<lparr>pr_log := pr_log s @ [\<lparr>lg_action = action, lg_by = se_userId (pe_sync env), lg_org = (if truthy org then org else None)\<rparr>]\<rparr>))"

definition member_action :: "proc_env \<Rightarrow> event_type \<Rightarrow> member_row \<Rightarrow> string \<Rightarrow> jstext \<Rightarrow> jstext \<Rightarrow> delivery list \<Rightarrow> exn + delivery list" where
  "member_action env ev m key before after out =
     (case recordMemberAction (se_notify (pe_sync env)) (se_uuid (pe_sync env) (event_name ev) (m_id m)) (se_now (pe_sync env)) ev
             (view_of_row m) (asc key) (pe_actor env) before after out of
        Inl _ \<Rightarrow> Inl (PlainError ''template'') | Inr out' \<Rightarrow> Inr out')"

definition controller_failed :: exn where
  "controller_failed = PlainError ''controller''"

section \<open>Adding a member\<close>

definition isValidZeroTierNetworkId :: "string \<Rightarrow> bool" where
  "isValidZeroTierNetworkId i \<longleftrightarrow> length i = 10 \<and> list_all (\<lambda>c. c \<in> set ''0123456789abcdefABCDEF'') i"

definition user_option :: "proc_env \<Rightarrow> (user_options \<Rightarrow> bool) \<Rightarrow> bool" where
  "user_option env f = (case se_options (pe_sync env) of None \<Rightarrow> False | Some op \<Rightarrow> f op)"

text \<open>The name of the member elsewhere: in the user's personal networks, or in those of the organisation if
  its settings say so.\<close>

definition member_elsewhere :: "proc_env \<Rightarrow> string option \<Rightarrow> string \<Rightarrow> string \<Rightarrow> member_row \<Rightarrow> bool" where
  "member_elsewhere env org i nwid m \<longleftrightarrow> m_id m = i \<and> m_deleted m = Some False \<and> m_nwid m \<noteq> nwid
     \<and> list_ex (\<lambda>n. n_nwid n = m_nwid m \<and> name_scope (pe_sync env) org n) (networks (se_db (pe_sync env)))"

definition name_elsewhere :: "proc_env \<Rightarrow> string option \<Rightarrow> string \<Rightarrow> string \<Rightarrow> member_row list \<Rightarrow> string option" where
  "name_elsewhere env org i nwid rows =
     (if truthy org \<and> \<not> se_orgRename (pe_sync env) (the org) then None
      else case find (\<lambda>m. m_name m \<noteq> None \<and> member_elsewhere env (if truthy org then org else None) i nwid m) rows of
        None \<Rightarrow> None | Some m \<Rightarrow> if truthy (m_name m) then m_name m else None)"

definition restored_name :: "proc_env \<Rightarrow> string option \<Rightarrow> string \<Rightarrow> string \<Rightarrow> member_row list \<Rightarrow> member_row \<Rightarrow> string option" where
  "restored_name env org i nwid rows member =
     (if user_option env uo_renameNodeGlobally
      then (case name_elsewhere env org i nwid rows of None \<Rightarrow> m_name member | Some n \<Rightarrow> Some n)
      else if user_option env uo_addMemberIdAsName then Some i else m_name member)"

definition created_name :: "proc_env \<Rightarrow> string option \<Rightarrow> string \<Rightarrow> string \<Rightarrow> member_row list \<Rightarrow> string option" where
  "created_name env org i nwid rows =
     (let name = (if user_option env uo_renameNodeGlobally then name_elsewhere env org i nwid rows else None)
      in if name = None \<and> user_option env uo_addMemberIdAsName then Some i else name)"

definition hidden_text :: jstext where
  "hidden_text = [24050, 38544, 34255]"

definition restored_text :: jstext where
  "restored_text = [24050, 24674, 22797]"

definition precreated_text :: jstext where
  "precreated_text = [31649, 29702, 21592, 39044, 21019, 24314, 65292, 31561, 24453, 33410, 28857, 36890, 20449]"

definition restore_member :: "proc_env \<Rightarrow> string option \<Rightarrow> string \<Rightarrow> js_num \<Rightarrow> member_row \<Rightarrow> proc_state \<Rightarrow> member_row option reply" where
  "restore_member env org nwid rv member s =
     (let name = restored_name env org (m_id member) nwid (pr_rows s) member;
          f = (\<lambda>m. m\<lparr>m_deleted := Some False, m_permanentlyDeleted := Some False, m_name := name\<rparr>);
          rows = update_rows nwid (m_id member) f (pr_rows s)
      in if \<not> hidden member then (Inr (Some (f member)), put_rows rows s)
         else case member_action env NodeAdded (f member) (''node.restore:'' @ nwid @ '':'' @ m_id member @ '':'' @ js_num_text rv)
                     hidden_text restored_text (ms_out (pr_members s)) of
             Inl e \<Rightarrow> (Inl e, s)
           | Inr out \<Rightarrow> (Inr (Some (f member)), s\<lparr>pr_members := (pr_members s)\<lparr>ms_rows := rows, ms_out := out\<rparr>\<rparr>))"

definition insert_member :: "proc_env \<Rightarrow> string option \<Rightarrow> string \<Rightarrow> string \<Rightarrow> member_detail \<Rightarrow> proc_state \<Rightarrow> member_row option reply" where
  "insert_member env org nwid i d s =
     (let ms = pr_members s;
          row = (new_row (ms_nextId ms) (se_now (pe_sync env)) nwid i (created_name env org i nwid (ms_rows ms)))
                  \<lparr>m_address := Some i, m_authorized := Some (md_authorized d), m_ipAssignments := detail_ips d\<rparr>
      in case member_action env NodeAdded row (''node.added:'' @ nwid @ '':'' @ i @ '':'' @ nat_str (ms_nextId ms))
                not_joined precreated_text (ms_out ms) of
           Inl e \<Rightarrow> (Inl e, s)
         | Inr out \<Rightarrow> (Inr None, s\<lparr>pr_members := ms\<lparr>ms_rows := ms_rows ms @ [row], ms_nextId := ms_nextId ms + 1, ms_out := out\<rparr>\<rparr>))"

definition member_create :: "proc_env \<Rightarrow> string option \<Rightarrow> bool \<Rightarrow> string \<Rightarrow> string \<Rightarrow> proc_state \<Rightarrow> member_row option reply" where
  "member_create env org central nwid i s =
     (if \<not> isValidZeroTierNetworkId i then (Inl ZodError, s)
      else permitted env nwid USER (log_action env org (''Created member '' @ i @ '' in network '' @ nwid) (\<lambda>s.
        let s1 = send (MemberUnhide central nwid i) s
        in (case pe_unhide env central nwid i of
              None \<Rightarrow> (Inl controller_failed, s1)
            | Some (d, rv) \<Rightarrow>
                if central then (Inr None, s1)
                else (case row_at nwid i (pr_rows s1) of
                        Some member \<Rightarrow> restore_member env org nwid rv member s1
                      | None \<Rightarrow> insert_member env org nwid i d s1)))) s)"

section \<open>Changing a member\<close>

text \<open>The other networks a new name is copied to. The organisation is the one the request names.\<close>

definition rename_targets :: "proc_env \<Rightarrow> string option \<Rightarrow> string \<Rightarrow> string \<Rightarrow> update_params \<Rightarrow> member_row list \<Rightarrow> string list" where
  "rename_targets env org i nwid p rows =
     (if \<not> truthy (pm_name p) then []
      else if user_option env uo_renameNodeGlobally \<and> \<not> truthy org
      then map m_nwid (filter (member_elsewhere env None i nwid) rows)
      else if truthy org \<and> se_orgRename (pe_sync env) (the org)
      then map m_nwid (filter (member_elsewhere env org i nwid) rows)
      else [])"

text \<open>In personal networks the description is copied too.\<close>

definition copy_name :: "string option \<Rightarrow> update_params \<Rightarrow> member_row \<Rightarrow> member_row" where
  "copy_name org p m =
     (if m_deleted m \<noteq> Some False then m
      else m\<lparr>m_name := pm_name p,
             m_description := (if truthy org \<or> pm_description p = None then m_description m else pm_description p)\<rparr>)"

fun rename_others :: "proc_env \<Rightarrow> string option \<Rightarrow> string \<Rightarrow> update_params \<Rightarrow> string list \<Rightarrow> proc_state \<Rightarrow> unit reply" where
  "rename_others env org i p [] s = (Inr (), s)"
| "rename_others env org i p (n # ns) s =
     (let s1 = send (MemberUpdate False n i p) s
      in case pe_update env False n i p of
           None \<Rightarrow> (Inl controller_failed, s1)
         | Some _ \<Rightarrow> rename_others env org i p ns (put_rows (update_rows n i (copy_name org p) (pr_rows s1)) s1))"

definition apply_params :: "update_params \<Rightarrow> member_row \<Rightarrow> member_row" where
  "apply_params p m = m\<lparr>
     m_name := (case pm_name p of None \<Rightarrow> m_name m | Some n \<Rightarrow> Some n),
     m_authorized := (case pm_authorized p of None \<Rightarrow> m_authorized m | Some b \<Rightarrow> Some b),
     m_description := (case pm_description p of None \<Rightarrow> m_description m | Some t \<Rightarrow> Some t),
     m_ipAssignments := (case pm_ipAssignments p of None \<Rightarrow> m_ipAssignments m | Some ips \<Rightarrow> ips),
     m_noAutoAssignIps := (case pm_noAutoAssignIps p of None \<Rightarrow> m_noAutoAssignIps m | Some b \<Rightarrow> b),
     m_activeBridge := (case pm_activeBridge p of None \<Rightarrow> m_activeBridge m | Some b \<Rightarrow> b)\<rparr>"

definition update_event :: "member_row \<Rightarrow> member_row \<Rightarrow> event_type option" where
  "update_event db stored =
     (if (m_authorized db = Some True) \<noteq> (m_authorized stored = Some True)
      then Some (if m_authorized stored = Some True then NodeAuthorized else NodeDeauthorized)
      else if stored \<noteq> db then Some NodeConfigChanged else None)"

definition store_params :: "proc_env \<Rightarrow> string \<Rightarrow> string \<Rightarrow> update_params \<Rightarrow> js_num \<Rightarrow> proc_state \<Rightarrow> unit reply" where
  "store_params env nwid i p rv s =
     (case row_at nwid i (pr_rows s) of None \<Rightarrow> (Inr (), s)
      | Some db \<Rightarrow>
          let stored = apply_params p db; rows = update_rows nwid i (apply_params p) (pr_rows s)
          in (case update_event db stored of
                None \<Rightarrow> (Inr (), put_rows rows s)
              | Some ev \<Rightarrow>
                  (case member_action env ev stored (event_name ev @ '':'' @ nwid @ '':'' @ i @ '':'' @ js_num_text rv)
                          (memberConfigSummary (view_of_row db)) (memberConfigSummary (view_of_row stored)) (ms_out (pr_members s)) of
                     Inl e \<Rightarrow> (Inl e, s)
                   | Inr out \<Rightarrow> (Inr (), s\<lparr>pr_members := (pr_members s)\<lparr>ms_rows := rows, ms_out := out\<rparr>\<rparr>))))"

definition not_in_network :: exn where
  "not_in_network = TRPCError FORBIDDEN (''Member does not exsist in the network, did you add this device manually? ''
     @ [CHR 0x0D, CHR 0x0A] @ '' Make sure it has properly joined the network'')"

text \<open>A renaming that names an organisation creates the settings of that organisation when it has none; their
  flag is the column default, so that it renames nothing else then.\<close>

definition upsert_org_settings :: "string option \<Rightarrow> update_params \<Rightarrow> proc_state \<Rightarrow> proc_state" where
  "upsert_org_settings org p s =
     (if truthy (pm_name p) \<and> truthy org \<and> the org \<notin> set (pr_orgSettings s)
      then s\<lparr>pr_orgSettings := pr_orgSettings s @ [the org]\<rparr> else s)"

definition update_body :: "proc_env \<Rightarrow> string option \<Rightarrow> bool \<Rightarrow> string \<Rightarrow> string \<Rightarrow> update_params \<Rightarrow> proc_state \<Rightarrow> member_detail reply" where
  "update_body env org central nwid i p s =
     sbind (rename_others env org i p (rename_targets env org i nwid p (pr_rows s)) (upsert_org_settings org p s)) (\<lambda>_ s1.
       if (case pm_ipAssignments p of None \<Rightarrow> False | Some ips \<Rightarrow> list_ex (\<lambda>ip. \<not> isValidIP (pe_valid4 env) (pe_valid6 env) ip) ips)
       then (Inl (TRPCError BAD_REQUEST ''Invalid IP addresses provided''), s1)
       else let s2 = send (MemberUpdate central nwid i p) s1
            in (case pe_update env central nwid i p of
                  None \<Rightarrow> (Inl not_in_network, s2)
                | Some (d, rv) \<Rightarrow>
                    if central then (Inr d, s2) else sbind (store_params env nwid i p rv s2) (\<lambda>_ s3. (Inr d, s3))))"

definition member_Update :: "proc_env \<Rightarrow> string option \<Rightarrow> bool \<Rightarrow> string \<Rightarrow> string \<Rightarrow> update_params \<Rightarrow> proc_state \<Rightarrow> member_detail reply" where
  "member_Update env org central nwid i p s =
     permitted env nwid USER (log_action env org (''Updated member '' @ i @ '' in network '' @ nwid @ ''. '' @ pe_json env p)
       (update_body env org central nwid i p)) s"

abbreviation "no_params \<equiv> \<lparr>pm_name = None, pm_description = None, pm_activeBridge = None, pm_noAutoAssignIps = None,
  pm_ipAssignments = None, pm_authorized = None, pm_capabilities = None, pm_tags = None\<rparr>"

definition member_Tags :: "proc_env \<Rightarrow> string option \<Rightarrow> bool \<Rightarrow> string \<Rightarrow> string \<Rightarrow> (int \<times> int) list option \<Rightarrow> proc_state \<Rightarrow> member_detail reply" where
  "member_Tags env org central nwid i tags s =
     permitted env nwid USER (log_action env org (''Updated tags for member '' @ i @ '' in network '' @ nwid) (\<lambda>s.
       let p = no_params\<lparr>pm_tags := tags\<rparr>; s1 = send (MemberUpdate central nwid i p) s
       in (case pe_update env central nwid i p of None \<Rightarrow> (Inl not_in_network, s1) | Some (d, _) \<Rightarrow> (Inr d, s1)))) s"

definition UpdateDatabaseOnly ::
  "proc_env \<Rightarrow> string option \<Rightarrow> string \<Rightarrow> string \<Rightarrow> bool option \<Rightarrow> string option \<Rightarrow> string \<Rightarrow> proc_state \<Rightarrow> member_row reply" where
  "UpdateDatabaseOnly env org nwid i deleted description json s =
     permitted env nwid USER (log_action env org (''Updated member '' @ i @ '' in network '' @ nwid @ ''. '' @ json) (\<lambda>s.
       case row_at nwid i (pr_rows s) of
         None \<Rightarrow> (Inl record_missing, s)
       | Some m \<Rightarrow>
           let f = (\<lambda>m. m\<lparr>m_deleted := (case deleted of None \<Rightarrow> m_deleted m | Some b \<Rightarrow> Some b),
                          m_description := (case description of None \<Rightarrow> m_description m | Some t \<Rightarrow> Some t)\<rparr>)
           in (Inr (f m), put_rows (update_rows nwid i f (pr_rows s)) s))) s"

section \<open>Stashing and deleting\<close>

text \<open>Stashing first deauthorises the member, whatever comes of it, and then hides the row.\<close>

definition stash_params :: update_params where
  "stash_params = no_params\<lparr>pm_authorized := Some False, pm_ipAssignments := Some [], pm_tags := Some [], pm_capabilities := Some []\<rparr>"

definition stash :: "proc_env \<Rightarrow> string option \<Rightarrow> string \<Rightarrow> string \<Rightarrow> proc_state \<Rightarrow> member_detail option reply" where
  "stash env org nwid i s =
     permitted env nwid USER (log_action env org (''Stashed member '' @ i @ '' in network '' @ nwid) (\<lambda>s.
       let (r, s1) = member_Update env org False nwid i stash_params s
       in (Inr (case r of Inl _ \<Rightarrow> None | Inr d \<Rightarrow> Some d),
           put_rows (update_rows nwid i (\<lambda>m. m\<lparr>m_deleted := Some True\<rparr>) (pr_rows s1)) s1))) s"

definition admin_removed_text :: jstext where
  "admin_removed_text = [31649, 29702, 21592, 31227, 38500]"

definition drop_member :: "string \<Rightarrow> string \<Rightarrow> member_row list \<Rightarrow> member_row list" where
  "drop_member nwid i rows = filter (\<lambda>m. \<not> (m_nwid m = nwid \<and> m_id m = i)) rows"

definition remove_member :: "proc_env \<Rightarrow> string \<Rightarrow> string \<Rightarrow> member_row \<Rightarrow> proc_state \<Rightarrow> unit reply" where
  "remove_member env nwid i m s =
     (case member_action env NodeRemoved m (''node.removed:'' @ nwid @ '':'' @ i @ '':'' @ nat_str (m_nodeid m))
             network_member_text admin_removed_text (ms_out (pr_members s)) of
        Inl e \<Rightarrow> (Inl e, s)
      | Inr out \<Rightarrow> (Inr (), s\<lparr>pr_members := (pr_members s)\<lparr>ms_rows := drop_member nwid i (pr_rows s), ms_out := out\<rparr>\<rparr>))"

definition mark_gone :: "string \<Rightarrow> string \<Rightarrow> proc_state \<Rightarrow> proc_state" where
  "mark_gone nwid i s = put_rows (update_rows nwid i (\<lambda>m. m\<lparr>m_permanentlyDeleted := Some True\<rparr>) (pr_rows s)) s"

definition delete_body :: "proc_env \<Rightarrow> bool \<Rightarrow> string \<Rightarrow> string \<Rightarrow> proc_state \<Rightarrow> unit reply" where
  "delete_body env central nwid i s =
     (let existing = row_at nwid i (pr_rows s);
          stashed = (case existing of None \<Rightarrow> False | Some m \<Rightarrow> m_deleted m = Some True);
          s1 = (if stashed then s else send (MemberDelete central nwid i) s)
      in if \<not> stashed \<and> \<not> pe_delete env central nwid i then (Inl controller_failed, s1)
         else if central then (Inr (), s1)
         else if stashed then (Inr (), mark_gone nwid i s1)
         else (case existing of None \<Rightarrow> (Inl record_missing, s1) | Some m \<Rightarrow> remove_member env nwid i m s1))"

definition member_delete :: "proc_env \<Rightarrow> string option \<Rightarrow> bool \<Rightarrow> string \<Rightarrow> string \<Rightarrow> proc_state \<Rightarrow> unit reply" where
  "member_delete env org central nwid i s =
     permitted env nwid USER (log_action env org (''Deleted member '' @ i @ '' in network '' @ nwid) (delete_body env central nwid i)) s"

definition bulkDeleteStashed :: "proc_env \<Rightarrow> string option \<Rightarrow> string \<Rightarrow> proc_state \<Rightarrow> nat reply" where
  "bulkDeleteStashed env org nwid s =
     permitted env nwid USER (\<lambda>s.
       let n = length (filter (\<lambda>m. m_nwid m = nwid \<and> m_deleted m = Some True) (pr_rows s));
           s1 = put_rows (map (\<lambda>m. if m_nwid m = nwid \<and> m_deleted m = Some True then m\<lparr>m_permanentlyDeleted := Some True\<rparr> else m)
                  (pr_rows s)) s
       in if n = 0 then (Inr 0, s)
          else log_action env org (''Bulk deleted '' @ nat_str n @ '' stashed members from network '' @ nwid) (\<lambda>s. (Inr n, s)) s1) s"

text \<open>A label that marks no member any more is removed.\<close>

definition removeMemberAnotations :: "proc_env \<Rightarrow> string option \<Rightarrow> int \<Rightarrow> nat \<Rightarrow> proc_state \<Rightarrow> unit reply" where
  "removeMemberAnotations env org notationId nodeid s =
     (case map_of (pr_notations s) notationId of
        None \<Rightarrow> (Inl (TRPCError NOT_FOUND ''Notation not found!''), s)
      | Some nwid \<Rightarrow>
          permitted env nwid USER (log_action env org
            (''Removed notation '' @ int_str notationId @ '' from member '' @ nat_str nodeid) (\<lambda>s.
              if (notationId, nodeid) \<notin> set (pr_marks s) then (Inl record_missing, s)
              else let marks = filter (\<lambda>k. k \<noteq> (notationId, nodeid)) (pr_marks s)
                   in (Inr (), s\<lparr>pr_marks := marks,
                        pr_notations := (if notationId \<in> fst ` set marks then pr_notations s
                                         else filter (\<lambda>k. fst k \<noteq> notationId) (pr_notations s))\<rparr>))) s)"

datatype member_request =
    RCreate "string option" bool string string
  | RUpdate "string option" bool string string update_params
  | RTags "string option" bool string string "(int \<times> int) list option"
  | RDatabaseOnly "string option" string string "bool option" "string option" string
  | RStash "string option" string string
  | RDelete "string option" bool string string
  | RBulkDelete "string option" string
  | RUnmark "string option" int nat

fun run_member :: "proc_env \<Rightarrow> member_request \<Rightarrow> proc_state \<Rightarrow> proc_state" where
  "run_member env (RCreate org central nwid i) s = snd (member_create env org central nwid i s)"
| "run_member env (RUpdate org central nwid i p) s = snd (member_Update env org central nwid i p s)"
| "run_member env (RTags org central nwid i tags) s = snd (member_Tags env org central nwid i tags s)"
| "run_member env (RDatabaseOnly org nwid i del desc json) s = snd (UpdateDatabaseOnly env org nwid i del desc json s)"
| "run_member env (RStash org nwid i) s = snd (stash env org nwid i s)"
| "run_member env (RDelete org central nwid i) s = snd (member_delete env org central nwid i s)"
| "run_member env (RBulkDelete org nwid) s = snd (bulkDeleteStashed env org nwid s)"
| "run_member env (RUnmark org k nodeid) s = snd (removeMemberAnotations env org k nodeid s)"

fun named_network :: "member_request \<Rightarrow> string option" where
  "named_network (RCreate org central nwid i) = Some nwid"
| "named_network (RUpdate org central nwid i p) = Some nwid"
| "named_network (RTags org central nwid i tags) = Some nwid"
| "named_network (RDatabaseOnly org nwid i del desc json) = Some nwid"
| "named_network (RStash org nwid i) = Some nwid"
| "named_network (RDelete org central nwid i) = Some nwid"
| "named_network (RBulkDelete org nwid) = Some nwid"
| "named_network (RUnmark org k nodeid) = None"

text \<open>The networks a renaming reaches: personal networks of the caller, or the networks of the organisation
  that the request names.\<close>

definition in_scope :: "proc_env \<Rightarrow> string option \<Rightarrow> string \<Rightarrow> bool" where
  "in_scope env org n = list_ex (\<lambda>x. n_nwid x = n \<and> name_scope (pe_sync env) org x) (networks (se_db (pe_sync env)))"

fun renames :: "proc_env \<Rightarrow> member_request \<Rightarrow> string \<Rightarrow> bool" where
  "renames env (RUpdate org central nwid i p) n \<longleftrightarrow> truthy (pm_name p)
     \<and> (\<not> truthy org \<and> user_option env uo_renameNodeGlobally \<and> in_scope env None n
        \<or> truthy org \<and> se_orgRename (pe_sync env) (the org) \<and> in_scope env org n)"
| "renames env _ n = False"

definition may_use :: "proc_env \<Rightarrow> string \<Rightarrow> bool" where
  "may_use env nwid \<longleftrightarrow> is_ok (checkNetworkAccess (se_db (pe_sync env)) (se_userId (pe_sync env)) nwid USER)"

definition may_touch :: "proc_env \<Rightarrow> member_request \<Rightarrow> string \<Rightarrow> bool" where
  "may_touch env rq n = (case named_network rq of None \<Rightarrow> False | Some nwid \<Rightarrow> may_use env nwid \<and> (n = nwid \<or> renames env rq n))"

text \<open>What a network sees: its member rows and the requests the controller gets for it.\<close>

definition network_view :: "string \<Rightarrow> proc_state \<Rightarrow> member_row list \<times> ctl_call list" where
  "network_view n s = (filter (\<lambda>m. m_nwid m = n) (pr_rows s), filter (\<lambda>c. call_network c = n) (pr_calls s))"

abbreviation pr_wf :: "proc_state \<Rightarrow> bool" where
  "pr_wf s \<equiv> table_wf (pr_members s)"

definition demo_proc :: "sync_env \<Rightarrow> proc_env" where
  "demo_proc senv = \<lparr>pe_sync = senv, pe_actor = ''one'', pe_orgs = [''o1''], pe_json = (\<lambda>_. []), pe_valid4 = (\<lambda>_. True), pe_valid6 = (\<lambda>_. False),
     pe_update = (\<lambda>_ _ _ _. Some (demo_detail, Val 5)), pe_unhide = (\<lambda>_ _ _. Some (demo_detail, Val 5)), pe_delete = (\<lambda>_ _ _. True)\<rparr>"

abbreviation "idle_member \<equiv> demo_member\<lparr>m_authorized := Some False\<rparr>"

definition demo_proc_state :: "member_row list \<Rightarrow> proc_state" where
  "demo_proc_state rows = \<lparr>pr_members = \<lparr>ms_rows = rows, ms_nextId = 9, ms_out = [], ms_joins = []\<rparr>, pr_calls = [], pr_log = [],
     pr_notations = [], pr_marks = [], pr_orgSettings = []\<rparr>"

definition foreign_db :: db where
  "foreign_db = demo_db\<lparr>org_roles := []\<rparr>"

definition foreign_sync :: sync_env where
  "foreign_sync = demo_sync\<lparr>se_db := foreign_db, se_userId := ''u2'', se_orgRename := (\<lambda>_. True)\<rparr>"

abbreviation "foreign_params \<equiv> no_params\<lparr>pm_name := Some ''x'', pm_authorized := Some True\<rparr>"

section \<open>Requests\<close>

lemma permitted_snd: "snd (permitted env nwid USER f s) = (if may_use env nwid then snd (f s) else s)"
  by (simp add: permitted_def may_use_def is_ok_iff split: sum.split)

lemma log_view: "(\<And>s'. pr_members s' = pr_members s \<Longrightarrow> pr_calls s' = pr_calls s \<Longrightarrow> network_view n (snd (f s')) = network_view n s')
    \<Longrightarrow> network_view n (snd (log_action env org a f s)) = network_view n s"
  by (simp add: log_action_def network_view_def pr_rows_def)

lemma view_put_rows [simp]: "network_view n (put_rows rows s) = (filter (\<lambda>m. m_nwid m = n) rows, snd (network_view n s))"
  by (simp add: network_view_def put_rows_def pr_rows_def)

lemma view_send [simp]: "network_view n (send c s) = (fst (network_view n s), snd (network_view n s) @ (if call_network c = n then [c] else []))"
  by (simp add: network_view_def send_def pr_rows_def)

lemma rows_send [simp]: "pr_rows (send c s) = pr_rows s" "pr_members (send c s) = pr_members s" "pr_calls (send c s) = pr_calls s @ [c]"
  by (simp_all add: send_def pr_rows_def)

lemma rows_put [simp]: "pr_rows (put_rows rows s) = rows" "pr_calls (put_rows rows s) = pr_calls s"
  by (simp_all add: put_rows_def pr_rows_def)

lemma rows_upsert [simp]: "pr_rows (upsert_org_settings org p s) = pr_rows s" "pr_members (upsert_org_settings org p s) = pr_members s"
  "pr_calls (upsert_org_settings org p s) = pr_calls s" "network_view n (upsert_org_settings org p s) = network_view n s"
  by (simp_all add: upsert_org_settings_def network_view_def pr_rows_def)

lemma view_update: "(\<And>m. m_nwid (f m) = m_nwid m) \<Longrightarrow> n \<noteq> nwid \<Longrightarrow>
    filter (\<lambda>m. m_nwid m = n) (update_rows nwid i f rows) = filter (\<lambda>m. m_nwid m = n) rows"
  by (induction rows) (auto simp: update_rows_def)

lemma view_fst: "filter (\<lambda>m. m_nwid m = n) (pr_rows s) = fst (network_view n s)"
  by (simp add: network_view_def)

lemma apply_params_nwid [simp]: "m_nwid (apply_params p m) = m_nwid m" "m_id (apply_params p m) = m_id m"
  by (simp_all add: apply_params_def)

lemma copy_name_nwid [simp]: "m_nwid (copy_name org p m) = m_nwid m" "m_id (copy_name org p m) = m_id m"
  by (simp_all add: copy_name_def)

lemma store_params_view: "n \<noteq> nwid \<Longrightarrow> network_view n (snd (store_params env nwid i p rv s)) = network_view n s"
  by (auto simp: store_params_def Let_def view_update network_view_def pr_rows_def put_rows_def split: option.split sum.split)

lemma rename_others_view: "n \<notin> set ns \<Longrightarrow> network_view n (snd (rename_others env org i p ns s)) = network_view n s"
proof (induction ns arbitrary: s)
  case (Cons k ns)
  then have "n \<noteq> k" "network_view n (snd (rename_others env org i p ns t)) = network_view n t" for t by auto
  moreover have "network_view n (put_rows (update_rows k i (copy_name org p) (pr_rows t)) t) = network_view n t" if "n \<noteq> k" for t
    using that by (simp add: view_update) (simp add: network_view_def)
  ultimately show ?case by (simp add: Let_def split: option.split)
qed simp

lemma rename_targets_scope: "n \<in> set (rename_targets env org i nwid p rows) \<Longrightarrow> renames env (RUpdate org central nwid i p) n"
  by (auto simp: rename_targets_def member_elsewhere_def in_scope_def split: if_split_asm)

lemma Update_view:
  assumes "n \<noteq> nwid" "\<not> renames env (RUpdate org central nwid i p) n"
  shows "network_view n (snd (member_Update env org central nwid i p s)) = network_view n s"
proof -
  have r: "n \<notin> set (rename_targets env org i nwid p rows)" for rows using rename_targets_scope assms(2) by blast
  have st: "network_view n (snd (sbind (store_params env nwid i p rv t) (\<lambda>_ s3. (Inr d, s3)))) = network_view n t" for rv d t
    by (rule sbind_keeps[of "\<lambda>u. network_view n u = network_view n t"]) (simp_all add: store_params_view[OF assms(1)])
  have "network_view n (snd (update_body env org central nwid i p t)) = network_view n t" for t
    unfolding update_body_def by (rule sbind_keeps[of "\<lambda>u. network_view n u = network_view n t"])
      (use assms(1) in \<open>auto simp: rename_others_view[OF r] Let_def st split: option.split\<close>)
  then show ?thesis unfolding member_Update_def permitted_snd by (auto intro!: log_view)
qed

lemma members_view: "network_view n (s\<lparr>pr_members := ms\<rparr>) = (filter (\<lambda>m. m_nwid m = n) (ms_rows ms), snd (network_view n s))"
  by (simp add: network_view_def pr_rows_def)

lemma update_view:
  "(\<And>m. m_nwid (f m) = m_nwid m) \<Longrightarrow> n \<noteq> nwid \<Longrightarrow> network_view n (put_rows (update_rows nwid i f (pr_rows s)) s) = network_view n s"
  by (simp add: view_update) (simp add: network_view_def)

lemma send_view: "call_network c \<noteq> n \<Longrightarrow> network_view n (send c s) = network_view n s"
  by simp

lemma restore_view: "n \<noteq> nwid \<Longrightarrow> network_view n (snd (restore_member env org nwid rv m s)) = network_view n s"
  unfolding restore_member_def Let_def
  by (auto simp: update_view members_view view_update view_fst[symmetric] simp del: view_put_rows split: sum.split) (simp add: network_view_def)

lemma insert_view: "n \<noteq> nwid \<Longrightarrow> network_view n (snd (insert_member env org nwid i d s)) = network_view n s"
  by (auto simp: insert_member_def Let_def new_row_def network_view_def pr_rows_def split: sum.split)

lemma create_view: "n \<noteq> nwid \<Longrightarrow> network_view n (snd (member_create env org central nwid i s)) = network_view n s"
  by (auto simp: member_create_def permitted_snd Let_def restore_view insert_view send_view simp del: view_send
      split: option.split intro!: log_view)

lemma Tags_view: "n \<noteq> nwid \<Longrightarrow> network_view n (snd (member_Tags env org central nwid i tags s)) = network_view n s"
  by (auto simp: member_Tags_def permitted_snd Let_def send_view simp del: view_send split: option.split intro!: log_view)

lemma database_only_view: "n \<noteq> nwid \<Longrightarrow> network_view n (snd (UpdateDatabaseOnly env org nwid i del desc json s)) = network_view n s"
  by (auto simp: UpdateDatabaseOnly_def permitted_snd Let_def update_view simp del: view_put_rows split: option.split intro!: log_view)

lemma stash_view: "n \<noteq> nwid \<Longrightarrow> network_view n (snd (stash env org nwid i s)) = network_view n s"
  by (auto simp: stash_def permitted_snd Let_def case_prod_beta update_view Update_view stash_params_def simp del: view_put_rows intro!: log_view)

lemma drop_view: "n \<noteq> nwid \<Longrightarrow> filter (\<lambda>m. m_nwid m = n) (drop_member nwid i rows) = filter (\<lambda>m. m_nwid m = n) rows"
  by (auto simp: drop_member_def intro: filter_cong)

lemma remove_view: "n \<noteq> nwid \<Longrightarrow> network_view n (snd (remove_member env nwid i m s)) = network_view n s"
  by (auto simp: remove_member_def members_view drop_view split: sum.split) (simp add: network_view_def)

lemma gone_view: "n \<noteq> nwid \<Longrightarrow> network_view n (mark_gone nwid i s) = network_view n s"
  unfolding mark_gone_def by (rule update_view) simp_all

lemma delete_view:
  assumes "n \<noteq> nwid"
  shows "network_view n (snd (member_delete env org central nwid i s)) = network_view n s"
proof -
  note [simp] = gone_view[OF assms] remove_view[OF assms] assms[symmetric]
  have "network_view n (snd (delete_body env central nwid i t)) = network_view n t" for t
    by (cases "row_at nwid i (pr_rows t)") (simp_all add: delete_body_def Let_def)
  then show ?thesis unfolding member_delete_def permitted_snd by (auto intro!: log_view)
qed

lemma filter_map_other: "(\<And>m. P (f m) = P m) \<Longrightarrow> (\<And>m. P m \<Longrightarrow> f m = m) \<Longrightarrow> filter P (map f rows) = filter P rows"
  by (induction rows) simp_all

lemma bulk_rows:
  "n \<noteq> nwid \<Longrightarrow> filter (\<lambda>m. m_nwid m = n) (map (\<lambda>m. if m_nwid m = nwid \<and> m_deleted m = Some True then m\<lparr>m_permanentlyDeleted := Some True\<rparr> else m) rows)
     = filter (\<lambda>m. m_nwid m = n) rows"
  by (rule filter_map_other) simp_all

lemma bulk_view: "n \<noteq> nwid \<Longrightarrow> network_view n (snd (bulkDeleteStashed env org nwid s)) = network_view n s"
  by (auto simp: bulkDeleteStashed_def permitted_snd Let_def log_action_def bulk_rows network_view_def pr_rows_def put_rows_def)

lemma unmark_view: "network_view n (snd (removeMemberAnotations env org k nodeid s)) = network_view n s"
  by (auto simp: removeMemberAnotations_def permitted_snd Let_def network_view_def pr_rows_def log_action_def split: option.split)

lemmas procedure_views = create_view Update_view Tags_view database_only_view stash_view delete_view bulk_view unmark_view

lemma refused:
  assumes "named_network rq = Some nwid" "\<not> may_use env nwid"
  shows "run_member env rq s = s"
  using assms by (cases rq) (auto simp: member_create_def member_Update_def member_Tags_def UpdateDatabaseOnly_def stash_def member_delete_def
      bulkDeleteStashed_def permitted_snd)

lemma member_untouched:
  assumes no: "\<not> may_touch env rq n"
  shows "network_view n (run_member env rq s) = network_view n s"
proof (cases "named_network rq")
  case None
  then show ?thesis by (cases rq) (simp_all add: unmark_view)
next
  case (Some nwid)
  show ?thesis
  proof (cases "may_use env nwid")
    case True
    then have "n \<noteq> nwid" "\<not> renames env rq n" using no Some by (auto simp: may_touch_def)
    then show ?thesis using Some by (cases rq) (auto simp: procedure_views simp del: renames.simps)
  qed (simp add: refused[OF Some])
qed

text \<open>Each request of a sequence comes with its caller and with what the database holds beside the members then.\<close>

interpretation member_scope: scoped_requests "\<lambda>(env, rq). run_member env rq" network_view "\<lambda>(env, rq). may_touch env rq"
  by unfold_locales (auto simp: member_untouched split: prod.split_asm)

text \<open>C26. Member procedures stay in their reach: a sequence of requests, each with a caller of its own, changes the
  member rows of a network or sends the controller a request for it only if one of them names a network that its
  caller may use as a USER and either it is that network, or the request renames a member and the network is in the
  scope of the renaming: a personal network of the caller, if the caller has turned on global renaming, or a
  network of the organisation named in the request, if that organisation has. The caller need not belong to that
  organisation (see \<^verbatim>\<open>renaming_trusts_organisation\<close>).\<close>

theorem members_stay_scoped:
  assumes "network_view n (fold (\<lambda>(env, rq). run_member env rq) rqs s) \<noteq> network_view n s"
  shows "\<exists>(env, rq)\<in>set rqs. \<exists>nwid. named_network rq = Some nwid \<and> may_use env nwid \<and> (n = nwid \<or> renames env rq n)"
  using member_scope.change_needs_permission[OF TrueI assms] by (fastforce simp: may_touch_def split: option.split_asm)

section \<open>The member table\<close>

lemma log_wf: "pr_wf s \<Longrightarrow> (\<And>t. pr_members t = pr_members s \<Longrightarrow> pr_wf t \<Longrightarrow> pr_wf (snd (f t))) \<Longrightarrow> pr_wf (snd (log_action env org a f s))"
  by (simp add: log_action_def)

lemma put_wf: "pr_wf s \<Longrightarrow> keeps_keys f \<Longrightarrow> pr_wf (put_rows (update_rows nwid i f (pr_rows s)) s)"
  using update_wf by (simp add: put_rows_def pr_rows_def)

lemma procedures_keep_keys: "keeps_keys (apply_params p)" "keeps_keys (copy_name org p)" "keeps_keys (m_deleted_update g)"
  "keeps_keys (m_permanentlyDeleted_update g)" "keeps_keys (\<lambda>m. m\<lparr>m_deleted := x, m_permanentlyDeleted := y, m_name := z\<rparr>)"
  "keeps_keys (\<lambda>m. m\<lparr>m_deleted := a m, m_description := b m\<rparr>)"
  by (simp_all add: keeps_keys_def row_key_def apply_params_def copy_name_def)

lemma store_wf: "pr_wf s \<Longrightarrow> pr_wf (snd (store_params env nwid i p rv s))"
  using update_wf[of "pr_members s"] put_wf[of s]
  by (auto simp: store_params_def Let_def procedures_keep_keys pr_rows_def split: option.split sum.split)

lemma rename_wf: "pr_wf s \<Longrightarrow> pr_wf (snd (rename_others env org i p ns s))"
proof (induction ns arbitrary: s)
  case (Cons n ns)
  have "pr_wf (put_rows (update_rows n i (copy_name org p) (pr_rows s)) (send c s))" for c
    using put_wf[of "send c s" "copy_name org p" n i] Cons.prems by (simp add: procedures_keep_keys)
  then show ?case using Cons by (simp add: Let_def split: option.split)
qed simp

lemma Update_wf: "pr_wf s \<Longrightarrow> pr_wf (snd (member_Update env org central nwid i p s))"
  unfolding member_Update_def permitted_snd update_body_def
  by (auto simp: Let_def intro!: log_wf sbind_keeps[of pr_wf] rename_wf store_wf split: option.split)

lemma restore_wf: "pr_wf s \<Longrightarrow> pr_wf (snd (restore_member env org nwid rv m s))"
  using update_wf[of "pr_members s"] put_wf[of s]
  by (auto simp: restore_member_def Let_def procedures_keep_keys pr_rows_def split: sum.split)

lemma appended_row_wf:
  assumes "table_wf s" "row_at nwid i (ms_rows s) = None" "row_key row = (nwid, i)" "m_nodeid row = ms_nextId s"
  shows "table_wf (s\<lparr>ms_rows := ms_rows s @ [row], ms_nextId := ms_nextId s + 1, ms_out := out\<rparr>)"
proof -
  have "(nwid, i) \<notin> row_key ` set (ms_rows s)" using assms(2) by (auto simp: row_at_def find_None_iff row_key_def)
  moreover have "ms_nextId s \<notin> m_nodeid ` set (ms_rows s)" "\<forall>m\<in>set (ms_rows s). m_nodeid m < Suc (ms_nextId s)"
    using assms(1) by (auto simp: table_wf_def less_Suc_eq)
  ultimately show ?thesis using assms(1,3,4) by (simp add: table_wf_def rows_wf_def)
qed

lemma insert_wf:
  assumes "pr_wf s" "row_at nwid i (pr_rows s) = None"
  shows "pr_wf (snd (insert_member env org nwid i d s))"
  using appended_row_wf[OF assms(1) assms(2)[unfolded pr_rows_def]] assms(1)
  by (simp add: insert_member_def Let_def split: sum.split) (simp add: new_row_def row_key_def)

lemma create_wf: "pr_wf s \<Longrightarrow> pr_wf (snd (member_create env org central nwid i s))"
  unfolding member_create_def permitted_snd
  by (auto simp: permitted_snd Let_def intro!: log_wf restore_wf insert_wf split: option.split)

lemma delete_wf: "pr_wf s \<Longrightarrow> pr_wf (snd (member_delete env org central nwid i s))"
proof -
  assume s: "pr_wf s"
  have g: "pr_wf (mark_gone nwid i u)" "pr_wf (snd (remove_member env nwid i m u))" if "pr_wf u" for m u
    using that filter_wf[of "pr_members u"] put_wf[OF that procedures_keep_keys(4)]
    by (auto simp: mark_gone_def remove_member_def drop_member_def pr_rows_def split: sum.split)
  have "pr_wf (snd (delete_body env central nwid i t))" if "pr_wf t" for t
  proof -
    have "pr_wf (send c t)" for c using that by simp
    then show ?thesis using that g by (cases "row_at nwid i (pr_rows t)") (simp_all add: delete_body_def Let_def)
  qed
  then show ?thesis using s by (auto simp: member_delete_def permitted_snd intro!: log_wf)
qed

lemma bulk_wf: "pr_wf s \<Longrightarrow> pr_wf (snd (bulkDeleteStashed env org nwid s))"
proof -
  assume "pr_wf s"
  then have "table_wf ((pr_members s)\<lparr>ms_rows := map (\<lambda>m. if m_nwid m = nwid \<and> m_deleted m = Some True then m\<lparr>m_permanentlyDeleted := Some True\<rparr> else m)
      (ms_rows (pr_members s))\<rparr>)" by (rule map_wf) (simp_all add: row_key_def)
  then show ?thesis using \<open>pr_wf s\<close> by (simp add: bulkDeleteStashed_def permitted_snd Let_def log_action_def put_rows_def pr_rows_def)
qed

lemma request_wf: "pr_wf s \<Longrightarrow> pr_wf (run_member env rq s)"
proof (cases rq)
  case (RTags org central nwid i tags)
  assume "pr_wf s"
  then show ?thesis unfolding RTags by (auto simp: member_Tags_def permitted_snd Let_def intro!: log_wf split: option.split)
next
  case (RDatabaseOnly org nwid i del desc json)
  assume "pr_wf s"
  then show ?thesis unfolding RDatabaseOnly
    by (auto simp: UpdateDatabaseOnly_def permitted_snd Let_def intro!: log_wf put_wf procedures_keep_keys split: option.split)
next
  case (RStash org nwid i)
  assume "pr_wf s"
  then show ?thesis unfolding RStash
    by (auto simp: stash_def permitted_snd Let_def case_prod_beta intro!: log_wf put_wf procedures_keep_keys Update_wf)
next
  case (RUnmark org k nodeid)
  assume "pr_wf s"
  then show ?thesis unfolding RUnmark
    by (auto simp: removeMemberAnotations_def permitted_snd Let_def log_action_def split: option.split)
qed (simp_all add: create_wf Update_wf delete_wf bulk_wf)


theorem members_stay_scoped_witness:
  "may_use (demo_proc demo_sync) ''abcdef0123000001''"
proof -
  let ?rq = "RDatabaseOnly None ''abcdef0123000001'' ''1234567890'' None (Some ''x'') []"
  have "network_view ''abcdef0123000001'' (fold (\<lambda>(env, rq). run_member env rq) [(demo_proc demo_sync, ?rq)] (demo_proc_state [demo_member]))
      \<noteq> network_view ''abcdef0123000001'' (demo_proc_state [demo_member])"
    by code_simp
  from members_stay_scoped[OF this] show ?thesis by simp
qed

lemma permitted_elim: "(\<And>e. P (Inl e, s)) \<Longrightarrow> P (f s) \<Longrightarrow> P (permitted env nwid r f s)"
  by (simp add: permitted_def split: sum.split)

lemma log_elim:
  assumes "P (Inl record_missing, s)" "\<And>t. pr_members t = pr_members s \<Longrightarrow> pr_calls t = pr_calls s \<Longrightarrow> P (f t)"
  shows "P (log_action env org a f s)"
  using assms by (simp add: log_action_def)

lemma log_existing: "(truthy org \<longrightarrow> the org \<in> set (pe_orgs env)) \<Longrightarrow>
    \<exists>t. log_action env org a f s = f t \<and> pr_members t = pr_members s \<and> pr_calls t = pr_calls s"
  by (auto simp: log_action_def intro!: exI)

lemma rename_calls: "(\<forall>n. pe_update env False n i p \<noteq> None) \<Longrightarrow>
  \<exists>t. rename_others env org i p ns s = (Inr (), t) \<and> pr_calls t = pr_calls s @ map (\<lambda>n. MemberUpdate False n i p) ns"
proof (induction ns arbitrary: s)
  case (Cons n ns)
  obtain a where "pe_update env False n i p = Some a" using Cons.prems by blast
  then show ?case using Cons.IH[OF Cons.prems] by (simp add: Let_def) (metis (no_types) rows_put(2) rows_send(3) append.assoc append_Cons append_Nil)
qed simp

lemma store_calls: "pr_calls (snd (store_params env nwid i p rv s)) = pr_calls s"
  by (auto simp: store_params_def Let_def put_rows_def split: option.split sum.split)

text \<open>The organisation of a renaming is not checked: whoever may use some network reaches, with a renaming that names any
  organisation with common names, the same member in all networks of that organisation; the whole
  set of parameters, the authorisation included, is sent to the controller for them.\<close>

theorem renaming_trusts_organisation:
  assumes "may_use env nwid" "truthy (pm_name p)" "org \<noteq> []" "org \<in> set (pe_orgs env)" "se_orgRename (pe_sync env) org"
    and "m \<in> set (pr_rows s)" "member_elsewhere env (Some org) i nwid m" "\<forall>n. pe_update env False n i p \<noteq> None"
  shows "MemberUpdate False (m_nwid m) i p \<in> set (pr_calls (snd (member_Update env (Some org) False nwid i p s)))"
proof -
  let ?ns = "rename_targets env (Some org) i nwid p (pr_rows s)"
  have target: "m_nwid m \<in> set ?ns" using assms(2,3,5-7) by (simp add: rename_targets_def)
  have st: "set (pr_calls u) \<subseteq> set (pr_calls (snd (sbind (store_params env nwid i p rv u) (\<lambda>_ s3. (Inr d, s3)))))" for rv d u
    by (rule sbind_keeps[of "\<lambda>v. set (pr_calls u) \<subseteq> set (pr_calls v)"]) (simp_all add: store_calls)
  obtain t where t: "pr_members t = pr_members s" and u: "snd (member_Update env (Some org) False nwid i p s) = snd (update_body env (Some org) False nwid i p t)"
    unfolding member_Update_def permitted_snd using assms(1,4) log_existing[of "Some org" env] by (metis option.sel)
  obtain w where w: "rename_others env (Some org) i p ?ns (upsert_org_settings (Some org) p t) = (Inr (), w)" "pr_calls w = pr_calls t @ map (\<lambda>n. MemberUpdate False n i p) ?ns"
    using rename_calls[OF assms(8), of "Some org" ?ns "upsert_org_settings (Some org) p t"] by auto
  then have "MemberUpdate False (m_nwid m) i p \<in> set (pr_calls w)" using target by auto
  moreover from this have "MemberUpdate False (m_nwid m) i p \<in> set (pr_calls (snd (sbind (store_params env nwid i p rv (send (MemberUpdate False nwid i p) w)) (\<lambda>_ s3. (Inr d, s3)))))" for rv d
    using st[of "send (MemberUpdate False nwid i p) w" rv d] by (simp add: subset_iff)
  moreover have "pr_rows t = pr_rows s" using t by (simp add: pr_rows_def)
  ultimately show ?thesis unfolding u update_body_def using w(1)
    by (auto simp: Let_def split: option.split)
qed

theorem renaming_trusts_organisation_witness:
  "find_org_role ''o1'' ''u2'' foreign_db = None \<and> \<not> may_use (demo_proc foreign_sync) ''n1''
    \<and> MemberUpdate False ''n1'' ''1234567890'' foreign_params \<in> set (pr_calls (snd (member_Update (demo_proc foreign_sync) (Some ''o1'') False
        ''n2'' ''1234567890'' foreign_params (demo_proc_state [demo_member\<lparr>m_nwid := ''n1''\<rparr>]))))"
proof -
  let ?e = "demo_proc foreign_sync" and ?m = "demo_member\<lparr>m_nwid := ''n1''\<rparr>"
  have f: "find_org_role ''o1'' ''u2'' foreign_db = None" "\<not> may_use ?e ''n1''" "may_use ?e ''n2''"
    "se_orgRename (pe_sync ?e) ''o1''" "''o1'' \<in> set (pe_orgs ?e)" "member_elsewhere ?e (Some ''o1'') ''1234567890'' ''n2'' ?m"
    by code_simp+
  have "MemberUpdate False (m_nwid ?m) ''1234567890'' foreign_params \<in> set (pr_calls (snd (member_Update ?e (Some ''o1'') False
        ''n2'' ''1234567890'' foreign_params (demo_proc_state [?m]))))"
    by (rule renaming_trusts_organisation[OF f(3) _ _ f(5,4) _ f(6)]) (simp_all add: demo_proc_state_def pr_rows_def demo_proc_def)
  with f show ?thesis by simp
qed

text \<open>The settings row of the organisation is created on the way, whether or not the caller belongs to it.\<close>

lemma others_settings: "pr_orgSettings (snd (rename_others env org i p ns s)) = pr_orgSettings s"
  by (induction ns arbitrary: s) (simp_all add: Let_def put_rows_def send_def split: option.split)

lemma renaming_creates_settings:
  assumes "may_use env nwid" "truthy (pm_name p)" "org \<noteq> []" "org \<in> set (pe_orgs env)"
  shows "org \<in> set (pr_orgSettings (snd (member_Update env (Some org) central nwid i p s)))"
proof -
  let ?P = "\<lambda>u. org \<in> set (pr_orgSettings u)"
  have st: "?P u \<Longrightarrow> ?P (snd (sbind (store_params env nwid i p rv u) (\<lambda>_ s3. (Inr d, s3))))" for rv d u
    by (rule sbind_keeps[of ?P]) (auto simp: store_params_def Let_def put_rows_def split: option.split sum.split)
  have up: "?P (upsert_org_settings (Some org) p t)" for t using assms(2,3) by (simp add: upsert_org_settings_def)
  have "?P (snd (update_body env (Some org) central nwid i p t))" for t
    unfolding update_body_def by (rule sbind_keeps[of ?P])
      (auto simp: others_settings up Let_def send_def intro!: st split: option.split)
  then show ?thesis unfolding member_Update_def permitted_snd using assms(1,4) by (simp add: log_action_def)
qed

section \<open>Stashing\<close>

lemma stash_no_renames: "rename_targets env org i nwid stash_params rows = []"
  by (simp add: rename_targets_def stash_params_def)

lemma unnamed_no_upsert: "pm_name p = None \<Longrightarrow> upsert_org_settings org p s = s"
  by (simp add: upsert_org_settings_def)

lemma stash_no_upsert [simp]: "upsert_org_settings org stash_params s = s"
  by (simp add: upsert_org_settings_def stash_params_def)

lemma update_row:
  assumes "row_at nwid i (pr_rows s) = Some m"
  shows "\<exists>m'. row_at nwid i (pr_rows (snd (member_Update env org False nwid i stash_params s))) = Some m'
    \<and> (is_ok (fst (member_Update env org False nwid i stash_params s)) \<longrightarrow> m_authorized m' = Some False \<and> m_ipAssignments m' = [])"
proof -
  have k: "keeps_key (apply_params p)" for p by (simp add: keeps_key_def row_key_def)
  have st: "\<exists>m'. row_at nwid i (pr_rows (snd (sbind (store_params env nwid i stash_params rv u) (\<lambda>_ s3. (Inr d, s3))))) = Some m'
     \<and> (is_ok (fst (sbind (store_params env nwid i stash_params rv u) (\<lambda>_ s3. (Inr d, s3)))) \<longrightarrow> m_authorized m' = Some False \<and> m_ipAssignments m' = [])"
    if "row_at nwid i (pr_rows u) = Some m" for rv d u
    using that by (auto simp: store_params_def Let_def row_at_update[OF k] put_rows_def pr_rows_def split: option.split sum.split)
      (simp_all add: apply_params_def stash_params_def)
  let ?P = "\<lambda>x. \<exists>m'. row_at nwid i (pr_rows (snd x)) = Some m' \<and> (is_ok (fst x) \<longrightarrow> m_authorized m' = Some False \<and> m_ipAssignments m' = [])"
  show ?thesis unfolding member_Update_def
  proof (rule permitted_elim[where P = ?P], goal_cases)
    case (2)
    show ?case
    proof (rule log_elim[where P = ?P], goal_cases)
      case (2 t)
      then have "row_at nwid i (pr_rows t) = Some m" using assms by (simp add: pr_rows_def)
      then show ?case using st[of "send (MemberUpdate False nwid i stash_params) t"]
        by (auto simp: update_body_def stash_no_renames Let_def split: option.split)
    qed (use assms in simp)
  qed (use assms in simp)
qed


lemma stash_row:
  assumes "stash env org nwid i s = (Inr r, s')" "row_at nwid i (pr_rows s) = Some m"
  shows "\<exists>m'. row_at nwid i (pr_rows s') = Some m' \<and> m_deleted m' = Some True
    \<and> (r \<noteq> None \<longrightarrow> m_authorized m' = Some False \<and> m_ipAssignments m' = [])"
proof -
  let ?P = "\<lambda>x. fst x = Inr r \<longrightarrow> (\<exists>m'. row_at nwid i (pr_rows (snd x)) = Some m' \<and> m_deleted m' = Some True
    \<and> (r \<noteq> None \<longrightarrow> m_authorized m' = Some False \<and> m_ipAssignments m' = []))"
  have k: "keeps_key (m_deleted_update f)" for f by (simp add: keeps_key_def row_key_def)
  have "?P (stash env org nwid i s)" unfolding stash_def
  proof (rule permitted_elim[where P = ?P], goal_cases)
    case (2)
    show ?case
    proof (rule log_elim[where P = ?P], goal_cases)
      case (2 t)
      then have "row_at nwid i (pr_rows t) = Some m" using assms(2) by (simp add: pr_rows_def)
      from update_row[OF this, of env org] show ?case
        by (auto simp: Let_def case_prod_beta row_at_update[OF k] split: sum.split_asm)
    qed simp
  qed simp
  then show ?thesis using assms(1) by simp
qed

text \<open>Stashing is final: whatever the controller answered to the deauthorisation, after a stash and any later reconcile,
  full or incremental, the member's row is hidden, and if the controller accepted, the member is stored as
  deauthorised without addresses.\<close>

theorem stash_survives_reconcile:
  assumes "stash env org nwid i s = (Inr r, s1)" "row_at nwid i (pr_rows s) = Some m" "table_wf (pr_members s)"
    and "se_members senv nwid = Some revs" "env_ready senv nwid" "controller_ok senv nwid revs"
    and "reconcileNetworkMembers senv nwid full (pr_members s1) = (ms, res)"
  shows "\<exists>m'. row_at nwid i (ms_rows ms) = Some m' \<and> m_deleted m' = Some True
    \<and> (r \<noteq> None \<longrightarrow> m_authorized m' = Some False \<and> m_ipAssignments m' = [])"
proof -
  have "table_wf (pr_members s1)" using request_wf[OF assms(3), of env "RStash org nwid i"] assms(1) by simp
  then have wf: "rows_wf (ms_rows (pr_members s1))" by (simp add: table_wf_def)
  obtain m' where m': "row_at nwid i (pr_rows s1) = Some m'" "m_deleted m' = Some True"
    "r \<noteq> None \<longrightarrow> m_authorized m' = Some False \<and> m_ipAssignments m' = []"
    using stash_row[OF assms(1,2)] by blast
  from stashed_row_kept[OF assms(4-6) wf assms(7) m'(1)[unfolded pr_rows_def] m'(2)] m' show ?thesis by blast
qed


theorem stash_survives_reconcile_witness:
  "\<exists>s1 d. stash (demo_proc demo_sync) None ''abcdef0123000001'' ''1234567890'' (demo_proc_state [idle_member]) = (Inr (Some d), s1)
    \<and> (case row_at ''abcdef0123000001'' ''1234567890'' (ms_rows (fst (reconcileNetworkMembers demo_sync ''abcdef0123000001'' True (pr_members s1)))) of
         None \<Rightarrow> False | Some m \<Rightarrow> m_deleted m = Some True \<and> m_authorized m = Some False)"
proof -
  let ?st = "stash (demo_proc demo_sync) None ''abcdef0123000001'' ''1234567890'' (demo_proc_state [idle_member])"
  have "case fst ?st of Inr (Some d) \<Rightarrow> True | _ \<Rightarrow> False" by code_simp
  then obtain d s1 where st: "?st = (Inr (Some d), s1)" by (cases ?st) (auto split: sum.split_asm option.split_asm)
  obtain ms res where r: "reconcileNetworkMembers demo_sync ''abcdef0123000001'' True (pr_members s1) = (ms, res)" by (meson surj_pair)
  have row: "row_at ''abcdef0123000001'' ''1234567890'' (pr_rows (demo_proc_state [idle_member])) = Some idle_member"
    by (simp add: row_at_def demo_member_def demo_proc_state_def pr_rows_def)
  have wf: "table_wf (pr_members (demo_proc_state [idle_member]))"
    by (simp add: table_wf_def rows_wf_def demo_proc_state_def demo_member_def)
  from stash_survives_reconcile[OF st row wf demo_sync_ok(1-3) r] st r show ?thesis by auto
qed

end
