(* ===== verification/Rule_Compiler.thy ===== *)
theory Rule_Compiler
  imports Ip_Tools
begin

text \<open>
  The compiler of flow rules (\<^verbatim>\<open>utils/rule-compiler.js\<close>), which \<^verbatim>\<open>setFlowRule\<close> runs on the text a user
  writes: pass 1 splits the source into tokens and blocks, pass 2 collects macros, tags and capabilities,
  pass 3 renders the rules that are sent to the controller.

  An array of the source tree is an \<open>elem\<close>: a token with its position, or a block of elements. An error is an
  array of a position and a message, or an exception that \<^verbatim>\<open>compile\<close> catches (\<open>Unexpected\<close>). What a failing run
  has already pushed to the arrays of the caller is dropped, because the caller throws. JavaScript objects are
  association lists; reading a property also finds what every object inherits (\<open>inherited\<close>). Strings have code
  units below 256. The parameter \<open>depth\<close> is the number of nested calls the engine's stack has room for.
\<close>

section \<open>Tables\<close>

definition inherited :: "string list" where
  "inherited = [''constructor'', ''__defineGetter__'', ''__defineSetter__'', ''hasOwnProperty'', ''__lookupGetter__'',
     ''__lookupSetter__'', ''isPrototypeOf'', ''propertyIsEnumerable'', ''toString'', ''valueOf'', ''__proto__'', ''toLocaleString'']"

definition in_obj :: "string \<Rightarrow> string list \<Rightarrow> bool" where
  "in_obj k ks \<longleftrightarrow> k \<in> set ks \<or> k \<in> set inherited"

definition CHARACTERISTIC_BITS :: "(string \<times> int) list" where
  "CHARACTERISTIC_BITS = [(''inbound'', 63), (''multicast'', 62), (''broadcast'', 61), (''ipauth'', 60), (''macauth'', 59),
     (''tcp_fin'', 0), (''tcp_syn'', 1), (''tcp_rst'', 2), (''tcp_psh'', 3), (''tcp_ack'', 4), (''tcp_urg'', 5), (''tcp_ece'', 6),
     (''tcp_cwr'', 7), (''tcp_ns'', 8), (''tcp_rs2'', 9), (''tcp_rs1'', 10), (''tcp_rs0'', 11)]"

definition ETHERTYPES :: "(string \<times> int) list" where
  "ETHERTYPES = [(''ipv4'', 0x0800), (''arp'', 0x0806), (''wol'', 0x0842), (''rarp'', 0x8035), (''ipv6'', 0x86dd),
     (''atalk'', 0x809b), (''aarp'', 0x80f3), (''ipx_a'', 0x8137), (''ipx_b'', 0x8138)]"

definition IP_PROTOCOLS :: "(string \<times> int) list" where
  "IP_PROTOCOLS = [(''icmp'', 0x01), (''icmp4'', 0x01), (''icmpv4'', 0x01), (''igmp'', 0x02), (''ipip'', 0x04), (''tcp'', 0x06),
     (''egp'', 0x08), (''igp'', 0x09), (''udp'', 0x11), (''rdp'', 0x1b), (''esp'', 0x32), (''ah'', 0x33), (''icmp6'', 0x3a),
     (''icmpv6'', 0x3a), (''l2tp'', 0x73), (''sctp'', 0x84), (''udplite'', 0x88)]"

definition OPEN_BLOCK_KEYWORDS :: "string list" where
  "OPEN_BLOCK_KEYWORDS = [''macro'', ''tag'', ''cap'', ''drop'', ''accept'', ''tee'', ''watch'', ''redirect'', ''break'', ''priority'']"

definition RESERVED_WORDS :: "string list" where
  "RESERVED_WORDS = [''macro'', ''tag'', ''cap'', ''default'',
     ''drop'', ''accept'', ''tee'', ''watch'', ''redirect'', ''break'', ''priority'',
     ''ztsrc'', ''ztdest'', ''vlan'', ''vlanpcp'', ''vlandei'', ''ethertype'', ''macsrc'', ''macdest'', ''ipsrc'', ''ipdest'',
     ''iptos'', ''ipprotocol'', ''icmp'', ''sport'', ''dport'', ''chr'', ''framesize'', ''random'', ''tand'', ''tor'', ''txor'',
     ''tdiff'', ''teq'', ''tseq'', ''treq'',
     ''type'', ''enum'', ''class'', ''define'', ''import'', ''include'', ''log'', ''not'', ''xor'', ''or'', ''and'', ''set'', ''var'', ''let'']"

definition KEYWORD_TO_API_MAP :: "(string \<times> string) list" where
  "KEYWORD_TO_API_MAP = [(''drop'', ''ACTION_DROP''), (''accept'', ''ACTION_ACCEPT''), (''tee'', ''ACTION_TEE''),
     (''watch'', ''ACTION_WATCH''), (''redirect'', ''ACTION_REDIRECT''), (''break'', ''ACTION_BREAK''), (''priority'', ''ACTION_PRIORITY''),
     (''ztsrc'', ''MATCH_SOURCE_ZEROTIER_ADDRESS''), (''ztdest'', ''MATCH_DEST_ZEROTIER_ADDRESS''), (''vlan'', ''MATCH_VLAN_ID''),
     (''vlanpcp'', ''MATCH_VLAN_PCP''), (''vlandei'', ''MATCH_VLAN_DEI''), (''ethertype'', ''MATCH_ETHERTYPE''),
     (''macsrc'', ''MATCH_MAC_SOURCE''), (''macdest'', ''MATCH_MAC_DEST''), (''iptos'', ''MATCH_IP_TOS''),
     (''ipprotocol'', ''MATCH_IP_PROTOCOL''), (''icmp'', ''MATCH_ICMP''), (''sport'', ''MATCH_IP_SOURCE_PORT_RANGE''),
     (''dport'', ''MATCH_IP_DEST_PORT_RANGE''), (''chr'', ''MATCH_CHARACTERISTICS''), (''framesize'', ''MATCH_FRAME_SIZE_RANGE''),
     (''random'', ''MATCH_RANDOM''), (''tand'', ''MATCH_TAGS_BITWISE_AND''), (''tor'', ''MATCH_TAGS_BITWISE_OR''),
     (''txor'', ''MATCH_TAGS_BITWISE_XOR''), (''tdiff'', ''MATCH_TAGS_DIFFERENCE''), (''teq'', ''MATCH_TAGS_EQUAL''),
     (''tseq'', ''MATCH_TAG_SENDER''), (''treq'', ''MATCH_TAG_RECEIVER'')]"

definition MATCH_ARG_COUNTS :: "(string \<times> nat) list" where
  "MATCH_ARG_COUNTS = [(''ztsrc'', 1), (''ztdest'', 1), (''vlan'', 1), (''vlanpcp'', 1), (''vlandei'', 1), (''ethertype'', 1),
     (''macsrc'', 1), (''macdest'', 1), (''ipsrc'', 1), (''ipdest'', 1), (''iptos'', 2), (''ipprotocol'', 1), (''icmp'', 2),
     (''sport'', 1), (''dport'', 1), (''chr'', 1), (''framesize'', 1), (''random'', 1), (''tand'', 2), (''tor'', 2), (''txor'', 2),
     (''tdiff'', 2), (''teq'', 2), (''tseq'', 2), (''treq'', 2)]"

definition api :: "string \<Rightarrow> string" where
  "api k = (case map_of KEYWORD_TO_API_MAP k of None \<Rightarrow> [] | Some t \<Rightarrow> t)"

section \<open>Names, numbers and addresses\<close>

definition intl_alphanum :: "char \<Rightarrow> bool" where
  "intl_alphanum c \<longleftrightarrow> is_alnum c \<or> code c \<in> {170, 181, 186} \<or> 192 \<le> code c \<and> code c \<le> 214
     \<or> 216 \<le> code c \<and> code c \<le> 246 \<or> 248 \<le> code c"

definition isValidName :: "string \<Rightarrow> bool" where
  "isValidName n \<longleftrightarrow> n \<noteq> [] \<and> \<not> is_digit (hd n) \<and> list_all (\<lambda>c. c = CHR ''_'' \<or> intl_alphanum c) n"

definition parseNum :: "string \<Rightarrow> int" where
  "parseNum n =
     (let m = to_lower n;
          v = (if length m > 2 \<and> take 2 m = ''0x'' then parse_hex (drop 2 m) else parse_int10 m)
      in if n = [] then - 1 else case v of None \<Rightarrow> - 1 | Some k \<Rightarrow> k)"

definition hex_lower :: "char \<Rightarrow> bool" where
  "hex_lower c \<longleftrightarrow> c \<in> set ''0123456789abcdef''"

fun clean_mac :: "string \<Rightarrow> string \<Rightarrow> nat \<Rightarrow> string" where
  "clean_mac [] m2 n = m2"
| "clean_mac (c # cs) m2 n =
     (if length m2 \<ge> 17 then m2
      else if hex_lower c
      then (if length m2 + 1 \<noteq> 17 \<and> n + 1 \<ge> 2 then clean_mac cs (m2 @ [c, CHR '':'']) 0 else clean_mac cs (m2 @ [c]) (n + 1))
      else clean_mac cs m2 n)"

definition cleanMac :: "string \<Rightarrow> string" where
  "cleanMac m = clean_mac (to_lower m) [] 0"

definition cleanHex :: "string \<Rightarrow> string" where
  "cleanHex m = filter hex_lower (to_lower m)"

text \<open>A regular expression as the function from a string to what may be left of it after a match.\<close>

datatype rx = Cls "(char \<times> char) list" | Lit string | Sq rx rx | Alt rx rx | Rep rx nat nat | Plus rx

fun up_to :: "nat \<Rightarrow> (string \<Rightarrow> string list) \<Rightarrow> string \<Rightarrow> string list" where
  "up_to 0 f s = [s]"
| "up_to (Suc n) f s = s # concat (map (up_to n f) (f s))"

fun exactly :: "nat \<Rightarrow> (string \<Rightarrow> string list) \<Rightarrow> string \<Rightarrow> string list" where
  "exactly 0 f s = [s]"
| "exactly (Suc n) f s = concat (map (exactly n f) (f s))"

primrec rx_rest :: "rx \<Rightarrow> string \<Rightarrow> string list" where
  "rx_rest (Cls rs) = (\<lambda>s. case s of [] \<Rightarrow> [] | c # t \<Rightarrow> if list_ex (\<lambda>(a, b). code a \<le> code c \<and> code c \<le> code b) rs then [t] else [])"
| "rx_rest (Lit w) = (\<lambda>s. if take (length w) s = w then [drop (length w) s] else [])"
| "rx_rest (Sq a b) = (\<lambda>s. concat (map (rx_rest b) (rx_rest a s)))"
| "rx_rest (Alt a b) = (\<lambda>s. rx_rest a s @ rx_rest b s)"
| "rx_rest (Rep r lo hi) = (\<lambda>s. concat (map (up_to (hi - lo) (rx_rest r)) (exactly lo (rx_rest r) s)))"
| "rx_rest (Plus r) = (\<lambda>s. concat (map (up_to (length s) (rx_rest r)) (rx_rest r s)))"

text \<open>\<^verbatim>\<open>re.test(s)\<close>: a match anywhere in the string.\<close>

definition rx_test :: "rx \<Rightarrow> string \<Rightarrow> bool" where
  "rx_test r s \<longleftrightarrow> list_ex (\<lambda>i. rx_rest r (drop i s) \<noteq> []) [0..<Suc (length s)]"

definition rx_digit :: rx where
  "rx_digit = Cls [(CHR ''0'', CHR ''9'')]"

definition rx_octet :: rx where
  "rx_octet = Alt (Sq (Lit ''25'') (Cls [(CHR ''0'', CHR ''5'')]))
     (Sq (Rep (Alt (Sq (Lit ''2'') (Cls [(CHR ''0'', CHR ''4'')])) (Sq (Rep (Lit ''1'') 0 1) rx_digit)) 0 1) rx_digit)"

definition IPV4_REGEX :: rx where
  "IPV4_REGEX = Sq (Rep (Sq rx_octet (Lit ''.'')) 3 3) rx_octet"

definition rx_h16 :: rx where
  "rx_h16 = Rep (Cls [(CHR ''0'', CHR ''9''), (CHR ''a'', CHR ''f''), (CHR ''A'', CHR ''F'')]) 1 4"

abbreviation "rx_pre \<equiv> Sq rx_h16 (Lit '':'')"
abbreviation "rx_post \<equiv> Sq (Lit '':'') rx_h16"

definition IPV6_REGEX :: rx where
  "IPV6_REGEX =
     Alt (Sq (Rep rx_pre 7 7) rx_h16)
    (Alt (Sq (Rep rx_pre 1 7) (Lit '':''))
    (Alt (Sq (Rep rx_pre 1 6) rx_post)
    (Alt (Sq (Rep rx_pre 1 5) (Rep rx_post 1 2))
    (Alt (Sq (Rep rx_pre 1 4) (Rep rx_post 1 3))
    (Alt (Sq (Rep rx_pre 1 3) (Rep rx_post 1 4))
    (Alt (Sq (Rep rx_pre 1 2) (Rep rx_post 1 5))
    (Alt (Sq rx_pre (Rep rx_post 1 6))
    (Alt (Sq (Lit '':'') (Alt (Rep rx_post 1 7) (Lit '':'')))
    (Alt (Sq (Lit ''fe80:'') (Sq (Rep (Sq (Lit '':'') (Rep (Cls [(CHR ''0'', CHR ''9''), (CHR ''a'', CHR ''f''), (CHR ''A'', CHR ''F'')]) 0 4)) 0 4)
            (Sq (Lit ''%'') (Plus (Cls [(CHR ''0'', CHR ''9''), (CHR ''a'', CHR ''z''), (CHR ''A'', CHR ''Z'')])))))
    (Alt (Sq (Lit ''::'') (Sq (Rep (Sq (Lit ''ffff'') (Sq (Rep (Sq (Lit '':'') (Rep (Lit ''0'') 1 4)) 0 1) (Lit '':''))) 0 1) IPV4_REGEX))
         (Sq (Rep rx_pre 1 4) (Sq (Lit '':'') IPV4_REGEX))))))))))))"

section \<open>Double precision\<close>

text \<open>The double nearest to \<open>n / d\<close> for \<open>n \<ge> 0\<close>, ties to even, as a fraction with a power of two below. Values outside the
  exponent range of doubles are not met where the result matters.\<close>

fun bit_len :: "int \<Rightarrow> nat" where
  "bit_len n = (if n \<le> 0 then 0 else Suc (bit_len (n div 2)))"

declare bit_len.simps [simp del]

definition round_even :: "int \<Rightarrow> int \<Rightarrow> int" where
  "round_even n d = (let q = n div d; r = n mod d in if 2 * r < d \<or> 2 * r = d \<and> even q then q else q + 1)"

definition scaled :: "int \<Rightarrow> int \<Rightarrow> int \<Rightarrow> int \<times> int" where
  "scaled k n d = (if 0 \<le> k then (n * 2 ^ nat k, d) else (n, d * 2 ^ nat (- k)))"

definition double_scale :: "int \<Rightarrow> int \<Rightarrow> int" where
  "double_scale n d =
     (let s = int (bit_len n) - int (bit_len d); (a, b) = scaled (53 - s) n d in if a div b \<ge> 2 ^ 53 then 52 - s else 53 - s)"

definition round_double :: "int \<Rightarrow> int \<Rightarrow> int \<times> int" where
  "round_double n d =
     (let k = double_scale n d; (a, b) = scaled k n d; q = round_even a b
      in if n \<le> 0 then (0, 1) else if 0 \<le> k then (q, 2 ^ nat k) else (q * 2 ^ nat (- k), 1))"

definition float_prefix :: "string \<Rightarrow> jsnum" where
  "float_prefix s =
     (let ip = takeWhile is_digit s; r = dropWhile is_digit s;
          (fp, r2) = (case r of c # t \<Rightarrow> if c = CHR ''.'' then (takeWhile is_digit t, dropWhile is_digit t) else ([], r) | [] \<Rightarrow> ([], r));
          e = (case r2 of c # t \<Rightarrow> if c = CHR ''e'' \<or> c = CHR ''E''
                 then (let (sg, u) = take_sign t in sg * int (digits_val 0 (takeWhile is_digit u))) else 0 | [] \<Rightarrow> 0)
      in if ip = [] \<and> fp = [] then JNaN else scale10 (digits_val 0 (ip @ fp)) (length fp) e)"

definition parse_float :: "string \<Rightarrow> jsnum" where
  "parse_float s =
     (let (sg, t) = take_sign (dropWhile is_space s); v = (if take 8 t = ''Infinity'' then JInf True else float_prefix t)
      in if sg < 0 then js_negate v else v)"

definition probability :: "jsnum \<Rightarrow> int" where
  "probability v =
     (case v of JNaN \<Rightarrow> 0 | JInf pos \<Rightarrow> if pos then 4294967295 else 0
      | JDec m k \<Rightarrow>
          (let (p, q) = round_double m (10 ^ k); (u, w) = (if p > q then (4294967295, 1) else round_double (4294967295 * p) q)
           in u div w))"

section \<open>Source trees and errors\<close>

datatype elem = Tok string int int | Block "elem list"

datatype js_pos = PNum int | PElem elem | PUndef

datatype compile_error = CompileError js_pos js_pos string | Unexpected | StackOverflow

fun elem_at :: "elem \<Rightarrow> nat \<Rightarrow> js_pos" where
  "elem_at (Tok w l c) i = PNum (if i = 1 then l else c)"
| "elem_at (Block es) i = (case nth_opt es i of None \<Rightarrow> PUndef | Some e \<Rightarrow> PElem e)"

definition err_at :: "elem \<Rightarrow> string \<Rightarrow> compile_error" where
  "err_at e m = CompileError (elem_at e 1) (elem_at e 2) m"

text \<open>\<^verbatim>\<open>e[0]\<close>: the text of a token; an array for a block, which is read as no text.\<close>

fun elem_text :: "elem \<Rightarrow> string" where
  "elem_text (Tok w l c) = w"
| "elem_text (Block es) = []"

definition keyword :: "elem \<Rightarrow> string" where
  "keyword e = to_lower (elem_text e)"

fun is_block :: "elem \<Rightarrow> bool" where
  "is_block (Tok w l c) = False"
| "is_block (Block es) = True"

text \<open>\<^verbatim>\<open>s.split(/[...]+/)\<close>: the pieces between runs of separators.\<close>

function split_runs :: "(char \<Rightarrow> bool) \<Rightarrow> string \<Rightarrow> string list" where
  "split_runs P s =
     (case dropWhile (\<lambda>c. \<not> P c) s of [] \<Rightarrow> [s]
      | c # t \<Rightarrow> takeWhile (\<lambda>c. \<not> P c) s # split_runs P (dropWhile P t))"
  by pat_completeness auto
termination
proof (relation "measure (\<lambda>(P, s). length s)")
  fix P s c t
  assume "dropWhile (\<lambda>c. \<not> P c) s = c # t"
  then have "length t < length s" by (metis length_Cons length_dropWhile_le less_eq_Suc_le)
  then show "((P, dropWhile P t), P, s) \<in> measure (\<lambda>(P, s). length s)"
    using length_dropWhile_le[of P t] by simp
qed simp

declare split_runs.simps [simp del]

section \<open>Pass 3: matches\<close>

datatype match_test = ZtAddr string | Numeric string int | Probability int | Mac string | Ip string
  | Icmp int "int option" | Range int int | Tos int int int | Mask string | TagTest int "int option"

datatype zt_rule = Match string bool bool match_test | Action string | TeeAction string string int | RedirectAction string string

datatype tag_default = NoDefault | DNum int | DArr elem

record tag_def =
  tg_id :: int
  tg_default :: tag_default
  tg_enums :: "(string \<times> int) list"
  tg_flags :: "(string \<times> int) list"

type_synonym arg = "string \<times> int \<times> int"
type_synonym tags = "(string \<times> tag_def) list"
type_synonym params = "(string \<times> string) list"
type_synonym named_test = "string \<times> match_test"

definition arg_err :: "arg \<Rightarrow> string \<Rightarrow> compile_error" where
  "arg_err a m = (case a of (w, l, c) \<Rightarrow> CompileError (PNum l) (PNum c) m)"

definition uint32 :: "int \<Rightarrow> bool" where
  "uint32 n \<longleftrightarrow> 0 \<le> n \<and> n \<le> 0xffffffff"

definition test_zt :: "string \<Rightarrow> arg \<Rightarrow> compile_error + named_test" where
  "test_zt m a =
     (let zt = cleanHex (fst a)
      in if length zt \<noteq> 10 then Inl (arg_err a ''Invalid ZeroTier address.'') else Inr (api m, ZtAddr zt))"

definition numeric_field :: "string \<Rightarrow> string" where
  "numeric_field m = (case map_of [(''vlan'', ''vlanId''), (''vlanpcp'', ''vlanPcp''), (''vlandei'', ''vlanDei''), (''ethertype'', ''etherType''),
     (''ipprotocol'', ''ipProtocol'')] m of None \<Rightarrow> [] | Some f \<Rightarrow> f)"

definition numeric_value :: "string \<Rightarrow> string \<Rightarrow> int" where
  "numeric_value m w =
     (case (if m = ''ethertype'' then map_of ETHERTYPES w else if m = ''ipprotocol'' then map_of IP_PROTOCOLS w else None) of
        Some n \<Rightarrow> n | None \<Rightarrow> parseNum w)"

definition test_numeric :: "string \<Rightarrow> arg \<Rightarrow> compile_error + named_test" where
  "test_numeric m a =
     (let n = numeric_value m (fst a)
      in if \<not> uint32 n then Inl (arg_err a ''Invalid numeric value.'') else Inr (api m, Numeric (numeric_field m) n))"

definition test_mac :: "string \<Rightarrow> arg \<Rightarrow> compile_error + named_test" where
  "test_mac m a =
     (let mac = cleanMac (fst a)
      in if length mac \<noteq> 17 then Inl (arg_err a ''Invalid MAC address.'') else Inr (api m, Mac mac))"

definition test_ip :: "string \<Rightarrow> arg \<Rightarrow> compile_error + named_test" where
  "test_ip m a =
     (let ip = fst a; ipOnly = takeWhile (\<lambda>c. c \<noteq> CHR ''/'') ip; suffix = (if m = ''ipsrc'' then ''SOURCE'' else ''DEST'')
      in if CHR ''/'' \<notin> set ip \<or> ipOnly = [] then Inl (arg_err a ''Missing /bits netmask length designation in IP.'')
         else if rx_test IPV6_REGEX ipOnly then Inr (''MATCH_IPV6_'' @ suffix, Ip ip)
         else if rx_test IPV4_REGEX ipOnly then Inr (''MATCH_IPV4_'' @ suffix, Ip ip)
         else Inl (arg_err a ''Invalid IP address (not valid IPv4 or IPv6).''))"

definition test_icmp :: "arg \<Rightarrow> arg \<Rightarrow> compile_error + named_test" where
  "test_icmp a b =
     (let ty = parseNum (fst a); cd = parseNum (fst b)
      in if ty < 0 \<or> ty > 0xff then Inl (arg_err a ''Missing or invalid ICMP type.'')
         else if cd > 0xff then Inl (arg_err b ''Invalid ICMP code (use -1 for none).'')
         else Inr (''MATCH_ICMP'', Icmp ty (if cd < 0 then None else Some cd)))"

text \<open>\<^verbatim>\<open>a-b\<close> or a single number, within a limit and in order; a dash in front is the sign.\<close>

definition number_range :: "int \<Rightarrow> string \<Rightarrow> (int \<times> int) option" where
  "number_range limit w =
     (let parts = js_split CHR ''-'' w;
          r = (if CHR ''-'' \<in> set (tl w) \<and> hd w \<noteq> CHR ''-''
               then (if length parts \<noteq> 2 then None else Some (parseNum (parts ! 0), parseNum (parts ! 1)))
               else Some (parseNum w, parseNum w))
      in case r of None \<Rightarrow> None
         | Some (fn, tn) \<Rightarrow> if fn < 0 \<or> fn > limit \<or> tn < 0 \<or> tn > limit \<or> tn < fn then None else Some (fn, tn))"

definition test_range :: "string \<Rightarrow> arg \<Rightarrow> compile_error + named_test" where
  "test_range m a =
     (case number_range 0xffff (fst a) of None \<Rightarrow> Inl (arg_err a ''Invalid numeric range.'') | Some (fn, tn) \<Rightarrow> Inr (api m, Range fn tn))"

definition test_tos :: "arg \<Rightarrow> arg \<Rightarrow> compile_error + named_test" where
  "test_tos a b =
     (let mask = parseNum (fst a)
      in if mask < 0 \<or> mask > 0xff then Inl (arg_err a ''Invalid mask.'')
         else case number_range 0xff (fst b) of
             None \<Rightarrow> Inl (arg_err b ''Invalid value range.'') | Some (fn, tn) \<Rightarrow> Inr (''MATCH_IP_TOS'', Tos mask fn tn))"

definition chr_bit :: "string \<Rightarrow> int" where
  "chr_bit w = (case map_of CHARACTERISTIC_BITS w of Some n \<Rightarrow> n | None \<Rightarrow> parseNum w)"

definition add_bit :: "int \<Rightarrow> int \<times> int \<Rightarrow> int \<times> int" where
  "add_bit b masks =
     (case masks of (hi, lo) \<Rightarrow>
        if b \<ge> 32 then (js_or hi \<bar>js_shl 1 (b - 32)\<bar>, lo) else (hi, js_or lo \<bar>js_shl 1 b\<bar>))"

fun chr_masks :: "string list \<Rightarrow> int \<times> int \<Rightarrow> (int \<times> int) option" where
  "chr_masks [] masks = Some masks"
| "chr_masks (w # ws) masks =
     (if w = [] then chr_masks ws masks
      else if chr_bit w < 0 \<or> chr_bit w > 63 then None
      else chr_masks ws (add_bit (chr_bit w) masks))"

definition mask_text :: "int \<times> int \<Rightarrow> string" where
  "mask_text masks = (case masks of (hi, lo) \<Rightarrow> pad_start 8 (int_hex \<bar>hi\<bar>) @ pad_start 8 (int_hex \<bar>lo\<bar>))"

definition test_chr :: "arg \<Rightarrow> compile_error + named_test" where
  "test_chr a =
     (case chr_masks (split_runs (\<lambda>c. c = CHR '','') (fst a)) (0, 0) of
        None \<Rightarrow> Inl (arg_err a ''Invalid bit index (range 0-63) or unrecognized name.'')
      | Some masks \<Rightarrow> Inr (''MATCH_CHARACTERISTICS'', Mask (mask_text masks)))"

text \<open>An inherited name is no number, and comparisons with it are false: the test carries no value then.\<close>

definition tag_value :: "tag_def \<Rightarrow> string \<Rightarrow> int option" where
  "tag_value t w =
     (case map_of (tg_flags t) w of Some v \<Rightarrow> Some v
      | None \<Rightarrow> if w \<in> set inherited then None
          else case map_of (tg_enums t) w of Some v \<Rightarrow> Some v | None \<Rightarrow> Some (parseNum w))"

definition test_tag :: "tags \<Rightarrow> string \<Rightarrow> arg \<Rightarrow> arg \<Rightarrow> compile_error + named_test" where
  "test_tag tags m a b =
     (let (i, v) = (case map_of tags (fst a) of Some t \<Rightarrow> (tg_id t, tag_value t (fst b)) | None \<Rightarrow> (parseNum (fst a), Some (parseNum (fst b))))
      in if map_of tags (fst a) = None \<and> fst a \<in> set inherited then Inl Unexpected
         else if \<not> uint32 i then Inl (arg_err a ''Undefined tag name and invalid tag value.'')
         else if (case v of None \<Rightarrow> False | Some n \<Rightarrow> \<not> uint32 n) then Inl (arg_err b ''Invalid tag value or unrecognized flag/enum name.'')
         else Inr (api m, TagTest i v))"

text \<open>The switch over the match types; an inherited name falls through it.\<close>

definition render_test :: "tags \<Rightarrow> string \<Rightarrow> arg list \<Rightarrow> compile_error + named_test option" where
  "render_test tags m args =
     (let some = (\<lambda>r. rbind r (\<lambda>t. Inr (Some t)))
      in if m \<in> set [''ztsrc'', ''ztdest''] then some (test_zt m (args ! 0))
         else if m \<in> set [''vlan'', ''vlanpcp'', ''vlandei'', ''ethertype'', ''ipprotocol''] then some (test_numeric m (args ! 0))
         else if m = ''random'' then Inr (Some (api m, Probability (probability (parse_float (fst (args ! 0))))))
         else if m \<in> set [''macsrc'', ''macdest''] then some (test_mac m (args ! 0))
         else if m \<in> set [''ipsrc'', ''ipdest''] then some (test_ip m (args ! 0))
         else if m = ''icmp'' then some (test_icmp (args ! 0) (args ! 1))
         else if m \<in> set [''sport'', ''dport'', ''framesize''] then some (test_range m (args ! 0))
         else if m = ''iptos'' then some (test_tos (args ! 0) (args ! 1))
         else if m = ''chr'' then some (test_chr (args ! 0))
         else if m \<in> set [''tand'', ''tor'', ''txor'', ''tdiff'', ''teq'', ''tseq'', ''treq''] then some (test_tag tags m (args ! 0) (args ! 1))
         else Inr None)"

fun take_args :: "params \<Rightarrow> elem \<Rightarrow> nat \<Rightarrow> elem list \<Rightarrow> compile_error + arg list" where
  "take_args params prev 0 es = Inr []"
| "take_args params prev (Suc n) [] = Inl (err_at prev ''Missing argument(s) to match.'')"
| "take_args params prev (Suc n) (Block b # es) =
     Inl (err_at prev ''Missing argument(s) to match (invalid argument or argument is reserved word).'')"
| "take_args params prev (Suc n) (Tok w l c # es) =
     (if in_obj w RESERVED_WORDS \<or> w = []
      then Inl (err_at prev ''Missing argument(s) to match (invalid argument or argument is reserved word).'')
      else if hd w = CHR ''$''
      then (case map_of params w of
              None \<Rightarrow> Inl (err_at (Tok w l c) ''Undefined variable name.'')
            | Some v \<Rightarrow> rbind (take_args params (Tok w l c) n es) (\<lambda>as. Inr ((v, l, c) # as)))
      else rbind (take_args params (Tok w l c) n es) (\<lambda>as. Inr ((w, l, c) # as)))"

definition arg_count :: "string \<Rightarrow> nat option" where
  "arg_count m = (case map_of MATCH_ARG_COUNTS m of Some n \<Rightarrow> Some n | None \<Rightarrow> if m \<in> set inherited then Some 0 else None)"

function render_matches :: "tags \<Rightarrow> params \<Rightarrow> bool \<Rightarrow> bool \<Rightarrow> elem list \<Rightarrow> compile_error + zt_rule list" where
  "render_matches tags params nt orr [] = Inr []"
| "render_matches tags params nt orr (e # es) =
     (let m = keyword e
      in if m = [] \<or> m = ''and'' then render_matches tags params nt orr es
         else if m = ''not'' then render_matches tags params True orr es
         else if m = ''or'' then render_matches tags params nt True es
         else case arg_count m of
             None \<Rightarrow> Inl (err_at e (''Unrecognized match type \"'' @ m @ ''\".''))
           | Some n \<Rightarrow>
               rbind (take_args params e n es) (\<lambda>args.
               rbind (render_test tags m args) (\<lambda>t.
               rbind (render_matches tags params False False (drop n es)) (\<lambda>rs.
               Inr ((case t of None \<Rightarrow> [] | Some (ty, x) \<Rightarrow> [Match ty nt orr x]) @ rs)))))"
  by pat_completeness auto
termination
  by (relation "measure (\<lambda>(tags, params, nt, orr, es). length es)") auto

section \<open>Pass 3: actions\<close>

record macro_def =
  mc_params :: "(string \<times> nat) list"
  mc_rules :: "elem list"

type_synonym macros = "(string \<times> macro_def) list"

text \<open>\<^verbatim>\<open>name(a,b)\<close> into the name and the pieces between the parentheses.\<close>

definition call_parts :: "string \<Rightarrow> string \<times> string list" where
  "call_parts s =
     (let n = takeWhile (\<lambda>c. c \<noteq> CHR ''('') s; r = dropWhile (\<lambda>c. c \<noteq> CHR ''('') s
      in if n \<noteq> [] \<and> r \<noteq> [] then (n, split_runs (\<lambda>c. c = CHR '','' \<or> c = CHR '')'') (tl r)) else (s, []))"

definition bind_params :: "(string \<times> nat) list \<Rightarrow> string list \<Rightarrow> params option" where
  "bind_params ps args = (if list_ex (\<lambda>(p, i). length args \<le> i) ps then None else Some (map (\<lambda>(p, i). (p, args ! i)) ps))"

definition macro_call :: "macros \<Rightarrow> elem \<Rightarrow> compile_error + (elem list \<times> params)" where
  "macro_call macros nm =
     (let (n, pieces) = call_parts (elem_text nm); args = filter (\<lambda>p. p \<noteq> []) pieces
      in case map_of macros n of
           None \<Rightarrow> if n \<in> set inherited then Inl Unexpected else Inl (err_at nm ''Macro name not found.'')
         | Some mc \<Rightarrow> (case bind_params (mc_params mc) args of
             None \<Rightarrow> Inl (err_at nm ''Missing one or more required macro parameter.'')
           | Some ps \<Rightarrow> Inr (mc_rules mc, ps)))"

text \<open>The parameters of \<^verbatim>\<open>tee\<close>, \<^verbatim>\<open>watch\<close> and \<^verbatim>\<open>redirect\<close>: the test that they are there looks at the length of the first
  element, which is 3 for every token.\<close>

fun first_has :: "nat \<Rightarrow> elem list \<Rightarrow> bool" where
  "first_has n (Tok w l c # es) = (n \<le> 3)"
| "first_has n (Block b # es) = (n \<le> length b)"
| "first_has n [] = False"

fun tee_rule :: "tags \<Rightarrow> params \<Rightarrow> string \<Rightarrow> elem list \<Rightarrow> compile_error + zt_rule list" where
  "tee_rule tags params action (len # target # es) =
     (let n = parseNum (elem_text len)
      in if n < - 1 \<or> n > 0xffff
         then Inl (CompileError (elem_at len 1) (elem_at target 2) ''Tee/watch max packet length to forward invalid or out of range.'')
         else if length (elem_text target) \<noteq> 10 then Inl (err_at target ''Missing or invalid ZeroTier address target for tee/watch.'')
         else rbind (render_matches tags params False False es) (\<lambda>rs. Inr (rs @ [TeeAction (api action) (elem_text target) n])))"
| "tee_rule tags params action es = Inl Unexpected"

fun redirect_rule :: "tags \<Rightarrow> params \<Rightarrow> string \<Rightarrow> elem list \<Rightarrow> compile_error + zt_rule list" where
  "redirect_rule tags params action (target # es) =
     (if length (elem_text target) \<noteq> 10 then Inl (err_at target ''Missing or invalid ZeroTier address target for redirect.'')
      else rbind (render_matches tags params False False es) (\<lambda>rs. Inr (rs @ [RedirectAction (api action) (elem_text target)])))"
| "redirect_rule tags params action [] = Inl Unexpected"

text \<open>One turn of the loop over the actions: rules, or the body of a macro with its parameters, and the number
  of further elements it takes.\<close>

definition action_step :: "macros \<Rightarrow> tags \<Rightarrow> params \<Rightarrow> elem \<Rightarrow> elem list \<Rightarrow> compile_error + ((zt_rule list + elem list \<times> params) \<times> nat)" where
  "action_step macros tags params e es =
     (let action = keyword e
      in if action = [] then Inr (Inl [], 0)
         else if action = ''include'' then
           (case es of [] \<Rightarrow> Inl (err_at e ''Include directive is missing a macro name.'')
            | nm # _ \<Rightarrow> rbind (macro_call macros nm) (\<lambda>call. Inr (Inr call, 1)))
         else if action \<in> set [''drop'', ''accept'', ''break''] then
           (case es of Block b # _ \<Rightarrow> rbind (render_matches tags params False False b) (\<lambda>rs. Inr (Inl (rs @ [Action (api action)]), 1))
            | _ \<Rightarrow> Inr (Inl [Action (api action)], 0))
         else if action = ''tee'' \<or> action = ''watch'' then
           (case es of Block b # _ \<Rightarrow>
                 if first_has 2 b then rbind (tee_rule tags params action b) (\<lambda>rs. Inr (Inl rs, 1))
                 else Inl (err_at e ''The tee and watch actions require two paremters (max length or 0 for all, target).'')
            | _ \<Rightarrow> Inl (err_at e ''The tee and watch actions require two paremters (max length or 0 for all, target).''))
         else if action = ''redirect'' then
           (case es of Block b # _ \<Rightarrow>
                 if first_has 1 b then rbind (redirect_rule tags params action b) (\<lambda>rs. Inr (Inl rs, 1))
                 else Inl (err_at e ''The redirect action requires a target parameter.'')
            | _ \<Rightarrow> Inl (err_at e ''The redirect action requires a target parameter.''))
         else Inl (err_at e ''Unrecognized action or directive in rule set.''))"

function render_actions :: "nat \<Rightarrow> macros \<Rightarrow> tags \<Rightarrow> params \<Rightarrow> elem list \<Rightarrow> compile_error + zt_rule list" where
  "render_actions depth macros tags params [] = Inr []"
| "render_actions depth macros tags params (e # es) =
     rbind (action_step macros tags params e es) (\<lambda>(out, n).
     rbind (case out of
              Inl rs \<Rightarrow> Inr rs
            | Inr (body, ps) \<Rightarrow> (case depth of 0 \<Rightarrow> Inl StackOverflow | Suc d \<Rightarrow> render_actions d macros tags ps body)) (\<lambda>rs.
     rbind (render_actions depth macros tags params (drop n es)) (\<lambda>rs'. Inr (rs @ rs'))))"
  by pat_completeness auto
termination
  by (relation "measures [\<lambda>(depth, macros, tags, params, es). depth, \<lambda>(depth, macros, tags, params, es). length es]") auto

section \<open>Pass 1: tokens and blocks\<close>

record lex_state =
  lx_stack :: "elem list list"
  lx_curr :: string
  lx_line :: int
  lx_col :: int
  lx_skip :: bool
  lx_lineNo :: int
  lx_lineIdx :: int

text \<open>The stack of open blocks has the innermost one first.\<close>

fun push_top :: "elem \<Rightarrow> elem list list \<Rightarrow> elem list list" where
  "push_top e [] = []"
| "push_top e (b # bs) = (b @ [e]) # bs"

fun close_top :: "elem list list \<Rightarrow> elem list list" where
  "close_top (b # c # bs) = (c @ [Block b]) # bs"
| "close_top bs = bs"

fun closable :: "elem list list \<Rightarrow> bool" where
  "closable (b # c # bs) = (b \<noteq> [])"
| "closable bs = False"

definition end_token :: "lex_state \<Rightarrow> lex_state" where
  "end_token s =
     (if lx_curr s = [] then s
      else let endOfBlock = (last (lx_curr s) = CHR '';'');
               w = (if endOfBlock then butlast (lx_curr s) else lx_curr s);
               st = (if w \<noteq> [] then push_top (Tok w (lx_line s) (lx_col s)) (lx_stack s) else lx_stack s)
           in s\<lparr>lx_stack := (if endOfBlock \<and> closable st then close_top st
                            else if in_obj w OPEN_BLOCK_KEYWORDS then [] # st else st),
                lx_curr := [], lx_line := - 1, lx_col := - 1\<rparr>)"

definition next_idx :: "lex_state \<Rightarrow> lex_state" where
  "next_idx s = s\<lparr>lx_lineIdx := lx_lineIdx s + 1\<rparr>"

definition new_line :: "lex_state \<Rightarrow> lex_state" where
  "new_line s = s\<lparr>lx_lineNo := lx_lineNo s + 1, lx_lineIdx := 0\<rparr>"

definition lex_char :: "lex_state \<Rightarrow> char \<Rightarrow> lex_state" where
  "lex_char s ch = next_idx
     (if lx_skip s then (if ch = CHR 0x0D \<or> ch = CHR 0x0A then new_line (s\<lparr>lx_skip := False\<rparr>) else s)
      else if ch = CHR 0x0A then end_token (new_line s)
      else if ch = CHR 0x0D \<or> ch = CHR 0x09 \<or> ch = CHR '' '' then end_token s
      else if lx_curr s = [] \<and> ch = CHR ''#'' then s\<lparr>lx_skip := True\<rparr>
      else if lx_curr s = [] then s\<lparr>lx_line := lx_lineNo s, lx_col := lx_lineIdx s, lx_curr := [ch]\<rparr>
      else s\<lparr>lx_curr := lx_curr s @ [ch]\<rparr>)"

definition lex_start :: lex_state where
  "lex_start = \<lparr>lx_stack = [[]], lx_curr = [], lx_line = - 1, lx_col = - 1, lx_skip = False, lx_lineNo = 1, lx_lineIdx = 0\<rparr>"

text \<open>What is left at the end of the source: the last token, and open blocks that are not empty.\<close>

definition last_token :: "lex_state \<Rightarrow> elem list list" where
  "last_token s =
     (let w = (if lx_curr s \<noteq> [] \<and> last (lx_curr s) = CHR '';'' then butlast (lx_curr s) else lx_curr s)
      in if w \<noteq> [] then push_top (Tok w (lx_line s) (lx_col s)) (lx_stack s) else lx_stack s)"

fun unwind :: "elem list list \<Rightarrow> elem list list" where
  "unwind (b # c # bs) = (if b = [] then b # c # bs else unwind ((c @ [Block b]) # bs))"
| "unwind bs = bs"

definition parse :: "string \<Rightarrow> elem list" where
  "parse src = last (unwind (last_token (foldl lex_char lex_start src)))"

section \<open>Pass 2: definitions\<close>

record cap_def =
  cp_id :: int
  cp_default :: bool
  cp_rules :: "elem list"

record collected =
  cl_macros :: macros
  cl_tags :: tags
  cl_caps :: "(string \<times> cap_def) list"
  cl_base :: "elem list"

definition put_prop :: "string \<Rightarrow> 'a \<Rightarrow> (string \<times> 'a) list \<Rightarrow> (string \<times> 'a) list" where
  "put_prop k v ob =
     (if k = ''__proto__'' then ob
      else if k \<in> fst ` set ob then map (\<lambda>(j, w). if j = k then (j, v) else (j, w)) ob else ob @ [(k, v)])"

fun index_params :: "nat \<Rightarrow> string list \<Rightarrow> (string \<times> nat) list \<Rightarrow> (string \<times> nat) list" where
  "index_params k [] ps = ps"
| "index_params k (p # pns) ps = index_params (k + 1) pns (if p \<noteq> [] then put_prop p k ps else ps)"

text \<open>The checks on a new name, which differ in their messages only.\<close>

definition new_name :: "elem \<Rightarrow> string \<Rightarrow> string list \<Rightarrow> string \<Rightarrow> string \<Rightarrow> string \<Rightarrow> compile_error + unit" where
  "new_name e n taken invalid reserved duplicate =
     (if \<not> isValidName n then Inl (err_at e invalid)
      else if in_obj n RESERVED_WORDS then Inl (err_at e reserved)
      else if in_obj n taken then Inl (err_at e duplicate) else Inr ())"

definition define_macro :: "elem \<Rightarrow> elem list \<Rightarrow> macros \<Rightarrow> compile_error + macros" where
  "define_macro e body macros =
     (let (n, pns) = call_parts (keyword e)
      in if is_block e then Inl Unexpected
         else rbind (new_name e n (map fst macros) ''Invalid macro name.'' ''Macro name is a reserved word.'' ''Multiple definition of macro name.'') (\<lambda>_.
         Inr (macros @ [(n, \<lparr>mc_params = index_params 0 pns [], mc_rules = body\<rparr>)])))"

record tag_state =
  ts_flags :: "(string \<times> int) list"
  ts_enums :: "(string \<times> int) list"
  ts_id :: int
  ts_dfl :: "elem option"

fun flag_mask :: "(string \<times> int) list \<Rightarrow> string list \<Rightarrow> int \<Rightarrow> int option" where
  "flag_mask flags [] acc = Some acc"
| "flag_mask flags (w # ws) acc =
     (let b = to_lower w; n = parseNum b
      in case map_of flags b of
           Some v \<Rightarrow> flag_mask flags ws (js_or acc v)
         | None \<Rightarrow> if b \<in> set inherited then flag_mask flags ws (js_or acc 0)
             else if n < 0 \<or> n > 31 then None else flag_mask flags ws (js_or acc (js_shl 1 n)))"

definition member_name :: "elem \<Rightarrow> (string \<times> int) list \<Rightarrow> string \<Rightarrow> string \<Rightarrow> compile_error + string" where
  "member_name e taken invalid duplicate =
     (if is_block e then Inl Unexpected
      else if \<not> isValidName (keyword e) then Inl (err_at e invalid)
      else if in_obj (keyword e) (map fst taken) then Inl (err_at e duplicate) else Inr (keyword e))"

definition tag_flag :: "elem \<Rightarrow> elem \<Rightarrow> tag_state \<Rightarrow> compile_error + tag_state" where
  "tag_flag b nm st =
     (if is_block b then Inl Unexpected
      else case flag_mask (ts_flags st) (split_runs (\<lambda>c. c = CHR '','') (elem_text b)) 0 of
          None \<Rightarrow> Inl (err_at b ''Bit index invalid, out of range, or references an undefined flag name.'')
        | Some acc \<Rightarrow> rbind (member_name nm (ts_flags st) ''Invalid or reserved flag name.'' ''Duplicate flag name in tag definition.'') (\<lambda>n.
            Inr (st\<lparr>ts_flags := ts_flags st @ [(n, acc)]\<rparr>)))"

definition tag_enum :: "elem \<Rightarrow> elem \<Rightarrow> tag_state \<Rightarrow> compile_error + tag_state" where
  "tag_enum v nm st =
     (if \<not> uint32 (parseNum (elem_text v)) then Inl (err_at v ''Tag enum value invalid or out of range.'')
      else rbind (member_name nm (ts_enums st) ''Invalid or reserved tag enum name.'' ''Duplicate enum name in tag definition.'') (\<lambda>n.
        Inr (st\<lparr>ts_enums := ts_enums st @ [(n, parseNum (elem_text v))]\<rparr>)))"

function tag_loop :: "elem list \<Rightarrow> tag_state \<Rightarrow> compile_error + tag_state" where
  "tag_loop [] st = Inr st"
| "tag_loop (e # es) st =
     (let k = keyword e
      in if is_block e then Inl Unexpected
         else if k = ''id'' then
           (if ts_id st \<ge> 0 then Inl (err_at e ''Duplicate tag id definition.'')
            else case es of [] \<Rightarrow> Inl (err_at e ''Missing numeric value for ID.'')
              | v # rest \<Rightarrow> if \<not> uint32 (parseNum (elem_text v)) then Inl (err_at v ''Invalid or out of range tag ID.'')
                  else tag_loop rest (st\<lparr>ts_id := parseNum (elem_text v)\<rparr>))
         else if k = ''default'' then
           (if ts_dfl st \<noteq> None then Inl (err_at e ''Duplicate tag default directive.'')
            else case es of [] \<Rightarrow> Inl (err_at e ''Missing value for default.'') | v # rest \<Rightarrow> tag_loop rest (st\<lparr>ts_dfl := Some v\<rparr>))
         else if k = ''flag'' then
           (case es of b # nm # rest \<Rightarrow> rbind (tag_flag b nm st) (tag_loop rest) | _ \<Rightarrow> Inl (err_at e ''Missing tag flag name or bit index.''))
         else if k = ''enum'' then
           (case es of v # nm # rest \<Rightarrow> rbind (tag_enum v nm st) (tag_loop rest) | _ \<Rightarrow> Inl (err_at e ''Missing tag enum name or value.''))
         else Inl (err_at e ''Unrecognized keyword in tag definition.''))"
  by pat_completeness auto
termination
  by (relation "measure (\<lambda>(es, st). length es)") auto

definition int_double :: "int \<Rightarrow> int" where
  "int_double n = (case round_double n 1 of (u, w) \<Rightarrow> u div w)"

fun default_value :: "tag_state \<Rightarrow> elem option \<Rightarrow> tag_default" where
  "default_value st None = NoDefault"
| "default_value st (Some (Block es)) = DArr (hd es)"
| "default_value st (Some (Tok w l c)) = DNum
     (case map_of (ts_enums st) w of Some v \<Rightarrow> v
      | None \<Rightarrow> (case map_of (ts_flags st) w of Some v \<Rightarrow> v
          | None \<Rightarrow> js_and (int_double \<bar>nan0 (parse_int w)\<bar>) 0xffffffff))"

definition define_tag :: "elem \<Rightarrow> elem list \<Rightarrow> tags \<Rightarrow> compile_error + tags" where
  "define_tag e body tags =
     (if is_block e then Inl Unexpected
      else rbind (new_name e (keyword e) (map fst tags) ''Invalid tag name.'' ''Tag name is a reserved word.'' ''Multiple definition of tag name.'') (\<lambda>_.
           rbind (tag_loop body \<lparr>ts_flags = [], ts_enums = [], ts_id = - 1, ts_dfl = None\<rparr>) (\<lambda>st.
           if ts_id st < 0 then Inl (err_at e ''Tag definition is missing a numeric ID.'')
           else Inr (tags @ [(keyword e, \<lparr>tg_id = ts_id st, tg_default = default_value st (ts_dfl st), tg_enums = ts_enums st, tg_flags = ts_flags st\<rparr>)]))))"

function cap_loop :: "(string \<times> cap_def) list \<Rightarrow> elem list \<Rightarrow> cap_def \<Rightarrow> compile_error + cap_def" where
  "cap_loop caps [] st = Inr st"
| "cap_loop caps (e # es) st =
     (let k = keyword e
      in if k = ''id'' then
           (if cp_id st \<ge> 0 then Inl (err_at e ''Duplicate id directive in capability definition.'')
            else case es of [] \<Rightarrow> Inl (err_at e ''Missing value for ID.'')
              | v # rest \<Rightarrow>
                  let i = parseNum (elem_text v)
                  in if \<not> uint32 i then Inl (err_at e ''Invalid or out of range capability ID.'')
                     else if list_ex (\<lambda>(n, c). cp_id c = i) caps then Inl (err_at e ''Duplicate capability ID.'')
                     else cap_loop caps rest (st\<lparr>cp_id := i\<rparr>))
         else if k = ''default'' then cap_loop caps es (st\<lparr>cp_default := True\<rparr>)
         else cap_loop caps es (st\<lparr>cp_rules := cp_rules st @ [e]\<rparr>))"
  by pat_completeness auto
termination
  by (relation "measure (\<lambda>(caps, es, st). length es)") auto

definition define_cap :: "elem \<Rightarrow> elem list \<Rightarrow> (string \<times> cap_def) list \<Rightarrow> compile_error + (string \<times> cap_def) list" where
  "define_cap e body caps =
     (if is_block e then Inl Unexpected
      else rbind (new_name e (keyword e) (map fst caps) ''Invalid capability name.'' ''Capability name is a reserved word.''
                    ''Multiple definition of capability name.'') (\<lambda>_.
           rbind (cap_loop caps body \<lparr>cp_id = - 1, cp_default = False, cp_rules = []\<rparr>) (\<lambda>c.
           if cp_id c < 0 then Inl (err_at e ''Capability definition is missing a numeric ID.'') else Inr (caps @ [(keyword e, c)]))))"

definition missing_name :: "string \<Rightarrow> string" where
  "missing_name k = (if k = ''macro'' then ''Macro'' else if k = ''tag'' then ''Tag'' else ''Capability'') @ '' definition is missing name.''"

definition define_item :: "string \<Rightarrow> elem \<Rightarrow> elem list \<Rightarrow> collected \<Rightarrow> compile_error + collected" where
  "define_item k e body cl =
     (if k = ''macro'' then rbind (define_macro e body (cl_macros cl)) (\<lambda>ms. Inr (cl\<lparr>cl_macros := ms\<rparr>))
      else if k = ''tag'' then rbind (define_tag e body (cl_tags cl)) (\<lambda>ts. Inr (cl\<lparr>cl_tags := ts\<rparr>))
      else rbind (define_cap e body (cl_caps cl)) (\<lambda>cs. Inr (cl\<lparr>cl_caps := cs\<rparr>)))"

function collect :: "elem list \<Rightarrow> collected \<Rightarrow> compile_error + collected" where
  "collect [] cl = Inr cl"
| "collect (e # es) cl =
     (if keyword e \<in> set [''macro'', ''tag'', ''cap'']
      then (case es of Block (h # body) # rest \<Rightarrow> rbind (define_item (keyword e) h body cl) (collect rest)
            | _ \<Rightarrow> Inl (err_at e (missing_name (keyword e))))
      else collect es (cl\<lparr>cl_base := cl_base cl @ [e]\<rparr>))"
  by pat_completeness auto
termination
  by (relation "measure (\<lambda>(es, cl). length es)") auto

section \<open>The compiler\<close>

record compiled =
  cd_rules :: "zt_rule list"
  cd_caps :: "(string \<times> int \<times> bool \<times> zt_rule list) list"
  cd_tags :: tags

fun render_caps :: "nat \<Rightarrow> macros \<Rightarrow> tags \<Rightarrow> (string \<times> cap_def) list \<Rightarrow> compile_error + (string \<times> int \<times> bool \<times> zt_rule list) list" where
  "render_caps depth macros tags [] = Inr []"
| "render_caps depth macros tags ((n, c) # cs) =
     rbind (render_actions depth macros tags [] (cp_rules c)) (\<lambda>rs.
     rbind (render_caps depth macros tags cs) (\<lambda>out. Inr ((n, cp_id c, cp_default c, rs) # out)))"

definition compile :: "nat \<Rightarrow> string \<Rightarrow> compile_error + compiled" where
  "compile depth src =
     rbind (collect (parse src) \<lparr>cl_macros = [], cl_tags = [], cl_caps = [], cl_base = []\<rparr>) (\<lambda>cl.
     rbind (render_caps depth (cl_macros cl) (cl_tags cl) (cl_caps cl)) (\<lambda>caps.
     rbind (render_actions depth (cl_macros cl) (cl_tags cl) [] (cl_base cl)) (\<lambda>rs.
     Inr \<lparr>cd_rules = rs, cd_caps = caps, cd_tags = cl_tags cl\<rparr>)))"

definition hex_text :: "nat \<Rightarrow> string \<Rightarrow> bool" where
  "hex_text n s \<longleftrightarrow> length s = n \<and> list_all hex_lower s"

definition ip_text :: "rx \<Rightarrow> string \<Rightarrow> bool" where
  "ip_text r ip \<longleftrightarrow> CHR ''/'' \<in> set ip \<and> takeWhile (\<lambda>c. c \<noteq> CHR ''/'') ip \<noteq> [] \<and> rx_test r (takeWhile (\<lambda>c. c \<noteq> CHR ''/'') ip)"

text \<open>A match: the type goes with the fields, and the values are within the bounds that the compiler
  checks. The bound of the VLAN, ether type and protocol fields is that of a 32-bit number.\<close>

fun test_ok :: "string \<Rightarrow> match_test \<Rightarrow> bool" where
  "test_ok ty (ZtAddr a) = (ty \<in> set [''MATCH_SOURCE_ZEROTIER_ADDRESS'', ''MATCH_DEST_ZEROTIER_ADDRESS''] \<and> hex_text 10 a)"
| "test_ok ty (Numeric f n) = ((ty, f) \<in> set [(''MATCH_VLAN_ID'', ''vlanId''), (''MATCH_VLAN_PCP'', ''vlanPcp''), (''MATCH_VLAN_DEI'', ''vlanDei''),
     (''MATCH_ETHERTYPE'', ''etherType''), (''MATCH_IP_PROTOCOL'', ''ipProtocol'')] \<and> uint32 n)"
| "test_ok ty (Probability n) = (ty = ''MATCH_RANDOM'' \<and> uint32 n)"
| "test_ok ty (Mac m) = (ty \<in> set [''MATCH_MAC_SOURCE'', ''MATCH_MAC_DEST''] \<and> length m = 17)"
| "test_ok ty (Ip ip) = (ty \<in> set [''MATCH_IPV6_SOURCE'', ''MATCH_IPV6_DEST''] \<and> ip_text IPV6_REGEX ip
     \<or> ty \<in> set [''MATCH_IPV4_SOURCE'', ''MATCH_IPV4_DEST''] \<and> ip_text IPV4_REGEX ip)"
| "test_ok ty (Icmp t c) = (ty = ''MATCH_ICMP'' \<and> 0 \<le> t \<and> t \<le> 0xff \<and> (case c of None \<Rightarrow> True | Some n \<Rightarrow> 0 \<le> n \<and> n \<le> 0xff))"
| "test_ok ty (Range a b) = (ty \<in> set [''MATCH_IP_SOURCE_PORT_RANGE'', ''MATCH_IP_DEST_PORT_RANGE'', ''MATCH_FRAME_SIZE_RANGE'']
     \<and> 0 \<le> a \<and> a \<le> b \<and> b \<le> 0xffff)"
| "test_ok ty (Tos m a b) = (ty = ''MATCH_IP_TOS'' \<and> 0 \<le> m \<and> m \<le> 0xff \<and> 0 \<le> a \<and> a \<le> b \<and> b \<le> 0xff)"
| "test_ok ty (Mask m) = (ty = ''MATCH_CHARACTERISTICS'' \<and> hex_text 16 m)"
| "test_ok ty (TagTest i v) = (ty \<in> set [''MATCH_TAGS_BITWISE_AND'', ''MATCH_TAGS_BITWISE_OR'', ''MATCH_TAGS_BITWISE_XOR'', ''MATCH_TAGS_DIFFERENCE'',
     ''MATCH_TAGS_EQUAL'', ''MATCH_TAG_SENDER'', ''MATCH_TAG_RECEIVER''] \<and> uint32 i \<and> (case v of None \<Rightarrow> True | Some n \<Rightarrow> uint32 n))"

fun rule_ok :: "zt_rule \<Rightarrow> bool" where
  "rule_ok (Match ty nt orr x) = test_ok ty x"
| "rule_ok (Action ty) = (ty \<in> set [''ACTION_DROP'', ''ACTION_ACCEPT'', ''ACTION_BREAK''])"
| "rule_ok (TeeAction ty a n) = (ty \<in> set [''ACTION_TEE'', ''ACTION_WATCH''] \<and> length a = 10 \<and> - 1 \<le> n \<and> n \<le> 0xffff)"
| "rule_ok (RedirectAction ty a) = (ty = ''ACTION_REDIRECT'' \<and> length a = 10)"

text \<open>A tag: its flags are signed 32-bit masks, its named values 32-bit numbers; a default is one of the two, or the
  array that a block in its place leaves.\<close>

definition int32 :: "int \<Rightarrow> bool" where
  "int32 n \<longleftrightarrow> - 2147483648 \<le> n \<and> n < 2147483648"

fun default_ok :: "tag_default \<Rightarrow> bool" where
  "default_ok NoDefault = True"
| "default_ok (DNum n) = (int32 n \<or> uint32 n)"
| "default_ok (DArr e) = True"

definition values_ok :: "(string \<times> int) list \<Rightarrow> (string \<times> int) list \<Rightarrow> bool" where
  "values_ok flags enums \<longleftrightarrow> list_all (\<lambda>(n, v). int32 v) flags \<and> list_all (\<lambda>(n, v). uint32 v) enums"

definition tag_ok :: "tag_def \<Rightarrow> bool" where
  "tag_ok t \<longleftrightarrow> uint32 (tg_id t) \<and> default_ok (tg_default t) \<and> values_ok (tg_flags t) (tg_enums t)"

section \<open>What the tests accept\<close>

lemma round_even_le: "0 < d \<Longrightarrow> n \<le> M * d \<Longrightarrow> round_even n d \<le> M"
proof -
  assume d: "0 < d" and n: "n \<le> M * d"
  have "n div d \<le> M" using d n by (metis div_le_mono2 nonzero_mult_div_cancel_right not_less_iff_gr_or_eq zdiv_mono1)
  moreover have "n mod d = 0" if "n div d = M" using n that d
    by (metis add.commute mod_mult_div_eq mult.commute add_le_same_cancel1 Euclidean_Rings.pos_mod_sign order_antisym)
  ultimately show ?thesis using d by (cases "n div d = M") (simp_all add: round_even_def Let_def)
qed

lemma bit_len_upper: "0 \<le> n \<Longrightarrow> n < 2 ^ bit_len n"
proof (induction n rule: bit_len.induct)
  case (1 n)
  show ?case
  proof (cases "n \<le> 0")
    case False
    with 1 have "n div 2 < 2 ^ bit_len (n div 2)" by simp
    then have "n < 2 * 2 ^ bit_len (n div 2)" by linarith
    with False show ?thesis by (simp add: bit_len.simps[of n])
  qed (use 1 in \<open>simp add: bit_len.simps\<close>)
qed

lemma bit_len_lower: "0 < n \<Longrightarrow> 2 ^ bit_len n \<le> 2 * n"
proof (induction n rule: bit_len.induct)
  case (1 n)
  show ?case
  proof (cases "n = 1")
    case False
    with 1 have "2 ^ bit_len (n div 2) \<le> 2 * (n div 2)" by simp
    then have "2 * 2 ^ bit_len (n div 2) \<le> 2 * n" by linarith
    with 1 show ?thesis by (simp add: bit_len.simps[of n])
  qed (simp add: bit_len.simps)
qed

lemma double_scale_nonneg:
  assumes "0 < n" "0 < d" "n \<le> 4294967295 * d"
  shows "0 \<le> double_scale n d"
proof -
  have "2 ^ bit_len n \<le> 2 * n" "d < 2 ^ bit_len d" using assms bit_len_lower bit_len_upper by auto
  with assms(3) have "(2::int) ^ bit_len n < 8589934592 * 2 ^ bit_len d" using assms(2) by linarith
  then have "(2::int) ^ bit_len n < 2 ^ (33 + bit_len d)" by (simp add: power_add)
  then have "bit_len n < 33 + bit_len d" by simp
  then show ?thesis by (simp add: double_scale_def Let_def split: prod.split)
qed

lemma round_double_le:
  assumes "0 < d" "n \<le> 4294967295 * d" "round_double n d = (u, w)"
  shows "0 < w" "u \<le> 4294967295 * w"
proof -
  show "0 < w" using assms(3) by (auto simp: round_double_def Let_def split: if_splits prod.splits)
  show "u \<le> 4294967295 * w"
  proof (cases "n \<le> 0")
    case False
    then have k: "0 \<le> double_scale n d" using assms double_scale_nonneg by simp
    have "round_even (n * 2 ^ nat (double_scale n d)) d \<le> 4294967295 * 2 ^ nat (double_scale n d)"
      using assms(1,2) by (intro round_even_le) (simp_all add: mult.assoc[symmetric] mult.commute mult.left_commute)
    with False k assms(3) show ?thesis by (auto simp: round_double_def Let_def scaled_def)
  qed (use assms in \<open>auto simp: round_double_def Let_def split: prod.splits\<close>)
qed

lemma round_double_nonneg:
  assumes "0 < d" "round_double n d = (u, w)"
  shows "0 \<le> u" "0 < w"
proof -
  have r: "0 \<le> round_even a b" if "0 \<le> a" "0 < b" for a b
    using that by (simp add: round_even_def Let_def pos_imp_zdiv_nonneg_iff)
  show "0 \<le> u" using assms by (auto simp: round_double_def Let_def scaled_def r split: if_splits)
  show "0 < w" using assms by (auto simp: round_double_def Let_def split: if_splits prod.splits)
qed

lemma probability_range: "uint32 (probability v)"
proof (cases v)
  case (JDec m k)
  obtain p q where pq: "round_double m (10 ^ k) = (p, q)" by fastforce
  then have q: "0 \<le> p" "0 < q" using round_double_nonneg[of "10 ^ k"] by auto
  obtain u w where uw: "round_double (4294967295 * p) q = (u, w)" by fastforce
  show ?thesis
  proof (cases "p > q")
    case False
    then have "u \<le> 4294967295 * w" "0 < w" "0 \<le> u" using round_double_le[OF q(2) _ uw] round_double_nonneg[OF q(2) uw] by auto
    then have "u div w \<le> 4294967295" "0 \<le> u div w"
      by (metis div_mult_self4 less_irrefl zdiv_mono1 mult.commute nonzero_mult_div_cancel_left) (simp add: \<open>0 \<le> u\<close> \<open>0 < w\<close> pos_imp_zdiv_nonneg_iff)
    with JDec pq uw False show ?thesis by (simp add: probability_def uint32_def)
  qed (use JDec pq in \<open>simp add: probability_def uint32_def\<close>)
qed (simp_all add: probability_def uint32_def)

text \<open>A half of the mask as the 32-bit integer that JavaScript keeps.\<close>

definition half_ok :: "int \<Rightarrow> bool" where
  "half_ok x \<longleftrightarrow> - 2147483648 \<le> x \<and> x < 2147483648"

text \<open>The mask that a list of bit indexes stands for.\<close>

definition mask_of :: "int list \<Rightarrow> int" where
  "mask_of bs = fold (\<lambda>b m. or m (2 ^ nat b)) bs 0"

definition halves :: "int \<Rightarrow> int \<times> int" where
  "halves m = (to_int32 (drop_bit 32 m), to_int32 (take_bit 32 m))"

definition chr_bits :: "string list \<Rightarrow> int list" where
  "chr_bits ws = map chr_bit (filter (\<lambda>w. w \<noteq> []) ws)"

section \<open>Hexadecimal masks\<close>

lemma hex_char:
  assumes "n < 16"
  defines "c \<equiv> if n < 10 then char_of (48 + n) else char_of (87 + n) :: char"
  shows "hex_lower c" "hex_val c = n"
proof -
  have "list_all (\<lambda>k. hex_lower (if k < 10 then char_of (48 + k) else char_of (87 + k) :: char)) [0..<16]" by code_simp
  then show "hex_lower c" using assms(1) by (simp add: c_def list_all_iff)
  show "hex_val c = n" using assms(1) by (auto simp: c_def hex_val_def is_digit_def)
qed

lemma hex_zero: "hex_lower CHR ''0''"
  by (simp add: hex_lower_def)

lemma hexs_val_snoc: "hexs_val a (s @ [c]) = hexs_val a s * 16 + hex_val c"
  by (simp add: hexs_val_def)

lemma hexs_val_append: "hexs_val a (s @ t) = hexs_val (hexs_val a s) t"
  by (simp add: hexs_val_def)

lemma hexs_val_acc: "hexs_val a t = a * 16 ^ length t + hexs_val 0 t"
proof (induction t rule: rev_induct)
  case (snoc c t)
  then show ?case by (simp add: hexs_val_snoc algebra_simps)
qed (simp add: hexs_val_def)

lemma hex_digits_props: "hexs_val 0 (hex_digits n) = n \<and> list_all hex_lower (hex_digits n)"
proof (induction n rule: hex_digits.induct)
  case (1 n)
  show ?case
  proof (cases "n < 16")
    case True
    then show ?thesis using hex_char[OF True] by (subst (1 2) hex_digits.simps) (simp add: hexs_val_def)
  next
    case False
    have "n mod 16 < 16" by simp
    note c = hex_char[OF this]
    from 1 False have "hexs_val 0 (hex_digits (n div 16)) = n div 16" "list_all hex_lower (hex_digits (n div 16))" by auto
    with False c show ?thesis by (subst (1 2) hex_digits.simps) (simp add: hexs_val_snoc)
  qed
qed

lemma hex_digits_length: "n < 16 ^ Suc k \<Longrightarrow> length (hex_digits n) \<le> Suc k"
proof (induction k arbitrary: n)
  case 0
  then show ?case by (simp add: hex_digits.simps)
next
  case (Suc k)
  then have "n div 16 < 16 ^ Suc k" by (simp add: div_less_iff_less_mult)
  with Suc.IH[of "n div 16"] show ?case by (subst hex_digits.simps) simp
qed

lemma pad_hex:
  assumes "n < 16 ^ 8"
  shows "hex_text 8 (pad_start 8 (hex_digits n))" "hexs_val 0 (pad_start 8 (hex_digits n)) = n"
proof -
  have l: "length (hex_digits n) \<le> 8" using hex_digits_length[of n 7] assms by simp
  have z: "hexs_val 0 (replicate k CHR ''0'') = 0" for k
    by (induction k) (simp_all add: hexs_val_def hex_val_def is_digit_def code_def)
  show "hex_text 8 (pad_start 8 (hex_digits n))" using l hex_digits_props[of n]
    by (auto simp: hex_text_def pad_start_def list_all_iff hex_zero)
  show "hexs_val 0 (pad_start 8 (hex_digits n)) = n" using hex_digits_props[of n] by (simp add: pad_start_def hexs_val_append z)
qed

lemma mask_text_value:
  assumes "half_ok hi" "half_ok lo"
  shows "hex_text 16 (mask_text (hi, lo))" "int (hexs_val 0 (mask_text (hi, lo))) = \<bar>hi\<bar> * 2 ^ 32 + \<bar>lo\<bar>"
proof -
  have b: "nat \<bar>hi\<bar> < 16 ^ 8" "nat \<bar>lo\<bar> < 16 ^ 8" using assms by (auto simp: half_ok_def)
  note h = pad_hex[OF b(1)] and l = pad_hex[OF b(2)]
  have m: "mask_text (hi, lo) = pad_start 8 (hex_digits (nat \<bar>hi\<bar>)) @ pad_start 8 (hex_digits (nat \<bar>lo\<bar>))"
    by (simp add: mask_text_def int_hex_def)
  show "hex_text 16 (mask_text (hi, lo))" using h(1) l(1) by (simp add: m hex_text_def)
  have "hexs_val 0 (mask_text (hi, lo)) = nat \<bar>hi\<bar> * 16 ^ 8 + nat \<bar>lo\<bar>"
    using h l by (simp add: m hexs_val_append hexs_val_acc[of "nat \<bar>hi\<bar>"] hex_text_def)
  then show "int (hexs_val 0 (mask_text (hi, lo))) = \<bar>hi\<bar> * 2 ^ 32 + \<bar>lo\<bar>" by simp
qed


lemma js_or_half: "half_ok (js_or a b)"
  using to_int32_range by (simp add: js_or_int32 half_ok_def)

lemma to_int32_twice [simp]: "to_int32 (to_int32 x) = to_int32 x"
  using to_int32_range[of x] by (intro to_int32_small) auto

lemma js_or_conv: "js_or (to_int32 a) b = to_int32 (or a b)"
  by (simp add: js_or_int32[symmetric]) (simp add: js_or_def)

lemma abs_shl: 
  assumes "0 \<le> k" "k < 32"
  shows "\<bar>js_shl 1 k\<bar> = 2 ^ nat k"
proof (cases "k = 31")
  case False
  with assms have "(2::int) ^ nat k < 2 ^ 31" by (intro power_strict_increasing) auto
  then have "to_int32 (2 ^ nat k) = 2 ^ nat k" by (intro to_int32_small) (auto intro: order.trans[of _ 0])
  with assms show ?thesis by (simp add: js_shl_def)
qed (simp add: js_shl_def to_int32_def)

lemma add_bit_halves:
  assumes "0 \<le> b" "b < 64"
  shows "add_bit b (halves m) = halves (or m (2 ^ nat b))"
proof (cases "32 \<le> b")
  case True
  then have e: "nat b = 32 + nat (b - 32)" by simp
  have "drop_bit 32 (2 ^ nat b) = (2::int) ^ nat (b - 32)" "take_bit 32 (2 ^ nat b) = (0::int)"
    by (simp_all only: e) (simp_all add: drop_bit_eq_div power_add take_bit_eq_mod)
  then show ?thesis using True assms abs_shl[of "b - 32"] by (simp add: add_bit_def halves_def js_or_conv)
next
  case False
  then have "(2::int) ^ nat b < 2 ^ 32" using assms by (intro power_strict_increasing) auto
  then have "drop_bit 32 (2 ^ nat b) = (0::int)" "take_bit 32 (2 ^ nat b) = (2::int) ^ nat b"
    by (simp_all add: drop_bit_eq_div take_bit_eq_mod)
  then show ?thesis using False assms abs_shl[of b] by (simp add: add_bit_def halves_def js_or_conv)
qed

lemma chr_masks_halves:
  "chr_masks ws (halves m) = (if list_all (\<lambda>b. 0 \<le> b \<and> b < 64) (chr_bits ws)
     then Some (halves (fold (\<lambda>b m. or m (2 ^ nat b)) (chr_bits ws) m)) else None)"
  by (induction ws arbitrary: m) (auto simp: chr_bits_def add_bit_halves)

lemma halves_zero: "halves 0 = (0, 0)"
  by (simp add: halves_def)

lemma mask_of_range:
  assumes "list_all (\<lambda>b. 0 \<le> b \<and> b < 64) bs"
  shows "0 \<le> mask_of bs" "mask_of bs < 2 ^ 64"
proof -
  have "0 \<le> fold (\<lambda>b m. or m (2 ^ nat b)) bs m \<and> fold (\<lambda>b m. or m (2 ^ nat b)) bs m < 2 ^ 64" if "0 \<le> m" "m < 2 ^ 64" for m :: int
    using assms that
  proof (induction bs arbitrary: m)
    case (Cons b bs)
    have "(2::int) ^ nat b < 2 ^ 64" using Cons.prems(1) by (intro power_strict_increasing) auto
    then have "0 \<le> or m (2 ^ nat b)" "or m (2 ^ nat b) < 2 ^ 64"
      using Cons.prems(2,3) OR_upper[of m 64 "2 ^ nat b"] by (simp_all add: or_nonnegative_int_iff)
    with Cons show ?case by simp
  qed simp
  from this[of 0] show "0 \<le> mask_of bs" "mask_of bs < 2 ^ 64" by (simp_all add: mask_of_def)
qed

lemma abs_int32: "0 \<le> x \<Longrightarrow> x < 4294967296 \<Longrightarrow> \<bar>to_int32 x\<bar> = (if x \<le> 2147483648 then x else 4294967296 - x)"
  by (auto simp: to_int32_def)

abbreviation named_ok :: "compile_error + named_test \<Rightarrow> bool" where
  "named_ok r \<equiv> (case r of Inl _ \<Rightarrow> True | Inr (ty, t) \<Rightarrow> test_ok ty t)"

lemma cleanHex_text: "list_all hex_lower (cleanHex w)"
  by (simp add: cleanHex_def list_all_iff)

lemma chr_masks_text: "chr_masks ws (0, 0) = Some masks \<Longrightarrow> hex_text 16 (mask_text masks)"
  using chr_masks_halves[of ws 0] mask_text_value(1) to_int32_range
  by (auto simp: halves_zero halves_def half_ok_def split: if_splits)

lemma number_range_ok: "number_range limit w = Some (a, b) \<Longrightarrow> 0 \<le> a \<and> a \<le> b \<and> b \<le> limit"
  by (auto simp: number_range_def Let_def split: if_splits)

lemmas test_defs = test_zt_def test_numeric_def test_mac_def test_ip_def test_icmp_def test_range_def test_tos_def test_chr_def test_tag_def

lemma match_names:
  "api ''ztsrc'' = ''MATCH_SOURCE_ZEROTIER_ADDRESS''" "api ''ztdest'' = ''MATCH_DEST_ZEROTIER_ADDRESS''"
  "api ''vlan'' = ''MATCH_VLAN_ID''" "api ''vlanpcp'' = ''MATCH_VLAN_PCP''" "api ''vlandei'' = ''MATCH_VLAN_DEI''"
  "api ''ethertype'' = ''MATCH_ETHERTYPE''" "api ''ipprotocol'' = ''MATCH_IP_PROTOCOL''" "api ''random'' = ''MATCH_RANDOM''"
  "api ''macsrc'' = ''MATCH_MAC_SOURCE''" "api ''macdest'' = ''MATCH_MAC_DEST''"
  "api ''sport'' = ''MATCH_IP_SOURCE_PORT_RANGE''" "api ''dport'' = ''MATCH_IP_DEST_PORT_RANGE''" "api ''framesize'' = ''MATCH_FRAME_SIZE_RANGE''"
  "api ''tand'' = ''MATCH_TAGS_BITWISE_AND''" "api ''tor'' = ''MATCH_TAGS_BITWISE_OR''" "api ''txor'' = ''MATCH_TAGS_BITWISE_XOR''"
  "api ''tdiff'' = ''MATCH_TAGS_DIFFERENCE''" "api ''teq'' = ''MATCH_TAGS_EQUAL''" "api ''tseq'' = ''MATCH_TAG_SENDER''" "api ''treq'' = ''MATCH_TAG_RECEIVER''"
  "numeric_field ''vlan'' = ''vlanId''" "numeric_field ''vlanpcp'' = ''vlanPcp''" "numeric_field ''vlandei'' = ''vlanDei''"
  "numeric_field ''ethertype'' = ''etherType''" "numeric_field ''ipprotocol'' = ''ipProtocol''"
  by code_simp+

lemma test_zt_ok: "m \<in> set [''ztsrc'', ''ztdest''] \<Longrightarrow> named_ok (test_zt m a)"
  by (auto simp: test_zt_def Let_def hex_text_def cleanHex_text match_names)

lemma test_numeric_ok: "m \<in> set [''vlan'', ''vlanpcp'', ''vlandei'', ''ethertype'', ''ipprotocol''] \<Longrightarrow> named_ok (test_numeric m a)"
  by (auto simp: test_numeric_def Let_def match_names)

lemma test_mac_ok: "m \<in> set [''macsrc'', ''macdest''] \<Longrightarrow> named_ok (test_mac m a)"
  by (auto simp: test_mac_def Let_def match_names)

lemma test_ip_ok: "named_ok (test_ip m a)"
  by (simp add: test_ip_def Let_def ip_text_def)

lemma test_icmp_ok: "named_ok (test_icmp a b)"
  by (auto simp: test_icmp_def Let_def)

lemma test_range_ok: "m \<in> set [''sport'', ''dport'', ''framesize''] \<Longrightarrow> named_ok (test_range m a)"
  by (auto simp: test_range_def match_names dest: number_range_ok split: option.split)

lemma test_tos_ok: "named_ok (test_tos a b)"
  by (auto simp: test_tos_def Let_def dest: number_range_ok split: option.split)

lemma test_chr_ok: "named_ok (test_chr a)"
  by (auto simp: test_chr_def dest: chr_masks_text split: option.split)

lemma test_tag_ok: "m \<in> set [''tand'', ''tor'', ''txor'', ''tdiff'', ''teq'', ''tseq'', ''treq''] \<Longrightarrow> named_ok (test_tag tags m a b)"
  by (auto simp: test_tag_def Let_def match_names split: option.split prod.split)

lemma render_test_ok:
  assumes "render_test tags m args = Inr (Some (ty, t))"
  shows "test_ok ty t"
proof -
  note ok = test_zt_ok[of m "args ! 0"] test_numeric_ok[of m "args ! 0"] test_mac_ok[of m "args ! 0"] test_ip_ok[of m "args ! 0"]
    test_icmp_ok[of "args ! 0" "args ! 1"] test_range_ok[of m "args ! 0"] test_tos_ok[of "args ! 0" "args ! 1"] test_chr_ok[of "args ! 0"]
    test_tag_ok[of m tags "args ! 0" "args ! 1"]
  show ?thesis
    using assms ok unfolding render_test_def Let_def
    by (simp only: rbind_Inr_iff split: if_splits) (auto simp: match_names probability_range)
qed

lemma render_test_rule:
  "render_test tags m args = Inr t \<Longrightarrow> list_all rule_ok (case t of None \<Rightarrow> [] | Some (ty, x) \<Rightarrow> [Match ty nt orr x])"
  using render_test_ok by (cases t) auto

lemma render_matches_ok: "render_matches tags params nt orr es = Inr rs \<Longrightarrow> list_all rule_ok rs"
proof (induction tags params nt orr es arbitrary: rs rule: render_matches.induct)
  case (2 tags params nt orr e es)
  show ?case
  proof (cases "arg_count (keyword e)")
    case None
    with 2 show ?thesis by (auto simp: Let_def split: if_splits)
  next
    case (Some n)
    with 2 show ?thesis by (auto simp: Let_def rbind_Inr_iff render_test_rule split: if_splits)
  qed
qed simp

definition caps_ok :: "(string \<times> cap_def) list \<Rightarrow> bool" where
  "caps_ok caps \<longleftrightarrow> distinct (map fst caps) \<and> distinct (map (\<lambda>(n, c). cp_id c) caps) \<and> list_all (\<lambda>(n, c). uint32 (cp_id c)) caps"

definition tags_ok :: "tags \<Rightarrow> bool" where
  "tags_ok tags \<longleftrightarrow> distinct (map fst tags) \<and> list_all (\<lambda>(n, t). tag_ok t) tags"

definition macros_ok :: "macros \<Rightarrow> bool" where
  "macros_ok macros \<longleftrightarrow> distinct (map fst macros)"

definition collected_ok :: "collected \<Rightarrow> bool" where
  "collected_ok cl \<longleftrightarrow> macros_ok (cl_macros cl) \<and> tags_ok (cl_tags cl) \<and> caps_ok (cl_caps cl)"

definition output_ok :: "compiled \<Rightarrow> bool" where
  "output_ok out \<longleftrightarrow> list_all rule_ok (cd_rules out) \<and> list_all (\<lambda>(n, i, d, rs). uint32 i \<and> list_all rule_ok rs) (cd_caps out)
     \<and> distinct (map fst (cd_caps out)) \<and> distinct (map (\<lambda>(n, i, d, rs). i) (cd_caps out)) \<and> tags_ok (cd_tags out)"

definition cap_ids :: "(string \<times> cap_def) list \<Rightarrow> int set" where
  "cap_ids caps = (\<lambda>(n, c). cp_id c) ` set caps"

definition new_id :: "(string \<times> cap_def) list \<Rightarrow> int \<Rightarrow> bool" where
  "new_id caps i \<longleftrightarrow> i = - 1 \<or> uint32 i \<and> i \<notin> cap_ids caps"

section \<open>What the compiler produces\<close>

lemma action_names: "api ''drop'' = ''ACTION_DROP''" "api ''accept'' = ''ACTION_ACCEPT''" "api ''break'' = ''ACTION_BREAK''"
  "api ''tee'' = ''ACTION_TEE''" "api ''watch'' = ''ACTION_WATCH''" "api ''redirect'' = ''ACTION_REDIRECT''"
  by code_simp+

lemma tee_rule_ok: "action = ''tee'' \<or> action = ''watch'' \<Longrightarrow> tee_rule tags params action es = Inr rs \<Longrightarrow> list_all rule_ok rs"
  by (cases "(tags, params, action, es)" rule: tee_rule.cases)
    (auto simp: Let_def rbind_Inr_iff action_names render_matches_ok split: if_splits)

lemma redirect_rule_ok: "redirect_rule tags params ''redirect'' es = Inr rs \<Longrightarrow> list_all rule_ok rs"
  by (cases es) (auto simp: rbind_Inr_iff action_names render_matches_ok split: if_splits)

lemmas tee_watch_ok = tee_rule_ok[OF disjI1[OF refl]] tee_rule_ok[OF disjI2[OF refl]]

lemma action_step_ok: "action_step macros tags params e es = Inr (Inl rs, n) \<Longrightarrow> list_all rule_ok rs"
  unfolding action_step_def Let_def
  by (auto simp: rbind_Inr_iff action_names render_matches_ok redirect_rule_ok tee_watch_ok
      split: if_splits list.splits elem.splits)

lemma render_actions_ok: "render_actions depth macros tags params es = Inr rs \<Longrightarrow> list_all rule_ok rs"
proof (induction depth macros tags params es arbitrary: rs rule: render_actions.induct)
  case (2 depth macros tags params e es)
  from 2(3) obtain out n rs1 rs2 where st: "action_step macros tags params e es = Inr (out, n)"
    and o: "(case out of Inl rs \<Rightarrow> Inr rs | Inr (body, ps) \<Rightarrow> (case depth of 0 \<Rightarrow> Inl StackOverflow | Suc d \<Rightarrow> render_actions d macros tags ps body)) = Inr rs1"
    and r: "render_actions depth macros tags params (drop n es) = Inr rs2" and rs: "rs = rs1 @ rs2"
    by (auto simp: rbind_Inr_iff)
  have "list_all rule_ok rs1"
  proof (cases out)
    case (Inl xs)
    with o st show ?thesis by (simp add: action_step_ok)
  next
    case (Inr call)
    with o 2(1)[OF Inr] show ?thesis by (auto split: prod.splits nat.splits)
  qed
  moreover have "list_all rule_ok rs2" using 2(2) r by auto
  ultimately show ?case by (simp add: rs)
qed simp

lemma new_name_ok: "new_name e n taken a b c = Inr u \<Longrightarrow> n \<notin> set taken"
  by (simp add: new_name_def in_obj_def split: if_splits)

lemma tag_member_id: "tag_flag b nm st = Inr st' \<Longrightarrow> ts_id st' = ts_id st" "tag_enum b nm st = Inr st' \<Longrightarrow> ts_id st' = ts_id st"
  by (auto simp: tag_flag_def tag_enum_def rbind_Inr_iff split: if_splits option.splits)

lemma js_or_in32: "int32 (js_or a b)"
  using js_or_half[of a b] by (simp add: half_ok_def int32_def)

lemma js_and_in32: "int32 (js_and a b)"
  using to_int32_range by (simp add: js_and_int32 int32_def)

lemma flag_mask_int32: "flag_mask flags ws acc = Some m \<Longrightarrow> int32 acc \<Longrightarrow> int32 m"
  by (induction flags ws acc rule: flag_mask.induct) (auto simp: js_or_in32 Let_def split: option.split_asm if_split_asm)

lemma tag_member_values:
  "tag_flag b nm st = Inr st' \<Longrightarrow> values_ok (ts_flags st) (ts_enums st) \<Longrightarrow> values_ok (ts_flags st') (ts_enums st')"
  "tag_enum b nm st = Inr st' \<Longrightarrow> values_ok (ts_flags st) (ts_enums st) \<Longrightarrow> values_ok (ts_flags st') (ts_enums st')"
proof -
  have z: "int32 0" by (simp add: int32_def)
  show "tag_flag b nm st = Inr st' \<Longrightarrow> values_ok (ts_flags st) (ts_enums st) \<Longrightarrow> values_ok (ts_flags st') (ts_enums st')"
    using flag_mask_int32[OF _ z] by (auto simp: tag_flag_def rbind_Inr_iff values_ok_def split: if_splits option.splits)
  show "tag_enum b nm st = Inr st' \<Longrightarrow> values_ok (ts_flags st) (ts_enums st) \<Longrightarrow> values_ok (ts_flags st') (ts_enums st')"
    by (auto simp: tag_enum_def rbind_Inr_iff values_ok_def split: if_splits)
qed

lemma tag_loop_values: "tag_loop es st = Inr st' \<Longrightarrow> values_ok (ts_flags st) (ts_enums st) \<Longrightarrow> values_ok (ts_flags st') (ts_enums st')"
proof (induction es arbitrary: st rule: length_induct)
  case (1 es)
  show ?case
  proof (cases es)
    case (Cons e rest)
    then have IH: "tag_loop xs s = Inr st' \<Longrightarrow> values_ok (ts_flags s) (ts_enums s) \<Longrightarrow> values_ok (ts_flags st') (ts_enums st')"
      if "length xs \<le> length rest" for xs s using 1(1)[rule_format, of xs s] that Cons by auto
    from 1(2,3) show ?thesis unfolding Cons
      by (auto simp: Let_def rbind_Inr_iff dest!: IH[rotated] dest: tag_member_values split: if_splits list.splits)
  qed (use 1 in simp)
qed

lemma default_value_ok: "values_ok (ts_flags st) (ts_enums st) \<Longrightarrow> default_ok (default_value st v)"
  by (cases "(st, v)" rule: default_value.cases)
    (auto simp: values_ok_def list_all_iff js_and_in32 split: option.split dest!: map_of_SomeD)

lemma tag_loop_id: "tag_loop es st = Inr st' \<Longrightarrow> ts_id st = - 1 \<or> uint32 (ts_id st) \<Longrightarrow> ts_id st' = - 1 \<or> uint32 (ts_id st')"
proof (induction es arbitrary: st rule: length_induct)
  case (1 es)
  show ?case
  proof (cases es)
    case (Cons e rest)
    then have IH: "tag_loop xs s = Inr st' \<Longrightarrow> ts_id s = - 1 \<or> uint32 (ts_id s) \<Longrightarrow> ts_id st' = - 1 \<or> uint32 (ts_id st')"
      if "length xs \<le> length rest" for xs s using 1(1)[rule_format, of xs s] that Cons by auto
    from 1(2,3) show ?thesis unfolding Cons
      by (auto simp: Let_def rbind_Inr_iff dest!: IH[rotated] dest: tag_member_id split: if_splits list.splits)
  qed (use 1 in simp)
qed

lemma list_ex_cap_ids: "list_ex (\<lambda>(n, c). cp_id c = i) caps \<longleftrightarrow> i \<in> cap_ids caps"
  by (auto simp: list_ex_iff cap_ids_def)

lemma cap_loop_id: "cap_loop caps es st = Inr st' \<Longrightarrow> new_id caps (cp_id st) \<Longrightarrow> new_id caps (cp_id st')"
proof (induction es arbitrary: st rule: length_induct)
  case (1 es)
  show ?case
  proof (cases es)
    case (Cons e rest)
    then have IH: "cap_loop caps xs s = Inr st' \<Longrightarrow> new_id caps (cp_id s) \<Longrightarrow> new_id caps (cp_id st')" if "length xs \<le> length rest" for xs s
      using 1(1)[rule_format, of xs s] that Cons by auto
    have id: "new_id caps i" if "uint32 i" "i \<notin> cap_ids caps" for i using that by (simp add: new_id_def)
    from 1(2,3) show ?thesis unfolding Cons
      by (auto simp: Let_def list_ex_cap_ids id dest!: IH[rotated] split: if_splits list.splits)
  qed (use 1 in simp)
qed

lemma define_item_ok:
  assumes "define_item k e body cl = Inr cl'" "collected_ok cl"
  shows "collected_ok cl'"
proof -
  have "macros_ok ms'" if "define_macro e body ms = Inr ms'" "macros_ok ms" for ms ms'
    using that by (auto simp: define_macro_def macros_ok_def rbind_Inr_iff dest: new_name_ok split: if_splits prod.splits)
  moreover have "tags_ok ts'" if "define_tag e body ts = Inr ts'" "tags_ok ts" for ts ts'
  proof -
    have "\<exists>u st. new_name e (keyword e) (map fst ts) ''Invalid tag name.'' ''Tag name is a reserved word.'' ''Multiple definition of tag name.'' = Inr u
        \<and> tag_loop body \<lparr>ts_flags = [], ts_enums = [], ts_id = - 1, ts_dfl = None\<rparr> = Inr st \<and> 0 \<le> ts_id st
        \<and> ts' = ts @ [(keyword e, \<lparr>tg_id = ts_id st, tg_default = default_value st (ts_dfl st), tg_enums = ts_enums st, tg_flags = ts_flags st\<rparr>)]"
      using that(1) by (auto simp: define_tag_def rbind_Inr_iff split: if_split_asm)
    then obtain u st where nn: "new_name e (keyword e) (map fst ts) ''Invalid tag name.'' ''Tag name is a reserved word.'' ''Multiple definition of tag name.'' = Inr u"
      and st: "tag_loop body \<lparr>ts_flags = [], ts_enums = [], ts_id = - 1, ts_dfl = None\<rparr> = Inr st" "0 \<le> ts_id st"
      and ts': "ts' = ts @ [(keyword e, \<lparr>tg_id = ts_id st, tg_default = default_value st (ts_dfl st), tg_enums = ts_enums st, tg_flags = ts_flags st\<rparr>)]"
      by blast
    have n: "keyword e \<notin> set (map fst ts)" using nn by (rule new_name_ok)
    have "values_ok (ts_flags st) (ts_enums st)" using tag_loop_values[OF st(1)] by (simp add: values_ok_def)
    moreover have "uint32 (ts_id st)" using tag_loop_id[OF st(1)] st(2) by (auto simp: uint32_def)
    ultimately show ?thesis using n that(2) default_value_ok by (simp add: ts' tags_ok_def tag_ok_def)
  qed
  moreover have "caps_ok cs'" if "define_cap e body cs = Inr cs'" "caps_ok cs" for cs cs'
    using that by (auto simp: define_cap_def caps_ok_def rbind_Inr_iff new_id_def cap_ids_def dest!: new_name_ok cap_loop_id split: if_splits)
  ultimately show ?thesis using assms by (auto simp: define_item_def collected_ok_def rbind_Inr_iff split: if_splits)
qed

lemma collect_ok: "collect es cl = Inr cl' \<Longrightarrow> collected_ok cl \<Longrightarrow> collected_ok cl'"
proof (induction es cl rule: collect.induct)
  case (2 e es cl)
  have b: "collected_ok (cl\<lparr>cl_base := x\<rparr>) = collected_ok cl" for x by (simp add: collected_ok_def)
  from 2 show ?case
    by (auto simp: b rbind_Inr_iff dest: define_item_ok split: if_splits list.splits elem.splits)
qed simp

lemma render_caps_ok:
  "render_caps depth macros tags caps = Inr out \<Longrightarrow>
     map fst out = map fst caps \<and> map (\<lambda>(n, i, d, rs). i) out = map (\<lambda>(n, c). cp_id c) caps \<and> list_all (\<lambda>(n, i, d, rs). list_all rule_ok rs) out"
  by (induction depth macros tags caps arbitrary: out rule: render_caps.induct) (auto simp: rbind_Inr_iff render_actions_ok)

abbreviation "ports_source \<equiv> ''drop not dport 22-80; accept;''"

section \<open>Properties of the output\<close>

lemma compile_ok: "compile depth src = Inr out \<Longrightarrow> output_ok out"
proof -
  assume "compile depth src = Inr out"
  then obtain cl caps rs where c: "collect (parse src) \<lparr>cl_macros = [], cl_tags = [], cl_caps = [], cl_base = []\<rparr> = Inr cl"
    and r: "render_caps depth (cl_macros cl) (cl_tags cl) (cl_caps cl) = Inr caps"
    and b: "render_actions depth (cl_macros cl) (cl_tags cl) [] (cl_base cl) = Inr rs"
    and out: "out = \<lparr>cd_rules = rs, cd_caps = caps, cd_tags = cl_tags cl\<rparr>"
    by (auto simp: compile_def rbind_Inr_iff)
  have "collected_ok cl" using collect_ok[OF c] by (simp add: collected_ok_def macros_ok_def tags_ok_def caps_ok_def)
  then have cl: "tags_ok (cl_tags cl)" "caps_ok (cl_caps cl)" by (simp_all add: collected_ok_def)
  note rc = render_caps_ok[OF r]
  have "uint32 i" if "(n, i, d, rs) \<in> set caps" for n i d rs
  proof -
    have "i \<in> set (map (\<lambda>(n, i, d, rs). i) caps)" using that by force
    then have "i \<in> set (map (\<lambda>(n, c). cp_id c) (cl_caps cl))" using rc by metis
    then show ?thesis using cl(2) by (auto simp: caps_ok_def list_all_iff)
  qed
  then have "list_all (\<lambda>(n, i, d, rs). uint32 i \<and> list_all rule_ok rs) caps" using rc by (auto simp: list_all_iff)
  with rc cl render_actions_ok[OF b] show ?thesis by (simp add: out output_ok_def caps_ok_def)
qed

text \<open>C32. The output of the compiler is well formed: every match has the fields of its type, with the values the
  compiler checks for: addresses of ten hexadecimal digits, addresses with a netmask that match their pattern, ordered
  port, frame-size and TOS ranges within 16 and 8 bits, ICMP types and codes of 8 bits, masks of sixteen digits, and
  32-bit numbers elsewhere (also for VLAN, ether type and protocol, whose fields are narrower, see
  \<^verbatim>\<open>vlan_id_is_not_bounded\<close>); capabilities and tags have distinct names and 32-bit identifiers, distinct for
  capabilities; the flags of a tag are signed masks, its named values 32-bit numbers, and its default is absent, a signed or
  unsigned 32-bit number (a negative one is possible, see \<^verbatim>\<open>tag_default_is_not_checked\<close>), or an array where a block
  stands in its place.\<close>

theorem compiled_rules_in_range: "compile depth src = Inr out \<Longrightarrow> output_ok out"
  by (rule compile_ok)

theorem compiled_rules_in_range_witness:
  "compile 9 ports_source = Inr \<lparr>cd_rules = [Match ''MATCH_IP_DEST_PORT_RANGE'' True False (Range 22 80), Action ''ACTION_DROP'', Action ''ACTION_ACCEPT''],
      cd_caps = [], cd_tags = []\<rparr>
   \<and> output_ok \<lparr>cd_rules = [Match ''MATCH_IP_DEST_PORT_RANGE'' True False (Range 22 80), Action ''ACTION_DROP'', Action ''ACTION_ACCEPT''],
      cd_caps = [], cd_tags = []\<rparr>"
proof -
  have "compile 9 ports_source = Inr \<lparr>cd_rules = [Match ''MATCH_IP_DEST_PORT_RANGE'' True False (Range 22 80), Action ''ACTION_DROP'', Action ''ACTION_ACCEPT''],
      cd_caps = [], cd_tags = []\<rparr>" by code_simp
  then show ?thesis using compiled_rules_in_range by blast
qed

text \<open>A list of characteristics compiles to the 64-bit mask with the listed bits set, as long as the highest
  bit of a half (31 or 63) is not combined with other bits of that half.\<close>

theorem characteristics_mask:
  assumes "test_chr a = Inr (ty, Mask m)"
    and "drop_bit 32 (mask_of (chr_bits (split_runs (\<lambda>c. c = CHR '','') (fst a)))) \<le> 2147483648"
    and "take_bit 32 (mask_of (chr_bits (split_runs (\<lambda>c. c = CHR '','') (fst a)))) \<le> 2147483648"
  shows "hex_text 16 m \<and> int (hexs_val 0 m) = mask_of (chr_bits (split_runs (\<lambda>c. c = CHR '','') (fst a)))"
proof -
  let ?ws = "split_runs (\<lambda>c. c = CHR '','') (fst a)"
  let ?M = "mask_of (chr_bits ?ws)"
  from assms(1) have m: "m = mask_text (halves ?M)" and bs: "list_all (\<lambda>b. 0 \<le> b \<and> b < 64) (chr_bits ?ws)"
    using chr_masks_halves[of ?ws 0] by (auto simp: test_chr_def halves_zero mask_of_def split: option.splits if_splits)
  have h: "half_ok (to_int32 x)" for x using to_int32_range by (simp add: half_ok_def)
  have M: "0 \<le> drop_bit 32 ?M" "0 \<le> take_bit 32 ?M" using mask_of_range(1)[OF bs] by (simp_all)
  have "int (hexs_val 0 m) = drop_bit 32 ?M * 2 ^ 32 + take_bit 32 ?M"
    using mask_text_value(2)[OF h h] assms(2,3) M by (simp add: m halves_def abs_int32)
  also have "\<dots> = ?M" by (simp add: drop_bit_eq_div take_bit_eq_mod)
  finally show ?thesis using mask_text_value(1)[OF h h] by (simp add: m halves_def)
qed

text \<open>The characteristic for inbound frames combined with other characteristics of the high half gives the mask of other
  bits: with \<open>x\<close> the value of the others, the high half is \<open>2\<^sup>3\<^sup>1 - x\<close> where \<open>2\<^sup>3\<^sup>1 + x\<close> is meant.\<close>

theorem inbound_mask_is_wrong:
  assumes "test_chr a = Inr (ty, Mask m)"
    and "drop_bit 32 (mask_of (chr_bits (split_runs (\<lambda>c. c = CHR '','') (fst a)))) = 2147483648 + x"
    and "0 < x" "x < 2147483648"
  shows "int (hexs_val 0 m) div 2 ^ 32 = 2147483648 - x"
proof -
  let ?ws = "split_runs (\<lambda>c. c = CHR '','') (fst a)"
  let ?M = "mask_of (chr_bits ?ws)"
  from assms(1) have m: "m = mask_text (halves ?M)"
    using chr_masks_halves[of ?ws 0] by (auto simp: test_chr_def halves_zero mask_of_def split: option.splits if_splits)
  have h: "half_ok (to_int32 y)" for y using to_int32_range by (simp add: half_ok_def)
  have "0 \<le> take_bit 32 ?M" "take_bit 32 ?M < 4294967296" by (simp_all add: take_bit_eq_mod)
  then have "0 \<le> \<bar>to_int32 (take_bit 32 ?M)\<bar>" "\<bar>to_int32 (take_bit 32 ?M)\<bar> < 2 ^ 32" by (simp_all add: abs_int32)
  moreover have "\<bar>to_int32 (2147483648 + x)\<bar> = 2147483648 - x" using assms(3,4) by (simp add: abs_int32)
  ultimately show ?thesis using mask_text_value(2)[OF h h] assms(2) by (simp add: m halves_def)
qed


theorem characteristics_mask_witness:
  "test_chr (''tcp_syn,3'', 1, 0) = Inr (''MATCH_CHARACTERISTICS'', Mask ''000000000000000a'')
   \<and> int (hexs_val 0 ''000000000000000a'') = mask_of (chr_bits (split_runs (\<lambda>c. c = CHR '','') ''tcp_syn,3''))"
proof -
  have t: "test_chr (''tcp_syn,3'', 1, 0) = Inr (''MATCH_CHARACTERISTICS'', Mask ''000000000000000a'')" by code_simp
  have "mask_of (chr_bits (split_runs (\<lambda>c. c = CHR '','') ''tcp_syn,3'')) = 10" by code_simp
  with t characteristics_mask[OF t] show ?thesis by (simp add: drop_bit_eq_div take_bit_eq_mod)
qed

theorem inbound_mask_is_wrong_witness:
  "test_chr (''inbound,multicast'', 1, 0) = Inr (''MATCH_CHARACTERISTICS'', Mask ''4000000000000000'')
   \<and> int (hexs_val 0 ''4000000000000000'') div 2 ^ 32 = 2147483648 - 1073741824"
proof -
  have m: "mask_text (- 1073741824, 0) = ''4000000000000000''"
  proof -
    have "hex_digits 1073741824 = ''40000000''" "hex_digits 0 = ''0''"
      by (simp_all add: hex_digits.simps char_of_def bit_0)
    moreover have "replicate 7 CHR ''0'' = ''0000000''" by code_simp
    ultimately show ?thesis by (simp add: mask_text_def int_hex_def pad_start_def)
  qed
  have c: "chr_masks (split_runs (\<lambda>c. c = CHR '','') ''inbound,multicast'') (0, 0) = Some (- 1073741824, 0)" by code_simp
  have t: "test_chr (''inbound,multicast'', 1, 0) = Inr (''MATCH_CHARACTERISTICS'', Mask ''4000000000000000'')"
    by (simp add: test_chr_def c m)
  have "mask_of (chr_bits (split_runs (\<lambda>c. c = CHR '','') ''inbound,multicast'')) = 13835058055282163712" by code_simp
  with t inbound_mask_is_wrong[OF t, of 1073741824] show ?thesis by (simp add: drop_bit_eq_div)
qed

text \<open>The macro names that a list of elements includes, and a ranking of the macros that every inclusion
  descends: there is one exactly if no macro includes itself, directly or through others.\<close>

fun include_names :: "elem list \<Rightarrow> string list" where
  "include_names (e # nm # es) = (if keyword e = ''include'' then [fst (call_parts (elem_text nm))] else []) @ include_names (nm # es)"
| "include_names es = []"

definition below :: "macros \<Rightarrow> (string \<Rightarrow> nat) \<Rightarrow> nat \<Rightarrow> elem list \<Rightarrow> bool" where
  "below macros rank d es = list_all (\<lambda>k. k \<in> set (map fst macros) \<longrightarrow> rank k < d) (include_names es)"

definition ranked :: "macros \<Rightarrow> (string \<Rightarrow> nat) \<Rightarrow> bool" where
  "ranked macros rank = list_all (\<lambda>(n, mc). below macros rank (rank n) (mc_rules mc)) macros"

definition start_collected :: collected where
  "start_collected = \<lparr>cl_macros = [], cl_tags = [], cl_caps = [], cl_base = []\<rparr>"

abbreviation "macro_source \<equiv> ''macro a break; ; macro b include a; ; include b accept;''"

section \<open>Macros\<close>

lemma include_names_tail: "set (include_names es) \<subseteq> set (include_names (e # es))"
  by (cases es) auto

lemma include_names_drop: "set (include_names (drop n es)) \<subseteq> set (include_names es)"
proof (induction n arbitrary: es)
  case (Suc n)
  then show ?case using include_names_tail by (cases es) force+
qed simp

lemma below_drop: "below macros rank d (e # es) \<Longrightarrow> below macros rank d (drop n es)"
  using include_names_drop[of n es] include_names_tail[of es e] by (auto simp: below_def list_all_iff)

lemma below_mono: "below macros rank d es \<Longrightarrow> d \<le> d' \<Longrightarrow> below macros rank d' es"
  by (auto simp: below_def list_all_iff)

lemma macro_call_body:
  assumes "macro_call macros nm = Inr (body, ps)"
  shows "\<exists>mc. map_of macros (fst (call_parts (elem_text nm))) = Some mc \<and> body = mc_rules mc"
  using assms by (auto simp: macro_call_def Let_def split: option.splits if_splits prod.splits)

lemma action_step_call:
  assumes "action_step macros tags params e es = Inr (Inr (body, ps), n)" "ranked macros rank" "below macros rank d (e # es)"
  shows "\<exists>d0. d = Suc d0 \<and> below macros rank d0 body"
proof -
  from assms(1) obtain nm rest where i: "keyword e = ''include''" "es = nm # rest" "macro_call macros nm = Inr (body, ps)"
    unfolding action_step_def Let_def by (auto simp: rbind_Inr_iff split: if_splits list.splits elem.splits)
  then obtain mc where mc: "map_of macros (fst (call_parts (elem_text nm))) = Some mc" "body = mc_rules mc"
    using macro_call_body by blast
  let ?k = "fst (call_parts (elem_text nm))"
  have "(?k, mc) \<in> set macros" using mc(1) by (rule map_of_SomeD)
  then have b: "below macros rank (rank ?k) body" "?k \<in> set (map fst macros)"
    using assms(2) mc(2) by (auto simp: ranked_def list_all_iff image_iff intro: bexI[rotated])
  then have "rank ?k < d" using assms(3) i by (simp add: below_def)
  then show ?thesis using below_mono[OF b(1), of "d - 1"] by (intro exI[of _ "d - 1"]) simp
qed

lemma render_actions_depth:
  "ranked macros rank \<Longrightarrow> below macros rank d es \<Longrightarrow> d \<le> d' \<Longrightarrow>
     render_actions d' macros tags params es = render_actions d macros tags params es"
proof (induction d macros tags params es arbitrary: d' rule: render_actions.induct)
  case (2 d macros tags params e es)
  have rest: "render_actions d' macros tags params (drop n es) = render_actions d macros tags params (drop n es)" for n
    by (rule 2(2)[OF 2(3) below_drop[OF 2(4)] 2(5)])
  show ?case
  proof (cases "action_step macros tags params e es")
    case (Inr on)
    obtain out n where on: "on = (out, n)" by (cases on)
    show ?thesis
    proof (cases out)
      case (Inr call)
      obtain body ps where call: "call = (body, ps)" by (cases call)
      obtain d0 where d0: "d = Suc d0" "below macros rank d0 body"
        using action_step_call 2(3,4) \<open>action_step macros tags params e es = Inr on\<close> on Inr call by blast
      obtain e0 where e0: "d' = Suc e0" "d0 \<le> e0" using 2(5) d0(1) by (cases d') auto
      have "render_actions e0 macros tags ps body = render_actions d0 macros tags ps body"
        using 2(1)[OF Inr call[symmetric] d0(1) 2(3) d0(2) e0(2)] .
      then show ?thesis using \<open>action_step macros tags params e es = Inr on\<close> on Inr call d0(1) e0(1) rest by simp
    qed (use \<open>action_step macros tags params e es = Inr on\<close> on rest in simp)
  qed simp
qed simp


lemma render_caps_depth:
  "ranked macros rank \<Longrightarrow> list_all (\<lambda>(n, c). below macros rank d (cp_rules c)) caps \<Longrightarrow> d \<le> d' \<Longrightarrow>
     render_caps d' macros tags caps = render_caps d macros tags caps"
proof (induction caps)
  case (Cons nc caps)
  obtain n c where nc: "nc = (n, c)" by (cases nc)
  with Cons render_actions_depth[of macros rank d "cp_rules c" d'] show ?case by simp
qed simp

lemma below_limit: "list_all (\<lambda>n. rank n < d) (map fst macros) \<Longrightarrow> below macros rank d es"
  by (auto simp: below_def list_all_iff)

lemma compile_depth:
  assumes "collect (parse src) start_collected = Inr cl" "ranked (cl_macros cl) rank"
    and "list_all (\<lambda>n. rank n < d) (map fst (cl_macros cl))" "d \<le> d'"
  shows "compile d' src = compile d src"
proof -
  note b = below_limit[OF assms(3)]
  have "render_caps d' (cl_macros cl) (cl_tags cl) (cl_caps cl) = render_caps d (cl_macros cl) (cl_tags cl) (cl_caps cl)"
    by (rule render_caps_depth[OF assms(2) _ assms(4)]) (simp add: b list_all_iff split_beta)
  moreover note render_actions_depth[OF assms(2) b assms(4)]
  ultimately show ?thesis using assms(1) by (simp add: compile_def start_collected_def)
qed

text \<open>No step but the expansion of a macro exhausts the stack.\<close>

lemma rbind_overflow: "rbind r f = Inl StackOverflow \<longleftrightarrow> r = Inl StackOverflow \<or> (\<exists>x. r = Inr x \<and> f x = Inl StackOverflow)"
  by (cases r) simp_all

lemma errors_no_overflow [simp]: "err_at e m \<noteq> StackOverflow" "arg_err a m \<noteq> StackOverflow"
  by (cases e; simp add: err_at_def) (cases a; simp add: arg_err_def)

lemma take_args_overflow: "take_args params prev n es \<noteq> Inl StackOverflow"
  by (induction params prev n es rule: take_args.induct) (auto simp: rbind_overflow split: option.split)

lemma render_test_overflow: "render_test tags m args \<noteq> Inl StackOverflow"
proof -
  have "test_zt m a \<noteq> Inl StackOverflow" "test_numeric m a \<noteq> Inl StackOverflow" "test_mac m a \<noteq> Inl StackOverflow"
    "test_ip m a \<noteq> Inl StackOverflow" "test_icmp a b \<noteq> Inl StackOverflow" "test_range m a \<noteq> Inl StackOverflow"
    "test_tos a b \<noteq> Inl StackOverflow" "test_chr a \<noteq> Inl StackOverflow" "test_tag tags m a b \<noteq> Inl StackOverflow" for a b
    by (auto simp: test_defs Let_def split: option.split prod.split)
  then show ?thesis by (simp add: render_test_def Let_def rbind_overflow)
qed

lemma render_matches_overflow: "render_matches tags params nt orr es \<noteq> Inl StackOverflow"
proof (induction tags params nt orr es rule: render_matches.induct)
  case (2 tags params nt orr e es)
  then show ?case by (cases "arg_count (keyword e)") (auto simp: Let_def rbind_overflow take_args_overflow render_test_overflow)
qed simp

lemma tee_overflow: "tee_rule tags params action es \<noteq> Inl StackOverflow" "redirect_rule tags params action es \<noteq> Inl StackOverflow"
  by (cases "(tags, params, action, es)" rule: tee_rule.cases; simp add: Let_def rbind_overflow render_matches_overflow)
    (cases es; simp add: rbind_overflow render_matches_overflow)

lemma action_step_overflow: "action_step macros tags params e es \<noteq> Inl StackOverflow"
  unfolding action_step_def Let_def
  by (auto simp: rbind_overflow render_matches_overflow tee_overflow macro_call_def split: list.split elem.split option.split prod.split)

lemma render_actions_ends: "ranked macros rank \<Longrightarrow> below macros rank d es \<Longrightarrow> render_actions d macros tags params es \<noteq> Inl StackOverflow"
proof (induction d macros tags params es rule: render_actions.induct)
  case (2 d macros tags params e es)
  have rest: "render_actions d macros tags params (drop n es) \<noteq> Inl StackOverflow" for n
    by (rule 2(2)[OF 2(3) below_drop[OF 2(4)]])
  have call: "\<exists>d0. d = Suc d0 \<and> render_actions d0 macros tags ps body \<noteq> Inl StackOverflow"
    if "action_step macros tags params e es = Inr (Inr (body, ps), n)" for body ps n
    using action_step_call[OF that 2(3,4)] 2(1) 2(3) by blast
  show ?case
  proof (cases "action_step macros tags params e es")
    case (Inr on)
    obtain out n where on: "on = (out, n)" by (cases on)
    show ?thesis
    proof (cases out)
      case (Inr c)
      obtain body ps where "c = (body, ps)" by (cases c)
      then show ?thesis using call[of body ps n] \<open>action_step macros tags params e es = Inr on\<close> on Inr rest
        by (auto simp: rbind_overflow)
    qed (use \<open>action_step macros tags params e es = Inr on\<close> on rest in \<open>simp add: rbind_overflow\<close>)
  qed (use action_step_overflow[of macros tags params e es] in \<open>simp add: rbind_overflow\<close>)
qed simp

lemma render_caps_ends:
  "ranked macros rank \<Longrightarrow> list_all (\<lambda>(n, c). below macros rank d (cp_rules c)) caps \<Longrightarrow> render_caps d macros tags caps \<noteq> Inl StackOverflow"
  by (induction caps) (auto simp: rbind_overflow render_actions_ends)

text \<open>C34. Macro expansion ends: when no macro includes itself, directly or through others, so that the macros can be ranked
  with every inclusion going down, a stack as deep as the ranks is enough: the compiler then ends with its rules or
  with an error other than an exhausted stack, and a deeper stack gives the same result. (A macro that includes
  itself exhausts every stack, see \<^verbatim>\<open>recursive_macro_is_rejected\<close>.)\<close>

theorem macro_expansion_ends:
  assumes "collect (parse src) start_collected = Inr cl" "ranked (cl_macros cl) rank"
    and "list_all (\<lambda>n. rank n < d) (map fst (cl_macros cl))" "d \<le> d'"
  shows "compile d' src \<noteq> Inl StackOverflow \<and> compile d' src = compile d src"
proof -
  note b = below_limit[OF assms(3)]
  have "render_caps d (cl_macros cl) (cl_tags cl) (cl_caps cl) \<noteq> Inl StackOverflow"
    by (rule render_caps_ends[OF assms(2)]) (simp add: b list_all_iff split_beta)
  then have "compile d src \<noteq> Inl StackOverflow"
    using assms(1) render_actions_ends[OF assms(2) b] by (simp add: compile_def start_collected_def rbind_overflow)
  then show ?thesis using compile_depth[OF assms] by simp
qed

theorem macro_expansion_ends_witness:
  "compile 7 macro_source = compile 2 macro_source
   \<and> compile 2 macro_source = Inr \<lparr>cd_rules = [Action ''ACTION_BREAK'', Action ''ACTION_ACCEPT''], cd_caps = [], cd_tags = []\<rparr>"
proof -
  let ?rank = "\<lambda>n. if n = ''b'' then 1 else 0 :: nat"
  have "is_ok (collect (parse macro_source) start_collected)" by code_simp
  then obtain cl where cl: "collect (parse macro_source) start_collected = Inr cl" by (auto simp: is_ok_iff)
  have "(case collect (parse macro_source) start_collected of Inl _ \<Rightarrow> False
          | Inr cl \<Rightarrow> ranked (cl_macros cl) ?rank \<and> list_all (\<lambda>n. ?rank n < 2) (map fst (cl_macros cl)))" by code_simp
  then have "ranked (cl_macros cl) ?rank" "list_all (\<lambda>n. ?rank n < 2) (map fst (cl_macros cl))" by (simp_all only: cl sum.case)
  from macro_expansion_ends[OF cl this, of 7] have "compile 7 macro_source = compile 2 macro_source" by simp
  moreover have "compile 2 macro_source = Inr \<lparr>cd_rules = [Action ''ACTION_BREAK'', Action ''ACTION_ACCEPT''], cd_caps = [], cd_tags = []\<rparr>"
    by code_simp
  ultimately show ?thesis by blast
qed

text \<open>A macro that begins by including itself exhausts every stack: the program is rejected with the
  exception that the compiler catches, and no rules are produced.\<close>

theorem recursive_macro_is_rejected:
  assumes "map_of macros n = Some mc" "mc_params mc = []" "call_parts n = (n, [])"
    and "mc_rules mc = Tok ''include'' l c # Tok n l' c' # es"
  shows "render_actions depth macros tags params (Tok ''include'' l c # Tok n l' c' # es) = Inl StackOverflow"
proof -
  have k: "keyword (Tok ''include'' l c) = ''include''" by code_simp
  have s: "action_step macros tags ps (Tok ''include'' l c) (Tok n l' c' # es) = Inr (Inr (mc_rules mc, []), 1)" for ps
    using assms by (simp add: action_step_def k macro_call_def bind_params_def)
  have "render_actions depth macros tags ps (Tok ''include'' l c # Tok n l' c' # es) = Inl StackOverflow" for ps
    by (induction depth arbitrary: ps) (simp_all add: s assms(4))
  then show ?thesis .
qed

theorem recursive_macro_is_rejected_witness:
  "render_actions 5 [(''m'', \<lparr>mc_params = [], mc_rules = [Tok ''include'' 1 0, Tok ''m'' 1 8]\<rparr>)] [] [] [Tok ''include'' 1 0, Tok ''m'' 1 8] = Inl StackOverflow
   \<and> compile 5 ''macro m include m; ; include m'' = Inl StackOverflow"
proof -
  have "call_parts ''m'' = (''m'', [])" by code_simp
  then have "render_actions 5 [(''m'', \<lparr>mc_params = [], mc_rules = [Tok ''include'' 1 0, Tok ''m'' 1 8]\<rparr>)] [] [] [Tok ''include'' 1 0, Tok ''m'' 1 8] = Inl StackOverflow"
    by (intro recursive_macro_is_rejected[where mc = "\<lparr>mc_params = [], mc_rules = [Tok ''include'' 1 0, Tok ''m'' 1 8]\<rparr>"]) simp_all
  moreover have "compile 5 ''macro m include m; ; include m'' = Inl StackOverflow" by code_simp
  ultimately show ?thesis by blast
qed

text \<open>A document as a user writes it: after a blank come further blanks and comments, which run to the end of their
  line; there are words, and statements whose keyword opens a block that a semicolon closes, which stands alone or at the
  end of a last word.\<close>

datatype gap = Blank char | Comment string char

datatype doc = Word string char "gap list" | Stmt string char "gap list" "doc list" "string option" char "gap list"

fun gap_text :: "gap \<Rightarrow> string" where
  "gap_text (Blank c) = [c]"
| "gap_text (Comment t c) = CHR ''#'' # t @ [c]"

abbreviation "gaps_text gs \<equiv> concat (map gap_text gs)"

definition last_text :: "string option \<Rightarrow> string" where
  "last_text w = (case w of None \<Rightarrow> [] | Some t \<Rightarrow> t)"

fun doc_text :: "doc \<Rightarrow> string" where
  "doc_text (Word w c gs) = w @ [c] @ gaps_text gs"
| "doc_text (Stmt k c gs ds w e hs) = k @ [c] @ gaps_text gs @ concat (map doc_text ds) @ last_text w @ '';'' @ [e] @ gaps_text hs"

fun doc_elems :: "doc \<Rightarrow> elem list" where
  "doc_elems (Word w c gs) = [Tok w 0 0]"
| "doc_elems (Stmt k c gs ds w e hs) = [Tok k 0 0, Block (concat (map doc_elems ds) @ (case w of None \<Rightarrow> [] | Some t \<Rightarrow> [Tok t 0 0]))]"

fun no_positions :: "elem \<Rightarrow> elem" where
  "no_positions (Tok w l c) = Tok w 0 0"
| "no_positions (Block es) = Block (map no_positions es)"

definition blank :: "char \<Rightarrow> bool" where
  "blank c \<longleftrightarrow> c = CHR 0x0A \<or> c = CHR 0x0D \<or> c = CHR 0x09 \<or> c = CHR '' ''"

definition plain_word :: "string \<Rightarrow> bool" where
  "plain_word w \<longleftrightarrow> w \<noteq> [] \<and> hd w \<noteq> CHR ''#'' \<and> last w \<noteq> CHR '';'' \<and> list_all (\<lambda>c. \<not> blank c) w"

definition line_end :: "char \<Rightarrow> bool" where
  "line_end c \<longleftrightarrow> c = CHR 0x0A \<or> c = CHR 0x0D"

fun gap_ok :: "gap \<Rightarrow> bool" where
  "gap_ok (Blank c) = blank c"
| "gap_ok (Comment t c) = (list_all (\<lambda>x. \<not> line_end x) t \<and> line_end c)"

fun doc_ok :: "doc \<Rightarrow> bool" where
  "doc_ok (Word w c gs) = (plain_word w \<and> \<not> in_obj w OPEN_BLOCK_KEYWORDS \<and> blank c \<and> list_all gap_ok gs)"
| "doc_ok (Stmt k c gs ds w e hs) = (plain_word k \<and> in_obj k OPEN_BLOCK_KEYWORDS \<and> blank c \<and> list_all gap_ok gs \<and> list_all doc_ok ds
     \<and> (case w of None \<Rightarrow> ds \<noteq> [] | Some t \<Rightarrow> plain_word t) \<and> blank e \<and> list_all gap_ok hs)"

definition between :: "lex_state \<Rightarrow> bool" where
  "between s \<longleftrightarrow> lx_curr s = [] \<and> \<not> lx_skip s"

definition lexes :: "string \<Rightarrow> elem list \<Rightarrow> bool" where
  "lexes txt out \<longleftrightarrow> (\<forall>s b bs. between s \<and> lx_stack s = b # bs \<longrightarrow>
     (\<exists>es. between (foldl lex_char s txt) \<and> lx_stack (foldl lex_char s txt) = (b @ es) # bs \<and> map no_positions es = out))"

abbreviation "spc \<equiv> CHR '' ''"
abbreviation "nl \<equiv> CHR 0x0A"

abbreviation "demo_docs \<equiv> [Stmt ''cap'' spc [] [Word ''su'' spc [Comment ''all'' nl, Blank CHR 0x09], Word ''id'' spc [], Word ''1'' nl [],
     Stmt ''accept'' spc [] [Word ''chr'' spc []] (Some ''tcp_syn'') nl []] None nl [Blank nl, Comment '' drop;'' CHR 0x0D],
   Stmt ''break'' spc [] [Word ''not'' spc [], Word ''vlan'' spc []] (Some ''7'') nl []]"

section \<open>Tokens and blocks\<close>

lemma lex_chars:
  assumes "list_all (\<lambda>c. \<not> blank c) w" "lx_curr s \<noteq> []" "\<not> lx_skip s"
  shows "\<exists>i. foldl lex_char s w = s\<lparr>lx_curr := lx_curr s @ w, lx_lineIdx := i\<rparr>"
  using assms
proof (induction w arbitrary: s)
  case (Cons c w)
  have "lex_char s c = s\<lparr>lx_curr := lx_curr s @ [c], lx_lineIdx := lx_lineIdx s + 1\<rparr>"
    using Cons.prems by (simp add: lex_char_def blank_def next_idx_def)
  with Cons.IH[of "lex_char s c"] Cons.prems show ?case by auto
qed (metis append_Nil2 foldl_Nil lex_state.surjective lex_state.update_convs(2,7))

text \<open>What surrounds the tokens leaves the stack alone.\<close>

definition lexes_away :: "string \<Rightarrow> bool" where
  "lexes_away txt \<longleftrightarrow> (\<forall>s. between s \<longrightarrow> between (foldl lex_char s txt) \<and> lx_stack (foldl lex_char s txt) = lx_stack s)"

lemma away_append: "lexes_away x \<Longrightarrow> lexes_away y \<Longrightarrow> lexes_away (x @ y)"
  by (simp add: lexes_away_def)

lemma lex_comment:
  assumes "list_all (\<lambda>x. \<not> line_end x) t" "lx_skip s" "lx_curr s = []"
  shows "lx_skip (foldl lex_char s t) \<and> lx_curr (foldl lex_char s t) = [] \<and> lx_stack (foldl lex_char s t) = lx_stack s"
  using assms
proof (induction t arbitrary: s)
  case (Cons x t)
  have "lex_char s x = next_idx s" using Cons.prems by (simp add: lex_char_def line_end_def)
  with Cons.IH[of "next_idx s"] Cons.prems show ?case by (simp add: next_idx_def)
qed simp

lemma gap_away: "gap_ok g \<Longrightarrow> lexes_away (gap_text g)"
proof (cases g)
  case (Blank c)
  assume "gap_ok g"
  then show ?thesis using Blank
    by (auto simp: lexes_away_def lex_char_def blank_def between_def end_token_def next_idx_def new_line_def)
next
  case (Comment t c)
  assume ok: "gap_ok g"
  show ?thesis unfolding lexes_away_def
  proof (intro allI impI)
    fix s assume s: "between s"
    let ?s = "next_idx (s\<lparr>lx_skip := True\<rparr>)"
    have h: "lex_char s CHR ''#'' = ?s" using s by (simp add: lex_char_def between_def)
    have "lx_skip ?s" "lx_curr ?s = []" "lx_stack ?s = lx_stack s" using s by (simp_all add: next_idx_def between_def)
    then have "lx_skip (foldl lex_char ?s t) \<and> lx_curr (foldl lex_char ?s t) = [] \<and> lx_stack (foldl lex_char ?s t) = lx_stack s"
      using lex_comment[of t ?s] ok Comment by simp
    then show "between (foldl lex_char s (gap_text g)) \<and> lx_stack (foldl lex_char s (gap_text g)) = lx_stack s"
      using ok Comment h by (auto simp: lex_char_def line_end_def next_idx_def new_line_def between_def)
  qed
qed

lemma gaps_away: "list_all gap_ok gs \<Longrightarrow> lexes_away (gaps_text gs)"
  by (induction gs) (simp_all add: away_append gap_away, simp add: lexes_away_def)

lemma lex_word:
  assumes "w \<noteq> []" "hd w \<noteq> CHR ''#''" "list_all (\<lambda>c. \<not> blank c) w" "between s" "blank e"
  shows "\<exists>t. foldl lex_char s (w @ [e]) = next_idx (end_token t) \<and> lx_curr t = w \<and> lx_stack t = lx_stack s \<and> \<not> lx_skip t"
proof -
  obtain c v where w: "w = c # v" using assms(1) by (cases w) auto
  let ?t = "s\<lparr>lx_line := lx_lineNo s, lx_col := lx_lineIdx s, lx_curr := [c], lx_lineIdx := lx_lineIdx s + 1\<rparr>"
  have "lex_char s c = ?t" using assms w by (simp add: lex_char_def between_def blank_def next_idx_def)
  moreover obtain i where "foldl lex_char ?t v = ?t\<lparr>lx_curr := [c] @ v, lx_lineIdx := i\<rparr>"
    using lex_chars[of v ?t] assms w by (auto simp: between_def)
  ultimately have f: "foldl lex_char s w = s\<lparr>lx_line := lx_lineNo s, lx_col := lx_lineIdx s, lx_curr := w, lx_lineIdx := i\<rparr>" by (simp add: w)
  let ?u = "s\<lparr>lx_line := lx_lineNo s, lx_col := lx_lineIdx s, lx_curr := w, lx_lineIdx := i\<rparr>"
  have "\<exists>t. lex_char ?u e = next_idx (end_token t) \<and> lx_curr t = w \<and> lx_stack t = lx_stack s \<and> \<not> lx_skip t"
    using assms(4,5) unfolding lex_char_def
    by (auto simp: between_def blank_def new_line_def intro: exI[of _ "new_line ?u"] exI[of _ ?u])
  then show ?thesis using f by simp
qed

lemma end_token_between: "\<not> lx_skip s \<Longrightarrow> between (next_idx (end_token s))"
  by (simp add: between_def next_idx_def end_token_def Let_def)

lemma lex_plain:
  assumes "plain_word w" "blank e" "between s" "lx_stack s = b # bs"
  shows "\<exists>l c. between (foldl lex_char s (w @ [e])) \<and> lx_stack (foldl lex_char s (w @ [e]))
      = (if in_obj w OPEN_BLOCK_KEYWORDS then [[]] else []) @ (b @ [Tok w l c]) # bs"
proof -
  obtain t where t: "foldl lex_char s (w @ [e]) = next_idx (end_token t)" "lx_curr t = w" "lx_stack t = lx_stack s" "\<not> lx_skip t"
    using lex_word[of w s e] assms by (auto simp: plain_word_def)
  have "between (foldl lex_char s (w @ [e]))" unfolding t(1) by (rule end_token_between[OF t(4)])
  moreover have "lx_stack (foldl lex_char s (w @ [e])) = (if in_obj w OPEN_BLOCK_KEYWORDS then [[]] else []) @ (b @ [Tok w (lx_line t) (lx_col t)]) # bs"
    unfolding t(1) using assms t by (simp add: end_token_def plain_word_def next_idx_def)
  ultimately show ?thesis by blast
qed

lemma lex_semicolon:
  assumes "between s" "lx_stack s = b # b' # bs" "blank e" "case w of None \<Rightarrow> b \<noteq> [] | Some t \<Rightarrow> plain_word t"
  shows "\<exists>l c. between (foldl lex_char s (last_text w @ '';'' @ [e]))
    \<and> lx_stack (foldl lex_char s (last_text w @ '';'' @ [e])) = (b' @ [Block (b @ (case w of None \<Rightarrow> [] | Some t \<Rightarrow> [Tok t l c]))]) # bs"
proof -
  let ?w = "last_text w @ '';''"
  have "hd ?w \<noteq> CHR ''#''" "list_all (\<lambda>c. \<not> blank c) ?w" using assms(4)
    by (auto simp: last_text_def plain_word_def blank_def split: option.split_asm)
  then obtain t where t: "foldl lex_char s (?w @ [e]) = next_idx (end_token t)" "lx_curr t = ?w" "lx_stack t = lx_stack s" "\<not> lx_skip t"
    using lex_word[of ?w s e] assms(1,3) by auto
  have "between (foldl lex_char s (?w @ [e]))" unfolding t(1) by (rule end_token_between[OF t(4)])
  moreover have "lx_stack (foldl lex_char s (?w @ [e])) = (b' @ [Block (b @ (case w of None \<Rightarrow> [] | Some x \<Rightarrow> [Tok x (lx_line t) (lx_col t)]))]) # bs"
    unfolding t(1) using assms(2,4) t(2,3)
    by (cases w) (auto simp: end_token_def next_idx_def last_text_def plain_word_def)
  ultimately show ?thesis by auto
qed

lemma lexes_concat:
  assumes "\<And>d. d \<in> set ds \<Longrightarrow> lexes (doc_text d) (doc_elems d)"
  shows "lexes (concat (map doc_text ds)) (concat (map doc_elems ds))"
  using assms
proof (induction ds)
  case Nil
  then show ?case by (simp add: lexes_def)
next
  case (Cons d ds)
  then have h: "lexes (doc_text d) (doc_elems d)" and t: "lexes (concat (map doc_text ds)) (concat (map doc_elems ds))" by auto
  show ?case unfolding lexes_def
  proof (intro allI impI)
    fix s b bs
    assume "between s \<and> lx_stack s = b # bs"
    with h obtain es where e: "between (foldl lex_char s (doc_text d))" "lx_stack (foldl lex_char s (doc_text d)) = (b @ es) # bs"
      "map no_positions es = doc_elems d" unfolding lexes_def by blast
    with t obtain fs where "between (foldl lex_char (foldl lex_char s (doc_text d)) (concat (map doc_text ds)))"
      "lx_stack (foldl lex_char (foldl lex_char s (doc_text d)) (concat (map doc_text ds))) = ((b @ es) @ fs) # bs"
      "map no_positions fs = concat (map doc_elems ds)" unfolding lexes_def by blast
    with e show "\<exists>es. between (foldl lex_char s (concat (map doc_text (d # ds)))) \<and> lx_stack (foldl lex_char s (concat (map doc_text (d # ds)))) = (b @ es) # bs
        \<and> map no_positions es = concat (map doc_elems (d # ds))"
      by (intro exI[of _ "es @ fs"]) simp
  qed
qed

lemma doc_elems_nonempty: "doc_elems d \<noteq> []"
  by (cases d) auto

lemma lexes_then_away:
  assumes "lexes_away z" "between (foldl lex_char s x)"
  shows "between (foldl lex_char s (x @ z))" "lx_stack (foldl lex_char s (x @ z)) = lx_stack (foldl lex_char s x)"
  using assms by (simp_all add: lexes_away_def)

lemma lexes_doc: "doc_ok d \<Longrightarrow> lexes (doc_text d) (doc_elems d)"
proof (induction d)
  case (Word w c gs)
  show ?case unfolding lexes_def
  proof (intro allI impI)
    fix s b bs
    assume "between s \<and> lx_stack s = b # bs"
    then obtain l k where k: "between (foldl lex_char s (w @ [c]))" "lx_stack (foldl lex_char s (w @ [c])) = (b @ [Tok w l k]) # bs"
      using lex_plain[of w c s b bs] Word by auto
    note lexes_then_away[OF gaps_away k(1), of gs]
    with k Word show "\<exists>es. between (foldl lex_char s (doc_text (Word w c gs))) \<and> lx_stack (foldl lex_char s (doc_text (Word w c gs))) = (b @ es) # bs
        \<and> map no_positions es = doc_elems (Word w c gs)"
      by (intro exI[of _ "[Tok w l k]"]) simp
  qed
next
  case (Stmt k x gs ds w e hs)
  then have ds: "lexes (concat (map doc_text ds)) (concat (map doc_elems ds))" by (intro lexes_concat) (auto simp: list_all_iff)
  have ok: "plain_word k" "in_obj k OPEN_BLOCK_KEYWORDS" "blank x" "list_all gap_ok gs" "blank e" "list_all gap_ok hs"
    and w: "case w of None \<Rightarrow> ds \<noteq> [] | Some t \<Rightarrow> plain_word t" using Stmt.prems by simp_all
  show ?case unfolding lexes_def
  proof (intro allI impI)
    fix s b bs
    assume "between s \<and> lx_stack s = b # bs"
    then obtain l c where k: "between (foldl lex_char s (k @ [x]))" "lx_stack (foldl lex_char s (k @ [x])) = [] # (b @ [Tok k l c]) # bs"
      using lex_plain[of k x s b bs] ok by auto
    let ?s1 = "foldl lex_char s ((k @ [x]) @ gaps_text gs)"
    have s1: "between ?s1" "lx_stack ?s1 = [] # (b @ [Tok k l c]) # bs"
      using lexes_then_away[OF gaps_away[OF ok(4)] k(1)] k(2) by simp_all
    let ?t = "foldl lex_char ?s1 (concat (map doc_text ds))"
    obtain es where e: "between ?t" "lx_stack ?t = es # (b @ [Tok k l c]) # bs" "map no_positions es = concat (map doc_elems ds)"
      using ds s1 unfolding lexes_def by fastforce
    have "es \<noteq> []" if "ds \<noteq> []" using that doc_elems_nonempty e(3) by (cases ds) auto
    then have "case w of None \<Rightarrow> es \<noteq> [] | Some t \<Rightarrow> plain_word t" using w by (simp split: option.split_asm)
    then obtain l' c' where f: "between (foldl lex_char ?t (last_text w @ '';'' @ [e]))"
        "lx_stack (foldl lex_char ?t (last_text w @ '';'' @ [e])) = ((b @ [Tok k l c]) @ [Block (es @ (case w of None \<Rightarrow> [] | Some t \<Rightarrow> [Tok t l' c']))]) # bs"
      using lex_semicolon[OF e(1,2) ok(5), of w] by auto
    note lexes_then_away[OF gaps_away[OF ok(6)] f(1)]
    with f(2) e(3) show "\<exists>es. between (foldl lex_char s (doc_text (Stmt k x gs ds w e hs))) \<and> lx_stack (foldl lex_char s (doc_text (Stmt k x gs ds w e hs))) = (b @ es) # bs
        \<and> map no_positions es = doc_elems (Stmt k x gs ds w e hs)"
      by (intro exI[of _ "[Tok k l c, Block (es @ (case w of None \<Rightarrow> [] | Some t \<Rightarrow> [Tok t l' c']))]"]) (simp split: option.split)
  qed
qed

text \<open>C30. The first pass of the compiler reads back every document: words become tokens and statements become
  blocks, nested as they were written, whatever blanks, line ends and comments stand between them and whether the
  semicolon of a statement stands alone or at the end of its last word. (Positions are left out.)\<close>

theorem documents_parse_back:
  assumes "list_all doc_ok ds" "list_all gap_ok gs"
  shows "map no_positions (parse (gaps_text gs @ concat (map doc_text ds))) = concat (map doc_elems ds)"
proof -
  let ?s = "foldl lex_char lex_start (gaps_text gs)"
  have "between lex_start" "lx_stack lex_start = [[]]" by (simp_all add: lex_start_def between_def)
  then have s: "between ?s" "lx_stack ?s = [[]]" using gaps_away[OF assms(2)] by (simp_all add: lexes_away_def)
  have "lexes (concat (map doc_text ds)) (concat (map doc_elems ds))"
    using assms lexes_doc by (intro lexes_concat) (auto simp: list_all_iff)
  then obtain es where "between (foldl lex_char ?s (concat (map doc_text ds)))"
    "lx_stack (foldl lex_char ?s (concat (map doc_text ds))) = [es]" "map no_positions es = concat (map doc_elems ds)"
    using s unfolding lexes_def by fastforce
  then show ?thesis by (simp add: parse_def last_token_def between_def)
qed

theorem documents_parse_back_witness:
  "map no_positions (parse (gaps_text [Comment ''rules'' nl] @ concat (map doc_text demo_docs))) = concat (map doc_elems demo_docs)"
proof -
  have "list_all doc_ok demo_docs" "list_all gap_ok [Comment ''rules'' nl]" by code_simp+
  from documents_parse_back[OF this] show ?thesis by simp
qed

section \<open>Where the compiler departs from its messages\<close>

text \<open>The VLAN identifier of a frame has twelve bits; a larger one is compiled.\<close>

lemma vlan_id_is_not_bounded:
  "0xfff < parseNum w \<Longrightarrow> parseNum w \<le> 0xffffffff \<Longrightarrow> test_numeric ''vlan'' (w, l, c) = Inr (''MATCH_VLAN_ID'', Numeric ''vlanId'' (parseNum w))"
  by (simp add: test_numeric_def numeric_value_def uint32_def match_names)

text \<open>The default of a tag is not checked: the mask of flag 31 makes it negative.\<close>

lemma tag_default_is_not_checked:
  "compile 1 ''tag t id 1 flag 31 f default f ; '' = Inr \<lparr>cd_rules = [], cd_caps = [],
     cd_tags = [(''t'', \<lparr>tg_id = 1, tg_default = DNum (- 2147483648), tg_enums = [], tg_flags = [(''f'', - 2147483648)]\<rparr>)]\<rparr>"
  by code_simp

text \<open>A flag at bit 31 is accepted in a tag definition and is negative, so that no test can name it.\<close>

lemma flag_bit_31_is_unusable:
  assumes "map_of tags n = Some t" "uint32 (tg_id t)" "map_of (tg_flags t) w = Some (js_shl 1 31)"
  shows "test_tag tags m (n, l, c) (w, l', c') = Inl (arg_err (w, l', c') ''Invalid tag value or unrecognized flag/enum name.'')"
proof -
  have "js_shl 1 31 < 0" by code_simp
  then show ?thesis using assms by (simp add: test_tag_def tag_value_def uint32_def)
qed

text \<open>The keyword \<^verbatim>\<open>priority\<close> opens a block and has an action type, and no action renders it.\<close>

lemma priority_is_unrecognized: "compile 1 ''priority 1;'' = Inl (CompileError (PNum 1) (PNum 0) ''Unrecognized action or directive in rule set.'')"
  by code_simp

text \<open>A \<^verbatim>\<open>tee\<close> with one parameter throws, where a message about two parameters is meant.\<close>

lemma tee_without_target_throws: "compile 1 ''tee 64;'' = Inl Unexpected"
  by code_simp

text \<open>An action without matches opens a block although a semicolon ends it, and the next statement becomes its
  matches.\<close>

lemma action_takes_next_statement:
  "compile 1 ''break; accept;'' = Inl (CompileError (PNum 1) (PNum 7) (''Unrecognized match type \"accept\".''))"
  by code_simp

text \<open>Names of macros are stored in lower case, and an inclusion is looked up as it is written.\<close>

lemma macro_names_are_case_sensitive:
  "compile 1 ''macro f break; ; include F accept;'' = Inl (CompileError (PNum 1) (PNum 25) ''Macro name not found.'')"
  by code_simp

text \<open>The address patterns are not anchored: an octet above 255 is accepted by its last digits.\<close>

lemma address_pattern_is_not_anchored: "rx_test IPV4_REGEX ''999.0.0.1''"
  by code_simp

end
