(* ===== verification/Network_Procedures.thy ===== *)
theory Network_Procedures
  imports Member_Procedures Routes_Sync Rule_Compiler
begin

text \<open>
  The procedures people call on networks (\<^verbatim>\<open>server/api/routers/networkRouter.ts\<close>), with the address sort of
  \<^verbatim>\<open>utils/sorting.ts\<close>.

  The state holds the account tables with the networks, the columns of a network that only these procedures use
  (\<open>net_meta\<close>), the \<^verbatim>\<open>Routes\<close> table, the member table, labels of members, the requests sent to the controller in
  their order, the activity log, invitation mails and the reconciles left running. The environment holds the
  caller, the controller's answers, the address tests, the database's case-insensitive match and ordering, and the
  texts of JSON values. Numbers in requests are integers. Webhooks and administrator mails do not throw and are not
  part of the state. The route targets kept with a network row are those of its creation (\<open>Organizations\<close>); the
  current routes are the rows of the \<^verbatim>\<open>Routes\<close> table.
\<close>

section \<open>Data\<close>

record v6_mode =
  v6_6plane :: "bool option"
  v6_rfc4193 :: "bool option"
  v6_zt :: "bool option"

record dns_config =
  dns_domain :: string
  dns_servers :: "string list"

text \<open>A partial network object of the controller: \<open>None\<close> is an absent property.\<close>

record net_config =
  nc_name :: "string option"
  nc_description :: "string option"
  nc_private :: "bool option"
  nc_v4 :: "bool option"
  nc_v6 :: "v6_mode option"
  nc_routes :: "route_target list option"
  nc_pools :: "ip_range list option"
  nc_clearDns :: "bool option"
  nc_dns :: "dns_config option"
  nc_mtu :: "int option"
  nc_multicastLimit :: "int option"
  nc_enableBroadcast :: "bool option"
  nc_rules :: "zt_rule list option"
  nc_capabilities :: "(int \<times> bool \<times> zt_rule list) list option"
  nc_tags :: "(int \<times> tag_default) list option"

definition no_config :: net_config where
  "no_config = \<lparr>nc_name = None, nc_description = None, nc_private = None, nc_v4 = None, nc_v6 = None, nc_routes = None, nc_pools = None,
     nc_clearDns = None, nc_dns = None, nc_mtu = None, nc_multicastLimit = None, nc_enableBroadcast = None, nc_rules = None,
     nc_capabilities = None, nc_tags = None\<rparr>"

text \<open>The body of an update: the object itself for the local controller, wrapped in \<^verbatim>\<open>config\<close> for ZeroTier Central.\<close>

record net_payload =
  np_config :: "net_config option"
  np_top :: net_config
  np_rulesSource :: "string option"
  np_capabilitiesByName :: "(string \<times> int) list option"
  np_tagsByName :: "tags option"

definition wrap :: "bool \<Rightarrow> net_config \<Rightarrow> net_payload" where
  "wrap central c = \<lparr>np_config = (if central then Some c else None), np_top = (if central then no_config else c), np_rulesSource = None,
     np_capabilitiesByName = None, np_tagsByName = None\<rparr>"

datatype net_call = MemberCall ctl_call | NetworkUpdate bool string net_payload | NetworkDelete bool string

fun net_call_network :: "net_call \<Rightarrow> string" where
  "net_call_network (MemberCall c) = call_network c"
| "net_call_network (NetworkUpdate central nwid p) = nwid"
| "net_call_network (NetworkDelete central nwid) = nwid"

record controller_net =
  cn_v6 :: "v6_mode option"
  cn_routes :: "routes_entity list"

record net_meta =
  nm_description :: "string option"
  nm_flowRule :: "string option"
  nm_tagsByName :: tags
  nm_capabilitiesByName :: "(string \<times> int) list"

record notation_row =
  no_id :: int
  no_name :: string
  no_nwid :: string
  no_color :: "string option"
  no_description :: "string option"

record net_env =
  ne_user :: string
  ne_role :: role
  ne_orgs :: "string list"
  ne_orgUsers :: "string \<Rightarrow> string list"
  ne_sync :: sync_env
  ne_valid4 :: "string \<Rightarrow> bool"
  ne_valid6 :: "string \<Rightarrow> bool"
  ne_json :: "net_config \<Rightarrow> string"
  ne_flowError :: "compile_error \<Rightarrow> string"
  ne_depth :: nat
  ne_network :: "bool \<Rightarrow> string \<Rightarrow> controller_net option"
  ne_members :: "bool \<Rightarrow> string \<Rightarrow> string list option"
  ne_update :: "bool \<Rightarrow> string \<Rightarrow> net_payload \<Rightarrow> bool"
  ne_delete :: "bool \<Rightarrow> string \<Rightarrow> bool"
  ne_memberUpdate :: "bool \<Rightarrow> string \<Rightarrow> string \<Rightarrow> update_params \<Rightarrow> bool"
  ne_validEmail :: "string \<Rightarrow> bool"
  ne_mail :: "string \<Rightarrow> bool"
  ne_gen :: "route_row list \<Rightarrow> string"
  ne_contains :: "string \<Rightarrow> string \<Rightarrow> bool"
  ne_order :: "string \<Rightarrow> bool \<Rightarrow> member_row list \<Rightarrow> member_row list"

record net_state =
  nt_db :: db
  nt_meta :: "(string \<times> net_meta) list"
  nt_routes :: "route_row list"
  nt_members :: member_state
  nt_notations :: "notation_row list"
  nt_nextNotation :: int
  nt_marks :: "(int \<times> nat) list"
  nt_calls :: "net_call list"
  nt_log :: "log_row list"
  nt_mails :: "(string \<times> string) list"
  nt_background :: "string list"

type_synonym 'a net_reply = "(exn + 'a) \<times> net_state"

definition net_permitted :: "net_env \<Rightarrow> string \<Rightarrow> role \<Rightarrow> (net_state \<Rightarrow> 'a net_reply) \<Rightarrow> net_state \<Rightarrow> 'a net_reply" where
  "net_permitted env nwid r f s = (case checkNetworkAccess (nt_db s) (ne_user env) nwid r of Inl e \<Rightarrow> (Inl e, s) | Inr _ \<Rightarrow> f s)"

definition net_log :: "net_env \<Rightarrow> string option \<Rightarrow> string \<Rightarrow> (net_state \<Rightarrow> 'a net_reply) \<Rightarrow> net_state \<Rightarrow> 'a net_reply" where
  "net_log env org action f s =
     (if truthy org \<and> the org \<notin> set (ne_orgs env) then (Inl record_missing, s)
      else f (s\<lparr>nt_log := nt_log s @ [\<lparr>lg_action = action, lg_by = ne_user env, lg_org = (if truthy org then org else None)\<rparr>]\<rparr>))"

definition net_send :: "net_call \<Rightarrow> net_state \<Rightarrow> net_state" where
  "net_send c s = s\<lparr>nt_calls := nt_calls s @ [c]\<rparr>"

definition network_update :: "net_env \<Rightarrow> bool \<Rightarrow> string \<Rightarrow> net_payload \<Rightarrow> net_state \<Rightarrow> unit net_reply" where
  "network_update env central nwid p s = (if ne_update env central nwid p then Inr () else Inl controller_failed, net_send (NetworkUpdate central nwid p) s)"

text \<open>The check and the log entry every change begins with.\<close>

definition changing :: "net_env \<Rightarrow> string option \<Rightarrow> string \<Rightarrow> string \<Rightarrow> (net_state \<Rightarrow> 'a net_reply) \<Rightarrow> net_state \<Rightarrow> 'a net_reply" where
  "changing env org nwid what f = net_permitted env nwid USER (net_log env org (''Changed network '' @ nwid @ what) f)"

section \<open>Addresses and routes\<close>

definition spread :: "'a option \<Rightarrow> 'a option \<Rightarrow> 'a option" where
  "spread a b = (case b of None \<Rightarrow> a | Some v \<Rightarrow> Some v)"

definition merge_v6 :: "v6_mode option \<Rightarrow> v6_mode \<Rightarrow> v6_mode" where
  "merge_v6 old new =
     (case old of None \<Rightarrow> new
      | Some o' \<Rightarrow> \<lparr>v6_6plane = spread (v6_6plane o') (v6_6plane new), v6_rfc4193 = spread (v6_rfc4193 o') (v6_rfc4193 new), v6_zt = spread (v6_zt o') (v6_zt new)\<rparr>)"

definition ipv6 :: "net_env \<Rightarrow> string option \<Rightarrow> bool \<Rightarrow> string \<Rightarrow> v6_mode \<Rightarrow> net_state \<Rightarrow> unit net_reply" where
  "ipv6 env org central nwid mode =
     changing env org nwid ('' IPv6 auto-assign to '' @ ne_json env (no_config\<lparr>nc_v6 := Some mode\<rparr>)) (\<lambda>s.
       case ne_network env central nwid of
         None \<Rightarrow> (Inl controller_failed, s)
       | Some nw \<Rightarrow> network_update env central nwid (wrap central (no_config\<lparr>nc_v6 := Some (merge_v6 (cn_v6 nw) mode)\<rparr>)) s)"

definition bool_text :: "bool \<Rightarrow> string" where
  "bool_text b = (if b then ''true'' else ''false'')"

definition enableIpv4AutoAssign :: "net_env \<Rightarrow> string option \<Rightarrow> bool \<Rightarrow> string \<Rightarrow> bool \<Rightarrow> net_state \<Rightarrow> unit net_reply" where
  "enableIpv4AutoAssign env org central nwid zt =
     changing env org nwid ('' IPv4 auto-assign to '' @ bool_text zt) (network_update env central nwid (wrap central (no_config\<lparr>nc_v4 := Some zt\<rparr>)))"

text \<open>A route of a request; the schema demands a target in CIDR notation and a gateway that is absent, \<^verbatim>\<open>lan\<close> or an
  address.\<close>

record route_input =
  ri_target :: "string option"
  ri_via :: "string option"

definition RouteSchema :: "net_env \<Rightarrow> route_input \<Rightarrow> bool" where
  "RouteSchema env r \<longleftrightarrow> (case ri_target r of None \<Rightarrow> False | Some t \<Rightarrow> isValidCIDR (ne_valid4 env) (ne_valid6 env) t)
     \<and> (truthy (ri_via r) \<longrightarrow> ri_via r = Some ''lan'' \<or> isValidIP (ne_valid4 env) (ne_valid6 env) (the (ri_via r)))"

definition route_of_input :: "route_input \<Rightarrow> route_target" where
  "route_of_input r = \<lparr>rt_target = the (ri_target r), rt_via = ri_via r\<rparr>"

record routes_input =
  rs_routes :: "route_input list option"
  rs_note :: "string option"
  rs_routeId :: "string option"
  rs_via :: "string option option"

text \<open>\<^verbatim>\<open>rs_via = None\<close> is an absent property, \<^verbatim>\<open>Some None\<close> is \<^verbatim>\<open>null\<close>.\<close>

definition write_note :: "routes_input \<Rightarrow> net_state \<Rightarrow> unit net_reply" where
  "write_note p s =
     (case rs_note p of None \<Rightarrow> (Inr (), s)
      | Some note \<Rightarrow>
          if list_ex (\<lambda>r. Some (row_id r) = rs_routeId p) (nt_routes s)
          then (Inr (), s\<lparr>nt_routes := map (\<lambda>r. if Some (row_id r) = rs_routeId p then r\<lparr>row_notes := Some note\<rparr> else r) (nt_routes s)\<rparr>)
          else (Inl record_missing, s))"

definition new_routes :: "string \<Rightarrow> routes_input \<Rightarrow> route_row list \<Rightarrow> route_target list option" where
  "new_routes nwid p rows =
     (case rs_via p of
        Some via \<Rightarrow>
          if truthy (rs_routeId p)
          then Some (map (\<lambda>r. \<lparr>rt_target = row_target r, rt_via = (if Some (row_id r) = rs_routeId p then (if truthy via then via else None) else row_via r)\<rparr>)
                       (filter (\<lambda>r. row_networkId r = nwid) rows))
          else map_option (map route_of_input) (rs_routes p)
      | None \<Rightarrow> map_option (map route_of_input) (rs_routes p))"

definition bad_via :: "net_env \<Rightarrow> routes_input \<Rightarrow> bool" where
  "bad_via env p \<longleftrightarrow> truthy (rs_routeId p)
     \<and> (case rs_via p of Some via \<Rightarrow> truthy via \<and> \<not> isValidIP (ne_valid4 env) (ne_valid6 env) (the via) | None \<Rightarrow> False)"

definition managedRoutes :: "net_env \<Rightarrow> string option \<Rightarrow> bool \<Rightarrow> string \<Rightarrow> routes_input \<Rightarrow> net_state \<Rightarrow> unit net_reply" where
  "managedRoutes env org central nwid p s =
     (if \<not> (case rs_routes p of None \<Rightarrow> True | Some rs \<Rightarrow> list_all (RouteSchema env) rs) then (Inl ZodError, s)
      else changing env org nwid ('' managed routes to '' @ ne_json env (no_config\<lparr>nc_routes := map_option (map route_of_input) (rs_routes p)\<rparr>)) (\<lambda>s.
        sbind (write_note p s) (\<lambda>_ s1.
          if bad_via env p then (Inl (TRPCError BAD_REQUEST ''Via must be a valid IP address or empty for LAN''), s1)
          else network_update env central nwid (wrap central (no_config\<lparr>nc_routes := new_routes nwid p (nt_routes s1)\<rparr>)) s1)) s)"

definition easyIpAssignment :: "net_env \<Rightarrow> string option \<Rightarrow> bool \<Rightarrow> string \<Rightarrow> route_input list option \<Rightarrow> net_state \<Rightarrow> unit net_reply" where
  "easyIpAssignment env org central nwid routes s =
     (if \<not> (case routes of None \<Rightarrow> True | Some rs \<Rightarrow> list_all (RouteSchema env) rs) then (Inl ZodError, s)
      else changing env org nwid ('' IP assignment to '' @ ne_json env (no_config\<lparr>nc_routes := map_option (map route_of_input) routes\<rparr>) @ '')}'') (\<lambda>s.
        case routes of Some (r # _) \<Rightarrow>
            let plan = IPv4gen (ri_target r) [] None
            in network_update env central nwid (wrap central (no_config\<lparr>nc_pools := Some (ipAssignmentPools plan), nc_routes := Some (plan_routes plan),
                 nc_v4 := Some (v4_zt plan)\<rparr>)) s
        | _ \<Rightarrow> (Inl (PlainError ''TypeError''), s)) s)"

definition pool_ok :: "net_env \<Rightarrow> ip_range \<Rightarrow> bool" where
  "pool_ok env p \<longleftrightarrow> ne_valid6 env (ipRangeStart p) \<and> ne_valid6 env (ipRangeEnd p) \<or> ne_valid4 env (ipRangeStart p) \<and> ne_valid4 env (ipRangeEnd p)"

definition target_address :: "route_target \<Rightarrow> string" where
  "target_address r = hd (js_split CHR ''/'' (rt_target r))"

text \<open>A \<^verbatim>\<open>Map\<close> keeps the place of the first entry of a key and the value of the last.\<close>

definition uniqueRoutes :: "route_target list \<Rightarrow> route_target list" where
  "uniqueRoutes rs = map (\<lambda>k. the (find (\<lambda>r. target_address r = k) (rev rs))) (js_set (map target_address rs))"

definition trim_pool :: "ip_range \<Rightarrow> ip_range" where
  "trim_pool p = p\<lparr>ipRangeStart := js_trim (ipRangeStart p), ipRangeEnd := js_trim (ipRangeEnd p)\<rparr>"

definition target_of_entity :: "routes_entity \<Rightarrow> route_target" where
  "target_of_entity r = \<lparr>rt_target = re_target r, rt_via = re_via r\<rparr>"

definition advancedIpAssignment :: "net_env \<Rightarrow> string option \<Rightarrow> bool \<Rightarrow> string \<Rightarrow> ip_range list \<Rightarrow> net_state \<Rightarrow> unit net_reply" where
  "advancedIpAssignment env org central nwid raw =
     (let pools = map trim_pool raw
      in changing env org nwid ('' IP assignment pools to '' @ ne_json env (no_config\<lparr>nc_pools := Some pools\<rparr>)) (\<lambda>s.
        if list_ex (\<lambda>p. \<not> pool_ok env p) pools then (Inl (TRPCError BAD_REQUEST ''Invalid IP range provided''), s)
        else case ne_network env central nwid of
            None \<Rightarrow> (Inl controller_failed, s)
          | Some nw \<Rightarrow> network_update env central nwid (wrap central (no_config\<lparr>nc_pools := Some pools,
                nc_routes := Some (uniqueRoutes (map target_of_entity (cn_routes nw) @ getNetworkClassCIDR pools))\<rparr>)) s))"

section \<open>Names and settings\<close>

definition set_network :: "string \<Rightarrow> (network_row \<Rightarrow> network_row) \<Rightarrow> net_state \<Rightarrow> net_state" where
  "set_network nwid f s = s\<lparr>nt_db := (nt_db s)\<lparr>networks := map (\<lambda>n. if n_nwid n = nwid then f n else n) (networks (nt_db s))\<rparr>\<rparr>"

definition no_meta :: net_meta where
  "no_meta = \<lparr>nm_description = None, nm_flowRule = None, nm_tagsByName = [], nm_capabilitiesByName = []\<rparr>"

definition meta_of :: "string \<Rightarrow> net_state \<Rightarrow> net_meta" where
  "meta_of nwid s = (case map_of (nt_meta s) nwid of None \<Rightarrow> no_meta | Some m \<Rightarrow> m)"

definition set_meta :: "string \<Rightarrow> (net_meta \<Rightarrow> net_meta) \<Rightarrow> net_state \<Rightarrow> net_state" where
  "set_meta nwid f s = s\<lparr>nt_meta := (nwid, f (meta_of nwid s)) # filter (\<lambda>(k, _). k \<noteq> nwid) (nt_meta s)\<rparr>"

definition privatePublicNetwork :: "net_env \<Rightarrow> string option \<Rightarrow> bool \<Rightarrow> string \<Rightarrow> bool \<Rightarrow> net_state \<Rightarrow> unit net_reply" where
  "privatePublicNetwork env org central nwid pv =
     changing env org nwid ('' privacy to '' @ bool_text pv) (network_update env central nwid (wrap central (no_config\<lparr>nc_private := Some pv\<rparr>)))"

definition networkName :: "net_env \<Rightarrow> string option \<Rightarrow> bool \<Rightarrow> string \<Rightarrow> string \<Rightarrow> net_state \<Rightarrow> unit net_reply" where
  "networkName env org central nwid name =
     changing env org nwid ('' name to '' @ name) (\<lambda>s.
       sbind (network_update env central nwid (wrap central (no_config\<lparr>nc_name := Some name\<rparr>)) s) (\<lambda>_ s1.
         (Inr (), if central then s1 else set_network nwid (\<lambda>n. n\<lparr>n_name := Some name\<rparr>) s1)))"

definition networkDescription :: "net_env \<Rightarrow> string option \<Rightarrow> bool \<Rightarrow> string \<Rightarrow> string \<Rightarrow> net_state \<Rightarrow> unit net_reply" where
  "networkDescription env org central nwid description =
     changing env org nwid ('' description to '' @ description) (\<lambda>s.
       if central then network_update env central nwid ((wrap False (no_config\<lparr>nc_description := Some description\<rparr>))) s
       else (Inr (), set_meta nwid (\<lambda>m. m\<lparr>nm_description := Some description\<rparr>) s))"

record dns_input =
  di_clearDns :: "bool option"
  di_dns :: "dns_config option"

definition dns_schema :: "net_env \<Rightarrow> dns_input \<Rightarrow> bool" where
  "dns_schema env p = (case di_dns p of None \<Rightarrow> True
     | Some d \<Rightarrow> isValidDns (dns_domain d) \<and> list_all (isValidIP (ne_valid4 env) (ne_valid6 env)) (dns_servers d) \<and> dns_domain d \<noteq> [])"

definition dns_config_of :: "dns_input \<Rightarrow> net_config" where
  "dns_config_of p =
     (if di_clearDns p = Some True then no_config\<lparr>nc_dns := Some \<lparr>dns_domain = [], dns_servers = []\<rparr>\<rparr>
      else no_config\<lparr>nc_clearDns := di_clearDns p, nc_dns := di_dns p\<rparr>)"

definition dns :: "net_env \<Rightarrow> string option \<Rightarrow> bool \<Rightarrow> string \<Rightarrow> dns_input \<Rightarrow> net_state \<Rightarrow> unit net_reply" where
  "dns env org central nwid p s =
     (if \<not> dns_schema env p then (Inl ZodError, s)
      else changing env org nwid ('' DNS to '' @ ne_json env (no_config\<lparr>nc_clearDns := di_clearDns p, nc_dns := di_dns p\<rparr>) @ '')}'')
             (network_update env central nwid (wrap central (dns_config_of p))) s)"

definition mtu :: "net_env \<Rightarrow> string option \<Rightarrow> bool \<Rightarrow> string \<Rightarrow> int \<Rightarrow> net_state \<Rightarrow> unit net_reply" where
  "mtu env org central nwid n s =
     (if n < 1280 \<or> n > 10000 then (Inl ZodError, s)
      else changing env org nwid ('' MTU to '' @ ne_json env (no_config\<lparr>nc_mtu := Some n\<rparr>))
             (network_update env central nwid (wrap central (no_config\<lparr>nc_mtu := Some n\<rparr>))) s)"

definition multiCast :: "net_env \<Rightarrow> string option \<Rightarrow> bool \<Rightarrow> string \<Rightarrow> int option \<Rightarrow> bool option \<Rightarrow> net_state \<Rightarrow> unit net_reply" where
  "multiCast env org central nwid limit broadcast =
     (let c = no_config\<lparr>nc_multicastLimit := limit, nc_enableBroadcast := broadcast\<rparr>
      in changing env org nwid ('' multicast to '' @ ne_json env c) (network_update env central nwid (wrap central c)))"

section \<open>Flow rules\<close>

definition DEFAULT_NETWORK_ROUTE_CONFIG :: string where
  "DEFAULT_NETWORK_ROUTE_CONFIG = js_join [CHR 0x0A]
     [''#'',
      ''# This is a default rule set that allows IPv4 and IPv6 traffic but otherwise'',
      ''# behaves like a standard Ethernet switch.'',
      ''#'',
      ''# Please keep in mind that ZeroTier versions prior to 1.2.0 do NOT support advanced'',
      ''# network rules.'',
      ''#'',
      ''# Since both senders and receivers enforce rules, you will get the following'',
      ''# behavior in a network with both old and new versions:'',
      ''#'',
      ''# (old: 1.1.14 and older, new: 1.2.0 and newer)'',
      ''#'',
      ''# old <--> old: No rules are honored.'',
      ''# old <--> new: Rules work but are only enforced by new side. Tags will NOT work, and'',
      ''#               capabilities will only work if assigned to the new side.'',
      ''# new <--> new: Full rules engine support including tags and capabilities.'',
      ''#'',
      ''# We recommend upgrading all your devices to 1.2.0 as soon as convenient. Version'',
      ''# 1.2.0 also includes a significantly improved software update mechanism that is'',
      ''# turned on by default on Mac and Windows. (Linux and mobile are typically kept up'',
      ''# to date using package/app management.)'',
      ''#'',
      ''#'',
      ''# Allow only IPv4, IPv4 ARP, and IPv6 Ethernet frames.'',
      ''#'',
      ''drop'',
      ''  not ethertype ipv4'',
      ''  and not ethertype arp'',
      ''  and not ethertype ipv6'',
      '';'',
      ''#'',
      ''# Uncomment to drop non-ZeroTier issued and managed IP addresses.'',
      ''#'',
      ''# This prevents IP spoofing but also blocks manual IP management at the OS level and'',
      ''# bridging unless special rules to exempt certain hosts or traffic are added before'',
      ''# this rule.'',
      ''#'',
      ''#drop'',
      ''#'' @ [CHR 0x09] @ ''not chr ipauth'',
      ''#;'',
      ''# Accept anything else. This is required since default is '' @ [CHR 0x27] @ ''drop'' @ [CHR 0x27] @ ''.'',
      ''accept;'']"

definition flow_payload :: "bool \<Rightarrow> string \<Rightarrow> compiled \<Rightarrow> net_payload" where
  "flow_payload central src out =
     (wrap central (no_config\<lparr>nc_rules := Some (cd_rules out), nc_capabilities := Some (map snd (cd_caps out)),
        nc_tags := Some (map (\<lambda>(n, t). (tg_id t, tg_default t)) (cd_tags out))\<rparr>))
       \<lparr>np_rulesSource := Some (if central then src else ''#''), np_capabilitiesByName := Some (map (\<lambda>(n, i, _). (n, i)) (cd_caps out)),
        np_tagsByName := Some (cd_tags out)\<rparr>"

definition flow_body :: "net_env \<Rightarrow> bool \<Rightarrow> string \<Rightarrow> string \<Rightarrow> net_state \<Rightarrow> unit net_reply" where
  "flow_body env central nwid src s =
     (case compile (ne_depth env) src of
        Inl e \<Rightarrow> (Inl (TRPCError BAD_REQUEST (ne_flowError env e)), s)
      | Inr out \<Rightarrow>
          sbind (network_update env central nwid (flow_payload central src out) s) (\<lambda>_ s1.
            (Inr (), if central then s1
                     else set_meta nwid (\<lambda>m. m\<lparr>nm_flowRule := Some src, nm_tagsByName := cd_tags out,
                            nm_capabilitiesByName := map (\<lambda>(n, i, _). (n, i)) (cd_caps out)\<rparr>) s1)))"

definition setFlowRule :: "net_env \<Rightarrow> string option \<Rightarrow> bool \<Rightarrow> string \<Rightarrow> string \<Rightarrow> net_state \<Rightarrow> unit net_reply" where
  "setFlowRule env org central nwid src =
     net_permitted env nwid USER (net_log env org (''Updated flow route for network '' @ nwid) (flow_body env central nwid src))"

definition getFlowRule :: "net_env \<Rightarrow> bool \<Rightarrow> bool \<Rightarrow> string \<Rightarrow> net_state \<Rightarrow> string net_reply" where
  "getFlowRule env central reset nwid =
     net_permitted env nwid READ_ONLY (\<lambda>s.
       (Inr (if central \<or> reset then DEFAULT_NETWORK_ROUTE_CONFIG else str_or (nm_flowRule (meta_of nwid s)) DEFAULT_NETWORK_ROUTE_CONFIG), s))"

section \<open>Deleting a network\<close>

text \<open>A label of the network that marks a member of another network restricts the deletion; the rows of the network
  go with it.\<close>

definition foreign_mark :: "string \<Rightarrow> net_state \<Rightarrow> bool" where
  "foreign_mark nwid s = list_ex (\<lambda>(k, nodeid). list_ex (\<lambda>no. no_id no = k \<and> no_nwid no = nwid) (nt_notations s)
     \<and> list_ex (\<lambda>m. m_nodeid m = nodeid \<and> m_nwid m \<noteq> nwid) (ms_rows (nt_members s))) (nt_marks s)"

definition drop_network :: "string \<Rightarrow> net_state \<Rightarrow> net_state" where
  "drop_network nwid s =
     (let gone = map m_nodeid (filter (\<lambda>m. m_nwid m = nwid) (ms_rows (nt_members s)))
      in s\<lparr>nt_db := (nt_db s)\<lparr>networks := filter (\<lambda>n. n_nwid n \<noteq> nwid) (networks (nt_db s))\<rparr>,
           nt_meta := filter (\<lambda>(k, _). k \<noteq> nwid) (nt_meta s),
           nt_routes := filter (\<lambda>r. row_networkId r \<noteq> nwid) (nt_routes s),
           nt_members := (nt_members s)\<lparr>ms_rows := filter (\<lambda>m. m_nwid m \<noteq> nwid) (ms_rows (nt_members s))\<rparr>,
           nt_notations := filter (\<lambda>no. no_nwid no \<noteq> nwid) (nt_notations s),
           nt_marks := filter (\<lambda>(k, nodeid). nodeid \<notin> set gone) (nt_marks s)\<rparr>)"

definition deleteMany :: "string \<Rightarrow> (network_row \<Rightarrow> bool) \<Rightarrow> net_state \<Rightarrow> unit net_reply" where
  "deleteMany nwid P s =
     (if \<not> list_ex (\<lambda>n. n_nwid n = nwid \<and> P n) (networks (nt_db s)) then (Inr (), s)
      else if foreign_mark nwid s then (Inl (PlainError ''Foreign key constraint violated''), s)
      else (Inr (), drop_network nwid s))"

fun deauthorize :: "net_env \<Rightarrow> bool \<Rightarrow> string \<Rightarrow> string list \<Rightarrow> net_state \<Rightarrow> unit net_reply" where
  "deauthorize env central nwid [] s = (Inr (), s)"
| "deauthorize env central nwid (i # is) s =
     (let p = no_params\<lparr>pm_authorized := Some False\<rparr>; s1 = net_send (MemberCall (MemberUpdate central nwid i p)) s
      in if ne_memberUpdate env central nwid i p then deauthorize env central nwid is s1 else (Inl controller_failed, s1))"

text \<open>The row the caller may delete: of the organisation the request names, of the caller, or any for the override.\<close>

definition deletable :: "net_env \<Rightarrow> string option \<Rightarrow> bool \<Rightarrow> network_row \<Rightarrow> bool" where
  "deletable env org override n \<longleftrightarrow>
     (if truthy org then n_organizationId n = org else override \<or> n_authorId n = Some (ne_user env))"

definition delete_rows :: "net_env \<Rightarrow> string option \<Rightarrow> bool \<Rightarrow> bool \<Rightarrow> string \<Rightarrow> net_state \<Rightarrow> unit net_reply" where
  "delete_rows env org central override nwid s =
     (if truthy org then (if central then (Inr (), s) else deleteMany nwid (\<lambda>n. n_organizationId n = org) s)
      else deleteMany nwid (\<lambda>n. override \<or> n_authorId n = Some (ne_user env)) s)"

definition delete_network :: "net_env \<Rightarrow> string option \<Rightarrow> bool \<Rightarrow> bool \<Rightarrow> string \<Rightarrow> net_state \<Rightarrow> unit net_reply" where
  "delete_network env org central override nwid s =
     (case find (\<lambda>n. n_nwid n = nwid \<and> deletable env org override n) (networks (nt_db s)) of
        None \<Rightarrow> (Inl (TRPCError NOT_FOUND ''Network not found!''), s)
      | Some _ \<Rightarrow>
          (case ne_members env central nwid of
             None \<Rightarrow> (Inl controller_failed, s)
           | Some ids \<Rightarrow>
               sbind (deauthorize env central nwid ids s) (\<lambda>_ s1.
               sbind (if ne_delete env central nwid then Inr () else Inl controller_failed, net_send (NetworkDelete central nwid) s1) (\<lambda>_ s2.
               sbind (delete_rows env org central override nwid s2) (\<lambda>_ s3.
               net_log env org (''Deleted network '' @ nwid) (\<lambda>s. (Inr (), s)) s3)))))"

definition deleteNetwork :: "net_env \<Rightarrow> string option \<Rightarrow> bool \<Rightarrow> bool \<Rightarrow> string \<Rightarrow> net_state \<Rightarrow> unit net_reply" where
  "deleteNetwork env org central override nwid s =
     (if override
      then (if ne_role env \<noteq> ADMIN then (Inl (TRPCError FORBIDDEN ''Only global administrators may use adminOverride''), s)
            else delete_network env org central override nwid s)
      else net_permitted env nwid USER (delete_network env org central override nwid) s)"

section \<open>Invitations and labels\<close>

definition inviteNodeByMail :: "net_env \<Rightarrow> string option \<Rightarrow> string \<Rightarrow> string \<Rightarrow> net_state \<Rightarrow> unit net_reply" where
  "inviteNodeByMail env org nwid email s =
     (if \<not> ne_validEmail env email then (Inl ZodError, s)
      else net_permitted env nwid USER (net_log env org (''Invited user '' @ email @ '' to network '' @ nwid) (\<lambda>s.
        if ne_mail env email then (Inr (), s\<lparr>nt_mails := nt_mails s @ [(email, nwid)]\<rparr>)
        else (Inl (PlainError ''Failed to send invitation email. Please try again later.''), s))) s)"

definition upsert_notation :: "string \<Rightarrow> string \<Rightarrow> string option \<Rightarrow> string option \<Rightarrow> net_state \<Rightarrow> int \<times> net_state" where
  "upsert_notation name nwid color description s =
     (case find (\<lambda>no. no_name no = name \<and> no_nwid no = nwid) (nt_notations s) of
        Some no \<Rightarrow> (no_id no, s)
      | None \<Rightarrow> (nt_nextNotation s, s\<lparr>nt_notations := nt_notations s @ [\<lparr>no_id = nt_nextNotation s, no_name = name, no_nwid = nwid,
                     no_color = color, no_description = description\<rparr>], nt_nextNotation := nt_nextNotation s + 1\<rparr>))"

text \<open>The label marks any member of the table; that the member is of the network is not checked.\<close>

definition addAnotation :: "net_env \<Rightarrow> string option \<Rightarrow> string \<Rightarrow> string \<Rightarrow> nat \<Rightarrow> string option \<Rightarrow> string option \<Rightarrow> net_state \<Rightarrow> unit net_reply" where
  "addAnotation env org nwid name nodeid color description =
     net_permitted env nwid USER (net_log env org (''Added annotation '' @ name @ '' to network '' @ nwid) (\<lambda>s.
       let (k, s1) = upsert_notation name nwid color description s
       in if (k, nodeid) \<in> set (nt_marks s1) then (Inr (), s1)
          else if list_ex (\<lambda>m. m_nodeid m = nodeid) (ms_rows (nt_members s1)) then (Inr (), s1\<lparr>nt_marks := nt_marks s1 @ [(k, nodeid)]\<rparr>)
          else (Inl (PlainError ''Foreign key constraint violated''), s1)))"

definition getAnotation :: "net_env \<Rightarrow> string \<Rightarrow> net_state \<Rightarrow> notation_row list net_reply" where
  "getAnotation env nwid = net_permitted env nwid READ_ONLY (\<lambda>s. (Inr (filter (\<lambda>no. no_nwid no = nwid) (nt_notations s)), s))"

section \<open>Member lists\<close>

record member_counts =
  mc_authorized :: nat
  mc_total :: nat
  mc_display :: string

text \<open>The query selects no \<^verbatim>\<open>permanentlyDeleted\<close> column, so that the filter sees it as absent.\<close>

definition member_counts_of :: "string \<Rightarrow> member_row list \<Rightarrow> member_counts" where
  "member_counts_of nwid rows =
     (let active = filter (\<lambda>m. m_nwid m = nwid \<and> m_deleted m \<noteq> Some True) rows;
          a = length (filter (\<lambda>m. m_authorized m = Some True) active); t = length active
      in \<lparr>mc_authorized = a, mc_total = t, mc_display = nat_str a @ '' ('' @ nat_str t @ '')''\<rparr>)"

definition getUserNetworks :: "net_env \<Rightarrow> net_state \<Rightarrow> (network_row \<times> member_counts) list" where
  "getUserNetworks env s =
     map (\<lambda>n. (n, member_counts_of (n_nwid n) (ms_rows (nt_members s)))) (filter (\<lambda>n. n_authorId n = Some (ne_user env)) (networks (nt_db s)))"

text \<open>An empty cache is filled before the answer, otherwise the reconcile is left running.\<close>

definition refresh :: "net_env \<Rightarrow> bool \<Rightarrow> string \<Rightarrow> net_state \<Rightarrow> net_state" where
  "refresh env wait nwid s =
     (if wait \<or> \<not> list_ex (\<lambda>m. m_nwid m = nwid) (ms_rows (nt_members s))
      then s\<lparr>nt_members := fst (reconcileNetworkMembers (ne_sync env) nwid False (nt_members s))\<rparr>
      else s\<lparr>nt_background := nt_background s @ [nwid]\<rparr>)"

text \<open>\<^verbatim>\<open>sortIP\<close>: \<open>None\<close> is the exception of \<^verbatim>\<open>BigInt\<close> on a text that is not hexadecimal, or on a number that is no
  integer.\<close>

definition hexToBigInt :: "string \<Rightarrow> int option" where
  "hexToBigInt h = (if h \<noteq> [] \<and> list_all is_hex h then Some (int (hexs_val 0 h)) else None)"

text \<open>One step of \<^verbatim>\<open>reduce((acc, val) => acc * 256 + val)\<close>; an infinite operand gives no integer either.\<close>

definition octet_add :: "jsnum \<Rightarrow> jsnum \<Rightarrow> jsnum" where
  "octet_add a v = (case (a, v) of (JDec m k, JDec n j) \<Rightarrow> JDec (m * 256 * 10 ^ j + n * 10 ^ k) (k + j) | _ \<Rightarrow> JNaN)"

definition BigInt :: "jsnum \<Rightarrow> int option" where
  "BigInt v = (if js_is_integer v then Some (js_trunc v) else None)"

definition sortIP :: "string \<Rightarrow> int option" where
  "sortIP ip =
     (if ip = [] then Some 0
      else if CHR '':'' \<in> set ip then hexToBigInt (concat (map (pad_start 4) (js_split CHR '':'' ip)))
      else let vs = map js_Number (js_split CHR ''.'' ip) in BigInt (foldl octet_add (hd vs) (tl vs)))"

definition ipKey :: "string list \<Rightarrow> int option" where
  "ipKey ips = (case ips of [] \<Rightarrow> Some 0 | ip # _ \<Rightarrow> sortIP (hd (js_split CHR ''/'' ip)))"

record members_query =
  mq_page :: nat
  mq_pageSize :: nat
  mq_sync :: bool
  mq_search :: "string option"
  mq_sortBy :: string
  mq_desc :: bool

definition sort_columns :: "string list" where
  "sort_columns = [''id'', ''name'', ''authorized'', ''online'', ''physicalAddress'', ''ipAssignments'', ''lastSeen'', ''lastOnlineAt'',
     ''lastOfflineAt'', ''creationTime'']"

definition query_schema :: "members_query \<Rightarrow> bool" where
  "query_schema q \<longleftrightarrow> 1 \<le> mq_pageSize q \<and> mq_pageSize q \<le> 100000 \<and> mq_sortBy q \<in> set sort_columns"

definition matches :: "net_env \<Rightarrow> string \<Rightarrow> string option \<Rightarrow> member_row \<Rightarrow> bool" where
  "matches env nwid search m \<longleftrightarrow> m_nwid m = nwid \<and> m_deleted m = Some False
     \<and> (truthy search \<longrightarrow> (let t = the search; has = (\<lambda>c. case c of None \<Rightarrow> False | Some x \<Rightarrow> ne_contains env t x)
          in ne_contains env t (m_id m) \<or> has (m_name m) \<or> has (m_physicalAddress m) \<or> t \<in> set (m_ipAssignments m)))"

definition sorted_rows :: "net_env \<Rightarrow> members_query \<Rightarrow> member_row list \<Rightarrow> exn + member_row list" where
  "sorted_rows env q rows =
     (if mq_sortBy q \<noteq> ''ipAssignments'' then Inr (ne_order env (mq_sortBy q) (mq_desc q) rows)
      else if 2 \<le> length rows \<and> list_ex (\<lambda>m. ipKey (m_ipAssignments m) = None) rows then Inl (PlainError ''SyntaxError'')
      else Inr (sort_key (\<lambda>m. let k = (case ipKey (m_ipAssignments m) of None \<Rightarrow> 0 | Some n \<Rightarrow> n) in if mq_desc q then - k else k) rows))"

definition page_of :: "members_query \<Rightarrow> 'a list \<Rightarrow> 'a list" where
  "page_of q xs = take (mq_pageSize q) (drop (mq_page q * mq_pageSize q) xs)"

definition trimmed_search :: "members_query \<Rightarrow> string option" where
  "trimmed_search q = map_option js_trim (mq_search q)"

text \<open>The rows of a page; in the order of addresses they are read again by their ids.\<close>

definition member_page :: "net_env \<Rightarrow> string \<Rightarrow> members_query \<Rightarrow> member_row list \<Rightarrow> exn + member_row list" where
  "member_page env nwid q rows =
     rbind (sorted_rows env q (filter (matches env nwid (trimmed_search q)) rows)) (\<lambda>xs.
       let page = page_of q xs
       in Inr (if mq_sortBy q = ''ipAssignments'' then List.map_filter (\<lambda>m. row_at nwid (m_id m) rows) page else page))"

record members_answer =
  ma_members :: "member_view list"
  ma_total :: nat
  ma_authorized :: nat

definition getNetworkMembers :: "net_env \<Rightarrow> string \<Rightarrow> members_query \<Rightarrow> net_state \<Rightarrow> members_answer net_reply" where
  "getNetworkMembers env nwid q s =
     (if \<not> query_schema q then (Inl ZodError, s)
      else net_permitted env nwid READ_ONLY (\<lambda>s.
        let s1 = refresh env (mq_sync q) nwid s; rows = ms_rows (nt_members s1)
        in (rbind (member_page env nwid q rows) (\<lambda>page.
              Inr \<lparr>ma_members = attachLiveStatus (ne_sync env) page,
                   ma_total = length (filter (matches env nwid (trimmed_search q)) rows),
                   ma_authorized = length (filter (\<lambda>m. m_nwid m = nwid \<and> m_deleted m = Some False \<and> m_authorized m = Some True) rows)\<rparr>), s1)) s)"

section \<open>One network\<close>

definition pipe_key :: "string \<Rightarrow> string option \<Rightarrow> string" where
  "pipe_key target via = target @ ''|'' @ str_or via ''null''"

definition routes_db_of :: "net_state \<Rightarrow> routes_db" where
  "routes_db_of s = \<lparr>routes_tab = nt_routes s, network_ids = map n_nwid (networks (nt_db s))\<rparr>"

definition needs_route_sync :: "route_row list \<Rightarrow> routes_entity list \<Rightarrow> bool" where
  "needs_route_sync rows zt =
     (let dbKeys = js_set (map (\<lambda>r. pipe_key (row_target r) (row_via r)) rows); ztKeys = js_set (map (\<lambda>r. pipe_key (re_target r) (re_via r)) zt)
      in length dbKeys \<noteq> length ztKeys \<or> \<not> list_all (\<lambda>k. k \<in> set ztKeys) dbKeys \<or> length rows \<noteq> length dbKeys)"

definition sync_routes :: "net_env \<Rightarrow> string \<Rightarrow> routes_entity list \<Rightarrow> net_state \<Rightarrow> route_row list \<times> net_state" where
  "sync_routes env nwid zt s =
     (let rows = filter (\<lambda>r. row_networkId r = nwid) (nt_routes s)
      in if \<not> needs_route_sync rows zt then (rows, s)
         else let (ret, db) = syncNetworkRoutes (ne_gen env) nwid (Some (map entity_of_row rows)) zt (routes_db_of s)
              in (case ret of Reread (Some rs) \<Rightarrow> rs | _ \<Rightarrow> rows, s\<lparr>nt_routes := routes_tab db\<rparr>))"

text \<open>Other personal networks of the caller with a route to one of the targets.\<close>

definition duplicate_routes :: "net_env \<Rightarrow> string \<Rightarrow> string list \<Rightarrow> net_state \<Rightarrow> (network_row \<times> route_row list) list" where
  "duplicate_routes env nwid targets s =
     filter (\<lambda>(n, rs). rs \<noteq> []) (map (\<lambda>n. (n, filter (\<lambda>r. row_networkId r = n_nwid n \<and> row_target r \<in> set targets) (nt_routes s)))
       (filter (\<lambda>n. n_authorId n = Some (ne_user env) \<and> n_organizationId n = None \<and> n_nwid n \<noteq> nwid) (networks (nt_db s))))"

record network_answer =
  na_routes :: "route_row list"
  na_cidr :: "string list"
  na_duplicates :: "(network_row \<times> route_row list \<times> string list) list"
  na_memberCount :: nat
  na_authorizedCount :: nat
  na_zombies :: "member_row list"

definition network_answer_of :: "net_env \<Rightarrow> string \<Rightarrow> bool \<Rightarrow> routes_entity list \<Rightarrow> route_row list \<Rightarrow> net_state \<Rightarrow> network_answer" where
  "network_answer_of env nwid orgMember zt routes s =
     (let targets = map re_target zt; rows = ms_rows (nt_members s);
          dups = (if targets \<noteq> [] \<and> \<not> orgMember then duplicate_routes env nwid targets s else []);
          ips = js_set (concat (map (\<lambda>(n, rs). map row_target rs) dups))
      in \<lparr>na_routes = routes, na_cidr = cidrOptions, na_duplicates = map (\<lambda>(n, rs). (n, rs, ips)) dups,
          na_memberCount = length (filter (\<lambda>m. m_nwid m = nwid \<and> m_deleted m = Some False) rows),
          na_authorizedCount = length (filter (\<lambda>m. m_nwid m = nwid \<and> m_deleted m = Some False \<and> m_authorized m = Some True) rows),
          na_zombies = filter (\<lambda>m. m_nwid m = nwid \<and> m_deleted m = Some True \<and> m_permanentlyDeleted m = Some False) rows\<rparr>)"

definition getNetworkById :: "net_env \<Rightarrow> string \<Rightarrow> net_state \<Rightarrow> network_answer net_reply" where
  "getNetworkById env nwid s =
     (case find_network nwid (nt_db s) of
        None \<Rightarrow> (Inl (TRPCError BAD_REQUEST ''Network not found!''), s)
      | Some n \<Rightarrow>
          let orgMember = (truthy (n_organizationId n) \<and> ne_user env \<in> set (ne_orgUsers env (the (n_organizationId n))))
          in if n_authorId n \<noteq> Some (ne_user env) \<and> \<not> orgMember
             then (Inl (TRPCError BAD_REQUEST ''You do not have access to this network!''), s)
             else (case ne_network env False nwid of
                     None \<Rightarrow> (Inl controller_failed, s)
                   | Some nw \<Rightarrow>
                       let s1 = refresh env False nwid s; (routes, s2) = sync_routes env nwid (cn_routes nw) s1
                       in (Inr (network_answer_of env nwid orgMember (cn_routes nw) routes s2), s2)))"


section \<open>Requests\<close>

datatype network_request =
    QIpv6 "string option" bool string v6_mode
  | QIpv4 "string option" bool string bool
  | QRoutes "string option" bool string routes_input
  | QEasy "string option" bool string "route_input list option"
  | QAdvanced "string option" bool string "ip_range list"
  | QPrivate "string option" bool string bool
  | QName "string option" bool string string
  | QDescription "string option" bool string string
  | QDns "string option" bool string dns_input
  | QMtu "string option" bool string int
  | QMultiCast "string option" bool string "int option" "bool option"
  | QFlow "string option" bool string string
  | QInvite "string option" string string
  | QLabel "string option" string string nat "string option" "string option"
  | QDelete "string option" bool bool string

fun serve :: "net_env \<Rightarrow> network_request \<Rightarrow> net_state \<Rightarrow> unit net_reply" where
  "serve env (QIpv6 org central nwid mode) = ipv6 env org central nwid mode"
| "serve env (QIpv4 org central nwid zt) = enableIpv4AutoAssign env org central nwid zt"
| "serve env (QRoutes org central nwid p) = managedRoutes env org central nwid p"
| "serve env (QEasy org central nwid routes) = easyIpAssignment env org central nwid routes"
| "serve env (QAdvanced org central nwid pools) = advancedIpAssignment env org central nwid pools"
| "serve env (QPrivate org central nwid pv) = privatePublicNetwork env org central nwid pv"
| "serve env (QName org central nwid name) = networkName env org central nwid name"
| "serve env (QDescription org central nwid d) = networkDescription env org central nwid d"
| "serve env (QDns org central nwid p) = dns env org central nwid p"
| "serve env (QMtu org central nwid n) = mtu env org central nwid n"
| "serve env (QMultiCast org central nwid limit b) = multiCast env org central nwid limit b"
| "serve env (QFlow org central nwid src) = setFlowRule env org central nwid src"
| "serve env (QInvite org nwid email) = inviteNodeByMail env org nwid email"
| "serve env (QLabel org nwid name nodeid color d) = addAnotation env org nwid name nodeid color d"
| "serve env (QDelete org central override nwid) = deleteNetwork env org central override nwid"

fun request_network :: "network_request \<Rightarrow> string" where
  "request_network (QIpv6 org central nwid mode) = nwid"
| "request_network (QIpv4 org central nwid zt) = nwid"
| "request_network (QRoutes org central nwid p) = nwid"
| "request_network (QEasy org central nwid routes) = nwid"
| "request_network (QAdvanced org central nwid pools) = nwid"
| "request_network (QPrivate org central nwid pv) = nwid"
| "request_network (QName org central nwid name) = nwid"
| "request_network (QDescription org central nwid d) = nwid"
| "request_network (QDns org central nwid p) = nwid"
| "request_network (QMtu org central nwid n) = nwid"
| "request_network (QMultiCast org central nwid limit b) = nwid"
| "request_network (QFlow org central nwid src) = nwid"
| "request_network (QInvite org nwid email) = nwid"
| "request_network (QLabel org nwid name nodeid color d) = nwid"
| "request_network (QDelete org central override nwid) = nwid"

fun overriding :: "network_request \<Rightarrow> bool" where
  "overriding (QDelete org central override nwid) = override"
| "overriding _ = False"

definition run_network :: "net_env \<Rightarrow> network_request \<Rightarrow> net_state \<Rightarrow> net_state" where
  "run_network env rq s = snd (serve env rq s)"

definition network_access :: "net_env \<Rightarrow> db \<Rightarrow> string \<Rightarrow> bool" where
  "network_access env d nwid \<longleftrightarrow> is_ok (checkNetworkAccess d (ne_user env) nwid USER)"

definition may_change :: "net_env \<Rightarrow> db \<Rightarrow> network_request \<Rightarrow> string \<Rightarrow> bool" where
  "may_change env d rq n \<longleftrightarrow> n = request_network rq \<and> (if overriding rq then ne_role env = ADMIN else network_access env d n)"

text \<open>What a network sees: its row and columns, its routes with their notes, its members, and the requests the
  controller gets for it.\<close>

definition net_view :: "string \<Rightarrow> net_state \<Rightarrow> network_row list \<times> net_meta \<times> route_row list \<times> member_row list \<times> net_call list" where
  "net_view n s = (filter (\<lambda>x. n_nwid x = n) (networks (nt_db s)), meta_of n s,
     filter (\<lambda>r. row_networkId r = n) (nt_routes s),
     filter (\<lambda>m. m_nwid m = n) (ms_rows (nt_members s)), filter (\<lambda>c. net_call_network c = n) (nt_calls s))"

text \<open>The same without the notes, and the requests that set the note of a route.\<close>

definition bare_view :: "string \<Rightarrow> net_state \<Rightarrow> network_row list \<times> net_meta \<times> route_row list \<times> member_row list \<times> net_call list" where
  "bare_view n s = (case net_view n s of (rows, meta, routes, members, calls) \<Rightarrow>
     (rows, meta, map (\<lambda>r. r\<lparr>row_notes := None\<rparr>) routes, members, calls))"

fun sets_note :: "network_request \<Rightarrow> bool" where
  "sets_note (QRoutes org central nwid p) = (rs_note p \<noteq> None)"
| "sets_note _ = False"

definition may_annotate :: "net_env \<Rightarrow> db \<Rightarrow> network_request \<Rightarrow> bool" where
  "may_annotate env d rq \<longleftrightarrow> sets_note rq \<and> network_access env d (request_network rq)"

text \<open>No network is added and none changes its owner or organisation.\<close>

definition owner_of :: "string \<Rightarrow> db \<Rightarrow> (string option \<times> string option) option" where
  "owner_of nwid d = map_option (\<lambda>n. (n_authorId n, n_organizationId n)) (find_network nwid d)"

definition within :: "db \<Rightarrow> net_state \<Rightarrow> bool" where
  "within d s \<longleftrightarrow> org_roles (nt_db s) = org_roles d \<and> (\<forall>nwid. owner_of nwid (nt_db s) = None \<or> owner_of nwid (nt_db s) = owner_of nwid d)"

definition outside :: "string \<Rightarrow> net_state \<Rightarrow> net_state \<Rightarrow> bool" where
  "outside nwid s t \<longleftrightarrow> (\<forall>n. n \<noteq> nwid \<longrightarrow> net_view n t = net_view n s) \<and> (\<forall>d. within d s \<longrightarrow> within d t)"

section \<open>Changes stay in their network\<close>

lemma outside_refl [simp]: "outside nwid s s"
  by (simp add: outside_def)

lemma outside_trans: "outside nwid s t \<Longrightarrow> outside nwid t u \<Longrightarrow> outside nwid s u"
  by (simp add: outside_def)

lemma outside_same:
  assumes "nt_db t = nt_db s" "nt_meta t = nt_meta s" "nt_routes t = nt_routes s" "ms_rows (nt_members t) = ms_rows (nt_members s)" "nt_calls t = nt_calls s"
  shows "outside nwid s t"
  using assms by (simp add: outside_def net_view_def within_def meta_of_def)

lemma outside_send [simp]: "net_call_network c = nwid \<Longrightarrow> outside nwid s (net_send c s)"
  by (simp add: outside_def net_view_def within_def meta_of_def net_send_def)

lemma outside_update [simp]: "outside nwid s (snd (network_update env central nwid p s))"
  by (simp add: network_update_def)

lemma outside_sbind: "outside nwid s (snd m) \<Longrightarrow> (\<And>x t. m = (Inr x, t) \<Longrightarrow> outside nwid t (snd (f x t))) \<Longrightarrow> outside nwid s (snd (sbind m f))"
  by (cases m; cases "fst m") (auto intro: outside_trans)

lemma outside_log: "(\<And>t. outside nwid t (snd (f t))) \<Longrightarrow> outside nwid s (snd (net_log env org a f s))"
proof -
  assume f: "\<And>t. outside nwid t (snd (f t))"
  have "outside nwid s (snd (f (s\<lparr>nt_log := l\<rparr>)))" for l by (rule outside_trans[OF outside_same f]) simp_all
  then show ?thesis by (simp add: net_log_def)
qed

lemma net_permitted_snd: "snd (net_permitted env nwid USER f s) = (if network_access env (nt_db s) nwid then snd (f s) else s)"
  by (simp add: net_permitted_def network_access_def is_ok_iff split: sum.split)

lemma outside_changing: "(\<And>t. outside nwid t (snd (f t))) \<Longrightarrow> outside nwid s (snd (changing env org nwid what f s))"
  by (simp add: changing_def net_permitted_snd outside_log)

lemma filter_other_network: "n \<noteq> nwid \<Longrightarrow> filter (\<lambda>x. n_nwid x = n) (map (\<lambda>x. if n_nwid x = nwid then x\<lparr>n_name := v\<rparr> else x) xs) = filter (\<lambda>x. n_nwid x = n) xs"
  by (induction xs) auto

lemma find_renamed: "map_option (\<lambda>n. (n_authorId n, n_organizationId n)) (find (\<lambda>n. n_nwid n = k) (map (\<lambda>x. if n_nwid x = nwid then x\<lparr>n_name := v\<rparr> else x) xs))
    = map_option (\<lambda>n. (n_authorId n, n_organizationId n)) (find (\<lambda>n. n_nwid n = k) xs)"
  by (induction xs) auto

lemma outside_rename: "outside nwid s (set_network nwid (\<lambda>n. n\<lparr>n_name := v\<rparr>) s)"
  by (simp add: outside_def net_view_def within_def meta_of_def set_network_def filter_other_network owner_of_def find_network_def find_renamed)

lemma map_of_filter_key: "map_of (filter (\<lambda>(k, _). k \<noteq> a) xs) b = (if b = a then None else map_of xs b)"
  by (induction xs) auto

lemma outside_meta: "outside nwid s (set_meta nwid f s)"
  by (simp add: outside_def net_view_def within_def meta_of_def set_meta_def map_of_filter_key)

definition note_only :: "net_state \<Rightarrow> net_state \<Rightarrow> bool" where
  "note_only s t \<longleftrightarrow> (\<forall>n. bare_view n t = bare_view n s) \<and> (\<forall>d. within d s \<longrightarrow> within d t)"

lemma write_note_only: "note_only s (snd (write_note p s))"
proof -
  have "map (\<lambda>r. r\<lparr>row_notes := None\<rparr>) (filter (\<lambda>r. row_networkId r = n) (map (\<lambda>r. if P r then r\<lparr>row_notes := v\<rparr> else r) rs))
      = map (\<lambda>r. r\<lparr>row_notes := None\<rparr>) (filter (\<lambda>r. row_networkId r = n) rs)" for n P v and rs :: "route_row list"
    by (induction rs) auto
  then show ?thesis by (simp add: note_only_def bare_view_def net_view_def within_def meta_of_def write_note_def split: option.split)
qed

lemma write_no_note: "rs_note p = None \<Longrightarrow> snd (write_note p s) = s"
  by (simp add: write_note_def)

lemma find_dropped: "find (\<lambda>n. n_nwid n = k) (filter (\<lambda>n. n_nwid n \<noteq> nwid) xs) = (if k = nwid then None else find (\<lambda>n. n_nwid n = k) xs)"
  by (induction xs) auto

lemma outside_drop: "outside nwid s (drop_network nwid s)"
proof -
  have f: "filter (\<lambda>x. g x = n) (filter (\<lambda>x. g x \<noteq> nwid) xs) = filter (\<lambda>x. g x = n) xs" if "n \<noteq> nwid" for n and g :: "'b \<Rightarrow> string" and xs
    using that by (auto intro: filter_cong)
  show ?thesis
    by (simp add: outside_def net_view_def within_def meta_of_def drop_network_def Let_def f map_of_filter_key owner_of_def find_network_def find_dropped del: filter_filter)
qed

lemma outside_deauthorize: "outside nwid s (snd (deauthorize env central nwid ids s))"
proof (induction ids arbitrary: s)
  case (Cons i ids)
  have "outside nwid s (snd (deauthorize env central nwid ids (net_send (MemberCall (MemberUpdate central nwid i p)) s)))" for p
    by (rule outside_trans[OF _ Cons]) simp
  then show ?case by (simp add: Let_def)
qed simp

lemma outside_delete: "outside nwid s (snd (delete_network env org central override nwid s))"
proof -
  have d: "outside nwid t (snd (delete_rows env org central override nwid t))" for t
    by (simp add: delete_rows_def deleteMany_def outside_drop)
  have n: "outside nwid t (snd (delete_rows env org central override nwid (net_send (NetworkDelete central nwid) t)))" for t
    by (rule outside_trans[OF _ d]) simp
  show ?thesis unfolding delete_network_def
    by (auto intro!: outside_sbind outside_deauthorize outside_log n split: option.split)
qed

lemma outside_label: "outside nwid s (snd (addAnotation env org nwid name nodeid color d s))"
  unfolding addAnotation_def net_permitted_snd
  by (auto simp: upsert_notation_def Let_def intro!: outside_log outside_same split: option.split)

definition bare_outside :: "string \<Rightarrow> net_state \<Rightarrow> net_state \<Rightarrow> bool" where
  "bare_outside nwid s t \<longleftrightarrow> (\<forall>n. n \<noteq> nwid \<longrightarrow> bare_view n t = bare_view n s) \<and> (\<forall>d. within d s \<longrightarrow> within d t)"

lemma bare_outsideI: "outside nwid s t \<Longrightarrow> bare_outside nwid s t" "note_only s t \<Longrightarrow> bare_outside nwid s t"
  by (simp_all add: outside_def bare_outside_def note_only_def bare_view_def)

lemma bare_trans: "bare_outside nwid s t \<Longrightarrow> bare_outside nwid t u \<Longrightarrow> bare_outside nwid s u"
  by (simp add: bare_outside_def)

lemma bare_sbind:
  "bare_outside nwid s (snd m) \<Longrightarrow> (\<And>x t. m = (Inr x, t) \<Longrightarrow> bare_outside nwid t (snd (f x t))) \<Longrightarrow> bare_outside nwid s (snd (sbind m f))"
  by (cases m; cases "fst m") (auto intro: bare_trans)

lemma bare_changing:
  assumes "\<And>t. bare_outside nwid t (snd (f t))"
  shows "bare_outside nwid s (snd (changing env org nwid what f s))"
proof -
  have "bare_outside nwid s (snd (f (s\<lparr>nt_log := l\<rparr>)))" for l
    by (rule bare_trans[OF bare_outsideI(1)[OF outside_same] assms]) simp_all
  then show ?thesis using bare_outsideI(1)[OF outside_refl] by (simp add: changing_def net_permitted_snd net_log_def)
qed

lemma serve_outside: "\<not> sets_note rq \<Longrightarrow> outside (request_network rq) s (run_network env rq s)"
  unfolding run_network_def
proof (cases rq)
  case (QRoutes org central nwid p)
  moreover assume "\<not> sets_note rq"
  ultimately show "outside (request_network rq) s (snd (serve env rq s))"
    by (auto simp: managedRoutes_def write_no_note intro!: outside_changing outside_sbind)
next
  case (QFlow org central nwid src)
  then show "outside (request_network rq) s (snd (serve env rq s))"
    by (auto simp: setFlowRule_def flow_body_def net_permitted_snd intro!: outside_log outside_sbind outside_meta split: sum.split)
next
  case (QInvite org nwid email)
  then show "outside (request_network rq) s (snd (serve env rq s))"
    by (auto simp: inviteNodeByMail_def net_permitted_snd intro!: outside_log outside_same)
next
  case (QDelete org central override nwid)
  then show "outside (request_network rq) s (snd (serve env rq s))"
    by (simp add: deleteNetwork_def net_permitted_snd outside_delete)
next
  case (QEasy org central nwid routes)
  then show "outside (request_network rq) s (snd (serve env rq s))"
    by (auto simp: easyIpAssignment_def Let_def intro!: outside_changing split: option.split list.split)
qed (auto simp: ipv6_def enableIpv4AutoAssign_def advancedIpAssignment_def privatePublicNetwork_def networkName_def networkDescription_def dns_def
    mtu_def multiCast_def Let_def outside_label intro!: outside_changing outside_sbind outside_rename outside_meta split: option.split)

lemma serve_bare: "bare_outside (request_network rq) s (run_network env rq s)"
proof (cases "sets_note rq")
  case True
  then obtain org central nwid p where rq: "rq = QRoutes org central nwid p" by (cases rq) auto
  have "bare_outside nwid t (snd (sbind (write_note p t) (\<lambda>_ s1.
          if bad_via env p then (Inl (TRPCError BAD_REQUEST ''Via must be a valid IP address or empty for LAN''), s1)
          else network_update env central nwid (wrap central (no_config\<lparr>nc_routes := new_routes nwid p (nt_routes s1)\<rparr>)) s1)))" for t
    by (rule bare_sbind[OF bare_outsideI(2)[OF write_note_only]]) (simp add: bare_outsideI(1))
  then show ?thesis unfolding rq run_network_def
    by (auto simp: managedRoutes_def bare_outsideI(1) intro!: bare_changing)
qed (simp add: bare_outsideI(1) serve_outside)

lemma unpermitted:
  assumes "\<not> (if overriding rq then ne_role env = ADMIN else network_access env (nt_db s) (request_network rq))"
  shows "run_network env rq s = s"
  using assms unfolding run_network_def
  by (cases rq) (auto simp: ipv6_def enableIpv4AutoAssign_def managedRoutes_def easyIpAssignment_def advancedIpAssignment_def privatePublicNetwork_def
      networkName_def networkDescription_def dns_def mtu_def multiCast_def setFlowRule_def inviteNodeByMail_def addAnotation_def deleteNetwork_def
      changing_def net_permitted_snd Let_def)

lemma access_within: "within d s \<Longrightarrow> network_access env (nt_db s) nwid \<Longrightarrow> network_access env d nwid"
proof -
  assume w: "within d s" and a: "network_access env (nt_db s) nwid"
  then obtain n where n: "find_network nwid (nt_db s) = Some n"
    by (cases "find_network nwid (nt_db s)") (auto simp: network_access_def checkNetworkAccess_def)
  then have "owner_of nwid (nt_db s) = Some (n_authorId n, n_organizationId n)" by (simp add: owner_of_def)
  with w have "owner_of nwid d = Some (n_authorId n, n_organizationId n)" unfolding within_def by (metis option.distinct(1))
  then obtain m where "find_network nwid d = Some m" "n_authorId m = n_authorId n" "n_organizationId m = n_organizationId n"
    by (auto simp: owner_of_def)
  moreover have "checkUserOrganizationRole (nt_db s) u org r = checkUserOrganizationRole d u org r" for u org r
    using w by (simp add: checkUserOrganizationRole_def find_org_role_def within_def)
  ultimately show ?thesis using n a by (simp add: network_access_def checkNetworkAccess_def split: if_split_asm)
qed

lemma request_scope:
  assumes w: "within d s" and no: "\<not> may_change env d rq n"
  shows "bare_view n (run_network env rq s) = bare_view n s"
    and "\<not> may_annotate env d rq \<Longrightarrow> net_view n (run_network env rq s) = net_view n s"
proof -
  have own: "run_network env rq s = s" if "n = request_network rq"
    using that no access_within[OF w] by (intro unpermitted) (auto simp: may_change_def split: if_split_asm)
  then show "bare_view n (run_network env rq s) = bare_view n s"
    using serve_bare[of rq s env] by (cases "n = request_network rq") (simp_all add: bare_outside_def)
  assume a: "\<not> may_annotate env d rq"
  show "net_view n (run_network env rq s) = net_view n s"
  proof (cases "sets_note rq")
    case True
    then have "\<not> network_access env d (request_network rq)" "\<not> overriding rq" using a by (cases rq; simp add: may_annotate_def)+
    then have "run_network env rq s = s" using access_within[OF w] by (intro unpermitted) auto
    then show ?thesis by simp
  next
    case False
    then show ?thesis using own serve_outside[OF False, of s env] by (cases "n = request_network rq") (simp_all add: outside_def)
  qed
qed

text \<open>Each request of a sequence comes with its caller and with the answers it gets.\<close>

interpretation network_scope: guarded_requests "\<lambda>(env, rq). run_network env rq" bare_view "\<lambda>(env, rq). may_change env d rq" "within d" for d
proof (unfold_locales, goal_cases)
  case (1 s rq)
  then show ?case using serve_bare[of "snd rq" s "fst rq"] by (simp add: bare_outside_def case_prod_beta)
next
  case (2 s rq n)
  then show ?case using request_scope(1) by (simp add: case_prod_beta)
qed

interpretation note_scope: guarded_requests "\<lambda>(env, rq). run_network env rq" net_view
    "\<lambda>(env, rq) n. may_change env d rq n \<or> may_annotate env d rq" "within d" for d
proof (unfold_locales, goal_cases)
  case (1 s rq)
  then show ?case using serve_bare[of "snd rq" s "fst rq"] by (simp add: bare_outside_def case_prod_beta)
next
  case (2 s rq n)
  then show ?case using request_scope(2) by (simp add: case_prod_beta)
qed

text \<open>C27. Network procedures stay in their network: a sequence of requests, each with a caller of its own, changes the row,
  the columns, the routes apart from their notes or the members of a network, or what the controller is asked about
  it, only if one of them names this network and its caller had the access to change it at the start, or is an
  administrator overriding for a deletion. The notes of routes change only by such a request, or by one that sets a note and
  names a network its caller could change: that one reaches the routes of any network (see
  \<^verbatim>\<open>route_note_reaches_other_networks\<close>).\<close>

theorem networks_stay_scoped:
  assumes "net_view n (fold (\<lambda>(env, rq). run_network env rq) rqs s) \<noteq> net_view n s"
  shows "(\<exists>(env, rq)\<in>set rqs. request_network rq = n \<and> (if overriding rq then ne_role env = ADMIN else network_access env (nt_db s) n))
    \<or> bare_view n (fold (\<lambda>(env, rq). run_network env rq) rqs s) = bare_view n s
      \<and> (\<exists>(env, rq)\<in>set rqs. sets_note rq \<and> network_access env (nt_db s) (request_network rq))"
proof -
  have w: "within (nt_db s) s" by (simp add: within_def)
  show ?thesis
  proof (cases "bare_view n (fold (\<lambda>(env, rq). run_network env rq) rqs s) = bare_view n s")
    case True
    have "\<exists>(env, rq)\<in>set rqs. may_change env (nt_db s) rq n \<or> may_annotate env (nt_db s) rq"
      using note_scope.change_needs_permission[OF w assms] by (auto split: prod.split_asm)
    then show ?thesis using True by (auto simp: may_change_def may_annotate_def)
  next
    case False
    then have "\<exists>(env, rq)\<in>set rqs. may_change env (nt_db s) rq n"
      using network_scope.change_needs_permission[OF w] by (fastforce split: prod.split_asm)
    then show ?thesis by (auto simp: may_change_def)
  qed
qed

definition demo_netenv :: net_env where
  "demo_netenv = \<lparr>ne_user = ''u1'', ne_role = USER, ne_orgs = [], ne_orgUsers = (\<lambda>_. []), ne_sync = demo_sync, ne_valid4 = (\<lambda>_. True),
     ne_valid6 = (\<lambda>_. False), ne_json = (\<lambda>_. []), ne_flowError = (\<lambda>_. []), ne_depth = 9, ne_network = (\<lambda>_ _. Some \<lparr>cn_v6 = None, cn_routes = []\<rparr>),
     ne_members = (\<lambda>_ _. Some [''1234567890'']), ne_update = (\<lambda>_ _ _. True), ne_delete = (\<lambda>_ _. True), ne_memberUpdate = (\<lambda>_ _ _ _. True),
     ne_validEmail = (\<lambda>_. True), ne_mail = (\<lambda>_. True), ne_gen = fresh_id, ne_contains = (\<lambda>_ _. True), ne_order = (\<lambda>_ _ rows. rows)\<rparr>"

definition demo_netstate :: net_state where
  "demo_netstate = \<lparr>nt_db = sync_db, nt_meta = [], nt_routes = [], nt_members = demo_state, nt_notations = [], nt_nextNotation = 1, nt_marks = [],
     nt_calls = [], nt_log = [], nt_mails = [], nt_background = []\<rparr>"

abbreviation "demo_nwid \<equiv> ''abcdef0123000001''"

theorem networks_stay_scoped_witness: "network_access demo_netenv (nt_db demo_netstate) demo_nwid"
proof -
  let ?rq = "QPrivate None False demo_nwid True"
  have "net_view demo_nwid (fold (\<lambda>(env, rq). run_network env rq) [(demo_netenv, ?rq)] demo_netstate) \<noteq> net_view demo_nwid demo_netstate" by code_simp
  from networks_stay_scoped[OF this] show ?thesis by simp
qed

section \<open>Flow rules\<close>

lemma set_meta_same [simp]: "meta_of nwid (set_meta nwid f s) = f (meta_of nwid s)" "nt_db (set_meta nwid f s) = nt_db s" "nt_calls (set_meta nwid f s) = nt_calls s"
  by (simp_all add: meta_of_def set_meta_def)

lemma logged_result:
  assumes "net_permitted env nwid USER (net_log env org a f) s = (Inr x, s')"
  shows "network_access env (nt_db s) nwid
    \<and> (\<exists>l. f (s\<lparr>nt_log := l\<rparr>) = (Inr x, s'))"
  using assms by (auto simp: net_permitted_def net_log_def network_access_def split: sum.split_asm if_split_asm)

lemma read_access: "is_ok (checkNetworkAccess d u nwid USER) \<Longrightarrow> is_ok (checkNetworkAccess d u nwid READ_ONLY)"
  by (auto simp: checkNetworkAccess_def checkUserOrganizationRole_def split: option.split_asm if_split_asm)

lemma setFlowRule_done:
  assumes "setFlowRule env org False nwid src s = (Inr u, s')"
  shows "\<exists>out. compile (ne_depth env) src = Inr out \<and> nt_calls s' = nt_calls s @ [NetworkUpdate False nwid (flow_payload False src out)]
    \<and> nm_flowRule (meta_of nwid s') = Some src \<and> nt_db s' = nt_db s \<and> network_access env (nt_db s) nwid"
proof -
  obtain l where l: "network_access env (nt_db s) nwid" "flow_body env False nwid src (s\<lparr>nt_log := l\<rparr>) = (Inr u, s')"
    using logged_result[OF assms[unfolded setFlowRule_def]] by blast
  then show ?thesis by (auto simp: flow_body_def network_update_def net_send_def split: sum.split_asm if_split_asm)
qed

text \<open>C35. Flow rules round trip on the own controller: after rules were accepted for a network, its readers get the text that
  was stored (an empty text reads as the default rules, because it is falsy), and the last request to the controller carries
  what the text compiles to, which is well formed in the sense of the compiler's own checks.\<close>

theorem flow_rules_round_trip:
  assumes "setFlowRule env org False nwid src s = (Inr u, s')"
  shows "getFlowRule env False False nwid s' = (Inr (if src = [] then DEFAULT_NETWORK_ROUTE_CONFIG else src), s')
    \<and> (\<exists>out. compile (ne_depth env) src = Inr out \<and> output_ok out \<and> last (nt_calls s') = NetworkUpdate False nwid (flow_payload False src out))"
proof -
  obtain out where o: "compile (ne_depth env) src = Inr out" "nt_calls s' = nt_calls s @ [NetworkUpdate False nwid (flow_payload False src out)]"
    "nm_flowRule (meta_of nwid s') = Some src" "nt_db s' = nt_db s" "network_access env (nt_db s) nwid"
    using setFlowRule_done[OF assms(1)] by blast
  have "is_ok (checkNetworkAccess (nt_db s') (ne_user env) nwid READ_ONLY)" using o(4,5) read_access by (simp add: network_access_def)
  with o compile_ok[OF o(1)] show ?thesis by (cases src) (auto simp: getFlowRule_def net_permitted_def is_ok_iff)
qed

abbreviation "default_rules \<equiv> [Match ''MATCH_ETHERTYPE'' True False (Numeric ''etherType'' 0x0800),
    Match ''MATCH_ETHERTYPE'' True False (Numeric ''etherType'' 0x0806), Match ''MATCH_ETHERTYPE'' True False (Numeric ''etherType'' 0x86dd),
    Action ''ACTION_DROP'', Action ''ACTION_ACCEPT'']"

lemma default_rules_compile:
  "compile 9 DEFAULT_NETWORK_ROUTE_CONFIG = Inr \<lparr>cd_rules = default_rules, cd_caps = [], cd_tags = []\<rparr>"
  by code_simp

lemma default_collected:
  "case collect (parse DEFAULT_NETWORK_ROUTE_CONFIG) start_collected of Inl _ \<Rightarrow> False | Inr cl \<Rightarrow> cl_macros cl = []"
  by code_simp

lemma default_rules_any_depth: "compile depth DEFAULT_NETWORK_ROUTE_CONFIG = compile 9 DEFAULT_NETWORK_ROUTE_CONFIG"
proof -
  obtain cl where cl: "collect (parse DEFAULT_NETWORK_ROUTE_CONFIG) start_collected = Inr cl" "cl_macros cl = []"
    using default_collected by (auto split: sum.split_asm)
  have d: "compile d DEFAULT_NETWORK_ROUTE_CONFIG = compile 0 DEFAULT_NETWORK_ROUTE_CONFIG" for d
    by (rule compile_depth[OF cl(1), of "\<lambda>_. 0"]) (simp_all add: cl(2) ranked_def)
  show ?thesis using d[of depth] d[of 9] by simp
qed

text \<open>A network without rules of its own shows the default rules, and they can be saved as they are: the
  controller gets the rules that drop every frame that is neither IPv4, ARP nor IPv6 and accept the rest.\<close>

theorem default_rules_are_accepted:
  assumes "network_access env (nt_db s) nwid" "\<not> truthy (nm_flowRule (meta_of nwid s))" "\<And>p. ne_update env False nwid p"
  shows "getFlowRule env False False nwid s = (Inr DEFAULT_NETWORK_ROUTE_CONFIG, s)
    \<and> (\<exists>s' p. setFlowRule env None False nwid DEFAULT_NETWORK_ROUTE_CONFIG s = (Inr (), s') \<and> nt_calls s' = nt_calls s @ [NetworkUpdate False nwid p]
        \<and> nc_rules (np_top p) = Some default_rules)"
proof -
  have r: "is_ok (checkNetworkAccess (nt_db s) (ne_user env) nwid READ_ONLY)" using assms(1) read_access by (simp add: network_access_def)
  have c: "compile (ne_depth env) DEFAULT_NETWORK_ROUTE_CONFIG = Inr \<lparr>cd_rules = default_rules, cd_caps = [], cd_tags = []\<rparr>"
    using default_rules_any_depth default_rules_compile by simp
  have "str_or x d = d" if "\<not> truthy x" for x d using that by (simp add: str_or_def)
  then have "getFlowRule env False False nwid s = (Inr DEFAULT_NETWORK_ROUTE_CONFIG, s)"
    using r assms(2) by (auto simp: getFlowRule_def net_permitted_def is_ok_iff)
  moreover have "flow_body env False nwid DEFAULT_NETWORK_ROUTE_CONFIG t = (Inr (), snd (flow_body env False nwid DEFAULT_NETWORK_ROUTE_CONFIG t))
      \<and> nt_calls (snd (flow_body env False nwid DEFAULT_NETWORK_ROUTE_CONFIG t)) = nt_calls t @ [NetworkUpdate False nwid (flow_payload False DEFAULT_NETWORK_ROUTE_CONFIG
          \<lparr>cd_rules = default_rules, cd_caps = [], cd_tags = []\<rparr>)]" for t
    by (simp add: flow_body_def c network_update_def assms(3) net_send_def)
  ultimately show ?thesis using assms(1)
    by (auto simp: setFlowRule_def net_permitted_def network_access_def is_ok_iff net_log_def flow_payload_def wrap_def intro!: exI)
qed

theorem default_rules_are_accepted_witness:
  "getFlowRule demo_netenv False False demo_nwid demo_netstate = (Inr DEFAULT_NETWORK_ROUTE_CONFIG, demo_netstate)"
proof -
  have "network_access demo_netenv (nt_db demo_netstate) demo_nwid" "\<not> truthy (nm_flowRule (meta_of demo_nwid demo_netstate))" by code_simp+
  from default_rules_are_accepted[OF this] show ?thesis by (simp add: demo_netenv_def)
qed

theorem flow_rules_round_trip_witness:
  "\<exists>s'. setFlowRule demo_netenv None False demo_nwid ports_source demo_netstate = (Inr (), s')
    \<and> getFlowRule demo_netenv False False demo_nwid s' = (Inr ports_source, s')"
proof -
  let ?r = "setFlowRule demo_netenv None False demo_nwid ports_source demo_netstate"
  have "is_ok (fst ?r)" by code_simp
  then have r: "?r = (Inr (), snd ?r)" by (auto simp: is_ok_iff prod_eq_iff)
  show ?thesis using flow_rules_round_trip[OF r] r by auto
qed

abbreviation "deauth \<equiv> no_params\<lparr>pm_authorized := Some False\<rparr>"

definition network_gone :: "string \<Rightarrow> net_state \<Rightarrow> bool" where
  "network_gone nwid s \<longleftrightarrow> find_network nwid (nt_db s) = None \<and> nwid \<notin> m_nwid ` set (ms_rows (nt_members s))
     \<and> nwid \<notin> row_networkId ` set (nt_routes s) \<and> nwid \<notin> no_nwid ` set (nt_notations s) \<and> map_of (nt_meta s) nwid = None"

text \<open>Such a label is one request away: the user of the first network labels a member of the second.\<close>

abbreviation "labelled_netstate \<equiv> snd (addAnotation demo_netenv None demo_nwid ''site'' 7 None None
  (demo_netstate\<lparr>nt_members := (nt_members demo_netstate)\<lparr>ms_rows := [demo_member, demo_member\<lparr>m_nodeid := 7, m_nwid := ''abcdef0123000002''\<rparr>]\<rparr>\<rparr>))"

abbreviation "other_route \<equiv> \<lparr>row_id = ''r9'', row_target = ''10.9.0.0/16'', row_via = None, row_networkId = ''abcdef0123000002'', row_notes = None\<rparr>"

definition all_pages :: "net_env \<Rightarrow> string \<Rightarrow> members_query \<Rightarrow> nat \<Rightarrow> member_row list \<Rightarrow> member_row list list" where
  "all_pages env nwid q n rows = List.map_filter (\<lambda>i. case member_page env nwid (q\<lparr>mq_page := i\<rparr>) rows of Inl _ \<Rightarrow> None | Inr p \<Rightarrow> Some p) [0..<n]"

definition sortable :: "net_env \<Rightarrow> string \<Rightarrow> members_query \<Rightarrow> member_row list \<Rightarrow> bool" where
  "sortable env nwid q rows \<longleftrightarrow> mq_sortBy q \<noteq> ''ipAssignments''
     \<or> list_all (\<lambda>m. ipKey (m_ipAssignments m) \<noteq> None) (filter (matches env nwid (trimmed_search q)) rows)"

section \<open>Deleting\<close>

lemma deauthorize_done:
  "deauthorize env central nwid ids s = (Inr u, t) \<Longrightarrow>
     t = s\<lparr>nt_calls := nt_calls s @ map (\<lambda>i. MemberCall (MemberUpdate central nwid i deauth)) ids\<rparr>"
proof (induction ids arbitrary: s)
  case (Cons i ids)
  then have "deauthorize env central nwid ids (net_send (MemberCall (MemberUpdate central nwid i deauth)) s) = (Inr u, t)"
    by (simp add: Let_def split: if_split_asm)
  from Cons.IH[OF this] show ?case by (simp add: net_send_def)
qed simp

lemma deletable_rows:
  assumes "find (\<lambda>n. n_nwid n = nwid \<and> deletable env org override n) (networks (nt_db s)) = Some n"
  shows "delete_rows env org False override nwid s
    = (if foreign_mark nwid s then (Inl (PlainError ''Foreign key constraint violated''), s) else (Inr (), drop_network nwid s))"
proof -
  have "n \<in> set (networks (nt_db s))" "n_nwid n = nwid" "deletable env org override n" using find_Some_mem[OF assms] by auto
  then show ?thesis by (cases "truthy org") (auto simp: delete_rows_def deleteMany_def deletable_def list_ex_iff)
qed

lemma foreign_mark_calls [simp]: "foreign_mark nwid (s\<lparr>nt_calls := c\<rparr>) = foreign_mark nwid s"
  by (simp add: foreign_mark_def)

lemma delete_network_result:
  assumes "find (\<lambda>n. n_nwid n = nwid \<and> deletable env org override n) (networks (nt_db s)) = Some n"
    and "ne_members env False nwid = Some ids" "\<And>i. ne_memberUpdate env False nwid i deauth" "ne_delete env False nwid"
  defines "t \<equiv> s\<lparr>nt_calls := nt_calls s @ map (\<lambda>i. MemberCall (MemberUpdate False nwid i deauth)) ids @ [NetworkDelete False nwid]\<rparr>"
  shows "delete_network env org False override nwid s
    = (if foreign_mark nwid s then (Inl (PlainError ''Foreign key constraint violated''), t)
       else net_log env org (''Deleted network '' @ nwid) (\<lambda>s. (Inr (), s)) (drop_network nwid t))"
proof -
  have d: "deauthorize env False nwid is s = (Inr (), s\<lparr>nt_calls := nt_calls s @ map (\<lambda>i. MemberCall (MemberUpdate False nwid i deauth)) is\<rparr>)" for "is" s
    using assms(3) by (induction "is" arbitrary: s) (simp_all add: net_send_def Let_def)
  have "delete_rows env org False override nwid t = (if foreign_mark nwid s then (Inl (PlainError ''Foreign key constraint violated''), t) else (Inr (), drop_network nwid t))"
    using deletable_rows[of nwid env org override t n] assms(1) by (simp add: t_def)
  moreover have "net_send (NetworkDelete False nwid) (s\<lparr>nt_calls := nt_calls s @ map (\<lambda>i. MemberCall (MemberUpdate False nwid i deauth)) ids\<rparr>) = t"
    by (simp add: net_send_def t_def)
  ultimately show ?thesis using assms(1,2,4) d[of ids s] by (simp add: delete_network_def)
qed

lemma drop_network_gone: "network_gone nwid (drop_network nwid s)"
  by (auto simp: network_gone_def drop_network_def Let_def find_network_def find_dropped map_of_filter_key)

lemma delete_network_done:
  assumes "delete_network env org False override nwid s = (Inr u, s')"
  shows "\<exists>ids. ne_members env False nwid = Some ids \<and> network_gone nwid s'
    \<and> nt_calls s' = nt_calls s @ map (\<lambda>i. MemberCall (MemberUpdate False nwid i deauth)) ids @ [NetworkDelete False nwid]"
proof -
  obtain n where n: "find (\<lambda>n. n_nwid n = nwid \<and> deletable env org override n) (networks (nt_db s)) = Some n"
    using assms by (auto simp: delete_network_def split: option.split_asm)
  obtain ids where i: "ne_members env False nwid = Some ids" using assms n by (auto simp: delete_network_def split: option.split_asm)
  from assms n i obtain x t where t: "deauthorize env False nwid ids s = (Inr x, t)" "ne_delete env False nwid"
    "sbind (delete_rows env org False override nwid (net_send (NetworkDelete False nwid) t)) (\<lambda>_. net_log env org (''Deleted network '' @ nwid) (\<lambda>s. (Inr (), s))) = (Inr u, s')"
    by (cases "deauthorize env False nwid ids s"; cases "fst (deauthorize env False nwid ids s)") (auto simp: delete_network_def split: if_split_asm)
  let ?t = "net_send (NetworkDelete False nwid) t"
  have "networks (nt_db ?t) = networks (nt_db s)" using deauthorize_done[OF t(1)] by (simp add: net_send_def)
  then have "delete_rows env org False override nwid ?t = (if foreign_mark nwid ?t then (Inl (PlainError ''Foreign key constraint violated''), ?t) else (Inr (), drop_network nwid ?t))"
    using deletable_rows[of nwid env org override ?t n] n by simp
  with t(3) have "net_log env org (''Deleted network '' @ nwid) (\<lambda>s. (Inr (), s)) (drop_network nwid ?t) = (Inr u, s')"
    by (auto split: if_split_asm)
  then obtain l where l: "s' = (drop_network nwid ?t)\<lparr>nt_log := l\<rparr>" by (auto simp: net_log_def split: if_split_asm)
  have "network_gone nwid s'" using drop_network_gone[of nwid ?t] unfolding l by (simp add: network_gone_def)
  moreover have "nt_calls s' = nt_calls s @ map (\<lambda>i. MemberCall (MemberUpdate False nwid i deauth)) ids @ [NetworkDelete False nwid]"
    unfolding l using deauthorize_done[OF t(1)] by (simp add: drop_network_def Let_def net_send_def)
  ultimately show ?thesis using i by blast
qed

text \<open>C29. Deleting a network ends in the right order and leaves nothing: a successful deletion has first deauthorised
  every member that the controller lists and then deleted the network there, no other request was sent, and the
  network's row, members, routes and labels are gone from the database.\<close>

theorem deletion_deauthorises_first:
  assumes "deleteNetwork env org False override nwid s = (Inr u, s')"
  shows "\<exists>ids. ne_members env False nwid = Some ids \<and> network_gone nwid s'
    \<and> nt_calls s' = nt_calls s @ map (\<lambda>i. MemberCall (MemberUpdate False nwid i deauth)) ids @ [NetworkDelete False nwid]"
proof -
  have "delete_network env org False override nwid s = (Inr u, s')"
    using assms by (auto simp: deleteNetwork_def net_permitted_def split: if_split_asm sum.split_asm)
  then show ?thesis by (rule delete_network_done)
qed

theorem deletion_deauthorises_first_witness:
  "\<exists>s'. deleteNetwork demo_netenv None False False demo_nwid demo_netstate = (Inr (), s') \<and> network_gone demo_nwid s'
    \<and> nt_calls s' = [MemberCall (MemberUpdate False demo_nwid ''1234567890'' deauth), NetworkDelete False demo_nwid]"
proof -
  let ?r = "deleteNetwork demo_netenv None False False demo_nwid demo_netstate"
  have "is_ok (fst ?r)" by code_simp
  then have r: "?r = (Inr (), snd ?r)" by (auto simp: is_ok_iff prod_eq_iff)
  from deletion_deauthorises_first[OF r] r show ?thesis by (auto simp: demo_netenv_def demo_netstate_def)
qed

text \<open>A label that marks a member of another network blocks the deletion of its network: the controller's network
  is deleted, and the database keeps the row, so that the network stays listed without a controller.\<close>

theorem foreign_label_blocks_deletion:
  assumes "network_access env (nt_db s) nwid" "find (\<lambda>n. n_nwid n = nwid \<and> deletable env None False n) (networks (nt_db s)) = Some n"
    and "ne_members env False nwid = Some ids" "\<And>i. ne_memberUpdate env False nwid i deauth" "ne_delete env False nwid" "foreign_mark nwid s"
  shows "\<exists>s'. deleteNetwork env None False False nwid s = (Inl (PlainError ''Foreign key constraint violated''), s')
    \<and> last (nt_calls s') = NetworkDelete False nwid \<and> find_network nwid (nt_db s') \<noteq> None"
proof -
  have "find_network nwid (nt_db s) \<noteq> None" using find_Some_mem[OF assms(2)] by (auto simp: find_network_def find_None_iff)
  then show ?thesis using assms(1,6) delete_network_result[OF assms(2-5)]
    by (auto simp: deleteNetwork_def net_permitted_def network_access_def is_ok_iff)
qed


theorem foreign_label_blocks_deletion_witness:
  "\<exists>s'. deleteNetwork demo_netenv None False False demo_nwid labelled_netstate = (Inl (PlainError ''Foreign key constraint violated''), s')
    \<and> last (nt_calls s') = NetworkDelete False demo_nwid \<and> find_network demo_nwid (nt_db s') \<noteq> None"
proof -
  have a: "network_access demo_netenv (nt_db labelled_netstate) demo_nwid" "foreign_mark demo_nwid labelled_netstate" by code_simp+
  have "find (\<lambda>n. n_nwid n = demo_nwid \<and> deletable demo_netenv None False n) (networks (nt_db labelled_netstate)) \<noteq> None" by code_simp
  then obtain n where "find (\<lambda>n. n_nwid n = demo_nwid \<and> deletable demo_netenv None False n) (networks (nt_db labelled_netstate)) = Some n" by blast
  from foreign_label_blocks_deletion[OF a(1) this _ _ _ a(2)] show ?thesis by (simp add: demo_netenv_def)
qed

section \<open>Notes of routes\<close>

text \<open>A note follows the identifier of a route and not the network of the request: whoever may change one network
  can set the note of any route of any network whose identifier they know, and the request succeeds.\<close>

theorem route_note_reaches_other_networks:
  assumes "network_access env (nt_db s) nwid" "r \<in> set (nt_routes s)" "\<And>p. ne_update env False nwid p"
  shows "\<exists>s'. managedRoutes env None False nwid \<lparr>rs_routes = None, rs_note = Some note, rs_routeId = Some (row_id r), rs_via = None\<rparr> s = (Inr (), s')
    \<and> r\<lparr>row_notes := Some note\<rparr> \<in> set (nt_routes s')"
proof -
  have "list_ex (\<lambda>x. row_id x = row_id r) (nt_routes s)" using assms(2) by (auto simp: list_ex_iff)
  then show ?thesis using assms
    by (auto simp: managedRoutes_def changing_def net_permitted_def network_access_def is_ok_iff net_log_def write_note_def bad_via_def
        network_update_def net_send_def intro!: rev_image_eqI[OF assms(2)])
qed

theorem route_note_reaches_other_networks_witness:
  "\<exists>s'. managedRoutes demo_netenv None False demo_nwid \<lparr>rs_routes = None, rs_note = Some ''mine'', rs_routeId = Some ''r9'', rs_via = None\<rparr>
      (demo_netstate\<lparr>nt_routes := [other_route]\<rparr>) = (Inr (), s') \<and> other_route\<lparr>row_notes := Some ''mine''\<rparr> \<in> set (nt_routes s')"
proof -
  have "network_access demo_netenv (nt_db (demo_netstate\<lparr>nt_routes := [other_route]\<rparr>)) demo_nwid" by code_simp
  from route_note_reaches_other_networks[OF this, of other_route] show ?thesis by (simp add: demo_netenv_def)
qed

section \<open>Pages of members\<close>

lemma concat_chunks: "0 < k \<Longrightarrow> length xs \<le> n * k \<Longrightarrow> concat (map (\<lambda>i. take k (drop (i * k) xs)) [0..<n]) = xs"
proof (induction n arbitrary: xs)
  case (Suc n)
  have "[0..<Suc n] = 0 # map Suc [0..<n]" by (simp add: map_Suc_upt upt_conv_Cons del: upt_Suc)
  then have "concat (map (\<lambda>i. take k (drop (i * k) xs)) [0..<Suc n]) = take k xs @ concat (map (\<lambda>i. take k (drop (i * k) (drop k xs))) [0..<n])"
    by (simp add: comp_def add.commute del: upt_Suc)
  also have "\<dots> = xs" using Suc.IH[of "drop k xs"] Suc.prems by simp
  finally show ?case .
qed simp

lemma map_filter_Some: "(\<And>x. x \<in> set xs \<Longrightarrow> f x = Some (g x)) \<Longrightarrow> List.map_filter f xs = map g xs"
  by (induction xs) (auto simp: List.map_filter_simps)

lemma member_page_sorted:
  assumes "rows_wf rows" "sorted_rows env q (filter (matches env nwid (trimmed_search q)) rows) = Inr xs" "mset xs = mset (filter (matches env nwid (trimmed_search q)) rows)"
  shows "member_page env nwid q rows = Inr (page_of q xs)"
proof -
  have "row_at nwid (m_id m) rows = Some m" if "m \<in> set (page_of q xs)" for m
  proof -
    have "m \<in> set xs" using that unfolding page_of_def by (meson in_set_takeD in_set_dropD)
    then have "m \<in># mset (filter (matches env nwid (trimmed_search q)) rows)" unfolding assms(3)[symmetric] by simp
    then have "m \<in> set rows" "m_nwid m = nwid" by (auto simp: matches_def)
    then show ?thesis using row_at_mem[OF assms(1)] by fastforce
  qed
  then have "List.map_filter (\<lambda>m. row_at nwid (m_id m) rows) (page_of q xs) = map (\<lambda>m. m) (page_of q xs)" by (rule map_filter_Some)
  then show ?thesis by (simp add: member_page_def assms(2) Let_def)
qed

lemma sortable_rows:
  assumes "sortable env nwid q rows" "\<And>c d xs. mset (ne_order env c d xs) = mset xs"
  shows "\<exists>xs. sorted_rows env q (filter (matches env nwid (trimmed_search q)) rows) = Inr xs \<and> mset xs = mset (filter (matches env nwid (trimmed_search q)) rows)"
  using assms by (auto simp: sortable_def sorted_rows_def list_ex_iff list_all_iff)

text \<open>Pages lose no member and repeat none: when the database keeps one order for a query, the pages of a member
  list together hold exactly the members of the network that match the search, each once, in every sort order, the
  order of addresses included.\<close>

theorem pages_cover_members:
  assumes "rows_wf rows" "sortable env nwid q rows" "\<And>c d xs. mset (ne_order env c d xs) = mset xs" "0 < mq_pageSize q"
    and "length (filter (matches env nwid (trimmed_search q)) rows) \<le> n * mq_pageSize q"
  shows "length (all_pages env nwid q n rows) = n \<and> mset (concat (all_pages env nwid q n rows)) = mset (filter (matches env nwid (trimmed_search q)) rows)"
proof -
  let ?rows = "filter (matches env nwid (trimmed_search q)) rows"
  obtain xs where xs: "sorted_rows env q ?rows = Inr xs" "mset xs = mset ?rows" using sortable_rows[OF assms(2,3)] by blast
  have "trimmed_search (q\<lparr>mq_page := i\<rparr>) = trimmed_search q" "sorted_rows env (q\<lparr>mq_page := i\<rparr>) ?rows = sorted_rows env q ?rows" for i
    by (simp_all add: trimmed_search_def sorted_rows_def)
  then have "member_page env nwid (q\<lparr>mq_page := i\<rparr>) rows = Inr (page_of (q\<lparr>mq_page := i\<rparr>) xs)" for i
    using xs by (intro member_page_sorted[OF assms(1)]) simp_all
  then have "all_pages env nwid q n rows = map (\<lambda>i. take (mq_pageSize q) (drop (i * mq_pageSize q) xs)) [0..<n]"
    by (simp add: all_pages_def page_of_def map_filter_Some)
  moreover have "length xs \<le> n * mq_pageSize q" using assms(5) xs(2) by (metis size_mset)
  ultimately show ?thesis using concat_chunks[OF assms(4), of xs n] xs(2) by simp
qed

theorem pages_cover_members_witness:
  "length (all_pages demo_netenv demo_nwid \<lparr>mq_page = 0, mq_pageSize = 1, mq_sync = False, mq_search = None, mq_sortBy = ''ipAssignments'', mq_desc = True\<rparr> 2 [demo_member]) = 2"
  using pages_cover_members[of "[demo_member]" demo_netenv demo_nwid
    "\<lparr>mq_page = 0, mq_pageSize = 1, mq_sync = False, mq_search = None, mq_sortBy = ''ipAssignments'', mq_desc = True\<rparr>" 2]
  by (simp add: rows_wf_def demo_netenv_def sortable_def demo_member_def ipKey_def)

definition no_pipe :: "string list \<Rightarrow> bool" where
  "no_pipe ts = list_all (\<lambda>t. CHR ''|'' \<notin> set t) ts"

definition own_routes :: "string \<Rightarrow> net_state \<Rightarrow> route_row list" where
  "own_routes nwid s = filter (\<lambda>r. row_networkId r = nwid) (nt_routes s)"

abbreviation "routed_netenv \<equiv> demo_netenv\<lparr>ne_network := (\<lambda>_ _. Some \<lparr>cn_v6 = None, cn_routes = [\<lparr>re_id = None, re_target = ''10.1.0.0/16'', re_via = None, re_notes = None\<rparr>]\<rparr>)\<rparr>"

section \<open>Routes on the page of a network\<close>

lemma pipe_key_route_key:
  assumes "CHR ''|'' \<notin> set t" "CHR ''|'' \<notin> set t'" "pipe_key t v = pipe_key t' v'"
  shows "route_key t v = route_key t' v'"
proof -
  let ?s = "str_or v ''null''" and ?s' = "str_or v' ''null''"
  have "js_split CHR ''|'' (t @ CHR ''|'' # ?s) = t # js_split CHR ''|'' ?s" "js_split CHR ''|'' (t' @ CHR ''|'' # ?s') = t' # js_split CHR ''|'' ?s'"
    using assms(1,2) by (auto intro: js_split_append)
  with assms(3) have "t = t'" "js_split CHR ''|'' ?s = js_split CHR ''|'' ?s'" by (auto simp: pipe_key_def)
  then show ?thesis by (metis js_join_split route_key_def)
qed

lemma pipe_key_or_null: "pipe_key t (or_null v) = pipe_key t v"
  by (auto simp: pipe_key_def or_null_def str_or_def)

lemma length_js_set: "length (js_set xs) = card (set xs)"
  by (metis distinct_card distinct_js_set set_js_set)

lemma no_sync_needed:
  assumes "\<not> needs_route_sync rows zt" "no_pipe (map row_target rows)" "no_pipe (map re_target zt)"
  shows "Routes_Sync.row_key ` set rows = getRouteKey ` set zt \<and> (clean_rows rows \<longrightarrow> distinct (map Routes_Sync.row_key rows))"
proof -
  let ?p = "\<lambda>r. pipe_key (row_target r) (row_via r)" and ?z = "\<lambda>r. pipe_key (re_target r) (re_via r)"
  have sub: "?p ` set rows \<subseteq> ?z ` set zt" "card (?p ` set rows) = card (?z ` set zt)" "length rows = card (?p ` set rows)"
    using assms(1) by (auto simp: needs_route_sync_def Let_def length_js_set list_all_iff)
  then have eq: "?p ` set rows = ?z ` set zt" by (intro card_subset_eq) auto
  have k: "Routes_Sync.row_key r = getRouteKey e" if "r \<in> set rows" "e \<in> set zt" "?p r = ?z e" for r e
    using that assms(2,3) pipe_key_route_key by (auto simp: Routes_Sync.row_key_def getRouteKey_def no_pipe_def list_all_iff)
  have "Routes_Sync.row_key ` set rows = getRouteKey ` set zt"
  proof (intro equalityI subsetI)
    fix x assume "x \<in> Routes_Sync.row_key ` set rows"
    then obtain r where r: "r \<in> set rows" "x = Routes_Sync.row_key r" by blast
    then have "?p r \<in> ?z ` set zt" unfolding eq[symmetric] by blast
    then obtain e where "e \<in> set zt" "?p r = ?z e" by blast
    then show "x \<in> getRouteKey ` set zt" using k r by auto
  next
    fix x assume "x \<in> getRouteKey ` set zt"
    then obtain e where e: "e \<in> set zt" "x = getRouteKey e" by blast
    then have "?z e \<in> ?p ` set rows" unfolding eq by blast
    then obtain r where "r \<in> set rows" "?p r = ?z e" by force
    then show "x \<in> Routes_Sync.row_key ` set rows" using k[of r e] e by (metis imageI)
  qed
  moreover have "distinct (map Routes_Sync.row_key rows)" if "clean_rows rows"
  proof -
    have "distinct (map ?p rows)" using sub(3) by (intro card_distinct) (simp add: image_comp)
    moreover have "?p r = ?p q" if "r \<in> set rows" "q \<in> set rows" "Routes_Sync.row_key r = Routes_Sync.row_key q" for r q
    proof -
      have "clean_route (row_target r) (row_via r)" "clean_route (row_target q) (row_via q)"
        using \<open>clean_rows rows\<close> that(1,2) by (simp_all add: clean_rows_def list_all_iff)
      then have "row_target r = row_target q" "or_null (row_via r) = or_null (row_via q)" using clean_key_inject[OF _ _ that(3)[unfolded Routes_Sync.row_key_def]] by blast+
      then show ?thesis by (metis pipe_key_or_null)
    qed
    ultimately show ?thesis unfolding distinct_map inj_on_def by blast
  qed
  ultimately show ?thesis by blast
qed

lemma sync_routes_mirror:
  assumes "sync_routes env nwid zt s = (routes, s')" "routes_wf (routes_db_of s)" "clean_rows (own_routes nwid s)" "clean_entities zt"
    and "no_pipe (map row_target (own_routes nwid s))" "no_pipe (map re_target zt)" "find_network nwid (nt_db s) \<noteq> None"
    and "\<And>t. ne_gen env t \<notin> row_id ` set t \<and> ne_gen env t \<noteq> []"
  shows "Routes_Sync.row_key ` set routes = getRouteKey ` set zt \<and> distinct (map Routes_Sync.row_key routes) \<and> routes = own_routes nwid s'"
proof (cases "needs_route_sync (own_routes nwid s) zt")
  case False
  then have "routes = own_routes nwid s" "s' = s" using assms(1) by (auto simp: sync_routes_def Let_def own_routes_def)
  then show ?thesis using no_sync_needed[OF False assms(5,6)] assms(3) by simp
next
  case True
  obtain ret db where r: "syncNetworkRoutes (ne_gen env) nwid (Some (snapshot nwid (routes_db_of s))) zt (routes_db_of s) = (ret, db)" by fastforce
  have own: "network_rows nwid (routes_db_of s) = own_routes nwid s" by (simp add: network_rows_def routes_db_of_def own_routes_def)
  have i: "nwid \<in> set (network_ids (routes_db_of s))"
    using assms(7) by (auto simp: routes_db_of_def find_network_def find_None_iff image_iff)
  have ok: "ret \<noteq> Failed" "sync_result nwid zt (routes_db_of s) db" "network_ids db = network_ids (routes_db_of s)"
    using sync_correct[OF assms(2) _ assms(4) i assms(8) r] assms(3) own by auto
  have d: "routes = (case ret of Reread (Some rs) \<Rightarrow> rs | _ \<Rightarrow> own_routes nwid s)" "s' = s\<lparr>nt_routes := routes_tab db\<rparr>"
    using assms(1) True r by (auto simp: sync_routes_def Let_def own_routes_def[symmetric] snapshot_def own)
  have "routes = network_rows nwid db"
    using r ok(1,3) i own unfolding d(1) by (auto simp: syncNetworkRoutes_def Let_def network_rows_def split: if_split_asm option.split_asm)
  then show ?thesis using ok(2) by (simp add: sync_result_def d(2) own_routes_def network_rows_def)
qed

lemma refresh_keeps [simp]: "nt_routes (refresh env w nwid s) = nt_routes s" "nt_db (refresh env w nwid s) = nt_db s"
  by (simp_all add: refresh_def)

text \<open>C28. The page of a network shows the controller's routes: whether its comparison of keys skips the
  synchronisation or runs it, an answered request lists one stored row per route of the controller and no other,
  and these are the rows of the network that the database holds afterwards.\<close>

theorem page_shows_controller_routes:
  assumes "getNetworkById env nwid s = (Inr a, s')" "ne_network env False nwid = Some nw" "routes_wf (routes_db_of s)"
    and "clean_rows (own_routes nwid s)" "clean_entities (cn_routes nw)" "no_pipe (map row_target (own_routes nwid s))" "no_pipe (map re_target (cn_routes nw))"
    and "\<And>t. ne_gen env t \<notin> row_id ` set t \<and> ne_gen env t \<noteq> []"
  shows "Routes_Sync.row_key ` set (na_routes a) = getRouteKey ` set (cn_routes nw) \<and> distinct (map Routes_Sync.row_key (na_routes a)) \<and> na_routes a = own_routes nwid s'"
proof -
  obtain routes where r: "sync_routes env nwid (cn_routes nw) (refresh env False nwid s) = (routes, s')" "na_routes a = routes" "find_network nwid (nt_db s) \<noteq> None"
    using assms(1,2) by (auto simp: getNetworkById_def Let_def network_answer_of_def split: option.split_asm if_split_asm prod.split_asm)
  have "own_routes nwid (refresh env False nwid s) = own_routes nwid s" "routes_db_of (refresh env False nwid s) = routes_db_of s"
    by (simp_all add: own_routes_def routes_db_of_def)
  then show ?thesis using sync_routes_mirror[OF r(1) _ _ assms(5) _ assms(7) _ assms(8)] assms(3,4,6) r(2,3) by auto
qed

theorem page_shows_controller_routes_witness:
  "\<exists>a s'. getNetworkById routed_netenv demo_nwid demo_netstate = (Inr a, s') \<and> Routes_Sync.row_key ` set (na_routes a) = {''10.1.0.0/16-null''}"
proof -
  let ?r = "getNetworkById routed_netenv demo_nwid demo_netstate"
  have "is_ok (fst ?r)" by code_simp
  then obtain a where r: "?r = (Inr a, snd ?r)" by (auto simp: is_ok_iff prod_eq_iff)
  let ?nw = "\<lparr>cn_v6 = None, cn_routes = [\<lparr>re_id = None, re_target = ''10.1.0.0/16'', re_via = None, re_notes = None\<rparr>]\<rparr>"
  have h: "routes_wf (routes_db_of demo_netstate)" "clean_rows (own_routes demo_nwid demo_netstate)" "clean_entities (cn_routes ?nw)"
    "no_pipe (map row_target (own_routes demo_nwid demo_netstate))" "no_pipe (map re_target (cn_routes ?nw))" by code_simp+
  have g: "ne_gen routed_netenv t \<notin> row_id ` set t \<and> ne_gen routed_netenv t \<noteq> []" "ne_network routed_netenv False demo_nwid = Some ?nw" for t
    by (simp_all add: demo_netenv_def fresh_id_fresh)
  have "Routes_Sync.row_key ` set (na_routes a) = {''10.1.0.0/16-null''}"
    using page_shows_controller_routes[OF r g(2) h g(1), THEN conjunct1] by (simp add: getRouteKey_def route_key_def str_or_def)
  with r show ?thesis by blast
qed

section \<open>Networks of ZeroTier Central\<close>

text \<open>A network without a row can be reached by no procedure: every request to change it, with the central flag or
  without, ends with an error, changes nothing and sends nothing to a controller. (Networks created at ZeroTier
  Central get no row.)\<close>

theorem unstored_networks_are_unreachable:
  assumes "find_network (request_network rq) (nt_db s) = None"
  shows "\<not> is_ok (fst (serve env rq s)) \<and> run_network env rq s = s"
proof -
  have a: "\<not> is_ok (checkNetworkAccess (nt_db s) u (request_network rq) r)" for u r using assms by (simp add: checkNetworkAccess_def)
  have f: "find (\<lambda>n. n_nwid n = request_network rq \<and> P n) (networks (nt_db s)) = None" for P
    using assms by (auto simp: find_network_def find_None_iff)
  show ?thesis using a f unfolding run_network_def
    by (cases rq) (auto simp: ipv6_def enableIpv4AutoAssign_def managedRoutes_def easyIpAssignment_def advancedIpAssignment_def privatePublicNetwork_def
      networkName_def networkDescription_def dns_def mtu_def multiCast_def setFlowRule_def inviteNodeByMail_def addAnotation_def deleteNetwork_def delete_network_def
      changing_def net_permitted_def Let_def is_ok_iff split: sum.split)
qed

theorem unstored_networks_are_unreachable_witness:
  "\<not> is_ok (fst (serve demo_netenv (QName None True ''abcdef0123000009'' ''x'') demo_netstate))"
proof -
  have "find_network (request_network (QName None True ''abcdef0123000009'' ''x'')) (nt_db demo_netstate) = None" by code_simp
  from unstored_networks_are_unreachable[OF this] show ?thesis by simp
qed

section \<open>Routes of address pools\<close>

text \<open>The routes that pools add replace every route to the same address, whatever its prefix length and gateway.\<close>

lemma pool_routes_replace_other_prefixes:
  assumes "a \<in> set (uniqueRoutes (old @ [new]))" "target_address a = target_address new"
  shows "a = new"
proof -
  have s: "target_address (the (find (\<lambda>r. target_address r = k) (rev rs))) = k" if "k \<in> target_address ` set rs" for k rs
  proof -
    have "find (\<lambda>r. target_address r = k) (rev rs) \<noteq> None" using that by (auto simp: find_None_iff)
    then show ?thesis by (auto dest: find_Some_mem)
  qed
  obtain k where "k \<in> target_address ` set (old @ [new])" "a = the (find (\<lambda>r. target_address r = k) (rev (old @ [new])))"
    using assms(1) unfolding uniqueRoutes_def set_map set_js_set by blast
  then show ?thesis using s[of k "old @ [new]"] assms(2) by simp
qed

section \<open>The order of addresses\<close>

text \<open>Groups that \<^verbatim>\<open>::\<close> leaves out are not filled in, so that a high address gets a lower key than a low one.\<close>

lemma compressed_addresses_sort_wrong:
  "(case sortIP ''ff00::1'' of None \<Rightarrow> False | Some a \<Rightarrow> case sortIP ''1::1:1:1:1'' of None \<Rightarrow> False | Some b \<Rightarrow> a < b)"
proof -
  have k: "concat (map (pad_start 4) (js_split CHR '':'' ''ff00::1'')) = ''ff0000000001''"
    "concat (map (pad_start 4) (js_split CHR '':'' ''1::1:1:1:1'')) = ''000100000001000100010001''" by code_simp+
  have "sortIP ''ff00::1'' = Some (int (hexs_val 0 ''ff0000000001''))" "sortIP ''1::1:1:1:1'' = Some (int (hexs_val 0 ''000100000001000100010001''))"
    unfolding sortIP_def hexToBigInt_def k by (simp_all add: is_hex_def is_digit_def code_def)
  then show ?thesis by (simp add: hexs_val_def hex_val_def is_digit_def code_def)
qed

end
