(* ===== verification/Second_Factor.thy ===== *)
theory Second_Factor
  imports Login_Guard Edge_Config
begin

text \<open>
  Setting up, using and recovering the second factor: \<^verbatim>\<open>pages/api/auth/two-factor/totp/setup.ts\<close>, \<^verbatim>\<open>enable.ts\<close>,
  \<^verbatim>\<open>disable.ts\<close> and \<^verbatim>\<open>server/api/routers/mfaAuthRouter.ts\<close>.

  The state adds the recovery codes (as bcrypt hashes, by user) to the account tables, the limiter's cache and the
  mails sent. The environment holds bcrypt, AES, the one-time passwords, the signed tokens and the random source, which
  takes the seed of a request. A session is the caller of \<open>Access_Control\<close> with the e-mail address that the session
  carries. An e-mail lookup follows the unique column.
\<close>

section \<open>Data\<close>

datatype jwt_result = JwtInvalid | JwtMalformed | JwtClaims string string

record mfa_env =
  me_auth :: auth_env
  me_compare :: "string \<Rightarrow> string \<Rightarrow> bool"
  me_hash :: "nat \<Rightarrow> string \<Rightarrow> string"
  me_encrypt :: "nat \<Rightarrow> string \<Rightarrow> string"
  me_decrypt :: "string \<Rightarrow> string option"
  me_totp :: "int \<Rightarrow> string \<Rightarrow> string \<Rightarrow> bool"
  me_secret :: "nat \<Rightarrow> string"
  me_randomHex :: "nat \<Rightarrow> nat \<Rightarrow> string"
  me_keyuri :: "string \<Rightarrow> string \<Rightarrow> string \<Rightarrow> string"
  me_encodeURI :: "string \<Rightarrow> string"
  me_sign :: "int \<Rightarrow> string \<Rightarrow> string \<Rightarrow> string"
  me_verify :: "int \<Rightarrow> string \<Rightarrow> jwt_result"
  me_validEmail :: "string \<Rightarrow> bool"
  me_mail :: "string \<Rightarrow> bool"
  RATE_LIMIT_WINDOW :: "string option"
  RATE_LIMIT_MAX_REQUESTS_SHORT :: "string option"

record mfa_state =
  mf_db :: db
  mf_codes :: "string \<Rightarrow> string list"
  mf_cache :: token_cache
  mf_mails :: "(string \<times> string) list"

record mfa_http =
  rq_method :: string
  rq_session :: "(session_user \<times> string) option"
  rq_field :: "string option"

datatype api_reply = Reply int string | SetUp string string | Enabled "string list" | Thrown string

section \<open>The endpoints of a signed-in user\<close>

definition update_email :: "string \<Rightarrow> (user_row \<Rightarrow> user_row) \<Rightarrow> db \<Rightarrow> db" where
  "update_email email f d = d\<lparr>users := map (\<lambda>u. if u_email u = email then f u else u) (users d)\<rparr>"

definition active_email :: "int \<Rightarrow> db \<Rightarrow> (session_user \<times> string) option \<Rightarrow> string option" where
  "active_email now d ses =
     (case ses of None \<Rightarrow> None
      | Some (u, email) \<Rightarrow> (case getActiveSession now d (Some u) of None \<Rightarrow> None | Some _ \<Rightarrow> Some email))"

text \<open>The start of every endpoint: the method, the session and the account of its e-mail address.\<close>

definition signed_in :: "string \<Rightarrow> int \<Rightarrow> mfa_http \<Rightarrow> mfa_state \<Rightarrow> api_reply + user_row" where
  "signed_in unauthenticated now rq s =
     (if rq_method rq \<noteq> ''POST'' then Inl (Reply 405 ''Method not allowed'')
      else case active_email now (mf_db s) (rq_session rq) of
          None \<Rightarrow> Inl (Reply 401 unauthenticated)
        | Some email \<Rightarrow>
            if email = [] then Inl (Reply 500 ''internal-server-error'')
            else of_option (Reply 401 ''Not authenticated'') (find_email email (mf_db s)))"

definition text_field :: "mfa_http \<Rightarrow> string" where
  "text_field rq = (case rq_field rq of None \<Rightarrow> [] | Some t \<Rightarrow> t)"

definition generateOTPAuthURL :: "mfa_env \<Rightarrow> string \<Rightarrow> string \<Rightarrow> string \<Rightarrow> string \<Rightarrow> string" where
  "generateOTPAuthURL env name secret issuer logoUrl = me_keyuri env name issuer secret @ ''&image='' @ me_encodeURI env logoUrl"

definition totp_setup :: "mfa_env \<Rightarrow> nat \<Rightarrow> int \<Rightarrow> mfa_http \<Rightarrow> mfa_state \<Rightarrow> api_reply \<times> mfa_state" where
  "totp_setup env seed now rq s =
     (case signed_in ''internal-server-error'' now rq s of
        Inl r \<Rightarrow> (r, s)
      | Inr user \<Rightarrow>
          if \<not> truthy (u_hash user) then (Reply 400 ''missing-password'', s)
          else if u_twoFactorEnabled user then (Reply 400 ''two-factor-already-enabled'', s)
          else if \<not> truthy (NEXTAUTH_SECRET (me_auth env)) then (Reply 500 ''internal-server-error'', s)
          else if \<not> me_compare env (text_field rq) (the (u_hash user)) then (Reply 400 ''incorrect-password'', s)
          else let secret = me_secret env seed
               in (SetUp secret (generateOTPAuthURL env (u_email user) secret ''ZTNET''
                     ''https://github.com/sinamics/ztnet/blob/main/docs/images/logo/ztnet_16x14.png?raw=true''),
                   s\<lparr>mf_db := update_email (u_email user) (\<lambda>u. u\<lparr>u_twoFactorEnabled := False,
                       u_twoFactorSecret := Some (me_encrypt env seed secret)\<rparr>) (mf_db s)\<rparr>))"

definition generateRecoveryCodes :: "mfa_env \<Rightarrow> nat \<Rightarrow> string list" where
  "generateRecoveryCodes env seed = map (me_randomHex env seed) [0..<6]"

definition totp_enable :: "mfa_env \<Rightarrow> nat \<Rightarrow> int \<Rightarrow> mfa_http \<Rightarrow> mfa_state \<Rightarrow> api_reply \<times> mfa_state" where
  "totp_enable env seed now rq s =
     (case signed_in ''Not authenticated'' now rq s of
        Inl r \<Rightarrow> (r, s)
      | Inr user \<Rightarrow>
          if u_twoFactorEnabled user then (Reply 400 ''two-factor-already-enabled'', s)
          else if \<not> truthy (u_twoFactorSecret user) then (Reply 400 ''two-factor-setup-required'', s)
          else if \<not> truthy (NEXTAUTH_SECRET (me_auth env)) then (Reply 500 ''internal-server-error'', s)
          else (case me_decrypt env (the (u_twoFactorSecret user)) of
              None \<Rightarrow> (Thrown ''decryption failed'', s)
            | Some secret \<Rightarrow>
                if length secret \<noteq> 32 then (Reply 500 ''internal-server-error'', s)
                else if text_field rq = [] then (Reply 400 ''second-factor-required'', s)
                else if \<not> me_totp env now (text_field rq) secret then (Reply 400 ''incorrect-two-factor-code'', s)
                else let codes = generateRecoveryCodes env seed
                     in (Enabled codes, s\<lparr>mf_db := update_email (u_email user) (\<lambda>u. u\<lparr>u_twoFactorEnabled := True\<rparr>) (mf_db s),
                           mf_codes := (mf_codes s)(u_id user := map (me_hash env seed) codes)\<rparr>)))"

definition totp_disable :: "mfa_env \<Rightarrow> int \<Rightarrow> mfa_http \<Rightarrow> mfa_state \<Rightarrow> api_reply \<times> mfa_state" where
  "totp_disable env now rq s =
     (case signed_in ''Not authenticated'' now rq s of
        Inl r \<Rightarrow> (r, s)
      | Inr user \<Rightarrow>
          if \<not> truthy (u_hash user) then (Reply 400 ''missing-password'', s)
          else if \<not> u_twoFactorEnabled user then (Reply 200 ''Two factor disabled'', s)
          else if text_field rq = [] then (Reply 400 ''second-factor-required'', s)
          else if \<not> truthy (u_twoFactorSecret user) then (Thrown ''internal-server-error'', s)
          else if \<not> truthy (NEXTAUTH_SECRET (me_auth env)) then (Thrown ''internal-server-error'', s)
          else (case me_decrypt env (the (u_twoFactorSecret user)) of
              None \<Rightarrow> (Thrown ''decryption failed'', s)
            | Some secret \<Rightarrow>
                if length secret \<noteq> 32 then (Thrown ''internal-server-error'', s)
                else if \<not> me_totp env now (text_field rq) secret then (Reply 400 ''incorrect-two-factor-code'', s)
                else (Reply 200 ''Two factor disabled'', s\<lparr>mf_db := update_email (u_email user) (\<lambda>u. u\<lparr>u_twoFactorEnabled := False,
                        u_twoFactorSecret := None\<rparr>) (mf_db s)\<rparr>)))"

section \<open>Recovery\<close>

definition RATE_LIMIT_WINDOW_MS :: "mfa_env \<Rightarrow> int" where
  "RATE_LIMIT_WINDOW_MS env = parse_or (str_or (RATE_LIMIT_WINDOW env) ''10'') 10 * 60 * 1000"

definition GENERAL_REQUEST_LIMIT :: "mfa_env \<Rightarrow> int" where
  "GENERAL_REQUEST_LIMIT env = parse_or (str_or (RATE_LIMIT_MAX_REQUESTS_SHORT env) ''10'') 10"

text \<open>The limiter with the source of the request; a negative limit refuses everything.\<close>

definition under_limit :: "mfa_env \<Rightarrow> int \<Rightarrow> string \<Rightarrow> string \<Rightarrow> mfa_state \<Rightarrow> bool \<times> mfa_state" where
  "under_limit env now source token s =
     (let (r, c) = check_rate (RATE_LIMIT_WINDOW_MS env) False now (nat (GENERAL_REQUEST_LIMIT env)) token source (mf_cache s)
      in (cr_allowed r, s\<lparr>mf_cache := c\<rparr>))"

definition verifyRecoveryCode :: "mfa_env \<Rightarrow> string \<Rightarrow> string list \<Rightarrow> bool" where
  "verifyRecoveryCode env providedCode hashedCodes = list_ex (me_compare env providedCode) hashedCodes"

definition mfaValidateToken :: "mfa_env \<Rightarrow> int \<Rightarrow> string \<Rightarrow> string \<Rightarrow> mfa_state \<Rightarrow> (string + string) \<times> mfa_state" where
  "mfaValidateToken env now source token s =
     (if token = [] then (Inl ''invalid-token'', s)
      else case me_verify env now token of
          JwtClaims i email \<Rightarrow>
            let (ok, s1) = under_limit env now source ''MFA_VALIDATE_TOKEN'' s
            in if \<not> ok then (Inl ''too-many-requests'', s1)
               else (case find_user i (mf_db s1) of
                   None \<Rightarrow> (Inl ''invalid-token'', s1)
                 | Some u \<Rightarrow> (if normalizeEmail (u_email u) = normalizeEmail email \<and> u_twoFactorEnabled u then Inr (u_email u) else Inl ''invalid-token'', s1))
        | _ \<Rightarrow> (Inl ''invalid-token'', s))"

definition mfaResetLink :: "mfa_env \<Rightarrow> int \<Rightarrow> string \<Rightarrow> string \<Rightarrow> mfa_state \<Rightarrow> (exn + unit) \<times> mfa_state" where
  "mfaResetLink env now source rawEmail s =
     (let email = normalizeEmail rawEmail
      in if \<not> me_validEmail env email then (Inl ZodError, s)
         else let (ok, s1) = under_limit env now source ''MFA_RESET_LINK'' s
              in if \<not> ok then (Inl (TRPCError TOO_MANY_REQUESTS ''Rate limit exceeded''), s1)
                 else if email = [] then (Inl (TRPCError BAD_REQUEST ''Email is required!''), s1)
                 else (case find_email email (mf_db s1) of
                     None \<Rightarrow> (Inr (), s1)
                   | Some u \<Rightarrow>
                       if me_mail env email then (Inr (), s1\<lparr>mf_mails := mf_mails s1 @ [(email, me_sign env now (u_id u) (u_email u))]\<rparr>)
                       else (Inl (TRPCError INTERNAL_SERVER_ERROR ''Failed to send reset email. Please try again later.''), s1)))"

abbreviation "mfa_refused \<equiv> TRPCError UNAUTHORIZED ''Something went wrong, please try again''"

text \<open>What the request checks before its transaction.\<close>

definition reset_check :: "mfa_env \<Rightarrow> int \<Rightarrow> string \<Rightarrow> string \<Rightarrow> string \<Rightarrow> string \<Rightarrow> mfa_state \<Rightarrow> exn + string" where
  "reset_check env now token email password recoveryCode s =
     (case me_verify env now token of
        JwtInvalid \<Rightarrow> Inl (TRPCError BAD_REQUEST ''Invalid or expired token'')
      | JwtMalformed \<Rightarrow> Inl mfa_refused
      | JwtClaims i claimed \<Rightarrow>
          if normalizeEmail claimed \<noteq> normalizeEmail email then Inl mfa_refused
          else (case find_user i (mf_db s) of
              None \<Rightarrow> Inl mfa_refused
            | Some u \<Rightarrow>
                if \<not> u_twoFactorEnabled u \<or> \<not> truthy (u_hash u) then Inl mfa_refused
                else if \<not> me_compare env password (the (u_hash u)) then Inl mfa_refused
                else if \<not> verifyRecoveryCode env recoveryCode (mf_codes s i) then Inl mfa_refused
                else Inr i))"

text \<open>The transaction reads the codes again, looks for the first that matches and takes it out.\<close>

fun first_match :: "(string \<Rightarrow> bool) \<Rightarrow> string list \<Rightarrow> nat option" where
  "first_match p [] = None"
| "first_match p (h # hs) = (if p h then Some 0 else map_option Suc (first_match p hs))"

definition splice_one :: "nat \<Rightarrow> 'a list \<Rightarrow> 'a list" where
  "splice_one i xs = take i xs @ drop (Suc i) xs"

definition recovery_plan :: "mfa_env \<Rightarrow> string \<Rightarrow> string \<Rightarrow> mfa_state \<Rightarrow> exn + (string list \<times> string list)" where
  "recovery_plan env recoveryCode i s =
     (case find_user i (mf_db s) of
        None \<Rightarrow> Inl mfa_refused
      | Some u \<Rightarrow>
          if \<not> u_twoFactorEnabled u then Inl mfa_refused
          else (case first_match (me_compare env recoveryCode) (mf_codes s i) of
              None \<Rightarrow> Inl mfa_refused
            | Some k \<Rightarrow> Inr (mf_codes s i, splice_one k (mf_codes s i))))"

text \<open>The conditional update: it matches only while the factor is enabled and the codes are the ones that were read.\<close>

definition recovery_commit :: "string \<Rightarrow> string list \<Rightarrow> string list \<Rightarrow> mfa_state \<Rightarrow> (exn + unit) \<times> mfa_state" where
  "recovery_commit i old new s =
     (if list_ex (\<lambda>u. u_id u = i \<and> u_twoFactorEnabled u) (users (mf_db s)) \<and> mf_codes s i = old
      then (Inr (), s\<lparr>mf_db := update_user i (\<lambda>u. u\<lparr>u_twoFactorEnabled := False, u_twoFactorSecret := None\<rparr>) (mf_db s),
              mf_codes := (mf_codes s)(i := new)\<rparr>)
      else (Inl mfa_refused, s))"

definition mfaResetValidation :: "mfa_env \<Rightarrow> int \<Rightarrow> string \<Rightarrow> string \<Rightarrow> string \<Rightarrow> string \<Rightarrow> string \<Rightarrow> mfa_state \<Rightarrow> (exn + unit) \<times> mfa_state" where
  "mfaResetValidation env now source token email password recoveryCode s =
     (let (ok, s1) = under_limit env now source ''MFA_RESET_VALIDATION'' s
      in if \<not> ok then (Inl (TRPCError TOO_MANY_REQUESTS ''Rate limit exceeded, please try again later''), s1)
         else sbind (reset_check env now token email password recoveryCode s1, s1) (\<lambda>i s2.
              sbind (recovery_plan env recoveryCode i s2, s2) (\<lambda>(old, new) s3.
              recovery_commit i old new s3)))"

text \<open>Every error of the last part is reported as an invalid token.\<close>

definition validateRecoveryToken :: "mfa_env \<Rightarrow> int \<Rightarrow> string \<Rightarrow> string \<Rightarrow> mfa_state \<Rightarrow> (exn + string) \<times> mfa_state" where
  "validateRecoveryToken env now source token s =
     (if token = [] then (Inl (TRPCError BAD_REQUEST ''invalid-token''), s)
      else let (ok, s1) = under_limit env now source ''MFA_VALIDATE_RECOVERY'' s
           in if \<not> ok then (Inl (TRPCError TOO_MANY_REQUESTS ''Rate limit exceeded''), s1)
              else (case me_verify env now token of
                  JwtClaims i email \<Rightarrow>
                    (case find_user i (mf_db s1) of
                       None \<Rightarrow> Inl (TRPCError BAD_REQUEST ''invalid-token'')
                     | Some u \<Rightarrow> if normalizeEmail (u_email u) = normalizeEmail email \<and> u_twoFactorEnabled u then Inr (u_email u)
                               else Inl (TRPCError BAD_REQUEST ''invalid-token''))
                | _ \<Rightarrow> Inl (TRPCError BAD_REQUEST ''invalid-token''), s1))"

section \<open>Requests and interleavings\<close>

datatype mfa_request =
    QSetup nat mfa_http
  | QEnable nat mfa_http
  | QDisable mfa_http
  | QValidate string string
  | QResetLink string string
  | QReset string string string string string
  | QRecovery string string

fun run_mfa :: "mfa_env \<Rightarrow> int \<Rightarrow> mfa_request \<Rightarrow> mfa_state \<Rightarrow> mfa_state" where
  "run_mfa env now (QSetup seed rq) s = snd (totp_setup env seed now rq s)"
| "run_mfa env now (QEnable seed rq) s = snd (totp_enable env seed now rq s)"
| "run_mfa env now (QDisable rq) s = snd (totp_disable env now rq s)"
| "run_mfa env now (QValidate source token) s = snd (mfaValidateToken env now source token s)"
| "run_mfa env now (QResetLink source email) s = snd (mfaResetLink env now source email s)"
| "run_mfa env now (QReset source token email password recoveryCode) s = snd (mfaResetValidation env now source token email password recoveryCode s)"
| "run_mfa env now (QRecovery source token) s = snd (validateRecoveryToken env now source token s)"

definition factor_on :: "string \<Rightarrow> mfa_state \<Rightarrow> bool" where
  "factor_on i s = (case find_user i (mf_db s) of None \<Rightarrow> False | Some u \<Rightarrow> u_twoFactorEnabled u)"

text \<open>The e-mail address of a session is the one stored with its user (the session is read from the database).\<close>

definition session_current :: "db \<Rightarrow> (session_user \<times> string) option \<Rightarrow> bool" where
  "session_current d ses = (case ses of None \<Rightarrow> True
     | Some (su, email) \<Rightarrow> (case find_user (s_userId su) d of None \<Rightarrow> True | Some u \<Rightarrow> u_email u = email))"

text \<open>A reset in progress has passed its checks, or has read the codes inside its transaction.\<close>

datatype pending_reset = Checked string string | Planned string string "string list" "string list"

record mfa_run =
  mr_state :: mfa_state
  mr_pending :: "pending_reset list"
  mr_enables :: "string list"
  mr_resets :: "(string \<times> string \<times> string list \<times> string list) list"

inductive mfa_step :: "mfa_env \<Rightarrow> mfa_run \<Rightarrow> mfa_run \<Rightarrow> bool" for env where
  reset_begins: "reset_check env now token email password recoveryCode (mr_state r) = Inr i \<Longrightarrow>
     mfa_step env r (r\<lparr>mr_pending := Checked i recoveryCode # mr_pending r\<rparr>)"
| reset_reads: "Checked i recoveryCode \<in> set (mr_pending r) \<Longrightarrow> recovery_plan env recoveryCode i (mr_state r) = Inr (old, new) \<Longrightarrow>
     mfa_step env r (r\<lparr>mr_pending := Planned i recoveryCode old new # remove1 (Checked i recoveryCode) (mr_pending r)\<rparr>)"
| reset_commits: "Planned i recoveryCode old new \<in> set (mr_pending r) \<Longrightarrow> recovery_commit i old new (mr_state r) = (Inr (), s') \<Longrightarrow>
     mfa_step env r (r\<lparr>mr_state := s', mr_pending := remove1 (Planned i recoveryCode old new) (mr_pending r),
       mr_resets := (i, recoveryCode, mf_codes (mr_state r) i, mf_codes s' i) # mr_resets r\<rparr>)"
| reset_fails: "p \<in> set (mr_pending r) \<Longrightarrow> mfa_step env r (r\<lparr>mr_pending := remove1 p (mr_pending r)\<rparr>)"
| enabling: "totp_enable env seed now rq (mr_state r) = (Enabled codes, s') \<Longrightarrow> signed_in ''Not authenticated'' now rq (mr_state r) = Inr u \<Longrightarrow>
     mfa_step env r (r\<lparr>mr_state := s', mr_enables := u_id u # mr_enables r\<rparr>)"
| setting_up: "totp_setup env seed now rq (mr_state r) = (reply, s') \<Longrightarrow> mfa_step env r (r\<lparr>mr_state := s'\<rparr>)"
| disabling: "totp_disable env now rq (mr_state r) = (reply, s') \<Longrightarrow> mfa_step env r (r\<lparr>mr_state := s'\<rparr>)"
| other_change: "(\<And>i. factor_on i s' \<Longrightarrow> factor_on i (mr_state r)) \<Longrightarrow> users_wf (mf_db s') \<Longrightarrow> mf_codes s' = mf_codes (mr_state r) \<Longrightarrow>
     mfa_step env r (r\<lparr>mr_state := s'\<rparr>)"

definition totp_proof :: "mfa_env \<Rightarrow> int \<Rightarrow> string \<Rightarrow> string \<Rightarrow> mfa_state \<Rightarrow> bool" where
  "totp_proof env now i totpCode s =
     (case find_user i (mf_db s) of None \<Rightarrow> False
      | Some u \<Rightarrow> (case Option.bind (u_twoFactorSecret u) (me_decrypt env) of None \<Rightarrow> False | Some secret \<Rightarrow> me_totp env now totpCode secret))"

definition recovery_proof :: "mfa_env \<Rightarrow> int \<Rightarrow> string \<Rightarrow> string \<Rightarrow> string \<Rightarrow> string \<Rightarrow> mfa_state \<Rightarrow> bool" where
  "recovery_proof env now i token password recoveryCode s \<longleftrightarrow>
     (case me_verify env now token of JwtClaims j _ \<Rightarrow> j = i | _ \<Rightarrow> False)
     \<and> (case find_user i (mf_db s) of None \<Rightarrow> False | Some u \<Rightarrow> truthy (u_hash u) \<and> me_compare env password (the (u_hash u)))
     \<and> verifyRecoveryCode env recoveryCode (mf_codes s i)"

section \<open>Accounts and sessions\<close>

lemma find_user_email_update:
  "(\<And>u. u_id (f u) = u_id u) \<Longrightarrow> find_user i (update_email e f d) = map_option (\<lambda>u. if u_email u = e then f u else u) (find_user i d)"
proof -
  assume f: "\<And>u. u_id (f u) = u_id u"
  have "find (\<lambda>u. u_id u = i) (map (\<lambda>u. if u_email u = e then f u else u) us)
      = map_option (\<lambda>u. if u_email u = e then f u else u) (find (\<lambda>u. u_id u = i) us)" for us
    using f by (induction us) auto
  then show ?thesis by (simp add: find_user_def update_email_def)
qed

lemma update_email_wf: "(\<And>u. u_id (f u) = u_id u \<and> u_email (f u) = u_email u) \<Longrightarrow> users_wf (update_email e f d) = users_wf d"
proof -
  assume f: "\<And>u. u_id (f u) = u_id u \<and> u_email (f u) = u_email u"
  have "map u_id (map (\<lambda>u. if u_email u = e then f u else u) us) = map u_id us"
    "map u_email (map (\<lambda>u. if u_email u = e then f u else u) us) = map u_email us" for us
    using f by (induction us) auto
  then show ?thesis unfolding users_wf_def update_email_def by (simp del: map_map)
qed

lemma update_user_wf: "(\<And>u. u_id (f u) = u_id u \<and> u_email (f u) = u_email u) \<Longrightarrow> users_wf (update_user i f d) = users_wf d"
proof -
  assume f: "\<And>u. u_id (f u) = u_id u \<and> u_email (f u) = u_email u"
  have "map u_id (map (\<lambda>u. if u_id u = i then f u else u) us) = map u_id us"
    "map u_email (map (\<lambda>u. if u_id u = i then f u else u) us) = map u_email us" for us
    using f by (induction us) auto
  then show ?thesis unfolding users_wf_def update_user_def by (simp del: map_map)
qed

lemma find_user_own: "users_wf d \<Longrightarrow> u \<in> set (users d) \<Longrightarrow> find_user (u_id u) d = Some u"
  using find_unique[of u_id "users d" u] by (simp add: users_wf_def find_user_def)

lemma same_email: "users_wf d \<Longrightarrow> u \<in> set (users d) \<Longrightarrow> v \<in> set (users d) \<Longrightarrow> u_email u = u_email v \<Longrightarrow> u = v"
  by (auto simp: users_wf_def distinct_map inj_on_def)

lemma signed_in_stored: "signed_in m now rq s = Inr u \<Longrightarrow> u \<in> set (users (mf_db s)) \<and> active_email now (mf_db s) (rq_session rq) = Some (u_email u)"
  by (auto simp: signed_in_def find_email_def of_option_Inr_iff split: if_split_asm option.split_asm dest: find_Some_mem)

lemma signed_in_user:
  assumes "signed_in m now rq s = Inr u" "users_wf (mf_db s)" "session_current (mf_db s) (rq_session rq)"
  shows "find_user (u_id u) (mf_db s) = Some u \<and> account_live now (mf_db s) u \<and> map_option (s_userId \<circ> fst) (rq_session rq) = Some (u_id u)"
proof -
  have u: "u \<in> set (users (mf_db s))" "active_email now (mf_db s) (rq_session rq) = Some (u_email u)" using signed_in_stored[OF assms(1)] by auto
  then obtain su v where v: "rq_session rq = Some (su, u_email u)" "find_user (s_userId su) (mf_db s) = Some v" "account_live now (mf_db s) v"
    using getActiveSession_iff[of now "mf_db s"] by (auto simp: active_email_def split: option.split_asm)
  have "u_email v = u_email u" using assms(3) v by (simp add: session_current_def)
  then have "v = u" using same_email[OF assms(2)] u(1) find_user_Some[OF v(2)] by blast
  then show ?thesis using v find_user_Some[OF v(2)] find_user_own[OF assms(2) u(1)] by simp
qed

lemma under_limit_keeps [simp]: "mf_db (snd (under_limit env now source t s)) = mf_db s" "mf_codes (snd (under_limit env now source t s)) = mf_codes s"
  by (simp_all add: under_limit_def split: prod.split)

section \<open>Turning the factor off\<close>

lemma factor_on_email: "factor_on i (s\<lparr>mf_db := update_email e (\<lambda>u. u\<lparr>u_twoFactorEnabled := b, u_twoFactorSecret := x\<rparr>) (mf_db s)\<rparr>)
    = (case find_user i (mf_db s) of None \<Rightarrow> False | Some u \<Rightarrow> if u_email u = e then b else u_twoFactorEnabled u)"
  by (simp add: factor_on_def find_user_email_update split: option.split)

lemma setup_keeps_on:
  assumes "users_wf (mf_db s)" "factor_on i s"
  shows "factor_on i (snd (totp_setup env seed now rq s))"
proof (cases "signed_in ''internal-server-error'' now rq s")
  case (Inr u)
  then have "u \<in> set (users (mf_db s))" using signed_in_stored by blast
  then have "v = u" if "find_user i (mf_db s) = Some v" "u_email v = u_email u" for v
    using that find_user_Some same_email[OF assms(1)] by blast
  then show ?thesis using assms(2) Inr
    by (auto simp: totp_setup_def Let_def factor_on_email) (auto simp: factor_on_def split: option.split_asm)
qed (use assms in \<open>simp add: totp_setup_def\<close>)

lemma enable_keeps_on: "factor_on i s \<Longrightarrow> factor_on i (snd (totp_enable env seed now rq s))"
  by (auto simp: totp_enable_def Let_def factor_on_def find_user_email_update split: sum.split option.split)

lemma disable_proof:
  assumes "users_wf (mf_db s)" "session_current (mf_db s) (rq_session rq)" "factor_on i s" "\<not> factor_on i (snd (totp_disable env now rq s))"
  shows "map_option (s_userId \<circ> fst) (rq_session rq) = Some i \<and> totp_proof env now i (text_field rq) s"
proof -
  obtain u where u: "signed_in ''Not authenticated'' now rq s = Inr u"
    using assms(3,4) by (cases "signed_in ''Not authenticated'' now rq s") (auto simp: totp_disable_def)
  note f = signed_in_user[OF u assms(1,2)]
  have "snd (totp_disable env now rq s) \<noteq> s" using assms(3,4) by auto
  then obtain secret where x: "truthy (u_twoFactorSecret u)" "me_decrypt env (the (u_twoFactorSecret u)) = Some secret" "me_totp env now (text_field rq) secret"
    and s: "snd (totp_disable env now rq s) = s\<lparr>mf_db := update_email (u_email u) (\<lambda>u. u\<lparr>u_twoFactorEnabled := False, u_twoFactorSecret := None\<rparr>) (mf_db s)\<rparr>"
    by (simp add: totp_disable_def u split: if_split_asm option.split_asm)
  obtain v where v: "find_user i (mf_db s) = Some v" "u_email v = u_email u" using assms(3,4) unfolding s factor_on_email
    by (auto simp: factor_on_def split: option.split_asm if_split_asm)
  then have "i = u_id u" using find_user_Some[OF v(1)] same_email[OF assms(1)] signed_in_stored[OF u] by blast
  then show ?thesis using f x by (cases "u_twoFactorSecret u") (auto simp: totp_proof_def)
qed

lemma reset_check_proof: "reset_check env now token email password recoveryCode s = Inr i \<Longrightarrow> recovery_proof env now i token password recoveryCode s"
  by (auto simp: reset_check_def recovery_proof_def split: jwt_result.split_asm if_split_asm option.split_asm)

lemma reset_proof:
  assumes "factor_on i s" "\<not> factor_on i (snd (mfaResetValidation env now source token email password recoveryCode s))"
  shows "recovery_proof env now i token password recoveryCode s"
proof -
  let ?s = "snd (under_limit env now source ''MFA_RESET_VALIDATION'' s)"
  have on: "factor_on i ?s" using assms(1) by (simp add: factor_on_def)
  obtain j old new where j: "reset_check env now token email password recoveryCode ?s = Inr j" "recovery_plan env recoveryCode j ?s = Inr (old, new)"
    "\<not> factor_on i (snd (recovery_commit j old new ?s))"
    using assms(2) on unfolding mfaResetValidation_def
    by (cases "reset_check env now token email password recoveryCode ?s"; cases "recovery_plan env recoveryCode (projr (reset_check env now token email password recoveryCode ?s)) ?s")
      (auto split: prod.split_asm if_split_asm)
  then have "j = i" using on by (auto simp: recovery_commit_def factor_on_def find_user_update split: if_split_asm option.split_asm)
  then show ?thesis using reset_check_proof[OF j(1)] by (simp add: recovery_proof_def)
qed

lemma limit_cases: "under_limit env now source t s = (ok, s1) \<Longrightarrow> mf_db s1 = mf_db s \<and> mf_codes s1 = mf_codes s"
  by (metis snd_conv under_limit_keeps)

lemma token_requests_keep:
  "mf_db (snd (mfaValidateToken env now source token s)) = mf_db s" "mf_db (snd (mfaResetLink env now source email s)) = mf_db s"
  "mf_db (snd (validateRecoveryToken env now source token s)) = mf_db s"
  by (auto simp: mfaValidateToken_def mfaResetLink_def validateRecoveryToken_def Let_def dest!: limit_cases split: jwt_result.split prod.split option.split)

text \<open>C13. The second factor of an account is turned off only by a proof: when a request turns it off, it is either the
  disable request of a session of this account with a one-time password for the stored secret, or a recovery request
  with a token signed for this account, its password and one of its recovery codes.\<close>

theorem factor_off_needs_proof:
  assumes "users_wf (mf_db s)" "factor_on i s" "\<not> factor_on i (run_mfa env now q s)"
    and "\<And>rq. q = QDisable rq \<Longrightarrow> session_current (mf_db s) (rq_session rq)"
  shows "(\<exists>rq. q = QDisable rq \<and> map_option (s_userId \<circ> fst) (rq_session rq) = Some i \<and> totp_proof env now i (text_field rq) s)
    \<or> (\<exists>source token email password recoveryCode. q = QReset source token email password recoveryCode \<and> recovery_proof env now i token password recoveryCode s)"
proof (cases q)
  case (QDisable rq)
  then show ?thesis using disable_proof[OF assms(1) assms(4)[OF QDisable] assms(2)] assms(3) by auto
next
  case (QReset source token email password recoveryCode)
  then show ?thesis using reset_proof[OF assms(2)] assms(3) by auto
qed (use setup_keeps_on[OF assms(1,2)] enable_keeps_on[OF assms(2)] assms(2,3) in \<open>auto simp: factor_on_def token_requests_keep\<close>)

definition count_of :: "'a \<Rightarrow> 'a list \<Rightarrow> nat" where
  "count_of x xs = length (filter (\<lambda>y. y = x) xs)"

text \<open>One stored code that matches the presented one, and no other, has been taken out.\<close>

definition takes_code :: "mfa_env \<Rightarrow> string \<Rightarrow> string list \<Rightarrow> string list \<Rightarrow> bool" where
  "takes_code env recoveryCode old new \<longleftrightarrow> (\<exists>xs h ys. old = xs @ h # ys \<and> new = xs @ ys \<and> me_compare env recoveryCode h)"

fun pending_ok :: "mfa_env \<Rightarrow> pending_reset \<Rightarrow> bool" where
  "pending_ok env (Checked i recoveryCode) = True"
| "pending_ok env (Planned i recoveryCode old new) \<longleftrightarrow> takes_code env recoveryCode old new"

definition resets_inv :: "mfa_env \<Rightarrow> mfa_state \<Rightarrow> mfa_run \<Rightarrow> bool" where
  "resets_inv env s0 r \<longleftrightarrow> users_wf (mf_db (mr_state r)) \<and> list_all (pending_ok env) (mr_pending r)
     \<and> list_all (\<lambda>(i, recoveryCode, old, new). takes_code env recoveryCode old new) (mr_resets r)
     \<and> (\<forall>i. count_of i (map fst (mr_resets r)) + of_bool (factor_on i (mr_state r)) \<le> count_of i (mr_enables r) + of_bool (factor_on i s0))"

section \<open>Interleaved resets\<close>

lemma first_match_splits:
  "first_match p hs = Some k \<Longrightarrow> \<exists>xs h ys. hs = xs @ h # ys \<and> splice_one k hs = xs @ ys \<and> p h"
proof (induction hs arbitrary: k)
  case (Cons a hs)
  show ?case
  proof (cases "p a")
    case True
    then show ?thesis using Cons.prems by (intro exI[of _ "[]"] exI[of _ a] exI[of _ hs]) (simp add: splice_one_def)
  next
    case False
    then obtain n where n: "first_match p hs = Some n" "k = Suc n" using Cons.prems by auto
    then obtain xs h ys where "hs = xs @ h # ys" "splice_one n hs = xs @ ys" "p h" using Cons.IH by blast
    then show ?thesis using n(2) by (intro exI[of _ "a # xs"] exI[of _ h] exI[of _ ys]) (simp add: splice_one_def)
  qed
qed simp

lemma plan_takes: "recovery_plan env recoveryCode i s = Inr (old, new) \<Longrightarrow> takes_code env recoveryCode old new"
  using first_match_splits by (fastforce simp: recovery_plan_def takes_code_def split: option.split_asm if_split_asm)

lemma list_all_remove1: "list_all p xs \<Longrightarrow> list_all p (remove1 x xs)"
  by (meson list_all_iff notin_set_remove1 subset_code(1) set_remove1_subset)

lemma resets_invI:
  assumes "resets_inv env s0 r" "users_wf (mf_db s')" "list_all (pending_ok env) ps"
    and "\<And>i. factor_on i s' \<Longrightarrow> factor_on i (mr_state r)"
  shows "resets_inv env s0 (r\<lparr>mr_state := s', mr_pending := ps\<rparr>)"
proof -
  have "count_of i (map fst (mr_resets r)) + of_bool (factor_on i s') \<le> count_of i (mr_enables r) + of_bool (factor_on i s0)" for i
  proof -
    have "count_of i (map fst (mr_resets r)) + of_bool (factor_on i (mr_state r)) \<le> count_of i (mr_enables r) + of_bool (factor_on i s0)"
      using assms(1) by (simp add: resets_inv_def)
    moreover have "of_bool (factor_on i s') \<le> (of_bool (factor_on i (mr_state r)) :: nat)" using assms(4) by auto
    ultimately show ?thesis by linarith
  qed
  then show ?thesis using assms(1-3) by (simp add: resets_inv_def)
qed

lemma commit_turns_off:
  assumes "users_wf (mf_db s)" "recovery_commit i old new s = (Inr (), s')"
  shows "factor_on i s \<and> \<not> factor_on i s' \<and> (\<forall>j. j \<noteq> i \<longrightarrow> factor_on j s' = factor_on j s) \<and> mf_codes s i = old \<and> mf_codes s' i = new \<and> users_wf (mf_db s')"
proof -
  obtain u where u: "u \<in> set (users (mf_db s))" "u_id u = i" "u_twoFactorEnabled u" "mf_codes s i = old"
    and s': "s' = s\<lparr>mf_db := update_user i (\<lambda>u. u\<lparr>u_twoFactorEnabled := False, u_twoFactorSecret := None\<rparr>) (mf_db s), mf_codes := (mf_codes s)(i := new)\<rparr>"
    using assms(2) by (auto simp: recovery_commit_def list_ex_iff split: if_split_asm)
  then have "find_user i (mf_db s) = Some u" using find_user_own[OF assms(1)] by blast
  then show ?thesis using u assms(1) unfolding s' by (auto simp: factor_on_def find_user_update update_user_wf split: option.split)
qed

lemma enable_turns_on:
  assumes "users_wf (mf_db s)" "totp_enable env seed now rq s = (Enabled codes, s')" "signed_in ''Not authenticated'' now rq s = Inr u"
  shows "\<not> factor_on (u_id u) s \<and> (\<forall>j. j \<noteq> u_id u \<longrightarrow> factor_on j s' = factor_on j s) \<and> users_wf (mf_db s')"
proof -
  have u: "u \<in> set (users (mf_db s))" using signed_in_stored[OF assms(3)] by blast
  have e: "\<not> u_twoFactorEnabled u" "mf_db s' = update_email (u_email u) (\<lambda>u. u\<lparr>u_twoFactorEnabled := True\<rparr>) (mf_db s)"
    using assms(2,3) by (auto simp: totp_enable_def Let_def split: if_split_asm option.split_asm)
  have "factor_on j s' = factor_on j s" if "j \<noteq> u_id u" for j
  proof (cases "find_user j (mf_db s)")
    case (Some v)
    then have "u_email v \<noteq> u_email u" using find_user_Some[OF Some] same_email[OF assms(1) u] that by metis
    then show ?thesis using Some by (simp add: factor_on_def e(2) find_user_email_update)
  qed (simp add: factor_on_def e(2) find_user_email_update)
  then show ?thesis using e find_user_own[OF assms(1) u] assms(1) by (auto simp: factor_on_def update_email_wf)
qed

lemma endpoints_only_off:
  assumes "users_wf (mf_db s)"
  shows "users_wf (mf_db (snd (totp_setup env seed now rq s))) \<and> (factor_on i (snd (totp_setup env seed now rq s)) \<longrightarrow> factor_on i s)"
    "users_wf (mf_db (snd (totp_disable env now rq s))) \<and> (factor_on i (snd (totp_disable env now rq s)) \<longrightarrow> factor_on i s)"
  using assms by (auto simp: totp_setup_def totp_disable_def Let_def update_email_wf factor_on_email split: sum.split option.split)
    (auto simp: factor_on_def split: option.split_asm if_split_asm)

interpretation recovery: step_invariant "mfa_step env" "resets_inv env s0" for env s0
proof
  fix r r'
  assume inv: "resets_inv env s0 r" and "mfa_step env r r'"
  from inv have wf: "users_wf (mf_db (mr_state r))" and ps: "list_all (pending_ok env) (mr_pending r)" by (simp_all add: resets_inv_def)
  show "resets_inv env s0 r'" using \<open>mfa_step env r r'\<close>
  proof cases
    case (reset_commits i recoveryCode old new s')
    note c = commit_turns_off[OF wf reset_commits(3)]
    have "takes_code env recoveryCode old new" using ps reset_commits(2) by (auto simp: list_all_iff)
    moreover have "count_of j (i # map fst (mr_resets r)) + of_bool (factor_on j s') \<le> count_of j (mr_enables r) + of_bool (factor_on j s0)" for j
      using inv c by (cases "j = i") (auto simp: resets_inv_def count_of_def dest!: spec[of _ j])
    ultimately show ?thesis unfolding reset_commits(1) using inv c list_all_remove1[OF ps] by (simp add: resets_inv_def)
  next
    case (enabling seed now rq codes s' u)
    note e = enable_turns_on[OF wf enabling(2,3)]
    have "count_of j (map fst (mr_resets r)) + of_bool (factor_on j s') \<le> count_of j (u_id u # mr_enables r) + of_bool (factor_on j s0)" for j
      using inv e by (cases "j = u_id u") (auto simp: resets_inv_def count_of_def dest!: spec[of _ j])
    then show ?thesis unfolding enabling(1) using inv e by (simp add: resets_inv_def)
  next
    case (setting_up seed now rq reply s')
    then have "snd (totp_setup env seed now rq (mr_state r)) = s'" by simp
    then show ?thesis unfolding setting_up(1) using resets_invI[OF inv _ ps, of s'] endpoints_only_off(1)[OF wf, of env seed now rq] by auto
  next
    case (disabling now rq reply s')
    then have "snd (totp_disable env now rq (mr_state r)) = s'" by simp
    then show ?thesis unfolding disabling(1) using resets_invI[OF inv _ ps, of s'] endpoints_only_off(2)[OF wf, of env now rq] by auto
  next
    case (other_change s')
    then show ?thesis using resets_invI[OF inv _ ps, of s'] by auto
  qed (use inv plan_takes in \<open>auto simp: resets_inv_def list_all_remove1\<close>)
qed

text \<open>C22. A recovery code works once: however resets, set-ups, enabling, disabling and other changes interleave, an account is
  reset at most once per time its factor was enabled, and every reset that succeeded changed the stored codes of
  its account by taking out exactly one code, one that matches the code it presented.\<close>

theorem recovery_resets_bounded:
  assumes "(mfa_step env)\<^sup>*\<^sup>* \<lparr>mr_state = s0, mr_pending = [], mr_enables = [], mr_resets = []\<rparr> r" "users_wf (mf_db s0)"
  shows "count_of i (map fst (mr_resets r)) \<le> count_of i (mr_enables r) + of_bool (factor_on i s0)
    \<and> list_all (\<lambda>(_, recoveryCode, old, new). takes_code env recoveryCode old new) (mr_resets r)"
proof -
  have "resets_inv env s0 \<lparr>mr_state = s0, mr_pending = [], mr_enables = [], mr_resets = []\<rparr>" using assms(2) by (simp add: resets_inv_def count_of_def)
  from recovery.run_keeps[OF assms(1) this] show ?thesis by (auto simp: resets_inv_def dest!: spec[of _ i])
qed

section \<open>From set-up to sign-in\<close>

text \<open>Setting up leads to a working factor: after the password and a first one-time password were accepted, the account is
  protected, signing in takes a one-time password for exactly the secret that was shown, and each of the six recovery
  codes that were shown is accepted.\<close>

lemma enabled_user:
  assumes "totp_enable env seed now rq s = (Enabled codes, s')" "map_option snd (rq_session rq) = Some e"
  shows "\<exists>v secret. v \<in> set (users (mf_db s)) \<and> u_email v = e \<and> me_decrypt env (the (u_twoFactorSecret v)) = Some secret \<and> length secret = 32
    \<and> truthy (u_twoFactorSecret v) \<and> truthy (NEXTAUTH_SECRET (me_auth env)) \<and> codes = generateRecoveryCodes env seed
    \<and> s' = s\<lparr>mf_db := update_email e (\<lambda>u. u\<lparr>u_twoFactorEnabled := True\<rparr>) (mf_db s), mf_codes := (mf_codes s)(u_id v := map (me_hash env seed) codes)\<rparr>"
proof -
  obtain v where v: "signed_in ''Not authenticated'' now rq s = Inr v"
    using assms(1) by (cases "signed_in ''Not authenticated'' now rq s") (auto simp: totp_enable_def signed_in_def of_option_Inl_iff split: if_split_asm option.split_asm)
  have "u_email v = e" using signed_in_stored[OF v] assms(2) by (auto simp: active_email_def split: option.split_asm)
  then show ?thesis using assms(1) v signed_in_stored[OF v] by (auto simp: totp_enable_def Let_def split: if_split_asm option.split_asm intro!: bexI[of _ v] exI[of _ v])
qed

lemma set_up_user:
  assumes "totp_setup env seed now rq s = (SetUp secret uri, s1)" "map_option snd (rq_session rq) = Some e"
  shows "secret = me_secret env seed
    \<and> s1 = s\<lparr>mf_db := update_email e (\<lambda>u. u\<lparr>u_twoFactorEnabled := False, u_twoFactorSecret := Some (me_encrypt env seed secret)\<rparr>) (mf_db s)\<rparr>"
proof -
  obtain v where v: "signed_in ''internal-server-error'' now rq s = Inr v"
    using assms(1) by (cases "signed_in ''internal-server-error'' now rq s") (auto simp: totp_setup_def signed_in_def of_option_Inl_iff split: if_split_asm option.split_asm)
  have "u_email v = e" using signed_in_stored[OF v] assms(2) by (auto simp: active_email_def split: option.split_asm)
  then show ?thesis using assms(1) v by (auto simp: totp_setup_def Let_def split: if_split_asm)
qed

text \<open>C25. A factor that was set up and enabled guards the sign-in: afterwards the account has six recovery codes that all work,
  and the second factor step of the sign-in passes exactly with a one-time password for the secret that the set-up showed.\<close>

theorem enabled_factor_guards_sign_in:
  assumes "totp_setup env seed now rq s = (SetUp secret uri, s1)" "totp_enable env seed' now' rq' s1 = (Enabled codes, s2)"
    and "rq_session rq' = rq_session rq" "users_wf (mf_db s)" "find_user i (mf_db s2) = Some u" "map_option snd (rq_session rq) = Some (u_email u)"
    and "\<And>k x. me_decrypt env (me_encrypt env k x) = Some x" "\<And>k x. me_compare env x (me_hash env k x)"
  shows "u_twoFactorEnabled u \<and> length codes = 6 \<and> list_all (\<lambda>c. verifyRecoveryCode env c (mf_codes s2 i)) codes
    \<and> (is_ok (fst (second_factor (me_decrypt env) (me_totp env t) (me_auth env) t totpCode u d)) \<longleftrightarrow> truthy totpCode \<and> me_totp env t (the totpCode) secret)"
proof -
  let ?f = "\<lambda>u. u\<lparr>u_twoFactorEnabled := False, u_twoFactorSecret := Some (me_encrypt env seed secret)\<rparr>"
  have s1: "s1 = s\<lparr>mf_db := update_email (u_email u) ?f (mf_db s)\<rparr>" using set_up_user[OF assms(1,6)] by blast
  then have wf: "users_wf (mf_db s1)" using assms(4) by (simp add: update_email_wf)
  obtain v x where v: "v \<in> set (users (mf_db s1))" "u_email v = u_email u" "me_decrypt env (the (u_twoFactorSecret v)) = Some x" "length x = 32"
      "truthy (u_twoFactorSecret v)" "truthy (NEXTAUTH_SECRET (me_auth env))" "codes = generateRecoveryCodes env seed'"
    and s2: "s2 = s1\<lparr>mf_db := update_email (u_email u) (\<lambda>u. u\<lparr>u_twoFactorEnabled := True\<rparr>) (mf_db s1), mf_codes := (mf_codes s1)(u_id v := map (me_hash env seed') codes)\<rparr>"
    using enabled_user[OF assms(2), of "u_email u"] assms(3,6) by auto
  obtain w where w: "find_user i (mf_db s1) = Some w" "u = (if u_email w = u_email u then w\<lparr>u_twoFactorEnabled := True\<rparr> else w)"
    using assms(5) by (auto simp: s2 find_user_email_update)
  then have e: "u_email w = u_email u" by (auto split: if_split_asm)
  then have "w = v" using same_email[OF wf _ v(1)] find_user_Some[OF w(1)] v(2) by auto
  obtain w0 where w0: "find_user i (mf_db s) = Some w0" "w = (if u_email w0 = u_email u then ?f w0 else w0)" using w(1) by (auto simp: s1 find_user_email_update)
  then have sec: "u_twoFactorSecret w = Some (me_encrypt env seed secret)" using e by (auto split: if_split_asm)
  have u: "u = w\<lparr>u_twoFactorEnabled := True\<rparr>" using w(2) e by simp
  have i: "u_id v = i" using find_user_Some[OF w(1)] \<open>w = v\<close> by simp
  have "x = secret" using v(3) sec \<open>w = v\<close> assms(7) by simp
  have "list_all (\<lambda>c. verifyRecoveryCode env c (mf_codes s2 i)) codes"
    using assms(8) by (auto simp: s2 i verifyRecoveryCode_def list_all_iff list_ex_iff)
  moreover have "length codes = 6" by (simp add: v(7) generateRecoveryCodes_def)
  ultimately show ?thesis using v(4-6) sec \<open>w = v\<close> assms(7) \<open>x = secret\<close> by (simp add: u second_factor_def)
qed

definition mfa_demo_env :: mfa_env where
  "mfa_demo_env = \<lparr>me_auth = \<lparr>ZTPLANET_LOGIN_ATTEMPTS = None, ZTPLANET_LOGIN_LOCKOUT_SECONDS = None, ZTPLANET_TRUSTED_PROXIES = None, NEXTAUTH_URL = None,
       NEXTAUTH_SECRET = Some ''s'', NEXTAUTH_SESSION_MAX_AGE = None, OAUTH_EXCLUSIVE_LOGIN = None, OAUTH_ALLOW_NEW_USERS = None, OAUTH_SCOPE = None\<rparr>,
     me_compare = (\<lambda>x h. h = CHR ''h'' # x), me_hash = (\<lambda>_ x. CHR ''h'' # x), me_encrypt = (\<lambda>_ x. CHR ''e'' # x),
     me_decrypt = (\<lambda>x. case x of [] \<Rightarrow> None | c # y \<Rightarrow> Some y), me_totp = (\<lambda>_ c _. c = ''123456''), me_secret = (\<lambda>_. replicate 32 CHR ''k''),
     me_randomHex = (\<lambda>_ i. replicate i CHR ''c''), me_keyuri = (\<lambda>_ _ _. []), me_encodeURI = id, me_sign = (\<lambda>_ _ _. ''t''),
     me_verify = (\<lambda>_ t. if t = ''t'' then JwtClaims ''u1'' ''e'' else JwtInvalid), me_validEmail = (\<lambda>_. True), me_mail = (\<lambda>_. True),
     RATE_LIMIT_WINDOW = None, RATE_LIMIT_MAX_REQUESTS_SHORT = None\<rparr>"

definition mfa_demo_user :: user_row where
  "mfa_demo_user = \<lparr>u_id = ''u1'', u_name = ''n'', u_email = ''e'', u_role = USER, u_hash = Some ''hpw'', u_firstTime = False,
       u_twoFactorEnabled = False, u_twoFactorSecret = None, u_failedLoginAttempts = 0, u_lastFailedLoginAttempt = None,
       u_requestChangePassword = False, u_userGroupId = None, u_expiresAt = None, u_isActive = True, u_lastLogin = 0\<rparr>"

definition mfa_demo_db :: db where
  "mfa_demo_db = \<lparr>users = [mfa_demo_user], groups = [], accounts = [], devices = [], networks = [], org_roles = [], api_tokens = [], enableRegistration = None\<rparr>"

definition mfa_off :: mfa_state where
  "mfa_off = \<lparr>mf_db = mfa_demo_db, mf_codes = (\<lambda>_. []), mf_cache = Map.empty, mf_mails = []\<rparr>"

definition mfa_demo_rq :: "string \<Rightarrow> mfa_http" where
  "mfa_demo_rq t = \<lparr>rq_method = ''POST'', rq_session = Some (\<lparr>s_userId = ''u1'', s_role = USER\<rparr>, ''e''), rq_field = Some t\<rparr>"

definition mfa_on :: mfa_state where
  "mfa_on = snd (totp_enable mfa_demo_env 0 0 (mfa_demo_rq ''123456'') (snd (totp_setup mfa_demo_env 0 0 (mfa_demo_rq ''pw'') mfa_off)))"

section \<open>An account with a factor\<close>

theorem factor_off_needs_proof_witness: "recovery_proof mfa_demo_env 0 ''u1'' ''t'' ''pw'' ''cc'' mfa_on"
proof -
  let ?q = "QReset ''ip'' ''t'' ''e'' ''pw'' ''cc''"
  have "users_wf (mf_db mfa_on)" "factor_on ''u1'' mfa_on" "\<not> factor_on ''u1'' (run_mfa mfa_demo_env 0 ?q mfa_on)" by code_simp+
  from factor_off_needs_proof[OF this] show ?thesis by auto
qed

theorem recovery_resets_bounded_witness:
  "\<exists>r. (mfa_step mfa_demo_env)\<^sup>*\<^sup>* \<lparr>mr_state = mfa_on, mr_pending = [], mr_enables = [], mr_resets = []\<rparr> r
    \<and> count_of ''u1'' (map fst (mr_resets r)) = 1 \<and> count_of ''u1'' (map fst (mr_resets r)) \<le> count_of ''u1'' (mr_enables r) + of_bool (factor_on ''u1'' mfa_on)"
proof -
  let ?r0 = "\<lparr>mr_state = mfa_on, mr_pending = [], mr_enables = [], mr_resets = []\<rparr>"
  have c: "reset_check mfa_demo_env 0 ''t'' ''e'' ''pw'' ''cc'' (mr_state ?r0) = Inr ''u1''" by code_simp
  have wf: "users_wf (mf_db mfa_on)" by code_simp
  have "is_ok (recovery_plan mfa_demo_env ''cc'' ''u1'' mfa_on)"
    "list_ex (\<lambda>u. u_id u = ''u1'' \<and> u_twoFactorEnabled u) (users (mf_db mfa_on))" by code_simp+
  then obtain old new where p: "recovery_plan mfa_demo_env ''cc'' ''u1'' mfa_on = Inr (old, new)" and on: "list_ex (\<lambda>u. u_id u = ''u1'' \<and> u_twoFactorEnabled u) (users (mf_db mfa_on))"
    by (auto simp: is_ok_iff)
  then have "old = mf_codes mfa_on ''u1''" by (auto simp: recovery_plan_def split: option.split_asm if_split_asm)
  with on obtain s' where s': "recovery_commit ''u1'' old new mfa_on = (Inr (), s')" by (auto simp: recovery_commit_def)
  let ?r1 = "?r0\<lparr>mr_pending := [Checked ''u1'' ''cc'']\<rparr>" and ?r2 = "?r0\<lparr>mr_pending := [Planned ''u1'' ''cc'' old new]\<rparr>"
  let ?r3 = "?r0\<lparr>mr_state := s', mr_resets := [(''u1'', ''cc'', mf_codes mfa_on ''u1'', mf_codes s' ''u1'')]\<rparr>"
  have "mfa_step mfa_demo_env ?r0 ?r1" using mfa_step.reset_begins[OF c] by simp
  moreover have "mfa_step mfa_demo_env ?r1 ?r2" using mfa_step.reset_reads[of "''u1''" "''cc''" ?r1 mfa_demo_env old new] p by simp
  moreover have "mfa_step mfa_demo_env ?r2 ?r3" using mfa_step.reset_commits[of "''u1''" "''cc''" old new ?r2 s' mfa_demo_env] s' by simp
  ultimately have "(mfa_step mfa_demo_env)\<^sup>*\<^sup>* ?r0 ?r3" by (meson converse_rtranclp_into_rtranclp rtranclp.rtrancl_refl)
  from this recovery_resets_bounded[OF this wf, of "''u1''"] show ?thesis by (intro exI[of _ ?r3]) (auto simp: count_of_def)
qed

theorem enabled_factor_guards_sign_in_witness:
  "is_ok (fst (second_factor (me_decrypt mfa_demo_env) (me_totp mfa_demo_env 5) (me_auth mfa_demo_env) 5 (Some ''123456'')
      (mfa_demo_user\<lparr>u_twoFactorEnabled := True, u_twoFactorSecret := Some (CHR ''e'' # replicate 32 CHR ''k'')\<rparr>) mfa_demo_db))"
proof -
  let ?s1 = "snd (totp_setup mfa_demo_env 0 0 (mfa_demo_rq ''pw'') mfa_off)"
  let ?u = "mfa_demo_user\<lparr>u_twoFactorEnabled := True, u_twoFactorSecret := Some (CHR ''e'' # replicate 32 CHR ''k'')\<rparr>"
  have "case fst (totp_setup mfa_demo_env 0 0 (mfa_demo_rq ''pw'') mfa_off) of SetUp k _ \<Rightarrow> True | _ \<Rightarrow> False"
    "case fst (totp_enable mfa_demo_env 0 0 (mfa_demo_rq ''123456'') ?s1) of Enabled _ \<Rightarrow> True | _ \<Rightarrow> False" by code_simp+
  then obtain k uri codes where a: "totp_setup mfa_demo_env 0 0 (mfa_demo_rq ''pw'') mfa_off = (SetUp k uri, ?s1)"
    "totp_enable mfa_demo_env 0 0 (mfa_demo_rq ''123456'') ?s1 = (Enabled codes, mfa_on)"
    by (auto simp: prod_eq_iff mfa_on_def split: api_reply.split_asm)
  have b: "users_wf (mf_db mfa_off)" "find_user ''u1'' (mf_db mfa_on) = Some ?u" by code_simp+
  show ?thesis using enabled_factor_guards_sign_in[OF a, of "''u1''" ?u 5 "Some ''123456''" mfa_demo_db] b
    by (simp add: mfa_demo_rq_def mfa_demo_user_def) (simp add: mfa_demo_env_def)
qed

end
