(* ===== verification/Controller_Client.thy ===== *)
theory Controller_Client
  imports Member_Procedures
begin

text \<open>
  The client of the controllers (\<^verbatim>\<open>utils/ztApi.ts\<close>) and the settings it reads (\<^verbatim>\<open>setZtApi\<close>, \<^verbatim>\<open>setLocalZt\<close> of
  \<^verbatim>\<open>server/api/routers/authRouter.ts\<close>).

  The state holds the API options of the users, the credentials cache (a JavaScript \<^verbatim>\<open>Map\<close>, in insertion order) and the
  HTTP requests sent so far. The environment holds the variables of the process, the contents of the secret file, and
  the answers of the servers, which may depend on how many requests went before. JavaScript values are those of JSON
  with \<^verbatim>\<open>undefined\<close>; numbers in them are integers. When several requests of a batch fail, the error of the first of them
  is reported.
\<close>

section \<open>Data\<close>

datatype js_value = JUndefined | JNull | JBool bool | JInt int | JText string | JArr "js_value list" | JObj "(string \<times> js_value) list"

record credentials =
  cr_ztCentralApiKey :: "string option"
  cr_ztCentralApiUrl :: "string option"
  cr_localControllerSecret :: "string option"
  cr_localControllerUrl :: "string option"

definition no_credentials :: credentials where
  "no_credentials = \<lparr>cr_ztCentralApiKey = None, cr_ztCentralApiUrl = None, cr_localControllerSecret = None, cr_localControllerUrl = None\<rparr>"

datatype auth_header = Authorization string | X_ZT1_Auth "string option"

datatype http_method = GET | POST | DELETE

record http_rq =
  hq_method :: http_method
  hq_addr :: string
  hq_header :: auth_header
  hq_payload :: "js_value option"

datatype http_rs = Answer js_value | FailedWith int | NoAnswer

record client_env =
  cv_ZT_ADDR :: "string option"
  cv_ZT_SECRET :: "string option"
  cv_IS_GITHUB_ACTION :: "string option"
  cv_secretFile :: "string option"
  cv_docker :: bool
  cv_http :: "nat \<Rightarrow> http_rq \<Rightarrow> http_rs"
  cv_snapshot :: "js_value \<Rightarrow> status_snapshot"

record client_state =
  cl_options :: "(string \<times> credentials) list"
  cl_cache :: "(string \<times> credentials \<times> int) list"
  cl_sent :: "http_rq list"

text \<open>An error with its class name, its message and the status that axios reported.\<close>

record client_error =
  ce_name :: string
  ce_message :: string
  ce_status :: "int option"

type_synonym 'a client = "client_state \<Rightarrow> (client_error + 'a) \<times> client_state"

section \<open>Credentials\<close>

definition ZT_SECRET :: "client_env \<Rightarrow> string option" where
  "ZT_SECRET env = (if truthy (cv_ZT_SECRET env) then cv_ZT_SECRET env
     else if cv_IS_GITHUB_ACTION env = Some ''true'' then Some ''dummy_text_to_skip_gh'' else cv_secretFile env)"

definition CENTRAL_ZT_ADDR :: string where
  "CENTRAL_ZT_ADDR = ''https://api.zerotier.com/api/v1''"

definition CACHE_TTL :: int where
  "CACHE_TTL = 60000"

definition clearApiCredentialsCache :: "string option \<Rightarrow> client_state \<Rightarrow> client_state" where
  "clearApiCredentialsCache userId s =
     s\<lparr>cl_cache := (if truthy userId then filter (\<lambda>(u, _). u \<noteq> the userId) (cl_cache s) else [])\<rparr>"

definition stored_credentials :: "string \<Rightarrow> client_state \<Rightarrow> credentials" where
  "stored_credentials userId s = (case map_of (cl_options s) userId of None \<Rightarrow> no_credentials | Some c \<Rightarrow> c)"

definition cached_credentials :: "int \<Rightarrow> string \<Rightarrow> client_state \<Rightarrow> credentials option" where
  "cached_credentials now userId s =
     (case map_of (cl_cache s) userId of None \<Rightarrow> None | Some (c, t) \<Rightarrow> if now - t < CACHE_TTL then Some c else None)"

fun map_set :: "'k \<Rightarrow> 'v \<Rightarrow> ('k \<times> 'v) list \<Rightarrow> ('k \<times> 'v) list" where
  "map_set k v [] = [(k, v)]"
| "map_set k v ((k', v') # m) = (if k' = k then (k, v) # m else (k', v') # map_set k v m)"

text \<open>Storing an entry; a map of more than a hundred entries loses its old ones.\<close>

definition store_credentials :: "int \<Rightarrow> string \<Rightarrow> credentials \<Rightarrow> client_state \<Rightarrow> client_state" where
  "store_credentials now userId c s =
     (let m = map_set userId (c, now) (cl_cache s)
      in s\<lparr>cl_cache := (if length m > 100 then filter (\<lambda>(_, _, t). \<not> now - t > CACHE_TTL) m else m)\<rparr>)"

definition getApiCredentials :: "int \<Rightarrow> string \<Rightarrow> credentials client" where
  "getApiCredentials now userId s =
     (case cached_credentials now userId s of
        Some c \<Rightarrow> (Inr c, s)
      | None \<Rightarrow> let c = stored_credentials userId s in (Inr c, store_credentials now userId c s))"

text \<open>An absent value in a template is printed as \<^verbatim>\<open>null\<close>.\<close>

definition null_text :: "string option \<Rightarrow> string" where
  "null_text v = (case v of None \<Rightarrow> ''null'' | Some t \<Rightarrow> t)"

definition local_base :: "client_env \<Rightarrow> string option \<Rightarrow> string" where
  "local_base env url = null_text (if truthy (cv_ZT_ADDR env) then cv_ZT_ADDR env else url)"

definition options_of :: "client_env \<Rightarrow> bool \<Rightarrow> credentials \<Rightarrow> string \<times> auth_header" where
  "options_of env isCentral c =
     (if isCentral then (str_or (cr_ztCentralApiUrl c) CENTRAL_ZT_ADDR, Authorization (''token '' @ null_text (cr_ztCentralApiKey c)))
      else (local_base env (cr_localControllerUrl c), X_ZT1_Auth (if truthy (cr_localControllerSecret c) then cr_localControllerSecret c else ZT_SECRET env)))"

definition getOptions :: "client_env \<Rightarrow> int \<Rightarrow> string \<Rightarrow> bool \<Rightarrow> (string \<times> auth_header) client" where
  "getOptions env now userId isCentral s = sbind (getApiCredentials now userId s) (\<lambda>c s1. (Inr (options_of env isCentral c), s1))"

section \<open>Objects of ZeroTier Central\<close>

definition js_spread :: "(string \<times> js_value) list \<Rightarrow> (string \<times> js_value) list \<Rightarrow> (string \<times> js_value) list" where
  "js_spread a b = foldl (\<lambda>m (k, v). map_set k v m) a b"

fun fields_of :: "js_value \<Rightarrow> (string \<times> js_value) list" where
  "fields_of (JObj fs) = fs"
| "fields_of _ = []"

definition js_field :: "string \<Rightarrow> js_value \<Rightarrow> js_value" where
  "js_field k v = (case map_of (fields_of v) k of None \<Rightarrow> JUndefined | Some x \<Rightarrow> x)"

definition other_props :: "js_value \<Rightarrow> (string \<times> js_value) list" where
  "other_props v = filter (\<lambda>(k, _). k \<noteq> ''id'' \<and> k \<noteq> ''config'') (fields_of v)"

definition flattenCentralMember :: "js_value \<Rightarrow> js_value" where
  "flattenCentralMember m = JObj (js_spread (js_spread [(''nodeId'', js_field ''id'' m)] (fields_of (js_field ''config'' m))) (other_props m))"

definition flattenCentralMembers :: "js_value list \<Rightarrow> js_value list" where
  "flattenCentralMembers ms = map flattenCentralMember ms"

definition flattenNetwork :: "js_value \<Rightarrow> js_value" where
  "flattenNetwork n = JObj (js_spread (js_spread [(''nwid'', js_field ''id'' n)] (fields_of (js_field ''config'' n))) (other_props n))"

definition flattenNetworks :: "js_value list \<Rightarrow> js_value list" where
  "flattenNetworks ns = map flattenNetwork ns"

section \<open>Requests\<close>

definition api_error :: "string \<Rightarrow> int option \<Rightarrow> client_error" where
  "api_error msg st = \<lparr>ce_name = ''APIError'', ce_message = msg, ce_status = st\<rparr>"

definition error_text :: "client_error \<Rightarrow> string" where
  "error_text e = ce_name e @ '': '' @ ce_message e"

definition http_send :: "client_env \<Rightarrow> http_rq \<Rightarrow> http_rs client" where
  "http_send env r s = (Inr (cv_http env (length (cl_sent s)) r), s\<lparr>cl_sent := cl_sent s @ [r]\<rparr>)"

fun status_of :: "http_rs \<Rightarrow> int option" where
  "status_of (FailedWith n) = Some n"
| "status_of _ = None"

definition get_rq :: "string \<Rightarrow> auth_header \<Rightarrow> http_rq" where
  "get_rq addr headers = \<lparr>hq_method = GET, hq_addr = addr, hq_header = headers, hq_payload = None\<rparr>"

definition getData :: "client_env \<Rightarrow> string \<Rightarrow> auth_header \<Rightarrow> js_value client" where
  "getData env addr headers s =
     sbind (http_send env (get_rq addr headers) s) (\<lambda>rs s1.
       (case rs of Answer v \<Rightarrow> Inr v
        | _ \<Rightarrow> Inl (api_error (if status_of rs = Some 401 then ''Invalid API Key'' else if status_of rs = Some 404 then ''Network or Member Not Found''
                            else ''An error occurred fetching data from '' @ addr) (status_of rs)), s1))"

definition postData :: "client_env \<Rightarrow> string \<Rightarrow> auth_header \<Rightarrow> js_value \<Rightarrow> js_value client" where
  "postData env addr headers payload s =
     sbind (http_send env \<lparr>hq_method = POST, hq_addr = addr, hq_header = headers, hq_payload = Some payload\<rparr> s) (\<lambda>rs s1.
       (case rs of Answer v \<Rightarrow> Inr v | _ \<Rightarrow> Inl (api_error (''An error occurred while posting data to '' @ addr) (status_of rs)), s1))"

text \<open>A caught error is thrown again with a text around it; the status of the first error is lost.\<close>

definition rethrow :: "(client_error \<Rightarrow> client_error) \<Rightarrow> (client_error + 'a) \<times> client_state \<Rightarrow> (client_error + 'a) \<times> client_state" where
  "rethrow f r = (case r of (Inl e, s) \<Rightarrow> (Inl (f e), s) | (Inr x, s) \<Rightarrow> (Inr x, s))"

definition in_function :: "bool \<Rightarrow> string \<Rightarrow> client_error \<Rightarrow> client_error" where
  "in_function central fn e = api_error ((if central then ''[CENTRAL] '' else []) @ '' '' @ error_text e @ '' ('' @ fn @ '')'') None"

definition as_text :: "client_error \<Rightarrow> client_error" where
  "as_text e = api_error (error_text e) None"

definition network_addr :: "string \<Rightarrow> bool \<Rightarrow> string \<Rightarrow> string" where
  "network_addr base central nwid = base @ (if central then ''/network/'' else ''/controller/network/'') @ nwid"

definition member_addr :: "string \<Rightarrow> bool \<Rightarrow> string \<Rightarrow> string \<Rightarrow> string" where
  "member_addr base central nwid memberId = network_addr base central nwid @ ''/member/'' @ memberId"

definition ping_api :: "client_env \<Rightarrow> int \<Rightarrow> string \<Rightarrow> js_value client" where
  "ping_api env now userId s = sbind (getOptions env now userId True s) (\<lambda>(base, h). getData env (base @ ''/network'') h)"

definition get_controller_version :: "client_env \<Rightarrow> int \<Rightarrow> string \<Rightarrow> js_value client" where
  "get_controller_version env now userId s =
     sbind (getOptions env now userId False s) (\<lambda>(base, h) s1.
       rethrow (\<lambda>_. api_error ''An error occurred while getting get_controller_version'' None) (getData env (base @ ''/controller'') h s1))"

fun items_of :: "js_value \<Rightarrow> js_value list" where
  "items_of (JArr xs) = xs"
| "items_of _ = []"

text \<open>The error of this function keeps the plain name: it is no axios error any more when it is inspected.\<close>

definition get_controller_networks :: "client_env \<Rightarrow> int \<Rightarrow> string \<Rightarrow> bool \<Rightarrow> js_value list client" where
  "get_controller_networks env now userId isCentral s =
     sbind (getOptions env now userId isCentral s) (\<lambda>(base, h) s1.
       rethrow (\<lambda>e. (in_function isCentral ''get_controller_networks'' e)\<lparr>ce_name := ''Error''\<rparr>)
         (sbind (getData env (base @ (if isCentral then ''/network'' else ''/controller/network'')) h s1) (\<lambda>v s2.
            (Inr (if isCentral then flattenNetworks (items_of v) else items_of v), s2))))"

definition get_controller_status :: "client_env \<Rightarrow> int \<Rightarrow> string \<Rightarrow> bool \<Rightarrow> js_value client" where
  "get_controller_status env now userId isCentral s =
     sbind (getOptions env now userId isCentral s) (\<lambda>(base, h) s1.
       rethrow (in_function isCentral ''get_controller_status'') (getData env (base @ ''/status'') h s1))"

text \<open>The text of a value in a template.\<close>

fun value_text :: "js_value \<Rightarrow> string" where
  "value_text JUndefined = ''undefined''"
| "value_text JNull = ''null''"
| "value_text (JBool b) = (if b then ''true'' else ''false'')"
| "value_text (JInt n) = (if n < 0 then ''-'' @ nat_str (nat (- n)) else nat_str (nat n))"
| "value_text (JText t) = t"
| "value_text (JArr vs) = js_join [CHR '',''] (map (\<lambda>v. case v of JUndefined \<Rightarrow> [] | JNull \<Rightarrow> [] | _ \<Rightarrow> value_text v) vs)"
| "value_text (JObj fs) = ''[object Object]''"

definition network_create :: "client_env \<Rightarrow> int \<Rightarrow> string \<Rightarrow> string \<Rightarrow> (string \<times> js_value) list \<Rightarrow> bool \<Rightarrow> js_value client" where
  "network_create env now userId name ipAssignment isCentral s =
     sbind (getOptions env now userId isCentral s) (\<lambda>(base, h) s1.
       let payload = js_spread [(''name'', JText name), (''private'', JBool True)] ipAssignment
       in rethrow (in_function isCentral ''network_create'')
            (if isCentral
             then sbind (postData env (base @ ''/network'') h (JObj [(''config'', JObj payload), (''description'', JText ''created with ztnet'')]) s1)
                    (\<lambda>v s2. (Inr (flattenNetwork v), s2))
             else sbind (get_controller_status env now userId isCentral s1) (\<lambda>st.
                    postData env (base @ ''/controller/network/'' @ value_text (js_field ''address'' st) @ ''______'') h (JObj payload))))"

definition delete_rq :: "string \<Rightarrow> auth_header \<Rightarrow> http_rq" where
  "delete_rq addr headers = \<lparr>hq_method = DELETE, hq_addr = addr, hq_header = headers, hq_payload = None\<rparr>"

text \<open>The error of a deletion is the axios error itself; its text is a parameter of the message that is not modelled.\<close>

definition deleteData :: "client_env \<Rightarrow> string \<Rightarrow> auth_header \<Rightarrow> unit client" where
  "deleteData env addr headers s =
     sbind (http_send env (delete_rq addr headers) s) (\<lambda>rs s1.
       (case rs of Answer v \<Rightarrow> Inr () | _ \<Rightarrow> Inl \<lparr>ce_name = ''AxiosError'', ce_message = [], ce_status = status_of rs\<rparr>, s1))"

definition network_delete :: "client_env \<Rightarrow> int \<Rightarrow> string \<Rightarrow> string \<Rightarrow> bool \<Rightarrow> unit client" where
  "network_delete env now userId nwid isCentral s =
     sbind (getOptions env now userId isCentral s) (\<lambda>(base, h) s1.
       rethrow (\<lambda>e. (in_function isCentral ''network_delete'' e)\<lparr>ce_status := ce_status e\<rparr>) (deleteData env (network_addr base isCentral nwid) h s1))"

text \<open>Controllers of version 1.12.1 answer with a list of objects of one key each, which become one object.\<close>

definition first_key :: "js_value \<Rightarrow> string" where
  "first_key v = (case fields_of v of [] \<Rightarrow> ''undefined'' | (k, _) # _ \<Rightarrow> k)"

definition convertedMembers :: "js_value list \<Rightarrow> (string \<times> js_value) list" where
  "convertedMembers objs = foldl (\<lambda>m v. map_set (first_key v) (js_field (first_key v) v) m) [] objs"

definition network_members :: "client_env \<Rightarrow> int \<Rightarrow> string \<Rightarrow> string \<Rightarrow> bool \<Rightarrow> js_value client" where
  "network_members env now userId nwid isCentral s =
     sbind (getOptions env now userId isCentral s) (\<lambda>(base, h) s1.
     sbind (getData env (network_addr base isCentral nwid @ ''/member'') h s1) (\<lambda>v s2.
       (Inr (case v of JArr objs \<Rightarrow> if isCentral then v else JObj (convertedMembers objs) | _ \<Rightarrow> v), s2)))"

definition get_network :: "client_env \<Rightarrow> int \<Rightarrow> string \<Rightarrow> string \<Rightarrow> bool \<Rightarrow> js_value client" where
  "get_network env now userId nwid isCentral s =
     sbind (getOptions env now userId isCentral s) (\<lambda>(base, h) s1. rethrow as_text (getData env (network_addr base isCentral nwid) h s1))"

definition member_count :: "js_value \<Rightarrow> nat" where
  "member_count v = (case v of JArr xs \<Rightarrow> length xs | JObj fs \<Rightarrow> length fs | _ \<Rightarrow> 0)"

definition local_network_and_membercount :: "client_env \<Rightarrow> int \<Rightarrow> string \<Rightarrow> string \<Rightarrow> (js_value \<times> nat) client" where
  "local_network_and_membercount env now userId nwid s =
     sbind (getOptions env now userId False s) (\<lambda>(base, h) s1.
       rethrow as_text (
         sbind (getData env (network_addr base False nwid) h s1) (\<lambda>network s2.
         sbind (network_members env now userId nwid False s2) (\<lambda>members s3.
           (Inr (network, member_count members), s3)))))"

text \<open>A batch sends all its requests before it looks at their outcomes.\<close>

fun send_all :: "client_env \<Rightarrow> auth_header \<Rightarrow> string list \<Rightarrow> client_state \<Rightarrow> (client_error + js_value) list \<times> client_state" where
  "send_all env h [] s = ([], s)"
| "send_all env h (a # as) s = (let (r, s1) = getData env a h s; (rs, s2) = send_all env h as s1 in (r # rs, s2))"

fun all_ok :: "('e + 'a) list \<Rightarrow> 'e + 'a list" where
  "all_ok [] = Inr []"
| "all_ok (Inl e # rs) = Inl e"
| "all_ok (Inr x # rs) = (case all_ok rs of Inl e \<Rightarrow> Inl e | Inr xs \<Rightarrow> Inr (x # xs))"

definition promise_all :: "client_env \<Rightarrow> auth_header \<Rightarrow> string list \<Rightarrow> js_value list client" where
  "promise_all env h addrs s = (let (rs, s1) = send_all env h addrs s in (all_ok rs, s1))"

function fetch_batches :: "client_env \<Rightarrow> auth_header \<Rightarrow> string list \<Rightarrow> js_value list client" where
  "fetch_batches env h [] s = (Inr [], s)"
| "fetch_batches env h (a # as) s =
     sbind (promise_all env h (take 5 (a # as)) s) (\<lambda>xs s1.
     sbind (fetch_batches env h (drop 5 (a # as)) s1) (\<lambda>ys s2. (Inr (xs @ ys), s2)))"
  by pat_completeness auto
termination by (relation "measure (\<lambda>(_, _, as, _). length as)") auto

definition member_ids :: "js_value \<Rightarrow> string list" where
  "member_ids v = (case v of JObj fs \<Rightarrow> map fst fs | JArr xs \<Rightarrow> map nat_str [0..<length xs] | _ \<Rightarrow> [])"

definition local_network_and_members :: "client_env \<Rightarrow> int \<Rightarrow> string \<Rightarrow> string \<Rightarrow> (js_value \<times> js_value list) client" where
  "local_network_and_members env now userId nwid s =
     sbind (getOptions env now userId False s) (\<lambda>(base, h) s1.
       rethrow as_text (
         sbind (getData env (network_addr base False nwid) h s1) (\<lambda>network s2.
         sbind (network_members env now userId nwid False s2) (\<lambda>members s3.
         sbind (fetch_batches env h (map (member_addr base False nwid) (member_ids members)) s3) (\<lambda>ms s4.
           (Inr (network, ms), s4))))))"

definition central_network_and_members :: "client_env \<Rightarrow> int \<Rightarrow> string \<Rightarrow> string \<Rightarrow> bool \<Rightarrow> (js_value \<times> js_value list) client" where
  "central_network_and_members env now userId nwid isCentral s =
     sbind (getOptions env now userId isCentral s) (\<lambda>(base, h) s1.
       let addr = network_addr base isCentral nwid
       in rethrow (\<lambda>e. api_error ((if isCentral then ''[ZT CENTRAL]'' else []) @ '' '' @ error_text e @ '' (central_network_and_members)'') None)
         (sbind (getData env addr h s1) (\<lambda>network s2.
          sbind (network_members env now userId nwid isCentral s2) (\<lambda>members s3.
          sbind (promise_all env h (map (\<lambda>m. addr @ ''/member/'' @ value_text (js_field ''nodeId'' m)) (items_of members)) s3) (\<lambda>ms s4.
            (Inr (JObj (js_spread (js_spread [(''cidr'', JArr (map JText cidrOptions)), (''nwid'', js_field ''id'' network)] (other_props network))
                    (fields_of (js_field ''config'' network))), flattenCentralMembers ms), s4))))))"

definition client_network_update :: "client_env \<Rightarrow> int \<Rightarrow> string \<Rightarrow> string \<Rightarrow> js_value \<Rightarrow> bool \<Rightarrow> js_value client" where
  "client_network_update env now userId nwid payload central s =
     sbind (getOptions env now userId central s) (\<lambda>(base, h) s1.
       rethrow (in_function central ''network_update'') (postData env (network_addr base central nwid) h payload s1))"

definition client_member_delete :: "client_env \<Rightarrow> int \<Rightarrow> string \<Rightarrow> string \<Rightarrow> string \<Rightarrow> bool \<Rightarrow> unit client" where
  "client_member_delete env now userId nwid memberId central s =
     sbind (getOptions env now userId central s) (\<lambda>(base, h) s1.
       rethrow (\<lambda>e. (in_function central ''member_delete'' e)\<lparr>ce_status := ce_status e\<rparr>) (deleteData env (member_addr base central nwid memberId) h s1))"

definition client_member_update :: "client_env \<Rightarrow> int \<Rightarrow> string \<Rightarrow> string \<Rightarrow> string \<Rightarrow> js_value \<Rightarrow> bool \<Rightarrow> js_value client" where
  "client_member_update env now userId nwid memberId payload central s =
     sbind (getOptions env now userId central s) (\<lambda>(base, h) s1.
       rethrow (in_function central ''member_update'') (postData env (member_addr base central nwid memberId) h payload s1))"

definition client_member_details :: "client_env \<Rightarrow> int \<Rightarrow> string \<Rightarrow> string \<Rightarrow> string \<Rightarrow> bool \<Rightarrow> js_value client" where
  "client_member_details env now userId nwid memberId central s =
     sbind (getOptions env now userId central s) (\<lambda>(base, h). getData env (member_addr base central nwid memberId) h)"

definition plain_error :: "string \<Rightarrow> client_error" where
  "plain_error m = \<lparr>ce_name = ''Error'', ce_message = m, ce_status = None\<rparr>"

definition client_member_status :: "client_env \<Rightarrow> int \<Rightarrow> string \<Rightarrow> string \<Rightarrow> status_snapshot option client" where
  "client_member_status env now userId nwid s =
     sbind (getOptions env now userId False s) (\<lambda>(base, h) s1.
     sbind (http_send env (get_rq (network_addr base False nwid @ ''/member-status'') h) s1) (\<lambda>rs s2.
       (case rs of
          Answer v \<Rightarrow> (case parseMemberStatus (cv_snapshot env v) of Inl _ \<Rightarrow> Inl (plain_error ''Controller member status unavailable'') | Inr snap \<Rightarrow> Inr (Some snap))
        | _ \<Rightarrow> if status_of rs = Some 404 then Inr None else Inl (plain_error ''Controller member status unavailable''), s2)))"

definition get_peers :: "client_env \<Rightarrow> int \<Rightarrow> string \<Rightarrow> js_value client" where
  "get_peers env now userId s =
     sbind (getOptions env now userId False s) (\<lambda>(base, _) s1.
     sbind (getOptions env now userId False s1) (\<lambda>(_, h) s2.
     sbind (http_send env (get_rq (base @ ''/peer'') h) s2) (\<lambda>rs s3.
       (case rs of Answer v \<Rightarrow> Inr v | _ \<Rightarrow> Inl (plain_error ''Controller peers unavailable''), s3))))"

definition get_peer :: "client_env \<Rightarrow> int \<Rightarrow> string \<Rightarrow> string \<Rightarrow> js_value client" where
  "get_peer env now userId userZtAddress s =
     sbind (getOptions env now userId False s) (\<lambda>(base, _) s1.
     sbind (getOptions env now userId False s1) (\<lambda>(_, h) s2.
       (case getData env (base @ ''/peer/'' @ userZtAddress) h s2 of
          (Inl _, s3) \<Rightarrow> (Inr (JArr []), s3)
        | (Inr v, s3) \<Rightarrow> (Inr (if v \<in> {JUndefined, JNull, JBool False, JInt 0, JText []} then JObj [] else v), s3))))"

definition get_controller_metrics :: "client_env \<Rightarrow> int \<Rightarrow> string \<Rightarrow> js_value client" where
  "get_controller_metrics env now userId s =
     sbind (getOptions env now userId False s) (\<lambda>(base, h) s1.
     sbind (http_send env (get_rq (base @ ''/metrics'') h) s1) (\<lambda>rs s2.
       (case rs of Answer v \<Rightarrow> Inr v | _ \<Rightarrow> Inl (api_error ''An error occurred while getting controller metrics'' (status_of rs)), s2)))"

section \<open>Settings\<close>

definition keep :: "'a option \<Rightarrow> 'a option \<Rightarrow> 'a option" where
  "keep new old = (case new of None \<Rightarrow> old | Some v \<Rightarrow> Some v)"

text \<open>The columns of an options row that an insert does not name.\<close>

definition default_options :: credentials where
  "default_options = \<lparr>cr_ztCentralApiKey = Some [], cr_ztCentralApiUrl = Some ''https://api.zerotier.com/api/v1'',
     cr_localControllerSecret = Some [], cr_localControllerUrl = Some ''http://zerotier:9993''\<rparr>"

definition options_row :: "string \<Rightarrow> client_state \<Rightarrow> credentials" where
  "options_row userId s = (case map_of (cl_options s) userId of None \<Rightarrow> default_options | Some c \<Rightarrow> c)"

text \<open>The upsert: the row of the user, or a new one from the defaults, with the given columns replaced.\<close>

definition set_options :: "string \<Rightarrow> (credentials \<Rightarrow> credentials) \<Rightarrow> client_state \<Rightarrow> client_state" where
  "set_options userId f s = s\<lparr>cl_options := map_set userId (f (options_row userId s)) (cl_options s)\<rparr>"

definition setZtApi :: "client_env \<Rightarrow> int \<Rightarrow> session_user \<Rightarrow> string option \<Rightarrow> string option \<Rightarrow> client_state \<Rightarrow> (exn + unit) \<times> client_state" where
  "setZtApi env now user key url s =
     (let s1 = clearApiCredentialsCache (Some (s_userId user)) (set_options (s_userId user)
                 (\<lambda>c. c\<lparr>cr_ztCentralApiKey := keep key (cr_ztCentralApiKey c), cr_ztCentralApiUrl := keep url (cr_ztCentralApiUrl c)\<rparr>) s)
      in if \<not> truthy (cr_ztCentralApiKey (stored_credentials (s_userId user) s1)) then (Inr (), s1)
         else case ping_api env now (s_userId user) s1 of
             (Inl e, s2) \<Rightarrow> (Inl (TRPCError FORBIDDEN (ce_message e)), s2)
           | (Inr _, s2) \<Rightarrow> (Inr (), s2))"

definition defaultLocalZtUrl :: "client_env \<Rightarrow> string" where
  "defaultLocalZtUrl env = (if cv_docker env then ''http://zerotier:9993'' else ''http://127.0.0.1:9993'')"

definition setLocalZt :: "client_env \<Rightarrow> session_user option \<Rightarrow> string option \<Rightarrow> string option \<Rightarrow> client_state \<Rightarrow> (exn + unit) \<times> client_state" where
  "setLocalZt env session url secret s =
     (case enforceUserIsAdmin session of
        Inl e \<Rightarrow> (Inl e, s)
      | Inr user \<Rightarrow>
          if truthy url \<and> truthy (cv_ZT_ADDR env)
          then (Inl (TRPCError BAD_REQUEST ''Remove the ZT_ADDR environment variable to use this feature!''), s)
          else (Inr (), clearApiCredentialsCache (Some (s_userId user)) (set_options (s_userId user)
                 (\<lambda>c. c\<lparr>cr_localControllerUrl := Some (str_or url (defaultLocalZtUrl env)), cr_localControllerSecret := keep secret (cr_localControllerSecret c)\<rparr>) s)))"

text \<open>The display options of a user are in the same row, so that storing them creates it; so does creating a user with
  a registration or by an administrator.\<close>

definition updateUserOptions :: "session_user \<Rightarrow> client_state \<Rightarrow> client_state" where
  "updateUserOptions user s = set_options (s_userId user) (\<lambda>c. c) s"

definition create_options :: "client_env \<Rightarrow> string \<Rightarrow> client_state \<Rightarrow> client_state" where
  "create_options env userId s =
     (if map_of (cl_options s) userId = None
      then set_options userId (\<lambda>c. c\<lparr>cr_localControllerUrl := Some (defaultLocalZtUrl env)\<rparr>) s else s)"

text \<open>What a browser is shown of the options.\<close>

definition sanitizeUserOptions :: "credentials \<Rightarrow> credentials \<times> bool \<times> bool" where
  "sanitizeUserOptions c = (c\<lparr>cr_ztCentralApiKey := None, cr_localControllerSecret := None\<rparr>, truthy (cr_ztCentralApiKey c), truthy (cr_localControllerSecret c))"

datatype client_call =
    CPing | CVersion | CNetworks bool | CStatus bool | CCreate string "(string \<times> js_value) list" bool | CDeleteNetwork string bool | CMembers string bool
  | CNetwork string bool | CCount string | CLocal string | CCentral string bool | CUpdate string js_value bool | CMemberDelete string string bool
  | CMemberUpdate string string js_value bool | CDetails string string bool | CMemberStatus string | CPeers | CPeer string | CMetrics

fun run_call :: "client_env \<Rightarrow> int \<Rightarrow> string \<Rightarrow> client_call \<Rightarrow> client_state \<Rightarrow> client_state" where
  "run_call env now u CPing s = snd (ping_api env now u s)"
| "run_call env now u CVersion s = snd (get_controller_version env now u s)"
| "run_call env now u (CNetworks c) s = snd (get_controller_networks env now u c s)"
| "run_call env now u (CStatus c) s = snd (get_controller_status env now u c s)"
| "run_call env now u (CCreate name ip c) s = snd (network_create env now u name ip c s)"
| "run_call env now u (CDeleteNetwork nwid c) s = snd (network_delete env now u nwid c s)"
| "run_call env now u (CMembers nwid c) s = snd (network_members env now u nwid c s)"
| "run_call env now u (CNetwork nwid c) s = snd (get_network env now u nwid c s)"
| "run_call env now u (CCount nwid) s = snd (local_network_and_membercount env now u nwid s)"
| "run_call env now u (CLocal nwid) s = snd (local_network_and_members env now u nwid s)"
| "run_call env now u (CCentral nwid c) s = snd (central_network_and_members env now u nwid c s)"
| "run_call env now u (CUpdate nwid p c) s = snd (client_network_update env now u nwid p c s)"
| "run_call env now u (CMemberDelete nwid i c) s = snd (client_member_delete env now u nwid i c s)"
| "run_call env now u (CMemberUpdate nwid i p c) s = snd (client_member_update env now u nwid i p c s)"
| "run_call env now u (CDetails nwid i c) s = snd (client_member_details env now u nwid i c s)"
| "run_call env now u (CMemberStatus nwid) s = snd (client_member_status env now u nwid s)"
| "run_call env now u CPeers s = snd (get_peers env now u s)"
| "run_call env now u (CPeer a) s = snd (get_peer env now u a s)"
| "run_call env now u CMetrics s = snd (get_controller_metrics env now u s)"

datatype client_request =
    Call int string client_call
  | SetZtApi int session_user "string option" "string option"
  | SetLocalZt "session_user option" "string option" "string option"
  | UpdateUserOptions session_user
  | CreateUser string

fun run_client :: "client_env \<Rightarrow> client_request \<Rightarrow> client_state \<Rightarrow> client_state" where
  "run_client env (Call now u c) s = run_call env now u c s"
| "run_client env (SetZtApi now user key url) s = snd (setZtApi env now user key url s)"
| "run_client env (SetLocalZt session url secret) s = snd (setLocalZt env session url secret s)"
| "run_client env (UpdateUserOptions user) s = updateUserOptions user s"
| "run_client env (CreateUser userId) s = create_options env userId s"

text \<open>The addresses an administrator sets in a sequence of requests.\<close>

fun admin_url :: "client_env \<Rightarrow> client_request \<Rightarrow> string option set" where
  "admin_url env (SetLocalZt session url secret) = (if is_ok (enforceUserIsAdmin session) then {Some (str_or url (defaultLocalZtUrl env))} else {})"
| "admin_url env _ = {}"

text \<open>The addresses that the program itself puts into a new row.\<close>

definition default_urls :: "client_env \<Rightarrow> string option set" where
  "default_urls env = {cr_localControllerUrl default_options, Some (defaultLocalZtUrl env)}"

definition stored_urls :: "client_state \<Rightarrow> string option set" where
  "stored_urls s = insert None (cr_localControllerUrl ` (snd ` set (cl_options s) \<union> (fst \<circ> snd) ` set (cl_cache s)))"

definition secret_home :: "client_env \<Rightarrow> string option set \<Rightarrow> http_rq \<Rightarrow> bool" where
  "secret_home env A r = (case hq_header r of Authorization _ \<Rightarrow> True | X_ZT1_Auth _ \<Rightarrow> \<exists>a\<in>A. \<exists>path. hq_addr r = local_base env a @ path)"

definition known :: "client_env \<Rightarrow> string option set \<Rightarrow> client_state \<Rightarrow> bool" where
  "known env A s \<longleftrightarrow> stored_urls s \<subseteq> A \<and> (\<forall>r\<in>set (cl_sent s). secret_home env A r)"

definition good_base :: "client_env \<Rightarrow> string option set \<Rightarrow> string \<Rightarrow> auth_header \<Rightarrow> bool" where
  "good_base env A addr h \<longleftrightarrow> secret_home env A (get_rq addr h)"

definition client_demo_env :: client_env where
  "client_demo_env = \<lparr>cv_ZT_ADDR = Some ''http://zerotier:9993'', cv_ZT_SECRET = Some ''secret'', cv_IS_GITHUB_ACTION = None, cv_secretFile = None, cv_docker = True,
     cv_http = (\<lambda>_ _. Answer (JArr [])), cv_snapshot = (\<lambda>_. demo_snapshot)\<rparr>"

abbreviation "no_client \<equiv> \<lparr>cl_options = [], cl_cache = [], cl_sent = []\<rparr>"

section \<open>Sequences of calls\<close>

section \<open>Where the secret goes\<close>

lemma map_set_mem: "x \<in> set (map_set k v m) \<Longrightarrow> x = (k, v) \<or> x \<in> set m"
  by (induction m) (auto split: if_split_asm)

lemma map_of_map_set [simp]: "map_of (map_set k v m) k' = (if k' = k then Some v else map_of m k')"
  by (induction m) auto

lemma stored_url: "cr_localControllerUrl (stored_credentials u s) \<in> stored_urls s"
  by (force simp: stored_credentials_def stored_urls_def no_credentials_def split: option.split dest: map_of_SomeD)

lemma cached_url: "cached_credentials now u s = Some c \<Longrightarrow> cr_localControllerUrl c \<in> stored_urls s"
  by (force simp: cached_credentials_def stored_urls_def split: option.split_asm if_split_asm dest: map_of_SomeD)

lemma urls_mono: "X \<subseteq> insert c Y \<Longrightarrow> insert None (g ` (C \<union> X)) \<subseteq> insert (g c) (insert None (g ` (C \<union> Y)))"
  by auto

lemma store_urls: "stored_urls (store_credentials now u c s) \<subseteq> insert (cr_localControllerUrl c) (stored_urls s)"
proof -
  have "set (cl_cache (store_credentials now u c s)) \<subseteq> insert (u, c, now) (set (cl_cache s))"
    by (auto simp: store_credentials_def Let_def dest: map_set_mem split: if_split_asm)
  from image_mono[OF this, of "fst \<circ> snd"] have "(fst \<circ> snd) ` set (cl_cache (store_credentials now u c s)) \<subseteq> insert c ((fst \<circ> snd) ` set (cl_cache s))" by simp
  moreover have o: "cl_options (store_credentials now u c s) = cl_options s" by (simp add: store_credentials_def Let_def)
  ultimately show ?thesis unfolding stored_urls_def o by (intro urls_mono)
qed

lemma getApiCredentials_known:
  assumes "known env A s" "getApiCredentials now u s = (r, s1)"
  shows "known env A s1 \<and> (\<exists>c. r = Inr c \<and> cr_localControllerUrl c \<in> A)"
proof (cases "cached_credentials now u s")
  case None
  let ?c = "stored_credentials u s"
  have s: "stored_urls s \<subseteq> A" "cr_localControllerUrl ?c \<in> A" using assms(1) stored_url[of u s] by (auto simp: known_def)
  have e: "r = Inr ?c" "s1 = store_credentials now u ?c s" using assms(2) None by (auto simp: getApiCredentials_def Let_def)
  have "stored_urls s1 \<subseteq> A" using store_urls[of now u ?c s] s unfolding e by blast
  moreover have "cl_sent s1 = cl_sent s" by (simp add: e store_credentials_def Let_def)
  ultimately show ?thesis using assms(1) s e by (simp add: known_def)
next
  case (Some c)
  then show ?thesis using assms cached_url[OF Some] by (auto simp: getApiCredentials_def known_def)
qed

lemma getOptions_known:
  assumes "known env A s" "getOptions env now u central s = (r, s1)"
  shows "known env A s1 \<and> (\<exists>base h. r = Inr (base, h) \<and> good_base env A base h)"
proof -
  obtain c where c: "getApiCredentials now u s = (Inr c, s1)" "r = Inr (options_of env central c)" "cr_localControllerUrl c \<in> A" "known env A s1"
    using assms(2) getApiCredentials_known[OF assms(1)] by (cases "getApiCredentials now u s") (fastforce simp: getOptions_def)
  then show ?thesis by (auto simp: options_of_def good_base_def secret_home_def get_rq_def)
qed

lemma good_base_append: "good_base env A base h \<Longrightarrow> good_base env A (base @ x) h"
  by (auto simp: good_base_def secret_home_def get_rq_def split: auth_header.split) (metis append.assoc)

lemma good_addrs: "good_base env A base h \<Longrightarrow> good_base env A (network_addr base c n) h" "good_base env A base h \<Longrightarrow> good_base env A (member_addr base c n i) h"
  by (auto simp: network_addr_def member_addr_def intro!: good_base_append)

lemma http_send_known: "known env A s \<Longrightarrow> secret_home env A r \<Longrightarrow> known env A (snd (http_send env r s))"
  by (simp add: http_send_def known_def stored_urls_def)

lemma sends_known:
  assumes "known env A s" "good_base env A addr h"
  shows "known env A (snd (getData env addr h s))" "known env A (snd (postData env addr h p s))" "known env A (snd (deleteData env addr h s))"
    "known env A (snd (http_send env (get_rq addr h) s))"
proof -
  have "secret_home env A \<lparr>hq_method = m, hq_addr = addr, hq_header = h, hq_payload = q\<rparr>" for m q
    using assms(2) by (cases h) (simp_all add: good_base_def secret_home_def get_rq_def)
  then have k: "known env A (snd (http_send env \<lparr>hq_method = m, hq_addr = addr, hq_header = h, hq_payload = q\<rparr> s))" for m q
    using http_send_known[OF assms(1)] by blast
  then show "known env A (snd (getData env addr h s))" "known env A (snd (postData env addr h p s))" "known env A (snd (deleteData env addr h s))"
    "known env A (snd (http_send env (get_rq addr h) s))"
    by (simp_all add: getData_def postData_def deleteData_def http_send_def get_rq_def delete_rq_def)
qed

lemma rethrow_snd [simp]: "snd (rethrow f r) = snd r"
  by (simp add: rethrow_def split: prod.split sum.split)

lemma with_options:
  assumes "known env A s" "\<And>base h t. known env A t \<Longrightarrow> good_base env A base h \<Longrightarrow> known env A (snd (f (base, h) t))"
  shows "known env A (snd (sbind (getOptions env now u central s) f))"
proof (cases "getOptions env now u central s")
  case (Pair r s1)
  then show ?thesis using getOptions_known[OF assms(1) Pair] assms(2) by auto
qed

lemma local_header: "getOptions env now u False s = (Inr (base, h), s1) \<Longrightarrow> \<exists>k. h = X_ZT1_Auth k"
  by (cases "getApiCredentials now u s"; cases "fst (getApiCredentials now u s)") (auto simp: getOptions_def options_of_def)

lemma with_local_options:
  assumes "known env A s" "\<And>base k t. known env A t \<Longrightarrow> (\<And>k. good_base env A base (X_ZT1_Auth k)) \<Longrightarrow> known env A (snd (f (base, X_ZT1_Auth k) t))"
  shows "known env A (snd (sbind (getOptions env now u False s) f))"
proof (cases "getOptions env now u False s")
  case (Pair r s1)
  then obtain base h where b: "known env A s1" "r = Inr (base, h)" "good_base env A base h" using getOptions_known[OF assms(1) Pair] by blast
  then obtain k where "h = X_ZT1_Auth k" using local_header Pair by blast
  moreover have "good_base env A base (X_ZT1_Auth k')" for k' using b(3) \<open>h = _\<close> by (simp add: good_base_def secret_home_def get_rq_def)
  ultimately show ?thesis using b assms(2) Pair by simp
qed

lemma known_sbind: "known env A (snd m) \<Longrightarrow> (\<And>x t. known env A t \<Longrightarrow> known env A (snd (f x t))) \<Longrightarrow> known env A (snd (sbind m f))"
  by (cases m; cases "fst m") auto

lemma send_all_known: "known env A s \<Longrightarrow> (\<And>a. a \<in> set as \<Longrightarrow> good_base env A a h) \<Longrightarrow> known env A (snd (send_all env h as s))"
proof (induction as arbitrary: s)
  case (Cons a as)
  have "known env A (snd (getData env a h s))" using Cons.prems sends_known(1) by auto
  then have "known env A (snd (send_all env h as (snd (getData env a h s))))" using Cons by auto
  then show ?case by (simp add: Let_def case_prod_beta)
qed simp

lemma promise_all_known: "known env A s \<Longrightarrow> (\<And>a. a \<in> set as \<Longrightarrow> good_base env A a h) \<Longrightarrow> known env A (snd (promise_all env h as s))"
  using send_all_known[of env A s as h] by (simp add: promise_all_def Let_def case_prod_beta)

lemma fetch_batches_known: "known env A s \<Longrightarrow> (\<And>a. a \<in> set as \<Longrightarrow> good_base env A a h) \<Longrightarrow> known env A (snd (fetch_batches env h as s))"
proof (induction env h as s rule: fetch_batches.induct)
  case (2 env h a as s)
  have "known env A (snd (promise_all env h (take 5 (a # as)) s))" using 2(2,3) by (intro promise_all_known) (auto dest: in_set_takeD)
  then show ?case unfolding fetch_batches.simps(2)
  proof (rule known_sbind)
    fix xs t assume "known env A t"
    then have "known env A (snd (fetch_batches env h (drop 5 (a # as)) t))" using 2(3) set_drop_subset[of 5 "a # as"] by (intro 2(1)) blast+
    then show "known env A (snd (sbind (fetch_batches env h (drop 5 (a # as)) t) (\<lambda>ys s2. (Inr (xs @ ys), s2))))" by (intro known_sbind) auto
  qed
qed simp

lemmas known_rules = with_options sends_known good_addrs good_base_append promise_all_known fetch_batches_known
  known_sbind[OF sends_known(1)] known_sbind[OF sends_known(2)] known_sbind[OF sends_known(4)] known_sbind[OF promise_all_known] known_sbind[OF fetch_batches_known]

lemma members_known: "known env A s \<Longrightarrow> known env A (snd (network_members env now u nwid c s))"
  unfolding network_members_def by (auto intro!: known_rules)

lemma status_known: "known env A s \<Longrightarrow> known env A (snd (get_controller_status env now u c s))"
  unfolding get_controller_status_def by (auto intro!: known_rules)

lemmas nested_known = known_sbind[OF members_known] known_sbind[OF status_known] members_known status_known

lemma peers_known: "known env A s \<Longrightarrow> known env A (snd (get_peers env now u s))"
  unfolding get_peers_def by (rule with_local_options, assumption, simp only: prod.case, rule with_local_options, assumption) (auto intro!: known_rules)

lemma peer_known: "known env A s \<Longrightarrow> known env A (snd (get_peer env now u a s))"
proof -
  have c: "snd (case m of (Inl _, s3) \<Rightarrow> (Inr (JArr []), s3) | (Inr v, s3) \<Rightarrow> (Inr (f v), s3)) = snd m" for m :: "(client_error + js_value) \<times> client_state" and f
    by (simp split: prod.split sum.split)
  assume "known env A s"
  then show ?thesis unfolding get_peer_def
    by (rule with_local_options, simp only: prod.case) (rule with_local_options, assumption, auto simp: c intro!: known_rules)
qed

lemma run_call_known: "known env A s \<Longrightarrow> known env A (run_call env now u c s)"
  by (cases c) (auto simp: ping_api_def get_controller_version_def get_controller_networks_def network_create_def network_delete_def get_network_def
    local_network_and_membercount_def local_network_and_members_def central_network_and_members_def client_network_update_def client_member_delete_def
    client_member_update_def client_member_details_def client_member_status_def get_controller_metrics_def Let_def
    intro!: known_rules nested_known peers_known peer_known)

lemma set_options_urls: "stored_urls (set_options u f s) \<subseteq> insert (cr_localControllerUrl (f (options_row u s))) (stored_urls s)"
proof -
  have "set (cl_options (set_options u f s)) \<subseteq> insert (u, f (options_row u s)) (set (cl_options s))" by (auto simp: set_options_def dest: map_set_mem)
  from image_mono[OF this, of snd] have "snd ` set (cl_options (set_options u f s)) \<subseteq> insert (f (options_row u s)) (snd ` set (cl_options s))" by simp
  moreover have o: "cl_cache (set_options u f s) = cl_cache s" by (simp add: set_options_def)
  ultimately show ?thesis unfolding stored_urls_def o Un_commute[of "snd ` _"] by (intro urls_mono)
qed

lemma clear_known: "known env A s \<Longrightarrow> known env A (clearApiCredentialsCache u s)"
  by (auto simp: known_def stored_urls_def clearApiCredentialsCache_def)

lemma set_options_known: "known env A s \<Longrightarrow> cr_localControllerUrl (f (options_row u s)) \<in> A \<Longrightarrow> known env A (set_options u f s)"
  using set_options_urls[of u f s] by (auto simp: known_def) (simp add: set_options_def)

lemma row_url:
  assumes "known env A s" "default_urls env \<subseteq> A"
  shows "cr_localControllerUrl (options_row u s) \<in> A"
proof (cases "map_of (cl_options s) u")
  case None
  then show ?thesis using assms(2) by (simp add: options_row_def default_urls_def)
next
  case (Some c)
  then have "options_row u s = stored_credentials u s" by (simp add: options_row_def stored_credentials_def)
  then show ?thesis using assms(1) stored_url[of u s] by (auto simp: known_def)
qed

lemma known_mono: "known env A s \<Longrightarrow> A \<subseteq> B \<Longrightarrow> known env B s"
  by (fastforce simp: known_def secret_home_def split: auth_header.split_asm auth_header.split)

lemma run_client_known:
  assumes "known env A s" "default_urls env \<subseteq> A"
  shows "known env (A \<union> admin_url env rq) (run_client env rq s)"
proof (cases rq)
  case (Call now u c)
  then show ?thesis using run_call_known[OF assms(1)] by simp
next
  case (SetZtApi now user key url)
  let ?s1 = "clearApiCredentialsCache (Some (s_userId user)) (set_options (s_userId user)
    (\<lambda>c. c\<lparr>cr_ztCentralApiKey := keep key (cr_ztCentralApiKey c), cr_ztCentralApiUrl := keep url (cr_ztCentralApiUrl c)\<rparr>) s)"
  have k: "known env A ?s1" using assms row_url[OF assms] by (intro clear_known set_options_known) simp_all
  have "known env A (snd (ping_api env now (s_userId user) ?s1))" using run_call_known[OF k, of now "s_userId user" CPing] by simp
  moreover have "snd (case m of (Inl e, s2) \<Rightarrow> (Inl (f e), s2) | (Inr _, s2) \<Rightarrow> (Inr (), s2)) = snd m" for m :: "(client_error + js_value) \<times> client_state" and f :: "client_error \<Rightarrow> exn"
    by (simp split: prod.split sum.split)
  ultimately show ?thesis using SetZtApi k by (simp add: setZtApi_def Let_def)
next
  case (SetLocalZt session url secret)
  then show ?thesis using known_mono[OF assms(1), of "A \<union> admin_url env rq"]
    by (auto simp: setLocalZt_def is_ok_iff intro!: clear_known set_options_known split: sum.split)
next
  case (UpdateUserOptions user)
  then show ?thesis using row_url[OF assms] assms(1) by (simp add: updateUserOptions_def set_options_known)
next
  case (CreateUser userId)
  then show ?thesis using assms by (auto simp: create_options_def default_urls_def intro!: set_options_known)
qed

text \<open>C14. The controller's secret goes to the controller only: in a sequence of calls, settings and new users, every request
  that carries the controller secret is addressed to the configured \<^verbatim>\<open>ZT_ADDR\<close>, or, without it, to an address that was stored
  before, to one of the two addresses the program itself puts into a new options row (the column default
  \<^verbatim>\<open>http://zerotier:9993\<close> and the default of the running environment), or to one that an administrator stored in the
  sequence; the address of ZeroTier Central that a user may choose never gets it.\<close>

theorem controller_secret_stays_home:
  assumes "\<forall>r\<in>set (cl_sent s). secret_home env (stored_urls s) r" "r \<in> set (cl_sent (fold (run_client env) rqs s))" "hq_header r = X_ZT1_Auth k"
  shows "\<exists>a\<in>stored_urls s \<union> {Some ''http://zerotier:9993'', Some (defaultLocalZtUrl env)} \<union> (\<Union>rq\<in>set rqs. admin_url env rq).
     \<exists>path. hq_addr r = local_base env a @ path"
proof -
  have "known env (A \<union> (\<Union>rq\<in>set rqs. admin_url env rq)) (fold (run_client env) rqs s)" if "known env A s" "default_urls env \<subseteq> A" for A
    using that
  proof (induction rqs arbitrary: A s)
    case (Cons rq rqs)
    have "default_urls env \<subseteq> A \<union> admin_url env rq" using Cons.prems(2) by blast
    from Cons.IH[OF run_client_known[OF Cons.prems, of rq] this] show ?case by (simp add: Un_assoc)
  qed simp
  moreover have "known env (stored_urls s \<union> default_urls env) s"
    using known_mono[of env "stored_urls s" s] assms(1) by (auto simp: known_def)
  ultimately have "secret_home env (stored_urls s \<union> default_urls env \<union> (\<Union>rq\<in>set rqs. admin_url env rq)) r"
    using assms(2) by (auto simp: known_def)
  then show ?thesis using assms(3) by (simp add: secret_home_def default_urls_def default_options_def)
qed

theorem controller_secret_stays_home_witness:
  "\<exists>path. hq_addr (hd (cl_sent (run_client client_demo_env (Call 0 ''u'' CPeers) no_client))) = ''http://zerotier:9993'' @ path"
proof -
  let ?s = "fold (run_client client_demo_env) [Call 0 ''u'' CPeers] no_client"
  have c: "cl_sent ?s = [\<lparr>hq_method = GET, hq_addr = ''http://zerotier:9993/peer'', hq_header = X_ZT1_Auth (Some ''secret''), hq_payload = None\<rparr>]" by code_simp
  have "\<exists>path. hq_addr (hd (cl_sent ?s)) = ''http://zerotier:9993'' @ path"
    using controller_secret_stays_home[of no_client client_demo_env "hd (cl_sent ?s)" "[Call 0 ''u'' CPeers]" "Some ''secret''"] unfolding c
    by (auto simp: stored_urls_def local_base_def null_text_def client_demo_env_def)
  then show ?thesis by simp
qed

text \<open>Lookups of several requests interleave with changes of the settings: a lookup that misses the cache takes the time,
  reads the database and stores what it read; each part is a step of its own. Replaced values are kept with the time
  of their replacement.\<close>

record cred_run =
  cu_state :: client_state
  cu_now :: int
  cu_missed :: "(string \<times> int) list"
  cu_read :: "(string \<times> credentials \<times> int) list"
  cu_old :: "(string \<times> credentials \<times> int) list"

inductive cred_step :: "cred_run \<Rightarrow> cred_run \<Rightarrow> bool" where
  time_passes: "cu_now r \<le> t \<Longrightarrow> cred_step r (r\<lparr>cu_now := t\<rparr>)"
| lookup_misses: "cached_credentials (cu_now r) u (cu_state r) = None \<Longrightarrow> cred_step r (r\<lparr>cu_missed := (u, cu_now r) # cu_missed r\<rparr>)"
| lookup_reads: "(u, t) \<in> set (cu_missed r) \<Longrightarrow>
     cred_step r (r\<lparr>cu_missed := remove1 (u, t) (cu_missed r), cu_read := (u, stored_credentials u (cu_state r), t) # cu_read r\<rparr>)"
| lookup_stores: "(u, c, t) \<in> set (cu_read r) \<Longrightarrow>
     cred_step r (r\<lparr>cu_state := store_credentials t u c (cu_state r), cu_read := remove1 (u, c, t) (cu_read r)\<rparr>)"
| settings_change: "cred_step r (r\<lparr>cu_state := set_options u f (cu_state r), cu_old := (u, stored_credentials u (cu_state r), cu_now r) # cu_old r\<rparr>)"
| cache_clears: "cred_step r (r\<lparr>cu_state := clearApiCredentialsCache v (cu_state r)\<rparr>)"

definition recent :: "cred_run \<Rightarrow> string \<times> credentials \<times> int \<Rightarrow> bool" where
  "recent r e = (case e of (u, c, t) \<Rightarrow> t \<le> cu_now r \<and> (c = stored_credentials u (cu_state r) \<or> (\<exists>T\<ge>t. (u, c, T) \<in> set (cu_old r))))"

definition cred_inv :: "cred_run \<Rightarrow> bool" where
  "cred_inv r \<longleftrightarrow> (\<forall>e\<in>set (cl_cache (cu_state r)). recent r e) \<and> (\<forall>e\<in>set (cu_read r). recent r e) \<and> (\<forall>e\<in>set (cu_missed r). snd e \<le> cu_now r)"

abbreviation "key_of k \<equiv> no_credentials\<lparr>cr_ztCentralApiKey := Some k\<rparr>"

section \<open>How old credentials can be\<close>

lemma recent_mono:
  assumes "recent r e" "cu_now r \<le> cu_now r'" "set (cu_old r) \<subseteq> set (cu_old r')" "cl_options (cu_state r') = cl_options (cu_state r)"
  shows "recent r' e"
  using assms by (cases e) (auto simp: recent_def stored_credentials_def)

lemma recent_change:
  assumes "recent r e" "r' = r\<lparr>cu_state := set_options u f (cu_state r), cu_old := (u, stored_credentials u (cu_state r), cu_now r) # cu_old r\<rparr>"
  shows "recent r' e"
  using assms by (cases e) (auto simp: recent_def stored_credentials_def set_options_def)

lemma cred_invI:
  assumes "cred_inv r" "\<And>e. recent r e \<Longrightarrow> recent r' e" "\<And>e. e \<in> set (cl_cache (cu_state r')) \<Longrightarrow> e \<in> set (cl_cache (cu_state r)) \<or> recent r' e"
    and "\<And>e. e \<in> set (cu_read r') \<Longrightarrow> e \<in> set (cu_read r) \<or> recent r' e" "\<And>e. e \<in> set (cu_missed r') \<Longrightarrow> e \<in> set (cu_missed r) \<or> snd e \<le> cu_now r'" "cu_now r \<le> cu_now r'"
  shows "cred_inv r'"
  using assms unfolding cred_inv_def by (meson order_trans)

lemma stored_entry: "e \<in> set (cl_cache (store_credentials t u c s)) \<Longrightarrow> e = (u, c, t) \<or> e \<in> set (cl_cache s)"
  by (auto simp: store_credentials_def Let_def dest: map_set_mem split: if_split_asm)

lemma store_options [simp]: "cl_options (store_credentials t u c s) = cl_options s" "cl_options (clearApiCredentialsCache v s) = cl_options s"
  by (simp_all add: store_credentials_def Let_def clearApiCredentialsCache_def)

interpretation credential_cache: step_invariant cred_step cred_inv
proof
  fix r r' assume inv: "cred_inv r" and "cred_step r r'"
  from \<open>cred_step r r'\<close> show "cred_inv r'"
  proof cases
    case (time_passes t)
    then show ?thesis by (intro cred_invI[OF inv]) (auto intro: recent_mono)
  next
    case (lookup_misses u)
    then show ?thesis by (intro cred_invI[OF inv]) (auto intro: recent_mono)
  next
    case (lookup_reads u t)
    then have "t \<le> cu_now r" using inv by (auto simp: cred_inv_def)
    then have "recent r' (u, stored_credentials u (cu_state r), t)" using lookup_reads by (simp add: recent_def)
    then show ?thesis using lookup_reads by (intro cred_invI[OF inv]) (auto intro: recent_mono dest: set_remove1_subset[THEN subsetD])
  next
    case (lookup_stores u c t)
    have m: "recent r e \<Longrightarrow> recent r' e" for e by (rule recent_mono[of r]) (simp_all add: lookup_stores(1))
    have "recent r (u, c, t)" using lookup_stores(2) inv unfolding cred_inv_def by blast
    from m[OF this] have new: "recent r' (u, c, t)" .
    show ?thesis
    proof (rule cred_invI[OF inv m])
      fix e assume "e \<in> set (cl_cache (cu_state r'))"
      then show "e \<in> set (cl_cache (cu_state r)) \<or> recent r' e" using stored_entry new lookup_stores(1) by fastforce
    qed (use lookup_stores(1) in \<open>auto dest: set_remove1_subset[THEN subsetD]\<close>)
  next
    case (settings_change u f)
    then show ?thesis using recent_change[OF _ settings_change] by (intro cred_invI[OF inv]) (auto simp: set_options_def)
  next
    case (cache_clears v)
    then show ?thesis by (intro cred_invI[OF inv]) (auto intro: recent_mono simp: clearApiCredentialsCache_def split: if_split_asm)
  qed
qed

text \<open>Credentials are at most a minute old: however lookups, changes and clearing interleave, what the cache answers is what is
  stored now or a value that was replaced less than \<^verbatim>\<open>CACHE_TTL\<close> ago.\<close>

theorem credentials_are_recent:
  assumes "cred_step\<^sup>*\<^sup>* \<lparr>cu_state = s, cu_now = t0, cu_missed = [], cu_read = [], cu_old = []\<rparr> r" "cl_cache s = []"
    and "cached_credentials (cu_now r) u (cu_state r) = Some c"
  shows "c = stored_credentials u (cu_state r) \<or> (\<exists>T. (u, c, T) \<in> set (cu_old r) \<and> cu_now r - T < CACHE_TTL)"
proof -
  have "cred_inv \<lparr>cu_state = s, cu_now = t0, cu_missed = [], cu_read = [], cu_old = []\<rparr>" using assms(2) by (simp add: cred_inv_def)
  from credential_cache.run_keeps[OF assms(1) this] have inv: "cred_inv r" .
  obtain t where "(u, c, t) \<in> set (cl_cache (cu_state r))" "cu_now r - t < CACHE_TTL"
    using assms(3) by (auto simp: cached_credentials_def split: option.split_asm if_split_asm dest: map_of_SomeD)
  with inv show ?thesis by (fastforce simp: cred_inv_def recent_def)
qed

text \<open>Clearing the cache does not reach a lookup in flight: when the settings change and the cache is cleared between the
  database read of a lookup and its store, the old credentials are cached again after the change.\<close>

theorem late_lookup_restores_old_credentials:
  assumes "s = \<lparr>cl_options = [(u, key_of k)], cl_cache = [], cl_sent = []\<rparr>" "k \<noteq> k'"
  shows "\<exists>r. cred_step\<^sup>*\<^sup>* \<lparr>cu_state = s, cu_now = 0, cu_missed = [], cu_read = [], cu_old = []\<rparr> r
    \<and> stored_credentials u (cu_state r) = key_of k' \<and> cached_credentials (cu_now r) u (cu_state r) = Some (key_of k)"
proof -
  let ?r0 = "\<lparr>cu_state = s, cu_now = 0, cu_missed = [], cu_read = [], cu_old = []\<rparr>"
  let ?r1 = "?r0\<lparr>cu_missed := [(u, 0)]\<rparr>" and ?r2 = "?r0\<lparr>cu_read := [(u, key_of k, 0)]\<rparr>"
  let ?s3 = "set_options u (\<lambda>_. key_of k') s"
  let ?r3 = "?r2\<lparr>cu_state := ?s3, cu_old := [(u, key_of k, 0)]\<rparr>" and ?r4 = "?r2\<lparr>cu_state := clearApiCredentialsCache (Some u) ?s3, cu_old := [(u, key_of k, 0)]\<rparr>"
  let ?r5 = "?r4\<lparr>cu_state := store_credentials 0 u (key_of k) (clearApiCredentialsCache (Some u) ?s3), cu_read := []\<rparr>"
  have old: "stored_credentials u s = key_of k" by (simp add: assms(1) stored_credentials_def)
  have "cred_step ?r0 ?r1" using cred_step.lookup_misses[of ?r0 u] by (simp add: cached_credentials_def assms(1))
  moreover have "cred_step ?r1 ?r2" using cred_step.lookup_reads[of u 0 ?r1] by (simp add: old)
  moreover have "cred_step ?r2 ?r3" using cred_step.settings_change[of ?r2 u "\<lambda>_. key_of k'"] by (simp add: old)
  moreover have "cred_step ?r3 ?r4" using cred_step.cache_clears[of ?r3 "Some u"] by simp
  moreover have "cred_step ?r4 ?r5" using cred_step.lookup_stores[of u "key_of k" 0 ?r4] by simp
  ultimately have "cred_step\<^sup>*\<^sup>* ?r0 ?r5" by (meson converse_rtranclp_into_rtranclp rtranclp.rtrancl_refl)
  moreover have "stored_credentials u (cu_state ?r5) = key_of k'" by (simp add: stored_credentials_def set_options_def)
  moreover have "cached_credentials (cu_now ?r5) u (cu_state ?r5) = Some (key_of k)"
    by (simp add: cached_credentials_def store_credentials_def Let_def clearApiCredentialsCache_def set_options_def assms(1) CACHE_TTL_def)
  ultimately show ?thesis by blast
qed

theorem late_lookup_restores_old_credentials_witness:
  "\<exists>r. cred_step\<^sup>*\<^sup>* \<lparr>cu_state = \<lparr>cl_options = [(''u'', key_of ''a'')], cl_cache = [], cl_sent = []\<rparr>, cu_now = 0, cu_missed = [], cu_read = [], cu_old = []\<rparr> r
    \<and> stored_credentials ''u'' (cu_state r) = key_of ''b'' \<and> cached_credentials (cu_now r) ''u'' (cu_state r) = Some (key_of ''a'')"
  by (rule late_lookup_restores_old_credentials) simp_all

theorem credentials_are_recent_witness:
  "stored_credentials ''u'' \<lparr>cl_options = [(''u'', key_of ''a'')], cl_cache = [(''u'', key_of ''a'', 0)], cl_sent = []\<rparr> = key_of ''a''"
proof -
  let ?s = "\<lparr>cl_options = [(''u'', key_of ''a'')], cl_cache = [], cl_sent = []\<rparr>"
  let ?r0 = "\<lparr>cu_state = ?s, cu_now = 0, cu_missed = [], cu_read = [], cu_old = []\<rparr>"
  let ?r1 = "?r0\<lparr>cu_missed := [(''u'', 0)]\<rparr>" and ?r2 = "?r0\<lparr>cu_read := [(''u'', key_of ''a'', 0)]\<rparr>" and ?r3 = "?r0\<lparr>cu_state := ?s\<lparr>cl_cache := [(''u'', key_of ''a'', 0)]\<rparr>\<rparr>"
  have "cred_step ?r0 ?r1" using cred_step.lookup_misses[of ?r0 "''u''"] by (simp add: cached_credentials_def)
  moreover have "cred_step ?r1 ?r2" using cred_step.lookup_reads[of "''u''" 0 ?r1] by (simp add: stored_credentials_def)
  moreover have "cred_step ?r2 ?r3" using cred_step.lookup_stores[of "''u''" "key_of ''a''" 0 ?r2] by (simp add: store_credentials_def Let_def)
  ultimately have "cred_step\<^sup>*\<^sup>* ?r0 ?r3" by (meson converse_rtranclp_into_rtranclp rtranclp.rtrancl_refl)
  from credentials_are_recent[OF this, of "''u''" "key_of ''a''"] show ?thesis by (simp add: cached_credentials_def CACHE_TTL_def)
qed

text \<open>How a URL parser resolves the segments of a path: a dot is dropped and two dots drop the segment before.\<close>

fun dot_segments :: "string list \<Rightarrow> string list \<Rightarrow> string list" where
  "dot_segments acc [] = rev acc"
| "dot_segments acc (x # xs) =
     (if x = ''..'' then (if xs = [] then rev ([] # tl acc) else dot_segments (tl acc) xs)
      else if x = ''.'' then (if xs = [] then rev ([] # acc) else dot_segments acc xs)
      else dot_segments (x # acc) xs)"

definition resolved_path :: "string \<Rightarrow> string list" where
  "resolved_path path = dot_segments [] (tl (js_split CHR ''/'' path))"

definition plain_segment :: "string \<Rightarrow> bool" where
  "plain_segment t \<longleftrightarrow> CHR ''/'' \<notin> set t \<and> t \<noteq> ''.'' \<and> t \<noteq> ''..''"

abbreviation "climbing_id victim j \<equiv> ''../../'' @ victim @ ''/member/'' @ j"

section \<open>Addresses of members\<close>

lemma split_segment: "CHR ''/'' \<notin> set t \<Longrightarrow> js_split CHR ''/'' (t @ CHR ''/'' # rest) = t # js_split CHR ''/'' rest"
  by (rule js_split_append)

lemma member_segments:
  assumes "plain_segment nwid"
  shows "js_split CHR ''/'' (member_addr [] False nwid i) = [[], ''controller'', ''network'', nwid, ''member''] @ js_split CHR ''/'' i"
proof -
  have "js_split CHR ''/'' (nwid @ CHR ''/'' # ''member'' @ CHR ''/'' # i) = nwid # ''member'' # js_split CHR ''/'' i"
    using assms by (subst split_segment, simp add: plain_segment_def, subst split_segment) simp_all
  moreover have "js_split CHR ''/'' ([] @ CHR ''/'' # ''controller'' @ CHR ''/'' # ''network'' @ CHR ''/'' # r) = [[], ''controller'', ''network''] @ js_split CHR ''/'' r" for r
    by (subst split_segment, simp, subst split_segment, simp, subst split_segment) simp_all
  ultimately show ?thesis by (simp add: member_addr_def network_addr_def)
qed

lemma plain_member_path:
  assumes "plain_segment nwid" "plain_segment i"
  shows "resolved_path (member_addr [] False nwid i) = [''controller'', ''network'', nwid, ''member'', i]"
  using assms js_split_no_sep[of "CHR ''/''" i] by (simp add: resolved_path_def member_segments) (simp add: plain_segment_def)

lemma climbing_path:
  assumes "plain_segment nwid" "plain_segment victim" "plain_segment j"
  shows "resolved_path (member_addr [] False nwid (climbing_id victim j)) = [''controller'', ''network'', victim, ''member'', j]"
proof -
  have v: "js_split CHR ''/'' (victim @ CHR ''/'' # ''member'' @ CHR ''/'' # j) = [victim, ''member'', j]"
    using assms(2,3) by (subst split_segment, simp add: plain_segment_def, subst split_segment) (simp_all add: plain_segment_def js_split_no_sep)
  have e: "climbing_id victim j = ''..'' @ CHR ''/'' # ''..'' @ CHR ''/'' # victim @ CHR ''/'' # ''member'' @ CHR ''/'' # j" by simp
  have "js_split CHR ''/'' (climbing_id victim j) = [''..'', ''..'', victim, ''member'', j]"
    unfolding e by (subst split_segment, simp, subst split_segment, simp, subst v) (rule refl)
  then show ?thesis using assms by (simp add: resolved_path_def member_segments) (simp add: plain_segment_def)
qed

lemma update_reaches_controller:
  assumes "may_use env nwid" "pm_name p = None" "pm_ipAssignments p = None"
  shows "MemberUpdate False nwid i p \<in> set (pr_calls (snd (member_Update env None False nwid i p s)))"
proof -
  have st: "set (pr_calls u) \<subseteq> set (pr_calls (snd (sbind (store_params env nwid i p rv u) (\<lambda>_ s3. (Inr d, s3)))))" for rv d u
    by (rule sbind_keeps[of "\<lambda>v. set (pr_calls u) \<subseteq> set (pr_calls v)"]) (simp_all add: store_calls)
  have "MemberUpdate False nwid i p \<in> set (pr_calls (snd (update_body env None False nwid i p t)))" for t
  proof (cases "pe_update env False nwid i p")
    case (Some dr)
    obtain d rv where "dr = (d, rv)" by fastforce
    then show ?thesis using assms(2,3) Some st[of "send (MemberUpdate False nwid i p) t" rv d]
      by (simp add: update_body_def rename_targets_def send_def Let_def unnamed_no_upsert)
  qed (use assms in \<open>simp add: update_body_def rename_targets_def send_def Let_def unnamed_no_upsert\<close>)
  then show ?thesis using assms(1) by (simp add: member_Update_def permitted_snd log_action_def)
qed

text \<open>C39. A member id can climb out of its network: the ids of members are not checked when a member is changed, so that a caller
  with access to one network can send the controller an update whose address resolves to a member of any other
  network, while an id without a slash stays in its network.\<close>

theorem member_id_reaches_other_networks:
  assumes "may_use env nwid" "plain_segment nwid" "plain_segment victim" "plain_segment j"
  shows "MemberUpdate False nwid (climbing_id victim j) (no_params\<lparr>pm_authorized := Some True\<rparr>)
      \<in> set (pr_calls (snd (member_Update env None False nwid (climbing_id victim j) (no_params\<lparr>pm_authorized := Some True\<rparr>) s)))
    \<and> resolved_path (member_addr [] False nwid (climbing_id victim j)) = resolved_path (member_addr [] False victim j)"
proof -
  show ?thesis using update_reaches_controller[OF assms(1)] climbing_path[OF assms(2-4)] plain_member_path[OF assms(3,4)] by simp
qed

theorem member_id_reaches_other_networks_witness:
  "resolved_path (member_addr [] False ''abcdef0123000001'' (climbing_id ''abcdef0123000002'' ''1234567890''))
     = resolved_path (member_addr [] False ''abcdef0123000002'' ''1234567890'')"
proof -
  have "may_use (demo_proc demo_sync) ''abcdef0123000001''" "plain_segment ''abcdef0123000001''" "plain_segment ''abcdef0123000002''" "plain_segment ''1234567890''"
    by code_simp+
  from member_id_reaches_other_networks[OF this] show ?thesis by blast
qed

section \<open>Batches\<close>

lemma all_ok_append: "all_ok (xs @ ys) = (case all_ok xs of Inl e \<Rightarrow> Inl e | Inr a \<Rightarrow> (case all_ok ys of Inl e \<Rightarrow> Inl e | Inr b \<Rightarrow> Inr (a @ b)))"
proof (induction xs)
  case (Cons x xs)
  then show ?case by (cases x) (auto split: sum.split)
qed (simp split: sum.split)

lemma send_all_append: "send_all env h (as @ bs) s = (let (rs, s1) = send_all env h as s; (rs', s2) = send_all env h bs s1 in (rs @ rs', s2))"
  by (induction as arbitrary: s) (auto simp: Let_def case_prod_beta)

text \<open>Fetching in batches gives what one batch of all would give when every request succeeds.\<close>

lemma batches_ok: "promise_all env h as s = (Inr xs, s') \<Longrightarrow> fetch_batches env h as s = (Inr xs, s')"
proof (induction env h as s arbitrary: xs s' rule: fetch_batches.induct)
  case (1 env h s)
  then show ?case by (simp add: promise_all_def)
next
  case (2 env h a as s)
  let ?a = "take 5 (a # as)" and ?b = "drop 5 (a # as)"
  obtain rs s1 where r: "send_all env h ?a s = (rs, s1)" by fastforce
  obtain rs' s2 where r': "send_all env h ?b s1 = (rs', s2)" by fastforce
  have "send_all env h (?a @ ?b) s = (rs @ rs', s2)" unfolding send_all_append r Let_def prod.case r' by (rule refl)
  then have "send_all env h (a # as) s = (rs @ rs', s2)" by (simp only: append_take_drop_id)
  then have "all_ok (rs @ rs') = Inr xs" "s2 = s'" using 2(2) by (auto simp: promise_all_def)
  then obtain x y where xy: "all_ok rs = Inr x" "all_ok rs' = Inr y" "xs = x @ y" by (auto simp: all_ok_append split: sum.split_asm)
  have "promise_all env h ?a s = (Inr x, s1)" "promise_all env h ?b s1 = (Inr y, s')"
    using r r' xy \<open>s2 = s'\<close> by (simp_all add: promise_all_def Let_def del: take_Suc_Cons drop_Suc_Cons)
  then show ?case unfolding fetch_batches.simps(2) using 2(1)[OF \<open>promise_all env h ?b s1 = (Inr y, s')\<close>] by (simp add: xy(3) del: take_Suc_Cons drop_Suc_Cons)
qed

section \<open>Flattened objects\<close>

lemma map_of_spread: "map_of (js_spread a b) k = (case map_of (rev b) k of None \<Rightarrow> map_of a k | Some v \<Rightarrow> Some v)"
proof (induction b arbitrary: a)
  case (Cons x b)
  obtain k' v where x: "x = (k', v)" by fastforce
  have "map_of (js_spread (map_set k' v a) b) k = (case map_of (rev b) k of None \<Rightarrow> map_of (map_set k' v a) k | Some v \<Rightarrow> Some v)" by (rule Cons.IH)
  then show ?case by (auto simp: x js_spread_def map_add_def split: option.split)
qed (simp add: js_spread_def)

text \<open>In a flattened member the fields of the member win over those of its configuration.\<close>

lemma flattened_field:
  assumes "distinct (map fst (fields_of m))" "k \<noteq> ''id''" "k \<noteq> ''config''" "map_of (fields_of m) k = Some v"
  shows "js_field k (flattenCentralMember m) = v"
proof -
  have "map_of (other_props m) k = Some v" using assms(2-4)
  proof -
    have "map_of (filter (\<lambda>(k, _). k \<noteq> ''id'' \<and> k \<noteq> ''config'') xs) k = map_of xs k" for xs :: "(string \<times> js_value) list"
      using assms(2,3) by (induction xs) auto
    then show ?thesis using assms(4) by (simp add: other_props_def)
  qed
  moreover have "distinct (map fst (other_props m))" using assms(1) unfolding other_props_def by (rule distinct_map_filter)
  ultimately have "map_of (rev (other_props m)) k = Some v" by (metis map_of_eq_Some_iff distinct_rev rev_map set_rev)
  then show ?thesis by (simp add: flattenCentralMember_def js_field_def map_of_spread)
qed

end
