(* ===== verification/Rest_Api.thy ===== *)
theory Rest_Api
  imports Network_Procedures Controller_Client Edge_Config
begin

text \<open>
  The REST interface (\<^verbatim>\<open>pages/api/v1\<close> with the schemas of \<^verbatim>\<open>server/api/v1Schemas\<close>): the handlers of networks and of
  members, personal and of organisations, behind their limiter, their token guard and their schemas.

  The state adds two parts to the state of the network procedures: the requests that handlers send to the controller
  themselves, in their order, and the counters of the limiters. A body is the JavaScript value that the server parsed.
  An outcome is the response that ends a handler early, or the body of a successful response. The environment holds
  the decoding of API keys, the environments of the procedures, and the controller's answers, which may depend on what
  was sent before.
\<close>

section \<open>Data\<close>

type_synonym js_fields = "(string \<times> js_value) list"

datatype rest_call = RestMemberUpdate string string js_fields | RestNetworkUpdate string js_fields

text \<open>The path of a request to the controller. The ids are put into it as they are.\<close>

fun rest_call_path :: "rest_call \<Rightarrow> string" where
  "rest_call_path (RestMemberUpdate nwid i p) = member_addr [] False nwid i"
| "rest_call_path (RestNetworkUpdate nwid p) = network_addr [] False nwid"

fun net_call_path :: "net_call \<Rightarrow> string" where
  "net_call_path (MemberCall (MemberUpdate central nwid i p)) = member_addr [] central nwid i"
| "net_call_path (MemberCall (MemberUnhide central nwid i)) = member_addr [] central nwid i"
| "net_call_path (MemberCall (MemberDelete central nwid i)) = member_addr [] central nwid i"
| "net_call_path (NetworkUpdate central nwid p) = network_addr [] central nwid"
| "net_call_path (NetworkDelete central nwid) = network_addr [] central nwid"

text \<open>The network a path really addresses, once its dots are resolved.\<close>

definition target_of :: "string \<Rightarrow> string option" where
  "target_of path =
     (let ps = resolved_path path; qs = (if ps \<noteq> [] \<and> hd ps = ''controller'' then tl ps else ps)
      in case qs of w # n # _ \<Rightarrow> if w = ''network'' then Some n else None | _ \<Rightarrow> None)"

text \<open>An id of letters and digits, as those of networks and members are.\<close>

definition id_chars :: string where
  "id_chars = ''0123456789abcdefghijklmnopqrstuvwxyzABCDEFGHIJKLMNOPQRSTUVWXYZ''"

definition plain_id :: "string \<Rightarrow> bool" where
  "plain_id t \<longleftrightarrow> t \<noteq> [] \<and> list_all (\<lambda>c. c \<in> set id_chars) t"

record rest_state =
  rs_net :: net_state
  rs_sent :: "rest_call list"
  rs_limits :: token_cache

record rest_env =
  rv_decode :: "string \<Rightarrow> decoded"
  rv_net :: net_env
  rv_proc :: proc_env
  rv_window :: int
  rv_limit :: nat
  rv_memberUpdate :: "string \<Rightarrow> string \<Rightarrow> js_fields \<Rightarrow> bool"
  rv_networkUpdate :: "string \<Rightarrow> js_fields \<Rightarrow> bool"
  rv_memberDetails :: "rest_call list \<Rightarrow> string \<Rightarrow> string \<Rightarrow> member_detail option option"
  rv_membersOf :: "string \<Rightarrow> member_detail list option"
  rv_network :: "rest_call list \<Rightarrow> string \<Rightarrow> (js_value \<times> nat) option"

text \<open>What ends a handler: an exception, which becomes a response, or a response.\<close>

datatype rest_stop = Threw exn | Replied response

type_synonym 'a rest_step = "(rest_stop + 'a) \<times> rest_state"

type_synonym 'a rest_reply = "(response + 'a) \<times> rest_state"

fun stop_response :: "rest_stop \<Rightarrow> response" where
  "stop_response (Threw e) = handleApiErrors e"
| "stop_response (Replied r) = r"

definition handled :: "'a rest_step \<Rightarrow> 'a rest_reply" where
  "handled r = (case fst r of Inl e \<Rightarrow> Inl (stop_response e) | Inr x \<Rightarrow> Inr x, snd r)"

definition throwing :: "exn + 'a \<Rightarrow> rest_stop + 'a" where
  "throwing r = (case r of Inl e \<Rightarrow> Inl (Threw e) | Inr x \<Rightarrow> Inr x)"

definition reply :: "nat \<Rightarrow> string \<Rightarrow> rest_stop" where
  "reply st m = Replied \<lparr>status = st, message = m\<rparr>"

definition rest_db :: "rest_state \<Rightarrow> db" where
  "rest_db s = nt_db (rs_net s)"

definition rest_rows :: "rest_state \<Rightarrow> member_row list" where
  "rest_rows s = ms_rows (nt_members (rs_net s))"

definition put_rest_rows :: "member_row list \<Rightarrow> rest_state \<Rightarrow> rest_state" where
  "put_rest_rows rows s = s\<lparr>rs_net := (rs_net s)\<lparr>nt_members := (nt_members (rs_net s))\<lparr>ms_rows := rows\<rparr>\<rparr>\<rparr>"

section \<open>Calling procedures\<close>

text \<open>The session of the caller holds the user id only, so that no role is known.\<close>

definition net_caller :: "rest_env \<Rightarrow> string \<Rightarrow> net_env" where
  "net_caller env userId = (rv_net env)\<lparr>ne_user := userId, ne_role := USER\<rparr>"

definition call_net :: "(net_state \<Rightarrow> 'a net_reply) \<Rightarrow> rest_state \<Rightarrow> 'a rest_step" where
  "call_net f s = (let (r, n) = f (rs_net s) in (throwing r, s\<lparr>rs_net := n\<rparr>))"

definition proc_caller :: "rest_env \<Rightarrow> string \<Rightarrow> db \<Rightarrow> proc_env" where
  "proc_caller env userId d = (rv_proc env)\<lparr>pe_sync := (pe_sync (rv_proc env))\<lparr>se_db := d, se_userId := userId\<rparr>\<rparr>"

definition proc_of :: "net_state \<Rightarrow> proc_state" where
  "proc_of n = \<lparr>pr_members = nt_members n, pr_calls = [], pr_log = nt_log n,
     pr_notations = map (\<lambda>no. (no_id no, no_nwid no)) (nt_notations n), pr_marks = nt_marks n, pr_orgSettings = []\<rparr>"

definition call_stash :: "rest_env \<Rightarrow> string \<Rightarrow> string option \<Rightarrow> string \<Rightarrow> string \<Rightarrow> rest_state \<Rightarrow> member_detail option rest_step" where
  "call_stash env userId org nwid i s =
     (let n = rs_net s; (r, p) = stash (proc_caller env userId (nt_db n)) org nwid i (proc_of n)
      in (throwing r, s\<lparr>rs_net := n\<lparr>nt_members := pr_members p, nt_log := pr_log p, nt_calls := nt_calls n @ map MemberCall (pr_calls p)\<rparr>\<rparr>))"

section \<open>Entry of a request\<close>

text \<open>Every route has one counter for all callers.\<close>

definition with_limit :: "rest_env \<Rightarrow> int \<Rightarrow> string \<Rightarrow> (rest_state \<Rightarrow> 'a rest_reply) \<Rightarrow> rest_state \<Rightarrow> 'a rest_reply" where
  "with_limit env now token h s =
     (let (r, c) = check_rate (rv_window env) False now (rv_limit env) token ''global'' (rs_limits s); s1 = s\<lparr>rs_limits := c\<rparr>
      in if cr_allowed r then h s1 else (Inl \<lparr>status = 429, message = ''Rate limit exceeded''\<rparr>, s1))"

definition method_not_allowed :: "rest_state \<Rightarrow> 'a rest_reply" where
  "method_not_allowed s = (Inl \<lparr>status = 405, message = ''Method Not Allowed''\<rparr>, s)"

definition org_route :: "rest_env \<Rightarrow> int \<Rightarrow> role \<Rightarrow> bool \<Rightarrow> api_request \<Rightarrow> (handler_context \<Rightarrow> rest_state \<Rightarrow> 'a rest_step) \<Rightarrow> rest_state \<Rightarrow> 'a rest_reply" where
  "org_route env now requiredRole requireNetworkId req h s =
     (case SecuredOrganizationApiRoute (rv_decode env) now (rest_db s) requiredRole requireNetworkId True req of
        Inl r \<Rightarrow> (Inl r, s) | Inr c \<Rightarrow> handled (h c s))"

definition private_route :: "rest_env \<Rightarrow> int \<Rightarrow> bool \<Rightarrow> bool \<Rightarrow> bool \<Rightarrow> api_request \<Rightarrow> (handler_context \<Rightarrow> rest_state \<Rightarrow> 'a rest_step) \<Rightarrow> rest_state \<Rightarrow> 'a rest_reply" where
  "private_route env now requireNetworkId requireMemberId requireAdmin req h s =
     (case SecuredPrivateApiRoute (rv_decode env) now (rest_db s) requireNetworkId requireMemberId requireAdmin req of
        Inl r \<Rightarrow> (Inl r, s) | Inr c \<Rightarrow> handled (h c s))"

section \<open>Schemas\<close>

fun is_text :: "js_value \<Rightarrow> bool" where
  "is_text (JText t) = True"
| "is_text _ = False"

fun is_bool :: "js_value \<Rightarrow> bool" where
  "is_bool (JBool b) = True"
| "is_bool _ = False"

fun is_num :: "js_value \<Rightarrow> bool" where
  "is_num (JInt n) = True"
| "is_num _ = False"

fun is_array :: "(js_value \<Rightarrow> bool) \<Rightarrow> js_value \<Rightarrow> bool" where
  "is_array P (JArr vs) = list_all P vs"
| "is_array P _ = False"

fun is_record :: "js_value \<Rightarrow> bool" where
  "is_record (JObj fs) = True"
| "is_record _ = False"

fun is_pair :: "js_value \<Rightarrow> bool" where
  "is_pair (JArr [a, b]) = (is_num a \<and> is_num b)"
| "is_pair _ = False"

definition accept :: "(js_value \<Rightarrow> bool) \<Rightarrow> js_value \<Rightarrow> js_value option" where
  "accept P v = (if P v then Some v else None)"

text \<open>A strict object of optional fields: the parsed object has the given fields in the order of the schema.\<close>

definition parse_strict :: "(string \<times> (js_value \<Rightarrow> js_value option)) list \<Rightarrow> js_fields \<Rightarrow> exn + js_fields" where
  "parse_strict shape fs =
     (if list_all (\<lambda>(k, v). case map_of shape k of None \<Rightarrow> False | Some p \<Rightarrow> p v \<noteq> None) fs
      then Inr (List.map_filter (\<lambda>(k, p). map_option (Pair k) (Option.bind (map_of fs k) p)) shape) else Inl ZodError)"

fun body_record :: "js_value \<Rightarrow> exn + js_fields" where
  "body_record (JObj fs) = Inr fs"
| "body_record _ = Inl ZodError"

definition body_or_empty :: "js_value \<Rightarrow> exn + js_fields" where
  "body_or_empty b = (if b = JUndefined then Inr [] else body_record b)"

definition text_param :: "string option \<Rightarrow> exn + string" where
  "text_param v = of_option ZodError v"

definition PostBodySchema :: "(string \<times> (js_value \<Rightarrow> js_value option)) list" where
  "PostBodySchema = [(''name'', accept is_text), (''description'', accept is_text), (''authorized'', accept is_bool), (''activeBridge'', accept is_bool),
     (''capabilities'', accept (is_array is_num)), (''ipAssignments'', accept (is_array is_text)), (''noAutoAssignIps'', accept is_bool), (''ssoExempt'', accept is_bool),
     (''tags'', accept (is_array is_pair)), (''deleted'', accept is_bool)]"

definition updateableFieldsMetaSchema :: "(string \<times> (js_value \<Rightarrow> js_value option)) list" where
  "updateableFieldsMetaSchema = [(''name'', accept is_text), (''description'', accept is_text), (''authorized'', accept is_bool), (''deleted'', accept is_bool)]"

definition parse_dns :: "js_value \<Rightarrow> js_value option" where
  "parse_dns v =
     (if is_record v \<and> is_text (js_field ''domain'' v) \<and> is_array is_text (js_field ''servers'' v)
      then Some (JObj [(''domain'', js_field ''domain'' v), (''servers'', js_field ''servers'' v)]) else None)"

definition NetworkUpdateSchema :: "(string \<times> (js_value \<Rightarrow> js_value option)) list" where
  "NetworkUpdateSchema = [(''name'', accept is_text), (''description'', accept is_text), (''flowRule'', accept is_text), (''mtu'', accept is_text), (''private'', accept is_bool),
     (''dns'', parse_dns), (''ipAssignmentPools'', accept (is_array (\<lambda>_. True))), (''routes'', accept (is_array (\<lambda>_. True))), (''v4AssignMode'', accept is_record),
     (''v6AssignMode'', accept is_record)]"

section \<open>Updating members\<close>

datatype destination = Database | Controller

definition org_member_fields :: "(string \<times> destination list) list" where
  "org_member_fields = [(''name'', [Database, Controller]), (''authorized'', [Database, Controller]), (''activeBridge'', [Database, Controller]),
     (''capabilities'', [Controller]), (''ipAssignments'', [Database, Controller]), (''noAutoAssignIps'', [Database, Controller]),
     (''ssoExempt'', [Controller]), (''tags'', [Controller])]"

definition private_member_fields :: "(string \<times> destination list) list" where
  "private_member_fields = [(''name'', [Database, Controller]), (''description'', [Database]), (''authorized'', [Database, Controller])]"

definition payload_for :: "(string \<times> destination list) list \<Rightarrow> destination \<Rightarrow> js_fields \<Rightarrow> js_fields" where
  "payload_for dests dest body =
     filter (\<lambda>(k, _). case map_of dests k of None \<Rightarrow> False | Some ds \<Rightarrow> dest \<in> set ds) body"

fun texts_of :: "js_value list \<Rightarrow> string list" where
  "texts_of [] = []"
| "texts_of (JText t # vs) = t # texts_of vs"
| "texts_of (_ # vs) = texts_of vs"

fun put_field :: "string \<times> js_value \<Rightarrow> member_row \<Rightarrow> member_row" where
  "put_field (k, JText t) m = (if k = ''name'' then m\<lparr>m_name := Some t\<rparr> else if k = ''description'' then m\<lparr>m_description := Some t\<rparr> else m)"
| "put_field (k, JBool b) m =
     (if k = ''authorized'' then m\<lparr>m_authorized := Some b\<rparr> else if k = ''activeBridge'' then m\<lparr>m_activeBridge := b\<rparr>
      else if k = ''noAutoAssignIps'' then m\<lparr>m_noAutoAssignIps := b\<rparr> else if k = ''deleted'' then m\<lparr>m_deleted := Some b\<rparr>
      else if k = ''permanentlyDeleted'' then m\<lparr>m_permanentlyDeleted := Some b\<rparr> else m)"
| "put_field (k, JArr vs) m = (if k = ''ipAssignments'' then m\<lparr>m_ipAssignments := texts_of vs\<rparr> else m)"
| "put_field _ m = m"

definition restored_fields :: js_fields where
  "restored_fields = [(''deleted'', JBool False), (''permanentlyDeleted'', JBool False)]"

record merged_member =
  mg_row :: "member_row option"
  mg_detail :: "member_detail option"
  mg_name :: "string option"

definition merged :: "member_row option \<Rightarrow> member_detail option \<Rightarrow> merged_member" where
  "merged row d = \<lparr>mg_row = map_option serializeMemberRow row, mg_detail = d,
     mg_name = preferredMemberName (Option.bind row m_name) (Option.bind d md_name)\<rparr>"

definition rest_member_update :: "rest_env \<Rightarrow> string \<Rightarrow> string \<Rightarrow> js_fields \<Rightarrow> rest_state \<Rightarrow> unit rest_step" where
  "rest_member_update env nwid i p s =
     (if p = [] then (Inr (), s)
      else (if rv_memberUpdate env nwid i p then Inr () else Inl (Threw controller_failed), s\<lparr>rs_sent := rs_sent s @ [RestMemberUpdate nwid i p]\<rparr>))"

definition deleted_error :: rest_stop where
  "deleted_error = reply 400 ''Setting `deleted: true` is not supported. Use the DELETE method to stash a member.''"

definition stashed_error :: rest_stop where
  "stashed_error = reply 409 ''Member is deleted. Set `deleted: false` to restore the member before modifying it.''"

text \<open>The member rows of a network; \<^verbatim>\<open>m_deleted\<close> of a row is read as a condition.\<close>

definition is_stashed :: "member_row option \<Rightarrow> bool" where
  "is_stashed row = (case row of None \<Rightarrow> False | Some m \<Rightarrow> m_deleted m = Some True)"

definition write_member :: "string \<Rightarrow> string \<Rightarrow> js_fields \<Rightarrow> rest_state \<Rightarrow> rest_state" where
  "write_member nwid i p s = (if p = [] then s else put_rest_rows (update_rows nwid i (fold put_field p) (rest_rows s)) s)"

text \<open>A created row takes the fields of the request; an empty name is stored as none.\<close>

definition create_member :: "int \<Rightarrow> string \<Rightarrow> string \<Rightarrow> js_fields \<Rightarrow> rest_state \<Rightarrow> rest_state" where
  "create_member now nwid i p s =
     (let n = rs_net s; ms = nt_members n;
          name = (case map_of p ''name'' of Some (JText t) \<Rightarrow> if t = [] then None else Some t | _ \<Rightarrow> None);
          given = filter (\<lambda>(k, _). k \<in> {''authorized'', ''ipAssignments'', ''noAutoAssignIps'', ''activeBridge''}) p;
          row = fold put_field given ((new_row (ms_nextId ms) now nwid i name)\<lparr>m_address := Some i, m_lastSeen := Some now\<rparr>)
      in s\<lparr>rs_net := n\<lparr>nt_members := ms\<lparr>ms_rows := ms_rows ms @ [row], ms_nextId := ms_nextId ms + 1\<rparr>\<rparr>\<rparr>)"

definition cache_answer :: "string \<Rightarrow> member_detail option \<Rightarrow> rest_state \<Rightarrow> rest_state" where
  "cache_answer nwid d s = (case d of None \<Rightarrow> s | Some x \<Rightarrow> put_rest_rows (cacheControllerMember nwid x (rest_rows s)) s)"


text \<open>The bodies of successful responses.\<close>

datatype rest_body =
    BMember merged_member
  | BStashed "member_detail option"
  | BNetwork "string option option" js_value "nat option"
  | BNetworks "(network_row \<times> string option \<times> js_value \<times> nat) list"
  | BMembers "merged_member list"
  | BServed members_answer
  | BEmpty

definition org_member_body :: "rest_env \<Rightarrow> int \<Rightarrow> string \<Rightarrow> string \<Rightarrow> string \<Rightarrow> string \<Rightarrow> js_fields \<Rightarrow> rest_state \<Rightarrow> rest_body rest_step" where
  "org_member_body env now userId nwid org i body s =
     (if map_of body ''deleted'' = Some (JBool True) then (Inl deleted_error, s)
      else case find (\<lambda>(k, _). k \<noteq> ''deleted'' \<and> map_of org_member_fields k = None) body of
        Some (k, _) \<Rightarrow> (Inl (reply 400 (''Invalid field: '' @ k)), s)
      | None \<Rightarrow>
          sbind (throwing (checkUserOrganizationRole (rest_db s) userId org USER), s) (\<lambda>_ s.
          case find (\<lambda>n. n_nwid n = nwid \<and> n_organizationId n = Some org) (networks (rest_db s)) of
            None \<Rightarrow> (Inl (reply 404 ''Network not found or access denied.''), s)
          | Some _ \<Rightarrow>
              let restore = (map_of body ''deleted'' = Some (JBool False)); row = row_at nwid i (rest_rows s);
                  db = payload_for org_member_fields Database body @ (if restore then restored_fields else [])
              in if is_stashed row \<and> \<not> restore then (Inl stashed_error, s)
                 else sbind (rest_member_update env nwid i (payload_for org_member_fields Controller body)
                          (if row = None then create_member now nwid i db s else write_member nwid i db s)) (\<lambda>_ s1.
                   let d = Option.bind (rv_memberDetails env (rs_sent s1) nwid i) id
                   in (Inr (BMember (merged (row_at nwid i (rest_rows s1)) d)), cache_answer nwid d s1))))"

definition member_context :: "handler_context \<Rightarrow> (exn + js_fields) \<Rightarrow> exn + string \<times> string \<times> string \<times> js_fields" where
  "member_context c body =
     rbind (text_param (hc_networkId c)) (\<lambda>nwid. rbind (text_param (hc_orgId c)) (\<lambda>org. rbind (text_param (hc_memberId c)) (\<lambda>i.
     rbind body (\<lambda>fs. Inr (nwid, org, i, fs)))))"

definition POST_orgUpdateNetworkMember :: "rest_env \<Rightarrow> int \<Rightarrow> api_request \<Rightarrow> js_value \<Rightarrow> rest_state \<Rightarrow> rest_body rest_reply" where
  "POST_orgUpdateNetworkMember env now req body =
     org_route env now USER True req (\<lambda>c s.
       sbind (throwing (rbind (member_context c (body_or_empty body)) (\<lambda>(nwid, org, i, fs).
                rbind (parse_strict PostBodySchema fs) (\<lambda>fs. Inr (nwid, org, i, fs)))), s) (\<lambda>(nwid, org, i, fs).
         org_member_body env now (hc_userId c) nwid org i fs))"

definition DELETE_orgStashNetworkMember :: "rest_env \<Rightarrow> int \<Rightarrow> api_request \<Rightarrow> js_value \<Rightarrow> rest_state \<Rightarrow> rest_body rest_reply" where
  "DELETE_orgStashNetworkMember env now req body =
     org_route env now USER True req (\<lambda>c s.
       sbind (throwing (member_context c (body_or_empty body)), s) (\<lambda>(nwid, org, i, _) s.
       sbind (call_stash env (hc_userId c) (Some org) nwid i s) (\<lambda>d s. (Inr (BStashed d), s))))"

definition details :: "rest_env \<Rightarrow> string \<Rightarrow> string \<Rightarrow> rest_state \<Rightarrow> member_detail option rest_step" where
  "details env nwid i s = (case rv_memberDetails env (rs_sent s) nwid i of None \<Rightarrow> Inl (Threw controller_failed) | Some d \<Rightarrow> Inr d, s)"

definition getMemberById :: "rest_env \<Rightarrow> string \<Rightarrow> string \<Rightarrow> string \<Rightarrow> rest_state \<Rightarrow> merged_member rest_step" where
  "getMemberById env userId nwid i s =
     sbind (throwing (checkNetworkAccess (rest_db s) userId nwid READ_ONLY), s) (\<lambda>_ s.
     sbind (details env nwid i s) (\<lambda>d s. (Inr (merged (row_at nwid i (rest_rows s)) d), s)))"

text \<open>The controller's object is spread last, so that its name wins.\<close>

definition GET_orgNetworkMemberById :: "rest_env \<Rightarrow> int \<Rightarrow> api_request \<Rightarrow> js_value \<Rightarrow> rest_state \<Rightarrow> rest_body rest_reply" where
  "GET_orgNetworkMemberById env now req body =
     org_route env now READ_ONLY True req (\<lambda>c s.
       sbind (throwing (member_context c (body_or_empty body)), s) (\<lambda>(nwid, org, i, _) s.
       sbind (details env nwid i s) (\<lambda>d s.
       sbind (getMemberById env (hc_userId c) nwid i s) (\<lambda>m s.
         (Inr (BMember (m\<lparr>mg_detail := (if d = None then mg_detail m else d),
            mg_name := (case Option.bind d md_name of None \<Rightarrow> mg_name m | Some t \<Rightarrow> Some t)\<rparr>)), s)))))"

definition private_context :: "handler_context \<Rightarrow> (exn + js_fields) \<Rightarrow> exn + string \<times> string \<times> js_fields" where
  "private_context c body =
     rbind (text_param (hc_networkId c)) (\<lambda>nwid. rbind (text_param (hc_memberId c)) (\<lambda>i. rbind body (\<lambda>fs. Inr (nwid, i, fs))))"

definition own_network :: "string \<Rightarrow> string \<Rightarrow> rest_state \<Rightarrow> network_row option" where
  "own_network userId nwid s = find (\<lambda>n. n_nwid n = nwid \<and> n_authorId n = Some userId) (networks (rest_db s))"

definition own_member :: "string \<Rightarrow> string \<Rightarrow> string \<Rightarrow> rest_state \<Rightarrow> member_row option" where
  "own_member userId nwid i s = Option.bind (own_network userId nwid s) (\<lambda>_. row_at nwid i (rest_rows s))"

definition private_member_body :: "rest_env \<Rightarrow> string \<Rightarrow> string \<Rightarrow> string \<Rightarrow> js_fields \<Rightarrow> rest_state \<Rightarrow> rest_body rest_step" where
  "private_member_body env userId nwid i body s =
     (if body = [] then (Inl (reply 400 ''No data provided for update''), s)
      else if map_of body ''deleted'' = Some (JBool True) then (Inl deleted_error, s)
      else
        let restore = (map_of body ''deleted'' = Some (JBool False)); row = own_member userId nwid i s;
            db = payload_for private_member_fields Database body @ (if restore then restored_fields else [])
        in if is_stashed row \<and> \<not> restore then (Inl stashed_error, s)
           else sbind (rest_member_update env nwid i (payload_for private_member_fields Controller body)
                    (if row = None then s else write_member nwid i db s)) (\<lambda>_ s1.
             sbind (details env nwid i s1) (\<lambda>d s1.
               if d = None then (Inl (reply 404 ''Member not found in controller''), s1)
               else (Inr (BMember (merged (row_at nwid i (rest_rows s1)) d)), cache_answer nwid d s1))))"

text \<open>The schema is strict, so that an empty parsed body is an empty body.\<close>

definition POST_updateNetworkMember :: "rest_env \<Rightarrow> int \<Rightarrow> api_request \<Rightarrow> js_value \<Rightarrow> rest_state \<Rightarrow> rest_body rest_reply" where
  "POST_updateNetworkMember env now req body =
     private_route env now True True False req (\<lambda>c s.
       sbind (throwing (rbind (private_context c (body_record body)) (\<lambda>(nwid, i, fs).
                rbind (parse_strict updateableFieldsMetaSchema fs) (\<lambda>fs. Inr (nwid, i, fs)))), s) (\<lambda>(nwid, i, fs).
         private_member_body env (hc_userId c) nwid i fs))"

definition DELETE_deleteNetworkMember :: "rest_env \<Rightarrow> int \<Rightarrow> api_request \<Rightarrow> js_value \<Rightarrow> rest_state \<Rightarrow> rest_body rest_reply" where
  "DELETE_deleteNetworkMember env now req body =
     private_route env now True True False req (\<lambda>c s.
       sbind (throwing (private_context c (Inr [])), s) (\<lambda>(nwid, i, _) s.
         if own_member (hc_userId c) nwid i s = None then (Inl (reply 401 ''Member or Network not found or access denied.''), s)
         else sbind (call_stash env (hc_userId c) None nwid i s) (\<lambda>d s. (Inr (BStashed d), s))))"

section \<open>Networks\<close>

definition network_details :: "rest_env \<Rightarrow> string \<Rightarrow> rest_state \<Rightarrow> (js_value \<times> nat) rest_step" where
  "network_details env nwid s = (case rv_network env (rs_sent s) nwid of None \<Rightarrow> Inl (Threw controller_failed) | Some x \<Rightarrow> Inr x, s)"

definition org_network_fields :: "(string \<times> destination list) list" where
  "org_network_fields = [(''name'', [Controller, Database]), (''description'', [Database]), (''flowRule'', []), (''mtu'', [Controller]),
     (''private'', [Controller]), (''dns'', [Controller]), (''ipAssignmentPools'', [Controller]), (''routes'', [Controller]),
     (''v4AssignMode'', [Controller]), (''v6AssignMode'', [Controller])]"

text \<open>An error of the flow rules becomes a response with its message.\<close>

definition set_rules :: "rest_env \<Rightarrow> string \<Rightarrow> string \<Rightarrow> js_value option \<Rightarrow> rest_state \<Rightarrow> unit rest_step" where
  "set_rules env userId nwid v s =
     (case v of Some (JText src) \<Rightarrow>
        (case call_net (setFlowRule (net_caller env userId) None False nwid src) s of
           (Inl (Threw e), s1) \<Rightarrow> (Inl (reply 400 (message (handleApiErrors e))), s1)
         | r \<Rightarrow> r)
      | _ \<Rightarrow> (Inr (), s))"

definition rest_network_update :: "rest_env \<Rightarrow> string \<Rightarrow> js_fields \<Rightarrow> rest_state \<Rightarrow> unit rest_step" where
  "rest_network_update env nwid p s =
     (if p = [] then (Inr (), s)
      else (if rv_networkUpdate env nwid p then Inr () else Inl (Threw controller_failed), s\<lparr>rs_sent := rs_sent s @ [RestNetworkUpdate nwid p]\<rparr>))"

fun write_network :: "string \<Rightarrow> string \<times> js_value \<Rightarrow> net_state \<Rightarrow> net_state" where
  "write_network nwid (k, JText t) n =
     (if k = ''name'' then set_network nwid (\<lambda>x. x\<lparr>n_name := Some t\<rparr>) n
      else if k = ''description'' then set_meta nwid (\<lambda>m. m\<lparr>nm_description := Some t\<rparr>) n else n)"
| "write_network nwid _ n = n"

definition network_body :: "rest_env \<Rightarrow> string \<Rightarrow> string \<Rightarrow> js_fields \<Rightarrow> rest_state \<Rightarrow> rest_body rest_step" where
  "network_body env userId nwid body s =
     sbind (set_rules env userId nwid (map_of body ''flowRule'') s) (\<lambda>_ s.
     sbind (call_net (getNetworkById (net_caller env userId) nwid) s) (\<lambda>_ s.
     sbind (rest_network_update env nwid (payload_for org_network_fields Controller body) s) (\<lambda>_ s.
     sbind (network_details env nwid
              (s\<lparr>rs_net := fold (write_network nwid) (payload_for org_network_fields Database body) (rs_net s)\<rparr>)) (\<lambda>(v, _) s.
       (Inr (BNetwork None v None), s)))))"

definition POST_network :: "rest_env \<Rightarrow> int \<Rightarrow> api_request \<Rightarrow> js_value \<Rightarrow> rest_state \<Rightarrow> rest_body rest_reply" where
  "POST_network env now req body =
     org_route env now READ_ONLY True req (\<lambda>c s.
       sbind (throwing (rbind (text_param (hc_networkId c)) (\<lambda>nwid. rbind (body_record body) (\<lambda>fs.
                rbind (parse_strict NetworkUpdateSchema fs) (\<lambda>fs. Inr (nwid, fs))))), s) (\<lambda>(nwid, fs).
         network_body env (hc_userId c) nwid fs))"

text \<open>The network is looked up by its id alone.\<close>

definition GET_org_network :: "rest_env \<Rightarrow> int \<Rightarrow> api_request \<Rightarrow> rest_state \<Rightarrow> rest_body rest_reply" where
  "GET_org_network env now req =
     org_route env now READ_ONLY True req (\<lambda>c s.
       let nwid = the (hc_networkId c)
       in if find_network nwid (rest_db s) = None then (Inl (reply 401 ''Network not found or access denied.''), s)
          else sbind (network_details env nwid s) (\<lambda>(v, _) s. (Inr (BNetwork (Some (nm_description (meta_of nwid (rs_net s)))) v None), s)))"

definition DELETE_network :: "rest_env \<Rightarrow> int \<Rightarrow> api_request \<Rightarrow> rest_state \<Rightarrow> rest_body rest_reply" where
  "DELETE_network env now req =
     org_route env now USER True req (\<lambda>c s.
       sbind (call_net (deleteNetwork (net_caller env (hc_userId c)) (hc_orgId c) False False (the (hc_networkId c))) s) (\<lambda>_ s. (Inr BEmpty, s)))"

definition all_members :: members_query where
  "all_members = \<lparr>mq_page = 0, mq_pageSize = 100000, mq_sync = True, mq_search = None, mq_sortBy = ''id'', mq_desc = False\<rparr>"

definition GET_orgNetworkMembers :: "rest_env \<Rightarrow> int \<Rightarrow> api_request \<Rightarrow> rest_state \<Rightarrow> rest_body rest_reply" where
  "GET_orgNetworkMembers env now req =
     org_route env now READ_ONLY True req (\<lambda>c s.
       let nwid = the (hc_networkId c); e = net_caller env (hc_userId c)
       in sbind (throwing (checkUserOrganizationRole (rest_db s) (hc_userId c) (the (hc_orgId c)) USER), s) (\<lambda>_ s.
          sbind (call_net (getNetworkById e nwid) s) (\<lambda>_ s.
          sbind (call_net (getNetworkMembers e nwid all_members) s) (\<lambda>a s. (Inr (BServed a), s)))))"

definition GET_network :: "rest_env \<Rightarrow> int \<Rightarrow> api_request \<Rightarrow> rest_state \<Rightarrow> rest_body rest_reply" where
  "GET_network env now req =
     private_route env now True False False req (\<lambda>c s.
       let nwid = the (hc_networkId c)
       in sbind (network_details env nwid s) (\<lambda>(v, n) s.
            (Inr (BNetwork (map_option (\<lambda>_. nm_description (meta_of nwid (rs_net s))) (own_network (hc_userId c) nwid s)) v (Some n)), s)))"

definition GET_networkMembers :: "rest_env \<Rightarrow> int \<Rightarrow> api_request \<Rightarrow> rest_state \<Rightarrow> rest_body rest_reply" where
  "GET_networkMembers env now req =
     private_route env now True False False req (\<lambda>c s.
       (case rv_membersOf env (the (hc_networkId c)) of
          None \<Rightarrow> Inl (Threw controller_failed)
        | Some ds \<Rightarrow> Inr (BMembers (map (\<lambda>d. merged (row_at (md_nwid d) (md_id d) (rest_rows s)) (Some d)) ds)), s))"

definition network_entry :: "rest_env \<Rightarrow> rest_state \<Rightarrow> network_row \<Rightarrow> rest_stop + network_row \<times> string option \<times> js_value \<times> nat" where
  "network_entry env s n =
     (case fst (network_details env (n_nwid n) s) of Inl e \<Rightarrow> Inl e
      | Inr (v, k) \<Rightarrow> Inr (n, nm_description (meta_of (n_nwid n) (rs_net s)), v, k))"

definition GET_userNetworks :: "rest_env \<Rightarrow> int \<Rightarrow> api_request \<Rightarrow> rest_state \<Rightarrow> rest_body rest_reply" where
  "GET_userNetworks env now req =
     private_route env now False False False req (\<lambda>c s.
       if find_user (hc_userId c) (rest_db s) = None then (Inl (reply 404 ''User or networks not found''), s)
       else (case all_ok (map (network_entry env s) (filter (\<lambda>n. n_authorId n = Some (hc_userId c)) (networks (rest_db s)))) of
               Inl e \<Rightarrow> Inl e | Inr xs \<Rightarrow> Inr (BNetworks xs), s))"

section \<open>Routes\<close>

text \<open>The handlers that change state, by route and method.\<close>

definition orgNetworkHandler :: "rest_env \<Rightarrow> int \<Rightarrow> string \<Rightarrow> api_request \<Rightarrow> js_value \<Rightarrow> rest_state \<Rightarrow> rest_body rest_reply" where
  "orgNetworkHandler env now httpMethod req body =
     with_limit env now ''ORGANIZATION_NETWORKID_CACHE_TOKEN''
       (if httpMethod = ''GET'' then GET_org_network env now req
        else if httpMethod = ''POST'' then POST_network env now req body
        else if httpMethod = ''DELETE'' then DELETE_network env now req
        else method_not_allowed)"

definition orgMemberHandler :: "rest_env \<Rightarrow> int \<Rightarrow> string \<Rightarrow> api_request \<Rightarrow> js_value \<Rightarrow> rest_state \<Rightarrow> rest_body rest_reply" where
  "orgMemberHandler env now httpMethod req body =
     with_limit env now ''ORGANIZATION_MEMBERID_CACHE_TOKEN''
       (if httpMethod = ''GET'' then GET_orgNetworkMemberById env now req body
        else if httpMethod = ''POST'' then POST_orgUpdateNetworkMember env now req body
        else if httpMethod = ''DELETE'' then DELETE_orgStashNetworkMember env now req body
        else method_not_allowed)"

definition orgMembersHandler :: "rest_env \<Rightarrow> int \<Rightarrow> string \<Rightarrow> api_request \<Rightarrow> rest_state \<Rightarrow> rest_body rest_reply" where
  "orgMembersHandler env now httpMethod req =
     with_limit env now ''ORGANIZATION_NETWORK_MEMBERS_CACHE_TOKEN''
       (if httpMethod = ''GET'' then GET_orgNetworkMembers env now req else method_not_allowed)"

definition privateMemberHandler :: "rest_env \<Rightarrow> int \<Rightarrow> string \<Rightarrow> api_request \<Rightarrow> js_value \<Rightarrow> rest_state \<Rightarrow> rest_body rest_reply" where
  "privateMemberHandler env now httpMethod req body =
     with_limit env now ''UPDATE_USER_CACHE_TOKEN''
       (if httpMethod = ''POST'' then POST_updateNetworkMember env now req body
        else if httpMethod = ''DELETE'' then DELETE_deleteNetworkMember env now req body
        else method_not_allowed)"

definition privateMembersHandler :: "rest_env \<Rightarrow> int \<Rightarrow> string \<Rightarrow> api_request \<Rightarrow> rest_state \<Rightarrow> rest_body rest_reply" where
  "privateMembersHandler env now httpMethod req =
     with_limit env now ''NETWORK_MEMBERS_CACHE_TOKEN''
       (if httpMethod = ''GET'' then GET_networkMembers env now req else method_not_allowed)"

definition privateNetworkHandler :: "rest_env \<Rightarrow> int \<Rightarrow> string \<Rightarrow> api_request \<Rightarrow> rest_state \<Rightarrow> rest_body rest_reply" where
  "privateNetworkHandler env now httpMethod req =
     with_limit env now ''NETWORKBYID_CACHE_TOKEN''
       (if httpMethod = ''GET'' then GET_network env now req else method_not_allowed)"

section \<open>Requests\<close>

datatype rest_request =
    OrgNetwork int string api_request js_value
  | OrgMember int string api_request js_value
  | OrgMembers int string api_request
  | PrivateMember int string api_request js_value
  | PrivateMembers int string api_request
  | PrivateNetwork int string api_request

fun run_rest :: "rest_env \<Rightarrow> rest_request \<Rightarrow> rest_state \<Rightarrow> rest_state" where
  "run_rest env (OrgNetwork now m req body) s = snd (orgNetworkHandler env now m req body s)"
| "run_rest env (OrgMember now m req body) s = snd (orgMemberHandler env now m req body s)"
| "run_rest env (OrgMembers now m req) s = snd (orgMembersHandler env now m req s)"
| "run_rest env (PrivateMember now m req body) s = snd (privateMemberHandler env now m req body s)"
| "run_rest env (PrivateMembers now m req) s = snd (privateMembersHandler env now m req s)"
| "run_rest env (PrivateNetwork now m req) s = snd (privateNetworkHandler env now m req s)"

fun one_value :: "req_value \<Rightarrow> string option" where
  "one_value (req_value.One t) = Some t"
| "one_value _ = None"

fun rest_network :: "rest_request \<Rightarrow> string option" where
  "rest_network (OrgNetwork now m req body) = one_value (q_nwid req)"
| "rest_network (OrgMember now m req body) = one_value (q_nwid req)"
| "rest_network (OrgMembers now m req) = one_value (q_nwid req)"
| "rest_network (PrivateMember now m req body) = one_value (q_id req)"
| "rest_network (PrivateMembers now m req) = one_value (q_id req)"
| "rest_network (PrivateNetwork now m req) = one_value (q_id req)"

fun rest_member :: "rest_request \<Rightarrow> string option" where
  "rest_member (OrgMember now m req body) = one_value (q_memberId req)"
| "rest_member (PrivateMember now m req body) = one_value (q_memberId req)"
| "rest_member _ = None"

text \<open>The ids that are put into addresses are plain: the member id of the request, those of the networks and those the
  controller lists.\<close>

definition plain_request :: "rest_request \<Rightarrow> bool" where
  "plain_request rq \<longleftrightarrow> (case rest_member rq of None \<Rightarrow> True | Some i \<Rightarrow> plain_id i)"

definition plain_networks :: "db \<Rightarrow> bool" where
  "plain_networks d \<longleftrightarrow> list_all (\<lambda>x. plain_id (n_nwid x)) (networks d)"

definition lists_plain :: "rest_env \<Rightarrow> bool" where
  "lists_plain env \<longleftrightarrow> (\<forall>nwid ids. ne_members (rv_net env) False nwid = Some ids \<longrightarrow> list_all plain_id ids)"

fun rest_caller :: "rest_env \<Rightarrow> db \<Rightarrow> rest_request \<Rightarrow> exn + string" where
  "rest_caller env d (OrgNetwork now m req body) = decryptAndVerifyToken (rv_decode env) now d (one_value (h_auth req)) False ORGANIZATION"
| "rest_caller env d (OrgMember now m req body) = decryptAndVerifyToken (rv_decode env) now d (one_value (h_auth req)) False ORGANIZATION"
| "rest_caller env d (OrgMembers now m req) = decryptAndVerifyToken (rv_decode env) now d (one_value (h_auth req)) False ORGANIZATION"
| "rest_caller env d (PrivateMember now m req body) = decryptAndVerifyToken (rv_decode env) now d (one_value (h_auth req)) False PERSONAL"
| "rest_caller env d (PrivateMembers now m req) = decryptAndVerifyToken (rv_decode env) now d (one_value (h_auth req)) False PERSONAL"
| "rest_caller env d (PrivateNetwork now m req) = decryptAndVerifyToken (rv_decode env) now d (one_value (h_auth req)) False PERSONAL"

text \<open>A network is in reach of its owner, and of the members of its organisation: those listed as its users, or with the
  role \<^verbatim>\<open>USER\<close> in it.\<close>

definition reach :: "rest_env \<Rightarrow> db \<Rightarrow> string \<Rightarrow> string \<Rightarrow> bool" where
  "reach env d u n \<longleftrightarrow> (\<exists>x\<in>set (networks d). n_nwid x = n \<and> (n_authorId x = Some u
     \<or> (\<exists>org. n_organizationId x = Some org \<and> (u \<in> set (ne_orgUsers (rv_net env) org) \<or> is_ok (checkUserOrganizationRole d u org USER)))))"

text \<open>What the REST interface may change of a network: its row and columns and the changes the controller is asked for under an
  address of this network, whatever ids the address was made of.\<close>

definition rest_view :: "string \<Rightarrow> rest_state \<Rightarrow> network_row list \<times> net_meta \<times> net_call list \<times> rest_call list" where
  "rest_view n s = (filter (\<lambda>x. n_nwid x = n) (networks (rest_db s)), meta_of n (rs_net s),
     filter (\<lambda>c. target_of (net_call_path c) = Some n) (nt_calls (rs_net s)), filter (\<lambda>c. target_of (rest_call_path c) = Some n) (rs_sent s))"

definition net_key :: "network_row \<Rightarrow> string \<times> string option \<times> string option" where
  "net_key x = (n_nwid x, n_authorId x, n_organizationId x)"

definition db_within :: "db \<Rightarrow> db \<Rightarrow> bool" where
  "db_within d e \<longleftrightarrow> org_roles e = org_roles d \<and> users e = users d \<and> api_tokens e = api_tokens d \<and> net_key ` set (networks e) \<subseteq> net_key ` set (networks d)"

definition rest_within :: "db \<Rightarrow> rest_state \<Rightarrow> bool" where
  "rest_within d s \<longleftrightarrow> db_within d (rest_db s)"

definition rest_may :: "rest_env \<Rightarrow> db \<Rightarrow> rest_request \<Rightarrow> string \<Rightarrow> bool" where
  "rest_may env d rq n \<longleftrightarrow> rest_network rq = Some n \<and> (\<exists>u. rest_caller env d rq = Inr u \<and> reach env d u n)"

definition scoped :: "bool \<Rightarrow> string \<Rightarrow> rest_state \<Rightarrow> rest_state \<Rightarrow> bool" where
  "scoped P n s t \<longleftrightarrow> (\<forall>k. \<not> (k = n \<and> P) \<longrightarrow> rest_view k t = rest_view k s) \<and> db_within (rest_db s) (rest_db t)"

definition respects_rq :: "rest_env \<Rightarrow> rest_request \<Rightarrow> rest_state \<Rightarrow> rest_state \<Rightarrow> bool" where
  "respects_rq env rq s t \<longleftrightarrow> (\<forall>k. \<not> rest_may env (rest_db s) rq k \<longrightarrow> rest_view k t = rest_view k s) \<and> db_within (rest_db s) (rest_db t)"

text \<open>An instance: the user \<^verbatim>\<open>u2\<close> with a role in the organisation \<^verbatim>\<open>o1\<close> of the network \<^verbatim>\<open>n1\<close>, and the own network \<^verbatim>\<open>n2\<close>.\<close>

definition rest_demo_db :: "role \<Rightarrow> db" where
  "rest_demo_db r = demo_db\<lparr>org_roles := [\<lparr>or_userId = ''u2'', or_organizationId = ''o1'', or_role = r\<rparr>]\<rparr>"

definition rest_demo_env :: rest_env where
  "rest_demo_env = \<lparr>rv_decode = demo_decode, rv_net = demo_netenv\<lparr>ne_orgUsers := (\<lambda>_. [''u2''])\<rparr>, rv_proc = demo_proc demo_sync, rv_window = 60000, rv_limit = 2,
     rv_memberUpdate = (\<lambda>_ _ _. True), rv_networkUpdate = (\<lambda>_ _. True), rv_memberDetails = (\<lambda>_ _ _. Some (Some demo_detail)),
     rv_membersOf = (\<lambda>_. Some []), rv_network = (\<lambda>_ _. Some (JObj [], 0))\<rparr>"

definition rest_demo_state :: "role \<Rightarrow> member_row list \<Rightarrow> rest_state" where
  "rest_demo_state r rows = \<lparr>rs_net = demo_netstate\<lparr>nt_db := rest_demo_db r, nt_members := \<lparr>ms_rows = rows, ms_nextId = 9, ms_out = [], ms_joins = []\<rparr>\<rparr>,
     rs_sent = [], rs_limits = (\<lambda>_. None)\<rparr>"

definition rest_demo_req :: "req_value \<Rightarrow> string \<Rightarrow> api_request" where
  "rest_demo_req key nwid = \<lparr>h_auth = key, q_orgid = req_value.One ''o1'', q_nwid = req_value.One nwid, q_memberId = req_value.One ''1234567890'', q_id = req_value.One nwid\<rparr>"

definition rest_demo_member :: "bool \<Rightarrow> member_row" where
  "rest_demo_member stashed = demo_member\<lparr>m_nwid := ''n1'', m_authorized := Some False, m_deleted := Some stashed\<rparr>"

abbreviation "net_counter \<equiv> ''ORGANIZATION_NETWORKID_CACHE_TOKEN:global''"

section \<open>Guards of the routes\<close>

lemma db_within_refl [simp]: "db_within d d"
  by (simp add: db_within_def)

lemma db_within_trans: "db_within d e \<Longrightarrow> db_within e f \<Longrightarrow> db_within d f"
  unfolding db_within_def by (elim conjE, intro conjI; (simp only: | (rule order_trans, assumption, assumption)))

lemma role_cong: "org_roles e = org_roles d \<Longrightarrow> checkUserOrganizationRole e u org r = checkUserOrganizationRole d u org r"
  by (simp add: checkUserOrganizationRole_def find_org_role_def)

lemma token_cong: "users e = users d \<Longrightarrow> api_tokens e = api_tokens d
    \<Longrightarrow> decryptAndVerifyToken decode now e k a t = decryptAndVerifyToken decode now d k a t"
  unfolding decryptAndVerifyToken_def find_token_def find_user_def tokens_of_def by (simp only:)

lemma reach_within:
  assumes w: "db_within d e" and r: "reach env e u n"
  shows "reach env d u n"
proof -
  have roles: "checkUserOrganizationRole e v org q = checkUserOrganizationRole d v org q" for v org q
    using w by (intro role_cong) (simp add: db_within_def)
  from r obtain x where x: "x \<in> set (networks e)" "n_nwid x = n" "n_authorId x = Some u
     \<or> (\<exists>org. n_organizationId x = Some org \<and> (u \<in> set (ne_orgUsers (rv_net env) org) \<or> is_ok (checkUserOrganizationRole d u org USER)))"
    unfolding reach_def roles by blast
  have "net_key x \<in> net_key ` set (networks d)" using x(1) w by (auto simp: db_within_def)
  then obtain y where y: "y \<in> set (networks d)" "net_key x = net_key y" by blast
  with x show ?thesis unfolding reach_def by (intro bexI[of _ y]) (simp_all add: net_key_def)
qed

lemma access_reach: "is_ok (checkNetworkAccess d u n USER) \<Longrightarrow> reach env d u n"
proof -
  assume a: "is_ok (checkNetworkAccess d u n USER)"
  then obtain x where x: "find_network n d = Some x" by (cases "find_network n d") (auto simp: checkNetworkAccess_def)
  then have "x \<in> set (networks d)" "n_nwid x = n" by (auto simp: find_network_def find_Some_iff)
  with a x show ?thesis unfolding reach_def by (intro bexI[of _ x]) (auto simp: checkNetworkAccess_def truthy_def split: if_split_asm option.split_asm)
qed

lemma scoped_refl [simp]: "scoped P n s s"
  by (simp add: scoped_def)

lemma scoped_trans: "scoped P n s t \<Longrightarrow> scoped P n t u \<Longrightarrow> scoped P n s u"
  by (auto simp: scoped_def intro: db_within_trans)

lemma scoped_sbind: "scoped P n s (snd m) \<Longrightarrow> (\<And>x t. m = (Inr x, t) \<Longrightarrow> scoped P n t (snd (f x t))) \<Longrightarrow> scoped P n s (snd (sbind m f))"
  by (cases m; cases "fst m") (auto intro: scoped_trans)

lemma scoped_same:
  assumes "rest_db t = rest_db s" "nt_meta (rs_net t) = nt_meta (rs_net s)" "nt_calls (rs_net t) = nt_calls (rs_net s)" "rs_sent t = rs_sent s"
  shows "scoped P n s t"
  using assms by (simp add: scoped_def rest_view_def meta_of_def)

lemma handled_snd [simp]: "snd (handled r) = snd r"
  by (simp add: handled_def)


lemma parse_value_one: "parse_value v = Inr x \<Longrightarrow> x = one_value v"
  by (cases v) auto

lemma org_context:
  assumes "SecuredOrganizationApiRoute decode now d r b True req = Inr c"
  shows "decryptAndVerifyToken decode now d (one_value (h_auth req)) False ORGANIZATION = Inr (hc_userId c)"
    "hc_networkId c = one_value (q_nwid req)" "truthy (hc_orgId c)" "is_ok (checkUserOrganizationRole d (hc_userId c) (the (hc_orgId c)) r)"
    "b \<Longrightarrow> truthy (hc_networkId c)" "hc_memberId c = one_value (q_memberId req)" "hc_orgId c = one_value (q_orgid req)"
  using assms by (auto simp: SecuredOrganizationApiRoute_def ApiRequestSchema_parse_def rbind_Inr_iff is_ok_iff dest!: parse_value_one)

lemma private_context_of:
  assumes "SecuredPrivateApiRoute decode now d True b a req = Inr c"
  shows "decryptAndVerifyToken decode now d (one_value (h_auth req)) a PERSONAL = Inr (hc_userId c)"
    "hc_networkId c = one_value (q_id req)" "\<exists>n\<in>set (networks d). hc_networkId c = Some (n_nwid n) \<and> n_authorId n = Some (hc_userId c)"
    "hc_memberId c = one_value (q_memberId req)"
  using assms by (auto simp: SecuredPrivateApiRoute_def ApiRequestSchema_parse_def rbind_Inr_iff dest!: parse_value_one)

section \<open>Changes stay in reach\<close>

lemma plain_id_segment: "plain_id t \<Longrightarrow> plain_segment t"
proof -
  have "CHR ''/'' \<notin> set id_chars" "CHR ''.'' \<notin> set id_chars" by (simp_all add: id_chars_def)
  then show "plain_id t \<Longrightarrow> plain_segment t" by (auto simp: plain_id_def plain_segment_def list_all_iff)
qed

lemma network_path:
  assumes "plain_segment n"
  shows "resolved_path (network_addr [] False n) = [''controller'', ''network'', n]"
proof -
  have "js_split CHR ''/'' ([] @ CHR ''/'' # ''controller'' @ CHR ''/'' # ''network'' @ CHR ''/'' # n) = [[], ''controller'', ''network'', n]"
    using assms by (subst split_segment, simp, subst split_segment, simp, subst split_segment) (simp_all add: plain_segment_def js_split_no_sep)
  then show ?thesis using assms by (simp add: resolved_path_def network_addr_def) (simp add: plain_segment_def)
qed

lemma plain_targets:
  assumes "plain_id n"
  shows "plain_id i \<Longrightarrow> target_of (member_addr [] False n i) = Some n" "target_of (network_addr [] False n) = Some n"
  using plain_id_segment[OF assms] by (simp_all add: target_of_def plain_member_path[OF _ plain_id_segment] network_path)

abbreviation straight :: "net_call \<Rightarrow> bool" where
  "straight c \<equiv> target_of (net_call_path c) = Some (net_call_network c)"

definition sends :: "net_state \<Rightarrow> net_state \<Rightarrow> bool" where
  "sends n m \<longleftrightarrow> (\<exists>cs. nt_calls m = nt_calls n @ cs \<and> list_all straight cs)"

lemma sends_same: "nt_calls m = nt_calls n \<Longrightarrow> sends n m"
  by (simp add: sends_def)

lemma sends_trans: "sends n m \<Longrightarrow> sends m k \<Longrightarrow> sends n k"
  by (auto simp: sends_def)

lemma sends_call: "straight c \<Longrightarrow> sends n (net_send c n)"
  by (simp add: sends_def net_send_def)

lemma sends_sbind: "sends n (snd m) \<Longrightarrow> (\<And>x t. m = (Inr x, t) \<Longrightarrow> sends t (snd (f x t))) \<Longrightarrow> sends n (snd (sbind m f))"
  by (cases m; cases "fst m") (auto intro: sends_trans)

lemma sends_log: "(\<And>t. sends t (snd (f t))) \<Longrightarrow> sends n (snd (net_log env org a f n))"
proof -
  assume f: "\<And>t. sends t (snd (f t))"
  have "sends n (snd (f (n\<lparr>nt_log := l\<rparr>)))" for l by (rule sends_trans[OF sends_same f]) simp
  then show ?thesis by (simp add: net_log_def sends_same)
qed

lemma straight_filter: "list_all straight cs \<Longrightarrow> filter (\<lambda>c. target_of (net_call_path c) = Some k) cs = filter (\<lambda>c. net_call_network c = k) cs"
  by (auto simp: list_all_iff intro: filter_cong)

lemma scoped_net:
  assumes "outside n (rs_net s) m" "\<not> P \<Longrightarrow> m = rs_net s" "db_within (rest_db s) (nt_db m)" "P \<Longrightarrow> sends (rs_net s) m"
  shows "scoped P n s (s\<lparr>rs_net := m\<rparr>)"
proof (cases P)
  case True
  then obtain cs where cs: "nt_calls m = nt_calls (rs_net s) @ cs" "list_all straight cs" using assms(4) by (auto simp: sends_def)
  have "filter (\<lambda>c. target_of (net_call_path c) = Some k) cs = []" if "k \<noteq> n" for k
    using assms(1) that cs(1) unfolding straight_filter[OF cs(2)] by (simp add: outside_def net_view_def)
  then show ?thesis using True assms(1,3) cs(1) by (simp add: scoped_def rest_view_def outside_def net_view_def rest_db_def)
qed (simp add: assms(2))

lemma reach_plain: "reach env d u n \<Longrightarrow> plain_networks d \<Longrightarrow> plain_id n"
  by (auto simp: reach_def plain_networks_def list_all_iff)

lemma flow_sends: "plain_id nwid \<Longrightarrow> sends n (snd (setFlowRule env org False nwid src n))"
proof -
  assume p: "plain_id nwid"
  have "sends t (snd (flow_body env False nwid src t))" for t
    using plain_targets(2)[OF p]
    by (auto simp: flow_body_def network_update_def intro!: sends_sbind sends_call intro: sends_same sends_trans[OF sends_call sends_same] split: sum.split)
      (simp add: sends_def set_meta_def net_send_def)
  then show ?thesis by (simp add: setFlowRule_def net_permitted_snd sends_log sends_same)
qed

lemma deauthorize_sends: "plain_id nwid \<Longrightarrow> list_all plain_id ids \<Longrightarrow> sends n (snd (deauthorize env False nwid ids n))"
proof (induction ids arbitrary: n)
  case (Cons i ids)
  have "sends n (net_send (MemberCall (MemberUpdate False nwid i p)) n)" for p
    using plain_targets(1) Cons.prems by (intro sends_call) simp
  then show ?case using Cons by (auto simp: Let_def intro: sends_trans)
qed (simp add: sends_same)

lemma delete_sends:
  assumes "plain_id nwid" "\<And>ids. ne_members env False nwid = Some ids \<Longrightarrow> list_all plain_id ids"
  shows "sends n (snd (deleteNetwork env org False False nwid n))"
proof -
  have d: "sends t (snd (delete_rows env org False False nwid t))" for t
    by (rule sends_same) (simp add: delete_rows_def deleteMany_def drop_network_def Let_def)
  have n: "sends t (net_send (NetworkDelete False nwid) t)" for t
    using plain_targets(2)[OF assms(1)] by (intro sends_call) simp
  have nd: "sends t (snd (delete_rows env org False False nwid (net_send (NetworkDelete False nwid) t)))" for t
    by (rule sends_trans[OF n d])
  have "sends t (snd (net_log env org a (\<lambda>s. (Inr (), s)) t))" for a t by (rule sends_log) (simp add: sends_same)
  then have "sends n (snd (delete_network env org False False nwid n))" unfolding delete_network_def
    by (auto intro!: sends_sbind deauthorize_sends assms nd n intro: sends_same split: option.split)
  then show ?thesis by (simp add: deleteNetwork_def net_permitted_snd sends_same)
qed

lemma stash_calls: "\<exists>cs. pr_calls (snd (stash env org nwid i s)) = pr_calls s @ cs \<and> set cs \<subseteq> {MemberUpdate False nwid i stash_params}"
proof -
  have b: "pr_calls (snd (update_body env org False nwid i stash_params t)) = pr_calls t @ [MemberUpdate False nwid i stash_params]" for t
  proof -
    have "pr_calls (snd (sbind (store_params env nwid i stash_params rv u) (\<lambda>_ s3. (Inr d, s3)))) = pr_calls u" for rv u and d :: member_detail
      by (rule sbind_keeps[of "\<lambda>v. pr_calls v = pr_calls u"]) (simp_all add: store_calls)
    moreover have "rename_targets env org i nwid stash_params (pr_rows t) = []" by (simp add: rename_targets_def stash_params_def)
    ultimately show ?thesis by (simp add: update_body_def send_def Let_def split: option.split prod.split) (simp add: stash_params_def)
  qed
  show ?thesis by (auto simp: stash_def permitted_snd log_action_def member_Update_def b case_prod_beta Let_def put_rows_def)
qed

lemma call_net_snd: "snd (call_net f s) = s\<lparr>rs_net := snd (f (rs_net s))\<rparr>"
  by (simp add: call_net_def case_prod_beta)

lemma network_update_db [simp]: "nt_db (snd (network_update env central nwid p n)) = nt_db n"
  by (simp add: network_update_def net_send_def)

lemma sbind_db: "nt_db (snd m) = d \<Longrightarrow> (\<And>x t. nt_db t = d \<Longrightarrow> nt_db (snd (f x t)) = d) \<Longrightarrow> nt_db (snd (sbind m f)) = d"
  by (cases m; cases "fst m") auto

lemma setFlowRule_db: "nt_db (snd (setFlowRule env org central nwid src n)) = nt_db n"
  by (auto simp: setFlowRule_def net_permitted_snd net_log_def flow_body_def intro!: sbind_db split: sum.split)

lemma rules_scoped:
  assumes "plain_networks (rest_db s)"
  shows "scoped (reach env (rest_db s) u nwid) nwid s (snd (set_rules env u nwid v s))"
proof -
  have "scoped (reach env (rest_db s) u nwid) nwid s (snd (call_net (setFlowRule (net_caller env u) None False nwid src) s))" for src
    unfolding call_net_snd
  proof (rule scoped_net)
    show "outside nwid (rs_net s) (snd (setFlowRule (net_caller env u) None False nwid src (rs_net s)))"
      using serve_outside[of "QFlow None False nwid src" "rs_net s" "net_caller env u"] by (simp add: run_network_def)
    assume "\<not> reach env (rest_db s) u nwid"
    then have "\<not> network_access (net_caller env u) (nt_db (rs_net s)) nwid"
      using access_reach[of "rest_db s" u nwid env] by (auto simp: network_access_def net_caller_def rest_db_def)
    then show "snd (setFlowRule (net_caller env u) None False nwid src (rs_net s)) = rs_net s"
      by (simp add: setFlowRule_def net_permitted_snd)
  qed (use flow_sends reach_plain assms in \<open>auto simp: setFlowRule_db rest_db_def\<close>)
  then show ?thesis
    by (auto simp: set_rules_def split: option.split js_value.split prod.split sum.split rest_stop.split) (metis snd_conv)+
qed

lemma refresh_same [simp]: "nt_db (refresh env w nwid n) = nt_db n" "nt_meta (refresh env w nwid n) = nt_meta n" "nt_calls (refresh env w nwid n) = nt_calls n"
  by (simp_all add: refresh_def)

lemma sync_routes_same: "sync_routes env nwid zt n = (r, m) \<Longrightarrow> nt_db m = nt_db n \<and> nt_meta m = nt_meta n \<and> nt_calls m = nt_calls n"
  by (auto simp: sync_routes_def Let_def case_prod_beta split: if_split_asm)

lemma getNetworkById_same:
  "nt_db (snd (getNetworkById env nwid n)) = nt_db n" "nt_meta (snd (getNetworkById env nwid n)) = nt_meta n" "nt_calls (snd (getNetworkById env nwid n)) = nt_calls n"
  by (auto simp: getNetworkById_def Let_def split: option.split prod.split dest!: sync_routes_same)

lemma getNetworkById_view: "scoped P n s (snd (call_net (getNetworkById env nwid) s))"
  unfolding call_net_snd by (rule scoped_same) (simp_all add: getNetworkById_same rest_db_def)

lemma getNetworkById_reach:
  assumes "call_net (getNetworkById (net_caller env u) nwid) s = (Inr x, t)"
  shows "reach env (rest_db s) u nwid"
proof -
  obtain y where y: "fst (getNetworkById (net_caller env u) nwid (rs_net s)) = Inr y"
    using assms by (auto simp: call_net_def throwing_def case_prod_beta split: sum.split_asm)
  then obtain n where n: "find_network nwid (rest_db s) = Some n"
    by (cases "find_network nwid (rest_db s)") (auto simp: getNetworkById_def rest_db_def)
  then have "n \<in> set (networks (rest_db s))" "n_nwid n = nwid" by (auto simp: find_network_def find_Some_iff)
  with y n show ?thesis unfolding reach_def
    by (intro bexI[of _ n]) (cases "n_organizationId n"; auto simp: getNetworkById_def rest_db_def net_caller_def split: if_split_asm)
qed

lemma view_sent: "target_of (rest_call_path c) = Some n \<Longrightarrow> scoped True n s (s\<lparr>rs_sent := rs_sent s @ [c]\<rparr>)"
  by (simp add: scoped_def rest_view_def rest_db_def)

lemma rest_updates_scoped:
  assumes "plain_id n"
  shows "scoped True n s (snd (rest_network_update env n p s))" "plain_id i \<Longrightarrow> scoped True n s (snd (rest_member_update env n i p s))"
  using plain_targets[OF assms] by (simp_all add: rest_network_update_def rest_member_update_def view_sent)

lemma key_images: "net_key ` set (networks (nt_db (set_network nwid (\<lambda>x. x\<lparr>n_name := v\<rparr>) n))) = net_key ` set (networks (nt_db n))"
proof -
  have k: "net_key (if n_nwid x = nwid then x\<lparr>n_name := v\<rparr> else x) = net_key x" for x by (simp add: net_key_def)
  have "networks (nt_db (set_network nwid (\<lambda>x. x\<lparr>n_name := v\<rparr>) n)) = map (\<lambda>x. if n_nwid x = nwid then x\<lparr>n_name := v\<rparr> else x) (networks (nt_db n))"
    by (simp add: set_network_def)
  then show ?thesis by (simp only: list.set_map image_image k)
qed

lemma write_network_step: "outside nwid n (write_network nwid f n) \<and> db_within (nt_db n) (nt_db (write_network nwid f n))"
  by (cases "(nwid, f, n)" rule: write_network.cases)
    (auto simp: outside_rename outside_meta db_within_def key_images, auto simp: set_network_def set_meta_def)

lemma write_network_fold: "outside nwid n (fold (write_network nwid) fs n) \<and> db_within (nt_db n) (nt_db (fold (write_network nwid) fs n))"
proof (induction fs arbitrary: n)
  case (Cons f fs)
  then show ?case using write_network_step[of nwid n f] by (auto intro: outside_trans db_within_trans)
qed simp

lemma write_network_calls: "nt_calls (fold (write_network nwid) fs n) = nt_calls n"
proof -
  have "nt_calls (write_network nwid f m) = nt_calls m" for f m
    by (cases "(nwid, f, m)" rule: write_network.cases) (auto simp: set_network_def set_meta_def)
  then show ?thesis by (induction fs arbitrary: n) simp_all
qed

lemma details_snd [simp]: "snd (network_details env nwid s) = s" "snd (details env nwid i s) = s"
  by (simp_all add: network_details_def details_def)

lemma scoped_db: "scoped P n s t \<Longrightarrow> db_within (rest_db s) (rest_db t)"
  by (simp add: scoped_def)

lemma scoped_write: "scoped True nwid s (s\<lparr>rs_net := fold (write_network nwid) fs (rs_net s)\<rparr>)"
  using write_network_fold[of nwid "rs_net s" fs] by (intro scoped_net) (simp_all add: rest_db_def sends_same write_network_calls)

lemma network_answer_snd: "snd (sbind (network_details env nwid s) (\<lambda>(v, _) s. (Inr (g s v), s))) = s"
  by (simp add: network_details_def split: option.split)

lemma network_body_scoped:
  assumes "plain_networks (rest_db s)"
  shows "scoped (reach env (rest_db s) u nwid) nwid s (snd (network_body env u nwid body s))"
  unfolding network_body_def
proof (rule scoped_sbind[OF rules_scoped[OF assms]])
  fix x t
  assume "set_rules env u nwid (map_of body ''flowRule'') s = (Inr x, t)"
  then have w: "db_within (rest_db s) (rest_db t)" using scoped_db[OF rules_scoped[OF assms, of env u nwid "map_of body ''flowRule''"]] by simp
  show "scoped (reach env (rest_db s) u nwid) nwid t (snd (sbind (call_net (getNetworkById (net_caller env u) nwid) t) (\<lambda>_ s.
     sbind (rest_network_update env nwid (payload_for org_network_fields Controller body) s) (\<lambda>_ s.
     sbind (network_details env nwid (s\<lparr>rs_net := fold (write_network nwid) (payload_for org_network_fields Database body) (rs_net s)\<rparr>)) (\<lambda>(v, _) s.
       (Inr (BNetwork None v None), s))))))"
  proof (rule scoped_sbind[OF getNetworkById_view])
    fix y t2
    assume "call_net (getNetworkById (net_caller env u) nwid) t = (Inr y, t2)"
    then have r: "reach env (rest_db s) u nwid" using reach_within[OF w] getNetworkById_reach by blast
    note p = rest_updates_scoped(1)[OF reach_plain[OF r assms]]
    show "scoped (reach env (rest_db s) u nwid) nwid t2 (snd (sbind (rest_network_update env nwid (payload_for org_network_fields Controller body) t2) (\<lambda>_ s.
     sbind (network_details env nwid (s\<lparr>rs_net := fold (write_network nwid) (payload_for org_network_fields Database body) (rs_net s)\<rparr>)) (\<lambda>(v, _) s.
       (Inr (BNetwork None v None), s)))))"
      using r by (intro scoped_sbind) (auto simp only: p details_snd scoped_write scoped_refl snd_conv prod.case simp_thms split: prod.split)
  qed
qed

lemma deauthorize_db [simp]: "nt_db (snd (deauthorize env central nwid ids n)) = nt_db n"
  by (induction env central nwid ids n rule: deauthorize.induct) (simp_all add: Let_def net_send_def)

lemma sbind_within: "db_within d (nt_db (snd m)) \<Longrightarrow> (\<And>x t. m = (Inr x, t) \<Longrightarrow> db_within d (nt_db t) \<Longrightarrow> db_within d (nt_db (snd (f x t))))
    \<Longrightarrow> db_within d (nt_db (snd (sbind m f)))"
  by (cases m; cases "fst m") auto

lemma drop_within: "db_within d (nt_db n) \<Longrightarrow> db_within d (nt_db (drop_network nwid n))"
  by (auto simp: db_within_def drop_network_def Let_def)

lemma deleteNetwork_within: "db_within (nt_db n) (nt_db (snd (deleteNetwork env org central False nwid n)))"
proof -
  have rows: "db_within d (nt_db (snd (delete_rows env org central False nwid m)))" if "db_within d (nt_db m)" for m d
    using that by (simp add: delete_rows_def deleteMany_def drop_within)
  have "db_within (nt_db n) (nt_db (snd (delete_network env org central False nwid n)))"
    unfolding delete_network_def
    by (auto split: option.split intro!: sbind_within rows simp: net_send_def net_log_def) 
  then show ?thesis by (simp add: deleteNetwork_def net_permitted_snd)
qed

lemma delete_scoped:
  assumes "plain_networks (rest_db s)" "lists_plain env"
  shows "scoped (reach env (rest_db s) u nwid) nwid s (snd (call_net (deleteNetwork (net_caller env u) org False False nwid) s))"
  unfolding call_net_snd
proof (rule scoped_net)
  show "outside nwid (rs_net s) (snd (deleteNetwork (net_caller env u) org False False nwid (rs_net s)))"
    using serve_outside[of "QDelete org False False nwid" "rs_net s" "net_caller env u"] by (simp add: run_network_def)
  assume "\<not> reach env (rest_db s) u nwid"
  then have "\<not> network_access (net_caller env u) (nt_db (rs_net s)) nwid"
    using access_reach[of "rest_db s" u nwid env] by (auto simp: network_access_def net_caller_def rest_db_def)
  then show "snd (deleteNetwork (net_caller env u) org False False nwid (rs_net s)) = rs_net s"
    by (simp add: deleteNetwork_def net_permitted_snd)
next
  assume "reach env (rest_db s) u nwid"
  moreover have "list_all plain_id ids" if "ne_members (net_caller env u) False nwid = Some ids" for ids
    using assms(2) that by (simp add: lists_plain_def net_caller_def)
  ultimately show "sends (rs_net s) (snd (deleteNetwork (net_caller env u) org False False nwid (rs_net s)))"
    using delete_sends[OF reach_plain[OF _ assms(1)]] by blast
qed (simp add: deleteNetwork_within rest_db_def)

lemma stash_scoped:
  assumes "plain_networks (rest_db s)" "plain_id i"
  shows "scoped (reach env (rest_db s) u nwid) nwid s (snd (call_stash env u org nwid i s))"
proof -
  let ?e = "proc_caller env u (nt_db (rs_net s))"
  let ?p = "snd (stash ?e org nwid i (proc_of (rs_net s)))"
  obtain cs where cs: "pr_calls ?p = cs" "set cs \<subseteq> {MemberUpdate False nwid i stash_params}"
    using stash_calls[of ?e org nwid i "proc_of (rs_net s)"] by (auto simp: proc_of_def)
  have "filter (\<lambda>c. target_of (net_call_path (MemberCall c)) = Some k) cs = []" if no: "\<not> (k = nwid \<and> reach env (rest_db s) u nwid)" for k
  proof (cases "reach env (rest_db s) u nwid")
    case True
    have "target_of (net_call_path (MemberCall (MemberUpdate False nwid i stash_params))) = Some nwid"
      using plain_targets(1)[OF reach_plain[OF True assms(1)] assms(2)] by simp
    then show ?thesis using cs(2) True no by (fastforce simp: filter_empty_conv)
  next
    case False
    then have "\<not> may_use ?e nwid" using access_reach[of "rest_db s" u nwid env] by (auto simp: may_use_def proc_caller_def rest_db_def)
    then have "cs = []" using cs(1) by (simp add: stash_def permitted_snd proc_of_def)
    then show ?thesis by simp
  qed
  then show ?thesis by (simp add: scoped_def call_stash_def Let_def case_prod_beta rest_view_def rest_db_def meta_of_def cs(1) filter_map comp_def)
qed

lemma put_rows_same [simp]: "rest_db (put_rest_rows rows s) = rest_db s" "rs_sent (put_rest_rows rows s) = rs_sent s"
  by (simp_all add: put_rest_rows_def rest_db_def)

lemma scoped_rows: "scoped P n s (put_rest_rows rows s)"
  by (rule scoped_same) (simp_all add: put_rest_rows_def rest_db_def)

lemma writes_scoped: "scoped P n s (write_member nwid i p s)" "scoped P n s (create_member now nwid i p s)" "scoped P n s (cache_answer nwid d s)"
  by (simp_all add: write_member_def cache_answer_def scoped_rows split: option.split)
    (rule scoped_same; simp add: create_member_def Let_def rest_db_def)

lemma org_body_scoped:
  assumes "plain_networks (rest_db s)" "plain_id i"
  shows "scoped (reach env (rest_db s) u nwid) nwid s (snd (org_member_body env now u nwid org i body s))"
proof (cases "reach env (rest_db s) u nwid")
  case False
  have "find (\<lambda>n. n_nwid n = nwid \<and> n_organizationId n = Some org) (networks (rest_db s)) = None" if "is_ok (checkUserOrganizationRole (rest_db s) u org USER)"
    using False that by (auto simp: reach_def find_None_iff)
  then have "snd (org_member_body env now u nwid org i body s) = s"
    by (auto simp: org_member_body_def throwing_def is_ok_iff split: option.split sum.split)
  then show ?thesis by simp
next
  case True
  have upd: "scoped True nwid s (snd (sbind (rest_member_update env nwid i p t) (\<lambda>_ s1. (Inr (f s1), cache_answer nwid (g s1) s1))))" if "scoped True nwid s t" for p t f g
    using rest_updates_scoped(2)[OF reach_plain[OF True assms(1)] assms(2)] by (intro scoped_trans[OF that] scoped_sbind; simp add: writes_scoped)
  show ?thesis unfolding org_member_body_def
    by (auto simp: throwing_def True Let_def writes_scoped intro!: upd split: option.split sum.split)
qed

lemma private_body_scoped:
  assumes "reach env (rest_db s) u nwid" "plain_networks (rest_db s)" "plain_id i"
  shows "scoped True nwid s (snd (private_member_body env u nwid i body s))"
proof -
  have upd: "scoped True nwid s (snd (sbind (rest_member_update env nwid i p t) (\<lambda>_ s1. sbind (details env nwid i s1) (\<lambda>d s1.
      if d = None then (Inl e, s1) else (Inr (f d s1), cache_answer nwid d s1)))))" if "scoped True nwid s t" for p t e f
    using rest_updates_scoped(2)[OF reach_plain[OF assms(1,2)] assms(3)] by (intro scoped_trans[OF that] scoped_sbind) (auto simp: writes_scoped)
  show ?thesis unfolding private_member_body_def Let_def by (auto intro!: upd simp only: writes_scoped scoped_refl snd_conv split: if_split)
qed

lemma respects_refl: "respects_rq env rq s s"
  by (simp add: respects_rq_def)

lemma respects_scoped:
  assumes "scoped (reach env (rest_db s) u n) n s t" "rest_network rq = Some n" "rest_caller env (rest_db s) rq = Inr u"
  shows "respects_rq env rq s t"
  using assms by (auto simp: respects_rq_def scoped_def rest_may_def)

lemma limit_respects:
  assumes "\<And>t. rs_net t = rs_net s \<Longrightarrow> rs_sent t = rs_sent s \<Longrightarrow> respects_rq env rq t (snd (h t))"
  shows "respects_rq env rq s (snd (with_limit env now token h s))"
proof -
  have same: "respects_rq env rq s u" if "respects_rq env rq t u" "rs_net t = rs_net s" "rs_sent t = rs_sent s" for t u
    using that by (simp add: respects_rq_def rest_db_def rest_view_def)
  let ?t = "s\<lparr>rs_limits := c\<rparr>"
  have "respects_rq env rq s (snd (h (s\<lparr>rs_limits := c\<rparr>)))" "respects_rq env rq s (s\<lparr>rs_limits := c\<rparr>)" for c
    using same[OF assms[of "s\<lparr>rs_limits := c\<rparr>"]] same[OF respects_refl[of env rq "s\<lparr>rs_limits := c\<rparr>"]] by simp_all
  then show ?thesis by (simp add: with_limit_def case_prod_beta Let_def)
qed

lemma org_route_respects:
  assumes "rest_network rq = one_value (q_nwid req)" "\<And>d. rest_caller env d rq = decryptAndVerifyToken (rv_decode env) now d (one_value (h_auth req)) False ORGANIZATION"
    and "\<And>c nwid. hc_networkId c = Some nwid \<Longrightarrow> hc_memberId c = one_value (q_memberId req) \<Longrightarrow> scoped (reach env (rest_db s) (hc_userId c) nwid) nwid s (snd (h c s))"
  shows "respects_rq env rq s (snd (org_route env now r True req h s))"
proof (cases "SecuredOrganizationApiRoute (rv_decode env) now (rest_db s) r True True req")
  case (Inr c)
  note g = org_context[OF Inr]
  obtain nwid where n: "hc_networkId c = Some nwid" using g(5) by (cases "hc_networkId c") auto
  show ?thesis using respects_scoped[OF assms(3)[OF n g(6)]] g(1,2) n assms(1,2) by (simp add: org_route_def Inr)
qed (simp add: org_route_def respects_refl)

lemma private_route_respects:
  assumes "rest_network rq = one_value (q_id req)" "\<And>d. rest_caller env d rq = decryptAndVerifyToken (rv_decode env) now d (one_value (h_auth req)) False PERSONAL"
    and "\<And>c nwid. hc_networkId c = Some nwid \<Longrightarrow> hc_memberId c = one_value (q_memberId req) \<Longrightarrow> reach env (rest_db s) (hc_userId c) nwid
      \<Longrightarrow> scoped True nwid s (snd (h c s))"
  shows "respects_rq env rq s (snd (private_route env now True b False req h s))"
proof (cases "SecuredPrivateApiRoute (rv_decode env) now (rest_db s) True b False req")
  case (Inr c)
  note g = private_context_of[OF Inr]
  obtain nwid where n: "hc_networkId c = Some nwid" "reach env (rest_db s) (hc_userId c) nwid" using g(3) by (auto simp: reach_def)
  show ?thesis using respects_scoped[of env s "hc_userId c" nwid] assms(3)[OF n(1) g(4) n(2)] g(1,2) n assms(1,2) by (simp add: private_route_def Inr)
qed (simp add: private_route_def respects_refl)

lemma rest_members_view: "scoped P n s (snd (call_net (getNetworkMembers env nwid q) s))"
  unfolding call_net_snd by (rule scoped_same) (simp_all add: getNetworkMembers_def net_permitted_def Let_def rest_db_def split: sum.split)

lemma stash_handler_scoped: "plain_networks (rest_db s) \<Longrightarrow> plain_id i \<Longrightarrow> scoped (reach env (rest_db s) u nwid) nwid s (snd (sbind (call_stash env u org nwid i s) (\<lambda>d s. (Inr (BStashed d), s))))"
  by (rule scoped_sbind[OF stash_scoped]) simp_all

lemma member_context_network: "member_context c b = Inr (nwid, org, i, fs) \<Longrightarrow> hc_networkId c = Some nwid \<and> hc_memberId c = Some i"
  by (auto simp: member_context_def text_param_def rbind_Inr_iff of_option_Inr_iff)

lemma private_context_network: "private_context c b = Inr (nwid, i, fs) \<Longrightarrow> hc_networkId c = Some nwid \<and> hc_memberId c = Some i"
  by (auto simp: private_context_def text_param_def rbind_Inr_iff of_option_Inr_iff)

lemma throwing_bind: "sbind (throwing r, s) f = (case r of Inl e \<Rightarrow> (Inl (Threw e), s) | Inr x \<Rightarrow> f x s)"
  by (simp add: throwing_def split: sum.split)

lemma org_handlers_respect:
  assumes "rest_network rq = one_value (q_nwid req)" "\<And>d. rest_caller env d rq = decryptAndVerifyToken (rv_decode env) now d (one_value (h_auth req)) False ORGANIZATION"
    and "plain_networks (rest_db s)" "lists_plain env"
  shows "respects_rq env rq s (snd (POST_network env now req body s))" "respects_rq env rq s (snd (GET_org_network env now req s))"
    "respects_rq env rq s (snd (DELETE_network env now req s))" "respects_rq env rq s (snd (GET_orgNetworkMembers env now req s))"
proof -
  note o = org_route_respects[OF assms(1,2)]
  show "respects_rq env rq s (snd (POST_network env now req body s))" unfolding POST_network_def
    by (rule o) (auto simp: throwing_bind rbind_Inr_iff text_param_def of_option_Inr_iff network_body_scoped assms(3) split: sum.split)
  show "respects_rq env rq s (snd (GET_org_network env now req s))" unfolding GET_org_network_def
    by (rule o) (simp add: network_answer_snd)
  show "respects_rq env rq s (snd (DELETE_network env now req s))" unfolding DELETE_network_def
    by (rule o, rule scoped_sbind) (simp_all add: delete_scoped assms(3,4))
  show "respects_rq env rq s (snd (GET_orgNetworkMembers env now req s))" unfolding GET_orgNetworkMembers_def
    by (rule o) (auto simp: throwing_bind Let_def rest_members_view getNetworkById_view intro!: scoped_sbind split: sum.split)
qed

lemma org_member_handlers_respect:
  assumes "rest_network rq = one_value (q_nwid req)" "\<And>d. rest_caller env d rq = decryptAndVerifyToken (rv_decode env) now d (one_value (h_auth req)) False ORGANIZATION"
    and "plain_networks (rest_db s)" "plain_request rq" "rest_member rq = one_value (q_memberId req)"
  shows "respects_rq env rq s (snd (POST_orgUpdateNetworkMember env now req body s))" "respects_rq env rq s (snd (DELETE_orgStashNetworkMember env now req body s))"
    "respects_rq env rq s (snd (GET_orgNetworkMemberById env now req body s))"
proof -
  note o = org_route_respects[OF assms(1,2)]
  have p: "plain_id i" if "one_value (q_memberId req) = Some i" for i using that assms(4,5) by (simp add: plain_request_def)
  show "respects_rq env rq s (snd (POST_orgUpdateNetworkMember env now req body s))" unfolding POST_orgUpdateNetworkMember_def
    by (rule o) (auto simp: throwing_bind rbind_Inr_iff p assms(3) intro!: org_body_scoped dest!: member_context_network split: sum.split)
  show "respects_rq env rq s (snd (DELETE_orgStashNetworkMember env now req body s))" unfolding DELETE_orgStashNetworkMember_def
    by (rule o) (auto simp: throwing_bind p assms(3) intro!: stash_handler_scoped dest!: member_context_network split: sum.split)
  show "respects_rq env rq s (snd (GET_orgNetworkMemberById env now req body s))" unfolding GET_orgNetworkMemberById_def
    by (rule o) (auto simp: throwing_bind getMemberById_def details_def intro!: scoped_sbind split: sum.split option.split)
qed

lemma private_handlers_respect:
  assumes "rest_network rq = one_value (q_id req)" "\<And>d. rest_caller env d rq = decryptAndVerifyToken (rv_decode env) now d (one_value (h_auth req)) False PERSONAL"
    and "plain_networks (rest_db s)"
  shows "respects_rq env rq s (snd (GET_network env now req s))" "respects_rq env rq s (snd (GET_networkMembers env now req s))"
    "plain_request rq \<Longrightarrow> rest_member rq = one_value (q_memberId req) \<Longrightarrow> respects_rq env rq s (snd (POST_updateNetworkMember env now req body s))"
    "plain_request rq \<Longrightarrow> rest_member rq = one_value (q_memberId req) \<Longrightarrow> respects_rq env rq s (snd (DELETE_deleteNetworkMember env now req body s))"
proof -
  note o = private_route_respects[OF assms(1,2)]
  show "respects_rq env rq s (snd (GET_network env now req s))" unfolding GET_network_def
    by (rule o) (auto simp: Let_def network_details_def split: option.split)
  show "respects_rq env rq s (snd (GET_networkMembers env now req s))" unfolding GET_networkMembers_def
    by (rule o) simp
  assume m: "plain_request rq" "rest_member rq = one_value (q_memberId req)"
  then have p: "plain_id i" if "one_value (q_memberId req) = Some i" for i using that by (simp add: plain_request_def)
  show "respects_rq env rq s (snd (POST_updateNetworkMember env now req body s))" unfolding POST_updateNetworkMember_def
    by (rule o) (auto simp: throwing_bind rbind_Inr_iff p assms(3) intro!: private_body_scoped dest!: private_context_network split: sum.split)
  have st: "scoped True nwid s (snd (sbind (call_stash env u None nwid i s) (\<lambda>d s. (Inr (BStashed d), s))))"
    if "reach env (rest_db s) u nwid" "plain_id i" for u nwid i
    using stash_handler_scoped[OF assms(3) that(2), of env u nwid None] that(1) by simp
  show "respects_rq env rq s (snd (DELETE_deleteNetworkMember env now req body s))" unfolding DELETE_deleteNetworkMember_def
    by (rule o) (auto simp: throwing_bind p intro!: st dest!: private_context_network split: sum.split)
qed

lemma run_rest_respects: "plain_request rq \<Longrightarrow> plain_networks (rest_db s) \<Longrightarrow> lists_plain env \<Longrightarrow> respects_rq env rq s (run_rest env rq s)"
  by (cases rq) (auto simp: orgNetworkHandler_def orgMemberHandler_def orgMembersHandler_def privateMemberHandler_def privateMembersHandler_def
      privateNetworkHandler_def method_not_allowed_def respects_refl rest_db_def
      intro!: limit_respects org_handlers_respect org_member_handlers_respect private_handlers_respect)

definition plain_run :: "rest_env \<Rightarrow> rest_request \<Rightarrow> rest_state \<Rightarrow> rest_state" where
  "plain_run env rq s = (if plain_request rq \<and> lists_plain env then run_rest env rq s else s)"

lemma plain_within: "db_within d e \<Longrightarrow> plain_networks d \<Longrightarrow> plain_networks e"
proof -
  assume w: "db_within d e" "plain_networks d"
  have "plain_id (n_nwid x)" if "x \<in> set (networks e)" for x
  proof -
    have "net_key x \<in> net_key ` set (networks d)" using w(1) that by (auto simp: db_within_def)
    then obtain y where "y \<in> set (networks d)" "n_nwid y = n_nwid x" by (auto simp: net_key_def)
    then show ?thesis using w(2) by (metis plain_networks_def list_all_iff)
  qed
  then show ?thesis by (simp add: plain_networks_def list_all_iff)
qed

interpretation rest_scope: guarded_requests "plain_run env" rest_view "rest_may env d" "\<lambda>s. plain_networks d \<and> rest_within d s" for env d
proof
  fix s rq n
  assume w: "plain_networks d \<and> rest_within d s"
  then have p: "plain_networks (rest_db s)" using plain_within by (auto simp: rest_within_def)
  have r: "respects_rq env rq s (plain_run env rq s)" using run_rest_respects[OF _ p] by (simp add: plain_run_def respects_refl)
  show "plain_networks d \<and> rest_within d (plain_run env rq s)" using w r by (auto simp: rest_within_def respects_rq_def intro: db_within_trans)
  have "rest_caller env (rest_db s) rq = rest_caller env d rq"
    using w by (cases rq) (auto simp: rest_within_def db_within_def intro!: token_cong)
  then have "rest_may env d rq n" if "rest_may env (rest_db s) rq n"
    using that w reach_within unfolding rest_may_def rest_within_def by metis
  then show "\<not> rest_may env d rq n \<Longrightarrow> rest_view n (plain_run env rq s) = rest_view n s" using r by (auto simp: respects_rq_def)
qed

text \<open>C10. REST requests stay in reach, as long as ids are plain: when the member ids in the requests, the ids of the stored networks
  and those the controller lists are made of letters and digits, a sequence of requests changes the row or the columns
  of a network, or the changes the controller is asked for under an address that resolves to this network, only if one of
  the requests names this network and carries a live token of a user who owns it or belongs to its organisation. The
  interface itself does not check the member id.\<close>

theorem rest_requests_stay_in_reach:
  assumes "rest_view n (fold (run_rest env) rqs s) \<noteq> rest_view n s"
    and "list_all plain_request rqs" "plain_networks (rest_db s)" "lists_plain env"
  shows "\<exists>rq\<in>set rqs. rest_network rq = Some n \<and> (\<exists>u. rest_caller env (rest_db s) rq = Inr u \<and> reach env (rest_db s) u n)"
proof -
  have "fold (run_rest env) rqs t = fold (plain_run env) rqs t" for t
    using assms(2,4) by (induction rqs arbitrary: t) (simp_all add: plain_run_def)
  moreover have "plain_networks (rest_db s) \<and> rest_within (rest_db s) s" using assms(3) by (simp add: rest_within_def)
  ultimately show ?thesis using rest_scope.change_needs_permission[of "rest_db s" s n env rqs] assms(1) by (simp add: rest_may_def)
qed

text \<open>Without the condition on the member ids it fails: the update of a member of the own network with an id that climbs is sent to
  the address of a member of another network.\<close>

lemma rest_member_id_climbs:
  assumes "plain_segment nwid" "plain_segment victim" "plain_segment j" "p \<noteq> []"
  shows "target_of (rest_call_path (hd (drop (length (rs_sent s)) (rs_sent (snd (rest_member_update env nwid (climbing_id victim j) p s)))))) = Some victim"
  using assms(4) climbing_path[OF assms(1-3)] by (simp add: rest_member_update_def target_of_def)

section \<open>Stashed members\<close>

lemma map_of_map_filter:
  assumes "distinct (map fst shape)" "map_of shape k = Some p"
  shows "map_of (List.map_filter (\<lambda>(k, p). map_option (Pair k) (Option.bind (map_of fs k) p)) shape) k = Option.bind (map_of fs k) p"
proof -
  have none: "map_of (List.map_filter (\<lambda>(k, p). map_option (Pair k) (Option.bind (map_of fs k) p)) sh) k = None" if "k \<notin> fst ` set sh" for sh
    using that by (induction sh) (auto simp: List.map_filter_simps split: option.split)
  show ?thesis using assms
    by (induction shape) (auto simp: List.map_filter_simps none split: option.split if_split_asm)
qed

lemma parse_strict_field:
  assumes "parse_strict shape fs = Inr gs" "distinct (map fst shape)" "map_of shape k = Some p"
  shows "map_of gs k = Option.bind (map_of fs k) p"
  using assms by (auto simp: parse_strict_def map_of_map_filter split: if_split_asm)

lemma schemas_distinct: "distinct (map fst PostBodySchema)" "distinct (map fst updateableFieldsMetaSchema)" "distinct (map fst NetworkUpdateSchema)"
  by code_simp+

lemma deleted_kept:
  assumes "parse_strict shape fs = Inr gs" "shape = PostBodySchema \<or> shape = updateableFieldsMetaSchema" "map_of fs ''deleted'' \<noteq> Some (JBool False)"
  shows "map_of gs ''deleted'' \<noteq> Some (JBool False)"
proof -
  have "map_of shape ''deleted'' = Some (accept is_bool)" "distinct (map fst shape)"
    using assms(2) schemas_distinct by (auto simp: PostBodySchema_def updateableFieldsMetaSchema_def)
  from parse_strict_field[OF assms(1) this(2,1)] show ?thesis using assms(3)
    by (cases "map_of fs ''deleted''") (auto simp: accept_def)
qed

lemma org_body_stashed:
  assumes "is_stashed (row_at nwid i (rest_rows s))" "map_of body ''deleted'' \<noteq> Some (JBool False)"
  shows "\<exists>e. org_member_body env now u nwid org i body s = (Inl e, s)"
  using assms by (auto simp: org_member_body_def throwing_bind Let_def split: option.split sum.split)

lemma private_body_stashed:
  assumes "is_stashed (own_member u nwid i s)" "map_of body ''deleted'' \<noteq> Some (JBool False)"
  shows "\<exists>e. private_member_body env u nwid i body s = (Inl e, s)"
  using assms by (auto simp: private_member_body_def Let_def)

lemma member_context_values:
  "member_context c b = Inr (nwid, org, i, fs) \<Longrightarrow> hc_networkId c = Some nwid \<and> hc_orgId c = Some org \<and> hc_memberId c = Some i \<and> b = Inr fs"
  by (auto simp: member_context_def text_param_def rbind_Inr_iff of_option_Inr_iff)

lemma private_context_values: "private_context c b = Inr (nwid, i, fs) \<Longrightarrow> hc_networkId c = Some nwid \<and> hc_memberId c = Some i \<and> b = Inr fs"
  by (auto simp: private_context_def text_param_def rbind_Inr_iff of_option_Inr_iff)

lemma own_member_found:
  assumes "n \<in> set (networks (rest_db s))" "n_nwid n = nwid" "n_authorId n = Some u"
  shows "own_member u nwid i s = row_at nwid i (rest_rows s)"
proof -
  have "own_network u nwid s \<noteq> None" using assms by (auto simp: own_network_def find_None_iff)
  then show ?thesis by (auto simp: own_member_def)
qed

lemma org_update_refused:
  assumes "is_stashed (row_at nwid i (rest_rows s))" "map_of fs ''deleted'' \<noteq> Some (JBool False)" "one_value (q_nwid req) = Some nwid" "one_value (q_memberId req) = Some i"
  shows "\<exists>r. POST_orgUpdateNetworkMember env now req (JObj fs) s = (Inl r, s)"
proof (cases "SecuredOrganizationApiRoute (rv_decode env) now (rest_db s) USER True True req")
  case (Inr c)
  note g = org_context(2,6)[OF Inr]
  have "\<exists>e. org_member_body env now (hc_userId c) n org j gs s = (Inl e, s)"
    if "member_context c (body_or_empty (JObj fs)) = Inr (n, org, j, hs)" "parse_strict PostBodySchema hs = Inr gs" for n org j gs hs
  proof -
    from member_context_values[OF that(1)] g assms(3,4) have "n = nwid" "j = i" "hs = fs" by (auto simp: body_or_empty_def)
    with that(2) assms(1,2) show ?thesis by (intro org_body_stashed) (auto dest: deleted_kept)
  qed
  then show ?thesis
    by (auto simp: POST_orgUpdateNetworkMember_def org_route_def Inr handled_def throwing_bind rbind_Inr_iff split: sum.split) fastforce+
qed (simp add: POST_orgUpdateNetworkMember_def org_route_def)

lemma private_update_refused:
  assumes "is_stashed (row_at nwid i (rest_rows s))" "map_of fs ''deleted'' \<noteq> Some (JBool False)" "one_value (q_id req) = Some nwid" "one_value (q_memberId req) = Some i"
  shows "\<exists>r. POST_updateNetworkMember env now req (JObj fs) s = (Inl r, s)"
proof (cases "SecuredPrivateApiRoute (rv_decode env) now (rest_db s) True True False req")
  case (Inr c)
  note g = private_context_of[OF Inr]
  have "\<exists>e. private_member_body env (hc_userId c) n j gs s = (Inl e, s)"
    if "private_context c (body_record (JObj fs)) = Inr (n, j, hs)" "parse_strict updateableFieldsMetaSchema hs = Inr gs" for n j gs hs
  proof -
    from private_context_values[OF that(1)] g(2,4) assms(3,4) have v: "n = nwid" "j = i" "hs = fs" "hc_networkId c = Some nwid" by auto
    from g(3) v(4) have "own_member (hc_userId c) nwid i s = row_at nwid i (rest_rows s)" using own_member_found by auto
    with v that(2) assms(1,2) show ?thesis by (intro private_body_stashed) (auto dest: deleted_kept)
  qed
  then show ?thesis
    by (auto simp: POST_updateNetworkMember_def private_route_def Inr handled_def throwing_bind rbind_Inr_iff split: sum.split) fastforce+
qed (simp add: POST_updateNetworkMember_def private_route_def)

text \<open>C11. Stashed members are protected: whatever an update through the REST interface asks of a stashed member, it is
  refused without any change, unless it restores the member with \<^verbatim>\<open>deleted: false\<close>; so a member is not authorised at the
  controller while it is hidden in the database.\<close>

theorem stashed_members_are_protected:
  assumes "row_at nwid i (rest_rows s) = Some m" "m_deleted m = Some True" "map_of fs ''deleted'' \<noteq> Some (JBool False)" "q_memberId req = req_value.One i"
  shows "(q_nwid req = req_value.One nwid \<longrightarrow> (\<exists>r. POST_orgUpdateNetworkMember env now req (JObj fs) s = (Inl r, s)))
    \<and> (q_id req = req_value.One nwid \<longrightarrow> (\<exists>r. POST_updateNetworkMember env now req (JObj fs) s = (Inl r, s)))"
  using assms by (auto simp: is_stashed_def intro!: org_update_refused private_update_refused)

section \<open>Updates reach both sides\<close>

lemma put_field_other: "k \<noteq> ''authorized'' \<Longrightarrow> m_authorized (put_field (k, v) m) = m_authorized m"
  "k \<noteq> ''deleted'' \<Longrightarrow> m_deleted (put_field (k, v) m) = m_deleted m"
  by (cases v; auto)+

lemma put_field_key [simp]: "m_nwid (put_field f m) = m_nwid m" "m_id (put_field f m) = m_id m" "m_nodeid (put_field f m) = m_nodeid m"
  by (cases "(f, m)" rule: put_field.cases; simp)+

lemma put_fields_key [simp]: "m_nwid (fold put_field fs m) = m_nwid m" "m_id (fold put_field fs m) = m_id m" "m_nodeid (fold put_field fs m) = m_nodeid m"
  by (induction fs arbitrary: m) simp_all

lemma put_fields_other: "''authorized'' \<notin> fst ` set fs \<Longrightarrow> m_authorized (fold put_field fs m) = m_authorized m"
  "''deleted'' \<notin> fst ` set fs \<Longrightarrow> m_deleted (fold put_field fs m) = m_deleted m"
proof -
  show "''authorized'' \<notin> fst ` set fs \<Longrightarrow> m_authorized (fold put_field fs m) = m_authorized m"
    by (induction fs arbitrary: m) (auto simp: put_field_other)
  show "''deleted'' \<notin> fst ` set fs \<Longrightarrow> m_deleted (fold put_field fs m) = m_deleted m"
    by (induction fs arbitrary: m) (auto simp: put_field_other)
qed

lemma put_fields_authorized:
  assumes "distinct (map fst fs)" "map_of fs ''authorized'' = Some (JBool b)"
  shows "m_authorized (fold put_field fs m) = Some b"
  using assms
proof (induction fs arbitrary: m)
  case (Cons f fs)
  then show ?case by (cases f; cases "fst f = ''authorized''") (auto simp: put_fields_other image_iff)
qed simp

lemma restored_put: "m_deleted (fold put_field restored_fields m) = Some False" "m_permanentlyDeleted (fold put_field restored_fields m) = Some False"
    "m_authorized (fold put_field restored_fields m) = m_authorized m"
  by (simp_all add: restored_fields_def)

lemma map_of_filter_keys: "map_of (filter (\<lambda>(k, _). P k) fs) j = (if P j then map_of fs j else None)"
  by (induction fs) auto

lemma payload_field: "map_of (payload_for dests dest fs) k = (if (case map_of dests k of None \<Rightarrow> False | Some ds \<Rightarrow> dest \<in> set ds) then map_of fs k else None)"
  unfolding payload_for_def by (rule map_of_filter_keys)

lemma payload_distinct: "distinct (map fst fs) \<Longrightarrow> distinct (map fst (payload_for dests dest fs))"
  by (simp add: payload_for_def distinct_map_filter)

lemma payload_authorized:
  assumes "map_of fs ''authorized'' = Some v"
  shows "map_of (payload_for org_member_fields dest fs) ''authorized'' = Some v"
  using assms by (cases dest) (simp_all add: payload_field org_member_fields_def)

lemma payload_not_deleted: "''deleted'' \<notin> fst ` set (payload_for org_member_fields dest fs)"
  by (auto simp: payload_for_def org_member_fields_def)

lemma parse_strict_distinct:
  assumes "parse_strict shape fs = Inr gs" "distinct (map fst shape)"
  shows "distinct (map fst gs)"
proof -
  have sub: "fst ` set (List.map_filter (\<lambda>(k, p). map_option (Pair k) (Option.bind (map_of fs k) p)) sh) \<subseteq> fst ` set sh" for sh
    by (induction sh) (auto simp: List.map_filter_simps split: option.split)
  have "distinct (map fst (List.map_filter (\<lambda>(k, p). map_option (Pair k) (Option.bind (map_of fs k) p)) sh))" if "distinct (map fst sh)" for sh
    using that
  proof (induction sh)
    case (Cons x sh)
    then show ?case using sub[of sh] by (cases x) (auto simp: List.map_filter_simps split: option.split)
  qed (simp add: List.map_filter_simps)
  then show ?thesis using assms by (auto simp: parse_strict_def split: if_split_asm)
qed

lemma row_at_update_key:
  assumes "\<And>m. m_nwid (f m) = m_nwid m" "\<And>m. m_id (f m) = m_id m"
  shows "row_at n j (update_rows nwid i f rows) = map_option (if n = nwid \<and> j = i then f else id) (row_at n j rows)"
  unfolding row_at_def update_rows_def by (induction rows) (auto simp: assms)

lemma cached_row:
  "row_at nwid i (rest_rows (cache_answer nwid d s)) = map_option (case d of Some x \<Rightarrow> if md_id x = i \<and> i \<noteq> [] then controllerCacheFields x else id | None \<Rightarrow> id)
     (row_at nwid i (rest_rows s))"
  by (auto simp: cache_answer_def cacheControllerMember_def rest_rows_def put_rest_rows_def row_at_update_key controllerCacheFields_def split: option.split)
    (simp_all add: option.map_id)

lemma created_member_row:
  assumes "row_at nwid i (rest_rows s) = None" "distinct (map fst p)" "map_of p ''authorized'' = Some (JBool b)"
  shows "\<exists>m. row_at nwid i (rest_rows (create_member now nwid i p s)) = Some m \<and> m_authorized m = Some b \<and> m_deleted m = Some False"
proof -
  let ?g = "filter (\<lambda>(k, _). k \<in> {''authorized'', ''ipAssignments'', ''noAutoAssignIps'', ''activeBridge''}) p"
  have "map_of ?g ''authorized'' = Some (JBool b)" by (simp add: map_of_filter_keys assms(3))
  moreover have "distinct (map fst ?g)" using assms(2) by (rule distinct_map_filter)
  moreover have "''deleted'' \<notin> fst ` set ?g" by auto
  ultimately show ?thesis using assms(1)
    by (simp add: create_member_def Let_def rest_rows_def row_at_append put_fields_authorized put_fields_other new_row_def)
qed

lemma written_row:
  assumes "row_at nwid i (rest_rows s) = Some m0" "is_stashed (Some m0) \<longrightarrow> restore" "distinct (map fst p)" "map_of p ''authorized'' = Some (JBool b)" "''deleted'' \<notin> fst ` set p"
  shows "\<exists>m. row_at nwid i (rest_rows (write_member nwid i (p @ (if restore then restored_fields else [])) s)) = Some m \<and> m_authorized m = Some b \<and> m_deleted m \<noteq> Some True"
proof -
  have "p \<noteq> []" using assms(4) by auto
  then have "row_at nwid i (rest_rows (write_member nwid i (p @ (if restore then restored_fields else [])) s))
      = Some (fold put_field (p @ (if restore then restored_fields else [])) m0)"
    using assms(1) by (simp add: write_member_def rest_rows_def put_rest_rows_def row_at_update_key)
  then show ?thesis using assms(2-5) by (auto simp: put_fields_authorized put_fields_other restored_put is_stashed_def)
qed

lemma org_body_done:
  assumes "org_member_body env now u nwid org i body s = (Inr r, t)" "distinct (map fst body)" "map_of body ''authorized'' = Some (JBool b)"
  shows "\<exists>m p. row_at nwid i (rest_rows t) = Some m \<and> m_authorized m = Some b \<and> m_deleted m \<noteq> Some True
    \<and> rs_sent t = rs_sent s @ [RestMemberUpdate nwid i p] \<and> map_of p ''authorized'' = Some (JBool b)"
proof -
  define row where "row = row_at nwid i (rest_rows s)"
  define restore where "restore \<longleftrightarrow> map_of body ''deleted'' = Some (JBool False)"
  define p where "p = payload_for org_member_fields Database body"
  define q where "q = payload_for org_member_fields Controller body"
  define w where "w = (if row = None then create_member now nwid i (p @ (if restore then restored_fields else [])) s
    else write_member nwid i (p @ (if restore then restored_fields else [])) s)"
  have p: "map_of p ''authorized'' = Some (JBool b)" "distinct (map fst p)" "''deleted'' \<notin> fst ` set p"
    using assms(2,3) by (simp_all add: p_def payload_authorized payload_distinct payload_not_deleted)
  have q: "map_of q ''authorized'' = Some (JBool b)" using assms(3) by (simp add: q_def payload_authorized)
  then have "q \<noteq> []" by auto
  have u: "\<not> (is_stashed row \<and> \<not> restore)" and t: "\<exists>d. t = cache_answer nwid d (w\<lparr>rs_sent := rs_sent w @ [RestMemberUpdate nwid i q]\<rparr>)"
    using assms(1) \<open>q \<noteq> []\<close>
    by (auto simp: org_member_body_def throwing_bind Let_def rest_member_update_def row_def[symmetric] restore_def[symmetric] p_def[symmetric]
        q_def[symmetric] w_def[symmetric] split: if_split_asm option.split_asm sum.split_asm)
  have "distinct (map fst (p @ (if restore then restored_fields else [])))" if "row = None"
    using p by (auto simp: restored_fields_def p_def payload_for_def org_member_fields_def)
  then have "\<exists>m. row_at nwid i (rest_rows w) = Some m \<and> m_authorized m = Some b \<and> m_deleted m \<noteq> Some True"
    using created_member_row[of nwid i s "p @ (if restore then restored_fields else [])" b now] written_row[of nwid i s _ restore p b] u p
    by (cases row) (auto simp: w_def row_def[symmetric] simp del: map_append)
  moreover have "rs_sent w = rs_sent s" by (simp add: w_def create_member_def write_member_def Let_def)
  moreover from t obtain d where d: "t = cache_answer nwid d (w\<lparr>rs_sent := rs_sent w @ [RestMemberUpdate nwid i q]\<rparr>)" by blast
  moreover from d have "rs_sent t = rs_sent w @ [RestMemberUpdate nwid i q]" by (simp add: cache_answer_def split: option.split)
  moreover from d have "row_at nwid i (rest_rows t)
      = map_option (case d of Some x \<Rightarrow> if md_id x = i \<and> i \<noteq> [] then controllerCacheFields x else id | None \<Rightarrow> id) (row_at nwid i (rest_rows w))"
    by (simp add: cached_row) (simp add: rest_rows_def)
  ultimately show ?thesis using q by (cases d) (auto simp: controllerCacheFields_def)
qed

text \<open>The route for personal networks creates no row: an update it accepts for a member without a row goes to the controller
  only.\<close>

lemma private_update_without_row:
  assumes "private_member_body env u nwid i body s = (Inr r, t)" "row_at nwid i (rest_rows s) = None"
  shows "row_at nwid i (rest_rows t) = None"
proof -
  have "own_member u nwid i s = None" using assms(2) by (simp add: own_member_def split: bind_split)
  then obtain d s1 where t: "t = cache_answer nwid d s1" "rest_rows s1 = rest_rows s"
    using assms(1) by (auto simp: private_member_body_def Let_def sbind_def rest_member_update_def details_def rest_rows_def split: if_split_asm option.split_asm)
  show ?thesis unfolding t(1) cached_row t(2) using assms(2) by simp
qed

text \<open>C37. An authorisation reaches both sides, on the route of organisations: when it accepts an update that sets the
  authorisation of a member, the stored row exists, carries the given value and is not stashed, and the controller was
  asked for the same value, in exactly one request. The route for personal networks is not covered.\<close>

theorem member_update_reaches_both:
  assumes "POST_orgUpdateNetworkMember env now req (JObj fs) s = (Inr r, t)" "map_of fs ''authorized'' = Some (JBool b)"
    and "q_nwid req = req_value.One nwid" "q_memberId req = req_value.One i"
  shows "\<exists>m p. row_at nwid i (rest_rows t) = Some m \<and> m_authorized m = Some b \<and> m_deleted m \<noteq> Some True
    \<and> rs_sent t = rs_sent s @ [RestMemberUpdate nwid i p] \<and> map_of p ''authorized'' = Some (JBool b)"
proof -
  obtain c where c: "SecuredOrganizationApiRoute (rv_decode env) now (rest_db s) USER True True req = Inr c"
    using assms(1) by (cases "SecuredOrganizationApiRoute (rv_decode env) now (rest_db s) USER True True req")
      (auto simp: POST_orgUpdateNetworkMember_def org_route_def)
  note g = org_context(2,6)[OF c]
  obtain org gs where b: "parse_strict PostBodySchema fs = Inr gs" "org_member_body env now (hc_userId c) nwid org i gs s = (Inr r, t)"
    using assms(1,3,4) g
    by (auto simp: POST_orgUpdateNetworkMember_def org_route_def c handled_def throwing_bind rbind_Inr_iff body_or_empty_def
        dest!: member_context_values split: sum.split_asm) (metis prod.collapse)
  have "map_of gs ''authorized'' = Some (JBool b)"
    using parse_strict_field[OF b(1) schemas_distinct(1), of "''authorized''" "accept is_bool"] assms(2) by (simp add: PostBodySchema_def accept_def)
  from org_body_done[OF b(2) parse_strict_distinct[OF b(1) schemas_distinct(1)] this] show ?thesis .
qed

theorem member_update_reaches_both_witness:
  "\<exists>m. row_at ''n1'' ''1234567890'' (rest_rows (snd (POST_orgUpdateNetworkMember rest_demo_env 5 (rest_demo_req (req_value.One ''k1'') ''n1'')
     (JObj [(''authorized'', JBool True), (''deleted'', JBool False)]) (rest_demo_state USER [rest_demo_member True])))) = Some m \<and> m_authorized m = Some True"
proof -
  let ?r = "POST_orgUpdateNetworkMember rest_demo_env 5 (rest_demo_req (req_value.One ''k1'') ''n1'')
     (JObj [(''authorized'', JBool True), (''deleted'', JBool False)]) (rest_demo_state USER [rest_demo_member True])"
  have "is_ok (fst ?r)" by code_simp
  then obtain x where "fst ?r = Inr x" by (auto simp: is_ok_iff)
  then have "?r = (Inr x, snd ?r)" by (metis prod.collapse)
  from member_update_reaches_both[OF this, of True "''n1''" "''1234567890''"] show ?thesis by (auto simp: rest_demo_req_def)
qed

theorem stashed_members_are_protected_witness:
  "\<exists>r. POST_orgUpdateNetworkMember rest_demo_env 5 (rest_demo_req (req_value.One ''k1'') ''n1'') (JObj [(''authorized'', JBool True)])
     (rest_demo_state USER [rest_demo_member True]) = (Inl r, rest_demo_state USER [rest_demo_member True])"
proof -
  have "row_at ''n1'' ''1234567890'' (rest_rows (rest_demo_state USER [rest_demo_member True])) = Some (rest_demo_member True)" "m_deleted (rest_demo_member True) = Some True"
    by code_simp+
  from stashed_members_are_protected[OF this, of "[(''authorized'', JBool True)]"] show ?thesis by (simp add: rest_demo_req_def)
qed

theorem rest_requests_stay_in_reach_witness: "reach rest_demo_env (rest_demo_db USER) ''u2'' ''n1''"
proof -
  let ?rqs = "[OrgNetwork 5 ''POST'' (rest_demo_req (req_value.One ''k1'') ''n1'') (JObj [(''private'', JBool False)])]"
  have "rest_view ''n1'' (fold (run_rest rest_demo_env) ?rqs (rest_demo_state USER [])) \<noteq> rest_view ''n1'' (rest_demo_state USER [])" by code_simp
  moreover have "rest_db (rest_demo_state USER []) = rest_demo_db USER"
    "rest_caller rest_demo_env (rest_demo_db USER) (hd ?rqs) = Inr ''u2''" by (code_simp, code_simp)
  moreover have "list_all plain_request ?rqs" "plain_networks (rest_db (rest_demo_state USER []))" by (code_simp, code_simp)
  moreover have "lists_plain rest_demo_env" by (simp add: lists_plain_def rest_demo_env_def demo_netenv_def plain_id_def id_chars_def)
  ultimately show ?thesis using rest_requests_stay_in_reach[of "''n1''" rest_demo_env ?rqs "rest_demo_state USER []"] by simp
qed

section \<open>What the interface lets through\<close>

lemma org_route_passes: "SecuredOrganizationApiRoute (rv_decode env) now (rest_db s) r b True req = Inr c \<Longrightarrow> org_route env now r b req h s = handled (h c s)"
  by (simp add: org_route_def)

text \<open>C40. Read-only members change networks: the update of a network of an organisation asks for the role \<^verbatim>\<open>READ_ONLY\<close> only, and
  the lookup behind it for nothing but membership; so a member without the role to change the network, whom the
  procedure refuses, makes the same change through the REST interface.\<close>

theorem read_only_members_change_networks:
  assumes "SecuredOrganizationApiRoute (rv_decode env) now (rest_db s) READ_ONLY True True req = Inr c" "hc_networkId c = Some nwid"
    and "\<not> is_ok (checkNetworkAccess (rest_db s) (hc_userId c) nwid USER)"
    and "find_network nwid (rest_db s) = Some n" "n_organizationId n = Some org" "org \<noteq> []" "hc_userId c \<in> set (ne_orgUsers (rv_net env) org)"
    and "ne_network (rv_net env) False nwid = Some nw"
  shows "snd (privatePublicNetwork (net_caller env (hc_userId c)) org' False nwid False (rs_net s)) = rs_net s
    \<and> RestNetworkUpdate nwid [(''private'', JBool False)] \<in> set (rs_sent (snd (POST_network env now req (JObj [(''private'', JBool False)]) s)))"
proof
  show "snd (privatePublicNetwork (net_caller env (hc_userId c)) org' False nwid False (rs_net s)) = rs_net s"
    using assms(3) by (simp add: privatePublicNetwork_def changing_def net_permitted_snd network_access_def net_caller_def rest_db_def)
  let ?p = "[(''private'', JBool False)]"
  obtain x t where x: "call_net (getNetworkById (net_caller env (hc_userId c)) nwid) s = (Inr x, t)"
    using assms(4-8) by (simp add: call_net_def getNetworkById_def net_caller_def rest_db_def throwing_def case_prod_beta Let_def)
  have p: "parse_strict NetworkUpdateSchema ?p = Inr ?p" "payload_for org_network_fields Controller ?p = ?p" "map_of ?p ''flowRule'' = None"
    by code_simp+
  have "RestNetworkUpdate nwid ?p \<in> set (rs_sent (snd (network_body env (hc_userId c) nwid ?p s)))"
    unfolding network_body_def p
    by (simp add: set_rules_def x rest_network_update_def network_details_def sbind_def split: option.split)
  then show "RestNetworkUpdate nwid ?p \<in> set (rs_sent (snd (POST_network env now req (JObj ?p) s)))"
    by (simp add: POST_network_def org_route_passes[OF assms(1)] assms(2) text_param_def throwing_bind p(1))
qed

theorem read_only_members_change_networks_witness:
  "RestNetworkUpdate ''n1'' [(''private'', JBool False)] \<in> set (rs_sent (snd (POST_network rest_demo_env 5 (rest_demo_req (req_value.One ''k1'') ''n1'')
     (JObj [(''private'', JBool False)]) (rest_demo_state READ_ONLY []))))"
proof -
  let ?c = "\<lparr>hc_userId = ''u2'', hc_orgId = Some ''o1'', hc_networkId = Some ''n1'', hc_memberId = Some ''1234567890''\<rparr>"
  let ?s = "rest_demo_state READ_ONLY []"
  have g: "SecuredOrganizationApiRoute (rv_decode rest_demo_env) 5 (rest_db ?s) READ_ONLY True True (rest_demo_req (req_value.One ''k1'') ''n1'') = Inr ?c" by code_simp
  have f: "\<not> is_ok (checkNetworkAccess (rest_db ?s) ''u2'' ''n1'' USER)" "find_network ''n1'' (rest_db ?s) = Some (hd (networks demo_db))"
    "n_organizationId (hd (networks demo_db)) = Some ''o1''" "(''o1'' :: string) \<noteq> []" "''u2'' \<in> set (ne_orgUsers (rv_net rest_demo_env) ''o1'')"
    "ne_network (rv_net rest_demo_env) False ''n1'' = Some \<lparr>cn_v6 = None, cn_routes = []\<rparr>"
    by (code_simp, code_simp, code_simp, simp, code_simp, code_simp)
  show ?thesis using read_only_members_change_networks[OF g] f by simp
qed

text \<open>A token of any organisation reads any network: reading a network through the organisation route compares the
  network with no organisation, so that a caller with a role in one organisation is shown the description and the
  controller's data of every stored network.\<close>

theorem org_route_reads_any_network:
  assumes "SecuredOrganizationApiRoute (rv_decode env) now (rest_db s) READ_ONLY True True req = Inr c" "hc_networkId c = Some nwid"
    and "find_network nwid (rest_db s) \<noteq> None" "rv_network env (rs_sent s) nwid = Some (v, k)"
  shows "fst (GET_org_network env now req s) = Inr (BNetwork (Some (nm_description (meta_of nwid (rs_net s)))) v None)"
  using assms by (simp add: GET_org_network_def org_route_def handled_def Let_def network_details_def)

theorem org_route_reads_any_network_witness:
  "fst (GET_org_network rest_demo_env 5 ((rest_demo_req (req_value.One ''k1'') ''n3'')) ((rest_demo_state READ_ONLY [])\<lparr>rs_net := (rs_net (rest_demo_state READ_ONLY []))
     \<lparr>nt_db := (rest_demo_db READ_ONLY)\<lparr>networks := [\<lparr>n_nwid = ''n3'', n_name = None, n_authorId = Some ''u1'', n_organizationId = None, n_routeTargets = []\<rparr>]\<rparr>\<rparr>\<rparr>))
   = Inr (BNetwork (Some None) (JObj []) None)"
proof -
  let ?c = "\<lparr>hc_userId = ''u2'', hc_orgId = Some ''o1'', hc_networkId = Some ''n3'', hc_memberId = Some ''1234567890''\<rparr>"
  let ?s = "(rest_demo_state READ_ONLY [])\<lparr>rs_net := (rs_net (rest_demo_state READ_ONLY []))
     \<lparr>nt_db := (rest_demo_db READ_ONLY)\<lparr>networks := [\<lparr>n_nwid = ''n3'', n_name = None, n_authorId = Some ''u1'', n_organizationId = None, n_routeTargets = []\<rparr>]\<rparr>\<rparr>\<rparr>"
  have g: "SecuredOrganizationApiRoute (rv_decode rest_demo_env) 5 (rest_db ?s) READ_ONLY True True (rest_demo_req (req_value.One ''k1'') ''n3'') = Inr ?c" by code_simp
  have f: "find_network ''n3'' (rest_db ?s) \<noteq> None" "rv_network rest_demo_env (rs_sent ?s) ''n3'' = Some (JObj [], 0)" "nm_description (meta_of ''n3'' (rs_net ?s)) = None"
    by code_simp+
  show ?thesis using org_route_reads_any_network[OF g _ f(1,2)] f(3) by simp
qed

section \<open>The shared limit\<close>

lemma limit_counts:
  assumes "rs_limits s (token @ '':global'') = Some (n, t0)" "now - t0 \<le> rv_window env"
  shows "with_limit env now token h s = (let s1 = s\<lparr>rs_limits := (rs_limits s)(token @ '':global'' \<mapsto> (n + 1, t0))\<rparr>
    in if n < rv_limit env then h s1 else (Inl \<lparr>status = 429, message = ''Rate limit exceeded''\<rparr>, s1))"
  using assms check_rate_hit[of "rs_limits s" token "''global''" n t0 now "rv_window env" "rv_limit env"] by (simp add: with_limit_def)

lemma net_limit:
  assumes "rs_limits s net_counter = Some (n, t0)" "now - t0 \<le> rv_window env"
  shows "orgNetworkHandler env now m req body s = (let s1 = s\<lparr>rs_limits := (rs_limits s)(net_counter \<mapsto> (n + 1, t0))\<rparr>
    in if n < rv_limit env then (if m = ''GET'' then GET_org_network env now req else if m = ''POST'' then POST_network env now req body
        else if m = ''DELETE'' then DELETE_network env now req else method_not_allowed) s1
      else (Inl \<lparr>status = 429, message = ''Rate limit exceeded''\<rparr>, s1))"
  unfolding orgNetworkHandler_def
  by (subst limit_counts[where token = "''ORGANIZATION_NETWORKID_CACHE_TOKEN''" and n = n and ?t0.0 = t0]) (use assms in simp_all)

lemma anonymous_request:
  assumes "h_auth req = req_value.Absent" "rs_limits s net_counter = Some (n, t0)" "now - t0 \<le> rv_window env"
  shows "rs_limits (snd (orgNetworkHandler env now ''GET'' req body s)) net_counter = Some (n + 1, t0)"
proof -
  have "\<exists>r. SecuredOrganizationApiRoute (rv_decode env) now d ro True True req = Inl r" for d ro
    using org_context(1)[of "rv_decode env" now d ro True req] assms(1)
    by (cases "SecuredOrganizationApiRoute (rv_decode env) now d ro True True req") (auto simp: decryptAndVerifyToken_def)
  then obtain r where r: "\<And>d ro. SecuredOrganizationApiRoute (rv_decode env) now d ro True True req = Inl (r d ro)" by metis
  show ?thesis unfolding net_limit[OF assms(2,3)] by (simp add: GET_org_network_def org_route_def r Let_def)
qed

lemma anonymous_requests:
  assumes "h_auth req = req_value.Absent" "rs_limits s net_counter = Some (n, t0)" "\<forall>now\<in>set ts. now - t0 \<le> rv_window env"
  shows "rs_limits (fold (\<lambda>now s. snd (orgNetworkHandler env now ''GET'' req body s)) ts s) net_counter = Some (n + length ts, t0)"
  using assms(2,3)
proof (induction ts arbitrary: s n)
  case (Cons now ts)
  then have "rs_limits (snd (orgNetworkHandler env now ''GET'' req body s)) net_counter = Some (n + 1, t0)" by (intro anonymous_request assms(1)) auto
  from Cons.IH[OF this] Cons.prems(2) show ?case by simp
qed simp

text \<open>The limit of a route is shared by everybody: after as many requests without any token as the limit allows in the open
  window, every request of the route is refused in this window, also one with a valid token.\<close>

theorem anonymous_requests_exhaust_limit:
  assumes "h_auth req = req_value.Absent" "rs_limits s net_counter = Some (1, t0)" "length ts + 1 \<ge> rv_limit env"
    and "\<forall>now\<in>set ts. now - t0 \<le> rv_window env" "now - t0 \<le> rv_window env"
  shows "fst (orgNetworkHandler env now m req' body' (fold (\<lambda>now s. snd (orgNetworkHandler env now ''GET'' req body s)) ts s))
    = Inl \<lparr>status = 429, message = ''Rate limit exceeded''\<rparr>"
proof -
  let ?t = "fold (\<lambda>now s. snd (orgNetworkHandler env now ''GET'' req body s)) ts s"
  from anonymous_requests[OF assms(1,2,4), of body] have "rs_limits ?t net_counter = Some (1 + length ts, t0)" .
  from net_limit[OF this assms(5)] assms(3) show ?thesis by (simp add: Let_def)
qed

theorem anonymous_requests_exhaust_limit_witness:
  "fst (orgNetworkHandler rest_demo_env 7 ''GET'' (rest_demo_req (req_value.One ''k1'') ''n1'') JUndefined
     (fold (\<lambda>now s. snd (orgNetworkHandler rest_demo_env now ''GET'' (rest_demo_req req_value.Absent ''n1'') JUndefined s)) [6]
       ((rest_demo_state USER [])\<lparr>rs_limits := [net_counter \<mapsto> (1, 5)]\<rparr>))) = Inl \<lparr>status = 429, message = ''Rate limit exceeded''\<rparr>"
  by (rule anonymous_requests_exhaust_limit[where ?t0.0 = 5]) (simp_all add: rest_demo_req_def rest_demo_env_def)

end
