(* ===== verification/Api_Tokens.thy ===== *)
theory Api_Tokens
  imports Accounts
begin

text \<open>
  API tokens and devices of a user (\<^verbatim>\<open>server/api/routers/authRouter.ts\<close>) and the creation of users through the REST
  interface (\<^verbatim>\<open>pages/api/v1/user/index.ts\<close>).

  The state adds the columns of the token table that no guard reads. The environment holds the encryption with its
  random start (the seed), new identifiers, and the calendar; a date out of range is \<open>None\<close>.
\<close>

section \<open>Data\<close>

record token_meta =
  tm_name :: string
  tm_types :: "authorization_type list"
  tm_isActive :: bool
  tm_createdAt :: int

record token_state =
  tk_org :: org_state
  tk_meta :: "(string \<times> token_meta) list"

record token_env =
  te_encrypt :: "nat \<Rightarrow> token_payload \<Rightarrow> string"
  te_newId :: "db \<Rightarrow> string"
  te_addDays :: "int \<Rightarrow> int \<Rightarrow> int option"

definition tk_db :: "token_state \<Rightarrow> db" where
  "tk_db s = os_db (tk_org s)"

definition in_tokens :: "(db \<Rightarrow> db) \<Rightarrow> token_state \<Rightarrow> token_state" where
  "in_tokens f s = s\<lparr>tk_org := in_db f (tk_org s)\<rparr>"

section \<open>Tokens\<close>

text \<open>A text that is no positive number gives a token that never expires.\<close>

definition token_expiry :: "token_env \<Rightarrow> int \<Rightarrow> string \<Rightarrow> exn + int option" where
  "token_expiry env now daysToExpire =
     (case parse_int daysToExpire of
        Some n \<Rightarrow> if n > 0 then (case te_addDays env now n of None \<Rightarrow> Inl (bad_request ''Invalid time value'') | Some t \<Rightarrow> Inr (Some t)) else Inr None
      | None \<Rightarrow> Inr None)"

definition token_payload_of :: "string \<Rightarrow> authorization_type list \<Rightarrow> string option \<Rightarrow> token_payload" where
  "token_payload_of userId types tokenId =
     \<lparr>tp_userId = json_field.JText userId, tp_tokenId = (case tokenId of None \<Rightarrow> JFalsy | Some i \<Rightarrow> json_field.JText i), tp_authorizationType = Some types\<rparr>"

text \<open>The row is created with a token that lacks its own id.\<close>

definition issue_token :: "token_env \<Rightarrow> nat \<Rightarrow> int \<Rightarrow> string \<Rightarrow> string \<Rightarrow> int option \<Rightarrow> authorization_type list \<Rightarrow> token_state \<Rightarrow> exn + api_token_row \<times> token_state" where
  "issue_token env seed now userId name expiresAt types s =
     (let d = tk_db s; i = te_newId env d;
          row = \<lparr>t_id = i, t_userId = userId, t_token = te_encrypt env seed (token_payload_of userId types None), t_expiresAt = expiresAt\<rparr>
      in rbind (ensure (find_user userId d \<noteq> None \<and> \<not> list_ex (\<lambda>t. t_id t = i \<or> t_token t = t_token row) (api_tokens d)) (bad_request ''PrismaClientKnownRequestError'')) (\<lambda>_.
         Inr (row, (in_tokens (\<lambda>d. d\<lparr>api_tokens := api_tokens d @ [row]\<rparr>) s)
               \<lparr>tk_meta := tk_meta s @ [(i, \<lparr>tm_name = name, tm_types = types, tm_isActive = True, tm_createdAt = now\<rparr>)]\<rparr>)))"

text \<open>The token of the row is replaced by one that names the row.\<close>

definition seal_token :: "token_env \<Rightarrow> nat \<Rightarrow> authorization_type list \<Rightarrow> api_token_row \<Rightarrow> token_state \<Rightarrow> exn + api_token_row \<times> token_state" where
  "seal_token env seed types row s =
     (let k = te_encrypt env seed (token_payload_of (t_userId row) types (Some (t_id row))); d = tk_db s
      in rbind (ensure (list_ex (\<lambda>t. t_id t = t_id row) (api_tokens d) \<and> \<not> list_ex (\<lambda>t. t_id t \<noteq> t_id row \<and> t_token t = k) (api_tokens d))
                  (bad_request ''PrismaClientKnownRequestError'')) (\<lambda>_.
         Inr (row\<lparr>t_token := k\<rparr>, in_tokens (\<lambda>d. d\<lparr>api_tokens := map (\<lambda>t. if t_id t = t_id row then t\<lparr>t_token := k\<rparr> else t) (api_tokens d)\<rparr>) s)))"

text \<open>The two writes are separate: when the second fails, the first stays.\<close>

definition addApiToken :: "token_env \<Rightarrow> nat \<Rightarrow> int \<Rightarrow> string \<Rightarrow> string \<Rightarrow> string \<Rightarrow> authorization_type list \<Rightarrow> token_state \<Rightarrow> (exn + api_token_row) \<times> token_state" where
  "addApiToken env seed now userId name daysToExpire types s =
     (if length name < 3 \<or> length name > 50 then (Inl ZodError, s)
      else case rbind (token_expiry env now daysToExpire) (\<lambda>e. issue_token env seed now userId name e types s) of
          Inl x \<Rightarrow> (Inl x, s)
        | Inr (row, s1) \<Rightarrow> (case seal_token env (seed + 1) types row s1 of Inl x \<Rightarrow> (Inl x, s1) | Inr (row', s2) \<Rightarrow> (Inr row', s2)))"

definition user_tokens :: "string \<Rightarrow> token_state \<Rightarrow> api_token_row list" where
  "user_tokens userId s = filter (\<lambda>t. t_userId t = userId) (api_tokens (tk_db s))"

definition meta_of_token :: "token_state \<Rightarrow> string \<Rightarrow> token_meta option" where
  "meta_of_token s i = map_of (tk_meta s) i"

definition created_at :: "token_state \<Rightarrow> api_token_row \<Rightarrow> int" where
  "created_at s t = (case meta_of_token s (t_id t) of None \<Rightarrow> 0 | Some m \<Rightarrow> tm_createdAt m)"

text \<open>The list shows the flags as they were before this call updates them.\<close>

definition getApiToken :: "int \<Rightarrow> string \<Rightarrow> token_state \<Rightarrow> (api_token_row \<times> token_meta option) list \<times> token_state" where
  "getApiToken now userId s =
     (let tokens = sort_key (created_at s) (user_tokens userId s);
          flag = (\<lambda>i m. case find (\<lambda>t. t_id t = i) tokens of
                    Some t \<Rightarrow> (case t_expiresAt t of None \<Rightarrow> m | Some e \<Rightarrow> m\<lparr>tm_isActive := (e > now)\<rparr>) | None \<Rightarrow> m)
      in (map (\<lambda>t. (t, meta_of_token s (t_id t))) tokens, s\<lparr>tk_meta := map (\<lambda>(i, m). (i, flag i m)) (tk_meta s)\<rparr>))"

definition deleteApiToken :: "string \<Rightarrow> string \<Rightarrow> token_state \<Rightarrow> exn + token_state" where
  "deleteApiToken userId i s =
     rbind (ensure (list_ex (\<lambda>t. t_id t = i \<and> t_userId t = userId) (api_tokens (tk_db s))) record_missing) (\<lambda>_.
     Inr ((in_tokens (\<lambda>d. d\<lparr>api_tokens := filter (\<lambda>t. \<not> (t_id t = i \<and> t_userId t = userId)) (api_tokens d)\<rparr>) s)
       \<lparr>tk_meta := filter (\<lambda>(j, _). j \<noteq> i) (tk_meta s)\<rparr>))"

definition deleteUserDevice :: "string \<Rightarrow> string \<Rightarrow> token_state \<Rightarrow> exn + token_state" where
  "deleteUserDevice userId deviceId s =
     (case find (\<lambda>v. d_deviceId v = deviceId) (devices (tk_db s)) of
        None \<Rightarrow> Inl (PlainError ''Device not found or you do not have permission to delete it.'')
      | Some v \<Rightarrow>
          if d_userId v \<noteq> userId then Inl (PlainError ''Device not found or you do not have permission to delete it.'')
          else Inr (in_tokens (\<lambda>d. d\<lparr>devices := filter (\<lambda>v. d_deviceId v \<noteq> deviceId) (devices d)\<rparr>) s))"

section \<open>Users through the REST interface\<close>

text \<open>A body whose fields have other types is refused by the schema and not represented.\<close>

record create_user_body =
  cb_email :: string
  cb_password :: string
  cb_name :: string
  cb_expiresAt :: "string option"
  cb_generateApiToken :: "bool option"

record user_env =
  uv_tokens :: token_env
  uv_decode :: "string \<Rightarrow> decoded"
  uv_isEmail :: "string \<Rightarrow> bool"
  uv_isDatetime :: "string \<Rightarrow> bool"
  uv_toISOString :: "string \<Rightarrow> string option"
  uv_rateOk :: bool
  uv_parseDate :: "string \<Rightarrow> int option"
  uv_policy :: password_policy
  uv_hash :: "string \<Rightarrow> string"
  uv_newId :: string

definition createUserSchema :: "user_env \<Rightarrow> create_user_body \<Rightarrow> bool" where
  "createUserSchema env b \<longleftrightarrow> uv_isEmail env (cb_email b) \<and> length (cb_password b) \<le> 128 \<and> passwordMeetsPolicy (cb_password b) (uv_policy env)
     \<and> 3 \<le> length (cb_name b) \<and> length (cb_name b) \<le> 40 \<and> (case cb_expiresAt b of None \<Rightarrow> True | Some t \<Rightarrow> uv_isDatetime env t)"

definition register_args :: "create_user_body \<Rightarrow> register_input" where
  "register_args b = \<lparr>ri_email = js_trim (cb_email b), ri_password = cb_password b, ri_name = cb_name b, ri_expiresAt = cb_expiresAt b,
     ri_code = None, ri_orgToken = None, ri_token = None\<rparr>"

definition expiry_error :: "user_env \<Rightarrow> bool \<Rightarrow> string option \<Rightarrow> response option" where
  "expiry_error env first e =
     (case e of None \<Rightarrow> None
      | Some t \<Rightarrow>
          if first then Some \<lparr>status = 400, message = ''Cannot add expiresAt for Admin user!''\<rparr>
          else (case uv_toISOString env t of
                  None \<Rightarrow> Some (handleApiErrors (PlainError ''Invalid time value''))
                | Some u \<Rightarrow> if u \<noteq> t then Some \<lparr>status = 400, message = ''Invalid expiresAt date''\<rparr> else None))"

text \<open>One transaction: a failing token takes the user back. The call of \<^verbatim>\<open>register\<close> carries neither an invitation nor an
  organisation token.\<close>

definition create_user_tx :: "user_env \<Rightarrow> nat \<Rightarrow> int \<Rightarrow> create_user_body \<Rightarrow> token_state \<Rightarrow> exn + (string \<times> string option) \<times> token_state" where
  "create_user_tx env seed now b s =
     rbind (register (uv_rateOk env) (uv_parseDate env) (\<lambda>_. None) (\<lambda>_. False) (uv_policy env) (uv_hash env) (uv_newId env) now (register_args b) (tk_org s)) (\<lambda>o'.
       let s1 = s\<lparr>tk_org := o'\<rparr>
       in if cb_generateApiToken b \<noteq> Some True then Inr ((uv_newId env, None), s1)
          else case addApiToken (uv_tokens env) seed now (uv_newId env) ''Generated Token via API'' ''1'' [PERSONAL, ORGANIZATION] s1 of
              (Inl e, _) \<Rightarrow> Inl e
            | (Inr row, s2) \<Rightarrow> if t_token row = [] then Inl (PlainError ''API token generation failed'') else Inr ((uv_newId env, Some (t_token row)), s2))"

definition POST_createUser :: "user_env \<Rightarrow> nat \<Rightarrow> int \<Rightarrow> string option \<Rightarrow> create_user_body \<Rightarrow> token_state \<Rightarrow> (response + string \<times> string option) \<times> token_state" where
  "POST_createUser env seed now apiKey b s =
     (let first = (users (tk_db s) = [])
      in case (if first then Inr [] else decryptAndVerifyToken (uv_decode env) now (tk_db s) apiKey True PERSONAL) of
           Inl e \<Rightarrow> (Inl (handleApiErrors e), s)
         | Inr _ \<Rightarrow>
             if \<not> createUserSchema env b then (Inl (handleApiErrors ZodError), s)
             else case expiry_error env first (cb_expiresAt b) of
                 Some r \<Rightarrow> (Inl r, s)
               | None \<Rightarrow> (case create_user_tx env seed now b s of Inl e \<Rightarrow> (Inl (handleApiErrors e), s) | Inr (x, s1) \<Rightarrow> (Inr x, s1)))"

definition createUserHandler :: "user_env \<Rightarrow> bool \<Rightarrow> string \<Rightarrow> nat \<Rightarrow> int \<Rightarrow> string option \<Rightarrow> create_user_body \<Rightarrow> token_state \<Rightarrow> (response + string \<times> string option) \<times> token_state" where
  "createUserHandler env within_limit httpMethod seed now apiKey b s =
     (if \<not> within_limit then (Inl \<lparr>status = 429, message = ''Rate limit exceeded''\<rparr>, s)
      else if httpMethod = ''POST'' then POST_createUser env seed now apiKey b s
      else (Inl \<lparr>status = 405, message = ''Method Not Allowed''\<rparr>, s))"

section \<open>Requests\<close>

datatype token_request =
    TAdd nat int string string string "authorization_type list"
  | TGet int string
  | TDelete string string
  | TDevice string string

fun run_token :: "token_env \<Rightarrow> token_request \<Rightarrow> token_state \<Rightarrow> token_state" where
  "run_token env (TAdd seed now u name days types) s = snd (addApiToken env seed now u name days types s)"
| "run_token env (TGet now u) s = snd (getApiToken now u s)"
| "run_token env (TDelete u i) s = (case deleteApiToken u i s of Inl _ \<Rightarrow> s | Inr s1 \<Rightarrow> s1)"
| "run_token env (TDevice u i) s = (case deleteUserDevice u i s of Inl _ \<Rightarrow> s | Inr s1 \<Rightarrow> s1)"

fun token_caller :: "token_request \<Rightarrow> string" where
  "token_caller (TAdd seed now u name days types) = u"
| "token_caller (TGet now u) = u"
| "token_caller (TDelete u i) = u"
| "token_caller (TDevice u i) = u"

definition token_view :: "string \<Rightarrow> token_state \<Rightarrow> api_token_row list \<times> device_row list" where
  "token_view u s = (user_tokens u s, filter (\<lambda>v. d_userId v = u) (devices (tk_db s)))"

text \<open>The row is the only one with its id.\<close>

definition sole_token :: "api_token_row \<Rightarrow> token_state \<Rightarrow> bool" where
  "sole_token row s \<longleftrightarrow> filter (\<lambda>t. t_id t = t_id row) (api_tokens (tk_db s)) = [row]"

definition token_demo_env :: token_env where
  "token_demo_env = \<lparr>te_encrypt = (\<lambda>n p. case tp_tokenId p of json_field.JText i \<Rightarrow> ''s'' @ i | _ \<Rightarrow> ''c'' @ nat_str n),
     te_newId = (\<lambda>d. ''t'' @ nat_str (length (api_tokens d))), te_addDays = (\<lambda>now n. Some (now + n * 86400000))\<rparr>"

definition token_demo_state :: "role \<Rightarrow> token_state" where
  "token_demo_state r = \<lparr>tk_org = \<lparr>os_db = demo_db\<lparr>users := [demo_user ''u2'' r], api_tokens := []\<rparr>, os_orgs = [], os_members = [], os_invitations = [], os_orgInvites = [],
     os_log = [], os_nextInvite = 1\<rparr>, tk_meta = []\<rparr>"

definition token_demo_decode :: "string \<Rightarrow> decoded" where
  "token_demo_decode k = (case k of c # i \<Rightarrow> if c = CHR ''s'' then Decoded (token_payload_of ''u2'' [PERSONAL] (Some i)) else Undecodable | [] \<Rightarrow> Undecodable)"

definition user_demo_env :: "string \<Rightarrow> user_env" where
  "user_demo_env u = \<lparr>uv_tokens = token_demo_env,
     uv_decode = (\<lambda>k. case k of c # i \<Rightarrow> if c = CHR ''s'' then Decoded (token_payload_of u [PERSONAL, ORGANIZATION] (Some i)) else Undecodable | [] \<Rightarrow> Undecodable),
     uv_isEmail = (\<lambda>_. True), uv_isDatetime = (\<lambda>_. True), uv_toISOString = Some, uv_rateOk = True, uv_parseDate = (\<lambda>_. None),
     uv_policy = \<lparr>minLength = 8, minClasses = 1\<rparr>, uv_hash = id, uv_newId = ''u9''\<rparr>"

definition user_demo_body :: create_user_body where
  "user_demo_body = \<lparr>cb_email = ''a@b.cd'', cb_password = ''abcdefgh1'', cb_name = ''name'', cb_expiresAt = None, cb_generateApiToken = Some True\<rparr>"

definition user_demo_state :: "user_row list \<Rightarrow> api_token_row list \<Rightarrow> token_state" where
  "user_demo_state us ts = in_tokens (\<lambda>d. d\<lparr>users := us, api_tokens := ts, enableRegistration := Some True\<rparr>) (token_demo_state ADMIN)"

definition ids_unique :: "token_state \<Rightarrow> bool" where
  "ids_unique s \<longleftrightarrow> distinct (map t_id (api_tokens (tk_db s))) \<and> distinct (map d_deviceId (devices (tk_db s)))"

section \<open>Tokens stay with their user\<close>

lemma in_tokens_db [simp]: "tk_db (in_tokens f s) = f (tk_db s)" "tk_db (s\<lparr>tk_meta := m\<rparr>) = tk_db s"
  by (simp_all add: in_tokens_def tk_db_def in_db_def)

text \<open>What a successful creation does to the tables.\<close>

lemma addApiToken_cases:
  assumes "addApiToken env seed now u name days types s = (r, s1)"
  shows "s1 = s \<and> \<not> is_ok r \<or> (\<exists>row e. t_userId row = u \<and> t_id row = te_newId env (tk_db s) \<and> t_expiresAt row = e \<and> find_user u (tk_db s) \<noteq> None
    \<and> t_id row \<notin> t_id ` set (api_tokens (tk_db s)) \<and> tk_db s1 = (tk_db s)\<lparr>api_tokens := api_tokens (tk_db s) @ [row]\<rparr>
    \<and> (is_ok r \<longrightarrow> r = Inr row \<and> t_token row = te_encrypt env (seed + 1) (token_payload_of u types (Some (t_id row)))))"
proof (cases "fst (addApiToken env seed now u name days types s)")
  case a: (Inl x)
  show ?thesis
  proof (cases "rbind (token_expiry env now days) (\<lambda>e. issue_token env seed now u name e types s)")
    case (Inr p)
    obtain row t where p: "p = (row, t)" by (cases p)
    obtain e where i: "issue_token env seed now u name e types s = Inr (row, t)" using Inr p by (auto simp: rbind_Inr_iff)
    then have row: "t_userId row = u" "t_id row = te_newId env (tk_db s)" "find_user u (tk_db s) \<noteq> None" "t_id row \<notin> t_id ` set (api_tokens (tk_db s))"
      "tk_db t = (tk_db s)\<lparr>api_tokens := api_tokens (tk_db s) @ [row]\<rparr>"
      by (auto simp: issue_token_def Let_def rbind_Inr_iff list_ex_iff image_iff)
    have "s1 = t \<or> s1 = s" "r = Inl x" using assms a Inr p
      by (auto simp: addApiToken_def split: if_split_asm sum.split_asm prod.split_asm)
    then show ?thesis using row by auto
  qed (use assms in \<open>auto simp: addApiToken_def split: if_split_asm\<close>)
next
  case a: (Inr row')
  then obtain e row t where i: "issue_token env seed now u name e types s = Inr (row, t)" "seal_token env (seed + 1) types row t = Inr (row', s1)" "r = Inr row'"
    using assms by (auto simp: addApiToken_def rbind_Inr_iff split: if_split_asm sum.split_asm prod.split_asm)
  have row: "t_userId row = u" "t_id row = te_newId env (tk_db s)" "find_user u (tk_db s) \<noteq> None" "t_id row \<notin> t_id ` set (api_tokens (tk_db s))"
      "tk_db t = (tk_db s)\<lparr>api_tokens := api_tokens (tk_db s) @ [row]\<rparr>"
    using i(1) by (auto simp: issue_token_def Let_def rbind_Inr_iff list_ex_iff image_iff)
  have same: "map (\<lambda>t. if t_id t = t_id row then t\<lparr>t_token := k\<rparr> else t) (api_tokens (tk_db s)) = api_tokens (tk_db s)" for k
    using row(4) by (intro map_idI) (metis image_eqI)
  have "row' = row\<lparr>t_token := te_encrypt env (seed + 1) (token_payload_of u types (Some (t_id row)))\<rparr>" "tk_db s1 = (tk_db s)\<lparr>api_tokens := api_tokens (tk_db s) @ [row']\<rparr>"
    using i(2) row(1,5) by (auto simp: seal_token_def Let_def rbind_Inr_iff same)
  then show ?thesis using row i(3) by (intro disjI2 exI[of _ row']) auto
qed

lemma getApiToken_db [simp]: "tk_db (snd (getApiToken now u s)) = tk_db s"
  by (simp add: getApiToken_def Let_def)

lemma run_token_tables:
  "users (tk_db (run_token env rq s)) = users (tk_db s)"
proof (cases rq)
  case (TAdd seed now u name days types)
  then show ?thesis using addApiToken_cases[of env seed now u name days types s] by (cases "addApiToken env seed now u name days types s") auto
qed (auto simp: deleteApiToken_def deleteUserDevice_def rbind_def ensure_def split: option.split)

interpretation token_scope: guarded_requests "run_token env" token_view "\<lambda>rq u. token_caller rq = u" ids_unique for env
proof
  fix s rq u
  assume inv: "ids_unique s"
  show "ids_unique (run_token env rq s)"
  proof (cases rq)
    case (TAdd seed now v name days types)
    then show ?thesis using inv addApiToken_cases[of env seed now v name days types s]
      by (cases "addApiToken env seed now v name days types s") (auto simp: ids_unique_def)
  qed (use inv in \<open>auto simp: ids_unique_def deleteApiToken_def deleteUserDevice_def rbind_def ensure_def distinct_map_filter split: option.split\<close>)
  assume no: "token_caller rq \<noteq> u"
  show "token_view u (run_token env rq s) = token_view u s"
  proof (cases rq)
    case (TAdd seed now v name days types)
    then show ?thesis using no addApiToken_cases[of env seed now v name days types s]
      by (cases "addApiToken env seed now v name days types s") (auto simp: token_view_def user_tokens_def)
  next
    case (TDelete v i)
    then show ?thesis using no by (auto simp: deleteApiToken_def rbind_def ensure_def token_view_def user_tokens_def intro!: filter_cong)
  next
    case (TDevice v i)
    show ?thesis
    proof (cases "find (\<lambda>v. d_deviceId v = i) (devices (tk_db s))")
      case (Some y)
      have "x = y" if "x \<in> set (devices (tk_db s))" "d_deviceId x = i" for x
        using find_unique[OF _ that(1), of d_deviceId] inv Some that(2) by (simp add: ids_unique_def)
      then have "filter (\<lambda>x. d_deviceId x \<noteq> i \<and> d_userId x = u) (devices (tk_db s)) = filter (\<lambda>x. d_userId x = u) (devices (tk_db s))" if "d_userId y = v"
        using that no TDevice by (intro filter_cong) auto
      then show ?thesis using TDevice Some by (simp add: deleteUserDevice_def token_view_def user_tokens_def)
    qed (simp add: TDevice deleteUserDevice_def)
  qed (auto simp: token_view_def user_tokens_def)
qed

section \<open>Working tokens\<close>

lemma sole_token_set:
  assumes "sole_token row s"
  shows "row \<in> set (api_tokens (tk_db s))" "x \<in> set (api_tokens (tk_db s)) \<Longrightarrow> t_id x = t_id row \<Longrightarrow> x = row"
proof -
  have s: "{t \<in> set (api_tokens (tk_db s)). t_id t = t_id row} = {row}" using arg_cong[OF assms[unfolded sole_token_def], of set] by simp
  then show "row \<in> set (api_tokens (tk_db s))" by blast
  show "x \<in> set (api_tokens (tk_db s)) \<Longrightarrow> t_id x = t_id row \<Longrightarrow> x = row" using s by blast
qed

lemma sole_kept:
  assumes "sole_token row s" "rq \<noteq> TDelete (t_userId row) (t_id row)"
  shows "sole_token row (run_token env rq s)"
proof (cases rq)
  case (TAdd seed now v name days types)
  have "t_id row \<in> t_id ` set (api_tokens (tk_db s))" using sole_token_set(1)[OF assms(1)] by simp
  then show ?thesis using TAdd assms(1) addApiToken_cases[of env seed now v name days types s]
    by (cases "addApiToken env seed now v name days types s") (auto simp: sole_token_def)
next
  case (TDelete v i)
  have "filter (\<lambda>t. t_id t = t_id row) (filter (\<lambda>t. \<not> (t_id t = i \<and> t_userId t = v)) ts) = [row]" if f: "filter (\<lambda>t. t_id t = t_id row) ts = [row]" for ts
  proof -
    have "filter (\<lambda>t. \<not> (t_id t = i \<and> t_userId t = v)) (filter (\<lambda>t. t_id t = t_id row) ts) = [row]" using TDelete assms(2) f by auto
    then show ?thesis by (simp add: filter_filter conj_commute)
  qed
  then show ?thesis using TDelete assms(1) by (auto simp: deleteApiToken_def rbind_def ensure_def sole_token_def simp del: filter_filter)
qed (use assms in \<open>auto simp: sole_token_def deleteUserDevice_def split: option.split\<close>)

lemma sole_run:
  assumes "sole_token row s" "\<forall>rq\<in>set rqs. rq \<noteq> TDelete (t_userId row) (t_id row)"
  shows "sole_token row (fold (run_token env) rqs s) \<and> users (tk_db (fold (run_token env) rqs s)) = users (tk_db s)"
  using assms by (induction rqs arbitrary: s) (simp_all add: sole_kept run_token_tables)

lemma find_sole:
  assumes s: "sole_token row s"
  shows "find_token (t_id row) (t_userId row) (tk_db s) = Some row"
proof (cases "find_token (t_id row) (t_userId row) (tk_db s)")
  case None
  then show ?thesis using sole_token_set(1)[OF s] by (auto simp: find_token_def find_None_iff)
next
  case (Some x)
  then have "x \<in> set (api_tokens (tk_db s))" "t_id x = t_id row" by (auto simp: find_token_def find_Some_iff)
  with Some sole_token_set(2)[OF s] show ?thesis by simp
qed

lemma sole_verifies:
  assumes "sole_token row s" "decode (t_token row) = Decoded (token_payload_of (t_userId row) types (Some (t_id row)))" "t_token row \<noteq> []" "a \<in> set types"
    and "find_user (t_userId row) (tk_db s) = Some usr" "case t_expiresAt row of None \<Rightarrow> True | Some e \<Rightarrow> t \<le> e" "adm \<longrightarrow> u_role usr = ADMIN"
  shows "decryptAndVerifyToken decode t (tk_db s) (Some (t_token row)) adm a = Inr (t_userId row)"
proof -
  have "row \<in> set (api_tokens (tk_db s))" using sole_token_set(1)[OF assms(1)] .
  then have "tokens_of (t_userId row) (t_token row) (tk_db s) \<noteq> []" by (auto simp: tokens_of_def filter_empty_conv)
  then show ?thesis using assms(2-) find_sole[OF assms(1)]
    by (cases "t_expiresAt row") (auto simp: decryptAndVerifyToken_def token_payload_of_def)
qed

lemma deleted_refused:
  assumes "sole_token row s" "decode (t_token row) = Decoded (token_payload_of (t_userId row) types (Some (t_id row)))" "t_token row \<noteq> []"
  shows "\<exists>e. decryptAndVerifyToken decode t (tk_db (run_token env (TDelete (t_userId row) (t_id row)) s)) (Some (t_token row)) adm a = Inl e"
proof -
  have "list_ex (\<lambda>t. t_id t = t_id row \<and> t_userId t = t_userId row) (api_tokens (tk_db s))"
    using sole_token_set(1)[OF assms(1)] by (auto simp: list_ex_iff)
  then have "find_token (t_id row) (t_userId row) (tk_db (run_token env (TDelete (t_userId row) (t_id row)) s)) = None"
    by (auto simp: find_token_def deleteApiToken_def find_None_iff)
  then show ?thesis using assms(2,3) by (auto simp: decryptAndVerifyToken_def token_payload_of_def rbind_def ensure_def)
qed

text \<open>C31. A created token works until it expires or is deleted: the key that the creation returns is accepted for each of its
  authorisation types, however further tokens and devices are added, listed and removed, until its time is over; once
  its owner deletes it, it is refused.\<close>

theorem token_round_trip:
  assumes "addApiToken env seed now u name days types s = (Inr row, s1)" "a \<in> set types"
    and "\<And>i. decode (te_encrypt env (seed + 1) (token_payload_of u types (Some i))) = Decoded (token_payload_of u types (Some i))" "\<And>n p. te_encrypt env n p \<noteq> []"
    and "\<forall>rq\<in>set rqs. rq \<noteq> TDelete u (t_id row)" "case t_expiresAt row of None \<Rightarrow> True | Some e \<Rightarrow> t \<le> e"
  shows "decryptAndVerifyToken decode t (tk_db (fold (run_token env) rqs s1)) (Some (t_token row)) False a = Inr u
    \<and> \<not> is_ok (decryptAndVerifyToken decode t (tk_db (fold (run_token env) (rqs @ [TDelete u (t_id row)]) s1)) (Some (t_token row)) False a)"
proof -
  from addApiToken_cases[OF assms(1)] have row: "t_userId row = u" "t_token row = te_encrypt env (seed + 1) (token_payload_of u types (Some (t_id row)))"
    "t_id row \<notin> t_id ` set (api_tokens (tk_db s))" "tk_db s1 = (tk_db s)\<lparr>api_tokens := api_tokens (tk_db s) @ [row]\<rparr>" "find_user u (tk_db s) \<noteq> None"
    by auto
  have "filter (\<lambda>t. t_id t = t_id row) (api_tokens (tk_db s)) = []" using row(3) by (auto simp: filter_empty_conv image_iff)
  then have "sole_token row s1" using row(4) by (simp add: sole_token_def)
  from sole_run[OF this, of rqs env] assms(5) row(1) have s: "sole_token row (fold (run_token env) rqs s1)" "users (tk_db (fold (run_token env) rqs s1)) = users (tk_db s)"
    using row(4) by auto
  then obtain usr where "find_user u (tk_db (fold (run_token env) rqs s1)) = Some usr" using row(5) by (auto simp: find_user_def)
  from sole_verifies[OF s(1), of decode types a usr t False] deleted_refused[OF s(1), of decode types t env False a] this row(1,2) assms(2-4,6) show ?thesis
    by auto
qed

text \<open>Tokens and devices stay with their user: requests of others change neither the tokens nor the devices of a user.\<close>

theorem tokens_stay_with_user:
  assumes "ids_unique s" "token_view u (fold (run_token env) rqs s) \<noteq> token_view u s"
  shows "\<exists>rq\<in>set rqs. token_caller rq = u"
  by (rule token_scope.change_needs_permission[OF assms])

theorem tokens_stay_with_user_witness: "token_caller (TAdd 0 0 ''u2'' ''name'' ''1'' [PERSONAL]) = ''u2''"
proof -
  have "ids_unique (token_demo_state USER)" by code_simp
  moreover have "token_view ''u2'' (fold (run_token token_demo_env) [TAdd 0 0 ''u2'' ''name'' ''1'' [PERSONAL]] (token_demo_state USER)) \<noteq> token_view ''u2'' (token_demo_state USER)"
    by code_simp
  ultimately show ?thesis using tokens_stay_with_user[of "token_demo_state USER" "''u2''" token_demo_env "[TAdd 0 0 ''u2'' ''name'' ''1'' [PERSONAL]]"] by simp
qed

theorem token_round_trip_witness:
  "decryptAndVerifyToken token_demo_decode 5 (tk_db (fold (run_token token_demo_env) [TGet 3 ''u2''] (snd (addApiToken token_demo_env 0 0 ''u2'' ''name'' ''1'' [PERSONAL] (token_demo_state USER)))))
     (Some ''st0'') False PERSONAL = Inr ''u2''"
proof -
  let ?row = "\<lparr>t_id = ''t0'', t_userId = ''u2'', t_token = ''st0'', t_expiresAt = Some 86400000\<rparr>"
  let ?r = "addApiToken token_demo_env 0 0 ''u2'' ''name'' ''1'' [PERSONAL] (token_demo_state USER)"
  have "fst ?r = Inr ?row" by code_simp
  then have "?r = (Inr ?row, snd ?r)" by (metis prod.collapse)
  moreover have "token_demo_decode (te_encrypt token_demo_env (0 + 1) (token_payload_of ''u2'' [PERSONAL] (Some i))) = Decoded (token_payload_of ''u2'' [PERSONAL] (Some i))"
    "te_encrypt token_demo_env n p \<noteq> []" for i n p
    by (simp_all add: token_demo_decode_def token_demo_env_def token_payload_of_def split: json_field.split)
  ultimately show ?thesis using token_round_trip[of token_demo_env 0 0 "''u2''" "''name''" "''1''" "[PERSONAL]" "token_demo_state USER" ?row "snd ?r" PERSONAL token_demo_decode "[TGet 3 ''u2'']" 5]
    by simp
qed

section \<open>Creating users\<close>

lemma find_last: "find P xs = None \<Longrightarrow> find P (xs @ [y]) = (if P y then Some y else None)"
  by (induction xs) (auto split: if_split_asm)

lemma register_plain:
  assumes "register ok pd od jw pol hash i now (register_args b) s = Inr s1"
  shows "enableRegistration (os_db s) = Some True" "\<exists>u. find_user i (os_db s1) = Some u \<and> u_id u = i \<and> (users (os_db s) = [] \<longrightarrow> u_role u = ADMIN)"
    "users (os_db s) = [] \<Longrightarrow> enableRegistration (os_db s1) = Some False"
proof -
  obtain reg where reg: "register_check ok pd od jw pol now (register_args b) s = Inr reg" and c: "register_commit hash i now (register_args b) reg s = Inr s1" "rg_orgInvite reg = None" "rg_invitation reg = None"
    using assms by (auto simp: register_def rbind_Inr_iff register_log_def register_check_def register_args_def validateOrganizationToken_def check_code_def trimmed_def)
  from c show "enableRegistration (os_db s) = Some True" by (auto simp: register_commit_def rbind_Inr_iff)
  have w: "register_write hash i now (register_args b) reg s = Inr s1" using c by (auto simp: register_commit_def rbind_Inr_iff consume_invitation_def consume_org_token_def)
  then show "users (os_db s) = [] \<Longrightarrow> enableRegistration (os_db s1) = Some False"
    by (auto simp: register_write_def Let_def rbind_Inr_iff in_db_def c(2) split: if_split_asm)
  show "\<exists>u. find_user i (os_db s1) = Some u \<and> u_id u = i \<and> (users (os_db s) = [] \<longrightarrow> u_role u = ADMIN)"
    using w by (auto simp: register_write_def Let_def rbind_Inr_iff in_db_def c(2) insert_user_def find_user_def new_user_def upsertCredentialAccount_def find_last split: if_split_asm)
qed

text \<open>C20. Creating users through the REST interface: once an account exists, the handler changes nothing without a live personal
  token of an administrator, and not even then while open registration is off, since it passes no invitation.\<close>

theorem rest_user_creation_needs_admin:
  assumes "users (tk_db s) \<noteq> []" "snd (POST_createUser env seed now apiKey b s) \<noteq> s"
  shows "(\<exists>i u. decryptAndVerifyToken (uv_decode env) now (tk_db s) apiKey True PERSONAL = Inr i \<and> find_user i (tk_db s) = Some u \<and> u_role u = ADMIN)
    \<and> enableRegistration (tk_db s) = Some True"
proof
  obtain i where i: "decryptAndVerifyToken (uv_decode env) now (tk_db s) apiKey True PERSONAL = Inr i"
    using assms by (cases "decryptAndVerifyToken (uv_decode env) now (tk_db s) apiKey True PERSONAL") (auto simp: POST_createUser_def)
  obtain x s1 where x: "create_user_tx env seed now b s = Inr (x, s1)"
    using assms i by (auto simp: POST_createUser_def split: if_split_asm option.split_asm sum.split_asm)
  show "\<exists>i u. decryptAndVerifyToken (uv_decode env) now (tk_db s) apiKey True PERSONAL = Inr i \<and> find_user i (tk_db s) = Some u \<and> u_role u = ADMIN"
    using verified_token[OF i] i by auto
  from x obtain o' where "register (uv_rateOk env) (uv_parseDate env) (\<lambda>_. None) (\<lambda>_. False) (uv_policy env) (uv_hash env) (uv_newId env) now (register_args b) (tk_org s) = Inr o'"
    by (auto simp: create_user_tx_def rbind_Inr_iff)
  from register_plain(1)[OF this] show "enableRegistration (tk_db s) = Some True" by (simp add: tk_db_def)
qed

text \<open>The first user: on an empty installation a successful request without any key creates an administrator and closes
  the open registration, and the token it asks for is an administrator's working key until it expires.\<close>

theorem first_rest_user_is_admin:
  assumes "users (tk_db s) = []" "POST_createUser env seed now apiKey b s = (Inr (i, Some k), s1)"
    and "\<And>j. uv_decode env (te_encrypt (uv_tokens env) (seed + 1) (token_payload_of (uv_newId env) [PERSONAL, ORGANIZATION] (Some j)))
        = Decoded (token_payload_of (uv_newId env) [PERSONAL, ORGANIZATION] (Some j))"
  shows "(\<exists>u. find_user i (tk_db s1) = Some u \<and> u_role u = ADMIN) \<and> enableRegistration (tk_db s1) = Some False
    \<and> (\<exists>e. \<forall>t. (case e of None \<Rightarrow> True | Some x \<Rightarrow> t \<le> x) \<longrightarrow> decryptAndVerifyToken (uv_decode env) t (tk_db s1) (Some k) True PERSONAL = Inr i)"
proof -
  from assms(1,2) have tx: "create_user_tx env seed now b s = Inr ((i, Some k), s1)"
    by (auto simp: POST_createUser_def split: if_split_asm option.split_asm sum.split_asm)
  then obtain o' where o: "register (uv_rateOk env) (uv_parseDate env) (\<lambda>_. None) (\<lambda>_. False) (uv_policy env) (uv_hash env) (uv_newId env) now (register_args b) (tk_org s) = Inr o'"
    unfolding create_user_tx_def rbind_Inr_iff by blast
  let ?a = "addApiToken (uv_tokens env) seed now (uv_newId env) ''Generated Token via API'' ''1'' [PERSONAL, ORGANIZATION] (s\<lparr>tk_org := o'\<rparr>)"
  obtain r s2 where r: "?a = (r, s2)" by (cases ?a)
  obtain row where r': "r = Inr row" "s2 = s1" and k: "t_token row = k" "k \<noteq> []" "i = uv_newId env"
    using tx by (cases r) (auto simp: create_user_tx_def o r Let_def split: if_split_asm)
  have a: "?a = (Inr row, s1)" using r r' by simp
  obtain u where u: "find_user i (os_db o') = Some u" "u_role u = ADMIN" "enableRegistration (os_db o') = Some False"
    using register_plain(2,3)[OF o] assms(1) k(3) by (auto simp: tk_db_def)
  from addApiToken_cases[OF a] have row: "t_userId row = i" "t_token row = te_encrypt (uv_tokens env) (seed + 1) (token_payload_of i [PERSONAL, ORGANIZATION] (Some (t_id row)))"
    "t_id row \<notin> t_id ` set (api_tokens (os_db o'))" "tk_db s1 = (os_db o')\<lparr>api_tokens := api_tokens (os_db o') @ [row]\<rparr>"
    using k(3) by (auto simp: tk_db_def)
  have "filter (\<lambda>t. t_id t = t_id row) (api_tokens (os_db o')) = []" using row(3) by (auto simp: filter_empty_conv image_iff)
  then have sole: "sole_token row s1" using row(4) by (simp add: sole_token_def)
  have f: "find_user i (tk_db s1) = Some u" "enableRegistration (tk_db s1) = Some False" using u row(4) by (simp_all add: find_user_def)
  have "decryptAndVerifyToken (uv_decode env) t (tk_db s1) (Some k) True PERSONAL = Inr i" if "case t_expiresAt row of None \<Rightarrow> True | Some x \<Rightarrow> t \<le> x" for t
    using sole_verifies[OF sole, of "uv_decode env" "[PERSONAL, ORGANIZATION]" PERSONAL u t True] assms(3)[of "t_id row"] row(1,2) k f u that by simp
  then show ?thesis using f u by blast
qed

theorem rest_user_creation_needs_admin_witness:
  "enableRegistration (tk_db (user_demo_state [demo_user ''u2'' ADMIN] [\<lparr>t_id = ''k'', t_userId = ''u2'', t_token = ''sk'', t_expiresAt = None\<rparr>])) = Some True"
proof -
  let ?s = "user_demo_state [demo_user ''u2'' ADMIN] [\<lparr>t_id = ''k'', t_userId = ''u2'', t_token = ''sk'', t_expiresAt = None\<rparr>]"
  have "users (tk_db ?s) \<noteq> []" by code_simp
  moreover have "length (users (tk_db (snd (POST_createUser (user_demo_env ''u2'') 0 5 (Some ''sk'') user_demo_body ?s)))) = 2" "length (users (tk_db ?s)) = 1" by code_simp+
  then have "snd (POST_createUser (user_demo_env ''u2'') 0 5 (Some ''sk'') user_demo_body ?s) \<noteq> ?s" by auto
  ultimately show ?thesis using rest_user_creation_needs_admin[of ?s "user_demo_env ''u2''" 0 5 "Some ''sk''" user_demo_body] by simp
qed

theorem first_rest_user_is_admin_witness:
  "\<exists>u. find_user ''u9'' (tk_db (snd (POST_createUser (user_demo_env ''u9'') 0 5 None user_demo_body (user_demo_state [] [])))) = Some u \<and> u_role u = ADMIN"
proof -
  let ?r = "POST_createUser (user_demo_env ''u9'') 0 5 None user_demo_body (user_demo_state [] [])"
  have "fst ?r = Inr (''u9'', Some ''st0'')" "users (tk_db (user_demo_state [] [])) = []" by code_simp+
  then have "?r = (Inr (''u9'', Some ''st0''), snd ?r)" "users (tk_db (user_demo_state [] [])) = []" by (metis prod.collapse, simp)
  moreover have "uv_decode (user_demo_env ''u9'') (te_encrypt (uv_tokens (user_demo_env ''u9'')) (0 + 1) (token_payload_of (uv_newId (user_demo_env ''u9'')) [PERSONAL, ORGANIZATION] (Some j)))
      = Decoded (token_payload_of (uv_newId (user_demo_env ''u9'')) [PERSONAL, ORGANIZATION] (Some j))" for j
    by (simp add: user_demo_env_def token_demo_env_def token_payload_of_def)
  ultimately show ?thesis using first_rest_user_is_admin[of "user_demo_state [] []" "user_demo_env ''u9''" 0 5 None user_demo_body "''u9''" "''st0''" "snd ?r"] by simp
qed

end
