(* ===== verification/Org_Hub.thy ===== *)
theory Org_Hub
  imports Live_Sockets Network_Procedures Outbound_Guard Controller_Client
begin

text \<open>
  The life of an organisation: chat, webhooks, settings and templates, its pages, the background reconcile and its deletion
  (the rest of \<^verbatim>\<open>server/api/routers/organizationRouter.ts\<close>).

  The state joins the tables of the organisations, the tables of the network procedures, which share one database and one
  activity log, and the tables of this router. Parameters: the clock and the order the database gives for
  \<^verbatim>\<open>orderBy: createdAt desc\<close>, \<^verbatim>\<open>JSON.parse\<close>, what the database stores for a JSON column (it may reject a value), the
  controller's answer for a member, ids of new rows, the packages of the outbound guard and the texts of its errors.
\<close>

section \<open>Tables\<close>

record message_row =
  mg_id :: int
  mg_content :: string
  mg_createdAt :: int
  mg_userId :: string
  mg_org :: string

record read_row =
  lr_userId :: string
  lr_org :: string
  lr_last :: int

record hook_row =
  hk_id :: string
  hk_name :: string
  hk_description :: string
  hk_url :: string
  hk_eventTypes :: "string list"
  hk_org :: "string option"

datatype template_kind = NodeAdded | NodeDeleted | NodePermanentlyDeleted | UserAdded | UserRemoved | PermissionChanged
  | NetworkCreated | NetworkDeleted

datatype notify_flag = Notify template_kind | EmailNotificationsEnabled

record settings_row =
  se_org :: string
  se_renameNodeGlobally :: bool
  se_flags :: "notify_flag \<Rightarrow> bool"
  se_templates :: "template_kind \<Rightarrow> js_value option"

record site =
  si_org :: org_state
  si_net :: net_state
  si_messages :: "message_row list"
  si_nextMessage :: int
  si_reads :: "read_row list"
  si_hooks :: "hook_row list"
  si_settings :: "settings_row list"
  si_emitted :: "(string \<times> message_row) list"
  si_jobs :: "(string \<times> (string \<times> member_row) list) list"

record site_env =
  sv_now :: int
  sv_newId :: string
  sv_order :: "message_row list \<Rightarrow> message_row list"
  sv_wss :: bool
  sv_parse :: "string \<Rightarrow> js_value option"
  sv_column :: "js_value \<Rightarrow> js_value option"
  sv_lib :: net_lib
  sv_urlError :: "blocked_url \<Rightarrow> string"
  sv_net :: net_env
  sv_collate :: "string \<Rightarrow> int"
  sv_details :: "string \<Rightarrow> string \<Rightarrow> nat + unit"

type_synonym 'a site_reply = "(exn + 'a) \<times> site"

definition site_db :: "site \<Rightarrow> db" where
  "site_db s = os_db (si_org s)"

definition org_permitted :: "caller \<Rightarrow> string \<Rightarrow> role \<Rightarrow> (site \<Rightarrow> 'a site_reply) \<Rightarrow> site \<Rightarrow> 'a site_reply" where
  "org_permitted c orgId r f s =
     (case checkUserOrganizationRole (site_db s) (ca_id c) orgId r of Inl e \<Rightarrow> (Inl e, s) | Inr _ \<Rightarrow> f s)"

section \<open>Chat\<close>

definition org_messages :: "string \<Rightarrow> site \<Rightarrow> message_row list" where
  "org_messages orgId s = filter (\<lambda>g. mg_org g = orgId) (si_messages s)"

definition latest_message :: "site_env \<Rightarrow> string \<Rightarrow> site \<Rightarrow> message_row option" where
  "latest_message env orgId s = (case sv_order env (org_messages orgId s) of [] \<Rightarrow> None | g # _ \<Rightarrow> Some g)"

definition find_read :: "string \<Rightarrow> string \<Rightarrow> site \<Rightarrow> read_row option" where
  "find_read userId orgId s = find (\<lambda>r. lr_userId r = userId \<and> lr_org r = orgId) (si_reads s)"

definition upsert_read :: "string \<Rightarrow> string \<Rightarrow> int \<Rightarrow> site \<Rightarrow> site" where
  "upsert_read userId orgId k s =
     (case find_read userId orgId s of
        None \<Rightarrow> s\<lparr>si_reads := si_reads s @ [\<lparr>lr_userId = userId, lr_org = orgId, lr_last = k\<rparr>]\<rparr>
      | Some _ \<Rightarrow> s\<lparr>si_reads := map (\<lambda>r. if lr_userId r = userId \<and> lr_org r = orgId then r\<lparr>lr_last := k\<rparr> else r) (si_reads s)\<rparr>)"

definition no_wss :: exn where
  "no_wss = PlainError ''Cannot read properties of undefined (reading 'emit')''"

text \<open>The message is stored before it is sent; without a socket server the call then fails.\<close>

definition sendMessage :: "site_env \<Rightarrow> caller \<Rightarrow> string option \<Rightarrow> string \<Rightarrow> site \<Rightarrow> message_row site_reply" where
  "sendMessage env c content orgId s =
     (if \<not> truthy content then (Inl (PlainError ''Message content cannot be empty.''), s)
      else org_permitted c orgId READ_ONLY (\<lambda>s.
        let g = \<lparr>mg_id = si_nextMessage s, mg_content = the content, mg_createdAt = sv_now env, mg_userId = ca_id c, mg_org = orgId\<rparr>;
            s1 = upsert_read (ca_id c) orgId (mg_id g) (s\<lparr>si_messages := si_messages s @ [g], si_nextMessage := si_nextMessage s + 1\<rparr>)
        in if \<not> sv_wss env then (Inl no_wss, s1) else (Inr g, s1\<lparr>si_emitted := si_emitted s1 @ [(orgId, g)]\<rparr>)) s)"

definition getMessages :: "site_env \<Rightarrow> caller \<Rightarrow> string \<Rightarrow> site \<Rightarrow> (message_row \<times> bool) list site_reply" where
  "getMessages env c orgId =
     org_permitted c orgId READ_ONLY (\<lambda>s.
       let lastRead = find_read (ca_id c) orgId s; found = take 30 (sv_order env (org_messages orgId s))
       in (Inr (map (\<lambda>g. (g, case lastRead of None \<Rightarrow> False | Some r \<Rightarrow> mg_id g \<le> lr_last r)) (rev found)), s))"

definition markMessagesAsRead :: "site_env \<Rightarrow> caller \<Rightarrow> string \<Rightarrow> site \<Rightarrow> unit site_reply" where
  "markMessagesAsRead env c orgId =
     org_permitted c orgId READ_ONLY (\<lambda>s.
       case latest_message env orgId s of None \<Rightarrow> (Inr (), s) | Some g \<Rightarrow> (Inr (), upsert_read (ca_id c) orgId (mg_id g) s))"

definition getOrgNotifications :: "site_env \<Rightarrow> caller \<Rightarrow> site \<Rightarrow> (string \<times> bool) list" where
  "getOrgNotifications env c s =
     map (\<lambda>r. (or_organizationId r,
            case latest_message env (or_organizationId r) s of
              None \<Rightarrow> False
            | Some g \<Rightarrow> (case find_read (ca_id c) (or_organizationId r) s of None \<Rightarrow> True | Some l \<Rightarrow> mg_id g > lr_last l)))
       (filter (\<lambda>r. or_userId r = ca_id c) (org_roles (site_db s)))"

text \<open>The log, newest first: the rows are stored in the order of their creation.\<close>

definition getLogs :: "caller \<Rightarrow> string \<Rightarrow> site \<Rightarrow> log_row list site_reply" where
  "getLogs c orgId = org_permitted c orgId READ_ONLY (\<lambda>s. (Inr (take 100 (rev (filter (\<lambda>l. lg_org l = Some orgId) (os_log (si_org s))))), s))"

section \<open>Webhooks\<close>

definition deleteOrgWebhooks :: "caller \<Rightarrow> string \<Rightarrow> string option \<Rightarrow> site \<Rightarrow> nat site_reply" where
  "deleteOrgWebhooks c orgId webhookId =
     org_permitted c orgId ADMIN (\<lambda>s.
       let hit = (\<lambda>h. (case webhookId of None \<Rightarrow> True | Some i \<Rightarrow> hk_id h = i) \<and> hk_org h = Some orgId)
       in (Inr (length (filter hit (si_hooks s))), s\<lparr>si_hooks := filter (\<lambda>h. \<not> hit h) (si_hooks s)\<rparr>))"

definition hook_types :: "string list" where
  "hook_types = [''NETWORK_JOIN'', ''NETWORK_CREATED'', ''NETWORK_CONFIG_CHANGED'', ''NETWORK_DELETED'',
     ''MEMBER_CONFIG_CHANGED'', ''MEMBER_DELETED'', ''ORG_MEMBER_REMOVED'']"

record hook_input =
  hi_url :: string
  hi_name :: string
  hi_types :: "string list"
  hi_id :: "string option"

definition addOrgWebhooks :: "site_env \<Rightarrow> caller \<Rightarrow> string \<Rightarrow> hook_input \<Rightarrow> site \<Rightarrow> unit site_reply" where
  "addOrgWebhooks env c orgId i s =
     (if \<not> set (hi_types i) \<subseteq> set hook_types then (Inl ZodError, s)
      else org_permitted c orgId ADMIN (\<lambda>s.
        case assertPublicHttpsUrl (sv_lib env) (hi_url i) of
          Inl e \<Rightarrow> (Inl (TRPCError BAD_REQUEST (sv_urlError env e)), s)
        | Inr _ \<Rightarrow>
            if hi_types i = [] then (Inl (TRPCError BAD_REQUEST ''Webhook needs to have at least one action type''), s)
            else if truthy (hi_id i)
            then (case find (\<lambda>h. hk_id h = the (hi_id i) \<and> hk_org h = Some orgId) (si_hooks s) of
                    None \<Rightarrow> (Inl (TRPCError BAD_REQUEST ''Webhook not found in this organization''), s)
                  | Some w \<Rightarrow> (Inr (), s\<lparr>si_hooks := map (\<lambda>h. if hk_id h = hk_id w
                        then h\<lparr>hk_url := hi_url i, hk_description := [], hk_name := hi_name i, hk_eventTypes := hi_types i\<rparr> else h) (si_hooks s)\<rparr>))
            else if find_org orgId (si_org s) = None then (Inl record_missing, s)
            else if sv_newId env \<in> hk_id ` set (si_hooks s) then (Inl unique_violation, s)
            else (Inr (), s\<lparr>si_hooks := si_hooks s @ [\<lparr>hk_id = sv_newId env, hk_name = hi_name i, hk_description = [], hk_url = hi_url i,
                     hk_eventTypes = hi_types i, hk_org = Some orgId\<rparr>]\<rparr>)) s)"

section \<open>Settings and templates\<close>

definition find_settings :: "string \<Rightarrow> site \<Rightarrow> settings_row option" where
  "find_settings orgId s = find (\<lambda>r. se_org r = orgId) (si_settings s)"

definition default_settings :: "string \<Rightarrow> settings_row" where
  "default_settings orgId = \<lparr>se_org = orgId, se_renameNodeGlobally = False, se_flags = (\<lambda>f. f = EmailNotificationsEnabled), se_templates = (\<lambda>_. None)\<rparr>"

definition upsert_settings :: "string \<Rightarrow> (settings_row \<Rightarrow> settings_row) \<Rightarrow> site \<Rightarrow> unit site_reply" where
  "upsert_settings orgId f s =
     (case find_settings orgId s of
        Some _ \<Rightarrow> (Inr (), s\<lparr>si_settings := map (\<lambda>r. if se_org r = orgId then f r else r) (si_settings s)\<rparr>)
      | None \<Rightarrow> if find_org orgId (si_org s) = None then (Inl record_missing, s)
                else (Inr (), s\<lparr>si_settings := si_settings s @ [f (default_settings orgId)]\<rparr>))"

definition given :: "'a option \<Rightarrow> 'a \<Rightarrow> 'a" where
  "given new old = (case new of None \<Rightarrow> old | Some v \<Rightarrow> v)"

definition updateOrganizationSettings :: "caller \<Rightarrow> string \<Rightarrow> bool option \<Rightarrow> site \<Rightarrow> unit site_reply" where
  "updateOrganizationSettings c orgId rename =
     org_permitted c orgId ADMIN (upsert_settings orgId (\<lambda>r. r\<lparr>se_renameNodeGlobally := given rename (se_renameNodeGlobally r)\<rparr>))"

definition getOrganizationSettings :: "caller \<Rightarrow> string \<Rightarrow> site \<Rightarrow> settings_row option site_reply" where
  "getOrganizationSettings c orgId = org_permitted c orgId ADMIN (\<lambda>s. (Inr (find_settings orgId s), s))"

definition updateOrganizationNotificationSettings :: "caller \<Rightarrow> string \<Rightarrow> (notify_flag \<Rightarrow> bool option) \<Rightarrow> site \<Rightarrow> unit site_reply" where
  "updateOrganizationNotificationSettings c orgId flags =
     org_permitted c orgId ADMIN (upsert_settings orgId (\<lambda>r. r\<lparr>se_flags := (\<lambda>f. given (flags f) (se_flags r f))\<rparr>))"

text \<open>A lookup in an object literal also finds what it inherits from \<^verbatim>\<open>Object.prototype\<close>.\<close>

datatype template_lookup = Own template_kind | Inherited | Absent

definition template_fields :: "(string \<times> template_kind) list" where
  "template_fields = [(''nodeAdded'', NodeAdded), (''nodeDeleted'', NodeDeleted), (''nodePermanentlyDeleted'', NodePermanentlyDeleted),
     (''userAdded'', UserAdded), (''userRemoved'', UserRemoved), (''permissionChanged'', PermissionChanged),
     (''networkCreated'', NetworkCreated), (''networkDeleted'', NetworkDeleted)]"

definition object_prototype :: "string list" where
  "object_prototype = [''constructor'', ''hasOwnProperty'', ''isPrototypeOf'', ''propertyIsEnumerable'', ''toLocaleString'', ''toString'',
     ''valueOf'', ''__proto__'', ''__defineGetter__'', ''__defineSetter__'', ''__lookupGetter__'', ''__lookupSetter__'']"

definition templateFieldMap :: "string \<Rightarrow> template_lookup" where
  "templateFieldMap t = (case map_of template_fields t of Some k \<Rightarrow> Own k | None \<Rightarrow> if t \<in> set object_prototype then Inherited else Absent)"

definition mail_body :: "string \<Rightarrow> string \<Rightarrow> string list \<Rightarrow> string" where
  "mail_body what subj details = ''Hello {{adminName}},<br /><br />'' @ what @ ''<br /><br />'' @ subj @ '' Details:<br />''
     @ concat (map (\<lambda>d. ''- '' @ d @ ''<br />'') details) @ ''- Timestamp: {{timestamp}}<br /><br />Best regards,<br />The ZTNet Team''"

definition node_lines :: "string list" where
  "node_lines = [''Name: {{nodeName}}'', ''ID: {{nodeId}}'']"

definition user_lines :: "string list" where
  "user_lines = [''Name: {{userName}}'', ''Email: {{userEmail}}'']"

definition network_lines :: "string list" where
  "network_lines = [''Name: {{networkName}}'', ''ID: {{networkId}}'']"

fun default_text :: "template_kind \<Rightarrow> string \<times> string" where
  "default_text NodeAdded = (''New Node Added to {{organizationName}}'',
     mail_body ''A new node has been added to the organization {{organizationName}}.'' ''Node'' node_lines)"
| "default_text NodeDeleted = (''Node Deleted from {{organizationName}}'',
     mail_body ''A node has been deleted from the organization {{organizationName}}.'' ''Node'' node_lines)"
| "default_text NodePermanentlyDeleted = (''Node Permanently Deleted from {{organizationName}}'',
     mail_body ''A node has been permanently deleted from the organization {{organizationName}}.'' ''Node'' node_lines)"
| "default_text UserAdded = (''New User Added to {{organizationName}}'',
     mail_body ''A new user has been added to the organization {{organizationName}}.'' ''User'' user_lines)"
| "default_text UserRemoved = (''User Removed from {{organizationName}}'',
     mail_body ''A user has been removed from the organization {{organizationName}}.'' ''User'' user_lines)"
| "default_text PermissionChanged = (''User Permissions Changed in {{organizationName}}'',
     mail_body ''User permissions have been changed in the organization {{organizationName}}.'' ''User''
       (user_lines @ [''Old Role: {{oldRole}}'', ''New Role: {{newRole}}'']))"
| "default_text NetworkCreated = (''New Network Created in {{organizationName}}'',
     mail_body ''A new network has been created in the organization {{organizationName}}.'' ''Network'' network_lines)"
| "default_text NetworkDeleted = (''Network Deleted from {{organizationName}}'',
     mail_body ''A network has been deleted from the organization {{organizationName}}.'' ''Network'' network_lines)"

definition default_template :: "template_kind \<Rightarrow> js_value" where
  "default_template k = JObj [(''subject'', js_value.JText (fst (default_text k))), (''body'', js_value.JText (snd (default_text k)))]"

fun json_truthy :: "js_value \<Rightarrow> bool" where
  "json_truthy JUndefined = False"
| "json_truthy JNull = False"
| "json_truthy (JBool b) = b"
| "json_truthy (JInt n) = (n \<noteq> 0)"
| "json_truthy (js_value.JText t) = (t \<noteq> [])"
| "json_truthy (JArr vs) = True"
| "json_truthy (JObj fs) = True"

text \<open>What a template query gives: a template, or a function or object that the table inherits.\<close>

datatype template_answer = Template js_value | PrototypeValue

definition getDefaultOrganizationNotificationTemplate :: "string \<Rightarrow> template_answer" where
  "getDefaultOrganizationNotificationTemplate t =
     (case templateFieldMap t of Own k \<Rightarrow> Template (default_template k) | Inherited \<Rightarrow> PrototypeValue | Absent \<Rightarrow> Template (default_template NodeAdded))"

definition invalid_type :: exn where
  "invalid_type = TRPCError BAD_REQUEST ''Invalid template type''"

definition getOrganizationNotificationTemplate :: "caller \<Rightarrow> string \<Rightarrow> string \<Rightarrow> site \<Rightarrow> template_answer site_reply" where
  "getOrganizationNotificationTemplate c orgId t =
     org_permitted c orgId ADMIN (\<lambda>s.
       case templateFieldMap t of
         Absent \<Rightarrow> (Inl invalid_type, s)
       | Inherited \<Rightarrow> (Inr PrototypeValue, s)
       | Own k \<Rightarrow> (Inr (Template (case find_settings orgId s of
             None \<Rightarrow> default_template k
           | Some r \<Rightarrow> (case se_templates r k of None \<Rightarrow> default_template k
                        | Some v \<Rightarrow> if json_truthy v then v else default_template k))), s))"

definition updateOrganizationNotificationTemplate :: "site_env \<Rightarrow> caller \<Rightarrow> string \<Rightarrow> string \<Rightarrow> string \<Rightarrow> site \<Rightarrow> unit site_reply" where
  "updateOrganizationNotificationTemplate env c orgId t template =
     org_permitted c orgId ADMIN (\<lambda>s.
       case sv_parse env template of
         None \<Rightarrow> (Inl (TRPCError BAD_REQUEST ''Invalid template JSON''), s)
       | Some v \<Rightarrow>
         (case templateFieldMap t of
            Absent \<Rightarrow> (Inl invalid_type, s)
          | Inherited \<Rightarrow> (Inl (PlainError ''Unknown argument''), s)
          | Own k \<Rightarrow> (case sv_column env v of
               None \<Rightarrow> (Inl (PlainError ''Argument must not be null''), s)
             | Some w \<Rightarrow> upsert_settings orgId (\<lambda>r. r\<lparr>se_templates := (se_templates r)(k \<mapsto> w)\<rparr>) s)))"

section \<open>Pages\<close>

definition getOrgIdbyUserid :: "caller \<Rightarrow> site \<Rightarrow> (string \<times> string) list" where
  "getOrgIdbyUserid c s = map (\<lambda>g. (og_id g, og_name g)) (filter (\<lambda>g. (ca_id c, og_id g) \<in> set (os_members (si_org s))) (os_orgs (si_org s)))"

definition getOrgUserRoleById :: "caller \<Rightarrow> string \<Rightarrow> string \<Rightarrow> site \<Rightarrow> org_role_row option site_reply" where
  "getOrgUserRoleById c orgId userId = org_permitted c orgId READ_ONLY (\<lambda>s. (Inr (find_org_role orgId userId (site_db s)), s))"

definition getPlatformUsers :: "caller \<Rightarrow> string \<Rightarrow> site \<Rightarrow> (string \<times> string \<times> string) list site_reply" where
  "getPlatformUsers c orgId = org_permitted c orgId ADMIN (\<lambda>s. (Inr (map (\<lambda>u. (u_id u, u_name u, u_email u)) (users (site_db s))), s))"

definition org_users :: "string \<Rightarrow> site \<Rightarrow> user_row list" where
  "org_users orgId s = filter (\<lambda>u. (u_id u, orgId) \<in> set (os_members (si_org s))) (users (site_db s))"

definition getOrgUsers :: "site_env \<Rightarrow> caller \<Rightarrow> string \<Rightarrow> site \<Rightarrow> ((string \<times> string \<times> string) \<times> role option) list option site_reply" where
  "getOrgUsers env c orgId =
     org_permitted c orgId READ_ONLY (\<lambda>s.
       (Inr (case find_org orgId (si_org s) of
          None \<Rightarrow> None
        | Some _ \<Rightarrow> Some (sort_key (\<lambda>e. sv_collate env (fst (fst e)))
            (map (\<lambda>u. ((u_id u, u_name u, u_email u), map_option or_role (find_org_role orgId (u_id u) (site_db s)))) (org_users orgId s)))), s))"

definition counted :: "member_row \<Rightarrow> bool" where
  "counted m \<longleftrightarrow> m_deleted m \<noteq> Some True \<and> m_permanentlyDeleted m \<noteq> Some True"

text \<open>The counters of a network and of the organisation: the loop over the members of one network.\<close>

fun count_members :: "member_row list \<Rightarrow> (nat \<times> nat) \<times> (nat \<times> nat) \<Rightarrow> (nat \<times> nat) \<times> (nat \<times> nat)" where
  "count_members [] c = c"
| "count_members (m # ms) ((na, nt), (oa, ot)) =
     count_members ms (if counted m
       then (let a = (if m_authorized m = Some True then 1 else 0) in ((na + a, nt + 1), (oa + a, ot + 1)))
       else ((na, nt), (oa, ot)))"

definition display_counts :: "nat \<times> nat \<Rightarrow> member_counts" where
  "display_counts c = \<lparr>mc_authorized = fst c, mc_total = snd c, mc_display = nat_str (fst c) @ '' ('' @ nat_str (snd c) @ '')''\<rparr>"

definition rows_of_network :: "string \<Rightarrow> site \<Rightarrow> member_row list" where
  "rows_of_network nwid s = filter (\<lambda>m. m_nwid m = nwid) (ms_rows (nt_members (si_net s)))"

fun count_networks :: "site \<Rightarrow> network_row list \<Rightarrow> nat \<times> nat \<Rightarrow> (network_row \<times> member_counts) list \<times> (nat \<times> nat)" where
  "count_networks s [] c = ([], c)"
| "count_networks s (n # ns) c =
     (let (nc, oc) = count_members (rows_of_network (n_nwid n) s) ((0, 0), c); (rest, total) = count_networks s ns oc
      in ((n, display_counts nc) # rest, total))"

record org_page =
  op_org :: org_row
  op_roles :: "org_role_row list"
  op_users :: "user_row list"
  op_hooks :: "hook_row list"
  op_invites :: "org_invite_row list"
  op_counts :: member_counts
  op_networks :: "(network_row \<times> member_counts) list"

definition org_networks :: "string \<Rightarrow> site \<Rightarrow> network_row list" where
  "org_networks orgId s = filter (\<lambda>n. n_organizationId n = Some orgId) (networks (site_db s))"

text \<open>The background reconcile: a page starts it unless one of the organisation is under way. It works on the rows the page has
  read, one request to the controller after the other, while other events happen; a row that has gone meanwhile is no error.\<close>

definition start_reconcile :: "string \<Rightarrow> (string \<times> member_row) list \<Rightarrow> site \<Rightarrow> site" where
  "start_reconcile orgId work s = (if orgId \<in> fst ` set (si_jobs s) then s else s\<lparr>si_jobs := si_jobs s @ [(orgId, work)]\<rparr>)"

definition erase_member_row :: "member_row \<Rightarrow> site \<Rightarrow> site" where
  "erase_member_row m s =
     (let t = si_net s; hit = (\<lambda>x. m_id x = m_id m \<and> m_nwid x = m_nwid m); gone = map m_nodeid (filter hit (ms_rows (nt_members t)))
      in s\<lparr>si_net := t\<lparr>nt_members := (nt_members t)\<lparr>ms_rows := filter (\<lambda>x. \<not> hit x) (ms_rows (nt_members t))\<rparr>,
                      nt_marks := filter (\<lambda>(k, nodeid). nodeid \<notin> set gone) (nt_marks t)\<rparr>\<rparr>)"

definition missing_member :: "site_env \<Rightarrow> string \<times> member_row \<Rightarrow> bool" where
  "missing_member env w \<longleftrightarrow> counted (snd w) \<and> sv_details env (fst w) (m_id (snd w)) = Inl 404"

definition reconcile_step :: "site_env \<Rightarrow> string \<Rightarrow> site \<Rightarrow> site" where
  "reconcile_step env orgId s =
     (case map_of (si_jobs s) orgId of
        None \<Rightarrow> s
      | Some [] \<Rightarrow> s\<lparr>si_jobs := filter (\<lambda>j. fst j \<noteq> orgId) (si_jobs s)\<rparr>
      | Some (w # ws) \<Rightarrow>
          let s1 = s\<lparr>si_jobs := map (\<lambda>j. if fst j = orgId then (orgId, ws) else j) (si_jobs s)\<rparr>
          in if missing_member env w then erase_member_row (snd w) s1 else s1)"

text \<open>The answer holds the rows of the users with all their columns. The background reconcile starts with the page.\<close>

definition getOrgById :: "caller \<Rightarrow> string \<Rightarrow> site \<Rightarrow> org_page site_reply" where
  "getOrgById c orgId =
     org_permitted c orgId READ_ONLY (\<lambda>s.
       case find_org orgId (si_org s) of
         None \<Rightarrow> (Inl (TRPCError NOT_FOUND ''Organization not found''), s)
       | Some g \<Rightarrow>
           let ns = org_networks orgId s; (counts, total) = count_networks s ns (0, 0)
           in (Inr \<lparr>op_org = g, op_roles = filter (\<lambda>r. or_organizationId r = orgId) (org_roles (site_db s)), op_users = org_users orgId s,
                  op_hooks = filter (\<lambda>h. hk_org h = Some orgId) (si_hooks s),
                  op_invites = filter (\<lambda>v. oi_organizationId v = orgId) (os_orgInvites (si_org s)),
                  op_counts = display_counts total, op_networks = counts\<rparr>,
               start_reconcile orgId (concat (map (\<lambda>n. map (Pair (n_nwid n)) (rows_of_network (n_nwid n) s)) ns)) s))"

section \<open>Deletion\<close>

definition site_net :: "site \<Rightarrow> net_state" where
  "site_net s = (si_net s)\<lparr>nt_db := site_db s, nt_log := os_log (si_org s)\<rparr>"

definition net_call_site :: "(net_state \<Rightarrow> 'a net_reply) \<Rightarrow> site \<Rightarrow> 'a site_reply" where
  "net_call_site f s = (case f (site_net s) of (r, t) \<Rightarrow> (r, s\<lparr>si_net := t, si_org := (si_org s)\<lparr>os_db := nt_db t, os_log := nt_log t\<rparr>\<rparr>))"

fun delete_networks :: "net_env \<Rightarrow> string \<Rightarrow> string list \<Rightarrow> site \<Rightarrow> unit site_reply" where
  "delete_networks env orgId [] s = (Inr (), s)"
| "delete_networks env orgId (n # ns) s =
     sbind (net_call_site (deleteNetwork env (Some orgId) False False n) s) (\<lambda>_. delete_networks env orgId ns)"

text \<open>The rows that go with an organisation; its webhooks stay, with no organisation.\<close>

definition cascade_networks :: "string \<Rightarrow> site \<Rightarrow> site" where
  "cascade_networks orgId s = snd (net_call_site (\<lambda>t. (Inr () :: exn + unit, fold drop_network (map n_nwid (org_networks orgId s)) t)) s)"

definition erase_org :: "string \<Rightarrow> site \<Rightarrow> site" where
  "erase_org orgId s0 =
     (let s = cascade_networks orgId s0; g = si_org s; d = os_db g
      in s\<lparr>si_org := g\<lparr>os_db := d\<lparr>org_roles := filter (\<lambda>r. or_organizationId r \<noteq> orgId) (org_roles d)\<rparr>,
                      os_orgs := filter (\<lambda>r. og_id r \<noteq> orgId) (os_orgs g),
                      os_members := filter (\<lambda>m. snd m \<noteq> orgId) (os_members g),
                      os_orgInvites := filter (\<lambda>v. oi_organizationId v \<noteq> orgId) (os_orgInvites g),
                      os_log := filter (\<lambda>l. lg_org l \<noteq> Some orgId) (os_log g)\<rparr>,
           si_messages := filter (\<lambda>m. mg_org m \<noteq> orgId) (si_messages s),
           si_reads := filter (\<lambda>r. lr_org r \<noteq> orgId) (si_reads s),
           si_settings := filter (\<lambda>r. se_org r \<noteq> orgId) (si_settings s),
           si_hooks := map (\<lambda>h. if hk_org h = Some orgId then h\<lparr>hk_org := None\<rparr> else h) (si_hooks s)\<rparr>)"

text \<open>The caller of the network procedures acts as the user of the request.\<close>

definition caller_env :: "site_env \<Rightarrow> caller \<Rightarrow> site \<Rightarrow> net_env" where
  "caller_env env c s = (sv_net env)\<lparr>ne_user := ca_id c, ne_role := ADMIN, ne_orgs := map og_id (os_orgs (si_org s))\<rparr>"

definition deleteOrg :: "site_env \<Rightarrow> session_user option \<Rightarrow> caller \<Rightarrow> string \<Rightarrow> site \<Rightarrow> unit site_reply" where
  "deleteOrg env session c orgId s =
     (case enforceUserIsAdmin session of
        Inl e \<Rightarrow> (Inl e, s)
      | Inr _ \<Rightarrow> org_permitted c orgId ADMIN (\<lambda>s.
          if map_option og_ownerId (find_org orgId (si_org s)) \<noteq> Some (ca_id c)
          then (Inl (PlainError ''You are not the owner of this organization.''), s)
          else sbind (delete_networks (caller_env env c s) orgId (map n_nwid (org_networks orgId s)) s) (\<lambda>_ s1. (Inr (), erase_org orgId s1))) s)"

section \<open>Requests\<close>

datatype site_request =
    RSend caller "string option" string
  | RGet caller string
  | RMark caller string
  | RHookDelete caller string "string option"
  | RHookAdd caller string hook_input
  | RSettings caller string "bool option"
  | RNotify caller string "notify_flag \<Rightarrow> bool option"
  | RTemplate caller string string string
  | RPage caller string
  | RReconcile string
  | RDelete "session_user option" caller string

fun run_site :: "site_env \<Rightarrow> site_request \<Rightarrow> site \<Rightarrow> site" where
  "run_site env (RSend c m o') s = snd (sendMessage env c m o' s)"
| "run_site env (RGet c o') s = snd (getMessages env c o' s)"
| "run_site env (RMark c o') s = snd (markMessagesAsRead env c o' s)"
| "run_site env (RHookDelete c o' i) s = snd (deleteOrgWebhooks c o' i s)"
| "run_site env (RHookAdd c o' i) s = snd (addOrgWebhooks env c o' i s)"
| "run_site env (RSettings c o' b) s = snd (updateOrganizationSettings c o' b s)"
| "run_site env (RNotify c o' f) s = snd (updateOrganizationNotificationSettings c o' f s)"
| "run_site env (RTemplate c o' t v) s = snd (updateOrganizationNotificationTemplate env c o' t v s)"
| "run_site env (RPage c o') s = snd (getOrgById c o' s)"
| "run_site env (RReconcile o') s = reconcile_step env o' s"
| "run_site env (RDelete session c o') s = snd (deleteOrg env session c o' s)"

text \<open>Who asks for what: the caller, the organisation and the role that the procedure asks for.\<close>

fun rq_claim :: "site_request \<Rightarrow> (string \<times> string \<times> role) option" where
  "rq_claim (RSend c m o') = Some (ca_id c, o', READ_ONLY)"
| "rq_claim (RMark c o') = Some (ca_id c, o', READ_ONLY)"
| "rq_claim (RHookDelete c o' i) = Some (ca_id c, o', ADMIN)"
| "rq_claim (RHookAdd c o' i) = Some (ca_id c, o', ADMIN)"
| "rq_claim (RSettings c o' b) = Some (ca_id c, o', ADMIN)"
| "rq_claim (RNotify c o' f) = Some (ca_id c, o', ADMIN)"
| "rq_claim (RTemplate c o' t v) = Some (ca_id c, o', ADMIN)"
| "rq_claim (RDelete session c o') = Some (ca_id c, o', ADMIN)"
| "rq_claim (RGet c o') = None"
| "rq_claim (RPage c o') = None"
| "rq_claim (RReconcile o') = None"

definition rq_may :: "db \<Rightarrow> site_request \<Rightarrow> string \<Rightarrow> bool" where
  "rq_may d rq orgId \<longleftrightarrow> (case rq_claim rq of None \<Rightarrow> False
     | Some (u, o', r) \<Rightarrow> o' = orgId \<and> checkUserOrganizationRole d u orgId r = Inr ())"

record org_view =
  ov_messages :: "message_row list"
  ov_reads :: "read_row list"
  ov_hooks :: "hook_row list"
  ov_settings :: "settings_row list"

definition org_view_of :: "string \<Rightarrow> site \<Rightarrow> org_view" where
  "org_view_of o' s = \<lparr>ov_messages = org_messages o' s, ov_reads = filter (\<lambda>r. lr_org r = o') (si_reads s),
     ov_hooks = filter (\<lambda>h. hk_org h = Some o') (si_hooks s), ov_settings = filter (\<lambda>r. se_org r = o') (si_settings s)\<rparr>"

text \<open>The rows of an organisation in the tables of organisations, memberships, invitation links, roles and logs.\<close>

record org_rows =
  ow_orgs :: "org_row list"
  ow_members :: "(string \<times> string) list"
  ow_invites :: "org_invite_row list"
  ow_roles :: "org_role_row list"
  ow_log :: "log_row list"

definition org_rows_of :: "string \<Rightarrow> site \<Rightarrow> org_rows" where
  "org_rows_of o' s = \<lparr>ow_orgs = filter (\<lambda>g. og_id g = o') (os_orgs (si_org s)), ow_members = filter (\<lambda>m. snd m = o') (os_members (si_org s)),
     ow_invites = filter (\<lambda>v. oi_organizationId v = o') (os_orgInvites (si_org s)),
     ow_roles = filter (\<lambda>r. or_organizationId r = o') (org_roles (site_db s)), ow_log = filter (\<lambda>l. lg_org l = Some o') (os_log (si_org s))\<rparr>"

text \<open>Roles only go, and webhook ids are unique.\<close>

definition site_within :: "db \<Rightarrow> site \<Rightarrow> bool" where
  "site_within d s \<longleftrightarrow> distinct (map hk_id (si_hooks s))
     \<and> (\<forall>o' u. find_org_role o' u (site_db s) = find_org_role o' u d \<or> find_org_role o' u (site_db s) = None)"

section \<open>Specification\<close>

definition new_hook :: "site_env \<Rightarrow> string \<Rightarrow> hook_input \<Rightarrow> hook_row" where
  "new_hook env p i = \<lparr>hk_id = sv_newId env, hk_name = hi_name i, hk_description = [], hk_url = hi_url i, hk_eventTypes = hi_types i, hk_org = Some p\<rparr>"

definition edit_hook :: "string \<Rightarrow> hook_input \<Rightarrow> hook_row \<Rightarrow> hook_row" where
  "edit_hook k i h = (if hk_id h = k then h\<lparr>hk_url := hi_url i, hk_description := [], hk_name := hi_name i, hk_eventTypes := hi_types i\<rparr> else h)"

definition hook_input_ok :: "site_env \<Rightarrow> hook_input \<Rightarrow> bool" where
  "hook_input_ok env i \<longleftrightarrow> is_ok (assertPublicHttpsUrl (sv_lib env) (hi_url i)) \<and> hi_types i \<noteq> [] \<and> set (hi_types i) \<subseteq> set hook_types"

definition hook_ok :: "net_lib \<Rightarrow> hook_row \<Rightarrow> bool" where
  "hook_ok lib h \<longleftrightarrow> is_ok (assertPublicHttpsUrl lib (hk_url h)) \<and> hk_eventTypes h \<noteq> [] \<and> set (hk_eventTypes h) \<subseteq> set hook_types"

text \<open>The clock goes forward between messages, and the database sorts by it.\<close>

definition chat_wf :: "site \<Rightarrow> bool" where
  "chat_wf s \<longleftrightarrow> sorted_wrt (\<lambda>a b. mg_id a < mg_id b \<and> mg_createdAt a < mg_createdAt b) (si_messages s)
     \<and> (\<forall>g\<in>set (si_messages s). mg_id g < si_nextMessage s)"

definition newest_first :: "(message_row list \<Rightarrow> message_row list) \<Rightarrow> bool" where
  "newest_first f \<longleftrightarrow> (\<forall>gs. mset (f gs) = mset gs \<and> sorted_wrt (\<lambda>a b. mg_createdAt a \<ge> mg_createdAt b) (f gs))"

text \<open>\<^verbatim>\<open>wss.emit\<close> reaches every socket that is connected.\<close>

definition receivers :: "hub \<Rightarrow> string list" where
  "receivers h = map sk_user (filter sk_connected (hb_sockets h))"

definition heard :: "string \<Rightarrow> hub \<Rightarrow> site \<Rightarrow> (string \<times> message_row) list" where
  "heard u h s = (if u \<in> set (receivers h) then si_emitted s else [])"

definition live_members :: "site \<Rightarrow> network_row \<Rightarrow> member_row list" where
  "live_members s n = filter counted (rows_of_network (n_nwid n) s)"

definition authorized_members :: "site \<Rightarrow> network_row \<Rightarrow> member_row list" where
  "authorized_members s n = filter (\<lambda>m. m_authorized m = Some True) (live_members s n)"

text \<open>The work that a page hands to the reconcile: every member row of the organisation's networks, with its network.\<close>

definition org_work :: "string \<Rightarrow> site \<Rightarrow> (string \<times> member_row) list" where
  "org_work o' s = concat (map (\<lambda>n. map (Pair (n_nwid n)) (rows_of_network (n_nwid n) s)) (org_networks o' s))"

abbreviation site_rows :: "site \<Rightarrow> member_row list" where
  "site_rows s \<equiv> ms_rows (nt_members (si_net s))"

definition of_org :: "string \<Rightarrow> site \<Rightarrow> member_row \<Rightarrow> bool" where
  "of_org o' s m \<longleftrightarrow> (\<exists>x\<in>set (networks (site_db s)). n_nwid x = m_nwid m \<and> n_organizationId x = Some o')"

definition network_deleted :: "string \<Rightarrow> site \<Rightarrow> bool" where
  "network_deleted n s \<longleftrightarrow> filter (\<lambda>x. n_nwid x = n) (networks (site_db s)) = [] \<and> NetworkDelete False n \<in> set (nt_calls (si_net s))"

section \<open>Examples\<close>

definition site_demo :: site where
  "site_demo = \<lparr>si_org = \<lparr>os_db = demo_db\<lparr>users := [demo_user ''u1'' ADMIN, demo_user ''u2'' USER],
        org_roles := [\<lparr>or_userId = ''u1'', or_organizationId = ''o1'', or_role = ADMIN\<rparr>, \<lparr>or_userId = ''u2'', or_organizationId = ''o1'', or_role = READ_ONLY\<rparr>]\<rparr>,
       os_orgs = [\<lparr>og_id = ''o1'', og_name = ''org'', og_description = None, og_ownerId = ''u1''\<rparr>], os_members = [(''u1'', ''o1''), (''u2'', ''o1'')],
       os_invitations = [], os_orgInvites = [], os_log = [], os_nextInvite = 1\<rparr>,
     si_net = demo_netstate\<lparr>nt_members := \<lparr>ms_rows = [demo_member\<lparr>m_nwid := ''n1'', m_deleted := None, m_permanentlyDeleted := None\<rparr>], ms_nextId = 9, ms_out = [], ms_joins = []\<rparr>\<rparr>,
     si_messages = [\<lparr>mg_id = 1, mg_content = ''a'', mg_createdAt = 1, mg_userId = ''u1'', mg_org = ''o1''\<rparr>,
                    \<lparr>mg_id = 2, mg_content = ''b'', mg_createdAt = 2, mg_userId = ''u1'', mg_org = ''o1''\<rparr>],
     si_nextMessage = 3, si_reads = [], si_hooks = [], si_settings = [], si_emitted = [], si_jobs = []\<rparr>"

definition site_demo_env :: site_env where
  "site_demo_env = \<lparr>sv_now = 5, sv_newId = ''w1'', sv_order = (\<lambda>gs. rev (sort_key mg_createdAt gs)), sv_wss = True, sv_parse = (\<lambda>t. Some (js_value.JText t)),
     sv_column = Some, sv_lib = demo_net, sv_urlError = (\<lambda>_. []), sv_net = demo_netenv, sv_collate = (\<lambda>_. 0), sv_details = (\<lambda>_ _. Inl 404)\<rparr>"

definition site_demo_hub :: hub where
  "site_demo_hub = (hub_init demo_db)\<lparr>hb_sockets := [\<lparr>sk_user = ''u3'', sk_connected = True, sk_subscribed = [], sk_pending = [], sk_rooms = []\<rparr>]\<rparr>"

abbreviation site_admin :: caller where
  "site_admin \<equiv> \<lparr>ca_id = ''u1'', ca_name = ''n''\<rparr>"

abbreviation site_reader :: caller where
  "site_reader \<equiv> \<lparr>ca_id = ''u2'', ca_name = ''n''\<rparr>"

abbreviation site_hook :: hook_input where
  "site_hook \<equiv> \<lparr>hi_url = ''hooks.example'', hi_name = ''h'', hi_types = [''NETWORK_JOIN''], hi_id = None\<rparr>"

section \<open>Scope\<close>

lemma org_permitted_snd:
  "snd (org_permitted c o' r f s) = (if checkUserOrganizationRole (site_db s) (ca_id c) o' r = Inr () then snd (f s) else s)"
  by (auto simp: org_permitted_def split: sum.split)

lemma within_check:
  assumes "site_within d s" "checkUserOrganizationRole (site_db s) u o' r = Inr ()"
  shows "checkUserOrganizationRole d u o' r = Inr ()"
proof -
  have "find_org_role o' u (site_db s) \<noteq> None" using assms(2) by (auto simp: checkUserOrganizationRole_def split: option.splits)
  then have "find_org_role o' u (site_db s) = find_org_role o' u d" using assms(1) unfolding site_within_def by metis
  then show ?thesis using assms(2) by (simp add: checkUserOrganizationRole_def)
qed

lemma filter_map_keep:
  assumes "\<And>x. P (f x) = P x" "\<And>x. P x \<Longrightarrow> f x = x"
  shows "filter P (map f xs) = filter P xs"
  using assms by (induction xs) auto

lemma view_reads: "o' \<noteq> p \<Longrightarrow> filter (\<lambda>r. lr_org r = o') (si_reads (upsert_read u p k s)) = filter (\<lambda>r. lr_org r = o') (si_reads s)"
  by (auto simp: upsert_read_def split: option.split intro!: filter_map_keep)

lemma upsert_read_fields [simp]:
  "si_messages (upsert_read u p k s) = si_messages s" "si_hooks (upsert_read u p k s) = si_hooks s" "si_settings (upsert_read u p k s) = si_settings s"
  "si_org (upsert_read u p k s) = si_org s" "si_net (upsert_read u p k s) = si_net s" "si_emitted (upsert_read u p k s) = si_emitted s"
  "si_nextMessage (upsert_read u p k s) = si_nextMessage s" "si_jobs (upsert_read u p k s) = si_jobs s"
  by (simp_all add: upsert_read_def split: option.split)

lemma view_settings: "o' \<noteq> p \<Longrightarrow> (\<And>r. se_org (f r) = se_org r) \<Longrightarrow>
    filter (\<lambda>r. se_org r = o') (si_settings (snd (upsert_settings p f s))) = filter (\<lambda>r. se_org r = o') (si_settings s)"
  by (auto simp: upsert_settings_def default_settings_def split: option.split intro!: filter_map_keep)

lemma upsert_settings_fields [simp]:
  "si_messages (snd (upsert_settings p f s)) = si_messages s" "si_hooks (snd (upsert_settings p f s)) = si_hooks s"
  "si_reads (snd (upsert_settings p f s)) = si_reads s" "si_org (snd (upsert_settings p f s)) = si_org s"
  by (simp_all add: upsert_settings_def split: option.split)

lemma reconcile_step_fields [simp]:
  "si_messages (reconcile_step env p s) = si_messages s" "si_hooks (reconcile_step env p s) = si_hooks s"
  "si_reads (reconcile_step env p s) = si_reads s" "si_org (reconcile_step env p s) = si_org s" "si_settings (reconcile_step env p s) = si_settings s"
  by (simp_all add: reconcile_step_def erase_member_row_def Let_def split: option.split list.split)

lemma start_reconcile_fields [simp]:
  "si_messages (start_reconcile p w s) = si_messages s" "si_hooks (start_reconcile p w s) = si_hooks s"
  "si_reads (start_reconcile p w s) = si_reads s" "si_org (start_reconcile p w s) = si_org s" "si_settings (start_reconcile p w s) = si_settings s"
  by (simp_all add: start_reconcile_def)

lemma net_call_fields [simp]:
  "si_messages (snd (net_call_site f s)) = si_messages s" "si_hooks (snd (net_call_site f s)) = si_hooks s"
  "si_reads (snd (net_call_site f s)) = si_reads s" "si_settings (snd (net_call_site f s)) = si_settings s"
  "os_orgs (si_org (snd (net_call_site f s))) = os_orgs (si_org s)"
  by (simp_all add: net_call_site_def split: prod.split)

lemma sbind_cases: "fst m = Inl e \<Longrightarrow> sbind m f = (Inl e, snd m)" "fst m = Inr x \<Longrightarrow> sbind m f = f x (snd m)"
  by (cases m; simp)+

lemma delete_networks_fields [simp]:
  "si_messages (snd (delete_networks env p ns s)) = si_messages s" "si_hooks (snd (delete_networks env p ns s)) = si_hooks s"
  "si_reads (snd (delete_networks env p ns s)) = si_reads s" "si_settings (snd (delete_networks env p ns s)) = si_settings s"
  by (induction ns arbitrary: s) (simp_all add: sbind_def split: prod.split sum.split, (metis net_call_fields snd_conv)+)

lemma delete_outside: "outside nwid s (snd (deleteNetwork env org central override nwid s))"
  by (simp add: deleteNetwork_def net_permitted_snd outside_delete)

lemma outside_roles: "outside nwid s t \<Longrightarrow> org_roles (nt_db t) = org_roles (nt_db s)"
  unfolding outside_def using within_def by blast

lemma site_net_fields [simp]: "nt_db (site_net s) = site_db s" "nt_log (site_net s) = os_log (si_org s)"
  "nt_calls (site_net s) = nt_calls (si_net s)" "nt_members (site_net s) = nt_members (si_net s)"
  by (simp_all add: site_net_def)

lemma site_net_call [simp]: "site_net (snd (net_call_site f s)) = snd (f (site_net s))"
  by (simp add: net_call_site_def site_net_def site_db_def split: prod.split)

lemma site_db_call: "site_db (snd (net_call_site f s)) = nt_db (snd (f (site_net s)))"
  by (simp add: net_call_site_def site_db_def split: prod.split)

lemma delete_networks_roles: "org_roles (site_db (snd (delete_networks env p ns s))) = org_roles (site_db s)"
proof (induction ns arbitrary: s)
  case (Cons n ns)
  let ?m = "net_call_site (deleteNetwork env (Some p) False False n) s"
  have r: "org_roles (site_db (snd ?m)) = org_roles (site_db s)"
    using outside_roles[OF delete_outside] by (simp add: site_db_call)
  show ?case
  proof (cases "fst ?m")
    case (Inl e)
    then show ?thesis using r by (simp add: sbind_cases)
  next
    case (Inr u)
    then show ?thesis using Cons[of "snd ?m"] r by (simp add: sbind_cases)
  qed
qed simp

lemma drop_networks_roles: "org_roles (nt_db (fold drop_network ns t)) = org_roles (nt_db t)"
  using outside_roles[OF outside_drop] by (induction ns arbitrary: t) simp_all

lemma cascade_fields [simp]:
  "si_messages (cascade_networks p s) = si_messages s" "si_hooks (cascade_networks p s) = si_hooks s"
  "si_reads (cascade_networks p s) = si_reads s" "si_settings (cascade_networks p s) = si_settings s"
  "os_orgs (si_org (cascade_networks p s)) = os_orgs (si_org s)" "org_roles (os_db (si_org (cascade_networks p s))) = org_roles (site_db s)"
proof -
  show "org_roles (os_db (si_org (cascade_networks p s))) = org_roles (site_db s)"
    using site_db_call[of "\<lambda>t. (Inr () :: exn + unit, fold drop_network (map n_nwid (org_networks p s)) t)" s]
    by (simp add: cascade_networks_def site_db_def[symmetric] drop_networks_roles)
qed (simp_all add: cascade_networks_def)

lemma filter_other_key: "a \<noteq> b \<Longrightarrow> filter (\<lambda>x. g x = a) (filter (\<lambda>x. g x \<noteq> b) xs) = filter (\<lambda>x. g x = a) xs"
  by (auto intro: filter_cong)

lemma erase_view:
  assumes "o' \<noteq> p" shows "org_view_of o' (erase_org p s) = org_view_of o' s"
proof -
  have "filter (\<lambda>h. hk_org h = Some o') (map (\<lambda>h. if hk_org h = Some p then h\<lparr>hk_org := None\<rparr> else h) hs) = filter (\<lambda>h. hk_org h = Some o') hs" for hs
    using assms by (intro filter_map_keep) auto
  then show ?thesis using assms by (simp add: erase_org_def org_view_of_def org_messages_def Let_def filter_other_key del: filter_filter)
qed

lemma delete_networks_view: "org_view_of o' (snd (delete_networks env p ns s)) = org_view_of o' s"
  by (simp add: org_view_of_def org_messages_def)

lemma snd_sbind_pure: "snd (sbind m (\<lambda>_ t. (Inr x, f t))) = (if is_ok (fst m) then f (snd m) else snd m)"
  by (cases m; cases "fst m") simp_all

lemma deleteOrg_snd:
  "snd (deleteOrg env session c p s) = s \<or>
     checkUserOrganizationRole (site_db s) (ca_id c) p ADMIN = Inr () \<and>
     (\<exists>t nenv ns. t = snd (delete_networks nenv p ns s) \<and> (snd (deleteOrg env session c p s) = t \<or> snd (deleteOrg env session c p s) = erase_org p t))"
  by (auto simp: deleteOrg_def org_permitted_snd snd_sbind_pure split: sum.split)

lemma deleteOrg_view: "o' \<noteq> p \<Longrightarrow> org_view_of o' (snd (deleteOrg env session c p s)) = org_view_of o' s"
  using deleteOrg_snd[of env session c p s] by (auto simp: erase_view delete_networks_view)

lemma add_hook_snd:
  "snd (addOrgWebhooks env c p i s) =
     (if hook_input_ok env i \<and> checkUserOrganizationRole (site_db s) (ca_id c) p ADMIN = Inr ()
      then if truthy (hi_id i)
           then (case find (\<lambda>h. hk_id h = the (hi_id i) \<and> hk_org h = Some p) (si_hooks s) of
                   None \<Rightarrow> s | Some w \<Rightarrow> s\<lparr>si_hooks := map (edit_hook (hk_id w) i) (si_hooks s)\<rparr>)
           else if find_org p (si_org s) = None \<or> sv_newId env \<in> hk_id ` set (si_hooks s) then s
           else s\<lparr>si_hooks := si_hooks s @ [new_hook env p i]\<rparr>
      else s)"
proof (cases "assertPublicHttpsUrl (sv_lib env) (hi_url i)")
  case (Inl e)
  then show ?thesis by (simp add: addOrgWebhooks_def org_permitted_snd hook_input_ok_def)
next
  case (Inr u)
  then have ok: "is_ok (assertPublicHttpsUrl (sv_lib env) (hi_url i))" by simp
  have e: "edit_hook k i = (\<lambda>h. if hk_id h = k then h\<lparr>hk_url := hi_url i, hk_description := [], hk_name := hi_name i, hk_eventTypes := hi_types i\<rparr> else h)" for k
    by (simp add: edit_hook_def fun_eq_iff)
  show ?thesis
  proof (cases "set (hi_types i) \<subseteq> set hook_types")
    case True
    show ?thesis
      by (simp add: addOrgWebhooks_def org_permitted_snd hook_input_ok_def True Inr ok e new_hook_def split: option.split)
  next
    case False
    then show ?thesis by (simp add: addOrgWebhooks_def hook_input_ok_def)
  qed
qed

lemma add_hook_cases:
  obtains "snd (addOrgWebhooks env c p i s) = s"
  | "hook_input_ok env i" "snd (addOrgWebhooks env c p i s) = s\<lparr>si_hooks := si_hooks s @ [new_hook env p i]\<rparr>" "sv_newId env \<notin> hk_id ` set (si_hooks s)"
  | w where "hook_input_ok env i" "w \<in> set (si_hooks s)" "hk_org w = Some p"
      "snd (addOrgWebhooks env c p i s) = s\<lparr>si_hooks := map (edit_hook (hk_id w) i) (si_hooks s)\<rparr>"
proof -
  let ?r = "snd (addOrgWebhooks env c p i s)" and ?w = "find (\<lambda>h. hk_id h = the (hi_id i) \<and> hk_org h = Some p) (si_hooks s)"
  consider (refused) "\<not> (hook_input_ok env i \<and> checkUserOrganizationRole (site_db s) (ca_id c) p ADMIN = Inr ())"
    | (edit) "hook_input_ok env i" "checkUserOrganizationRole (site_db s) (ca_id c) p ADMIN = Inr ()" "truthy (hi_id i)"
    | (add) "hook_input_ok env i" "checkUserOrganizationRole (site_db s) (ca_id c) p ADMIN = Inr ()" "\<not> truthy (hi_id i)"
    by blast
  then show thesis
  proof cases
    case refused
    then have "?r = s" by (auto simp: add_hook_snd)
    then show thesis by (rule that(1))
  next
    case edit
    show thesis
    proof (cases ?w)
      case None
      with edit have "?r = s" by (simp add: add_hook_snd)
      then show thesis by (rule that(1))
    next
      case (Some w)
      with edit have "?r = s\<lparr>si_hooks := map (edit_hook (hk_id w) i) (si_hooks s)\<rparr>" by (simp add: add_hook_snd)
      then show thesis using that(3) edit(1) find_Some_mem[OF Some] by blast
    qed
  next
    case add
    show thesis
    proof (cases "find_org p (si_org s) = None \<or> sv_newId env \<in> hk_id ` set (si_hooks s)")
      case True
      with add have "?r = s" by (auto simp: add_hook_snd)
      then show thesis by (rule that(1))
    next
      case False
      with add have "?r = s\<lparr>si_hooks := si_hooks s @ [new_hook env p i]\<rparr>" by (simp add: add_hook_snd)
      then show thesis using that(2) add(1) False by blast
    qed
  qed
qed

lemma edit_hook_fields [simp]: "hk_id (edit_hook k i h) = hk_id h" "hk_org (edit_hook k i h) = hk_org h"
  by (simp_all add: edit_hook_def)

lemma hook_update_view:
  assumes "distinct (map hk_id hs)" "w \<in> set hs" "hk_org w = Some p" "o' \<noteq> p"
  shows "filter (\<lambda>h. hk_org h = Some o') (map (edit_hook (hk_id w) i) hs) = filter (\<lambda>h. hk_org h = Some o') hs"
proof -
  have "edit_hook (hk_id w) i h = (if h = w then edit_hook (hk_id w) i w else h)" if "h \<in> set hs" for h
    using assms(1,2) that by (auto simp: distinct_map inj_on_def edit_hook_def)
  then have "map (edit_hook (hk_id w) i) hs = map (\<lambda>h. if h = w then edit_hook (hk_id w) i w else h) hs" by simp
  moreover have "filter (\<lambda>h. hk_org h = Some o') (map (\<lambda>h. if h = w then edit_hook (hk_id w) i w else h) hs) = filter (\<lambda>h. hk_org h = Some o') hs"
    using assms(3,4) by (intro filter_map_keep) auto
  ultimately show ?thesis by (simp only:)
qed

lemma add_hook_view:
  assumes "distinct (map hk_id (si_hooks s))" "o' \<noteq> p"
  shows "org_view_of o' (snd (addOrgWebhooks env c p i s)) = org_view_of o' s"
proof (rule add_hook_cases[of env c p i s])
  fix w assume w: "w \<in> set (si_hooks s)" "hk_org w = Some p"
  assume "snd (addOrgWebhooks env c p i s) = s\<lparr>si_hooks := map (edit_hook (hk_id w) i) (si_hooks s)\<rparr>"
  then show ?thesis using hook_update_view[OF assms(1) w assms(2)] by (simp add: org_view_of_def org_messages_def)
qed (use assms(2) in \<open>simp_all add: org_view_of_def org_messages_def new_hook_def\<close>)

lemma add_hook_ids:
  assumes "distinct (map hk_id (si_hooks s))" shows "distinct (map hk_id (si_hooks (snd (addOrgWebhooks env c p i s))))"
proof -
  have m: "map hk_id (map (edit_hook k i) hs) = map hk_id hs" for k hs by simp
  show ?thesis by (rule add_hook_cases[of env c p i s]) (use assms in \<open>simp_all add: m new_hook_def del: map_map\<close>)
qed

text \<open>No request changes an organisation that it does not name with a sufficient role.\<close>

lemma add_hook_org [simp]: "si_org (snd (addOrgWebhooks env c p i s)) = si_org s"
  by (rule add_hook_cases[of env c p i s]) simp_all

lemma run_site_hooks:
  assumes "distinct (map hk_id (si_hooks s))" shows "distinct (map hk_id (si_hooks (run_site env rq s)))"
proof (cases rq)
  case (RHookAdd c p i)
  then show ?thesis using add_hook_ids[OF assms] by simp
next
  case (RDelete session c p)
  have "map hk_id (si_hooks (erase_org p t)) = map hk_id (si_hooks t)" for t by (auto simp: erase_org_def Let_def)
  then show ?thesis using RDelete deleteOrg_snd[of env session c p s] assms by auto
next
  case (RHookDelete c p i)
  then show ?thesis using assms by (simp add: deleteOrgWebhooks_def org_permitted_snd Let_def distinct_map_filter)
qed (use assms in \<open>simp_all add: sendMessage_def getMessages_def markMessagesAsRead_def updateOrganizationSettings_def
  updateOrganizationNotificationSettings_def updateOrganizationNotificationTemplate_def getOrgById_def org_permitted_snd Let_def
  split: option.split sum.split template_lookup.split prod.split\<close>)

lemma erase_roles: "find_org_role o' u (site_db (erase_org p s)) = (if o' = p then None else find_org_role o' u (site_db s))"
proof -
  have "find (\<lambda>r. or_organizationId r = o' \<and> or_userId r = u) (filter (\<lambda>r. or_organizationId r \<noteq> p) rs)
      = (if o' = p then None else find (\<lambda>r. or_organizationId r = o' \<and> or_userId r = u) rs)" for rs :: "org_role_row list"
    by (induction rs) auto
  then show ?thesis by (simp add: erase_org_def site_db_def find_org_role_def Let_def)
qed

lemma run_site_roles:
  "find_org_role o' u (site_db (run_site env rq s)) = find_org_role o' u (site_db s) \<or> find_org_role o' u (site_db (run_site env rq s)) = None"
proof (cases rq)
  case (RDelete session c p)
  have "find_org_role o' u (site_db (snd (delete_networks nenv p ns s))) = find_org_role o' u (site_db s)" for nenv ns
    by (simp add: find_org_role_def delete_networks_roles)
  then show ?thesis using RDelete deleteOrg_snd[of env session c p s] by (auto simp: erase_roles split: if_split_asm)
qed (simp_all add: site_db_def sendMessage_def getMessages_def markMessagesAsRead_def updateOrganizationSettings_def deleteOrgWebhooks_def
  updateOrganizationNotificationSettings_def updateOrganizationNotificationTemplate_def getOrgById_def org_permitted_snd Let_def
  split: option.split sum.split template_lookup.split prod.split)

lemma run_site_within: "site_within d s \<Longrightarrow> site_within d (run_site env rq s)"
  unfolding site_within_def using run_site_hooks[of s env rq] run_site_roles[of _ _ env rq s] by metis

lemma run_site_view:
  assumes "distinct (map hk_id (si_hooks s))" "\<not> rq_may (site_db s) rq o'"
  shows "org_view_of o' (run_site env rq s) = org_view_of o' s"
proof (cases rq)
  case (RSend c m p)
  then show ?thesis using assms(2)
    by (cases "o' = p") (auto simp: rq_may_def sendMessage_def org_permitted_snd org_view_of_def org_messages_def Let_def view_reads)
next
  case (RMark c p)
  then show ?thesis using assms(2)
    by (cases "o' = p") (auto simp: rq_may_def markMessagesAsRead_def org_permitted_snd org_view_of_def org_messages_def view_reads split: option.split)
next
  case (RHookDelete c p i)
  have "filter (\<lambda>h. hk_org h = Some o') (filter (\<lambda>h. \<not> (Q h \<and> hk_org h = Some p)) hs) = filter (\<lambda>h. hk_org h = Some o') hs" if "o' \<noteq> p" for Q hs
    using that by (auto intro: filter_cong)
  then show ?thesis using RHookDelete assms(2)
    by (cases "o' = p") (auto simp: rq_may_def deleteOrgWebhooks_def org_permitted_snd org_view_of_def org_messages_def Let_def simp del: filter_filter)
next
  case (RHookAdd c p i)
  then show ?thesis using assms add_hook_view[OF assms(1), of o' p env c i]
    by (cases "o' = p") (auto simp: rq_may_def add_hook_snd)
next
  case (RDelete session c p)
  then show ?thesis using assms(2) deleteOrg_view[of o' p env session c s] deleteOrg_snd[of env session c p s]
    by (cases "o' = p") (auto simp: rq_may_def)
next
  case (RSettings c p b)
  then show ?thesis using assms(2)
    by (cases "o' = p") (auto simp: rq_may_def updateOrganizationSettings_def org_permitted_snd org_view_of_def org_messages_def view_settings)
next
  case (RNotify c p f)
  then show ?thesis using assms(2)
    by (cases "o' = p") (auto simp: rq_may_def updateOrganizationNotificationSettings_def org_permitted_snd org_view_of_def org_messages_def view_settings)
next
  case (RTemplate c p t v)
  then show ?thesis using assms(2)
    by (cases "o' = p") (auto simp: rq_may_def updateOrganizationNotificationTemplate_def org_permitted_snd org_view_of_def org_messages_def view_settings
        split: option.split template_lookup.split)
qed (simp_all add: org_view_of_def org_messages_def getMessages_def getOrgById_def org_permitted_snd Let_def split: option.split prod.split)

lemma may_within: "site_within d s \<Longrightarrow> rq_may (site_db s) rq o' \<Longrightarrow> rq_may d rq o'"
  by (auto simp: rq_may_def split: option.split_asm dest: within_check)

text \<open>Each request of a sequence comes with its own clock, fresh ids and answers of the controllers.\<close>

interpretation site_scope: guarded_requests "\<lambda>(env, rq). run_site env rq" org_view_of "\<lambda>(env, rq). rq_may d rq" "site_within d" for d
proof (unfold_locales, goal_cases)
  case (1 s rq)
  then show ?case using run_site_within by (simp add: case_prod_beta)
next
  case (2 s rq n)
  then have w: "site_within d s" and n: "\<not> rq_may (site_db s) (snd rq) n" using may_within[of d s] by (auto simp: case_prod_beta)
  have "distinct (map hk_id (si_hooks s))" using w by (simp add: site_within_def)
  from run_site_view[OF this n] show ?case by (simp add: case_prod_beta)
qed

text \<open>C38. The tables of an organisation behind its router: in any sequence of requests to \<^verbatim>\<open>organizationRouter\<close> (its messages,
  read marks, webhooks, settings, pages and deletion, and the background steps they start), each with an environment of its
  own, messages, read marks, webhooks and settings of an organisation change only if a request names that organisation and its
  caller had the role there that the procedure asks for; deletions by others only take roles away. Other routers are not part
  of such a sequence, and they do write these tables: a renaming of a member creates a settings row (see
  \<^verbatim>\<open>Member_Procedures.renaming_creates_settings\<close>), and the removal of a user takes its messages and read marks along.\<close>

theorem org_tables_stay_scoped:
  assumes "distinct (map hk_id (si_hooks s))" "org_view_of o' (fold (\<lambda>(env, rq). run_site env rq) rqs s) \<noteq> org_view_of o' s"
  shows "\<exists>env rq u r. (env, rq) \<in> set rqs \<and> rq_claim rq = Some (u, o', r) \<and> checkUserOrganizationRole (site_db s) u o' r = Inr ()"
proof -
  have "site_within (site_db s) s" using assms(1) by (simp add: site_within_def)
  from site_scope.change_needs_permission[OF this assms(2)] obtain env rq where "(env, rq) \<in> set rqs" "rq_may (site_db s) rq o'" by auto
  then show ?thesis by (fastforce simp: rq_may_def split: option.split_asm)
qed

section \<open>Webhooks stay public\<close>

lemma hook_ok_org [simp]: "hook_ok lib (h\<lparr>hk_org := v\<rparr>) = hook_ok lib h"
  by (simp add: hook_ok_def)

lemma add_hook_ok:
  assumes "\<forall>h\<in>set (si_hooks s). hook_ok (sv_lib env) h"
  shows "\<forall>h\<in>set (si_hooks (snd (addOrgWebhooks env c p i s))). hook_ok (sv_lib env) h"
proof (rule add_hook_cases[of env c p i s])
  fix w assume i: "hook_input_ok env i" and r: "snd (addOrgWebhooks env c p i s) = s\<lparr>si_hooks := map (edit_hook (hk_id w) i) (si_hooks s)\<rparr>"
  have "hook_ok (sv_lib env) (edit_hook (hk_id w) i h)" if "h \<in> set (si_hooks s)" for h
    using assms that i by (simp add: hook_ok_def hook_input_ok_def edit_hook_def)
  then show ?thesis unfolding r by simp
qed (use assms in \<open>simp_all add: new_hook_def hook_input_ok_def hook_ok_def\<close>)

lemma run_site_hook_ok:
  assumes "\<forall>h\<in>set (si_hooks s). hook_ok (sv_lib env) h"
  shows "\<forall>h\<in>set (si_hooks (run_site env rq s)). hook_ok (sv_lib env) h"
proof (cases rq)
  case (RHookAdd c p i)
  then show ?thesis using add_hook_ok[OF assms] by simp
next
  case (RDelete session c p)
  have e: "\<forall>h\<in>set (si_hooks (erase_org p (snd (delete_networks nenv p ns s)))). hook_ok (sv_lib env) h" for nenv ns
    using assms by (auto simp: erase_org_def Let_def)
  from deleteOrg_snd[of env session c p s] show ?thesis using RDelete assms e by (elim disjE conjE exE) simp_all
next
  case (RHookDelete c p i)
  then show ?thesis using assms by (simp add: deleteOrgWebhooks_def org_permitted_snd Let_def)
qed (use assms in \<open>simp_all add: sendMessage_def getMessages_def markMessagesAsRead_def updateOrganizationSettings_def
  updateOrganizationNotificationSettings_def updateOrganizationNotificationTemplate_def getOrgById_def org_permitted_snd Let_def
  split: option.split sum.split template_lookup.split prod.split\<close>)

interpretation webhook_table: step_invariant "\<lambda>s t. \<exists>env rq. sv_lib env = lib \<and> t = run_site env rq s" "\<lambda>s. \<forall>h\<in>set (si_hooks s). hook_ok lib h" for lib
  by unfold_locales (use run_site_hook_ok in blast)

text \<open>C33. Stored webhooks: starting without webhooks, after any requests in any order every stored webhook has an address
  that the outbound guard accepts as it stands and at least one event type, all of them known.\<close>

theorem stored_webhooks_are_public:
  assumes "si_hooks s = []" "(\<lambda>s t. \<exists>env rq. sv_lib env = lib \<and> t = run_site env rq s)\<^sup>*\<^sup>* s t" "h \<in> set (si_hooks t)"
  shows "is_ok (assertPublicHttpsUrl lib (hk_url h)) \<and> hk_eventTypes h \<noteq> [] \<and> set (hk_eventTypes h) \<subseteq> set hook_types"
  using webhook_table.run_keeps[OF assms(2)] assms(1,3) by (simp add: hook_ok_def)

section \<open>Chat\<close>

lemma newest_first_rev:
  assumes f: "newest_first f" and gs: "sorted_wrt (\<lambda>a b. mg_createdAt a < mg_createdAt b) gs"
  shows "f gs = rev gs"
proof -
  have m: "mset gs = mset (rev (f gs))" "sorted_wrt (\<lambda>a b. mg_createdAt a \<le> mg_createdAt b) (rev (f gs))"
    using f by (simp_all add: newest_first_def sorted_wrt_rev)
  have r: "sorted (map mg_createdAt (rev (f gs)))" using m(2) by (simp only: sorted_wrt_map)
  have "sorted_wrt (<) (map mg_createdAt gs)" using gs by (simp only: sorted_wrt_map)
  then have g: "sorted (map mg_createdAt gs)" "inj_on mg_createdAt (set gs)" by (auto simp: strict_sorted_iff distinct_map)
  have "rev (f gs) = gs"
    using sort_key_inj_key_eq[OF m(1) g(2) r] sort_key_inj_key_eq[OF refl g(2) g(1)] by (rule subst)
  then have "rev (rev (f gs)) = rev gs" by (rule arg_cong)
  then show ?thesis by (simp only: rev_rev_ident)
qed

lemma org_chat_sorted:
  assumes "chat_wf s" shows "sorted_wrt (\<lambda>a b. mg_id a < mg_id b \<and> mg_createdAt a < mg_createdAt b) (org_messages o' s)"
  using assms by (simp add: chat_wf_def org_messages_def sorted_wrt_filter)

lemma org_chat_order:
  assumes "newest_first (sv_order env)" "chat_wf s" shows "sv_order env (org_messages o' s) = rev (org_messages o' s)"
proof -
  have "sorted_wrt (\<lambda>a b. mg_createdAt a < mg_createdAt b) (org_messages o' s)"
    by (rule sorted_wrt_mono_rel[OF _ org_chat_sorted[OF assms(2)]]) simp
  then show ?thesis by (rule newest_first_rev[OF assms(1)])
qed

text \<open>A message keeps the chat well formed when the clock has moved on.\<close>

lemma send_keeps_chat:
  assumes "chat_wf s" "\<forall>g\<in>set (si_messages s). mg_createdAt g < sv_now env"
  shows "chat_wf (snd (sendMessage env c m o' s))"
  using assms by (auto simp: sendMessage_def org_permitted_snd Let_def chat_wf_def sorted_wrt_append)

lemma find_snoc: "find P (xs @ [x]) = (case find P xs of None \<Rightarrow> if P x then Some x else None | Some y \<Rightarrow> Some y)"
  by (induction xs) auto

lemma find_read_upsert:
  "find_read u o' (upsert_read v p k s) = (if u = v \<and> o' = p then Some \<lparr>lr_userId = v, lr_org = p, lr_last = k\<rparr> else find_read u o' s)"
proof (cases "find_read v p s")
  case None
  then show ?thesis by (auto simp: find_read_def upsert_read_def find_snoc split: option.split)
next
  case (Some r)
  have f: "find (\<lambda>r. lr_userId r = u \<and> lr_org r = o') (map (\<lambda>r. if lr_userId r = v \<and> lr_org r = p then r\<lparr>lr_last := k\<rparr> else r) rs)
     = (if u = v \<and> o' = p then map_option (\<lambda>r. r\<lparr>lr_last := k\<rparr>) (find (\<lambda>r. lr_userId r = v \<and> lr_org r = p) rs)
        else find (\<lambda>r. lr_userId r = u \<and> lr_org r = o') rs)" for rs :: "read_row list"
    by (induction rs) auto
  have "lr_userId r = v" "lr_org r = p" using find_Some_mem[OF Some[unfolded find_read_def]] by auto
  then have "r\<lparr>lr_last := k\<rparr> = \<lparr>lr_userId = v, lr_org = p, lr_last = k\<rparr>" by (cases r) simp
  with Some f[of "si_reads s"] show ?thesis by (simp add: find_read_def upsert_read_def)
qed

lemma upsert_read_messages [simp]: "org_messages p (upsert_read u o' k s) = org_messages p s"
  by (simp add: org_messages_def)

lemma latest_message_upsert [simp]: "latest_message env p (upsert_read u o' k s) = latest_message env p s"
  by (simp add: latest_message_def)

lemma site_db_upsert [simp]: "site_db (upsert_read u p k s) = site_db s"
  by (simp add: site_db_def)

lemma latest_is_last:
  assumes "newest_first (sv_order env)" "chat_wf s"
  shows "latest_message env o' s = (if org_messages o' s = [] then None else Some (last (org_messages o' s)))"
proof (cases "org_messages o' s" rule: rev_cases)
  case (snoc gs g)
  then show ?thesis using org_chat_order[OF assms, of o'] by (simp add: latest_message_def)
qed (use org_chat_order[OF assms, of o'] in \<open>simp add: latest_message_def\<close>)

lemma last_id_greatest:
  assumes "chat_wf s" "g \<in> set (org_messages o' s)" shows "mg_id g \<le> mg_id (last (org_messages o' s))"
proof (cases "org_messages o' s" rule: rev_cases)
  case (snoc gs x)
  then show ?thesis using org_chat_sorted[OF assms(1), of o'] assms(2) by (auto simp: sorted_wrt_append)
qed (use assms(2) in simp)

text \<open>Reading the chat: when the clock moves on between messages and the database sorts by it, then after a member
  has marked the messages as read the page shows the newest thirty messages of the organisation, oldest first, all as read, and the
  member has no unread mark for the organisation.\<close>

theorem marked_messages_are_read:
  assumes "newest_first (sv_order env)" "chat_wf s" "checkUserOrganizationRole (site_db s) (ca_id c) o' READ_ONLY = Inr ()"
  shows "let t = snd (markMessagesAsRead env c o' s)
         in fst (getMessages env c o' t) = Inr (map (\<lambda>g. (g, True)) (drop (length (org_messages o' s) - 30) (org_messages o' s)))
            \<and> (o', True) \<notin> set (getOrgNotifications env c t)"
proof (cases "org_messages o' s = []")
  case True
  then have t: "snd (markMessagesAsRead env c o' s) = s" using assms(3) by (simp add: markMessagesAsRead_def org_permitted_snd latest_is_last[OF assms(1,2)])
  show ?thesis using True assms(3) org_chat_order[OF assms(1,2), of o'] unfolding t
    by (auto simp: Let_def getMessages_def org_permitted_def getOrgNotifications_def latest_is_last[OF assms(1,2)])
next
  case False
  let ?k = "mg_id (last (org_messages o' s))" and ?t = "snd (markMessagesAsRead env c o' s)"
  have t: "?t = upsert_read (ca_id c) o' ?k s"
    using assms(3) False by (simp add: markMessagesAsRead_def org_permitted_snd latest_is_last[OF assms(1,2)])
  have r: "find_read (ca_id c) o' ?t = Some \<lparr>lr_userId = ca_id c, lr_org = o', lr_last = ?k\<rparr>" by (simp add: t find_read_upsert)
  have "fst (getMessages env c o' ?t) = Inr (map (\<lambda>g. (g, mg_id g \<le> ?k)) (drop (length (org_messages o' s) - 30) (org_messages o' s)))"
    using assms(3) r by (simp add: t getMessages_def org_permitted_def org_chat_order[OF assms(1,2)] take_rev)
  also have "\<dots> = Inr (map (\<lambda>g. (g, True)) (drop (length (org_messages o' s) - 30) (org_messages o' s)))"
    using last_id_greatest[OF assms(2), of _ o'] by (auto dest: in_set_dropD)
  finally show ?thesis using r False by (auto simp: Let_def t getOrgNotifications_def latest_is_last[OF assms(1,2)])
qed

text \<open>Chat messages reach strangers: every message that a member of an organisation sends is delivered, with its text,
  to every user with a connected socket, also to one who has no role in the organisation.\<close>

theorem strangers_hear_messages:
  assumes "fst (sendMessage env c (Some m) o' s) = Inr g" "k < length (hb_sockets h)" "sk_connected (hb_sockets h ! k)"
    and "find_org_role o' (sk_user (hb_sockets h ! k)) (site_db s) = None"
  shows "(o', g) \<in> set (heard (sk_user (hb_sockets h ! k)) h (snd (sendMessage env c (Some m) o' s))) \<and> mg_content g = m"
proof -
  have "sk_user (hb_sockets h ! k) \<in> set (receivers h)" using assms(2,3) by (auto simp: receivers_def)
  moreover have "(o', g) \<in> set (si_emitted (snd (sendMessage env c (Some m) o' s))) \<and> mg_content g = m"
    using assms(1) by (auto simp: sendMessage_def org_permitted_def Let_def split: if_split_asm sum.split_asm)
  ultimately show ?thesis by (simp add: heard_def)
qed

section \<open>Pages\<close>

lemma count_members_sum:
  "count_members ms ((a, b), (c, d)) =
     (let x = length (filter (\<lambda>m. counted m \<and> m_authorized m = Some True) ms); y = length (filter counted ms) in ((a + x, b + y), (c + x, d + y)))"
  by (induction ms arbitrary: a b c d) (simp_all add: Let_def)

lemma count_networks_sum:
  "count_networks s ns (a, b) =
     (map (\<lambda>n. (n, display_counts (length (authorized_members s n), length (live_members s n)))) ns,
      (a + sum_list (map (\<lambda>n. length (authorized_members s n)) ns), b + sum_list (map (\<lambda>n. length (live_members s n)) ns)))"
  by (induction ns arbitrary: a b) (simp_all add: count_members_sum Let_def authorized_members_def live_members_def conj_commute)

text \<open>The page of an organisation: any member with the lowest role gets it; each network shows its members that are not
  deleted, the total is the sum over the networks, and the rows of all users of the organisation are in the answer with every
  column, password hashes and second-factor secrets included.\<close>

theorem org_page_shows_everything:
  assumes "checkUserOrganizationRole (site_db s) (ca_id c) o' READ_ONLY = Inr ()" "find_org o' (si_org s) = Some g"
  shows "\<exists>p. fst (getOrgById c o' s) = Inr p \<and> op_users p = org_users o' s
     \<and> op_networks p = map (\<lambda>n. (n, display_counts (length (authorized_members s n), length (live_members s n)))) (org_networks o' s)
     \<and> mc_total (op_counts p) = sum_list (map (mc_total \<circ> snd) (op_networks p))
     \<and> mc_authorized (op_counts p) = sum_list (map (mc_authorized \<circ> snd) (op_networks p))"
  using assms by (simp add: getOrgById_def org_permitted_def count_networks_sum Let_def display_counts_def comp_def)

section \<open>Background reconcile\<close>

lemma org_work_mem: "(n, m) \<in> set (org_work o' s) \<longleftrightarrow>
    m \<in> set (site_rows s) \<and> m_nwid m = n \<and> (\<exists>x\<in>set (networks (site_db s)). n_nwid x = n \<and> n_organizationId x = Some o')"
  by (auto simp: org_work_def rows_of_network_def org_networks_def)

lemma map_of_job_update: "map_of (map (\<lambda>j. if fst j = k then (k, v) else j) js) k = map_option (\<lambda>_. v) (map_of js k)"
  by (induction js) auto

lemma erase_member_row_fields [simp]: "si_jobs (erase_member_row m s) = si_jobs s"
  "site_rows (erase_member_row m s) = filter (\<lambda>x. \<not> (m_id x = m_id m \<and> m_nwid x = m_nwid m)) (site_rows s)"
  by (simp_all add: erase_member_row_def Let_def)

lemma reconcile_work:
  assumes "map_of (si_jobs s) o' = Some (w # ws)"
  shows "map_of (si_jobs (reconcile_step env o' s)) o' = Some ws"
    and "site_rows (reconcile_step env o' s) = filter (\<lambda>x. \<not> (missing_member env w \<and> m_id x = m_id (snd w) \<and> m_nwid x = m_nwid (snd w))) (site_rows s)"
  using assms by (simp_all add: reconcile_step_def Let_def map_of_job_update)

lemma reconcile_run:
  assumes "map_of (si_jobs s) o' = Some ws"
  shows "map_of (si_jobs ((reconcile_step env o' ^^ length ws) s)) o' = Some []
    \<and> site_rows ((reconcile_step env o' ^^ length ws) s)
        = filter (\<lambda>x. \<not> (\<exists>w\<in>set ws. missing_member env w \<and> m_id x = m_id (snd w) \<and> m_nwid x = m_nwid (snd w))) (site_rows s)"
  using assms
proof (induction ws arbitrary: s)
  case (Cons w ws)
  have "(reconcile_step env o' ^^ length (w # ws)) s = (reconcile_step env o' ^^ length ws) (reconcile_step env o' s)"
    by (simp add: funpow_swap1)
  then show ?case using Cons.IH[OF reconcile_work(1)[OF Cons.prems]] reconcile_work(2)[OF Cons.prems, of env] by (auto intro: filter_cong)
qed simp

lemma reconcile_last:
  assumes "map_of (si_jobs s) o' = Some []"
  shows "o' \<notin> fst ` set (si_jobs (reconcile_step env o' s))" "site_rows (reconcile_step env o' s) = site_rows s"
  using assms by (auto simp: reconcile_step_def)

lemma missing_key:
  assumes "distinct (map (\<lambda>m. (m_id m, m_nwid m)) rows)" "x \<in> set rows" "m \<in> set rows" "m_id x = m_id m" "m_nwid x = m_nwid m"
  shows "x = m"
  using assms by (auto simp: distinct_map inj_on_def)

lemma org_work_missing:
  assumes "distinct (map (\<lambda>m. (m_id m, m_nwid m)) (site_rows s))" "m \<in> set (site_rows s)"
  shows "(\<exists>w\<in>set (org_work o' s). missing_member env w \<and> m_id m = m_id (snd w) \<and> m_nwid m = m_nwid (snd w))
      \<longleftrightarrow> missing_member env (m_nwid m, m) \<and> of_org o' s m" (is "?l \<longleftrightarrow> ?r")
proof
  assume ?l
  then obtain n y where y: "(n, y) \<in> set (org_work o' s)" "missing_member env (n, y)" "m_id m = m_id y" "m_nwid m = m_nwid y" by auto
  then have "y \<in> set (site_rows s)" "m_nwid y = n" by (simp_all add: org_work_mem)
  moreover from this have "m = y" using missing_key[OF assms] y(3,4) by blast
  ultimately show ?r using y(1,2) by (simp add: org_work_mem of_org_def)
next
  assume ?r
  then have "(m_nwid m, m) \<in> set (org_work o' s)" "missing_member env (m_nwid m, m)" using assms(2) by (simp_all add: org_work_mem of_org_def)
  then show ?l by force
qed

text \<open>The background reconcile of an organisation: when a member opens the page and none is under way, then after one
  step per member row and a last one the reconcile is over, and it has removed exactly the rows of the organisation's networks that are
  not deleted and that the controller answers 404 for.\<close>

theorem reconcile_removes_the_missing:
  assumes "checkUserOrganizationRole (site_db s) (ca_id c) o' READ_ONLY = Inr ()" "find_org o' (si_org s) = Some g"
    and "o' \<notin> fst ` set (si_jobs s)" "distinct (map (\<lambda>m. (m_id m, m_nwid m)) (site_rows s))"
  shows "let t = (reconcile_step env o' ^^ Suc (length (org_work o' s))) (snd (getOrgById c o' s))
    in o' \<notin> fst ` set (si_jobs t) \<and> site_rows t = filter (\<lambda>m. \<not> (missing_member env (m_nwid m, m) \<and> of_org o' s m)) (site_rows s)"
proof -
  let ?p = "snd (getOrgById c o' s)" and ?n = "length (org_work o' s)"
  define u where "u = (reconcile_step env o' ^^ ?n) ?p"
  have p: "?p = s\<lparr>si_jobs := si_jobs s @ [(o', org_work o' s)]\<rparr>"
    using assms(1-3) by (simp add: getOrgById_def org_permitted_snd Let_def count_networks_sum org_work_def start_reconcile_def)
  have "map_of (si_jobs s) o' = None" using assms(3) by (simp add: map_of_eq_None_iff)
  then have j: "map_of (si_jobs ?p) o' = Some (org_work o' s)" by (simp add: p map_add_def)
  have u: "map_of (si_jobs u) o' = Some []"
    "site_rows u = filter (\<lambda>m. \<not> (\<exists>w\<in>set (org_work o' s). missing_member env w \<and> m_id m = m_id (snd w) \<and> m_nwid m = m_nwid (snd w))) (site_rows s)"
    using reconcile_run[OF j, of env] unfolding u_def[symmetric] by (simp_all add: p)
  have "site_rows u = filter (\<lambda>m. \<not> (missing_member env (m_nwid m, m) \<and> of_org o' s m)) (site_rows s)"
    unfolding u(2) by (rule filter_cong[OF refl]) (simp only: org_work_missing[OF assms(4)])
  then show ?thesis using reconcile_last[OF u(1), of env] by (simp add: Let_def u_def[symmetric])
qed

section \<open>Templates\<close>

lemma find_settings_upsert:
  assumes "\<And>r. se_org (f r) = se_org r" "fst (upsert_settings o' f s) = Inr u"
  shows "find_settings o' (snd (upsert_settings o' f s)) = Some (f (case find_settings o' s of None \<Rightarrow> default_settings o' | Some r \<Rightarrow> r))"
proof (cases "find_settings o' s")
  case None
  then show ?thesis using assms by (auto simp: upsert_settings_def find_settings_def find_snoc default_settings_def split: if_split_asm)
next
  case (Some r)
  have "find (\<lambda>r. se_org r = o') (map (\<lambda>r. if se_org r = o' then f r else r) rs) = map_option f (find (\<lambda>r. se_org r = o') rs)" for rs
    using assms(1) by (induction rs) auto
  then show ?thesis using Some by (simp add: upsert_settings_def find_settings_def)
qed

text \<open>Notification templates: a template that an administrator has saved for a known type, and that the database stores
  as it is, is what the template query then returns unless it is an empty value, and every other type of the organisation keeps
  its answer.\<close>

theorem template_round_trip:
  assumes "fst (updateOrganizationNotificationTemplate env c o' t text' s) = Inr ()" "sv_parse env text' = Some v" "sv_column env v = Some v"
    and "json_truthy v"
  shows "fst (getOrganizationNotificationTemplate c o' t (snd (updateOrganizationNotificationTemplate env c o' t text' s))) = Inr (Template v)
     \<and> (templateFieldMap t' \<noteq> templateFieldMap t \<longrightarrow>
          fst (getOrganizationNotificationTemplate c o' t' (snd (updateOrganizationNotificationTemplate env c o' t text' s)))
            = fst (getOrganizationNotificationTemplate c o' t' s))"
proof -
  let ?f = "\<lambda>k r. r\<lparr>se_templates := (se_templates r)(k \<mapsto> v)\<rparr>"
  have ok: "checkUserOrganizationRole (site_db s) (ca_id c) o' ADMIN = Inr ()"
    using assms(1) by (auto simp: updateOrganizationNotificationTemplate_def org_permitted_def split: sum.split_asm)
  obtain k where k: "templateFieldMap t = Own k"
    using assms ok by (auto simp: updateOrganizationNotificationTemplate_def org_permitted_def split: template_lookup.split_asm)
  have u: "updateOrganizationNotificationTemplate env c o' t text' s = upsert_settings o' (?f k) s"
    using assms(2,3) ok k by (simp add: updateOrganizationNotificationTemplate_def org_permitted_def)
  have r: "find_settings o' (snd (upsert_settings o' (?f k) s)) = Some (?f k (case find_settings o' s of None \<Rightarrow> default_settings o' | Some r \<Rightarrow> r))"
    using find_settings_upsert[of "?f k" o' s "()"] assms(1) u by simp
  have d: "site_db (snd (upsert_settings o' (?f k) s)) = site_db s" by (simp add: site_db_def)
  show ?thesis unfolding u using ok k r assms(4)
    by (auto simp: getOrganizationNotificationTemplate_def org_permitted_def d default_settings_def split: template_lookup.split option.split)
qed

text \<open>Names that every object inherits pass the test of the template type.\<close>

lemma inherited_names_are_types:
  assumes "checkUserOrganizationRole (site_db s) (ca_id c) o' ADMIN = Inr ()"
  shows "fst (getOrganizationNotificationTemplate c o' ''constructor'' s) = Inr PrototypeValue"
  using assms by (simp add: getOrganizationNotificationTemplate_def org_permitted_def templateFieldMap_def template_fields_def object_prototype_def)

section \<open>Deletion\<close>

lemma network_deleted_view:
  assumes "net_view n (site_net t) = net_view n (site_net s)" "network_deleted n s" shows "network_deleted n t"
proof -
  have "filter (\<lambda>x. n_nwid x = n) (networks (site_db t)) = filter (\<lambda>x. n_nwid x = n) (networks (site_db s))"
    "filter (\<lambda>c. net_call_network c = n) (nt_calls (si_net t)) = filter (\<lambda>c. net_call_network c = n) (nt_calls (si_net s))"
    using assms(1) by (simp_all add: net_view_def)
  moreover have "NetworkDelete False n \<in> set (filter (\<lambda>c. net_call_network c = n) (nt_calls (si_net s)))"
    using assms(2) by (simp add: network_deleted_def)
  ultimately have "NetworkDelete False n \<in> set (filter (\<lambda>c. net_call_network c = n) (nt_calls (si_net t)))"
    "filter (\<lambda>x. n_nwid x = n) (networks (site_db t)) = []" using assms(2) by (simp_all only: network_deleted_def)
  then show ?thesis by (simp only: network_deleted_def) simp
qed

lemma delete_network_site:
  assumes "fst (net_call_site (deleteNetwork env (Some p) False False n) s) = Inr u"
  shows "network_deleted n (snd (net_call_site (deleteNetwork env (Some p) False False n) s))"
proof -
  let ?t = "snd (net_call_site (deleteNetwork env (Some p) False False n) s)" and ?d = "snd (deleteNetwork env (Some p) False False n (site_net s))"
  have "fst (deleteNetwork env (Some p) False False n (site_net s)) = Inr u" using assms by (simp add: net_call_site_def split: prod.split_asm)
  then have "delete_network env (Some p) False False n (site_net s) = (Inr u, ?d)"
    by (auto simp: deleteNetwork_def net_permitted_def prod_eq_iff split: sum.split_asm sum.split)
  from delete_network_done[OF this] have d: "network_gone n ?d" "NetworkDelete False n \<in> set (nt_calls ?d)" by auto
  have "site_net ?t = ?d" by simp
  then have "site_db ?t = nt_db ?d" "nt_calls (si_net ?t) = nt_calls ?d" by (metis site_net_fields(1), metis site_net_fields(3))
  moreover have "filter (\<lambda>x. n_nwid x = n) (networks (nt_db ?d)) = []"
    using d(1) by (simp add: network_gone_def find_network_def find_None_iff filter_empty_conv)
  ultimately show ?thesis using d(2) by (simp add: network_deleted_def)
qed

lemma delete_networks_done:
  assumes "fst (delete_networks env p ns s) = Inr u"
  shows "(\<forall>n\<in>set ns. network_deleted n (snd (delete_networks env p ns s)))
    \<and> (\<forall>n. n \<notin> set ns \<longrightarrow> net_view n (site_net (snd (delete_networks env p ns s))) = net_view n (site_net s))"
  using assms
proof (induction ns arbitrary: s)
  case (Cons n ns)
  let ?m = "net_call_site (deleteNetwork env (Some p) False False n) s"
  obtain x where x: "fst ?m = Inr x" using Cons.prems by (cases "fst ?m") (simp_all add: sbind_cases)
  then have r: "delete_networks env p (n # ns) s = delete_networks env p ns (snd ?m)" by (simp add: sbind_cases)
  note ih = Cons.IH[of "snd ?m", folded r, OF Cons.prems]
  have o: "net_view k (site_net (snd ?m)) = net_view k (site_net s)" if "k \<noteq> n" for k
    using delete_outside[of n "site_net s" env "Some p" False False] that by (simp add: outside_def)
  have "network_deleted n (snd (delete_networks env p (n # ns) s))"
    using ih network_deleted_view[OF _ delete_network_site[OF x]] by (cases "n \<in> set ns") blast+
  then show ?case using ih o by simp
qed simp

lemma org_networks_nwid: "n \<in> set (networks (site_db s)) \<Longrightarrow> n_organizationId n = Some o' \<Longrightarrow> n_nwid n \<in> set (map n_nwid (org_networks o' s))"
  by (simp add: org_networks_def)

lemma delete_networks_all:
  assumes "fst (delete_networks env p (map n_nwid (org_networks p s)) s) = Inr u"
  shows "org_networks p (snd (delete_networks env p (map n_nwid (org_networks p s)) s)) = []"
proof (rule ccontr)
  let ?t = "snd (delete_networks env p (map n_nwid (org_networks p s)) s)"
  assume "org_networks p ?t \<noteq> []"
  then obtain x where "x \<in> set (org_networks p ?t)" by (meson last_in_set)
  then have x: "x \<in> set (networks (site_db ?t))" "n_organizationId x = Some p" by (simp_all add: org_networks_def)
  note d = delete_networks_done[OF assms]
  show False
  proof (cases "n_nwid x \<in> set (map n_nwid (org_networks p s))")
    case True
    then have "network_deleted (n_nwid x) ?t" using d by blast
    then show False using x(1) by (auto simp: network_deleted_def filter_empty_conv)
  next
    case False
    then have "net_view (n_nwid x) (site_net ?t) = net_view (n_nwid x) (site_net s)" using d by blast
    then have "filter (\<lambda>y. n_nwid y = n_nwid x) (networks (site_db ?t)) = filter (\<lambda>y. n_nwid y = n_nwid x) (networks (site_db s))"
      by (simp add: net_view_def)
    then have "x \<in> set (filter (\<lambda>y. n_nwid y = n_nwid x) (networks (site_db s)))" using x(1) by (simp flip: \<open>filter _ (networks (site_db ?t)) = _\<close>)
    then show False using False org_networks_nwid[of x s p] x(2) by auto
  qed
qed

lemma erase_without_networks:
  assumes "org_networks p t = []"
  shows "site_net (erase_org p t) = (site_net t)\<lparr>nt_db := (site_db t)\<lparr>org_roles := filter (\<lambda>r. or_organizationId r \<noteq> p) (org_roles (site_db t))\<rparr>,
       nt_log := filter (\<lambda>l. lg_org l \<noteq> Some p) (os_log (si_org t))\<rparr>"
  using assms by (simp add: erase_org_def cascade_networks_def net_call_site_def site_net_def site_db_def Let_def)

lemma erase_net_view: "org_networks p t = [] \<Longrightarrow> net_view n (site_net (erase_org p t)) = net_view n (site_net t)"
  by (simp add: erase_without_networks net_view_def meta_of_def)

lemma erase_gone:
  assumes "org_networks p t = []"
  shows "find_org p (si_org (erase_org p t)) = None" "org_networks p (erase_org p t) = []"
    "filter (\<lambda>r. or_organizationId r = p) (org_roles (site_db (erase_org p t))) = []"
    "filter (\<lambda>l. lg_org l = Some p) (os_log (si_org (erase_org p t))) = []"
    "org_view_of p (erase_org p t) = \<lparr>ov_messages = [], ov_reads = [], ov_hooks = [], ov_settings = []\<rparr>"
    "nt_calls (si_net (erase_org p t)) = nt_calls (si_net t)"
proof -
  have n: "site_net (erase_org p t) = (site_net t)\<lparr>nt_db := (site_db t)\<lparr>org_roles := filter (\<lambda>r. or_organizationId r \<noteq> p) (org_roles (site_db t))\<rparr>,
       nt_log := filter (\<lambda>l. lg_org l \<noteq> Some p) (os_log (si_org t))\<rparr>" by (rule erase_without_networks[OF assms])
  have d: "site_db (erase_org p t) = (site_db t)\<lparr>org_roles := filter (\<lambda>r. or_organizationId r \<noteq> p) (org_roles (site_db t))\<rparr>"
    using arg_cong[OF n, of nt_db] by simp
  show "org_networks p (erase_org p t) = []" using assms by (simp add: org_networks_def d)
  show "filter (\<lambda>r. or_organizationId r = p) (org_roles (site_db (erase_org p t))) = []" by (simp add: d filter_empty_conv)
  show "filter (\<lambda>l. lg_org l = Some p) (os_log (si_org (erase_org p t))) = []" using arg_cong[OF n, of nt_log] by (simp add: filter_empty_conv)
  show "nt_calls (si_net (erase_org p t)) = nt_calls (si_net t)" using arg_cong[OF n, of nt_calls] by simp
  show "find_org p (si_org (erase_org p t)) = None" by (auto simp: erase_org_def Let_def find_org_def find_None_iff)
  show "org_view_of p (erase_org p t) = \<lparr>ov_messages = [], ov_reads = [], ov_hooks = [], ov_settings = []\<rparr>"
    by (auto simp: org_view_of_def org_messages_def erase_org_def Let_def filter_empty_conv)
qed

text \<open>Deleting the networks of an organisation writes to no organisation table but its own log.\<close>

lemma delete_log:
  assumes "q \<noteq> p"
  shows "filter (\<lambda>l. lg_org l = Some q) (nt_log (snd (deleteNetwork env (Some p) central override n s))) = filter (\<lambda>l. lg_org l = Some q) (nt_log s)"
proof -
  let ?P = "\<lambda>t. filter (\<lambda>l. lg_org l = Some q) (nt_log t) = filter (\<lambda>l. lg_org l = Some q) (nt_log s)"
  have d: "?P t \<Longrightarrow> ?P (snd (deauthorize env central n ids t))" for ids t
    by (induction ids arbitrary: t) (simp_all add: Let_def net_send_def)
  have r: "?P t \<Longrightarrow> ?P (snd (delete_rows env (Some p) central override n t))" for t
    by (simp add: delete_rows_def deleteMany_def drop_network_def Let_def)
  have l: "?P t \<Longrightarrow> ?P (snd (net_log env (Some p) a (\<lambda>s. (Inr (), s)) t))" for a t
    using assms by (simp add: net_log_def)
  have "?P (snd (delete_network env (Some p) central override n s))"
    unfolding delete_network_def
    by (auto intro!: sbind_keeps[of ?P] d r l simp: net_send_def split: option.split)
  then show ?thesis by (cases override) (simp_all add: deleteNetwork_def net_permitted_snd)
qed

lemma call_tables [simp]:
  "os_members (si_org (snd (net_call_site f s))) = os_members (si_org s)"
  "os_orgInvites (si_org (snd (net_call_site f s))) = os_orgInvites (si_org s)"
  "os_invitations (si_org (snd (net_call_site f s))) = os_invitations (si_org s)"
  "os_log (si_org (snd (net_call_site f s))) = nt_log (snd (f (site_net s)))"
  by (simp_all add: net_call_site_def split: prod.split)

definition same_tables :: "string \<Rightarrow> site \<Rightarrow> site \<Rightarrow> bool" where
  "same_tables p s t \<longleftrightarrow> (\<forall>q. q \<noteq> p \<longrightarrow> org_rows_of q t = org_rows_of q s) \<and> os_invitations (si_org t) = os_invitations (si_org s)
     \<and> si_hooks t = si_hooks s"

lemma delete_network_tables: "same_tables p s (snd (net_call_site (deleteNetwork env (Some p) False False n) s))"
  using outside_roles[OF delete_outside, of env "Some p" False False n "site_net s"]
  by (simp add: same_tables_def org_rows_of_def delete_log site_db_call)

lemma delete_networks_tables: "same_tables p s (snd (delete_networks env p ns s))"
proof (induction ns arbitrary: s)
  case (Cons n ns)
  let ?m = "net_call_site (deleteNetwork env (Some p) False False n) s"
  have m: "same_tables p s (snd ?m)" by (rule delete_network_tables)
  have tr: "same_tables p (snd ?m) t \<Longrightarrow> same_tables p s t" for t using m by (simp add: same_tables_def)
  show ?case
  proof (cases "fst ?m")
    case (Inl e)
    then show ?thesis using m by (simp add: sbind_cases)
  next
    case (Inr u)
    then show ?thesis using tr[OF Cons] by (simp add: sbind_cases)
  qed
qed (simp add: same_tables_def)

lemma erase_tables:
  assumes "org_networks p t = []"
  shows "org_rows_of p (erase_org p t) = \<lparr>ow_orgs = [], ow_members = [], ow_invites = [], ow_roles = [], ow_log = []\<rparr>"
    and "q \<noteq> p \<Longrightarrow> org_rows_of q (erase_org p t) = org_rows_of q t"
    and "os_invitations (si_org (erase_org p t)) = os_invitations (si_org t)"
    and "si_hooks (erase_org p t) = map (\<lambda>h. if hk_org h = Some p then h\<lparr>hk_org := None\<rparr> else h) (si_hooks t)"
proof -
  have c: "si_org (cascade_networks p t) = si_org t"
    using assms by (simp add: cascade_networks_def net_call_site_def site_net_def site_db_def)
  have d: "si_org (erase_org p t) = (si_org t)\<lparr>os_db := (os_db (si_org t))\<lparr>org_roles := filter (\<lambda>r. or_organizationId r \<noteq> p) (org_roles (os_db (si_org t)))\<rparr>,
      os_orgs := filter (\<lambda>r. og_id r \<noteq> p) (os_orgs (si_org t)), os_members := filter (\<lambda>m. snd m \<noteq> p) (os_members (si_org t)),
      os_orgInvites := filter (\<lambda>v. oi_organizationId v \<noteq> p) (os_orgInvites (si_org t)),
      os_log := filter (\<lambda>l. lg_org l \<noteq> Some p) (os_log (si_org t))\<rparr>"
    by (simp add: erase_org_def Let_def c)
  have k: "site_db (erase_org p t) = (site_db t)\<lparr>org_roles := filter (\<lambda>r. or_organizationId r \<noteq> p) (org_roles (site_db t))\<rparr>"
    by (simp add: site_db_def d)
  show "org_rows_of p (erase_org p t) = \<lparr>ow_orgs = [], ow_members = [], ow_invites = [], ow_roles = [], ow_log = []\<rparr>"
    unfolding org_rows_of_def k by (simp add: d filter_empty_conv)
  show "q \<noteq> p \<Longrightarrow> org_rows_of q (erase_org p t) = org_rows_of q t"
    unfolding org_rows_of_def k by (simp add: d filter_other_key del: filter_filter)
  show "os_invitations (si_org (erase_org p t)) = os_invitations (si_org t)" by (simp add: d)
  show "si_hooks (erase_org p t) = map (\<lambda>h. if hk_org h = Some p then h\<lparr>hk_org := None\<rparr> else h) (si_hooks t)"
    by (simp add: erase_org_def Let_def)
qed

text \<open>C36. Deleting an organisation: it succeeds only for its owner, and every network of the organisation has then been deleted
  on the controller. No row of the organisation is left in the tables of organisations, memberships, invitation links, roles,
  logs, networks, messages, read marks and settings; its webhooks stay in their table, detached from any organisation. The rows
  of every other organisation in these tables, every other webhook, all invitations and every other network with its routes and
  members are as before.\<close>

theorem org_deletion_is_complete:
  assumes "fst (deleteOrg env session c o' s) = Inr ()"
  shows "let t = snd (deleteOrg env session c o' s)
    in map_option og_ownerId (find_org o' (si_org s)) = Some (ca_id c)
     \<and> list_all (\<lambda>n. NetworkDelete False (n_nwid n) \<in> set (nt_calls (si_net t))) (org_networks o' s)
     \<and> org_networks o' t = []
     \<and> org_rows_of o' t = \<lparr>ow_orgs = [], ow_members = [], ow_invites = [], ow_roles = [], ow_log = []\<rparr>
     \<and> org_view_of o' t = \<lparr>ov_messages = [], ov_reads = [], ov_hooks = [], ov_settings = []\<rparr>
     \<and> (\<forall>n. n \<notin> n_nwid ` set (org_networks o' s) \<longrightarrow> net_view n (site_net t) = net_view n (site_net s))
     \<and> (\<forall>p. p \<noteq> o' \<longrightarrow> org_rows_of p t = org_rows_of p s \<and> org_view_of p t = org_view_of p s)
     \<and> os_invitations (si_org t) = os_invitations (si_org s)
     \<and> si_hooks t = map (\<lambda>h. if hk_org h = Some o' then h\<lparr>hk_org := None\<rparr> else h) (si_hooks s)"
proof -
  let ?r = "delete_networks (caller_env env c s) o' (map n_nwid (org_networks o' s)) s"
  have own: "map_option og_ownerId (find_org o' (si_org s)) = Some (ca_id c)"
    and d: "deleteOrg env session c o' s = sbind ?r (\<lambda>_ s1. (Inr (), erase_org o' s1))"
    using assms by (auto simp: deleteOrg_def org_permitted_def split: sum.split_asm if_split_asm)
  obtain x where r: "fst ?r = Inr x" using assms unfolding d by (cases "fst ?r") (simp_all add: sbind_cases)
  then have t: "snd (deleteOrg env session c o' s) = erase_org o' (snd ?r)" unfolding d by (simp add: sbind_cases)
  note a = delete_networks_all[OF r] and done' = delete_networks_done[OF r]
  have "\<forall>n\<in>set (org_networks o' s). NetworkDelete False (n_nwid n) \<in> set (nt_calls (si_net (snd ?r)))"
    using done' by (auto simp: network_deleted_def)
  moreover have "net_view n (site_net (snd ?r)) = net_view n (site_net s)" if "n \<notin> n_nwid ` set (org_networks o' s)" for n
    using done' that by simp
  moreover have "same_tables o' s (snd ?r)" by (rule delete_networks_tables)
  ultimately show ?thesis unfolding t Let_def
    using own erase_gone(2,5,6)[OF a] erase_tables[OF a] erase_net_view[OF a]
    by (simp add: list_all_iff erase_view delete_networks_view same_tables_def del: delete_networks_fields)
qed

text \<open>The rows of its webhooks stay in the table.\<close>

lemma deleted_org_keeps_hooks: "length (si_hooks (snd (deleteOrg env session c o' s))) = length (si_hooks s)"
proof -
  have "length (si_hooks (erase_org o' t)) = length (si_hooks t)" for t by (simp add: erase_org_def Let_def)
  then show ?thesis using deleteOrg_snd[of env session c o' s] by auto
qed

section \<open>Instances\<close>

theorem org_tables_stay_scoped_witness:
  "\<exists>u r. rq_claim (RMark site_reader ''o1'') = Some (u, ''o1'', r) \<and> checkUserOrganizationRole (site_db site_demo) u ''o1'' r = Inr ()"
proof -
  let ?t = "fold (\<lambda>(env, rq). run_site env rq) [(site_demo_env, RMark site_reader ''o1'')] site_demo"
  have d: "distinct (map hk_id (si_hooks site_demo))" by code_simp
  have "ov_reads (org_view_of ''o1'' ?t) \<noteq> ov_reads (org_view_of ''o1'' site_demo)" by code_simp
  then have "org_view_of ''o1'' ?t \<noteq> org_view_of ''o1'' site_demo" by auto
  from org_tables_stay_scoped[OF d this] show ?thesis by auto
qed

theorem stored_webhooks_are_public_witness:
  "is_ok (assertPublicHttpsUrl demo_net (hk_url (hd (si_hooks (run_site site_demo_env (RHookAdd site_admin ''o1'' site_hook) site_demo)))))"
proof -
  let ?t = "run_site site_demo_env (RHookAdd site_admin ''o1'' site_hook) site_demo"
  have s: "si_hooks site_demo = []" by (simp add: site_demo_def)
  have r: "(\<lambda>s t. \<exists>env rq. sv_lib env = demo_net \<and> t = run_site env rq s)\<^sup>*\<^sup>* site_demo ?t"
    by (rule r_into_rtranclp) (intro exI[of _ site_demo_env] exI[of _ "RHookAdd site_admin ''o1'' site_hook"], simp add: site_demo_env_def)
  have "map hk_id (si_hooks ?t) = [''w1'']" by code_simp
  then have "hd (si_hooks ?t) \<in> set (si_hooks ?t)" by (intro hd_in_set) auto
  from stored_webhooks_are_public[OF s r this] show ?thesis by simp
qed

lemma demo_newest_first: "newest_first (sv_order site_demo_env)"
proof -
  have "sorted_wrt (\<lambda>a b. mg_createdAt a \<ge> mg_createdAt b) (rev (sort_key mg_createdAt gs))" for gs :: "message_row list"
    using sorted_sort_key[of mg_createdAt gs] by (simp add: sorted_wrt_rev sorted_wrt_map)
  then show ?thesis by (simp add: newest_first_def site_demo_env_def)
qed

lemma demo_chat_wf: "chat_wf site_demo"
  by (simp add: chat_wf_def site_demo_def)

lemma demo_reader: "checkUserOrganizationRole (site_db site_demo) (ca_id site_reader) ''o1'' READ_ONLY = Inr ()"
  by code_simp

theorem marked_messages_are_read_witness:
  "fst (getMessages site_demo_env site_reader ''o1'' (snd (markMessagesAsRead site_demo_env site_reader ''o1'' site_demo)))
     = Inr (map (\<lambda>g. (g, True)) (si_messages site_demo))"
proof -
  have "org_messages ''o1'' site_demo = si_messages site_demo" "length (si_messages site_demo) = 2"
    by (simp_all add: org_messages_def site_demo_def)
  then show ?thesis using marked_messages_are_read[OF demo_newest_first demo_chat_wf demo_reader] by (simp add: Let_def)
qed

theorem strangers_hear_messages_witness:
  "\<exists>g. (''o1'', g) \<in> set (heard ''u3'' site_demo_hub (snd (sendMessage site_demo_env site_admin (Some ''secret'') ''o1'' site_demo))) \<and> mg_content g = ''secret''"
proof -
  have "is_ok (fst (sendMessage site_demo_env site_admin (Some ''secret'') ''o1'' site_demo))" by code_simp
  then obtain g where g: "fst (sendMessage site_demo_env site_admin (Some ''secret'') ''o1'' site_demo) = Inr g" by (auto simp: is_ok_iff)
  have h: "0 < length (hb_sockets site_demo_hub)" "sk_connected (hb_sockets site_demo_hub ! 0)" "sk_user (hb_sockets site_demo_hub ! 0) = ''u3''"
    by (simp_all add: site_demo_hub_def)
  have "find_org_role ''o1'' (sk_user (hb_sockets site_demo_hub ! 0)) (site_db site_demo) = None" by code_simp
  from strangers_hear_messages[OF g h(1,2) this] show ?thesis unfolding h(3) by blast
qed

lemma demo_org: "find_org ''o1'' (si_org site_demo) = Some \<lparr>og_id = ''o1'', og_name = ''org'', og_description = None, og_ownerId = ''u1''\<rparr>"
  by (simp add: site_demo_def find_org_def)

theorem org_page_shows_everything_witness:
  "\<exists>p. fst (getOrgById site_reader ''o1'' site_demo) = Inr p \<and> op_users p = [demo_user ''u1'' ADMIN, demo_user ''u2'' USER]"
proof -
  have "org_users ''o1'' site_demo = [demo_user ''u1'' ADMIN, demo_user ''u2'' USER]"
    by (simp add: org_users_def site_demo_def site_db_def demo_user_def)
  then show ?thesis using org_page_shows_everything[OF demo_reader demo_org] by auto
qed

theorem reconcile_removes_the_missing_witness:
  "site_rows ((reconcile_step site_demo_env ''o1'' ^^ Suc (length (org_work ''o1'' site_demo))) (snd (getOrgById site_reader ''o1'' site_demo))) = []"
proof -
  have j: "''o1'' \<notin> fst ` set (si_jobs site_demo)" and d: "distinct (map (\<lambda>m. (m_id m, m_nwid m)) (site_rows site_demo))"
    by (simp_all add: site_demo_def)
  have "filter (\<lambda>m. \<not> (missing_member site_demo_env (m_nwid m, m) \<and> of_org ''o1'' site_demo m)) (site_rows site_demo) = []" by code_simp
  then show ?thesis using reconcile_removes_the_missing[OF demo_reader demo_org j d, of site_demo_env] by (simp only: Let_def)
qed

theorem template_round_trip_witness:
  "fst (getOrganizationNotificationTemplate site_admin ''o1'' ''userAdded''
     (snd (updateOrganizationNotificationTemplate site_demo_env site_admin ''o1'' ''userAdded'' ''x'' site_demo))) = Inr (Template (js_value.JText ''x''))"
proof -
  have "fst (updateOrganizationNotificationTemplate site_demo_env site_admin ''o1'' ''userAdded'' ''x'' site_demo) = Inr ()" by code_simp
  from template_round_trip[OF this, of "js_value.JText ''x''"] show ?thesis by (simp add: site_demo_env_def)
qed

theorem org_deletion_is_complete_witness:
  "NetworkDelete False ''n1'' \<in> set (nt_calls (si_net (snd (deleteOrg site_demo_env (Some \<lparr>s_userId = ''u1'', s_role = ADMIN\<rparr>) site_admin ''o1'' site_demo))))"
proof -
  have "fst (deleteOrg site_demo_env (Some \<lparr>s_userId = ''u1'', s_role = ADMIN\<rparr>) site_admin ''o1'' site_demo) = Inr ()" by code_simp
  moreover have "map n_nwid (org_networks ''o1'' site_demo) = [''n1'']" by code_simp
  ultimately show ?thesis using org_deletion_is_complete[of site_demo_env "Some \<lparr>s_userId = ''u1'', s_role = ADMIN\<rparr>" site_admin "''o1''" site_demo]
    by (auto simp: Let_def list_all_iff)
qed

end
