(* ===== verification/Spec2Isabelle.thy ===== *)
theory Spec2Isabelle
  imports Login_Guard Live_Sockets Outbound_Guard Edge_Config Accounts Network_Procedures Second_Factor Rest_Api Api_Tokens Org_Hub
begin

text \<open>
  \<^bold>\<open>A verification development for the ZeroTier planet management server.\<close>

  \<^bold>\<open>The program.\<close> \<^verbatim>\<open>src/services/ztnet\<close> is a Next.js server around a ZeroTier controller: people sign in,
  create networks, share them in organisations and watch their members. The controller owns the networks;
  the server keeps a PostgreSQL cache of routes and members, decides who may do what, and tells people what
  happened. The parts interact through the database: sign-in and registration write users that every guard
  reads; the member reconcile writes rows that the observation, the notification queue and the live views
  read; organisation procedures write roles that the guards of networks and of the REST interface read.

  \<^bold>\<open>Conventions.\<close> A database table is the list of its rows and a row is a record; a failing call is \<open>Inl\<close> with the
  error the code throws; an operation that commits before it throws returns the error and the state side by
  side. Times are integers in milliseconds, Prisma's 32-bit columns and JavaScript's shifts are written out
  where a value can leave their range, strings are ASCII character lists except in notification texts, which
  are lists of UTF-16 code units. Code outside the repository (bcrypt, JSON and URL parsers, ip-address, DNS,
  the cache package, the controller, the mailer) is a parameter, an argument or a record of functions, and
  what a property needs of it is a named hypothesis. Interleaving is a step relation over the separately
  committed parts of a request; the locale \<open>step_invariant\<close> of the prelude carries its invariants and is
  interpreted for every such relation.

  \<^bold>\<open>The theories, in the order of their imports.\<close>
  \<^item> \<open>Ztnet_Prelude\<close>: results, searching lists, JavaScript sets, the locale of step relations.
  \<^item> \<open>JS_Values\<close>: truthiness, trimming, splitting, \<^verbatim>\<open>Number\<close> and \<^verbatim>\<open>parseInt\<close>, decimal numbers.
  \<^item> \<open>Ip_Tools\<close>: \<^verbatim>\<open>server/api/utils/ipUtils.ts\<close>, \<^verbatim>\<open>utils/IPv4gen.ts\<close>, \<^verbatim>\<open>utils/isIpInsubnet.ts\<close>, \<^verbatim>\<open>utils/IPv6.ts\<close>.
    Subnet tests are prefix matching, generated pools lie inside their route, the next address is free,
    addresses round-trip. 32-bit arithmetic is on words.
  \<^item> \<open>Routes_Sync\<close>: \<^verbatim>\<open>server/api/services/routesService.ts\<close>. The plan, its transaction and the shared in-flight
    promise; a sync makes the rows mirror the controller and only one runs per network.
  \<^item> \<open>Ztnet_DB\<close>, \<open>Access_Control\<close>: the account tables and every guard (\<^verbatim>\<open>utils/role.ts\<close>, \<^verbatim>\<open>utils/networkAccess.ts\<close>,
    \<^verbatim>\<open>utils/apiRouteAuth.ts\<close>, \<^verbatim>\<open>utils/encryption.ts\<close>, \<^verbatim>\<open>server/api/trpc.ts\<close>, \<^verbatim>\<open>lib/activeSession.ts\<close>).
  \<^item> \<open>Login_Guard\<close>: \<^verbatim>\<open>lib/auth.ts\<close>. Lockout, second factor, sessions, the first administrator, password policy.
    The sign-in hook is three pieces (\<open>hook_begin\<close> up to the lockout test, \<open>hook_reset\<close>, \<open>hook_finish\<close> from the comparison of
    the password on); \<open>runBeforeAuthHook\<close> runs them in a row, the machine \<open>hook_run\<close> interleaves those of many requests. The
    lockout bounds sequential guesses; parallel ones overshoot it.
  \<^item> \<open>Live_Sync\<close>: \<^verbatim>\<open>server/sync/syncManager.ts\<close> and the nightly job of \<^verbatim>\<open>cronTasks.ts\<close>. Timer loops as a step
    relation over shared state objects; the reference count refines the number of viewers.
  \<^item> \<open>Live_Sockets\<close>: \<^verbatim>\<open>pages/api/websocket/index.ts\<close>. Sockets whose subscriptions wait for the access check, interleaved with
    every other event: a subscribed network is synced, a room needs access, and a late subscription leaks its reference.
  \<^item> \<open>Member_Observation\<close>: \<^verbatim>\<open>utils/memberConnection.ts\<close>, \<^verbatim>\<open>server/api/utils/memberObservation.ts\<close>. What a snapshot of the
    controller changes in a member row, with the debounce of connection changes.
  \<^item> \<open>Notifications\<close>: \<^verbatim>\<open>utils/notificationTemplates.ts\<close>, \<^verbatim>\<open>server/notifications/service.ts\<close>,
    \<^verbatim>\<open>server/api/routers/notificationRouter.ts\<close>. Template language and outbox; a delivery reaches the gateway at most once.
  \<^item> \<open>Members\<close>: \<^verbatim>\<open>server/api/services/memberService.ts\<close>. The reconcile against its specification; the incremental
    reconcile equals the full one when every row with the revision the controller reports (\<open>unmoved\<close>) is up to date.
  \<^item> \<open>Outbound_Guard\<close>: \<^verbatim>\<open>utils/ssrfGuard.ts\<close>, \<^verbatim>\<open>utils/webhook.ts\<close>. Webhooks reach public addresses only.
  \<^item> \<open>Edge_Config\<close>: \<^verbatim>\<open>utils/rateLimit.ts\<close>, \<^verbatim>\<open>lib/managementOrigin.ts\<close>, \<^verbatim>\<open>utils/planet.ts\<close>.
  \<^item> \<open>Organizations\<close>: the procedures of \<^verbatim>\<open>server/api/routers/organizationRouter.ts\<close> on members, roles, invitations and
    networks, and \<^verbatim>\<open>server/api/services/networkService.ts\<close>.
  \<^item> \<open>Accounts\<close>: registration, password reset and profile (\<^verbatim>\<open>server/api/routers/authRouter.ts\<close>,
    \<^verbatim>\<open>server/api/services/organizationAuthService.ts\<close>), users and groups of \<^verbatim>\<open>server/api/routers/adminRoute.ts\<close>. Interleaved
    registrations, the closed bootstrap (by registration: OAuth sign-ups and accounts an administrator creates are separate
    operations), the two stores of a password. A profile update reads its row (\<open>auth_update_begin\<close>) and writes the
    whole of it later (\<open>auth_update_commit\<close>); \<open>store_step\<close> interleaves these with everything else that writes passwords.
  \<^item> \<open>Member_Procedures\<close>: \<^verbatim>\<open>server/api/routers/memberRouter.ts\<close>. Requests of any callers stay in the network they name and the
    scope of a renaming (interpretation of the prelude's locale \<open>scoped_requests\<close>), keep the member table well formed,
    and a stashed member stays hidden. A renaming creates a settings row (\<open>pr_orgSettings\<close>) for the organisation it names.
  \<^item> \<open>Rule_Compiler\<close>: \<^verbatim>\<open>utils/rule-compiler.js\<close>, the whole compiler of the rules language. Documents printed with any
    blanks, comments and semicolons parse back, the output is well formed as far as the compiler checks it, macro
    expansion ends when the macros can be ranked.
  \<^item> \<open>Network_Procedures\<close>: \<^verbatim>\<open>server/api/routers/networkRouter.ts\<close>, \<^verbatim>\<open>utils/sorting.ts\<close>. Requests stay in their network (locale
    \<open>guarded_requests\<close>) except for the notes of routes, pages cover the members, the page of a network mirrors the controller's routes, deletion
    deauthorises first, flow rules round-trip.
  \<^item> \<open>Second_Factor\<close>: \<^verbatim>\<open>pages/api/auth/two-factor/totp/*.ts\<close>, \<^verbatim>\<open>server/api/routers/mfaAuthRouter.ts\<close>. A factor goes off only with
    a proof, interleaved recoveries never use a code twice, an enabled factor guards the sign-in.
  \<^item> \<open>Controller_Client\<close>: \<^verbatim>\<open>utils/ztApi.ts\<close>, \<^verbatim>\<open>server/helpers/errorHandler.ts\<close>, the options of \<^verbatim>\<open>authRouter.ts\<close> it reads. The
    controller's secret goes to the controller only, where a new options row starts with the column defaults or the
    defaults of the environment; cached credentials are recent.
  \<^item> \<open>Rest_Api\<close>: \<^verbatim>\<open>pages/api/v1\<close> (networks and members), \<^verbatim>\<open>server/api/v1Schemas\<close>. Handlers composed of the guards and the
    procedures of the theories above; requests with plain ids stay in reach of their token (locale \<open>guarded_requests\<close>,
    with the controller's addresses as they resolve), stashed
    members are protected, updates reach the database and the controller.
  \<^item> \<open>Api_Tokens\<close>: the tokens and devices of \<^verbatim>\<open>authRouter.ts\<close> and \<^verbatim>\<open>pages/api/v1/user/index.ts\<close>. A created token passes the guard
    of the REST interface until it expires or is deleted; users are created by administrators.
  \<^item> \<open>Org_Hub\<close>: the rest of \<^verbatim>\<open>organizationRouter.ts\<close>: chat, webhooks, settings, templates, pages, the background
    reconcile and deletion, on one database with the network procedures. The tables of an organisation change only for
    its members with the role, as far as the requests of this router go (locale \<open>guarded_requests\<close>), stored webhooks are
    public, deletion leaves no row but detached webhooks and touches no other organisation.
  \<^bold>\<open>Bounds and fuel.\<close> Recursions are structural or have a measure. The blocked-address check has fuel, for
  which two levels are shown to be enough; the rule compiler has the depth of the call stack as its bound on nested
  macros, and running out of it is the error \<open>StackOverflow\<close>; a depth above the ranks of the macros is shown not to run out,
  and a macro that includes itself exhausts every depth. Numeric limits are those of the
  source (32-bit columns, the lockout and session bounds, the rate limits).

  \<^bold>\<open>Not modelled.\<close> The user interface, translations and mail transport (no logic of their own or pure output);
  the configuration agent, the relay and the scripts (other languages);
  system settings, backups and planet generation, of the organisation router the list for administrators and the test
  mail, and of the account router the queries and e-mail verification. The REST pages that list organisations, create networks and
  count for statistics only call procedures. The monitor loop of \<^verbatim>\<open>cronTasks.ts\<close> only schedules the modelled reconcile.
\<close>

end
